(* ===== verification/Prelude.thy ===== *)
theory Prelude
  imports Main "HOL-Library.Word"
begin

text \<open>
  Shared vocabulary of the development: the machine integers of the C sources, the result type
  of fallible functions, memory allocation, bounded loops with early return, and the generic
  lemmas on lists and words that the component theories use.
\<close>

unbundle bit_operations_syntax

named_theorems bitmap_simps \<open>characteristic equations of the extensible bitmap operations\<close>
named_theorems table_simps \<open>characteristic equations of the table operations\<close>
named_theorems mls_simps \<open>characteristic equations of the MLS operations\<close>

section \<open>Machine integers\<close>

type_synonym u8 = "8 word"
type_synonym u16 = "16 word"
type_synonym u32 = "32 word"
type_synonym u64 = "64 word"

section \<open>Results of fallible functions\<close>

text \<open>
  The negative return codes of the library (\<^verbatim>\<open>-ENOMEM\<close>, \<^verbatim>\<open>SEPOL_ENOMEM\<close>,
  \<^verbatim>\<open>-EINVAL\<close>, \<dots>, \<^verbatim>\<open>STATUS_ERR\<close>/\<^verbatim>\<open>-1\<close> for an unspecific failure).
  \<open>UB\<close> is not a code of the library: it is the result of an execution that reads out of the
  bounds of an array, dereferences a null pointer or shifts by at least the width of the type,
  so that a theorem stating that \<open>UB\<close> does not occur is a memory-safety statement.
\<close>

datatype err = ENOMEM | EINVAL | EEXIST | ENOENT | EACCES | EPERM | STATUS_ERR | UB

type_synonym 'a result = "err + 'a"

definition rbind :: "'a result \<Rightarrow> ('a \<Rightarrow> 'b result) \<Rightarrow> 'b result" where
  "rbind r f = (case r of Inl e \<Rightarrow> Inl e | Inr x \<Rightarrow> f x)"

text \<open>\<open>idx xs i\<close> is the C array access \<^verbatim>\<open>xs[i]\<close>, undefined out of bounds.\<close>

definition idx :: "'a list \<Rightarrow> nat \<Rightarrow> 'a result" where
  "idx xs i = (if i < length xs then Inr (xs ! i) else Inl UB)"

section \<open>Memory allocation\<close>

text \<open>
  Whether an allocation succeeds is decided by the environment.  A function that allocates takes
  an allocator: a predicate on dynamic call sites.  A call site is the path of numbers that leads
  from the function called to the call of \<^verbatim>\<open>malloc\<close>: \<open>at_site k m\<close> is the allocator handed to
  the \<open>k\<close>-th call (or loop iteration), and \<open>malloc m\<close> says whether the allocation made at the
  current site succeeds.  Every pattern of successes and failures is an allocator, and
  \<open>no_oom\<close> is the allocator of a machine that never runs out of memory.
\<close>

type_synonym alloc = "nat list \<Rightarrow> bool"

definition at_site :: "nat \<Rightarrow> alloc \<Rightarrow> alloc" where
  "at_site k m = (\<lambda>p. m (k # p))"

definition malloc :: "alloc \<Rightarrow> bool" where
  "malloc m = m []"

definition no_oom :: alloc where
  "no_oom = (\<lambda>_. True)"

section \<open>Loops with early return\<close>

text \<open>\<^verbatim>\<open>for (i \<in> xs) { s = f(i, s); if (error) return; }\<close>\<close>

fun for_each :: "('i \<Rightarrow> 's \<Rightarrow> 's result) \<Rightarrow> 'i list \<Rightarrow> 's \<Rightarrow> 's result" where
  "for_each f [] s = Inr s"
| "for_each f (x # xs) s = (case f x s of Inl e \<Rightarrow> Inl e | Inr s' \<Rightarrow> for_each f xs s')"

text \<open>\<^verbatim>\<open>for (i = 0; i < n; i++)\<close> with an unsigned 32 bit counter.\<close>

definition upto32 :: "u32 \<Rightarrow> u32 list" where
  "upto32 n = map of_nat [0..<unat n]"

section \<open>Generic lemmas\<close>

lemma rbind_simps [simp]: "rbind (Inl e) f = Inl e" "rbind (Inr x) f = f x"
  by (simp_all add: rbind_def)

lemma rbind_eq_Inr_iff: "rbind r f = Inr y \<longleftrightarrow> (\<exists>x. r = Inr x \<and> f x = Inr y)"
  by (cases r) simp_all

lemma rbind_eq_Inl_iff: "rbind r f = Inl e \<longleftrightarrow> r = Inl e \<or> (\<exists>x. r = Inr x \<and> f x = Inl e)"
  by (cases r) simp_all

lemma idx_less [simp]: "i < length xs \<Longrightarrow> idx xs i = Inr (xs ! i)"
  by (simp add: idx_def)

lemma idx_eq_Inr_iff: "idx xs i = Inr x \<longleftrightarrow> i < length xs \<and> xs ! i = x"
  by (auto simp: idx_def)

lemma at_site_no_oom [simp]: "at_site k no_oom = no_oom"
  by (simp add: at_site_def no_oom_def)

lemma malloc_no_oom [simp]: "malloc no_oom"
  by (simp add: malloc_def no_oom_def)

lemma for_each_append:
  "for_each f (xs @ ys) s = rbind (for_each f xs s) (for_each f ys)"
  by (induction xs arbitrary: s) (auto split: sum.split)

text \<open>The loop rule: an invariant indexed by the part of the list already processed.\<close>

lemma for_each_invar:
  assumes "for_each f xs s = Inr s'" and "I [] s"
    and "\<And>ys y zs s s'. xs = ys @ y # zs \<Longrightarrow> I ys s \<Longrightarrow> f y s = Inr s' \<Longrightarrow> I (ys @ [y]) s'"
  shows "I xs s'"
  using assms
proof (induction xs arbitrary: s' rule: rev_induct)
  case Nil
  then show ?case by simp
next
  case (snoc x xs)
  from snoc.prems(1) obtain t where t: "for_each f xs s = Inr t" and x: "f x t = Inr s'"
    by (cases "for_each f xs s") (auto simp: for_each_append split: sum.splits)
  have "I xs t"
  proof (rule snoc.IH [OF t snoc.prems(2)])
    fix ys y zs u u'
    assume "xs = ys @ y # zs" "I ys u" "f y u = Inr u'"
    then show "I (ys @ [y]) u'"
      by (intro snoc.prems(3) [of ys y "zs @ [x]" u u']) simp_all
  qed
  then show ?case
    using x by (intro snoc.prems(3) [of xs x "[]" t s']) simp_all
qed

text \<open>The total version: a loop whose body cannot fail under the invariant returns.\<close>

lemma for_each_keeps:
  assumes "for_each f xs s = Inr s'" and "I s" and "\<And>x s s'. x \<in> set xs \<Longrightarrow> I s \<Longrightarrow> f x s = Inr s' \<Longrightarrow> I s'"
  shows "I s'"
  using for_each_invar [of f xs s s' "\<lambda>_. I"] assms by (metis in_set_conv_decomp)

lemma for_each_total:
  assumes "I [] s"
    and "\<And>ys y zs s. xs = ys @ y # zs \<Longrightarrow> I ys s \<Longrightarrow> \<exists>s'. f y s = Inr s' \<and> I (ys @ [y]) s'"
  shows "\<exists>s'. for_each f xs s = Inr s' \<and> I xs s'"
  using assms
proof (induction xs rule: rev_induct)
  case Nil
  then show ?case by simp
next
  case (snoc x xs)
  have "\<exists>t. for_each f xs s = Inr t \<and> I xs t"
  proof (rule snoc.IH [OF snoc.prems(1)])
    fix ys y zs u
    assume "xs = ys @ y # zs" "I ys u"
    then show "\<exists>u'. f y u = Inr u' \<and> I (ys @ [y]) u'"
      by (intro snoc.prems(2) [of ys y "zs @ [x]" u]) simp_all
  qed
  then obtain t where t: "for_each f xs s = Inr t" "I xs t" by blast
  with snoc.prems(2) [of xs x "[]" t] show ?case
    by (auto simp: for_each_append)
qed

lemma for_each_error:
  assumes "for_each f xs s = Inl e"
  shows "\<exists>x t. x \<in> set xs \<and> f x t = Inl e"
  using assms
proof (induction xs arbitrary: s)
  case Nil
  then show ?case by simp
next
  case (Cons x xs)
  show ?case
  proof (cases "f x s")
    case (Inl e')
    with Cons.prems have "f x s = Inl e" by simp
    then show ?thesis by force
  next
    case (Inr t)
    with Cons.prems have "for_each f xs t = Inl e" by simp
    then show ?thesis using Cons.IH [of t] by force
  qed
qed

lemma length_upto32 [simp]: "length (upto32 n) = unat n"
  by (simp add: upto32_def)

lemma unat_less_2p32: "unat (w :: u32) < 2 ^ 32"
  using unsigned_less [of w] by simp

lemma unat_of_nat32: "k < unat (n :: u32) \<Longrightarrow> unat (of_nat k :: u32) = k"
  using unat_less_2p32 [of n] by (simp add: unat_of_nat)

lemma upto32_nth: "k < unat n \<Longrightarrow> upto32 n ! k = of_nat k"
  by (simp add: upto32_def)

lemma set_upto32: "set (upto32 n) = {i. i < n}"
proof (rule set_eqI)
  fix i
  have "i \<in> set (upto32 n) \<longleftrightarrow> (\<exists>k < unat n. i = of_nat k)"
    by (auto simp: upto32_def)
  also have "\<dots> \<longleftrightarrow> unat i < unat n"
    by (metis unat_of_nat32 word_nat_cases word_unat_eq_iff of_nat_unat)
  finally show "i \<in> set (upto32 n) \<longleftrightarrow> i \<in> {i. i < n}"
    by (simp add: word_less_nat_alt)
qed

lemma distinct_upto32 [simp]: "distinct (upto32 n)"
proof -
  have "inj_on (of_nat :: nat \<Rightarrow> u32) {0..<unat n}"
    by (rule inj_onI) (metis unat_of_nat32 atLeastLessThan_iff)
  then show ?thesis
    by (simp add: upto32_def distinct_map)
qed

text \<open>A prefix of the counter's values is determined by the next value.\<close>

lemma upto32_prefix:
  assumes "upto32 n = ys @ y # zs"
  shows "y < n" and "set ys = {i. i < y}"
proof -
  show less: "y < n" using assms set_upto32 [of n] by auto
  have "length ys < unat n"
    using arg_cong [OF assms, of length] by simp
  then have "y = of_nat (length ys)"
    using upto32_nth [of "length ys" n] by (simp add: assms nth_append)
  with \<open>length ys < unat n\<close> have y: "unat y = length ys"
    using unat_of_nat32 by blast
  have "ys = map of_nat [0..<length ys]"
    using arg_cong [OF assms, of "take (length ys)"] \<open>length ys < unat n\<close>
    by (simp add: upto32_def take_map take_upt)
  then have "ys = upto32 y"
    by (simp add: upto32_def y)
  then show "set ys = {i. i < y}"
    by (simp add: set_upto32)
qed

lemma test_bit_and_power: "(w AND 2 ^ k \<noteq> 0) \<longleftrightarrow> bit w k" for w :: "'a::len word"
  using bit_iff_and_push_bit_not_eq_0 [of w k] by simp

lemma bit_less_64: "bit (w :: u64) k \<Longrightarrow> k < 64"
  using bit_imp_le_length [of w k] by simp

lemma sint_small:
  assumes "unat (w :: u32) = k" and "k < 2 ^ 31"
  shows "sint w = int k"
proof -
  have "uint w = int k" using assms(1) by (metis uint_nat)
  then show ?thesis
    using assms(2) by (simp add: sint_uint signed_take_bit_int_eq_self)
qed

end
