(* ===== verification/Hashtab.thy ===== *)
theory Hashtab
  imports Prelude
begin

text \<open>
  The generic hash table of \<^verbatim>\<open>libsepol/src/hashtab.c\<close>: an array of chains, each sorted by the
  comparison function of the table.  A handle is a pointer that may be null, hence an option.
  Callbacks (\<^verbatim>\<open>destroy\<close>, \<^verbatim>\<open>apply\<close>) are functions on the state that stands for their \<^verbatim>\<open>args\<close>.

  For every pair of a hash function and a comparison function that satisfies the laws of the
  locale \<open>hash_keys\<close>, the table implements a finite map.
\<close>

section \<open>Data\<close>

record ('k, 'd) hashtab_val =
  htable :: "('k \<times> 'd) list list"
  hsize :: u32
  nel :: u32
  hash_value :: "u32 \<Rightarrow> 'k \<Rightarrow> u32"
  keycmp :: "'k \<Rightarrow> 'k \<Rightarrow> int"

type_synonym ('k, 'd) hashtab = "('k, 'd) hashtab_val option"

section \<open>Operations\<close>

definition hashtab_create ::
  "alloc \<Rightarrow> (u32 \<Rightarrow> 'k \<Rightarrow> u32) \<Rightarrow> ('k \<Rightarrow> 'k \<Rightarrow> int) \<Rightarrow> u32 \<Rightarrow> ('k, 'd) hashtab"
where
  "hashtab_create m hv kc sz =
     (if \<not> malloc (at_site 0 m) then None
      else if \<not> malloc (at_site 1 m) then None
      else Some \<lparr>htable = replicate (unat sz) [], hsize = sz, nel = 0, hash_value = hv, keycmp = kc\<rparr>)"

text \<open>
  \<^verbatim>\<open>h->htable[hvalue]\<close>: the hash value is stored in a signed variable before it is used as an
  index.
\<close>

definition slot :: "('k, 'd) hashtab_val \<Rightarrow> 'k \<Rightarrow> nat result" where
  "slot h key =
     (let hvalue = sint (hash_value h (hsize h) key) in
      if 0 \<le> hvalue \<and> nat hvalue < length (htable h) then Inr (nat hvalue) else Inl UB)"

text \<open>
  The search loop of all operations: the nodes passed, last one first, and the list from the
  current node on.
\<close>

fun chain_loop ::
  "('k \<Rightarrow> 'k \<Rightarrow> int) \<Rightarrow> 'k \<Rightarrow> ('k \<times> 'd) list \<Rightarrow> ('k \<times> 'd) list \<Rightarrow> ('k \<times> 'd) list \<times> ('k \<times> 'd) list"
where
  "chain_loop cmp key prev [] = (prev, [])"
| "chain_loop cmp key prev (n # cur) =
     (if cmp key (fst n) > 0 then chain_loop cmp key (n # prev) cur else (prev, n # cur))"

definition hashtab_insert :: "alloc \<Rightarrow> ('k, 'd) hashtab \<Rightarrow> 'k \<Rightarrow> 'd \<Rightarrow> ('k, 'd) hashtab result" where
  "hashtab_insert m hp key datum =
     (case hp of
        None \<Rightarrow> Inl ENOMEM
      | Some h \<Rightarrow>
          rbind (slot h key) (\<lambda>i.
            case chain_loop (keycmp h) key [] (htable h ! i) of (prev, cur) \<Rightarrow>
              if cur \<noteq> [] \<and> keycmp h key (fst (hd cur)) = 0 then Inl EEXIST
              else if \<not> malloc m then Inl ENOMEM
              else Inr (Some (h\<lparr>htable := (htable h)[i := rev prev @ (key, datum) # cur],
                                nel := nel h + 1\<rparr>))))"

definition run_destroy ::
  "('k \<Rightarrow> 'd \<Rightarrow> 's \<Rightarrow> 's) option \<Rightarrow> 'k \<times> 'd \<Rightarrow> 's \<Rightarrow> 's"
where
  "run_destroy dest n args = (case dest of None \<Rightarrow> args | Some f \<Rightarrow> f (fst n) (snd n) args)"

definition hashtab_remove ::
  "('k, 'd) hashtab \<Rightarrow> 'k \<Rightarrow> ('k \<Rightarrow> 'd \<Rightarrow> 's \<Rightarrow> 's) option \<Rightarrow> 's \<Rightarrow> (('k, 'd) hashtab \<times> 's) result"
where
  "hashtab_remove hp key dest args =
     (case hp of
        None \<Rightarrow> Inl ENOENT
      | Some h \<Rightarrow>
          rbind (slot h key) (\<lambda>i.
            case chain_loop (keycmp h) key [] (htable h ! i) of
              (prev, []) \<Rightarrow> Inl ENOENT
            | (prev, n # rest) \<Rightarrow>
                if keycmp h key (fst n) \<noteq> 0 then Inl ENOENT
                else Inr (Some (h\<lparr>htable := (htable h)[i := rev prev @ rest], nel := nel h - 1\<rparr>),
                          run_destroy dest n args)))"

definition hashtab_replace ::
  "alloc \<Rightarrow> ('k, 'd) hashtab \<Rightarrow> 'k \<Rightarrow> 'd \<Rightarrow> ('k \<Rightarrow> 'd \<Rightarrow> 's \<Rightarrow> 's) option \<Rightarrow> 's
     \<Rightarrow> (('k, 'd) hashtab \<times> 's) result"
where
  "hashtab_replace m hp key datum dest args =
     (case hp of
        None \<Rightarrow> Inl ENOMEM
      | Some h \<Rightarrow>
          rbind (slot h key) (\<lambda>i.
            case chain_loop (keycmp h) key [] (htable h ! i) of (prev, cur) \<Rightarrow>
              if cur \<noteq> [] \<and> keycmp h key (fst (hd cur)) = 0
              then Inr (Some (h\<lparr>htable := (htable h)[i := rev prev @ (key, datum) # tl cur]\<rparr>),
                        run_destroy dest (hd cur) args)
              else if \<not> malloc m then Inl ENOMEM
              else Inr (Some (h\<lparr>htable := (htable h)[i := rev prev @ (key, datum) # cur]\<rparr>), args)))"

definition hashtab_search :: "('k, 'd) hashtab \<Rightarrow> 'k \<Rightarrow> 'd option result" where
  "hashtab_search hp key =
     (case hp of
        None \<Rightarrow> Inr None
      | Some h \<Rightarrow>
          rbind (slot h key) (\<lambda>i.
            case chain_loop (keycmp h) key [] (htable h ! i) of
              (_, []) \<Rightarrow> Inr None
            | (_, n # _) \<Rightarrow> if keycmp h key (fst n) \<noteq> 0 then Inr None else Inr (Some (snd n))))"

text \<open>\<^verbatim>\<open>hashtab_destroy\<close> releases the nodes chain by chain; the result lists the nodes freed.\<close>

definition hashtab_destroy :: "('k, 'd) hashtab \<Rightarrow> ('k \<times> 'd) list result" where
  "hashtab_destroy hp =
     (case hp of
        None \<Rightarrow> Inr []
      | Some h \<Rightarrow>
          for_each (\<lambda>i freed. rbind (idx (htable h) (unat i)) (\<lambda>chain. Inr (freed @ chain)))
            (upto32 (hsize h)) [])"

definition hashtab_map :: "('k, 'd) hashtab \<Rightarrow> ('k \<Rightarrow> 'd \<Rightarrow> 's \<Rightarrow> 's result) \<Rightarrow> 's \<Rightarrow> 's result" where
  "hashtab_map hp f args =
     (case hp of
        None \<Rightarrow> Inr args
      | Some h \<Rightarrow>
          for_each (\<lambda>i s. rbind (idx (htable h) (unat i)) (\<lambda>chain. for_each (\<lambda>n. f (fst n) (snd n)) chain s))
            (upto32 (hsize h)) args)"

text \<open>One chain of \<^verbatim>\<open>hashtab_map_remove_on_error\<close>; \<open>f\<close> returns whether it reported an error.\<close>

fun prune_chain ::
  "('k \<Rightarrow> 'd \<Rightarrow> 's \<Rightarrow> bool \<times> 's) \<Rightarrow> ('k \<Rightarrow> 'd \<Rightarrow> 's \<Rightarrow> 's) option \<Rightarrow> ('k \<times> 'd) list \<Rightarrow> u32 \<Rightarrow> 's
     \<Rightarrow> ('k \<times> 'd) list \<times> u32 \<times> 's"
where
  "prune_chain f dest [] ne s = ([], ne, s)"
| "prune_chain f dest (n # cur) ne s =
     (case f (fst n) (snd n) s of
        (True, s') \<Rightarrow> prune_chain f dest cur (ne - 1) (run_destroy dest n s')
      | (False, s') \<Rightarrow> (case prune_chain f dest cur ne s' of (c, ne', s'') \<Rightarrow> (n # c, ne', s'')))"

definition hashtab_map_remove_on_error ::
  "('k, 'd) hashtab \<Rightarrow> ('k \<Rightarrow> 'd \<Rightarrow> 's \<Rightarrow> bool \<times> 's) \<Rightarrow> ('k \<Rightarrow> 'd \<Rightarrow> 's \<Rightarrow> 's) option \<Rightarrow> 's
     \<Rightarrow> (('k, 'd) hashtab \<times> 's) result"
where
  "hashtab_map_remove_on_error hp f dest args =
     (case hp of
        None \<Rightarrow> Inr (None, args)
      | Some h \<Rightarrow>
          rbind
            (for_each (\<lambda>i (h, s). rbind (idx (htable h) (unat i)) (\<lambda>chain.
                case prune_chain f dest chain (nel h) s of (c, ne, s') \<Rightarrow>
                  Inr (h\<lparr>htable := (htable h)[unat i := c], nel := ne\<rparr>, s')))
              (upto32 (hsize h)) (h, args))
            (\<lambda>(h, s). Inr (Some h, s)))"

text \<open>
  The figures printed by \<^verbatim>\<open>hashtab_hash_eval\<close>: entries, buckets used, buckets, longest chain.
\<close>

definition hashtab_hash_eval :: "('k, 'd) hashtab_val \<Rightarrow> (u32 \<times> nat \<times> u32 \<times> nat) result" where
  "hashtab_hash_eval h =
     rbind
       (for_each (\<lambda>i (used, longest). rbind (idx (htable h) (unat i)) (\<lambda>chain.
           if chain \<noteq> [] then Inr (used + 1, if length chain > longest then length chain else longest)
           else Inr (used, longest)))
         (upto32 (hsize h)) (0, 0))
       (\<lambda>(used, longest). Inr (nel h, used, hsize h, longest))"

section \<open>Finite maps\<close>

definition entries :: "('k, 'd) hashtab_val \<Rightarrow> ('k \<times> 'd) list" where
  "entries h = concat (htable h)"

definition hmap :: "('k, 'd) hashtab_val \<Rightarrow> 'k \<rightharpoonup> 'd" where
  "hmap h = map_of (entries h)"

text \<open>The chain a key belongs to.\<close>

definition home :: "('k, 'd) hashtab_val \<Rightarrow> 'k \<Rightarrow> nat" where
  "home h k = unat (hash_value h (hsize h) k)"

text \<open>
  A well-formed table for given hash and comparison functions: the array has the size the table
  claims, every key is in the chain its hash value selects, and the chains are strictly sorted.
  \<open>nel_ok\<close> says that the element count is right.
\<close>

definition chain_sorted :: "('k \<Rightarrow> 'k \<Rightarrow> int) \<Rightarrow> ('k \<times> 'd) list \<Rightarrow> bool" where
  "chain_sorted cmp c \<longleftrightarrow> sorted_wrt (\<lambda>a b. cmp (fst b) (fst a) > 0) c"

definition hashtab_wf ::
  "(u32 \<Rightarrow> bool) \<Rightarrow> (u32 \<Rightarrow> 'k \<Rightarrow> u32) \<Rightarrow> ('k \<Rightarrow> 'k \<Rightarrow> int) \<Rightarrow> ('k, 'd) hashtab_val \<Rightarrow> bool"
where
  "hashtab_wf good hash cmp h \<longleftrightarrow>
     hash_value h = hash \<and> keycmp h = cmp \<and> good (hsize h) \<and> length (htable h) = unat (hsize h) \<and>
     (\<forall>i < length (htable h). chain_sorted cmp (htable h ! i) \<and>
        (\<forall>n \<in> set (htable h ! i). unat (hash (hsize h) (fst n)) = i))"

definition nel_ok :: "('k, 'd) hashtab_val \<Rightarrow> bool" where
  "nel_ok h \<longleftrightarrow> nel h = of_nat (length (entries h))"

text \<open>
  The laws the table needs of its key functions: the comparison is a linear order, and the hash
  values of a table of an admissible size are indices that a signed integer can hold.
\<close>

locale hash_keys =
  fixes good :: "u32 \<Rightarrow> bool"
    and hash :: "u32 \<Rightarrow> 'k \<Rightarrow> u32"
    and cmp :: "'k \<Rightarrow> 'k \<Rightarrow> int"
  assumes cmp_eq: "cmp x y = 0 \<longleftrightarrow> x = y"
    and cmp_swap: "cmp x y > 0 \<longleftrightarrow> cmp y x < 0"
    and cmp_trans: "cmp x y > 0 \<Longrightarrow> cmp y z > 0 \<Longrightarrow> cmp x z > 0"
    and hash_less: "good sz \<Longrightarrow> hash sz k < sz"
    and good_size: "good sz \<Longrightarrow> unat sz \<le> 2 ^ 31"

text \<open>The contract of a symbol table: a finite map with error codes.\<close>

locale lookup_table =
  fixes inv :: "'t \<Rightarrow> bool"
    and find :: "'t \<Rightarrow> 'k \<Rightarrow> 'd option result"
    and add :: "alloc \<Rightarrow> 't \<Rightarrow> 'k \<Rightarrow> 'd \<Rightarrow> 't result"
    and content :: "'t \<Rightarrow> 'k \<rightharpoonup> 'd"
  assumes find_content: "inv t \<Longrightarrow> find t k = Inr (content t k)"
    and add_new: "inv t \<Longrightarrow> content t k = None \<Longrightarrow> malloc m \<Longrightarrow>
          \<exists>t'. add m t k d = Inr t' \<and> inv t' \<and> content t' = (content t)(k \<mapsto> d)"
    and add_dup: "inv t \<Longrightarrow> content t k \<noteq> None \<Longrightarrow> add m t k d = Inl EEXIST"
    and add_oom: "inv t \<Longrightarrow> content t k = None \<Longrightarrow> \<not> malloc m \<Longrightarrow> add m t k d = Inl ENOMEM"
begin

lemma add_Inr_iff:
  assumes "inv t"
  shows "add m t k d = Inr t' \<Longrightarrow> inv t' \<and> content t k = None \<and> content t' = (content t)(k \<mapsto> d)"
  using assms add_new [of t k m d] add_dup [of t k m d] add_oom [of t k m d]
  by (cases "content t k"; cases "malloc m") auto

text \<open>Inserting a list of entries with distinct new keys one after the other.\<close>

lemma add_all:
  assumes "inv t" and "distinct (map fst es)" and "\<forall>e \<in> set es. content t (fst e) = None"
  shows "\<exists>t'. for_each (\<lambda>e t. add no_oom t (fst e) (snd e)) es t = Inr t' \<and> inv t' \<and>
              content t' = content t ++ map_of es"
  using assms
proof (induction es arbitrary: t)
  case (Cons e es)
  obtain t1 where t1: "add no_oom t (fst e) (snd e) = Inr t1" "inv t1"
    and c1: "content t1 = (content t)(fst e \<mapsto> snd e)"
    using add_new [of t "fst e" no_oom "snd e"] Cons.prems by auto
  have "content t1 (fst e') = None" if "e' \<in> set es" for e'
    using Cons.prems that by (auto simp: c1 rev_image_eqI)
  then obtain t' where r: "for_each (\<lambda>e t. add no_oom t (fst e) (snd e)) es t1 = Inr t'" "inv t'"
    and c': "content t' = content t1 ++ map_of es"
    using Cons.IH [of t1] t1(2) Cons.prems(2) by fastforce
  have "content t1 ++ map_of es = content t ++ map_of (e # es)"
  proof -
    have "map_of es (fst e) = None" using Cons.prems(2) by (simp add: map_of_eq_None_iff)
    then show ?thesis by (auto simp: c1 map_add_def fun_eq_iff split: option.split)
  qed
  with c' have "content t' = content t ++ map_of (e # es)" by (rule trans)
  moreover have "for_each (\<lambda>e t. add no_oom t (fst e) (snd e)) (e # es) t = Inr t'"
    using t1(1) r(1) by simp
  ultimately show ?case using r(2) by blast
qed auto

end

section \<open>Lemmas\<close>

lemma chain_sorted_Cons:
  "chain_sorted cmp (n # c) \<longleftrightarrow> (\<forall>b \<in> set c. cmp (fst b) (fst n) > 0) \<and> chain_sorted cmp c"
  by (simp add: chain_sorted_def)

lemma chain_sorted_append:
  "chain_sorted cmp (a @ c) \<longleftrightarrow>
     chain_sorted cmp a \<and> chain_sorted cmp c \<and> (\<forall>x \<in> set a. \<forall>y \<in> set c. cmp (fst y) (fst x) > 0)"
  by (auto simp: chain_sorted_def sorted_wrt_append)

lemma chain_loop_append:
  "chain_loop cmp key prev c = (p, cur) \<Longrightarrow>
     rev prev @ c = rev p @ cur \<and> (\<forall>n \<in> set p - set prev. cmp key (fst n) > 0) \<and>
     (cur \<noteq> [] \<longrightarrow> \<not> cmp key (fst (hd cur)) > 0)"
proof (induction cmp key prev c rule: chain_loop.induct)
  case (2 cmp key prev n cur')
  then show ?case by (cases "cmp key (fst n) > 0") auto
qed auto

lemma entries_update:
  assumes "i < length (htable h)"
  shows "concat ((htable h)[i := c]) =
    concat (take i (htable h)) @ c @ concat (drop (Suc i) (htable h))"
  using assms by (simp add: upd_conv_take_nth_drop)

lemma entries_split:
  assumes "i < length (htable h)"
  shows "entries h = concat (take i (htable h)) @ htable h ! i @ concat (drop (Suc i) (htable h))"
  using assms by (metis concat.simps(2) concat_append entries_def id_take_nth_drop)

context hash_keys
begin

lemma cmp_refl [simp]: "cmp x x = 0"
  by (simp add: cmp_eq)

lemma cmp_cases: "cmp x y > 0 \<or> x = y \<or> cmp y x > 0"
  using cmp_eq [of x y] cmp_swap [of y x] by linarith

lemma wfD:
  assumes "hashtab_wf good hash cmp h"
  shows "hash_value h = hash" and "keycmp h = cmp" and "good (hsize h)"
    and "length (htable h) = unat (hsize h)"
    and "\<And>i. i < length (htable h) \<Longrightarrow> chain_sorted cmp (htable h ! i)"
    and "\<And>i n. i < length (htable h) \<Longrightarrow> n \<in> set (htable h ! i) \<Longrightarrow> unat (hash (hsize h) (fst n)) = i"
  using assms by (auto simp: hashtab_wf_def)

lemma home_less: "hashtab_wf good hash cmp h \<Longrightarrow> home h k < length (htable h)"
  using hash_less [of "hsize h" k] by (simp add: home_def wfD(1,3,4) word_less_nat_alt)

lemma slot_home:
  assumes "hashtab_wf good hash cmp h"
  shows "slot h k = Inr (home h k)"
proof -
  have less: "home h k < length (htable h)" using assms by (rule home_less)
  moreover have "unat (hsize h) \<le> 2 ^ 31" using good_size [OF wfD(3) [OF assms]] .
  ultimately have "home h k < 2 ^ 31" using wfD(4) [OF assms] by linarith
  then have "sint (hash (hsize h) k) = int (home h k)"
    by (intro sint_small) (simp_all add: home_def wfD(1) [OF assms])
  with less show ?thesis by (simp add: slot_def wfD(1) [OF assms])
qed

text \<open>Looking up a key in the whole table is looking it up in its chain.\<close>

lemma hmap_home:
  assumes "hashtab_wf good hash cmp h"
  shows "hmap h k = map_of (htable h ! home h k) k"
proof -
  have other: "k \<notin> fst ` set (htable h ! j)" if "j < length (htable h)" "j \<noteq> home h k" for j
    using wfD(6) [OF assms that(1)] that(2) by (auto simp: home_def wfD(1) [OF assms])
  have none: "map_of (concat cs) k = None" if "\<forall>c \<in> set cs. k \<notin> fst ` set c" for cs :: "('k \<times> 'b) list list"
    using that by (auto simp: map_of_eq_None_iff)
  have before: "\<forall>c \<in> set (take (home h k) (htable h)). k \<notin> fst ` set c"
  proof
    fix c assume "c \<in> set (take (home h k) (htable h))"
    then obtain j where "j < home h k" "j < length (htable h)" "c = htable h ! j"
      by (auto simp: in_set_conv_nth [of c])
    with other show "k \<notin> fst ` set c" by blast
  qed
  have after: "\<forall>c \<in> set (drop (Suc (home h k)) (htable h)). k \<notin> fst ` set c"
  proof
    fix c assume "c \<in> set (drop (Suc (home h k)) (htable h))"
    then obtain j where "j < length (htable h) - Suc (home h k)" "c = htable h ! (Suc (home h k) + j)"
      by (auto simp: in_set_conv_nth [of c])
    with other [of "Suc (home h k) + j"] show "k \<notin> fst ` set c" by simp
  qed
  show ?thesis
    using none [OF before] none [OF after]
    unfolding hmap_def entries_split [OF home_less [OF assms, of k]]
    by (simp add: map_add_def split: option.split)
qed

lemma chain_sorted_distinct: "chain_sorted cmp c \<Longrightarrow> distinct (map fst c)"
  by (induction c) (auto simp: chain_sorted_Cons)

text \<open>The search loop splits a sorted chain at the key.\<close>

lemma chain_split:
  assumes "chain_sorted cmp c" and "chain_loop cmp k [] c = (prev, cur)"
  shows "c = rev prev @ cur" and "\<forall>n \<in> set prev. cmp k (fst n) > 0"
    and "cur \<noteq> [] \<Longrightarrow> fst (hd cur) = k \<Longrightarrow> \<forall>n \<in> set (tl cur). cmp (fst n) k > 0"
    and "cur = [] \<or> fst (hd cur) \<noteq> k \<Longrightarrow> \<forall>n \<in> set cur. cmp (fst n) k > 0"
proof -
  note s = chain_loop_append [OF assms(2)]
  show c: "c = rev prev @ cur" and "\<forall>n \<in> set prev. cmp k (fst n) > 0" using s by auto
  have sorted: "chain_sorted cmp cur" using assms(1) by (simp add: c chain_sorted_append)
  show "cur \<noteq> [] \<Longrightarrow> fst (hd cur) = k \<Longrightarrow> \<forall>n \<in> set (tl cur). cmp (fst n) k > 0"
    using sorted by (cases cur) (auto simp: chain_sorted_Cons)
  show "cur = [] \<or> fst (hd cur) \<noteq> k \<Longrightarrow> \<forall>n \<in> set cur. cmp (fst n) k > 0"
  proof (cases cur)
    case (Cons n rest)
    assume "cur = [] \<or> fst (hd cur) \<noteq> k"
    then have n: "cmp (fst n) k > 0" using s Cons cmp_cases [of k "fst n"] by auto
    then show ?thesis
      using sorted Cons by (auto simp: chain_sorted_Cons intro: cmp_trans)
  qed simp
qed

lemma map_of_chain:
  assumes "chain_sorted cmp c" and "chain_loop cmp k [] c = (prev, cur)"
  shows "map_of c k = (if cur \<noteq> [] \<and> fst (hd cur) = k then Some (snd (hd cur)) else None)"
proof -
  note s = chain_split [OF assms]
  have "map_of (rev prev) k = None" using s(2) by (auto simp: map_of_eq_None_iff)
  moreover have "map_of cur k = None" if "cur = [] \<or> fst (hd cur) \<noteq> k"
    using s(4) [OF that] by (auto simp: map_of_eq_None_iff)
  ultimately show ?thesis
    by (cases cur) (auto simp: s(1) map_add_def)
qed

lemma chain_insert:
  assumes "chain_sorted cmp c" and "chain_loop cmp k [] c = (prev, cur)"
    and "cur = [] \<or> fst (hd cur) \<noteq> k"
  shows "chain_sorted cmp (rev prev @ (k, d) # cur)" and "map_of (rev prev @ (k, d) # cur) = (map_of c)(k \<mapsto> d)"
proof -
  note s = chain_split [OF assms(1,2)]
  note above = s(4) [OF assms(3)]
  show "chain_sorted cmp (rev prev @ (k, d) # cur)"
    using assms(1) s(2) above by (auto simp: s(1) chain_sorted_append chain_sorted_Cons)
  have "map_of (rev prev) k = None" using s(2) by (auto simp: map_of_eq_None_iff)
  then show "map_of (rev prev @ (k, d) # cur) = (map_of c)(k \<mapsto> d)"
    by (auto simp: s(1) map_add_def fun_eq_iff split: option.splits)
qed

lemma chain_replace:
  assumes "chain_sorted cmp c" and "chain_loop cmp k [] c = (prev, cur)"
    and "cur \<noteq> []" and "fst (hd cur) = k"
  shows "chain_sorted cmp (rev prev @ (k, d) # tl cur)"
    and "map_of (rev prev @ (k, d) # tl cur) = (map_of c)(k \<mapsto> d)"
proof -
  note s = chain_split [OF assms(1,2)]
  obtain e rest where cur: "cur = (k, e) # rest" using assms(3,4) by (cases cur) auto
  show "chain_sorted cmp (rev prev @ (k, d) # tl cur)"
    using assms(1) s(2) by (auto simp: s(1) chain_sorted_append chain_sorted_Cons cur)
  have "map_of (rev prev) k = None" using s(2) by (auto simp: map_of_eq_None_iff)
  then show "map_of (rev prev @ (k, d) # tl cur) = (map_of c)(k \<mapsto> d)"
    by (auto simp: s(1) map_add_def fun_eq_iff cur split: option.splits)
qed

lemma chain_remove:
  assumes "chain_sorted cmp c" and "chain_loop cmp k [] c = (prev, n # rest)" and "fst n = k"
  shows "chain_sorted cmp (rev prev @ rest)" and "map_of (rev prev @ rest) = (map_of c)(k := None)"
proof -
  note s = chain_split [OF assms(1,2)]
  show "chain_sorted cmp (rev prev @ rest)"
    using assms(1) by (auto simp: s(1) chain_sorted_append chain_sorted_Cons)
  have "map_of (rev prev) k = None" using s(2) by (auto simp: map_of_eq_None_iff)
  moreover have "map_of rest k = None" using s(3) assms(3) by (auto simp: map_of_eq_None_iff)
  ultimately show "map_of (rev prev @ rest) = (map_of c)(k := None)"
    using assms(3) by (cases n) (auto simp: s(1) map_add_def fun_eq_iff split: option.splits)
qed

text \<open>Replacing the chain of a key by a sorted chain of keys of the same hash value.\<close>

lemma chain_update:
  assumes "hashtab_wf good hash cmp h" and "chain_sorted cmp c"
    and "\<forall>n \<in> set c. home h (fst n) = home h k"
    and h'_def: "h' = h\<lparr>htable := (htable h)[home h k := c], nel := x\<rparr>"
  shows "hashtab_wf good hash cmp h'"
    and "hmap h' j = (if home h j = home h k then map_of c j else hmap h j)"
proof -
  have home: "home h' = home h" by (simp add: h'_def home_def fun_eq_iff)
  have same: "unat (hash (hsize h) j) = home h j" for j
    using wfD(1) [OF assms(1)] by (simp add: home_def)
  show wf': "hashtab_wf good hash cmp h'"
    using assms(1-3) home_less [OF assms(1), of k]
    by (auto simp: hashtab_wf_def h'_def nth_list_update same)
  show "hmap h' j = (if home h j = home h k then map_of c j else hmap h j)"
    using home_less [OF assms(1), of k]
    by (simp add: hmap_home [OF wf'] hmap_home [OF assms(1)] home) (simp add: h'_def nth_list_update)
qed

lemma in_chain_home:
  assumes "hashtab_wf good hash cmp h" and "n \<in> set (htable h ! home h k)"
  shows "home h (fst n) = home h k"
  using wfD(6) [OF assms(1) home_less [OF assms(1)] assms(2)] wfD(1) [OF assms(1)]
  by (simp add: home_def)

lemma search_spec [table_simps]:
  assumes "hashtab_wf good hash cmp h"
  shows "hashtab_search (Some h) k = Inr (hmap h k)"
proof -
  obtain prev cur where loop: "chain_loop cmp k [] (htable h ! home h k) = (prev, cur)" by force
  from map_of_chain [OF wfD(5) [OF assms home_less [OF assms]] loop]
  show ?thesis
    using loop cmp_eq by (cases cur) (auto simp: hashtab_search_def slot_home [OF assms]
      wfD(2) [OF assms] hmap_home [OF assms])
qed

lemma insert_cases:
  assumes "hashtab_wf good hash cmp h"
  obtains (dup) "hmap h k \<noteq> None" "hashtab_insert m (Some h) k d = Inl EEXIST"
  | (oom) "hmap h k = None" "\<not> malloc m" "hashtab_insert m (Some h) k d = Inl ENOMEM"
  | (new) h' where "hmap h k = None" "malloc m" "hashtab_insert m (Some h) k d = Inr (Some h')"
      "hashtab_wf good hash cmp h'" "hmap h' = (hmap h)(k \<mapsto> d)"
      "length (entries h') = Suc (length (entries h))" "nel h' = nel h + 1"
proof -
  obtain prev cur where loop: "chain_loop cmp k [] (htable h ! home h k) = (prev, cur)" by force
  note sorted = wfD(5) [OF assms home_less [OF assms]]
  have look: "hmap h k = (if cur \<noteq> [] \<and> fst (hd cur) = k then Some (snd (hd cur)) else None)"
    using map_of_chain [OF sorted loop] by (simp add: hmap_home [OF assms])
  note ins = hashtab_insert_def [of m "Some h" k d]
  note eval = slot_home [OF assms] wfD(2) [OF assms] loop cmp_eq
  consider "cur \<noteq> [] \<and> fst (hd cur) = k" | "cur = [] \<or> fst (hd cur) \<noteq> k" "\<not> malloc m"
    | "cur = [] \<or> fst (hd cur) \<noteq> k" "malloc m" by blast
  then show ?thesis
  proof cases
    case 1
    then show ?thesis using look by (intro dup) (auto simp: ins eval)
  next
    case 2
    then show ?thesis using look by (intro oom) (auto simp: ins eval)
  next
    case 3
    define c where "c = rev prev @ (k, d) # cur"
    define h' where "h' = h\<lparr>htable := (htable h)[home h k := c], nel := nel h + 1\<rparr>"
    note new_chain = chain_insert [OF sorted loop 3(1), of d, folded c_def]
    have split: "htable h ! home h k = rev prev @ cur" using chain_split(1) [OF sorted loop] .
    have homes: "\<forall>n \<in> set c. home h (fst n) = home h k"
      using in_chain_home [OF assms, of _ k] by (auto simp: c_def split)
    note upd = chain_update [OF assms new_chain(1) homes h'_def]
    have "hmap h' = (hmap h)(k \<mapsto> d)"
      by (auto simp: fun_eq_iff upd(2) new_chain(2) hmap_home [OF assms])
    moreover have "length (entries h') = Suc (length (entries h))"
      using entries_split [OF home_less [OF assms, of k]] entries_update [OF home_less [OF assms, of k]]
      by (simp add: h'_def entries_def [of "h\<lparr>htable := _, nel := _\<rparr>"] c_def split)
    moreover have "hashtab_insert m (Some h) k d = Inr (Some h')"
      using 3 by (auto simp: ins eval h'_def c_def)
    ultimately show ?thesis
      using 3 look upd(1) by (intro new) (auto simp: h'_def)
  qed
qed

lemma replace_cases:
  assumes "hashtab_wf good hash cmp h"
  obtains (found) h' e where "hmap h k = Some e"
      "hashtab_replace m (Some h) k d dest s = Inr (Some h', run_destroy dest (k, e) s)"
      "hashtab_wf good hash cmp h'" "hmap h' = (hmap h)(k \<mapsto> d)"
      "length (entries h') = length (entries h)" "nel h' = nel h"
  | (oom) "hmap h k = None" "\<not> malloc m" "hashtab_replace m (Some h) k d dest s = Inl ENOMEM"
  | (new) h' where "hmap h k = None" "malloc m" "hashtab_replace m (Some h) k d dest s = Inr (Some h', s)"
      "hashtab_wf good hash cmp h'" "hmap h' = (hmap h)(k \<mapsto> d)"
      "length (entries h') = Suc (length (entries h))" "nel h' = nel h"
proof -
  obtain prev cur where loop: "chain_loop cmp k [] (htable h ! home h k) = (prev, cur)" by force
  note sorted = wfD(5) [OF assms home_less [OF assms]]
  have look: "hmap h k = (if cur \<noteq> [] \<and> fst (hd cur) = k then Some (snd (hd cur)) else None)"
    using map_of_chain [OF sorted loop] by (simp add: hmap_home [OF assms])
  have split: "htable h ! home h k = rev prev @ cur" using chain_split(1) [OF sorted loop] .
  note ins = hashtab_replace_def [of m "Some h" k d dest s]
  note eval = slot_home [OF assms] wfD(2) [OF assms] loop cmp_eq
  note len = entries_split [OF home_less [OF assms, of k]] entries_update [OF home_less [OF assms, of k]]
  consider "cur \<noteq> []" "fst (hd cur) = k" | "cur = [] \<or> fst (hd cur) \<noteq> k" "\<not> malloc m"
    | "cur = [] \<or> fst (hd cur) \<noteq> k" "malloc m" by blast
  then show ?thesis
  proof cases
    case 1
    define c where "c = rev prev @ (k, d) # tl cur"
    define h' where "h' = h\<lparr>htable := (htable h)[home h k := c]\<rparr>"
    have h'_nel: "h' = h\<lparr>htable := (htable h)[home h k := c], nel := nel h\<rparr>" by (simp add: h'_def)
    note new_chain = chain_replace [OF sorted loop 1, of d, folded c_def]
    have homes: "\<forall>n \<in> set c. home h (fst n) = home h k"
      using in_chain_home [OF assms, of _ k] 1 by (cases cur) (auto simp: c_def split)
    note upd = chain_update [OF assms new_chain(1) homes h'_nel]
    have "hmap h' = (hmap h)(k \<mapsto> d)"
      by (auto simp: fun_eq_iff upd(2) new_chain(2) hmap_home [OF assms])
    moreover have "length (entries h') = length (entries h)"
      using len 1 by (simp add: h'_def entries_def [of "h\<lparr>htable := _\<rparr>"] c_def split)
    moreover have "hashtab_replace m (Some h) k d dest s
        = Inr (Some h', run_destroy dest (k, snd (hd cur)) s)"
      using 1 by (cases cur) (auto simp: ins eval h'_def c_def)
    ultimately show ?thesis
      using 1 look upd(1) by (intro found [of "snd (hd cur)" h']) (simp_all add: h'_def)
  next
    case 2
    then show ?thesis using look by (intro oom) (auto simp: ins eval)
  next
    case 3
    define c where "c = rev prev @ (k, d) # cur"
    define h' where "h' = h\<lparr>htable := (htable h)[home h k := c]\<rparr>"
    have h'_nel: "h' = h\<lparr>htable := (htable h)[home h k := c], nel := nel h\<rparr>" by (simp add: h'_def)
    note new_chain = chain_insert [OF sorted loop 3(1), of d, folded c_def]
    have homes: "\<forall>n \<in> set c. home h (fst n) = home h k"
      using in_chain_home [OF assms, of _ k] by (auto simp: c_def split)
    note upd = chain_update [OF assms new_chain(1) homes h'_nel]
    have "hmap h' = (hmap h)(k \<mapsto> d)"
      by (auto simp: fun_eq_iff upd(2) new_chain(2) hmap_home [OF assms])
    moreover have "length (entries h') = Suc (length (entries h))"
      using len by (simp add: h'_def entries_def [of "h\<lparr>htable := _\<rparr>"] c_def split)
    moreover have "hashtab_replace m (Some h) k d dest s = Inr (Some h', s)"
      using 3 by (auto simp: ins eval h'_def c_def)
    ultimately show ?thesis
      using 3 look upd(1) by (intro new [of h']) (auto simp: h'_def)
  qed
qed

lemma remove_cases:
  assumes "hashtab_wf good hash cmp h"
  obtains (none) "hmap h k = None" "hashtab_remove (Some h) k dest s = Inl ENOENT"
  | (found) h' e where "hmap h k = Some e"
      "hashtab_remove (Some h) k dest s = Inr (Some h', run_destroy dest (k, e) s)"
      "hashtab_wf good hash cmp h'" "hmap h' = (hmap h)(k := None)"
      "length (entries h) = Suc (length (entries h'))" "nel h' = nel h - 1"
proof -
  obtain prev cur where loop: "chain_loop cmp k [] (htable h ! home h k) = (prev, cur)" by force
  note sorted = wfD(5) [OF assms home_less [OF assms]]
  have look: "hmap h k = (if cur \<noteq> [] \<and> fst (hd cur) = k then Some (snd (hd cur)) else None)"
    using map_of_chain [OF sorted loop] by (simp add: hmap_home [OF assms])
  have split: "htable h ! home h k = rev prev @ cur" using chain_split(1) [OF sorted loop] .
  note ins = hashtab_remove_def [of "Some h" k dest s]
  note eval = slot_home [OF assms] wfD(2) [OF assms] loop cmp_eq
  show ?thesis
  proof (cases "cur \<noteq> [] \<and> fst (hd cur) = k")
    case False
    then show ?thesis using look by (intro none) (auto simp: ins eval split: list.splits)
  next
    case True
    then obtain e rest where cur: "cur = (k, e) # rest" by (cases cur) auto
    define h' where "h' = h\<lparr>htable := (htable h)[home h k := rev prev @ rest], nel := nel h - 1\<rparr>"
    have "fst (k, e) = k" by simp
    note chain = chain_remove [OF sorted loop [unfolded cur] this]
    have homes: "\<forall>n \<in> set (rev prev @ rest). home h (fst n) = home h k"
      using in_chain_home [OF assms, of _ k] by (auto simp: split cur)
    note upd = chain_update [OF assms chain(1) homes h'_def]
    have "hmap h' = (hmap h)(k := None)"
      by (auto simp: fun_eq_iff upd(2) chain(2) hmap_home [OF assms] simp del: map_of_append)
    moreover have "length (entries h) = Suc (length (entries h'))"
      using entries_split [OF home_less [OF assms, of k]] entries_update [OF home_less [OF assms, of k]]
      by (simp add: h'_def entries_def [of "h\<lparr>htable := _, nel := _\<rparr>"] split cur)
    moreover have "hashtab_remove (Some h) k dest s = Inr (Some h', run_destroy dest (k, e) s)"
      by (auto simp: ins eval h'_def cur)
    ultimately show ?thesis
      using look upd(1) by (intro found) (auto simp: h'_def cur)
  qed
qed

lemma hmap_Some_iff:
  assumes "hashtab_wf good hash cmp h"
  shows "hmap h k = Some d \<longleftrightarrow> (k, d) \<in> set (entries h)"
proof
  show "hmap h k = Some d \<Longrightarrow> (k, d) \<in> set (entries h)"
    by (simp add: hmap_def map_of_SomeD)
next
  assume "(k, d) \<in> set (entries h)"
  then obtain i where i: "i < length (htable h)" "(k, d) \<in> set (htable h ! i)"
    by (auto simp: entries_def in_set_conv_nth [of _ "htable h"])
  then have "home h k = i" using wfD(6) [OF assms i] wfD(1) [OF assms] by (simp add: home_def)
  with i chain_sorted_distinct [OF wfD(5) [OF assms i(1)]] show "hmap h k = Some d"
    by (simp add: hmap_home [OF assms])
qed

lemma create_spec:
  assumes "good sz" and "hashtab_create m hash cmp sz = Some h"
  shows "hashtab_wf good hash cmp h" and "hmap h = Map.empty" and "entries h = []" and "nel_ok h"
proof -
  have "concat (replicate n []) = []" for n :: nat by (induction n) simp_all
  then show "entries h = []" using assms(2) by (auto simp: hashtab_create_def entries_def split: if_splits)
  then show "hmap h = Map.empty" "nel_ok h"
    using assms(2) by (auto simp: hmap_def nel_ok_def hashtab_create_def split: if_splits)
  show "hashtab_wf good hash cmp h"
    using assms by (auto simp: hashtab_create_def hashtab_wf_def chain_sorted_def split: if_splits)
qed

end

sublocale hash_keys \<subseteq> lookup_table "\<lambda>h. hashtab_wf good hash cmp h \<and> nel_ok h"
  "\<lambda>h. hashtab_search (Some h)" "\<lambda>m h k d. rbind (hashtab_insert m (Some h) k d) (\<lambda>h'. Inr (the h'))" hmap
proof unfold_locales
  fix t :: "('k, 'b) hashtab_val" and k d m
  assume inv: "hashtab_wf good hash cmp t \<and> nel_ok t"
  then have wf: "hashtab_wf good hash cmp t" ..
  show "hashtab_search (Some t) k = Inr (hmap t k)" using wf by (rule search_spec)
  show "hmap t k = None \<Longrightarrow> malloc m \<Longrightarrow>
      \<exists>t'. rbind (hashtab_insert m (Some t) k d) (\<lambda>h'. Inr (the h')) = Inr t' \<and>
           (hashtab_wf good hash cmp t' \<and> nel_ok t') \<and> hmap t' = (hmap t)(k \<mapsto> d)"
    using inv by (cases rule: insert_cases [OF wf, of k m d]) (auto simp: nel_ok_def)
  show "hmap t k \<noteq> None \<Longrightarrow> rbind (hashtab_insert m (Some t) k d) (\<lambda>h'. Inr (the h')) = Inl EEXIST"
    by (cases rule: insert_cases [OF wf, of k m d]) auto
  show "hmap t k = None \<Longrightarrow> \<not> malloc m \<Longrightarrow>
      rbind (hashtab_insert m (Some t) k d) (\<lambda>h'. Inr (the h')) = Inl ENOMEM"
    by (cases rule: insert_cases [OF wf, of k m d]) auto
qed

section \<open>Traversal\<close>

lemma for_each_concat:
  "for_each (\<lambda>c. for_each f c) cs s = for_each f (concat cs) s"
  by (induction cs arbitrary: s) (auto simp: for_each_append rbind_def split: sum.split)

lemma for_each_array:
  assumes "length xs = unat n"
  shows "for_each (\<lambda>i s. rbind (idx xs (unat i)) (\<lambda>x. f x s)) (upto32 n) s = for_each f xs s"
proof -
  have "for_each (\<lambda>i s. rbind (idx xs (unat i)) (\<lambda>x. f x s)) is s = for_each f (map (\<lambda>i. xs ! unat i) is) s"
    if "\<forall>i \<in> set is. unat i < length xs" for "is" :: "u32 list"
    using that by (induction "is" arbitrary: s) (auto split: sum.split)
  moreover have "map (\<lambda>i. xs ! unat i) (upto32 n) = xs"
    using assms unat_of_nat32 [of _ n] by (intro nth_equalityI) (auto simp: upto32_def)
  ultimately show ?thesis
    using assms by (simp add: set_upto32 word_less_nat_alt)
qed

lemma hashtab_map_entries:
  assumes "length (htable h) = unat (hsize h)"
  shows "hashtab_map (Some h) f s = for_each (\<lambda>n. f (fst n) (snd n)) (entries h) s"
  using for_each_array [OF assms, of "\<lambda>c. for_each (\<lambda>n. f (fst n) (snd n)) c"]
  by (simp add: hashtab_map_def entries_def for_each_concat)

lemma hashtab_destroy_entries:
  assumes "length (htable h) = unat (hsize h)"
  shows "hashtab_destroy (Some h) = Inr (entries h)"
proof -
  have "for_each (\<lambda>c freed. Inr (freed @ c)) cs acc = Inr (acc @ concat cs)" for cs and acc :: "('a \<times> 'b) list"
    by (induction cs arbitrary: acc) auto
  then show ?thesis
    using for_each_array [OF assms, of "\<lambda>c freed. Inr (freed @ c)" "[]"]
    by (simp add: hashtab_destroy_def entries_def)
qed

end
