(* ===== verification/Symtab.thy ===== *)
theory Symtab
  imports Hashtab
begin

text \<open>
  Symbol tables, \<^verbatim>\<open>libsepol/src/symtab.c\<close>: hash tables keyed on C strings, with the number of
  primary names.  Strings are character lists without the terminating null character;
  \<^verbatim>\<open>char\<close> is signed, as it is on the platforms with GNU toolchains for x86.
\<close>

section \<open>C strings\<close>

text \<open>\<^verbatim>\<open>strcmp\<close> of the C library compares the characters as unsigned integers.\<close>

fun strcmp :: "string \<Rightarrow> string \<Rightarrow> int" where
  "strcmp [] [] = 0"
| "strcmp [] (d # ds) = - of_char d - 1"
| "strcmp (c # cs) [] = of_char c + 1"
| "strcmp (c # cs) (d # ds) = (if c = d then strcmp cs ds else of_char c - of_char d)"

section \<open>Operations\<close>

text \<open>A character promoted to \<^verbatim>\<open>int\<close> and then to \<^verbatim>\<open>unsigned int\<close>.\<close>

definition promote :: "char \<Rightarrow> u32" where
  "promote c = (let n = of_char c :: int in if n < 128 then word_of_int n else word_of_int (n - 256))"

definition symhash_step :: "char \<Rightarrow> u32 \<Rightarrow> u32" where
  "symhash_step c val = (push_bit 4 val OR drop_bit (8 * 4 - 4) val) XOR promote c"

definition symhash :: "u32 \<Rightarrow> string \<Rightarrow> u32" where
  "symhash sz key = fold symhash_step key 0 AND (sz - 1)"

definition symcmp :: "string \<Rightarrow> string \<Rightarrow> int" where
  "symcmp key1 key2 = strcmp key1 key2"

record 'd symtab =
  table :: "(string, 'd) hashtab"
  nprim :: u32

definition symtab_init :: "alloc \<Rightarrow> u32 \<Rightarrow> 'd symtab result" where
  "symtab_init m sz =
     (case hashtab_create m symhash symcmp sz of
        None \<Rightarrow> Inl STATUS_ERR
      | Some h \<Rightarrow> Inr \<lparr>table = Some h, nprim = 0\<rparr>)"

text \<open>As for tables, the result lists the nodes released.\<close>

definition symtab_destroy :: "'d symtab option \<Rightarrow> (string \<times> 'd) list result" where
  "symtab_destroy sp =
     (case sp of
        None \<Rightarrow> Inr []
      | Some s \<Rightarrow> (case table s of None \<Rightarrow> Inr [] | Some h \<Rightarrow> hashtab_destroy (Some h)))"

text \<open>The sizes of the array that a signed index can address.\<close>

definition sym_size :: "u32 \<Rightarrow> bool" where
  "sym_size sz \<longleftrightarrow> 0 < sz \<and> unat sz \<le> 2 ^ 31"

section \<open>Lemmas\<close>

lemma of_char_nonneg: "0 \<le> (of_char c :: int)"
  by (metis of_nat_0_le_iff of_nat_of_char)

lemma of_char_eq [simp]: "(of_char c :: int) = of_char d \<longleftrightarrow> c = d"
  by (metis of_char_eq_iff of_nat_eq_iff of_nat_of_char)

lemma strcmp_swap: "strcmp b a = - strcmp a b"
  by (induction a b rule: strcmp.induct) auto

lemma strcmp_eq: "strcmp a b = 0 \<longleftrightarrow> a = b"
proof (induction a b rule: strcmp.induct)
  case (2 d ds)
  then show ?case using of_char_nonneg [of d] by auto
next
  case (3 c cs)
  then show ?case using of_char_nonneg [of c] by auto
qed auto

lemma strcmp_trans: "strcmp a b > 0 \<Longrightarrow> strcmp b c > 0 \<Longrightarrow> strcmp a c > 0"
proof (induction a b arbitrary: c rule: strcmp.induct)
  case (2 d ds)
  then show ?case using of_char_nonneg [of d] by simp
next
  case (3 x xs)
  then show ?case using of_char_nonneg [of "hd c"] by (cases c) auto
next
  case (4 x xs y ys)
  then show ?case
    using of_char_nonneg [of x] of_char_nonneg [of y]
    by (cases c) (auto split: if_splits)
qed simp

interpretation sym: hash_keys sym_size symhash symcmp
proof unfold_locales
  fix x y z :: string
  show "symcmp x y = 0 \<longleftrightarrow> x = y" by (simp add: symcmp_def strcmp_eq)
  show "symcmp x y > 0 \<longleftrightarrow> symcmp y x < 0" using strcmp_swap [of x y] by (simp add: symcmp_def)
  show "symcmp x y > 0 \<Longrightarrow> symcmp y z > 0 \<Longrightarrow> symcmp x z > 0"
    unfolding symcmp_def by (rule strcmp_trans)
next
  fix sz :: u32 and k :: string
  assume good: "sym_size sz"
  have "symhash sz k \<le> sz - 1" unfolding symhash_def by (rule word_and_le1)
  moreover have "sz - 1 < sz" using good
    by (simp add: sym_size_def word_less_nat_alt unat_minus_one unat_gt_0 word_greater_zero_iff)
  ultimately show "symhash sz k < sz" by (rule order.strict_trans1)
  show "unat sz \<le> 2 ^ 31" using good by (simp add: sym_size_def)
qed

definition symtab_wf :: "'d symtab \<Rightarrow> bool" where
  "symtab_wf s \<longleftrightarrow> (\<exists>h. table s = Some h \<and> hashtab_wf sym_size symhash symcmp h)"

definition symtab_map :: "'d symtab \<Rightarrow> string \<rightharpoonup> 'd" where
  "symtab_map s = (case table s of None \<Rightarrow> Map.empty | Some h \<Rightarrow> hmap h)"

lemma symtab_search:
  assumes "symtab_wf s"
  shows "hashtab_search (table s) k = Inr (symtab_map s k)"
  using assms sym.search_spec by (auto simp: symtab_wf_def symtab_map_def)

section \<open>Properties\<close>

text \<open>
  C19: A symbol table is a finite map from strings to datums.  On a well-formed table a search
  returns what the map has for the key; an insertion adds a new key, refuses a present one with
  \<^verbatim>\<open>SEPOL_EEXIST\<close> and reports exhausted memory; a removal deletes a present key after handing its
  entry to the destructor and refuses an absent one with \<^verbatim>\<open>SEPOL_ENOENT\<close>; a replacement overwrites
  or adds the key.  All results are well-formed tables.
\<close>

theorem symbol_table_map:
  assumes "hashtab_wf sym_size symhash symcmp h"
  shows "hashtab_search (Some h) k = Inr (hmap h k) \<and>
    (case hmap h k of
       Some e \<Rightarrow>
         hashtab_insert m (Some h) k d = Inl EEXIST \<and>
         (\<exists>h'. hashtab_remove (Some h) k dest s = Inr (Some h', run_destroy dest (k, e) s) \<and>
               hashtab_wf sym_size symhash symcmp h' \<and> hmap h' = (hmap h)(k := None)) \<and>
         (\<exists>h'. hashtab_replace m (Some h) k d dest s = Inr (Some h', run_destroy dest (k, e) s) \<and>
               hashtab_wf sym_size symhash symcmp h' \<and> hmap h' = (hmap h)(k \<mapsto> d))
     | None \<Rightarrow>
         hashtab_remove (Some h) k dest s = Inl ENOENT \<and>
         (if malloc m
          then (\<exists>h'. hashtab_insert m (Some h) k d = Inr (Some h') \<and>
                     hashtab_wf sym_size symhash symcmp h' \<and> hmap h' = (hmap h)(k \<mapsto> d)) \<and>
               (\<exists>h'. hashtab_replace m (Some h) k d dest s = Inr (Some h', s) \<and>
                     hashtab_wf sym_size symhash symcmp h' \<and> hmap h' = (hmap h)(k \<mapsto> d))
          else hashtab_insert m (Some h) k d = Inl ENOMEM \<and>
               hashtab_replace m (Some h) k d dest s = Inl ENOMEM))"
proof -
  have "hashtab_search (Some h) k = Inr (hmap h k)" using assms by (rule sym.search_spec)
  then show ?thesis
    by (cases rule: sym.insert_cases [OF assms, of k m d];
        cases rule: sym.remove_cases [OF assms, of k dest s];
        cases rule: sym.replace_cases [OF assms, of k m d dest s]) auto
qed

theorem symbol_table_map_witness:
  "\<exists>h h'. hashtab_create no_oom symhash symcmp 4 = Some h \<and>
          hashtab_insert no_oom (Some h) ''a'' (1 :: nat) = Inr (Some h') \<and>
          hashtab_search (Some h') ''a'' = Inr (Some 1) \<and> hashtab_search (Some h') ''b'' = Inr None"
proof -
  have size: "sym_size 4" by (simp add: sym_size_def)
  obtain h :: "(string, nat) hashtab_val" where h: "hashtab_create no_oom symhash symcmp 4 = Some h"
    by (auto simp: hashtab_create_def)
  note wf = sym.create_spec [OF size h]
  obtain h' where ins: "hashtab_insert no_oom (Some h) ''a'' (1 :: nat) = Inr (Some h')"
    and wf': "hashtab_wf sym_size symhash symcmp h'" and m': "hmap h' = [''a'' \<mapsto> 1]"
    using symbol_table_map [OF wf(1), where k = "''a''" and m = no_oom and d = 1 and dest = None and s = "()"]
    by (auto simp: wf(2))
  show ?thesis
    using h ins symbol_table_map [OF wf', where k = "''a''" and m = no_oom and d = 2 and dest = None and s = "()"]
      symbol_table_map [OF wf', where k = "''b''" and m = no_oom and d = 2 and dest = None and s = "()"]
    by (auto simp: m')
qed

text \<open>
  The element count \<^verbatim>\<open>nel\<close> is kept by insertion and removal, but not by replacement: when the
  key is absent, \<^verbatim>\<open>hashtab_replace\<close> adds an entry and leaves the count unchanged, so the count is
  wrong from then on.
\<close>

theorem hashtab_nel:
  assumes "hashtab_wf sym_size symhash symcmp h" and "nel_ok h"
  shows "(\<forall>h'. hashtab_insert m (Some h) k d = Inr (Some h') \<longrightarrow> nel_ok h') \<and>
    (\<forall>h' s'. hashtab_remove (Some h) k dest s = Inr (Some h', s') \<longrightarrow> nel_ok h') \<and>
    (\<forall>h' s'. hashtab_replace m (Some h) k d dest s = Inr (Some h', s') \<longrightarrow>
       (nel_ok h' \<longleftrightarrow> hmap h k \<noteq> None))"
proof (intro conjI allI impI)
  show "nel_ok h'" if "hashtab_insert m (Some h) k d = Inr (Some h')" for h'
    using that assms(2) by (cases rule: sym.insert_cases [OF assms(1), of k m d]) (auto simp: nel_ok_def)
  show "nel_ok h'" if "hashtab_remove (Some h) k dest s = Inr (Some h', s')" for h' s'
    using that assms(2) by (cases rule: sym.remove_cases [OF assms(1), of k dest s]) (auto simp: nel_ok_def)
  show "nel_ok h' \<longleftrightarrow> hmap h k \<noteq> None"
    if "hashtab_replace m (Some h) k d dest s = Inr (Some h', s')" for h' s'
    using that assms(2)
    by (cases rule: sym.replace_cases [OF assms(1), of k m d dest s]) (auto simp: nel_ok_def)
qed

theorem hashtab_nel_witness:
  "\<exists>h h'. hashtab_create no_oom symhash symcmp 4 = Some h \<and> nel_ok h \<and>
          hashtab_replace no_oom (Some h) ''a'' (1 :: nat) None () = Inr (Some h', ()) \<and> \<not> nel_ok h'"
proof -
  have size: "sym_size 4" by (simp add: sym_size_def)
  obtain h :: "(string, nat) hashtab_val" where h: "hashtab_create no_oom symhash symcmp 4 = Some h"
    by (auto simp: hashtab_create_def)
  note wf = sym.create_spec [OF size h]
  obtain h' where r: "hashtab_replace no_oom (Some h) ''a'' (1 :: nat) None () = Inr (Some h', ())"
    by (cases rule: sym.replace_cases [OF wf(1), of "''a''" no_oom 1 None "()"]) auto
  with hashtab_nel [OF wf(1,4), of no_oom "''a''" 1 None "()"] wf(2,4) h show ?thesis by auto
qed

text \<open>
  \<^verbatim>\<open>hashtab_map\<close> calls the function on every entry of the table exactly once, in the order of
  the buckets and chains, and stops at the first error; no two entries have the same key.
\<close>

theorem hashtab_map_visits:
  assumes "hashtab_wf sym_size symhash symcmp h"
  shows "hashtab_map (Some h) f s = for_each (\<lambda>n. f (fst n) (snd n)) (entries h) s \<and>
    (\<forall>k d. hmap h k = Some d \<longleftrightarrow> (k, d) \<in> set (entries h))"
  using hashtab_map_entries [OF sym.wfD(4) [OF assms], of f s] sym.hmap_Some_iff [OF assms] by blast

theorem hashtab_map_visits_witness:
  "\<exists>h. hashtab_create no_oom symhash symcmp 4 = Some h \<and>
       hashtab_map (Some h) (\<lambda>k (d :: nat) n. Inr (n + d)) 0 = Inr 0"
proof -
  have size: "sym_size 4" by (simp add: sym_size_def)
  obtain h :: "(string, nat) hashtab_val" where h: "hashtab_create no_oom symhash symcmp 4 = Some h"
    by (auto simp: hashtab_create_def)
  note wf = sym.create_spec [OF size h]
  show ?thesis using hashtab_map_visits [OF wf(1), of "\<lambda>k d n. Inr (n + d)" 0] h wf(3) by auto
qed

end
