(* ===== verification/Ebitmap.thy ===== *)
theory Ebitmap
  imports Prelude
begin

text \<open>
  Extensible bitmaps: \<^verbatim>\<open>libsepol/src/ebitmap.c\<close> and \<^verbatim>\<open>include/sepol/policydb/ebitmap.h\<close>.
  A bitmap is a singly linked list of nodes, each holding 64 bits from an aligned start bit on,
  and a high bit.  The list is a HOL list; the loops over one or two lists are recursive
  functions on it.  The sources are modelled for a platform with a 64 bit \<^verbatim>\<open>size_t\<close>, so
  \<^verbatim>\<open>startbit + MAPSIZE\<close> does not wrap where it is compared, but does where it is stored in a
  32 bit variable.

  The set of bits of a bitmap is \<open>ebits\<close>; \<open>ebitmap_ok\<close> is what the routines rely on,
  \<open>ebitmap_wf\<close> is the canonical form that the routines of the library produce.
\<close>

section \<open>Data\<close>

record ebitmap_node =
  startbit :: u32
  nmap :: u64

record ebitmap =
  nodes :: "ebitmap_node list"
  highbit :: u32

definition MAPSIZE :: nat where
  "MAPSIZE = 64"

definition ebitmap_init :: ebitmap where
  "ebitmap_init = \<lparr>nodes = [], highbit = 0\<rparr>"

definition ebitmap_startbit :: "ebitmap \<Rightarrow> u32" where
  "ebitmap_startbit e = (case nodes e of [] \<Rightarrow> 0 | n # _ \<Rightarrow> startbit n)"

definition ebitmap_destroy :: "ebitmap \<Rightarrow> ebitmap" where
  "ebitmap_destroy e = e\<lparr>highbit := 0, nodes := []\<rparr>"

section \<open>Single bits\<close>

text \<open>\<^verbatim>\<open>(n->startbit + MAPSIZE) > bit\<close> and \<^verbatim>\<open>n->map & (MAPBIT << (bit - n->startbit))\<close>\<close>

definition node_reaches :: "ebitmap_node \<Rightarrow> u32 \<Rightarrow> bool" where
  "node_reaches n b \<longleftrightarrow> unat (startbit n) + MAPSIZE > unat b"

definition node_mask :: "ebitmap_node \<Rightarrow> u32 \<Rightarrow> u64" where
  "node_mask n b = push_bit (unat (b - startbit n)) 1"

fun get_bit_loop :: "ebitmap_node list \<Rightarrow> u32 \<Rightarrow> bool" where
  "get_bit_loop [] b = False"
| "get_bit_loop (n # ns) b =
     (if startbit n \<le> b
      then if node_reaches n b then nmap n AND node_mask n b \<noteq> 0 else get_bit_loop ns b
      else False)"

definition ebitmap_get_bit :: "ebitmap \<Rightarrow> u32 \<Rightarrow> bool" where
  "ebitmap_get_bit e b = (if highbit e < b then False else get_bit_loop (nodes e) b)"

text \<open>
  The search loop of \<^verbatim>\<open>ebitmap_set_bit\<close>: the nodes passed (last one first, so its head is
  \<^verbatim>\<open>prev\<close>), the nodes from \<^verbatim>\<open>n\<close> on, and whether the loop stopped in a node that reaches the bit.
\<close>

fun set_bit_loop ::
  "ebitmap_node list \<Rightarrow> ebitmap_node list \<Rightarrow> u32 \<Rightarrow> ebitmap_node list \<times> ebitmap_node list \<times> bool"
where
  "set_bit_loop prev [] b = (prev, [], False)"
| "set_bit_loop prev (n # ns) b =
     (if startbit n \<le> b
      then if node_reaches n b then (prev, n # ns, True) else set_bit_loop (n # prev) ns b
      else (prev, n # ns, False))"

definition bit_startbit :: "u32 \<Rightarrow> u32" where
  "bit_startbit b = b AND NOT (of_nat MAPSIZE - 1)"

definition ebitmap_set_bit :: "alloc \<Rightarrow> ebitmap \<Rightarrow> u32 \<Rightarrow> bool \<Rightarrow> ebitmap result" where
  "ebitmap_set_bit m e b v =
     (let sb = bit_startbit b; hb = sb + of_nat MAPSIZE in
      if hb = 0 then Inl EINVAL
      else case set_bit_loop [] (nodes e) b of
        (prev, n # rest, True) \<Rightarrow>
          if v then Inr (e\<lparr>nodes := rev prev @ n\<lparr>nmap := nmap n OR node_mask n b\<rparr> # rest\<rparr>)
          else
            let mp = nmap n AND NOT (node_mask n b) in
            if mp \<noteq> 0 then Inr (e\<lparr>nodes := rev prev @ n\<lparr>nmap := mp\<rparr> # rest\<rparr>)
            else Inr (e\<lparr>nodes := rev prev @ rest,
                        highbit := (if rest = []
                                    then (case prev of [] \<Rightarrow> 0
                                          | p # _ \<Rightarrow> startbit p + of_nat MAPSIZE)
                                    else highbit e)\<rparr>)
      | (prev, rest, _) \<Rightarrow>
          if \<not> v then Inr e
          else if \<not> malloc m then Inl ENOMEM
          else
            let new = \<lparr>startbit = sb, nmap = push_bit (unat (b - sb)) 1\<rparr> in
            Inr (e\<lparr>nodes := rev prev @ new # rest,
                   highbit := (if rest = [] then hb else highbit e)\<rparr>))"

section \<open>Whole bitmaps\<close>

text \<open>The loop of \<^verbatim>\<open>ebitmap_or\<close>; its \<open>i\<close>-th iteration allocates the \<open>i\<close>-th node of the result.\<close>

fun or_loop ::
  "alloc \<Rightarrow> nat \<Rightarrow> ebitmap_node list \<Rightarrow> ebitmap_node list \<Rightarrow> ebitmap_node list result"
where
  "or_loop m i [] [] = Inr []"
| "or_loop m i (n1 # ns1) [] =
     (if malloc (at_site i m)
      then rbind (or_loop m (Suc i) ns1 []) (\<lambda>r. Inr (\<lparr>startbit = startbit n1, nmap = nmap n1\<rparr> # r))
      else Inl ENOMEM)"
| "or_loop m i [] (n2 # ns2) =
     (if malloc (at_site i m)
      then rbind (or_loop m (Suc i) [] ns2) (\<lambda>r. Inr (\<lparr>startbit = startbit n2, nmap = nmap n2\<rparr> # r))
      else Inl ENOMEM)"
| "or_loop m i (n1 # ns1) (n2 # ns2) =
     (if malloc (at_site i m)
      then if startbit n1 = startbit n2
           then rbind (or_loop m (Suc i) ns1 ns2)
                  (\<lambda>r. Inr (\<lparr>startbit = startbit n1, nmap = nmap n1 OR nmap n2\<rparr> # r))
           else if startbit n1 < startbit n2
           then rbind (or_loop m (Suc i) ns1 (n2 # ns2))
                  (\<lambda>r. Inr (\<lparr>startbit = startbit n1, nmap = nmap n1\<rparr> # r))
           else rbind (or_loop m (Suc i) (n1 # ns1) ns2)
                  (\<lambda>r. Inr (\<lparr>startbit = startbit n2, nmap = nmap n2\<rparr> # r))
      else Inl ENOMEM)"

definition ebitmap_or :: "alloc \<Rightarrow> ebitmap \<Rightarrow> ebitmap \<Rightarrow> ebitmap result" where
  "ebitmap_or m e1 e2 =
     rbind (or_loop m 0 (nodes e1) (nodes e2))
       (\<lambda>ns. Inr \<lparr>nodes = ns,
                   highbit = (if highbit e1 > highbit e2 then highbit e1 else highbit e2)\<rparr>)"

definition ebitmap_union :: "alloc \<Rightarrow> ebitmap \<Rightarrow> ebitmap \<Rightarrow> ebitmap result" where
  "ebitmap_union m dst e1 =
     (case ebitmap_or m dst e1 of
        Inl _ \<Rightarrow> Inl STATUS_ERR
      | Inr tmp \<Rightarrow> Inr ((ebitmap_destroy dst)\<lparr>nodes := nodes tmp, highbit := highbit tmp\<rparr>))"

definition ebitmap_and :: "alloc \<Rightarrow> ebitmap \<Rightarrow> ebitmap \<Rightarrow> ebitmap result" where
  "ebitmap_and m e1 e2 =
     for_each
       (\<lambda>i dst. if ebitmap_get_bit e1 i \<and> ebitmap_get_bit e2 i
                then ebitmap_set_bit (at_site (unat i) m) dst i True else Inr dst)
       (upto32 (if highbit e1 < highbit e2 then highbit e1 else highbit e2))
       ebitmap_init"

definition ebitmap_xor :: "alloc \<Rightarrow> ebitmap \<Rightarrow> ebitmap \<Rightarrow> ebitmap result" where
  "ebitmap_xor m e1 e2 =
     for_each
       (\<lambda>i dst. ebitmap_set_bit (at_site (unat i) m) dst i
                  (ebitmap_get_bit e1 i \<noteq> ebitmap_get_bit e2 i))
       (upto32 (if highbit e1 \<ge> highbit e2 then highbit e1 else highbit e2))
       ebitmap_init"

definition ebitmap_not :: "alloc \<Rightarrow> ebitmap \<Rightarrow> u32 \<Rightarrow> ebitmap result" where
  "ebitmap_not m e1 maxbit =
     for_each (\<lambda>i dst. ebitmap_set_bit (at_site (unat i) m) dst i (\<not> ebitmap_get_bit e1 i))
       (upto32 maxbit) ebitmap_init"

definition ebitmap_andnot :: "alloc \<Rightarrow> ebitmap \<Rightarrow> ebitmap \<Rightarrow> u32 \<Rightarrow> ebitmap result" where
  "ebitmap_andnot m e1 e2 maxbit =
     rbind (ebitmap_not (at_site 0 m) e2 maxbit) (\<lambda>e3. ebitmap_and (at_site 1 m) e1 e3)"

definition ebitmap_cardinality :: "ebitmap \<Rightarrow> u32" where
  "ebitmap_cardinality e =
     fold (\<lambda>i count. if ebitmap_get_bit e i then count + 1 else count)
       (filter (\<lambda>i. ebitmap_startbit e \<le> i) (upto32 (highbit e))) 0"

fun cmp_loop :: "ebitmap_node list \<Rightarrow> ebitmap_node list \<Rightarrow> bool" where
  "cmp_loop (n1 # ns1) (n2 # ns2) =
     (if startbit n1 = startbit n2 \<and> nmap n1 = nmap n2 then cmp_loop ns1 ns2 else False)"
| "cmp_loop ns1 ns2 = (ns1 = [] \<and> ns2 = [])"

definition ebitmap_cmp :: "ebitmap \<Rightarrow> ebitmap \<Rightarrow> bool" where
  "ebitmap_cmp e1 e2 =
     (if highbit e1 \<noteq> highbit e2 then False else cmp_loop (nodes e1) (nodes e2))"

text \<open>The distance is returned as a signed integer, \<open>-1\<close> when the difference cannot be built.\<close>

definition ebitmap_hamming_distance :: "alloc \<Rightarrow> ebitmap \<Rightarrow> ebitmap \<Rightarrow> int" where
  "ebitmap_hamming_distance m e1 e2 =
     (if ebitmap_cmp e1 e2 then 0
      else case ebitmap_xor m e1 e2 of
        Inl _ \<Rightarrow> -1
      | Inr tmp \<Rightarrow> sint (ebitmap_cardinality tmp))"

fun cpy_loop :: "alloc \<Rightarrow> nat \<Rightarrow> ebitmap_node list \<Rightarrow> ebitmap_node list result" where
  "cpy_loop m i [] = Inr []"
| "cpy_loop m i (n # ns) =
     (if malloc (at_site i m)
      then rbind (cpy_loop m (Suc i) ns) (\<lambda>r. Inr (\<lparr>startbit = startbit n, nmap = nmap n\<rparr> # r))
      else Inl ENOMEM)"

definition ebitmap_cpy :: "alloc \<Rightarrow> ebitmap \<Rightarrow> ebitmap result" where
  "ebitmap_cpy m src =
     rbind (cpy_loop m 0 (nodes src)) (\<lambda>ns. Inr \<lparr>nodes = ns, highbit = highbit src\<rparr>)"

fun contains_loop :: "ebitmap_node list \<Rightarrow> ebitmap_node list \<Rightarrow> bool" where
  "contains_loop (n1 # ns1) (n2 # ns2) =
     (if startbit n1 \<le> startbit n2
      then if startbit n1 < startbit n2 then contains_loop ns1 (n2 # ns2)
           else if nmap n1 AND nmap n2 \<noteq> nmap n2 then False
           else contains_loop ns1 ns2
      else False)"
| "contains_loop ns1 ns2 = (ns2 = [])"

definition ebitmap_contains :: "ebitmap \<Rightarrow> ebitmap \<Rightarrow> bool" where
  "ebitmap_contains e1 e2 =
     (if highbit e1 < highbit e2 then False else contains_loop (nodes e1) (nodes e2))"

fun match_any_loop :: "ebitmap_node list \<Rightarrow> ebitmap_node list \<Rightarrow> bool" where
  "match_any_loop (n1 # ns1) (n2 # ns2) =
     (if startbit n1 < startbit n2 then match_any_loop ns1 (n2 # ns2)
      else if startbit n2 < startbit n1 then match_any_loop (n1 # ns1) ns2
      else if nmap n1 AND nmap n2 \<noteq> 0 then True
      else match_any_loop ns1 ns2)"
| "match_any_loop ns1 ns2 = False"

definition ebitmap_match_any :: "ebitmap \<Rightarrow> ebitmap \<Rightarrow> bool" where
  "ebitmap_match_any e1 e2 = match_any_loop (nodes e1) (nodes e2)"

section \<open>Iteration\<close>

text \<open>
  The macro \<^verbatim>\<open>ebitmap_for_each_bit\<close> with \<^verbatim>\<open>ebitmap_next\<close>, and \<^verbatim>\<open>ebitmap_node_get_bit\<close> on every bit
  visited: the visited bits with their values in order.  The current node is the head of the
  list.  Reading a bit when there is no node, or at a distance of 64 or more from the node's
  start, is undefined behaviour.
\<close>

definition ebitmap_node_get_bit :: "ebitmap_node \<Rightarrow> u32 \<Rightarrow> bool result" where
  "ebitmap_node_get_bit n b =
     (if unat (b - startbit n) < MAPSIZE then Inr (nmap n AND node_mask n b \<noteq> 0) else Inl UB)"

fun ebitmap_next :: "ebitmap_node list \<Rightarrow> u32 \<Rightarrow> ebitmap_node list \<times> u32" where
  "ebitmap_next (n # n' # ns) b =
     (if unat b = unat (startbit n) + MAPSIZE - 1 then (n' # ns, startbit n') else (n # n' # ns, b + 1))"
| "ebitmap_next ns b = (ns, b + 1)"

lemma ebitmap_next_cases:
  "ebitmap_next ns b = (ns, b + 1) \<or> length (fst (ebitmap_next ns b)) < length ns"
  by (induction ns b rule: ebitmap_next.induct) auto

function visit_loop :: "u32 \<Rightarrow> ebitmap_node list \<Rightarrow> u32 \<Rightarrow> (u32 \<times> bool) list result" where
  "visit_loop hb ns b =
     (if b < hb
      then case ns of
        [] \<Rightarrow> Inl UB
      | n # _ \<Rightarrow>
          rbind (ebitmap_node_get_bit n b)
            (\<lambda>v. case ebitmap_next ns b of (ns', b') \<Rightarrow>
               rbind (visit_loop hb ns' b') (\<lambda>r. Inr ((b, v) # r)))
      else Inr [])"
  by pat_completeness auto
termination
proof (relation "measures [\<lambda>(hb, ns, b). length ns, \<lambda>(hb, ns, b). unat hb - unat b]", goal_cases)
  case 1
  then show ?case by simp
next
  case (2 hb ns b n ns' v ns'' b')
  then have "(ns'', b') = (ns, b + 1) \<or> length ns'' < length ns"
    using ebitmap_next_cases [of ns b] by (metis fst_conv)
  moreover have "unat hb - unat (b + 1) < unat hb - unat b"
  proof -
    have "unat b < unat hb" using 2 by (simp add: word_less_nat_alt)
    moreover from this have "unat (b + 1) = unat b + 1"
      using unat_less_2p32 [of hb] by (simp add: unat_word_ariths)
    ultimately show ?thesis by simp
  qed
  ultimately show ?case by auto
qed

declare visit_loop.simps [simp del]

definition ebitmap_for_each_bit :: "ebitmap \<Rightarrow> (u32 \<times> bool) list result" where
  "ebitmap_for_each_bit e = visit_loop (highbit e) (nodes e) (ebitmap_startbit e)"

text \<open>The bits for which the body of a loop that skips unset bits is executed.\<close>

definition ebitmap_positive_bits :: "ebitmap \<Rightarrow> u32 list result" where
  "ebitmap_positive_bits e =
     rbind (ebitmap_for_each_bit e) (\<lambda>vs. Inr (map fst (filter snd vs)))"

section \<open>The set of bits, the invariants\<close>

definition nbits :: "ebitmap_node \<Rightarrow> nat set" where
  "nbits n = {b. unat (startbit n) \<le> b \<and> bit (nmap n) (b - unat (startbit n))}"

definition nodes_bits :: "ebitmap_node list \<Rightarrow> nat set" where
  "nodes_bits ns = (\<Union>n \<in> set ns. nbits n)"

definition ebits :: "ebitmap \<Rightarrow> nat set" where
  "ebits e = nodes_bits (nodes e)"

definition nodes_ok :: "ebitmap_node list \<Rightarrow> bool" where
  "nodes_ok ns \<longleftrightarrow>
     sorted_wrt (<) (map startbit ns) \<and> (\<forall>n \<in> set ns. MAPSIZE dvd unat (startbit n) \<and> nmap n \<noteq> 0)"

definition ebitmap_ok :: "ebitmap \<Rightarrow> bool" where
  "ebitmap_ok e \<longleftrightarrow>
     nodes_ok (nodes e) \<and> (\<forall>n \<in> set (nodes e). unat (startbit n) + MAPSIZE \<le> unat (highbit e))"

definition ebitmap_wf :: "ebitmap \<Rightarrow> bool" where
  "ebitmap_wf e \<longleftrightarrow>
     nodes_ok (nodes e) \<and> (\<forall>n \<in> set (nodes e). unat (startbit n) + MAPSIZE < 2 ^ 32) \<and>
     highbit e = (if nodes e = [] then 0 else startbit (last (nodes e)) + of_nat MAPSIZE)"

section \<open>Lemmas\<close>

subsection \<open>Nodes\<close>

lemma nbits_iff: "b \<in> nbits n \<longleftrightarrow> unat (startbit n) \<le> b \<and> bit (nmap n) (b - unat (startbit n))"
  by (simp add: nbits_def)

lemma nbits_block: "b \<in> nbits n \<Longrightarrow> unat (startbit n) \<le> b \<and> b < unat (startbit n) + MAPSIZE"
  by (auto simp: nbits_iff MAPSIZE_def dest: bit_imp_le_length)

lemma nodes_bits_simps [simp]:
  "nodes_bits [] = {}"
  "nodes_bits (n # ns) = nbits n \<union> nodes_bits ns"
  "nodes_bits (ms @ ns) = nodes_bits ms \<union> nodes_bits ns"
  by (auto simp: nodes_bits_def)

lemma aligned_gap:
  assumes "MAPSIZE dvd a" and "MAPSIZE dvd b" and "a < b"
  shows "a + MAPSIZE \<le> b"
proof -
  from assms(1,2) obtain i j where ij: "a = MAPSIZE * i" "b = MAPSIZE * j" by (auto simp: dvd_def)
  with \<open>a < b\<close> have "Suc i \<le> j" by (simp add: MAPSIZE_def)
  then have "MAPSIZE * Suc i \<le> MAPSIZE * j" by (rule mult_le_mono2)
  with ij show ?thesis by simp
qed

lemma nodes_ok_Nil [simp]: "nodes_ok []"
  by (simp add: nodes_ok_def)

lemma nodes_ok_Cons:
  "nodes_ok (n # ns) \<longleftrightarrow>
     MAPSIZE dvd unat (startbit n) \<and> nmap n \<noteq> 0 \<and>
     (\<forall>n' \<in> set ns. unat (startbit n) + MAPSIZE \<le> unat (startbit n')) \<and> nodes_ok ns"
proof -
  have "startbit n < startbit n' \<longleftrightarrow> unat (startbit n) + MAPSIZE \<le> unat (startbit n')"
    if "MAPSIZE dvd unat (startbit n)" "MAPSIZE dvd unat (startbit n')" for n'
    using aligned_gap [OF that] by (auto simp: word_less_nat_alt MAPSIZE_def)
  then show ?thesis
    by (auto simp: nodes_ok_def)
qed

lemma nodes_ok_append:
  "nodes_ok (ms @ ns) \<longleftrightarrow>
     nodes_ok ms \<and> nodes_ok ns \<and>
     (\<forall>m \<in> set ms. \<forall>n \<in> set ns. unat (startbit m) + MAPSIZE \<le> unat (startbit n))"
  by (induction ms) (auto simp: nodes_ok_Cons)

lemma nodes_bits_above:
  assumes "\<forall>n \<in> set ns. k \<le> unat (startbit n)" and "b < k"
  shows "b \<notin> nodes_bits ns"
  using assms by (force simp: nodes_bits_def nbits_iff)

lemma nodes_bits_below:
  assumes "\<forall>n \<in> set ns. unat (startbit n) + MAPSIZE \<le> k" and "k \<le> b"
  shows "b \<notin> nodes_bits ns"
  using assms by (force simp: nodes_bits_def dest: nbits_block)

lemma nbits_nonempty: "nmap n \<noteq> 0 \<Longrightarrow> \<exists>k < MAPSIZE. unat (startbit n) + k \<in> nbits n"
  by (auto simp: nbits_iff MAPSIZE_def bit_eq_iff dest: bit_imp_le_length)

lemma node_mask_test:
  assumes "startbit n \<le> b"
  shows "(nmap n AND node_mask n b \<noteq> 0) \<longleftrightarrow> unat b \<in> nbits n"
proof -
  have "unat (b - startbit n) = unat b - unat (startbit n)"
    using assms by (simp add: unat_sub)
  then show ?thesis
    using assms by (simp add: node_mask_def test_bit_and_power nbits_iff word_le_nat_alt)
qed

lemma bit_node_mask:
  assumes "startbit n \<le> b" and "node_reaches n b"
  shows "bit (node_mask n b) k \<longleftrightarrow> k = unat b - unat (startbit n)"
proof -
  have "unat (b - startbit n) = unat b - unat (startbit n)"
    using assms by (simp add: unat_sub)
  moreover have "unat b - unat (startbit n) < 64"
    using assms by (auto simp: node_reaches_def MAPSIZE_def word_le_nat_alt)
  ultimately show ?thesis
    by (auto simp: node_mask_def bit_simps)
qed

lemma nbits_set:
  assumes "startbit n \<le> b" and "node_reaches n b"
  shows "nbits (n\<lparr>nmap := nmap n OR node_mask n b\<rparr>) = insert (unat b) (nbits n)"
  using assms by (auto simp: nbits_iff bit_or_iff bit_node_mask word_le_nat_alt)

lemma nbits_clear:
  assumes "startbit n \<le> b" and "node_reaches n b"
  shows "nbits (n\<lparr>nmap := nmap n AND NOT (node_mask n b)\<rparr>) = nbits n - {unat b}"
proof (rule set_eqI)
  fix x
  have "unat (startbit n) \<le> x \<Longrightarrow> x - unat (startbit n) = unat b - unat (startbit n) \<longleftrightarrow> x = unat b"
    using assms(1) by (auto simp: word_le_nat_alt)
  moreover have "bit (nmap n) k \<Longrightarrow> k < 64" for k
    by (auto dest: bit_imp_le_length)
  ultimately show "x \<in> nbits (n\<lparr>nmap := nmap n AND NOT (node_mask n b)\<rparr>) \<longleftrightarrow> x \<in> nbits n - {unat b}"
    using bit_node_mask [OF assms] by (auto simp: nbits_iff bit_and_iff bit_not_iff)
qed

subsection \<open>Reading a bit\<close>

lemma get_bit_loop_iff:
  "nodes_ok ns \<Longrightarrow> get_bit_loop ns b \<longleftrightarrow> unat b \<in> nodes_bits ns"
proof (induction ns b rule: get_bit_loop.induct)
  case (1 b)
  then show ?case by simp
next
  case (2 n ns b)
  then have ok: "nodes_ok ns" "\<forall>n' \<in> set ns. unat (startbit n) + MAPSIZE \<le> unat (startbit n')"
    by (auto simp: nodes_ok_Cons)
  consider (above) "\<not> startbit n \<le> b" | (here) "startbit n \<le> b" "node_reaches n b"
    | (later) "startbit n \<le> b" "\<not> node_reaches n b" by blast
  then show ?case
  proof cases
    case above
    then have "unat b < unat (startbit n)" by (simp add: word_le_nat_alt)
    then have "unat b \<notin> nbits n" "unat b \<notin> nodes_bits ns"
      using ok(2) nodes_bits_above [of ns "unat (startbit n) + MAPSIZE" "unat b"]
      by (auto simp: nbits_iff)
    with above show ?thesis by simp
  next
    case here
    then have "unat b \<notin> nodes_bits ns"
      using ok(2) by (intro nodes_bits_above) (auto simp: node_reaches_def)
    with here show ?thesis by (simp add: node_mask_test)
  next
    case later
    then have "unat b \<notin> nbits n"
      by (auto simp: node_reaches_def dest: nbits_block)
    with later 2 ok show ?thesis by simp
  qed
qed

theorem ebitmap_get_bit_iff [bitmap_simps]:
  assumes "ebitmap_ok e"
  shows "ebitmap_get_bit e b \<longleftrightarrow> unat b \<in> ebits e"
proof -
  have "unat b \<notin> nodes_bits (nodes e)" if "highbit e < b"
    using assms that by (intro nodes_bits_below) (auto simp: ebitmap_ok_def word_less_nat_alt)
  then show ?thesis
    using assms by (auto simp: ebitmap_get_bit_def ebits_def ebitmap_ok_def get_bit_loop_iff)
qed

subsection \<open>The two invariants\<close>

lemma nodes_ok_last:
  "nodes_ok ns \<Longrightarrow> n \<in> set ns \<Longrightarrow> unat (startbit n) \<le> unat (startbit (last ns))"
proof (induction ns)
  case (Cons a ns)
  have "unat (startbit a) \<le> unat (startbit (last ns))" if "ns \<noteq> []"
    using Cons.prems(1) last_in_set [OF that] by (fastforce simp: nodes_ok_Cons)
  with Cons show ?case by (auto simp: nodes_ok_Cons)
qed simp

lemma ebitmap_wf_highbit:
  assumes "ebitmap_wf e" and "nodes e \<noteq> []"
  shows "unat (highbit e) = unat (startbit (last (nodes e))) + MAPSIZE"
proof -
  have "unat (startbit (last (nodes e))) + MAPSIZE < 2 ^ 32"
    using assms by (simp add: ebitmap_wf_def)
  then show ?thesis
    using assms by (simp add: ebitmap_wf_def unat_word_ariths MAPSIZE_def)
qed

lemma ebitmap_wf_ok: "ebitmap_wf e \<Longrightarrow> ebitmap_ok e"
  using ebitmap_wf_highbit [of e] nodes_ok_last [of "nodes e"]
  by (cases "nodes e = []") (auto simp: ebitmap_wf_def ebitmap_ok_def)

lemma ebits_less: "ebitmap_ok e \<Longrightarrow> b \<in> ebits e \<Longrightarrow> b < unat (highbit e)"
  by (force simp: ebits_def nodes_bits_def ebitmap_ok_def dest!: nbits_block)

lemma finite_ebits: "ebitmap_ok e \<Longrightarrow> finite (ebits e)"
  by (rule finite_subset [of _ "{..<unat (highbit e)}"]) (auto dest: ebits_less)

lemma ebitmap_init_wf [simp]: "ebitmap_wf ebitmap_init"
  by (simp add: ebitmap_wf_def ebitmap_init_def)

lemma ebits_init [simp]: "ebits ebitmap_init = {}"
  by (simp add: ebits_def ebitmap_init_def)

lemma ebitmap_destroy_eq: "ebitmap_destroy e = ebitmap_init"
  by (simp add: ebitmap_destroy_def ebitmap_init_def)

subsection \<open>Writing a bit\<close>

lemma unat_bit_startbit: "unat (bit_startbit b) = unat b div MAPSIZE * MAPSIZE"
proof -
  have "(63 :: u32) = mask 6" by (simp add: mask_eq_exp_minus_1)
  then have "bit_startbit b = push_bit 6 (drop_bit 6 b)"
    by (auto simp: bit_startbit_def MAPSIZE_def bit_eq_iff bit_simps bit_mask_iff)
  then have "unat (bit_startbit b) = take_bit 32 (push_bit 6 (drop_bit 6 (unat b)))"
    using unat_less_2p32 [of b] by (simp add: unsigned_push_bit_eq unsigned_drop_bit_eq take_bit_nat_eq_self)
  also have "\<dots> = unat b div 64 * 64 mod 2 ^ 32"
    by (simp add: take_bit_eq_mod push_bit_eq_mult drop_bit_eq_div)
  also have "\<dots> = unat b div 64 * 64"
    using unat_less_2p32 [of b] by simp
  finally show ?thesis by (simp add: MAPSIZE_def)
qed

lemma bit_startbit_block:
  "MAPSIZE dvd unat (bit_startbit b)"
  "unat (bit_startbit b) \<le> unat b" "unat b < unat (bit_startbit b) + MAPSIZE"
  by (simp_all add: unat_bit_startbit MAPSIZE_def)

lemma bit_highbit_zero:
  "bit_startbit b + of_nat MAPSIZE = 0 \<longleftrightarrow> 2 ^ 32 - MAPSIZE \<le> unat b"
proof -
  have "bit_startbit b + of_nat MAPSIZE = 0 \<longleftrightarrow> (unat (bit_startbit b) + MAPSIZE) mod 2 ^ 32 = 0"
    by (simp add: unat_eq_zero [symmetric] unat_word_ariths MAPSIZE_def flip: unat_eq_zero)
  also have "\<dots> \<longleftrightarrow> unat (bit_startbit b) + MAPSIZE = 2 ^ 32"
    using unat_less_2p32 [of "bit_startbit b"] by (auto simp: MAPSIZE_def mod_if split: if_splits)
  also have "\<dots> \<longleftrightarrow> 2 ^ 32 - MAPSIZE \<le> unat b"
  proof -
    define q where "q = unat b div MAPSIZE"
    have "unat b < 4294967296" "q * 64 \<le> unat b" "unat b < q * 64 + 64"
      using unat_less_2p32 [of b] bit_startbit_block [of b]
      by (simp_all add: q_def unat_bit_startbit MAPSIZE_def)
    moreover from this have "q \<le> 67108863" by linarith
    moreover have "67108863 \<le> q" if "4294967232 \<le> unat b"
      using that \<open>unat b < q * 64 + 64\<close> by linarith
    ultimately have "q * 64 + 64 = 4294967296 \<longleftrightarrow> 4294967232 \<le> unat b"
      by (intro iffI) linarith+
    then show ?thesis by (simp add: unat_bit_startbit MAPSIZE_def q_def)
  qed
  finally show ?thesis .
qed

lemma nbits_zero: "nmap n = 0 \<Longrightarrow> nbits n = {}"
  by (simp add: nbits_def)

lemma nbits_new_node:
  "nbits \<lparr>startbit = bit_startbit b, nmap = push_bit (unat (b - bit_startbit b)) 1\<rparr> = {unat b}"
proof -
  have d: "unat (b - bit_startbit b) = unat b - unat (bit_startbit b)"
    using bit_startbit_block [of b] by (simp add: unat_sub word_le_nat_alt)
  have "unat b - unat (bit_startbit b) < 64"
    using bit_startbit_block [of b] by (simp add: MAPSIZE_def)
  then have "bit (push_bit (unat (b - bit_startbit b)) 1 :: u64) k \<longleftrightarrow> k = unat b - unat (bit_startbit b)" for k
    by (auto simp: d bit_simps)
  then show ?thesis
    using bit_startbit_block(2) [of b] by (auto simp: nbits_def)
qed

lemma set_bit_loop_spec:
  assumes "set_bit_loop prev ns b = (prev', rest, found)"
  obtains mid where "prev' = rev mid @ prev" and "ns = mid @ rest"
    and "\<forall>n \<in> set mid. unat (startbit n) + MAPSIZE \<le> unat b"
    and "found \<Longrightarrow> \<exists>n rs. rest = n # rs \<and> startbit n \<le> b \<and> node_reaches n b"
    and "\<not> found \<Longrightarrow> rest = [] \<or> b < startbit (hd rest)"
proof -
  have "\<exists>mid. prev' = rev mid @ prev \<and> ns = mid @ rest \<and>
      (\<forall>n \<in> set mid. unat (startbit n) + MAPSIZE \<le> unat b) \<and>
      (if found then \<exists>n rs. rest = n # rs \<and> startbit n \<le> b \<and> node_reaches n b
       else rest = [] \<or> b < startbit (hd rest))"
    using assms
  proof (induction prev ns b rule: set_bit_loop.induct)
    case (2 prev n ns b)
    show ?case
    proof (cases "startbit n \<le> b \<and> \<not> node_reaches n b")
      case True
      with 2 obtain mid where "prev' = rev mid @ n # prev \<and> ns = mid @ rest \<and>
        (\<forall>n \<in> set mid. unat (startbit n) + MAPSIZE \<le> unat b) \<and>
        (if found then \<exists>n rs. rest = n # rs \<and> startbit n \<le> b \<and> node_reaches n b
         else rest = [] \<or> b < startbit (hd rest))" by auto
      with True show ?thesis
        by (intro exI [of _ "n # mid"]) (auto simp: node_reaches_def)
    next
      case False
      with 2 show ?thesis by (auto split: if_splits)
    qed
  qed simp
  then show thesis using that by (cases found) auto
qed

text \<open>
  The three ways in which \<^verbatim>\<open>ebitmap_set_bit\<close> succeeds: the node exists and keeps a bit, the node
  loses its last bit and is unlinked, a node is inserted.  The following lemma reads them off the
  search loop for a list in order, and the lemmas after it are stated on the split list.
\<close>

lemma ebitmap_set_bit_cases:
  assumes res: "ebitmap_set_bit m e b v = Inr e'" and ok: "nodes_ok (nodes e)"
  obtains
    (change) ms n rs n' where "nodes e = ms @ n # rs" and "nodes e' = ms @ n' # rs"
      and "highbit e' = highbit e" and "startbit n' = startbit n" and "nmap n' \<noteq> 0"
      and "startbit n \<le> b" and "node_reaches n b"
      and "nbits n' = (if v then insert (unat b) (nbits n) else nbits n - {unat b})"
  | (drop) ms n rs where "nodes e = ms @ n # rs" and "nodes e' = ms @ rs" and "\<not> v"
      and "startbit n \<le> b" and "node_reaches n b" and "nbits n - {unat b} = {}"
      and "highbit e' = (if rs = [] then if ms = [] then 0 else startbit (last ms) + of_nat MAPSIZE
                         else highbit e)"
  | (keep) "e' = e" and "\<not> v" and "unat b \<notin> nodes_bits (nodes e)"
  | (insert) ms rs n' where "nodes e = ms @ rs" and "nodes e' = ms @ n' # rs" and "v"
      and "startbit n' = bit_startbit b" and "nbits n' = {unat b}" and "nmap n' \<noteq> 0"
      and "\<forall>n \<in> set ms. unat (startbit n) + MAPSIZE \<le> unat b"
      and "\<forall>n \<in> set rs. unat b < unat (startbit n)"
      and "highbit e' = (if rs = [] then bit_startbit b + of_nat MAPSIZE else highbit e)"
      and "unat (bit_startbit b) + MAPSIZE < 2 ^ 32"
proof -
  obtain prev rest found where loop: "set_bit_loop [] (nodes e) b = (prev, rest, found)"
    by (metis prod_cases3)
  then obtain ms where ms: "prev = rev ms" "nodes e = ms @ rest"
    and below: "\<forall>n \<in> set ms. unat (startbit n) + MAPSIZE \<le> unat b"
    and yes: "found \<Longrightarrow> \<exists>n rs. rest = n # rs \<and> startbit n \<le> b \<and> node_reaches n b"
    and no: "\<not> found \<Longrightarrow> rest = [] \<or> b < startbit (hd rest)"
    by (rule set_bit_loop_spec) simp
  have hb: "bit_startbit b + of_nat MAPSIZE \<noteq> 0"
    using res by (auto simp: ebitmap_set_bit_def Let_def)
  have last_ms: "(case prev of [] \<Rightarrow> 0 | p # _ \<Rightarrow> startbit p + of_nat MAPSIZE)
      = (if ms = [] then 0 else startbit (last ms) + of_nat MAPSIZE)"
    by (cases ms rule: rev_cases) (simp_all add: ms(1))
  show thesis
  proof (cases found)
    case True
    then obtain n rs where n: "rest = n # rs" "startbit n \<le> b" "node_reaches n b"
      using yes by blast
    have mem: "unat b \<in> nbits (n\<lparr>nmap := nmap n OR node_mask n b\<rparr>)"
      by (simp add: nbits_set [OF n(2,3)])
    then have "nmap n OR node_mask n b \<noteq> 0" by (auto simp: nbits_iff)
    have res': "(if v then Inr (e\<lparr>nodes := rev prev @ n\<lparr>nmap := nmap n OR node_mask n b\<rparr> # rs\<rparr>)
        else let mp = nmap n AND NOT (node_mask n b) in
          if mp \<noteq> 0 then Inr (e\<lparr>nodes := rev prev @ n\<lparr>nmap := mp\<rparr> # rs\<rparr>)
          else Inr (e\<lparr>nodes := rev prev @ rs,
                      highbit := (if rs = []
                                  then (case prev of [] \<Rightarrow> 0 | p # _ \<Rightarrow> startbit p + of_nat MAPSIZE)
                                  else highbit e)\<rparr>)) = (Inr e' :: ebitmap result)"
      using res hb loop True n(1) by (simp add: ebitmap_set_bit_def split del: if_split)
    show thesis
    proof (cases v)
      case True
      with res' have "e' = e\<lparr>nodes := ms @ n\<lparr>nmap := nmap n OR node_mask n b\<rparr> # rs\<rparr>"
        by (simp add: ms(1))
      then show thesis
        using \<open>nmap n OR node_mask n b \<noteq> 0\<close> True n ms(2) nbits_set [OF n(2,3)]
        by (intro change [of ms n rs "n\<lparr>nmap := nmap n OR node_mask n b\<rparr>"]) simp_all
    next
      case nv: False
      show thesis
      proof (cases "nmap n AND NOT (node_mask n b) = 0")
        case True
        have "nbits (n\<lparr>nmap := 0\<rparr>) = {}"
          by (simp add: nbits_def)
        then have "nbits n - {unat b} = {}"
          using nbits_clear [OF n(2,3)] True by simp
        moreover have "e' = e\<lparr>nodes := ms @ rs, highbit := (if rs = [] then
            if ms = [] then 0 else startbit (last ms) + of_nat MAPSIZE else highbit e)\<rparr>"
          using res' nv True unfolding last_ms by (simp add: ms(1) split del: if_split)
        ultimately show thesis
          using nv n ms(2) by (intro drop [of ms n rs]) simp_all
      next
        case False
        with res' nv have "e' = e\<lparr>nodes := ms @ n\<lparr>nmap := nmap n AND NOT (node_mask n b)\<rparr> # rs\<rparr>"
          by (simp add: ms(1))
        then show thesis
          using False nv n ms(2) nbits_clear [OF n(2,3)]
          by (intro change [of ms n rs "n\<lparr>nmap := nmap n AND NOT (node_mask n b)\<rparr>"]) simp_all
      qed
    qed
  next
    case False
    have above: "\<forall>n \<in> set rest. unat b < unat (startbit n)"
    proof (cases rest)
      case (Cons r rs)
      with no [OF False] ok ms(2) show ?thesis
        by (auto simp: nodes_ok_append nodes_ok_Cons word_less_nat_alt)
    qed simp
    have notin: "unat b \<notin> nodes_bits (nodes e)"
      using nodes_bits_below [OF below] nodes_bits_above [of rest "unat b + 1" "unat b"] above
      by (auto simp: ms(2) Suc_le_eq)
    show thesis
    proof (cases v)
      case True
      let ?n = "\<lparr>startbit = bit_startbit b, nmap = push_bit (unat (b - bit_startbit b)) 1\<rparr> :: ebitmap_node"
      have nb: "nbits ?n = {unat b}"
        by (rule nbits_new_node)
      moreover have "nmap ?n \<noteq> 0"
        using nb nbits_zero [of ?n] by blast
      moreover have "unat (bit_startbit b) + MAPSIZE < 2 ^ 32"
        using hb bit_startbit_block(2) [of b] unfolding bit_highbit_zero by (simp add: MAPSIZE_def)
      moreover have "nodes e' = ms @ ?n # rest"
        "highbit e' = (if rest = [] then bit_startbit b + of_nat MAPSIZE else highbit e)"
        using res hb loop False True ms(1)
        by (cases rest; force simp: ebitmap_set_bit_def Let_def split: if_splits)+
      ultimately show thesis
        using insert [of ms rest ?n] ms(2) below above True by simp
    next
      case nv: False
      then have "e' = e"
        using res hb loop False by (auto simp: ebitmap_set_bit_def Let_def split: if_splits list.splits)
      with keep nv notin show thesis by blast
    qed
  qed
qed

text \<open>The effect of \<^verbatim>\<open>ebitmap_set_bit\<close> on the set of bits and on both invariants.\<close>

lemma nodes_bits_around:
  assumes "nodes_ok (ms @ n # rs)" and "startbit n \<le> b" and "node_reaches n b"
  shows "unat b \<notin> nodes_bits ms" and "unat b \<notin> nodes_bits rs"
proof -
  show "unat b \<notin> nodes_bits ms"
    using assms nodes_bits_below [of ms "unat (startbit n)" "unat b"]
    by (simp add: nodes_ok_append word_le_nat_alt)
  show "unat b \<notin> nodes_bits rs"
    using assms nodes_bits_above [of rs "unat (startbit n) + MAPSIZE" "unat b"]
    by (simp add: nodes_ok_append nodes_ok_Cons node_reaches_def)
qed

lemma set_bit_ebits:
  assumes "ebitmap_set_bit m e b v = Inr e'" and "nodes_ok (nodes e)"
  shows "ebits e' = (if v then insert (unat b) (ebits e) else ebits e - {unat b})"
  using assms
proof (cases rule: ebitmap_set_bit_cases)
  case (change ms n rs n')
  then show ?thesis
    using nodes_bits_around [of ms n rs b] assms(2) by (auto simp: ebits_def)
next
  case (drop ms n rs)
  then show ?thesis
    using nodes_bits_around [of ms n rs b] assms(2) by (auto simp: ebits_def)
next
  case keep
  then show ?thesis by (simp add: ebits_def)
next
  case (insert ms rs n')
  then show ?thesis by (auto simp: ebits_def)
qed

lemma inserted_node_between:
  assumes "MAPSIZE dvd unat (startbit n)"
  shows "unat (startbit n) + MAPSIZE \<le> unat b \<Longrightarrow> unat (startbit n) + MAPSIZE \<le> unat (bit_startbit b)"
    and "unat b < unat (startbit n) \<Longrightarrow> unat (bit_startbit b) + MAPSIZE \<le> unat (startbit n)"
  using assms bit_startbit_block [of b] aligned_gap [of "unat (startbit n)" "unat (bit_startbit b)"]
    aligned_gap [of "unat (bit_startbit b)" "unat (startbit n)"]
  by linarith+

lemma set_bit_nodes_ok:
  assumes "ebitmap_set_bit m e b v = Inr e'" and "nodes_ok (nodes e)"
  shows "nodes_ok (nodes e')"
  using assms
proof (cases rule: ebitmap_set_bit_cases)
  case (insert ms rs n')
  have "unat (startbit n) + MAPSIZE \<le> unat (bit_startbit b)" if "n \<in> set ms" for n
    using that insert(1,7) assms(2) by (intro inserted_node_between) (auto simp: nodes_ok_def)
  moreover have "unat (bit_startbit b) + MAPSIZE \<le> unat (startbit n)" if "n \<in> set rs" for n
    using that insert(1,8) assms(2) by (intro inserted_node_between) (auto simp: nodes_ok_def)
  ultimately show ?thesis
    using insert assms(2) bit_startbit_block(1) [of b] by (auto simp: nodes_ok_append nodes_ok_Cons)
qed (use assms(2) in \<open>auto simp: nodes_ok_append nodes_ok_Cons\<close>)

lemma set_bit_wf:
  assumes res: "ebitmap_set_bit m e b v = Inr e'" and wf: "ebitmap_wf e"
  shows "ebitmap_wf e'"
proof -
  have nok: "nodes_ok (nodes e)" using wf by (simp add: ebitmap_wf_def)
  note nok' = set_bit_nodes_ok [OF res nok]
  from res nok show ?thesis
  proof (cases rule: ebitmap_set_bit_cases)
    case (change ms n rs n')
    with wf nok' show ?thesis by (auto simp: ebitmap_wf_def)
  next
    case (drop ms n rs)
    with wf nok' show ?thesis by (auto simp: ebitmap_wf_def)
  next
    case keep
    with wf show ?thesis by simp
  next
    case (insert ms rs n')
    with wf nok' show ?thesis by (auto simp: ebitmap_wf_def)
  qed
qed

lemma set_bit_ok:
  assumes res: "ebitmap_set_bit m e b v = Inr e'" and ok: "ebitmap_ok e"
  shows "ebitmap_ok e'"
proof -
  have nok: "nodes_ok (nodes e)" using ok by (simp add: ebitmap_ok_def)
  note nok' = set_bit_nodes_ok [OF res nok]
  from res nok show ?thesis
  proof (cases rule: ebitmap_set_bit_cases)
    case (change ms n rs n')
    with ok nok' show ?thesis by (auto simp: ebitmap_ok_def)
  next
    case (drop ms n rs)
    have "unat (startbit k) + MAPSIZE \<le> unat (startbit (last ms) + of_nat MAPSIZE)"
      if "k \<in> set ms" "rs = []" for k
    proof -
      have "last ms \<in> set (nodes e)" using drop(1) that by (cases ms) auto
      then have "unat (startbit (last ms)) + MAPSIZE \<le> unat (highbit e)"
        using ok by (simp add: ebitmap_ok_def)
      then have "unat (startbit (last ms) + of_nat MAPSIZE) = unat (startbit (last ms)) + MAPSIZE"
        using unat_less_2p32 [of "highbit e"] by (simp add: unat_word_ariths MAPSIZE_def)
      then show ?thesis
        using nodes_ok_last [of ms k] nok' drop(2) that by simp
    qed
    with drop ok nok' show ?thesis by (auto simp: ebitmap_ok_def)
  next
    case keep
    with ok show ?thesis by simp
  next
    case (insert ms rs n')
    have sb: "unat (bit_startbit b + of_nat MAPSIZE) = unat (bit_startbit b) + MAPSIZE"
      using insert(10) by (simp add: unat_word_ariths MAPSIZE_def)
    have "unat (startbit k) + MAPSIZE \<le> unat (highbit e')" if "k \<in> set (nodes e')" for k
    proof (cases "rs = []")
      case True
      then have "unat (startbit k) \<le> unat (bit_startbit b)"
        using nodes_ok_last [OF nok' that] insert(2,4) by simp
      with True insert(9) sb show ?thesis by simp
    next
      case False
      then have "last (nodes e') \<in> set (nodes e)" using insert(1,2) by simp
      then have "unat (startbit (last (nodes e'))) + MAPSIZE \<le> unat (highbit e)"
        using ok by (simp add: ebitmap_ok_def)
      with nodes_ok_last [OF nok' that] insert(9) False show ?thesis by simp
    qed
    with nok' show ?thesis by (simp add: ebitmap_ok_def)
  qed
qed

lemma ebitmap_set_bit_EINVAL:
  "2 ^ 32 - MAPSIZE \<le> unat b \<Longrightarrow> ebitmap_set_bit m e b v = Inl EINVAL"
  by (simp add: ebitmap_set_bit_def Let_def bit_highbit_zero)

lemma ebitmap_set_bit_errors:
  assumes "ebitmap_set_bit m e b v = Inl x"
  shows "(x = EINVAL \<and> 2 ^ 32 - MAPSIZE \<le> unat b) \<or> (x = ENOMEM \<and> v \<and> \<not> malloc m)"
  using assms
  by (auto simp: ebitmap_set_bit_def Let_def bit_highbit_zero
      split: prod.splits list.splits bool.splits if_splits)

lemma ebitmap_set_bit_total:
  assumes "unat b < 2 ^ 32 - MAPSIZE" and "malloc m \<or> \<not> v"
  shows "\<exists>e'. ebitmap_set_bit m e b v = Inr e'"
  using assms ebitmap_set_bit_errors [of m e b v] by (cases "ebitmap_set_bit m e b v") auto

lemmas set_bit_specs = set_bit_wf set_bit_ok

subsection \<open>Union and copy\<close>

lemma ebitmap_wf_iff:
  "ebitmap_wf e \<longleftrightarrow>
     ebitmap_ok e \<and> (if nodes e = [] then highbit e = 0
                      else \<exists>n \<in> set (nodes e). unat (highbit e) = unat (startbit n) + MAPSIZE)"
  (is "_ \<longleftrightarrow> ?R")
proof
  assume wf: "ebitmap_wf e"
  show ?R
  proof (cases "nodes e = []")
    case True
    with wf ebitmap_wf_ok [OF wf] show ?thesis by (simp add: ebitmap_wf_def)
  next
    case False
    with ebitmap_wf_highbit [OF wf False] ebitmap_wf_ok [OF wf] show ?thesis
      by (auto intro: last_in_set)
  qed
next
  assume R: ?R
  then have ok: "nodes_ok (nodes e)"
    and le: "\<forall>n \<in> set (nodes e). unat (startbit n) + MAPSIZE \<le> unat (highbit e)"
    by (auto simp: ebitmap_ok_def)
  then have lt: "\<forall>n \<in> set (nodes e). unat (startbit n) + MAPSIZE < 2 ^ 32"
    using unat_less_2p32 [of "highbit e"] by fastforce
  show "ebitmap_wf e"
  proof (cases "nodes e = []")
    case True
    with R ok show ?thesis by (simp add: ebitmap_wf_def)
  next
    case False
    then have last: "last (nodes e) \<in> set (nodes e)" by simp
    from False R obtain n where n: "n \<in> set (nodes e)" "unat (highbit e) = unat (startbit n) + MAPSIZE"
      by auto
    have "unat (highbit e) = unat (startbit (last (nodes e))) + MAPSIZE"
      using n nodes_ok_last [OF ok n(1)] le last by (simp add: le_antisym)
    moreover have "unat (startbit (last (nodes e)) + of_nat MAPSIZE) = unat (startbit (last (nodes e))) + MAPSIZE"
      using lt last by (simp add: unat_word_ariths MAPSIZE_def)
    ultimately have "highbit e = startbit (last (nodes e)) + of_nat MAPSIZE"
      by (metis word_unat_eq_iff)
    with False ok lt show ?thesis by (simp add: ebitmap_wf_def)
  qed
qed

lemma nbits_or:
  "startbit n1 = startbit n2 \<Longrightarrow>
     nbits \<lparr>startbit = startbit n1, nmap = nmap n1 OR nmap n2\<rparr> = nbits n1 \<union> nbits n2"
  by (auto simp: nbits_iff bit_or_iff)

lemma node_eta [simp]: "\<lparr>startbit = startbit n, nmap = nmap n\<rparr> = (n :: ebitmap_node)"
  by (cases n) simp

lemma or_loop_Nil:
  "or_loop m i ns [] = Inr r \<Longrightarrow> r = ns"
  "or_loop m i [] ns = Inr r \<Longrightarrow> r = ns"
  by (induction ns arbitrary: i r) (auto simp: rbind_eq_Inr_iff split: if_splits)

lemma nodes_ok_ConsI:
  assumes "startbit ` set ns = S" and "\<forall>s \<in> S. unat (startbit n) + MAPSIZE \<le> unat s"
    and "nodes_ok ns" and "MAPSIZE dvd unat (startbit n)" and "nmap n \<noteq> 0"
  shows "nodes_ok (n # ns)"
  using assms by (auto simp: nodes_ok_Cons)

lemma or_loop_spec:
  assumes "or_loop m i ns1 ns2 = Inr r" and "nodes_ok ns1" and "nodes_ok ns2"
  shows "nodes_ok r \<and> nodes_bits r = nodes_bits ns1 \<union> nodes_bits ns2 \<and>
         startbit ` set r = startbit ` set ns1 \<union> startbit ` set ns2"
  using assms
proof (induction m i ns1 ns2 arbitrary: r rule: or_loop.induct)
  case (1 m i)
  then show ?case by simp
next
  case (2 m i n1 ns1)
  from or_loop_Nil(1) [OF "2.prems"(1)] "2.prems"(2) show ?case by simp
next
  case (3 m i n2 ns2)
  from or_loop_Nil(2) [OF "3.prems"(1)] "3.prems"(3) show ?case by simp
next
  case (4 m i n1 ns1 n2 ns2)
  have ok: "malloc (at_site i m)" using "4.prems"(1) by (auto split: if_splits)
  note oks = "4.prems"(2,3) [unfolded nodes_ok_Cons]
  consider (eq) "startbit n1 = startbit n2" | (lt) "startbit n1 < startbit n2"
    | (gt) "startbit n2 < startbit n1" by fastforce
  then show ?case
  proof cases
    case eq
    let ?n = "\<lparr>startbit = startbit n1, nmap = nmap n1 OR nmap n2\<rparr> :: ebitmap_node"
    from eq "4.prems"(1) ok obtain r' where r': "or_loop m (Suc i) ns1 ns2 = Inr r'" "r = ?n # r'"
      by (auto simp: rbind_eq_Inr_iff)
    have IH: "nodes_ok r' \<and> nodes_bits r' = nodes_bits ns1 \<union> nodes_bits ns2 \<and>
         startbit ` set r' = startbit ` set ns1 \<union> startbit ` set ns2"
      using "4.IH"(1) [OF ok eq r'(1)] oks by blast
    have "nmap n1 OR nmap n2 \<noteq> 0" using oks by (simp add: or_eq_0_iff)
    then have "nodes_ok (?n # r')"
      using IH oks eq by (intro nodes_ok_ConsI [of r' "startbit ` set ns1 \<union> startbit ` set ns2"]) auto
    with IH eq r'(2) nbits_or [OF eq] show ?thesis by auto
  next
    case lt
    then have neq: "startbit n1 \<noteq> startbit n2" by auto
    with lt "4.prems"(1) ok obtain r' where r': "or_loop m (Suc i) ns1 (n2 # ns2) = Inr r'" "r = n1 # r'"
      by (auto simp: rbind_eq_Inr_iff)
    have IH: "nodes_ok r' \<and> nodes_bits r' = nodes_bits ns1 \<union> nodes_bits (n2 # ns2) \<and>
         startbit ` set r' = startbit ` set ns1 \<union> startbit ` set (n2 # ns2)"
      using "4.IH"(2) [OF ok neq lt r'(1)] oks "4.prems"(3) by blast
    have gap: "unat (startbit n1) + MAPSIZE \<le> unat (startbit n2)"
      using lt oks by (intro aligned_gap) (auto simp: word_less_nat_alt)
    have "nodes_ok (n1 # r')"
      using IH oks gap
      by (intro nodes_ok_ConsI [of r' "startbit ` set ns1 \<union> startbit ` set (n2 # ns2)"]) fastforce+
    with IH r'(2) show ?thesis by auto
  next
    case gt
    then have neq: "startbit n1 \<noteq> startbit n2" and nlt: "\<not> startbit n1 < startbit n2" by auto
    with "4.prems"(1) ok obtain r' where r': "or_loop m (Suc i) (n1 # ns1) ns2 = Inr r'" "r = n2 # r'"
      by (auto simp: rbind_eq_Inr_iff)
    have IH: "nodes_ok r' \<and> nodes_bits r' = nodes_bits (n1 # ns1) \<union> nodes_bits ns2 \<and>
         startbit ` set r' = startbit ` set (n1 # ns1) \<union> startbit ` set ns2"
      using "4.IH"(3) [OF ok neq nlt r'(1)] oks "4.prems"(2) by blast
    have gap: "unat (startbit n2) + MAPSIZE \<le> unat (startbit n1)"
      using gt oks by (intro aligned_gap) (auto simp: word_less_nat_alt)
    have "nodes_ok (n2 # r')"
      using IH oks gap
      by (intro nodes_ok_ConsI [of r' "startbit ` set (n1 # ns1) \<union> startbit ` set ns2"]) fastforce+
    with IH r'(2) show ?thesis by auto
  qed
qed

lemma or_loop_no_oom: "\<exists>r. or_loop no_oom i ns1 ns2 = Inr r"
  by (induction "no_oom" i ns1 ns2 rule: or_loop.induct) auto

lemma or_loop_error: "or_loop m i ns1 ns2 = Inl x \<Longrightarrow> x = ENOMEM"
  by (induction m i ns1 ns2 rule: or_loop.induct) (auto simp: rbind_eq_Inl_iff split: if_splits)

lemma cpy_loop_Inr: "cpy_loop m i ns = Inr r \<Longrightarrow> r = ns"
  by (induction m i ns arbitrary: r rule: cpy_loop.induct) (auto simp: rbind_eq_Inr_iff split: if_splits)

lemma cpy_loop_no_oom [simp]: "cpy_loop no_oom i ns = Inr ns"
  by (induction "no_oom" i ns rule: cpy_loop.induct) simp_all

lemma ebitmap_cpy_Inr: "ebitmap_cpy m e = Inr e' \<Longrightarrow> e' = e"
  by (auto simp: ebitmap_cpy_def rbind_eq_Inr_iff dest: cpy_loop_Inr)

lemma ebitmap_cpy_no_oom [simp]: "ebitmap_cpy no_oom e = Inr e"
  by (simp add: ebitmap_cpy_def)

end
