(* ===== verification/Ebitmap_Algebra.thy ===== *)
theory Ebitmap_Algebra
  imports Ebitmap
begin

text \<open>
  The operations on whole bitmaps implement the algebra of finite sets: union, intersection,
  symmetric difference, complement and difference compute the set they are named after and
  return canonical bitmaps; comparison, inclusion, overlap and cardinality decide or count what
  they are named after; iteration visits every bit of the set once, in ascending order, without
  leaving the node list.
\<close>

section \<open>The interface of set containers\<close>

text \<open>
  What the clients of the bitmaps (MLS levels, role and type sets) rely on: a container stands
  for a set, equal sets are represented by equal containers, and the inclusion test decides
  inclusion of the sets.
\<close>

locale set_container =
  fixes inv :: "'c \<Rightarrow> bool"
    and elems :: "'c \<Rightarrow> 'e set"
    and covers :: "'c \<Rightarrow> 'c \<Rightarrow> bool"
    and overlaps :: "'c \<Rightarrow> 'c \<Rightarrow> bool"
  assumes canonical: "inv a \<Longrightarrow> inv b \<Longrightarrow> elems a = elems b \<Longrightarrow> a = b"
    and covers_iff: "inv a \<Longrightarrow> inv b \<Longrightarrow> covers a b \<longleftrightarrow> elems b \<subseteq> elems a"
    and overlaps_iff: "inv a \<Longrightarrow> inv b \<Longrightarrow> overlaps a b \<longleftrightarrow> elems a \<inter> elems b \<noteq> {}"
begin

lemma covers_refl: "inv a \<Longrightarrow> covers a a"
  by (simp add: covers_iff)

lemma covers_trans:
  "inv a \<Longrightarrow> inv b \<Longrightarrow> inv c \<Longrightarrow> covers a b \<Longrightarrow> covers b c \<Longrightarrow> covers a c"
  by (auto simp: covers_iff)

lemma covers_antisym: "inv a \<Longrightarrow> inv b \<Longrightarrow> covers a b \<Longrightarrow> covers b a \<Longrightarrow> a = b"
  by (intro canonical) (auto simp: covers_iff)

lemma overlaps_mono:
  "inv a \<Longrightarrow> inv b \<Longrightarrow> inv c \<Longrightarrow> covers a b \<Longrightarrow> overlaps b c \<Longrightarrow> overlaps a c"
  by (auto simp: covers_iff overlaps_iff)

end

section \<open>Union\<close>

lemma ebitmap_or_Inr:
  assumes "ebitmap_or m e1 e2 = Inr e"
  obtains ns where "or_loop m 0 (nodes e1) (nodes e2) = Inr ns" and "nodes e = ns"
    and "unat (highbit e) = max (unat (highbit e1)) (unat (highbit e2))"
  using assms by (auto simp: ebitmap_or_def rbind_eq_Inr_iff max_def word_less_nat_alt)

lemma ebitmap_or_spec:
  assumes res: "ebitmap_or m e1 e2 = Inr e" and ok: "ebitmap_ok e1" "ebitmap_ok e2"
  shows "ebitmap_ok e" and "ebits e = ebits e1 \<union> ebits e2"
    and "ebitmap_wf e1 \<Longrightarrow> ebitmap_wf e2 \<Longrightarrow> ebitmap_wf e"
proof -
  obtain ns where ns: "or_loop m 0 (nodes e1) (nodes e2) = Inr ns" "nodes e = ns"
    and hb: "unat (highbit e) = max (unat (highbit e1)) (unat (highbit e2))"
    using res by (rule ebitmap_or_Inr)
  from or_loop_spec [OF ns(1)] ok have spec: "nodes_ok ns" "nodes_bits ns = ebits e1 \<union> ebits e2"
    and starts: "startbit ` set ns = startbit ` set (nodes e1) \<union> startbit ` set (nodes e2)"
    by (auto simp: ebitmap_ok_def ebits_def)
  have "unat s + MAPSIZE \<le> unat (highbit e)" if "s \<in> startbit ` set ns" for s
    using that ok unfolding starts by (auto simp: ebitmap_ok_def hb)
  then show ok': "ebitmap_ok e"
    using spec(1) ns(2) by (auto simp: ebitmap_ok_def)
  show "ebits e = ebits e1 \<union> ebits e2"
    using spec(2) ns(2) by (simp add: ebits_def)
  assume wf: "ebitmap_wf e1" "ebitmap_wf e2"
  show "ebitmap_wf e"
  proof (cases "ns = []")
    case True
    with starts have "nodes e1 = []" "nodes e2 = []" by auto
    with wf have "highbit e1 = 0" "highbit e2 = 0" by (auto simp: ebitmap_wf_def)
    with hb have "highbit e = 0" by (simp add: unat_eq_zero)
    with True ns(2) ok' show ?thesis by (simp add: ebitmap_wf_iff)
  next
    case False
    have "\<exists>s \<in> startbit ` set ns. unat (highbit e) = unat s + MAPSIZE"
    proof (cases "highbit e1 < highbit e2")
      case True
      then have "nodes e2 \<noteq> []" using wf(2) by (auto simp: ebitmap_wf_def)
      with wf(2) obtain n where "n \<in> set (nodes e2)" "unat (highbit e2) = unat (startbit n) + MAPSIZE"
        by (auto simp: ebitmap_wf_iff)
      with True hb starts show ?thesis by (auto simp: max_def word_less_nat_alt)
    next
      case le: False
      then have "nodes e1 \<noteq> []"
      proof (rule contrapos_nn)
        assume "nodes e1 = []"
        with wf(1) have "highbit e1 = 0" by (simp add: ebitmap_wf_def)
        moreover have "nodes e2 \<noteq> []" using False starts \<open>nodes e1 = []\<close> by auto
        then have "0 < unat (highbit e2)"
          using ebitmap_wf_highbit [OF wf(2)] by (simp add: MAPSIZE_def)
        ultimately show "highbit e1 < highbit e2" by (simp add: word_less_nat_alt)
      qed
      with wf(1) obtain n where "n \<in> set (nodes e1)" "unat (highbit e1) = unat (startbit n) + MAPSIZE"
        by (auto simp: ebitmap_wf_iff)
      with le hb starts show ?thesis by (auto simp: max_def word_less_nat_alt)
    qed
    with False ns(2) ok' show ?thesis by (auto simp: ebitmap_wf_iff)
  qed
qed

lemma ebitmap_or_no_oom: "\<exists>e. ebitmap_or no_oom e1 e2 = Inr e"
  using or_loop_no_oom [of 0 "nodes e1" "nodes e2"] by (auto simp: ebitmap_or_def)

lemma ebitmap_union_Inr: "ebitmap_union m e1 e2 = Inr e \<longleftrightarrow> ebitmap_or m e1 e2 = Inr e"
  by (auto simp: ebitmap_union_def ebitmap_destroy_def split: sum.splits)

section \<open>Intersection, difference, complement\<close>

text \<open>
  The three operations build their result bit by bit.  The loop invariant is shared: the result
  so far is canonical and holds exactly the processed bits that satisfy the predicate.
\<close>

definition built :: "(u32 \<Rightarrow> bool) \<Rightarrow> u32 list \<Rightarrow> ebitmap \<Rightarrow> bool" where
  "built P bs e \<longleftrightarrow> ebitmap_wf e \<and> ebits e = unat ` {b \<in> set bs. P b}"

lemma built_step:
  assumes "built P bs e" and "b \<notin> set bs" and "ebitmap_set_bit m e b (P b) = Inr e'"
  shows "built P (bs @ [b]) e'"
proof -
  have wf: "ebitmap_wf e" and eb: "ebits e = unat ` {b \<in> set bs. P b}"
    using assms(1) by (auto simp: built_def)
  have "unat b \<notin> unat ` {b \<in> set bs. P b}"
    using assms(2) by (auto simp flip: word_unat_eq_iff)
  then show ?thesis
    using set_bit_wf [OF assms(3) wf] set_bit_ebits [OF assms(3)] wf eb
    by (auto simp: built_def ebitmap_wf_def)
qed

lemma built_loop:
  assumes "for_each (\<lambda>i dst. ebitmap_set_bit (f i) dst i (P i)) (upto32 n) ebitmap_init = Inr e"
  shows "ebitmap_wf e" and "ebits e = {b. b < unat n \<and> P (of_nat b)}"
proof -
  have "built P (upto32 n) e"
  proof (rule for_each_invar [OF assms])
    show "built P [] ebitmap_init" by (simp add: built_def)
  next
    fix ys y zs s s'
    assume "upto32 n = ys @ y # zs" "built P ys s" "ebitmap_set_bit (f y) s y (P y) = Inr s'"
    then show "built P (ys @ [y]) s'"
      using distinct_upto32 [of n] by (intro built_step) auto
  qed
  then show "ebitmap_wf e" "ebits e = {b. b < unat n \<and> P (of_nat b)}"
    by (auto simp: built_def set_upto32 word_less_nat_alt image_iff)
      (metis unat_of_nat32)
qed

lemma built_loop_total:
  assumes "unat n \<le> 2 ^ 32 - MAPSIZE"
  shows "\<exists>e. for_each (\<lambda>i dst. ebitmap_set_bit no_oom dst i (P i)) (upto32 n) ebitmap_init = Inr e"
proof -
  have "\<exists>e. for_each (\<lambda>i dst. ebitmap_set_bit no_oom dst i (P i)) (upto32 n) ebitmap_init = Inr e \<and> True"
  proof (rule for_each_total [where I = "\<lambda>_ _. True"])
    fix ys y zs s
    assume "upto32 n = ys @ y # zs"
    then have "unat y < 2 ^ 32 - MAPSIZE"
      using upto32_prefix(1) [of n ys y zs] assms by (simp add: word_less_nat_alt)
    then show "\<exists>s'. ebitmap_set_bit no_oom s y (P y) = Inr s' \<and> True"
      using ebitmap_set_bit_total [of y no_oom "P y" s] by simp
  qed simp
  then show ?thesis by simp
qed

text \<open>The loop of \<^verbatim>\<open>ebitmap_and\<close> skips the unset bits, which changes nothing.\<close>

lemma built_loop_skip:
  assumes "for_each (\<lambda>i dst. if P i then ebitmap_set_bit (f i) dst i True else Inr dst) (upto32 n)
             ebitmap_init = Inr e"
  shows "ebitmap_wf e" and "ebits e = {b. b < unat n \<and> P (of_nat b)}"
proof -
  have "built P (upto32 n) e"
  proof (rule for_each_invar [OF assms])
    show "built P [] ebitmap_init" by (simp add: built_def)
  next
    fix ys y zs s s'
    assume up: "upto32 n = ys @ y # zs" and I: "built P ys s"
      and step: "(if P y then ebitmap_set_bit (f y) s y True else Inr s) = Inr s'"
    have "y \<notin> set ys" using up distinct_upto32 [of n] by auto
    show "built P (ys @ [y]) s'"
    proof (cases "P y")
      case True
      with step show ?thesis
        using built_step [OF I \<open>y \<notin> set ys\<close>, of "f y" s'] by simp
    next
      case False
      with step I show ?thesis by (auto simp: built_def)
    qed
  qed
  then show "ebitmap_wf e" "ebits e = {b. b < unat n \<and> P (of_nat b)}"
    by (auto simp: built_def set_upto32 word_less_nat_alt image_iff)
      (metis unat_of_nat32)
qed

lemma built_loop_skip_total:
  assumes "unat n \<le> 2 ^ 32 - MAPSIZE \<or> (\<forall>b. P b \<longrightarrow> unat b < 2 ^ 32 - MAPSIZE)"
  shows "\<exists>e. for_each (\<lambda>i dst. if P i then ebitmap_set_bit no_oom dst i True else Inr dst)
               (upto32 n) ebitmap_init = Inr e"
proof -
  have "\<exists>e. for_each (\<lambda>i dst. if P i then ebitmap_set_bit no_oom dst i True else Inr dst)
               (upto32 n) ebitmap_init = Inr e \<and> True"
  proof (rule for_each_total [where I = "\<lambda>_ _. True"])
    fix ys y zs s
    assume "upto32 n = ys @ y # zs"
    then have "P y \<Longrightarrow> unat y < 2 ^ 32 - MAPSIZE"
      using upto32_prefix(1) [of n ys y zs] assms by (auto simp: word_less_nat_alt)
    then show "\<exists>s'. (if P y then ebitmap_set_bit no_oom s y True else Inr s) = Inr s' \<and> True"
      using ebitmap_set_bit_total [of y no_oom True s] by auto
  qed simp
  then show ?thesis by simp
qed

lemma ebits_of_nat:
  assumes "ebitmap_ok e" and "b < 2 ^ 32"
  shows "ebitmap_get_bit e (of_nat b) \<longleftrightarrow> b \<in> ebits e"
  using assms ebitmap_get_bit_iff [of e "of_nat b"] by (simp add: unat_of_nat)

lemma ebitmap_and_spec:
  assumes "ebitmap_and m e1 e2 = Inr e" and "ebitmap_ok e1" and "ebitmap_ok e2"
  shows "ebitmap_wf e" and "ebits e = ebits e1 \<inter> ebits e2"
proof -
  define n where "n = (if highbit e1 < highbit e2 then highbit e1 else highbit e2)"
  note spec = built_loop_skip [OF assms(1) [unfolded ebitmap_and_def, folded n_def]]
  show "ebitmap_wf e" by (rule spec(1))
  have "b < unat n" if "b \<in> ebits e1" "b \<in> ebits e2" for b
    using that ebits_less [OF assms(2)] ebits_less [OF assms(3)] by (auto simp: n_def)
  moreover have "ebitmap_get_bit e' (of_nat b) \<longleftrightarrow> b \<in> ebits e'"
    if "b < unat n" "ebitmap_ok e'" for b e'
    using that unat_less_2p32 [of n] by (intro ebits_of_nat) auto
  ultimately show "ebits e = ebits e1 \<inter> ebits e2"
    using assms(2,3) by (auto simp: spec(2))
qed

lemma ebitmap_xor_spec:
  assumes "ebitmap_xor m e1 e2 = Inr e" and "ebitmap_ok e1" and "ebitmap_ok e2"
  shows "ebitmap_wf e" and "ebits e = (ebits e1 - ebits e2) \<union> (ebits e2 - ebits e1)"
proof -
  define n where "n = (if highbit e1 \<ge> highbit e2 then highbit e1 else highbit e2)"
  note spec = built_loop [OF assms(1) [unfolded ebitmap_xor_def, folded n_def]]
  show "ebitmap_wf e" by (rule spec(1))
  have "b < unat n" if "b \<in> ebits e1 \<union> ebits e2" for b
    using that ebits_less [OF assms(2)] ebits_less [OF assms(3)]
    by (fastforce simp: n_def word_le_nat_alt)
  moreover have "ebitmap_get_bit e' (of_nat b) \<longleftrightarrow> b \<in> ebits e'"
    if "b < unat n" "ebitmap_ok e'" for b e'
    using that unat_less_2p32 [of n] by (intro ebits_of_nat) auto
  ultimately show "ebits e = (ebits e1 - ebits e2) \<union> (ebits e2 - ebits e1)"
    using assms(2,3) by (auto simp: spec(2))
qed

lemma ebitmap_not_spec:
  assumes "ebitmap_not m e1 maxbit = Inr e" and "ebitmap_ok e1"
  shows "ebitmap_wf e" and "ebits e = {..<unat maxbit} - ebits e1"
proof -
  note spec = built_loop [OF assms(1) [unfolded ebitmap_not_def]]
  show "ebitmap_wf e" by (rule spec(1))
  have "ebitmap_get_bit e1 (of_nat b) \<longleftrightarrow> b \<in> ebits e1" if "b < unat maxbit" for b
    using that unat_less_2p32 [of maxbit] assms(2) by (intro ebits_of_nat) auto
  then show "ebits e = {..<unat maxbit} - ebits e1"
    by (auto simp: spec(2))
qed

lemma ebitmap_andnot_spec:
  assumes "ebitmap_andnot m e1 e2 maxbit = Inr e" and "ebitmap_ok e1" and "ebitmap_ok e2"
  shows "ebitmap_wf e" and "ebits e = (ebits e1 - ebits e2) \<inter> {..<unat maxbit}"
proof -
  from assms(1) obtain e3 where e3: "ebitmap_not (at_site 0 m) e2 maxbit = Inr e3"
    and e: "ebitmap_and (at_site 1 m) e1 e3 = Inr e"
    by (auto simp: ebitmap_andnot_def rbind_eq_Inr_iff)
  note n = ebitmap_not_spec [OF e3 assms(3)]
  note a = ebitmap_and_spec [OF e assms(2) ebitmap_wf_ok [OF n(1)]]
  show "ebitmap_wf e" by (rule a(1))
  show "ebits e = (ebits e1 - ebits e2) \<inter> {..<unat maxbit}"
    by (auto simp: a(2) n(2))
qed

lemma ebitmap_highbit_bound: "ebitmap_wf e \<Longrightarrow> unat (highbit e) \<le> 2 ^ 32 - MAPSIZE"
proof (cases "nodes e = []")
  case False
  assume wf: "ebitmap_wf e"
  have "MAPSIZE dvd unat (startbit (last (nodes e)))"
    using wf False by (simp add: ebitmap_wf_def nodes_ok_def)
  moreover have "unat (highbit e) = unat (startbit (last (nodes e))) + MAPSIZE"
    using ebitmap_wf_highbit [OF wf False] .
  ultimately have "MAPSIZE dvd unat (highbit e)" by simp
  with unat_less_2p32 [of "highbit e"] aligned_gap [of "unat (highbit e)" "2 ^ 32"]
  show ?thesis by (simp add: MAPSIZE_def)
qed (simp add: ebitmap_wf_def)

lemma ebitmap_and_no_oom: "ebitmap_wf e1 \<Longrightarrow> \<exists>e. ebitmap_and no_oom e1 e2 = Inr e"
  using ebitmap_highbit_bound [of e1] unfolding ebitmap_and_def at_site_no_oom
  by (intro built_loop_skip_total) (auto simp: word_less_nat_alt)

lemma ebitmap_xor_no_oom:
  "ebitmap_wf e1 \<Longrightarrow> ebitmap_wf e2 \<Longrightarrow> \<exists>e. ebitmap_xor no_oom e1 e2 = Inr e"
  using ebitmap_highbit_bound [of e1] ebitmap_highbit_bound [of e2]
  unfolding ebitmap_xor_def at_site_no_oom by (intro built_loop_total) auto

lemma ebitmap_not_no_oom:
  "unat maxbit \<le> 2 ^ 32 - MAPSIZE \<Longrightarrow> \<exists>e. ebitmap_not no_oom e1 maxbit = Inr e"
  unfolding ebitmap_not_def at_site_no_oom by (intro built_loop_total)

section \<open>Comparisons\<close>

lemma cmp_loop_iff: "cmp_loop ns1 ns2 \<longleftrightarrow> ns1 = ns2"
proof (induction ns1 ns2 rule: cmp_loop.induct)
  case (1 n1 ns1 n2 ns2)
  then show ?case by (auto intro: ebitmap_node.equality)
qed auto

lemma ebitmap_cmp_iff: "ebitmap_cmp e1 e2 \<longleftrightarrow> e1 = e2"
  by (auto simp: ebitmap_cmp_def cmp_loop_iff)

lemma nodes_ok_ConsD:
  assumes "nodes_ok (n # ns)"
  shows "nodes_ok ns" and "MAPSIZE dvd unat (startbit n)" and "nmap n \<noteq> 0"
    and "\<And>b. b \<in> nodes_bits ns \<Longrightarrow> unat (startbit n) + MAPSIZE \<le> b"
proof -
  show ok: "nodes_ok ns" "MAPSIZE dvd unat (startbit n)" "nmap n \<noteq> 0"
    using assms by (auto simp: nodes_ok_def)
  fix b assume "b \<in> nodes_bits ns"
  then obtain k where k: "k \<in> set ns" "b \<in> nbits k" by (auto simp: nodes_bits_def)
  with assms have "startbit n < startbit k" "MAPSIZE dvd unat (startbit k)"
    by (auto simp: nodes_ok_def)
  with ok(2) have "unat (startbit n) + MAPSIZE \<le> unat (startbit k)"
    by (intro aligned_gap) (auto simp: word_less_nat_alt)
  with nbits_block [OF k(2)] show "unat (startbit n) + MAPSIZE \<le> b" by simp
qed

text \<open>The bits of the first node lie in its block, the others do not.\<close>

lemma nodes_bits_head:
  assumes "nodes_ok (n # ns)"
  shows "nbits n \<subseteq> {..<unat (startbit n) + MAPSIZE}"
    and "nodes_bits ns \<inter> {..<unat (startbit n) + MAPSIZE} = {}"
  using nbits_block [of _ n] nodes_ok_ConsD(4) [OF assms] by fastforce+

lemma block_split:
  assumes "A1 \<subseteq> K" and "B1 \<inter> K = {}" and "A2 \<subseteq> K" and "B2 \<inter> K = {}"
  shows "A1 \<union> B1 \<subseteq> A2 \<union> B2 \<longleftrightarrow> A1 \<subseteq> A2 \<and> B1 \<subseteq> B2"
    and "A1 \<union> B1 = A2 \<union> B2 \<longleftrightarrow> A1 = A2 \<and> B1 = B2"
    and "(A1 \<union> B1) \<inter> (A2 \<union> B2) = (A1 \<inter> A2) \<union> (B1 \<inter> B2)"
  using assms by blast+

lemma nodes_bits_split:
  assumes "nodes_ok (n1 # ns1)" and "nodes_ok (n2 # ns2)" and "startbit n1 = startbit n2"
  shows "nodes_bits (n1 # ns1) \<subseteq> nodes_bits (n2 # ns2) \<longleftrightarrow>
           nbits n1 \<subseteq> nbits n2 \<and> nodes_bits ns1 \<subseteq> nodes_bits ns2"
    and "nodes_bits (n1 # ns1) = nodes_bits (n2 # ns2) \<longleftrightarrow>
           nbits n1 = nbits n2 \<and> nodes_bits ns1 = nodes_bits ns2"
    and "nodes_bits (n1 # ns1) \<inter> nodes_bits (n2 # ns2) =
           (nbits n1 \<inter> nbits n2) \<union> (nodes_bits ns1 \<inter> nodes_bits ns2)"
  unfolding nodes_bits_simps
  using block_split [OF nodes_bits_head [OF assms(1)] nodes_bits_head [OF assms(2), folded assms(3)]]
  by blast+

lemma nmap_eqI:
  assumes "startbit n1 = startbit n2" and "nbits n1 = nbits n2"
  shows "nmap n1 = nmap n2"
proof (rule bit_eqI)
  fix k :: nat
  have "bit (nmap n1) k \<longleftrightarrow> unat (startbit n1) + k \<in> nbits n1" by (simp add: nbits_iff)
  also have "\<dots> \<longleftrightarrow> bit (nmap n2) k" using assms by (simp add: nbits_iff)
  finally show "bit (nmap n1) k = bit (nmap n2) k" .
qed

text \<open>The block of the first node is the one of the least bit.\<close>

lemma startbit_le_bit:
  assumes "nodes_ok (n # ns)" and "b \<in> nodes_bits (n # ns)"
  shows "unat (startbit n) \<le> b"
  using assms nodes_ok_ConsD(4) [OF assms(1), of b] nbits_block [of b n] by auto

lemma startbit_determined:
  assumes "nodes_ok (n1 # ns1)" and "nodes_ok (n2 # ns2)"
    and "nodes_bits (n1 # ns1) = nodes_bits (n2 # ns2)"
  shows "\<not> startbit n1 < startbit n2"
proof
  assume "startbit n1 < startbit n2"
  then have gap: "unat (startbit n1) + MAPSIZE \<le> unat (startbit n2)"
    using assms(1,2) by (intro aligned_gap) (auto simp: nodes_ok_ConsD word_less_nat_alt)
  obtain b where b: "b \<in> nbits n1"
    using nbits_nonempty [OF nodes_ok_ConsD(3) [OF assms(1)]] by auto
  then have "b \<in> nodes_bits (n2 # ns2)" using assms(3) by auto
  with startbit_le_bit [OF assms(2)] nbits_block [OF b] gap show False by fastforce
qed

lemma nodes_bits_empty: "nodes_ok ns \<Longrightarrow> nodes_bits ns = {} \<longleftrightarrow> ns = []"
  using nbits_nonempty nodes_ok_ConsD(3) by (cases ns) fastforce+

lemma nodes_ok_canonical:
  "nodes_ok ns1 \<Longrightarrow> nodes_ok ns2 \<Longrightarrow> nodes_bits ns1 = nodes_bits ns2 \<Longrightarrow> ns1 = ns2"
proof (induction ns1 ns2 rule: cmp_loop.induct)
  case (1 n1 ns1 n2 ns2)
  have start: "startbit n1 = startbit n2"
    using startbit_determined [OF 1(2,3,4)] startbit_determined [OF 1(3,2) 1(4) [symmetric]]
    by (simp add: not_less_iff_gr_or_eq)
  have "nbits n1 = nbits n2" and rest: "nodes_bits ns1 = nodes_bits ns2"
    using nodes_bits_split(2) [OF 1(2,3) start] 1(4) by blast+
  then have nmap: "nmap n1 = nmap n2" using start by (intro nmap_eqI)
  have "ns1 = ns2"
    using start nmap rest 1(2,3) by (intro 1(1)) (auto dest: nodes_ok_ConsD(1))
  with start nmap show ?case by (auto intro: ebitmap_node.equality)
qed (auto simp: nodes_bits_empty dest: sym)

lemma ebitmap_canonical:
  assumes "ebitmap_wf e1" and "ebitmap_wf e2" and "ebits e1 = ebits e2"
  shows "e1 = e2"
proof -
  have "nodes e1 = nodes e2"
    using assms by (intro nodes_ok_canonical) (auto simp: ebitmap_wf_def ebits_def)
  with assms show ?thesis by (auto simp: ebitmap_wf_def intro: ebitmap.equality)
qed

lemma nbits_subset:
  assumes "startbit n1 = startbit n2"
  shows "nbits n2 \<subseteq> nbits n1 \<longleftrightarrow> nmap n1 AND nmap n2 = nmap n2"
proof -
  have "nmap n1 AND nmap n2 = nmap n2 \<longleftrightarrow> (\<forall>k. bit (nmap n2) k \<longrightarrow> bit (nmap n1) k)"
    by (auto simp: bit_eq_iff bit_and_iff dest: bit_less_64)
  also have "\<dots> \<longleftrightarrow> nbits n2 \<subseteq> nbits n1"
    using assms by (auto simp: subset_iff nbits_iff) (metis le_add1 add_diff_cancel_left')
  finally show ?thesis by simp
qed

lemma nbits_disjoint:
  assumes "startbit n1 = startbit n2"
  shows "nbits n1 \<inter> nbits n2 \<noteq> {} \<longleftrightarrow> nmap n1 AND nmap n2 \<noteq> 0"
proof -
  have "nmap n1 AND nmap n2 \<noteq> 0 \<longleftrightarrow> (\<exists>k. bit (nmap n2) k \<and> bit (nmap n1) k)"
    by (auto simp: bit_eq_iff bit_and_iff dest: bit_less_64)
  also have "\<dots> \<longleftrightarrow> nbits n1 \<inter> nbits n2 \<noteq> {}"
    using assms by (auto simp: set_eq_iff nbits_iff) (metis le_add1 add_diff_cancel_left')
  finally show ?thesis by simp
qed

lemma nodes_bits_early:
  assumes "nodes_ok (n1 # ns1)" and "nodes_ok (n2 # ns2)" and "startbit n1 < startbit n2"
  shows "nbits n1 \<inter> nodes_bits (n2 # ns2) = {}"
proof -
  have "unat (startbit n1) + MAPSIZE \<le> unat (startbit n2)"
    using assms by (intro aligned_gap) (auto simp: nodes_ok_ConsD word_less_nat_alt)
  with startbit_le_bit [OF assms(2)] nbits_block [of _ n1] show ?thesis by fastforce
qed

text \<open>Containment is a preorder on all bitmaps, canonical or not.\<close>

lemma contains_loop_refl: "contains_loop ns ns"
  by (induction ns) auto

lemma contains_loop_trans: "contains_loop a b \<Longrightarrow> contains_loop b c \<Longrightarrow> contains_loop a c"
proof (induction a b arbitrary: c rule: contains_loop.induct)
  case (1 n1 a n2 b)
  show ?case
  proof (cases c)
    case (Cons n3 c')
    have "nmap n1 AND nmap n3 = nmap n3" if "nmap n1 AND nmap n2 = nmap n2" "nmap n2 AND nmap n3 = nmap n3"
      using that by (metis and.assoc)
    then show ?thesis using 1 Cons by (auto split: if_splits)
  qed simp
qed auto

lemma ebitmap_contains_preorder:
  "ebitmap_contains e e" "ebitmap_contains e1 e2 \<Longrightarrow> ebitmap_contains e2 e3 \<Longrightarrow> ebitmap_contains e1 e3"
  using contains_loop_trans by (auto simp: ebitmap_contains_def contains_loop_refl split: if_splits)

lemma contains_loop_iff:
  "nodes_ok ns1 \<Longrightarrow> nodes_ok ns2 \<Longrightarrow> contains_loop ns1 ns2 \<longleftrightarrow> nodes_bits ns2 \<subseteq> nodes_bits ns1"
proof (induction ns1 ns2 rule: contains_loop.induct)
  case (1 n1 ns1 n2 ns2)
  note ok = 1(3,4)
  consider "startbit n1 < startbit n2" | "startbit n2 < startbit n1" | "startbit n1 = startbit n2"
    by fastforce
  then show ?case
  proof cases
    case a: 1
    then show ?thesis
      using nodes_bits_early [OF ok a] 1(1) ok by (auto dest: nodes_ok_ConsD(1))
  next
    case a: 2
    then show ?thesis
      using nodes_bits_early [OF ok(2,1) a] nbits_nonempty [OF nodes_ok_ConsD(3) [OF ok(2)]]
      by auto
  next
    case a: 3
    show ?thesis
      unfolding nodes_bits_split(1) [OF ok(2,1) a [symmetric]] nbits_subset [OF a]
      using a 1(2) ok by (auto dest: nodes_ok_ConsD(1))
  qed
qed (auto simp: nodes_bits_empty)

lemma match_any_loop_iff:
  "nodes_ok ns1 \<Longrightarrow> nodes_ok ns2 \<Longrightarrow>
     match_any_loop ns1 ns2 \<longleftrightarrow> nodes_bits ns1 \<inter> nodes_bits ns2 \<noteq> {}"
proof (induction ns1 ns2 rule: match_any_loop.induct)
  case (1 n1 ns1 n2 ns2)
  note ok = 1(4,5)
  consider "startbit n1 < startbit n2" | "startbit n2 < startbit n1" | "startbit n1 = startbit n2"
    by fastforce
  then show ?case
  proof cases
    case a: 1
    then show ?thesis
      using nodes_bits_early [OF ok a] 1(1) ok by (auto dest: nodes_ok_ConsD(1))
  next
    case a: 2
    then show ?thesis
      using nodes_bits_early [OF ok(2,1) a] 1(2) ok by (auto dest: nodes_ok_ConsD(1))
  next
    case a: 3
    have "nodes_bits (n1 # ns1) \<inter> nodes_bits (n2 # ns2) \<noteq> {} \<longleftrightarrow>
        nmap n1 AND nmap n2 \<noteq> 0 \<or> nodes_bits ns1 \<inter> nodes_bits ns2 \<noteq> {}"
      unfolding nodes_bits_split(3) [OF ok a] nbits_disjoint [OF a, symmetric] by blast
    then show ?thesis
      using a 1(3) ok by (auto dest: nodes_ok_ConsD(1))
  qed
qed auto

lemma ebitmap_contains_iff [bitmap_simps]:
  assumes "ebitmap_wf e1" and "ebitmap_wf e2"
  shows "ebitmap_contains e1 e2 \<longleftrightarrow> ebits e2 \<subseteq> ebits e1"
proof -
  have loop: "contains_loop (nodes e1) (nodes e2) \<longleftrightarrow> ebits e2 \<subseteq> ebits e1"
    unfolding ebits_def using assms by (intro contains_loop_iff) (auto simp: ebitmap_wf_def)
  have "\<not> ebits e2 \<subseteq> ebits e1" if less: "highbit e1 < highbit e2"
  proof -
    have "nodes e2 \<noteq> []" using less assms(2) by (auto simp: ebitmap_wf_def)
    then have last: "last (nodes e2) \<in> set (nodes e2)"
      and hb: "unat (highbit e2) = unat (startbit (last (nodes e2))) + MAPSIZE"
      using ebitmap_wf_highbit [OF assms(2)] by auto
    then obtain b where b: "b \<in> nbits (last (nodes e2))"
      using assms(2) nbits_nonempty by (fastforce simp: ebitmap_wf_def nodes_ok_def)
    have "unat (highbit e1) \<le> unat (startbit (last (nodes e2)))"
    proof (cases "nodes e1 = []")
      case False
      have d: "MAPSIZE dvd unat (startbit (last (nodes e1)))" "MAPSIZE dvd unat (startbit (last (nodes e2)))"
        using assms False last by (auto simp: ebitmap_wf_def nodes_ok_def)
      with less hb ebitmap_wf_highbit [OF assms(1) False] show ?thesis
        using aligned_gap [OF d] by (simp add: word_less_nat_alt)
    qed (use assms(1) in \<open>simp add: ebitmap_wf_def\<close>)
    with nbits_block [OF b] ebits_less [OF ebitmap_wf_ok [OF assms(1)], of b]
    have "b \<notin> ebits e1" by auto
    moreover have "b \<in> ebits e2" using b last by (auto simp: ebits_def nodes_bits_def)
    ultimately show ?thesis by auto
  qed
  with loop show ?thesis by (auto simp: ebitmap_contains_def)
qed

lemma ebitmap_match_any_iff [bitmap_simps]:
  assumes "ebitmap_ok e1" and "ebitmap_ok e2"
  shows "ebitmap_match_any e1 e2 \<longleftrightarrow> ebits e1 \<inter> ebits e2 \<noteq> {}"
  unfolding ebitmap_match_any_def ebits_def
  using assms by (intro match_any_loop_iff) (auto simp: ebitmap_ok_def)

section \<open>Iteration\<close>

definition block_visits :: "nat \<Rightarrow> ebitmap_node \<Rightarrow> (u32 \<times> bool) list" where
  "block_visits k n = map (\<lambda>i. (startbit n + of_nat i, bit (nmap n) i)) [k..<MAPSIZE]"

lemma visit_step:
  assumes "k < MAPSIZE" and "unat (startbit n) + MAPSIZE \<le> unat hb"
    and "visit_loop hb ns' b' = Inr r"
    and "ebitmap_next (n # ns) (startbit n + of_nat k) = (ns', b')"
  shows "visit_loop hb (n # ns) (startbit n + of_nat k) =
           Inr ((startbit n + of_nat k, bit (nmap n) k) # r)"
proof -
  have k: "unat (of_nat k :: u32) = k" using assms(1) by (simp add: unat_of_nat MAPSIZE_def)
  have b: "unat (startbit n + of_nat k) = unat (startbit n) + k"
    using assms(1,2) unat_less_2p32 [of hb] by (subst unat_word_ariths(1)) (simp add: k)
  then have "startbit n + of_nat k < hb"
    using assms(1,2) by (simp add: word_less_nat_alt)
  moreover have "ebitmap_node_get_bit n (startbit n + of_nat k) = Inr (bit (nmap n) k)"
    using assms(1) by (simp add: ebitmap_node_get_bit_def k node_mask_def test_bit_and_power)
  ultimately show ?thesis
    using assms(3,4) by (simp add: visit_loop.simps)
qed

lemma visit_block:
  assumes "k \<le> MAPSIZE" and "k < MAPSIZE" and "unat (startbit n) + MAPSIZE \<le> unat hb"
    and last: "\<exists>ns' b'. ebitmap_next (n # ns) (startbit n + of_nat (MAPSIZE - 1)) = (ns', b')
                 \<and> visit_loop hb ns' b' = Inr r"
  shows "visit_loop hb (n # ns) (startbit n + of_nat k) = Inr (block_visits k n @ r)"
  using assms(1,2)
proof (induction k rule: inc_induct)
  case base
  then show ?case by simp
next
  case (step k)
  have split: "block_visits k n = (startbit n + of_nat k, bit (nmap n) k) # block_visits (Suc k) n"
    using step.hyps by (simp add: block_visits_def upt_conv_Cons)
  show ?case
  proof (cases "Suc k = MAPSIZE")
    case True
    with last obtain ns' b' where "ebitmap_next (n # ns) (startbit n + of_nat k) = (ns', b')"
      and "visit_loop hb ns' b' = Inr r" by (metis diff_Suc_1)
    with visit_step [OF step.hyps(2) assms(3)] split True show ?thesis
      by (simp add: block_visits_def)
  next
    case False
    have "unat (of_nat k :: u32) = k" using step.hyps by (simp add: unat_of_nat MAPSIZE_def)
    then have b: "unat (startbit n + of_nat k) = unat (startbit n) + k"
      using step.hyps assms(3) unat_less_2p32 [of hb] by (subst unat_word_ariths(1)) simp
    have "ebitmap_next (n # ns) (startbit n + of_nat k) = (n # ns, startbit n + of_nat k + 1)"
      using False step.hyps b by (cases ns) auto
    moreover have "visit_loop hb (n # ns) (startbit n + of_nat k + 1) = Inr (block_visits (Suc k) n @ r)"
      using step False by (simp add: add.assoc add.commute [of 1])
    ultimately show ?thesis
      using visit_step [OF step.hyps(2) assms(3)] split by simp
  qed
qed

lemma visit_nodes:
  assumes "ns \<noteq> []" and "\<forall>n \<in> set ns. unat (startbit n) + MAPSIZE \<le> unat hb"
    and "unat hb = unat (startbit (last ns)) + MAPSIZE"
  shows "visit_loop hb ns (startbit (hd ns)) = Inr (concat (map (block_visits 0) ns))"
  using assms
proof (induction ns)
  case Nil
  then show ?case by simp
next
  case (Cons n ns)
  have hb: "unat (startbit n) + MAPSIZE \<le> unat hb" using Cons.prems by simp
  have b: "unat (startbit n + of_nat (MAPSIZE - 1)) = unat (startbit n) + MAPSIZE - 1"
    using hb unat_less_2p32 [of hb]
    by (subst unat_word_ariths(1)) (simp add: MAPSIZE_def)
  have "\<exists>ns' b'. ebitmap_next (n # ns) (startbit n + of_nat (MAPSIZE - 1)) = (ns', b')
      \<and> visit_loop hb ns' b' = Inr (concat (map (block_visits 0) ns))"
  proof (cases ns)
    case Nil
    have "unat (startbit n + of_nat (MAPSIZE - 1) + 1) = unat hb"
      using Cons.prems(3) Nil unat_less_2p32 [of hb] hb
      by (subst unat_word_ariths(1), subst b) (simp add: MAPSIZE_def)
    then have "startbit n + of_nat (MAPSIZE - 1) + 1 = hb" by (simp only: word_unat_eq_iff)
    with Nil show ?thesis by (simp add: visit_loop.simps [of hb _ hb])
  next
    case (Cons n' ns')
    have "visit_loop hb ns (startbit n') = Inr (concat (map (block_visits 0) ns))"
      using Cons.IH Cons.prems Cons by simp
    then show ?thesis using b Cons by simp
  qed
  then show ?case
    using visit_block [of 0 n hb ns] hb by (simp add: MAPSIZE_def)
qed

lemma ebitmap_for_each_bit_wf:
  assumes "ebitmap_wf e"
  shows "ebitmap_for_each_bit e = Inr (concat (map (block_visits 0) (nodes e)))"
proof (cases "nodes e = []")
  case True
  with assms show ?thesis
    by (simp add: ebitmap_for_each_bit_def ebitmap_wf_def visit_loop.simps)
next
  case False
  have "visit_loop (highbit e) (nodes e) (startbit (hd (nodes e)))
      = Inr (concat (map (block_visits 0) (nodes e)))"
    using False ebitmap_wf_ok [OF assms] ebitmap_wf_highbit [OF assms False]
    by (intro visit_nodes) (auto simp: ebitmap_ok_def)
  then show ?thesis
    using False by (auto simp: ebitmap_for_each_bit_def ebitmap_startbit_def hd_def split: list.splits)
qed

definition block_bits :: "ebitmap_node \<Rightarrow> u32 list" where
  "block_bits n = map (\<lambda>i. startbit n + of_nat i) (filter (bit (nmap n)) [0..<MAPSIZE])"

lemma block_visits_bits: "map fst (filter snd (block_visits 0 n)) = block_bits n"
  by (simp add: block_visits_def block_bits_def filter_map o_def)

lemma ebitmap_positive_bits_wf:
  assumes "ebitmap_wf e"
  shows "ebitmap_positive_bits e = Inr (concat (map block_bits (nodes e)))"
  by (simp add: ebitmap_positive_bits_def ebitmap_for_each_bit_wf [OF assms] filter_concat
      map_concat block_visits_bits o_def)

lemma map_unat_block_bits:
  assumes "unat (startbit n) + MAPSIZE \<le> 2 ^ 32"
  shows "map unat (block_bits n) = map (\<lambda>i. unat (startbit n) + i) (filter (bit (nmap n)) [0..<MAPSIZE])"
proof -
  have "unat (startbit n + of_nat i) = unat (startbit n) + i" if "i < MAPSIZE" for i
    using assms that by (subst unat_word_ariths(1)) (simp add: MAPSIZE_def unat_of_nat)
  then show ?thesis by (simp add: block_bits_def)
qed

lemma set_block_bits:
  assumes "unat (startbit n) + MAPSIZE \<le> 2 ^ 32"
  shows "unat ` set (block_bits n) = nbits n"
proof -
  have "unat ` set (block_bits n) = set (map unat (block_bits n))" by simp
  also have "\<dots> = {unat (startbit n) + i |i. bit (nmap n) i}"
    unfolding map_unat_block_bits [OF assms] by (auto simp: MAPSIZE_def dest: bit_less_64)
  also have "\<dots> = nbits n"
    by (auto simp: nbits_iff) (metis le_add_diff_inverse)
  finally show ?thesis .
qed

lemma sorted_block_bits:
  assumes "unat (startbit n) + MAPSIZE \<le> 2 ^ 32"
  shows "sorted_wrt (<) (map unat (block_bits n))"
proof -
  have "sorted_wrt (<) (filter (bit (nmap n)) [0..<MAPSIZE])"
    by (intro sorted_wrt_filter sorted_wrt_upt)
  then show ?thesis
    unfolding map_unat_block_bits [OF assms] by (simp add: sorted_wrt_map)
qed

lemma sorted_nodes_bits:
  assumes "nodes_ok ns" and "\<forall>n \<in> set ns. unat (startbit n) + MAPSIZE \<le> 2 ^ 32"
  shows "sorted_wrt (<) (map unat (concat (map block_bits ns)))"
    and "unat ` set (concat (map block_bits ns)) = nodes_bits ns"
  using assms
proof (induction ns)
  case (Cons n ns)
  case 1
  have ok: "nodes_ok ns" and b: "unat (startbit n) + MAPSIZE \<le> 2 ^ 32"
    using 1 nodes_ok_ConsD(1) by auto
  have "x < y" if "x \<in> nbits n" "y \<in> nodes_bits ns" for x y
    using nbits_block [OF that(1)] nodes_ok_ConsD(4) [OF 1(1) that(2)] by simp
  moreover have "unat ` set (block_bits n) = nbits n"
    and "unat ` set (concat (map block_bits ns)) = nodes_bits ns"
    using set_block_bits [OF b] Cons.IH(2) ok 1 by auto
  ultimately have "\<forall>x \<in> set (block_bits n). \<forall>y \<in> set (concat (map block_bits ns)). unat x < unat y"
    by (metis image_eqI)
  then show ?case
    using sorted_block_bits [OF b] Cons.IH(1) ok 1 by (auto simp: sorted_wrt_append)
next
  case (Cons n ns)
  case 2
  then show ?case
    using set_block_bits [of n] Cons.IH(2) nodes_ok_ConsD(1) [of n ns] by (auto simp: image_Un)
qed simp_all

lemma ebitmap_positive_bits_spec:
  assumes "ebitmap_wf e"
  obtains bs where "ebitmap_positive_bits e = Inr bs" and "sorted_wrt (<) (map unat bs)"
    and "unat ` set bs = ebits e"
proof
  have "nodes_ok (nodes e)" "\<forall>n \<in> set (nodes e). unat (startbit n) + MAPSIZE \<le> 2 ^ 32"
    using assms by (auto simp: ebitmap_wf_def)
  note spec = sorted_nodes_bits [OF this]
  show "ebitmap_positive_bits e = Inr (concat (map block_bits (nodes e)))"
    by (rule ebitmap_positive_bits_wf [OF assms])
  show "sorted_wrt (<) (map unat (concat (map block_bits (nodes e))))" by (rule spec(1))
  show "unat ` set (concat (map block_bits (nodes e))) = ebits e"
    unfolding ebits_def by (rule spec(2))
qed

section \<open>Cardinality and distance\<close>

lemma fold_count:
  assumes "length (filter P xs) + unat c < 2 ^ 32"
  shows "unat (fold (\<lambda>i (c :: u32). if P i then c + 1 else c) xs c) = length (filter P xs) + unat c"
  using assms
proof (induction xs arbitrary: c)
  case (Cons x xs)
  have "unat (c + 1) = unat c + 1" if "P x"
    using Cons.prems that by (simp add: unat_word_ariths)
  then show ?case using Cons.prems Cons.IH [of c] Cons.IH [of "c + 1"] by (auto split: if_splits)
qed simp

lemma ebitmap_startbit_le:
  assumes "ebitmap_ok e" and "b \<in> ebits e"
  shows "unat (ebitmap_startbit e) \<le> b"
  using assms startbit_le_bit [of _ _ b]
  by (auto simp: ebitmap_startbit_def ebits_def ebitmap_ok_def split: list.splits)

lemma ebitmap_cardinality_ok [bitmap_simps]:
  assumes "ebitmap_ok e"
  shows "unat (ebitmap_cardinality e) = card (ebits e)"
proof -
  define xs where "xs = filter (\<lambda>i. ebitmap_startbit e \<le> i) (upto32 (highbit e))"
  have "set (filter (ebitmap_get_bit e) xs) = {i. unat i \<in> ebits e}"
    using ebits_less [OF assms] ebitmap_startbit_le [OF assms]
    by (auto simp: xs_def ebitmap_get_bit_iff [OF assms] set_upto32 word_less_nat_alt word_le_nat_alt)
  moreover have "distinct (filter (ebitmap_get_bit e) xs)"
    by (simp add: xs_def)
  ultimately have len: "length (filter (ebitmap_get_bit e) xs) = card {i :: u32. unat i \<in> ebits e}"
    by (metis distinct_card)
  have "unat ` {i :: u32. unat i \<in> ebits e} = ebits e"
  proof -
    have "b \<in> unat ` {i :: u32. unat i \<in> ebits e}" if "b \<in> ebits e" for b
      using that ebits_less [OF assms that] unat_of_nat32 [of b "highbit e"]
      by (intro image_eqI [of _ _ "of_nat b"]) simp_all
    then show ?thesis by auto
  qed
  then have card: "card {i :: u32. unat i \<in> ebits e} = card (ebits e)"
    by (metis (no_types, lifting) card_image inj_onI word_unat_eq_iff)
  have "ebits e \<subseteq> {..<unat (highbit e)}" using ebits_less [OF assms] by auto
  then have "card (ebits e) \<le> unat (highbit e)"
    using card_mono [of "{..<unat (highbit e)}" "ebits e"] by simp
  then have "card (ebits e) < 2 ^ 32" using unat_less_2p32 [of "highbit e"] by simp
  then show ?thesis
    using fold_count [of "ebitmap_get_bit e" xs 0] len card
    by (simp add: ebitmap_cardinality_def xs_def)
qed

lemma ebitmap_hamming_distance_wf:
  assumes wf: "ebitmap_wf e1" "ebitmap_wf e2"
    and small: "unat (highbit e1) < 2 ^ 31" "unat (highbit e2) < 2 ^ 31"
    and res: "ebitmap_hamming_distance m e1 e2 \<noteq> -1"
  shows "ebitmap_hamming_distance m e1 e2 = int (card ((ebits e1 - ebits e2) \<union> (ebits e2 - ebits e1)))"
proof (cases "e1 = e2")
  case True
  then show ?thesis by (simp add: ebitmap_hamming_distance_def ebitmap_cmp_iff)
next
  case False
  with res obtain e where e: "ebitmap_xor m e1 e2 = Inr e"
    by (auto simp: ebitmap_hamming_distance_def ebitmap_cmp_iff split: sum.splits)
  note ok = ebitmap_wf_ok [OF wf(1)] ebitmap_wf_ok [OF wf(2)]
  note x = ebitmap_xor_spec [OF e ok]
  have "ebits e \<subseteq> {..<2 ^ 31 - 1}"
    using ebits_less [OF ok(1)] ebits_less [OF ok(2)] small by (fastforce simp: x(2))
  then have "card (ebits e) < 2 ^ 31"
    using card_mono [of "{..<2 ^ 31 - 1 :: nat}" "ebits e"] by simp
  then have "sint (ebitmap_cardinality e) = int (card (ebits e))"
    using ebitmap_cardinality_ok [OF ebitmap_wf_ok [OF x(1)]] by (intro sint_small) simp
  with e False show ?thesis
    by (simp add: ebitmap_hamming_distance_def ebitmap_cmp_iff x(2))
qed

section \<open>Building a set\<close>

text \<open>\<open>holds e S\<close>: the canonical bitmap \<open>e\<close> is the set \<open>S\<close>; it is the only one.\<close>

definition holds :: "ebitmap \<Rightarrow> nat set \<Rightarrow> bool" where
  "holds e S \<longleftrightarrow> ebitmap_wf e \<and> ebits e = S"

lemma set_bit_holds:
  assumes "holds e S" "unat b < 2 ^ 32 - MAPSIZE"
  shows "\<exists>e'. ebitmap_set_bit no_oom e b True = Inr e' \<and> holds e' (insert (unat b) S)"
  using assms ebitmap_set_bit_total [of b no_oom True e] set_bit_wf set_bit_ebits
  by (fastforce simp: holds_def ebitmap_wf_def)

lemma clear_bit_holds:
  assumes "holds e S" "unat b < 2 ^ 32 - MAPSIZE"
  shows "\<exists>e'. ebitmap_set_bit m e b False = Inr e' \<and> holds e' (S - {unat b})"
  using assms ebitmap_set_bit_total [of b m False e] set_bit_wf set_bit_ebits
  by (fastforce simp: holds_def ebitmap_wf_def)

lemma holds_init [simp]: "holds ebitmap_init S \<longleftrightarrow> S = {}"
  by (auto simp: holds_def)

lemma holds_unique: "holds e S \<Longrightarrow> holds e' S \<Longrightarrow> e = e'"
  by (auto simp: holds_def intro: ebitmap_canonical)

lemma holds_get: "holds e S \<Longrightarrow> ebitmap_get_bit e b \<longleftrightarrow> unat b \<in> S"
  using ebitmap_get_bit_iff [OF ebitmap_wf_ok] by (auto simp: holds_def)

lemma holds_less: "holds e S \<Longrightarrow> b \<in> S \<Longrightarrow> b < 2 ^ 32 - MAPSIZE"
  using ebits_less [OF ebitmap_wf_ok] ebitmap_highbit_bound by (fastforce simp: holds_def)

lemma union_holds:
  assumes "holds e1 S1" "holds e2 S2"
  shows "\<exists>e. ebitmap_union no_oom e1 e2 = Inr e \<and> holds e (S1 \<union> S2)"
proof -
  obtain e where e: "ebitmap_or no_oom e1 e2 = Inr e" using ebitmap_or_no_oom by blast
  then have "ebitmap_union no_oom e1 e2 = Inr e" by (simp add: ebitmap_union_Inr)
  moreover have "holds e (S1 \<union> S2)"
    using ebitmap_or_spec [OF e] assms by (auto simp: holds_def ebitmap_wf_ok)
  ultimately show ?thesis by blast
qed

lemma bits_holds:
  assumes "holds e S"
  shows "\<exists>bs. ebitmap_positive_bits e = Inr bs \<and> sorted_wrt (<) (map unat bs) \<and> unat ` set bs = S"
proof -
  have wf: "ebitmap_wf e" "ebits e = S" using assms by (auto simp: holds_def)
  obtain bs where "ebitmap_positive_bits e = Inr bs" "sorted_wrt (<) (map unat bs)" "unat ` set bs = ebits e"
    by (rule ebitmap_positive_bits_spec [OF wf(1)])
  then show ?thesis using wf(2) by blast
qed

text \<open>A loop whose steps add to the set.\<close>

lemma for_each_holds:
  assumes "holds e S"
    and "\<And>b e T. b \<in> set bs \<Longrightarrow> holds e T \<Longrightarrow> \<exists>e'. f b e = Inr e' \<and> holds e' (T \<union> g b)"
  shows "\<exists>e'. for_each f bs e = Inr e' \<and> holds e' (S \<union> \<Union> (g ` set bs))"
proof (rule for_each_total)
  show "holds e (S \<union> \<Union> (g ` set []))" using assms(1) by simp
next
  fix ys y zs e
  assume "bs = ys @ y # zs" and I: "holds e (S \<union> \<Union> (g ` set ys))"
  then have "\<exists>e'. f y e = Inr e' \<and> holds e' (S \<union> \<Union> (g ` set ys) \<union> g y)" by (intro assms(2)) auto
  then show "\<exists>e'. f y e = Inr e' \<and> holds e' (S \<union> \<Union> (g ` set (ys @ [y])))"
    by (simp add: Un_ac)
qed

section \<open>Properties\<close>

interpretation eb: set_container ebitmap_wf ebits ebitmap_contains ebitmap_match_any
proof unfold_locales
  fix a b :: ebitmap
  assume wf: "ebitmap_wf a" "ebitmap_wf b"
  show "ebits a = ebits b \<Longrightarrow> a = b" using wf by (rule ebitmap_canonical)
  show "ebitmap_contains a b \<longleftrightarrow> ebits b \<subseteq> ebits a" using wf by (rule ebitmap_contains_iff)
  show "ebitmap_match_any a b \<longleftrightarrow> ebits a \<inter> ebits b \<noteq> {}"
    using wf by (intro ebitmap_match_any_iff ebitmap_wf_ok)
qed

text \<open>
  After \<^verbatim>\<open>ebitmap_set_bit\<close> succeeds, \<^verbatim>\<open>ebitmap_get_bit\<close> answers the new value at the bit set
  and the old value at every other bit, and the bitmap is canonical again.
\<close>

theorem ebitmap_set_get:
  assumes "ebitmap_wf e" and "ebitmap_set_bit m e b v = Inr e'"
  shows "ebitmap_wf e' \<and> (\<forall>c. ebitmap_get_bit e' c = (if c = b then v else ebitmap_get_bit e c))"
proof -
  note wf' = set_bit_wf [OF assms(2,1)]
  have "ebits e' = (if v then insert (unat b) (ebits e) else ebits e - {unat b})"
    using set_bit_ebits [OF assms(2)] assms(1) by (simp add: ebitmap_wf_def)
  then show ?thesis
    using wf' ebitmap_get_bit_iff [OF ebitmap_wf_ok [OF assms(1)]] ebitmap_get_bit_iff [OF ebitmap_wf_ok [OF wf']]
    by (auto simp flip: word_unat_eq_iff)
qed

lemmas ebitmap_eval = ebitmap_set_bit_def ebitmap_get_bit_def bit_startbit_def node_mask_def
  node_reaches_def MAPSIZE_def ebitmap_init_def ebitmap_contains_def

definition sample_bits :: ebitmap where
  "sample_bits = \<lparr>nodes = [\<lparr>startbit = 0, nmap = 6\<rparr>, \<lparr>startbit = 128, nmap = 1\<rparr>], highbit = 192\<rparr>"

lemma sample_bits_wf: "ebitmap_wf sample_bits"
  by (simp add: sample_bits_def ebitmap_wf_def nodes_ok_def MAPSIZE_def)

text \<open>Sets of small numbers.\<close>

definition low_bits :: "u64 \<Rightarrow> ebitmap" where
  "low_bits w = \<lparr>nodes = [\<lparr>startbit = 0, nmap = w\<rparr>], highbit = 64\<rparr>"

lemma low_bits_bits:
  "ebits (low_bits 1) = {0}" "ebits (low_bits 2) = {1}" "ebits (low_bits 3) = {0, 1}" "ebits (low_bits 4) = {2}"
  "ebits (low_bits 7) = {0, 1, 2}"
proof -
  have eb: "ebits (low_bits w) = {k. bit w k}" for w
    by (simp add: low_bits_def ebits_def nodes_bits_def nbits_def)
  have m: "(3 :: u64) = mask 2" "(4 :: u64) = 2 ^ 2" "(7 :: u64) = mask 3" by (simp_all add: mask_eq_exp_minus_1)
  show "ebits (low_bits 1) = {0}" "ebits (low_bits 2) = {1}" "ebits (low_bits 3) = {0, 1}" "ebits (low_bits 4) = {2}"
    "ebits (low_bits 7) = {0, 1, 2}"
    unfolding eb m bit_mask_iff bit_exp_iff bit_1_iff bit_2_iff by auto
qed

lemma low_bits_wf: "w \<noteq> 0 \<Longrightarrow> ebitmap_wf (low_bits w)"
  by (simp add: low_bits_def ebitmap_wf_def nodes_ok_def MAPSIZE_def)

theorem ebitmap_set_get_witness:
  "ebitmap_get_bit \<lparr>nodes = [\<lparr>startbit = 0, nmap = 6\<rparr>], highbit = 64\<rparr> 128 = False \<and>
   ebitmap_get_bit \<lparr>nodes = [\<lparr>startbit = 0, nmap = 6\<rparr>], highbit = 64\<rparr> 2 = True"
proof -
  have "ebitmap_set_bit no_oom sample_bits 128 False
      = Inr \<lparr>nodes = [\<lparr>startbit = 0, nmap = 6\<rparr>], highbit = 64\<rparr>"
    by (simp add: sample_bits_def ebitmap_eval)
  note w = ebitmap_set_get [OF sample_bits_wf this]
  have "ebitmap_get_bit sample_bits 2" by (simp add: sample_bits_def ebitmap_eval)
  with w [THEN conjunct2, rule_format, of 128] w [THEN conjunct2, rule_format, of 2]
  show ?thesis by (simp del: One_nat_def)
qed

text \<open>
  C17: The operations on whole bitmaps compute the set operations.  Whenever they return, for any
  pattern of allocation failures, their results are canonical bitmaps of the union, the
  intersection, the symmetric difference, the complement up to \<^verbatim>\<open>maxbit\<close> and the difference up
  to \<^verbatim>\<open>maxbit\<close> of the sets of their arguments, and \<^verbatim>\<open>ebitmap_cpy\<close> returns a copy; with memory
  available they do return.
\<close>

theorem ebitmap_set_algebra:
  assumes "ebitmap_wf a" and "ebitmap_wf b"
  shows "(\<forall>e. ebitmap_or m a b = Inr e \<longrightarrow> ebitmap_wf e \<and> ebits e = ebits a \<union> ebits b) \<and>
    (\<forall>e. ebitmap_and m a b = Inr e \<longrightarrow> ebitmap_wf e \<and> ebits e = ebits a \<inter> ebits b) \<and>
    (\<forall>e. ebitmap_xor m a b = Inr e \<longrightarrow>
       ebitmap_wf e \<and> ebits e = (ebits a - ebits b) \<union> (ebits b - ebits a)) \<and>
    (\<forall>e. ebitmap_not m a maxbit = Inr e \<longrightarrow> ebitmap_wf e \<and> ebits e = {..<unat maxbit} - ebits a) \<and>
    (\<forall>e. ebitmap_andnot m a b maxbit = Inr e \<longrightarrow>
       ebitmap_wf e \<and> ebits e = (ebits a - ebits b) \<inter> {..<unat maxbit}) \<and>
    (\<forall>e. ebitmap_cpy m a = Inr e \<longrightarrow> e = a) \<and>
    (\<exists>e. ebitmap_or no_oom a b = Inr e) \<and> (\<exists>e. ebitmap_and no_oom a b = Inr e) \<and>
    (\<exists>e. ebitmap_xor no_oom a b = Inr e) \<and> (\<exists>e. ebitmap_cpy no_oom a = Inr e) \<and>
    (unat maxbit \<le> 2 ^ 32 - 64 \<longrightarrow>
       (\<exists>e. ebitmap_not no_oom a maxbit = Inr e) \<and> (\<exists>e. ebitmap_andnot no_oom a b maxbit = Inr e))"
proof -
  note ok = assms [THEN ebitmap_wf_ok]
  have "\<exists>e. ebitmap_andnot no_oom a b maxbit = Inr e" if small: "unat maxbit \<le> 2 ^ 32 - 64"
  proof -
    obtain c where "ebitmap_not no_oom b maxbit = Inr c"
      using ebitmap_not_no_oom [of maxbit b] small by (auto simp: MAPSIZE_def)
    with ebitmap_and_no_oom [OF assms(1), of c] show ?thesis
      by (auto simp: ebitmap_andnot_def)
  qed
  moreover have "\<exists>e. ebitmap_not no_oom a maxbit = Inr e" if "unat maxbit \<le> 2 ^ 32 - 64"
    using ebitmap_not_no_oom [of maxbit a] that by (auto simp: MAPSIZE_def)
  moreover have "ebitmap_wf e \<and> ebits e = ebits a \<union> ebits b" if "ebitmap_or m a b = Inr e" for e
    using ebitmap_or_spec [OF that ok] assms by simp
  ultimately show ?thesis
    by (simp add: ebitmap_and_spec [OF _ ok] ebitmap_xor_spec [OF _ ok] ebitmap_not_spec [OF _ ok(1)]
        ebitmap_andnot_spec [OF _ ok] ebitmap_cpy_Inr ebitmap_or_no_oom ebitmap_cpy_no_oom
        ebitmap_and_no_oom [OF assms(1)] ebitmap_xor_no_oom [OF assms])
qed

theorem ebitmap_set_algebra_witness:
  "\<exists>e. ebitmap_or no_oom sample_bits ebitmap_init = Inr e \<and> ebits e = ebits sample_bits \<union> {}"
  using ebitmap_set_algebra [OF sample_bits_wf ebitmap_init_wf, of no_oom 200] by auto

text \<open>
  C18: On canonical bitmaps \<^verbatim>\<open>ebitmap_cmp\<close> decides equality of the sets, \<^verbatim>\<open>ebitmap_contains\<close>
  inclusion, \<^verbatim>\<open>ebitmap_match_any\<close> overlap, and \<^verbatim>\<open>ebitmap_cardinality\<close> is the number of elements.
\<close>

theorem ebitmap_comparisons:
  assumes "ebitmap_wf a" and "ebitmap_wf b"
  shows "(ebitmap_cmp a b \<longleftrightarrow> ebits a = ebits b) \<and> (ebitmap_contains a b \<longleftrightarrow> ebits b \<subseteq> ebits a) \<and>
    (ebitmap_match_any a b \<longleftrightarrow> ebits a \<inter> ebits b \<noteq> {}) \<and>
    unat (ebitmap_cardinality a) = card (ebits a)"
  using assms eb.canonical [of a b] eb.covers_iff [of a b] eb.overlaps_iff [of a b]
    ebitmap_cardinality_ok [OF ebitmap_wf_ok, of a]
  by (auto simp: ebitmap_cmp_iff)

theorem ebitmap_comparisons_witness: "\<not> ebits sample_bits \<subseteq> ebits ebitmap_init"
proof -
  have "\<not> ebitmap_contains ebitmap_init sample_bits" by (simp add: sample_bits_def ebitmap_eval)
  with ebitmap_comparisons [OF ebitmap_init_wf sample_bits_wf] show ?thesis by simp
qed

text \<open>
  The loop \<^verbatim>\<open>ebitmap_for_each_bit\<close> on a canonical bitmap runs without undefined behaviour, and
  the bits it finds set are the elements of the set, each once and in ascending order.
\<close>

theorem ebitmap_iteration:
  assumes "ebitmap_wf e"
  shows "\<exists>bs. ebitmap_positive_bits e = Inr bs \<and> sorted_wrt (<) (map unat bs) \<and> unat ` set bs = ebits e"
  using ebitmap_positive_bits_spec [OF assms] by metis

theorem ebitmap_iteration_witness:
  "\<exists>bs. ebitmap_positive_bits sample_bits = Inr bs \<and> unat ` set bs = ebits sample_bits"
  using ebitmap_iteration [OF sample_bits_wf] by auto

end
