(* ===== verification/Policyfile.thy ===== *)
theory Policyfile
  imports Ebitmap_Algebra
begin

text \<open>
  The binary policy format: the buffer and stream primitives \<^verbatim>\<open>next_entry\<close> and \<^verbatim>\<open>put_entry\<close>
  (\<^verbatim>\<open>libsepol/src/services.c\<close>), the byte order conversions (\<^verbatim>\<open>private.h\<close>), and the reader and
  writer of bitmaps (\<^verbatim>\<open>ebitmap.c\<close>, \<^verbatim>\<open>write.c\<close>).  The reader accepts arbitrary bytes; whatever it
  returns satisfies \<open>ebitmap_ok\<close>.  Reading back what was written gives the bitmap written.
\<close>

section \<open>Policy files\<close>

datatype pf_type = PF_USE_MEMORY | PF_USE_STDIO | PF_LEN

text \<open>
  A memory file is a buffer with a pointer into it: \<open>passed\<close> holds the bytes before the pointer
  and \<open>data\<close> the ones from the pointer on; \<open>len\<close> is what the code believes to be their number.
  A stream is what is left to read, what has been written, and how many more bytes the stream
  accepts, which the environment decides.
\<close>

record policy_file =
  ftype :: pf_type
  passed :: "u8 list"
  data :: "u8 list"
  len :: nat
  fp_in :: "u8 list"
  fp_out :: "u8 list"
  fp_room :: nat

definition next_entry :: "policy_file \<Rightarrow> nat \<Rightarrow> (policy_file \<times> u8 list) result" where
  "next_entry fp bytes =
     (case ftype fp of
        PF_USE_STDIO \<Rightarrow>
          if bytes = 0 \<or> length (fp_in fp) < bytes then Inl STATUS_ERR
          else Inr (fp\<lparr>fp_in := drop bytes (fp_in fp)\<rparr>, take bytes (fp_in fp))
      | PF_USE_MEMORY \<Rightarrow>
          if bytes > len fp then Inl STATUS_ERR
          else if bytes > length (data fp) then Inl UB
          else Inr (fp\<lparr>passed := passed fp @ take bytes (data fp), data := drop bytes (data fp),
                       len := len fp - bytes\<rparr>, take bytes (data fp))
      | PF_LEN \<Rightarrow> Inl STATUS_ERR)"

text \<open>
  \<^verbatim>\<open>put_entry\<close> writes \<open>n\<close> items of \<open>sz\<close> bytes and returns the number of items written, which
  its callers compare with \<open>n\<close>.  \<^verbatim>\<open>size_t\<close> has 64 bits.
\<close>

definition put_entry :: "u8 list \<Rightarrow> nat \<Rightarrow> nat \<Rightarrow> policy_file \<Rightarrow> (policy_file \<times> nat) result" where
  "put_entry ptr sz n fp =
     (let bytes = (sz * n) mod 2 ^ 64 in
      case ftype fp of
        PF_USE_STDIO \<Rightarrow>
          let k = (if sz = 0 then 0 else min n (fp_room fp div sz)) in
          Inr (fp\<lparr>fp_out := fp_out fp @ take (sz * k) ptr, fp_room := fp_room fp - sz * k\<rparr>, k)
      | PF_USE_MEMORY \<Rightarrow>
          if bytes > len fp then Inr (fp, 0)
          else if bytes > length (data fp) \<or> bytes > length ptr then Inl UB
          else Inr (fp\<lparr>passed := passed fp @ take bytes ptr, data := drop bytes (data fp),
                       len := len fp - bytes\<rparr>, n)
      | PF_LEN \<Rightarrow> Inr (fp\<lparr>len := (len fp + bytes) mod 2 ^ 64\<rparr>, n))"

text \<open>\<^verbatim>\<open>cpu_to_le32\<close> and \<^verbatim>\<open>le32_to_cpu\<close> with the layout of integers in memory: little endian bytes.\<close>

definition cpu_to_le :: "nat \<Rightarrow> 'a::len word \<Rightarrow> u8 list" where
  "cpu_to_le n w = map (\<lambda>k. ucast (drop_bit (8 * k) w)) [0..<n]"

fun le_to_cpu :: "u8 list \<Rightarrow> 'a::len word" where
  "le_to_cpu [] = 0"
| "le_to_cpu (b # bs) = ucast b OR push_bit 8 (le_to_cpu bs)"

abbreviation cpu_to_le32 :: "u32 \<Rightarrow> u8 list" where
  "cpu_to_le32 \<equiv> cpu_to_le 4"

abbreviation cpu_to_le64 :: "u64 \<Rightarrow> u8 list" where
  "cpu_to_le64 \<equiv> cpu_to_le 8"

text \<open>The frequent call \<^verbatim>\<open>put_entry\<close> followed by the comparison of the number of items written.\<close>

definition put_items :: "u8 list \<Rightarrow> nat \<Rightarrow> nat \<Rightarrow> policy_file \<Rightarrow> policy_file result" where
  "put_items ptr sz n fp =
     rbind (put_entry ptr sz n fp) (\<lambda>(fp', items). if items \<noteq> n then Inl STATUS_ERR else Inr fp')"

section \<open>Bitmaps\<close>

text \<open>One iteration of the loop of \<^verbatim>\<open>ebitmap_read\<close>: a node, given the previous one.\<close>

definition read_node ::
  "alloc \<Rightarrow> u32 \<Rightarrow> ebitmap_node option \<Rightarrow> policy_file \<Rightarrow> (policy_file \<times> ebitmap_node) result"
where
  "read_node m hb l fp =
     rbind (next_entry fp 4) (\<lambda>(fp, buf).
       if \<not> malloc m then Inl ENOMEM
       else let sb = le_to_cpu buf in
         if sb AND (of_nat MAPSIZE - 1) \<noteq> 0 then Inl EINVAL
         else if unat sb > unat hb - MAPSIZE then Inl EINVAL
         else rbind (next_entry fp 8) (\<lambda>(fp, buf).
           let mp = le_to_cpu buf in
           if mp = 0 then Inl EINVAL
           else case l of
             Some p \<Rightarrow> if sb \<le> startbit p then Inl EINVAL
                       else Inr (fp, \<lparr>startbit = sb, nmap = mp\<rparr>)
           | None \<Rightarrow> Inr (fp, \<lparr>startbit = sb, nmap = mp\<rparr>)))"

fun read_nodes ::
  "alloc \<Rightarrow> u32 \<Rightarrow> ebitmap_node option \<Rightarrow> nat \<Rightarrow> nat \<Rightarrow> policy_file
     \<Rightarrow> (policy_file \<times> ebitmap_node list) result"
where
  "read_nodes m hb l i 0 fp = Inr (fp, [])"
| "read_nodes m hb l i (Suc count) fp =
     rbind (read_node (at_site i m) hb l fp) (\<lambda>(fp, n).
       rbind (read_nodes m hb (Some n) (Suc i) count fp) (\<lambda>(fp, ns). Inr (fp, n # ns)))"

definition ebitmap_read :: "alloc \<Rightarrow> policy_file \<Rightarrow> (policy_file \<times> ebitmap) result" where
  "ebitmap_read m fp =
     rbind (next_entry fp 12) (\<lambda>(fp, buf).
       let mapsize = le_to_cpu (take 4 buf) :: u32;
           hb = le_to_cpu (take 4 (drop 4 buf));
           count = le_to_cpu (take 4 (drop 8 buf)) :: u32 in
       if unat mapsize \<noteq> MAPSIZE then Inl EINVAL
       else if hb = 0 then Inr (fp, \<lparr>nodes = [], highbit = hb\<rparr>)
       else if hb AND (of_nat MAPSIZE - 1) \<noteq> 0 then Inl EINVAL
       else rbind (read_nodes m hb None 0 (unat count) fp)
              (\<lambda>(fp, ns). Inr (fp, \<lparr>nodes = ns, highbit = hb\<rparr>)))"

definition write_node :: "ebitmap_node \<Rightarrow> policy_file \<Rightarrow> policy_file result" where
  "write_node n fp =
     rbind (put_items (cpu_to_le32 (startbit n)) 4 1 fp) (put_items (cpu_to_le64 (nmap n)) 8 1)"

definition ebitmap_write :: "ebitmap \<Rightarrow> policy_file \<Rightarrow> policy_file result" where
  "ebitmap_write e fp =
     rbind (put_items (cpu_to_le32 (of_nat MAPSIZE) @ cpu_to_le32 (highbit e)
                       @ cpu_to_le32 (of_nat (length (nodes e)))) 4 3 fp)
       (for_each write_node (nodes e))"

section \<open>The interface of encodings\<close>

text \<open>
  Memory files in a consistent state.  \<open>encodes\<close> is the contract between a writer and a reader of
  one kind of data: on memory files the writer appends the encoding, the reader consumes it.
\<close>

definition mem_file :: "u8 list \<Rightarrow> u8 list \<Rightarrow> policy_file" where
  "mem_file p d = \<lparr>ftype = PF_USE_MEMORY, passed = p, data = d, len = length d,
                   fp_in = [], fp_out = [], fp_room = 0\<rparr>"

definition file_ok :: "policy_file \<Rightarrow> bool" where
  "file_ok fp \<longleftrightarrow> ftype fp = PF_USE_MEMORY \<longrightarrow> len fp = length (data fp)"

definition enc_node :: "ebitmap_node \<Rightarrow> u8 list" where
  "enc_node n = cpu_to_le32 (startbit n) @ cpu_to_le64 (nmap n)"

definition ebitmap_enc :: "ebitmap \<Rightarrow> u8 list" where
  "ebitmap_enc e = cpu_to_le32 (of_nat MAPSIZE) @ cpu_to_le32 (highbit e)
     @ cpu_to_le32 (of_nat (length (nodes e))) @ concat (map enc_node (nodes e))"

locale file_codec =
  fixes valid :: "'a \<Rightarrow> bool"
    and enc :: "'a \<Rightarrow> u8 list"
    and wr :: "'a \<Rightarrow> policy_file \<Rightarrow> policy_file result"
    and rd :: "policy_file \<Rightarrow> (policy_file \<times> 'a) result"
  assumes read_enc: "valid x \<Longrightarrow> rd (mem_file p (enc x @ d)) = Inr (mem_file (p @ enc x) d, x)"
    and write_enc: "valid x \<Longrightarrow> length (enc x) \<le> length d \<Longrightarrow>
          wr x (mem_file p d) = Inr (mem_file (p @ enc x) (drop (length (enc x)) d))"
    and write_full: "valid x \<Longrightarrow> length d < length (enc x) \<Longrightarrow> wr x (mem_file p d) = Inl STATUS_ERR"
begin

text \<open>Writing into a buffer and reading from where the writing began gives the data written.\<close>

lemma write_read:
  assumes "valid x" and "wr x (mem_file p d) = Inr fp"
  shows "rd (mem_file p (drop (length p) (passed fp @ data fp))) = Inr (fp, x)"
proof -
  have "length (enc x) \<le> length d" using assms write_full [of x d p] by (metis linorder_not_less sum.distinct(1))
  then have "fp = mem_file (p @ enc x) (drop (length (enc x)) d)"
    using assms write_enc by simp
  then show ?thesis
    using read_enc [OF assms(1), of p "drop (length (enc x)) d"] by (simp add: mem_file_def)
qed

lemma write_succeeds_iff:
  "valid x \<Longrightarrow> (\<exists>fp. wr x (mem_file p d) = Inr fp) \<longleftrightarrow> length (enc x) \<le> length d"
  using write_enc [of x d p] write_full [of x d p] by (cases "length (enc x) \<le> length d") auto

end

section \<open>Lemmas\<close>

subsection \<open>Bytes\<close>

lemma length_cpu_to_le [simp]: "length (cpu_to_le n w) = n"
  by (simp add: cpu_to_le_def)

lemma cpu_to_le_Suc: "cpu_to_le (Suc n) w = ucast w # cpu_to_le n (drop_bit 8 w)"
  unfolding cpu_to_le_def map_upt_Suc by (simp add: ac_simps)

lemma le_to_cpu_take: "le_to_cpu (cpu_to_le n w) = take_bit (8 * n) (w :: 'a::len word)"
proof (induction n arbitrary: w)
  case 0
  then show ?case by (simp add: cpu_to_le_def)
next
  case (Suc n)
  show ?case
  proof (rule bit_word_eqI)
    fix k assume "k < LENGTH('a)"
    then show "bit (le_to_cpu (cpu_to_le (Suc n) w) :: 'a word) k = bit (take_bit (8 * Suc n) w) k"
      by (auto simp: cpu_to_le_Suc Suc.IH bit_or_iff bit_push_bit_iff bit_take_bit_iff
          bit_drop_bit_eq bit_ucast_iff)
  qed
qed

lemma le32_roundtrip [simp]: "le_to_cpu (cpu_to_le32 w) = w"
  using take_bit_length_eq [of w] by (simp add: le_to_cpu_take)

lemma le64_roundtrip [simp]: "le_to_cpu (cpu_to_le64 w) = w"
  using take_bit_length_eq [of w] by (simp add: le_to_cpu_take)

lemma aligned_iff: "w AND (of_nat MAPSIZE - 1) = 0 \<longleftrightarrow> MAPSIZE dvd unat w" for w :: u32
proof -
  have "w AND (of_nat MAPSIZE - 1) = take_bit 6 w"
    by (simp add: take_bit_eq_mask mask_eq_exp_minus_1 MAPSIZE_def)
  moreover have "unat (take_bit 6 w) = unat w mod MAPSIZE"
    unfolding unsigned_take_bit_eq by (simp add: take_bit_eq_mod MAPSIZE_def)
  ultimately show ?thesis by (simp add: dvd_eq_mod_eq_0 flip: unat_eq_0)
qed

lemma aligned_iff64: "w AND 63 = 0 \<longleftrightarrow> 64 dvd unat w" for w :: u32
  using aligned_iff [of w] by (simp add: MAPSIZE_def)

subsection \<open>Memory files\<close>

lemma file_ok_mem [simp]: "file_ok (mem_file p d)"
  by (simp add: file_ok_def mem_file_def)

lemma next_entry_mem:
  "length bs = n \<Longrightarrow> next_entry (mem_file p (bs @ d)) n = Inr (mem_file (p @ bs) d, bs)"
  by (simp add: next_entry_def mem_file_def)

lemma put_items_mem:
  assumes "length ptr = sz * n" and "sz * n < 2 ^ 64" and "0 < n"
  shows "put_items ptr sz n (mem_file p d) =
    (if length ptr \<le> length d then Inr (mem_file (p @ ptr) (drop (length ptr) d)) else Inl STATUS_ERR)"
  using assms by (simp add: put_items_def put_entry_def mem_file_def Let_def)

lemma next_entry_ok:
  assumes "file_ok fp"
  shows "next_entry fp n \<noteq> Inl UB"
    and "next_entry fp n = Inr (fp', bs) \<Longrightarrow> file_ok fp' \<and> length bs = n"
  using assms by (auto simp: next_entry_def file_ok_def split: pf_type.splits if_splits)

subsection \<open>Reading bitmaps\<close>

lemma read_node_Inr:
  assumes "read_node m hb l fp = Inr (fp', n)"
  shows "MAPSIZE dvd unat (startbit n)" and "unat (startbit n) \<le> unat hb - MAPSIZE" and "nmap n \<noteq> 0"
    and "\<And>q. l = Some q \<Longrightarrow> startbit q < startbit n"
  using assms
  by (auto simp: read_node_def rbind_eq_Inr_iff Let_def aligned_iff not_less not_le
      split: if_splits option.splits)

lemma read_node_file_ok:
  assumes "file_ok fp"
  shows "read_node m hb l fp \<noteq> Inl UB" and "read_node m hb l fp = Inr (fp', n) \<Longrightarrow> file_ok fp'"
proof -
  show "read_node m hb l fp \<noteq> Inl UB"
    using next_entry_ok [OF assms, of 4] next_entry_ok [of _ 8]
    by (auto simp: read_node_def rbind_eq_Inl_iff Let_def split: if_splits option.splits)
  show "read_node m hb l fp = Inr (fp', n) \<Longrightarrow> file_ok fp'"
    using next_entry_ok [OF assms, of 4] next_entry_ok [of _ 8]
    by (auto simp: read_node_def rbind_eq_Inr_iff Let_def split: if_splits option.splits)
qed

lemma read_nodes_Inr:
  assumes "read_nodes m hb l i count fp = Inr (fp', ns)"
  shows "length ns = count" and "nodes_ok ns" and "\<forall>n \<in> set ns. unat (startbit n) \<le> unat hb - MAPSIZE"
    and "\<And>q n. l = Some q \<Longrightarrow> n \<in> set ns \<Longrightarrow> startbit q < startbit n"
proof -
  have "length ns = count \<and> nodes_ok ns \<and> (\<forall>n \<in> set ns. unat (startbit n) \<le> unat hb - MAPSIZE) \<and>
      (\<forall>q. l = Some q \<longrightarrow> (\<forall>n \<in> set ns. startbit q < startbit n))"
    using assms
  proof (induction count arbitrary: l i fp fp' ns)
    case 0
    then show ?case by (simp add: nodes_ok_Nil)
  next
    case (Suc count)
    from Suc.prems obtain fp1 n ns' where n: "read_node (at_site i m) hb l fp = Inr (fp1, n)"
      and ns': "read_nodes m hb (Some n) (Suc i) count fp1 = Inr (fp', ns')" and ns: "ns = n # ns'"
      by (auto simp: rbind_eq_Inr_iff)
    note node = read_node_Inr [OF n] and rest = Suc.IH [OF ns']
    have "nodes_ok ns" using node rest by (auto simp: ns nodes_ok_def)
    moreover have "startbit q < startbit k" if "l = Some q" "k \<in> set ns" for q k
      using node(4) [OF that(1)] rest that(2) by (auto simp: ns intro: less_trans)
    ultimately show ?case using node rest by (auto simp: ns)
  qed
  then show "length ns = count" "nodes_ok ns" "\<forall>n \<in> set ns. unat (startbit n) \<le> unat hb - MAPSIZE"
    "\<And>q n. l = Some q \<Longrightarrow> n \<in> set ns \<Longrightarrow> startbit q < startbit n"
    by auto
qed

lemma read_nodes_no_UB: "file_ok fp \<Longrightarrow> read_nodes m hb l i count fp \<noteq> Inl UB"
proof (induction count arbitrary: l i fp)
  case (Suc count)
  show ?case
  proof (cases "read_node (at_site i m) hb l fp")
    case (Inl e)
    then show ?thesis using read_node_file_ok(1) [OF Suc.prems] by (simp add: Inl) (metis Inl)
  next
    case (Inr r)
    obtain fp1 n where r: "r = (fp1, n)" by force
    with Inr have "file_ok fp1" using read_node_file_ok(2) [OF Suc.prems] by simp
    from Suc.IH [OF this, of "Some n" "Suc i"] show ?thesis
      by (auto simp: Inr r rbind_eq_Inl_iff)
  qed
qed simp

lemma ebitmap_read_ok:
  assumes "ebitmap_read m fp = Inr (fp', e)"
  shows "ebitmap_ok e" and "MAPSIZE dvd unat (highbit e)"
proof -
  have "ebitmap_ok e \<and> MAPSIZE dvd unat (highbit e)"
  proof (cases "highbit e = 0")
    case True
    with assms show ?thesis
      by (auto simp: ebitmap_read_def rbind_eq_Inr_iff Let_def ebitmap_ok_def nodes_ok_Nil split: if_splits)
  next
    case False
    with assms obtain fp1 count where dvd: "MAPSIZE dvd unat (highbit e)"
      and ns: "read_nodes m (highbit e) None 0 count fp1 = Inr (fp', nodes e)"
      by (auto simp: ebitmap_read_def rbind_eq_Inr_iff Let_def aligned_iff split: if_splits)
    have "MAPSIZE \<le> unat (highbit e)"
      using dvd False by (intro dvd_imp_le) (simp_all add: unat_gt_0)
    with dvd read_nodes_Inr(2,3) [OF ns] show ?thesis
      by (auto simp: ebitmap_ok_def)
  qed
  then show "ebitmap_ok e" "MAPSIZE dvd unat (highbit e)" by auto
qed

lemma ebitmap_read_no_UB: "file_ok fp \<Longrightarrow> ebitmap_read m fp \<noteq> Inl UB"
  using next_entry_ok [of fp 12] read_nodes_no_UB
  by (auto simp: ebitmap_read_def rbind_eq_Inl_iff Let_def split: if_splits)

subsection \<open>Writing bitmaps\<close>

lemma length_enc_node [simp]: "length (enc_node n) = 12"
  by (simp add: enc_node_def)

lemma write_node_mem:
  "write_node n (mem_file p d) =
     (if 12 \<le> length d then Inr (mem_file (p @ enc_node n) (drop 12 d)) else Inl STATUS_ERR)"
  by (auto simp: write_node_def put_items_mem enc_node_def)

lemma write_nodes_mem:
  "for_each write_node ns (mem_file p d) =
     (if 12 * length ns \<le> length d
      then Inr (mem_file (p @ concat (map enc_node ns)) (drop (12 * length ns) d)) else Inl STATUS_ERR)"
  by (induction ns arbitrary: p d) (auto simp: write_node_mem add.commute)

lemma length_concat_enc [simp]: "length (concat (map enc_node ns)) = 12 * length ns"
  by (induction ns) auto

lemma ebitmap_write_mem:
  "ebitmap_write e (mem_file p d) =
     (if length (ebitmap_enc e) \<le> length d
      then Inr (mem_file (p @ ebitmap_enc e) (drop (length (ebitmap_enc e)) d)) else Inl STATUS_ERR)"
  by (auto simp: ebitmap_write_def put_items_mem write_nodes_mem ebitmap_enc_def add.commute)

lemma read_node_mem:
  assumes "MAPSIZE dvd unat (startbit n)" and "unat (startbit n) \<le> unat hb - MAPSIZE" and "nmap n \<noteq> 0"
    and "\<And>q. l = Some q \<Longrightarrow> startbit q < startbit n" and "malloc m"
  shows "read_node m hb l (mem_file p (enc_node n @ d)) = Inr (mem_file (p @ enc_node n) d, n)"
  using assms
  by (auto simp: read_node_def enc_node_def next_entry_mem aligned_iff not_less not_le node_eta Let_def
      split: option.split)

lemma read_nodes_mem:
  assumes "nodes_ok ns" and "\<forall>n \<in> set ns. unat (startbit n) \<le> unat hb - MAPSIZE"
    and "\<And>q n. l = Some q \<Longrightarrow> n \<in> set ns \<Longrightarrow> startbit q < startbit n"
  shows "read_nodes no_oom hb l i (length ns) (mem_file p (concat (map enc_node ns) @ d))
       = Inr (mem_file (p @ concat (map enc_node ns)) d, ns)"
  using assms
proof (induction ns arbitrary: l i p)
  case (Cons n ns)
  have "read_node no_oom hb l (mem_file p (enc_node n @ concat (map enc_node ns) @ d))
      = Inr (mem_file (p @ enc_node n) (concat (map enc_node ns) @ d), n)"
    using Cons.prems nodes_ok_ConsD [OF Cons.prems(1)] by (intro read_node_mem) auto
  moreover have "read_nodes no_oom hb (Some n) (Suc i) (length ns)
        (mem_file (p @ enc_node n) (concat (map enc_node ns) @ d))
      = Inr (mem_file ((p @ enc_node n) @ concat (map enc_node ns)) d, ns)"
    using Cons.prems nodes_ok_ConsD(1) [OF Cons.prems(1)]
    by (intro Cons.IH) (auto simp: nodes_ok_def)
  ultimately show ?case by simp
qed simp

text \<open>A bitmap has at most one node per block of 64 bits, so the 32 bit node count cannot wrap.\<close>

lemma nodes_ok_length:
  assumes "nodes_ok ns"
  shows "length ns \<le> 2 ^ 26"
proof -
  define blk where "blk n = unat (startbit n) div MAPSIZE" for n :: ebitmap_node
  have "distinct (map startbit ns)"
    using assms by (auto simp: nodes_ok_def strict_sorted_iff)
  then have d: "distinct ns" and inj: "inj_on startbit (set ns)" by (auto simp: distinct_map)
  have "inj_on blk (set ns)"
  proof (rule inj_onI)
    fix x y assume xy: "x \<in> set ns" "y \<in> set ns" "blk x = blk y"
    with assms have "unat (startbit x) = unat (startbit y)"
      by (auto simp: blk_def nodes_ok_def) (metis dvd_div_mult_self)
    then have "startbit x = startbit y" by (simp only: word_unat_eq_iff)
    with inj xy show "x = y" by (auto simp: inj_on_def)
  qed
  moreover have "blk ` set ns \<subseteq> {..<2 ^ 26}"
    using unat_less_2p32 by (auto simp: blk_def MAPSIZE_def less_mult_imp_div_less)
  ultimately have "card (set ns) \<le> card {..<2 ^ 26 :: nat}"
    by (intro card_inj_on_le) auto
  then show ?thesis using distinct_card [OF d] by simp
qed

lemma ebitmap_read_mem:
  assumes "ebitmap_wf e"
  shows "ebitmap_read no_oom (mem_file p (ebitmap_enc e @ d)) = Inr (mem_file (p @ ebitmap_enc e) d, e)"
proof -
  have ok: "nodes_ok (nodes e)" using assms by (simp add: ebitmap_wf_def)
  have len: "unat (of_nat (length (nodes e)) :: u32) = length (nodes e)"
    using nodes_ok_length [OF ok] by (simp add: unat_of_nat)
  define hdr where "hdr = cpu_to_le32 (of_nat MAPSIZE) @ cpu_to_le32 (highbit e)
     @ cpu_to_le32 (of_nat (length (nodes e)))"
  have enc: "ebitmap_enc e = hdr @ concat (map enc_node (nodes e))"
    by (simp add: ebitmap_enc_def hdr_def)
  have hdr: "next_entry (mem_file p (ebitmap_enc e @ d)) 12
      = Inr (mem_file (p @ hdr) (concat (map enc_node (nodes e)) @ d), hdr)"
    using next_entry_mem [of hdr 12 p] by (simp add: enc hdr_def)
  show ?thesis
  proof (cases "nodes e = []")
    case True
    then have "highbit e = 0" using assms by (simp add: ebitmap_wf_def)
    with True show ?thesis
      unfolding ebitmap_read_def hdr
      by (auto simp: enc hdr_def MAPSIZE_def intro: ebitmap.equality)
  next
    case False
    note hb = ebitmap_wf_highbit [OF assms False]
    have "MAPSIZE dvd unat (highbit e)" and "highbit e \<noteq> 0"
      using ok hb False by (auto simp: nodes_ok_def MAPSIZE_def unat_eq_0)
    moreover have "read_nodes no_oom (highbit e) None 0 (length (nodes e))
          (mem_file (p @ hdr) (concat (map enc_node (nodes e)) @ d))
        = Inr (mem_file ((p @ hdr) @ concat (map enc_node (nodes e))) d, nodes e)"
      using ok ebitmap_wf_ok [OF assms] by (intro read_nodes_mem) (auto simp: ebitmap_ok_def)
    ultimately show ?thesis
      unfolding ebitmap_read_def hdr
      by (auto simp: enc hdr_def aligned_iff64 len MAPSIZE_def Let_def intro: ebitmap.equality)
  qed
qed

interpretation ebf: file_codec ebitmap_wf ebitmap_enc ebitmap_write "ebitmap_read no_oom"
  by unfold_locales (auto simp: ebitmap_read_mem ebitmap_write_mem)

section \<open>Properties\<close>

text \<open>
  C25: A canonical bitmap written with \<^verbatim>\<open>ebitmap_write\<close> into a memory buffer is read back by
  \<^verbatim>\<open>ebitmap_read\<close>, which stops where the writer stopped; writing succeeds exactly when the
  encoding fits into the buffer.
\<close>

theorem ebitmap_write_read:
  assumes "ebitmap_wf e"
  shows "((\<exists>fp. ebitmap_write e (mem_file p d) = Inr fp) \<longleftrightarrow> 12 + 12 * length (nodes e) \<le> length d) \<and>
    (\<forall>fp. ebitmap_write e (mem_file p d) = Inr fp \<longrightarrow>
       ebitmap_read no_oom (mem_file p (drop (length p) (passed fp @ data fp))) = Inr (fp, e))"
  using ebf.write_succeeds_iff [OF assms, of p d] ebf.write_read [OF assms]
  by (auto simp: ebitmap_enc_def)

theorem ebitmap_write_read_witness:
  "\<exists>fp. ebitmap_write sample_bits (mem_file [] (replicate 36 0)) = Inr fp \<and>
        ebitmap_read no_oom (mem_file [] (passed fp @ data fp)) = Inr (fp, sample_bits)"
  using ebitmap_write_read [OF sample_bits_wf, of "[]" "replicate 36 0"]
  by (auto simp: sample_bits_def)

text \<open>
  C26: Whatever bytes the policy file holds, \<^verbatim>\<open>ebitmap_read\<close> does not read outside the buffer, and
  a bitmap it returns has strictly increasing, aligned, nonempty nodes that all lie below the
  high bit: every single-bit query on it is answered according to its set of bits.
\<close>

theorem ebitmap_read_safe:
  assumes "file_ok fp"
  shows "ebitmap_read m fp \<noteq> Inl UB \<and>
    (\<forall>fp' e. ebitmap_read m fp = Inr (fp', e) \<longrightarrow>
       ebitmap_ok e \<and> (\<forall>b. ebitmap_get_bit e b \<longleftrightarrow> unat b \<in> ebits e))"
  using ebitmap_read_no_UB [OF assms] ebitmap_read_ok(1) ebitmap_get_bit_iff by blast

theorem ebitmap_read_safe_witness:
  "ebitmap_read no_oom (mem_file [] (cpu_to_le32 64 @ [7])) \<noteq> Inl UB"
  using ebitmap_read_safe [OF file_ok_mem] by blast

text \<open>
  The reader does not establish the canonical form that comparison and iteration need.  The
  twelve bytes of a header with high bit 64 and no node are accepted; the bitmap returned has no
  bits, but \<^verbatim>\<open>ebitmap_cmp\<close> tells it from the empty bitmap, \<^verbatim>\<open>ebitmap_contains\<close> denies that the
  empty bitmap contains it, and \<^verbatim>\<open>ebitmap_for_each_bit\<close> dereferences a null node pointer.
\<close>

theorem ebitmap_read_accepts_noncanonical:
  "ebitmap_read no_oom (mem_file [] (cpu_to_le32 64 @ cpu_to_le32 64 @ cpu_to_le32 0))
     = Inr (mem_file (cpu_to_le32 64 @ cpu_to_le32 64 @ cpu_to_le32 0) [], \<lparr>nodes = [], highbit = 64\<rparr>) \<and>
   ebits \<lparr>nodes = [], highbit = 64\<rparr> = ebits ebitmap_init \<and>
   \<not> ebitmap_cmp \<lparr>nodes = [], highbit = 64\<rparr> ebitmap_init \<and>
   \<not> ebitmap_contains ebitmap_init \<lparr>nodes = [], highbit = 64\<rparr> \<and>
   ebitmap_for_each_bit \<lparr>nodes = [], highbit = 64\<rparr> = Inl UB"
proof -
  have "next_entry (mem_file [] (cpu_to_le32 64 @ cpu_to_le32 64 @ cpu_to_le32 0)) 12
      = Inr (mem_file (cpu_to_le32 64 @ cpu_to_le32 64 @ cpu_to_le32 0) [],
             cpu_to_le32 64 @ cpu_to_le32 64 @ cpu_to_le32 0)"
    using next_entry_mem [of "cpu_to_le32 64 @ cpu_to_le32 64 @ cpu_to_le32 0" 12 "[]" "[]"] by simp
  then show ?thesis
    by (simp add: ebitmap_read_def MAPSIZE_def ebits_def ebitmap_init_def ebitmap_cmp_def
        ebitmap_contains_def ebitmap_for_each_bit_def ebitmap_startbit_def visit_loop.simps)
qed

end
