(* ===== verification/Avtab.thy ===== *)
theory Avtab
  imports Policyfile
begin

text \<open>
  The access vector table, \<^verbatim>\<open>libsepol/src/avtab.c\<close>: a hash table from (source type, target type,
  class, kind of rule) to access vectors, default types or extended permissions.  The chains are
  sorted by types and class; entries of different kinds for the same types and class follow each
  other.

  Nodes are referred to by pointers from conditional rules, so every node carries its address;
  \<open>anext\<close> is the next address the allocator returns.  A pointer returned by a search is the
  list from the node on, the empty list being the null pointer.  The pointer \<^verbatim>\<open>parse_context\<close> of a
  node is a number, zero for the null pointer.
\<close>

section \<open>Data\<close>

record avtab_key =
  source_type :: u16
  target_type :: u16
  target_class :: u16
  specified :: u16

definition AVTAB_ALLOWED :: u16 where "AVTAB_ALLOWED = 0x0001"
definition AVTAB_AUDITALLOW :: u16 where "AVTAB_AUDITALLOW = 0x0002"
definition AVTAB_AUDITDENY :: u16 where "AVTAB_AUDITDENY = 0x0004"
definition AVTAB_NEVERALLOW :: u16 where "AVTAB_NEVERALLOW = 0x0080"
definition AVTAB_AV :: u16 where "AVTAB_AV = AVTAB_ALLOWED OR AVTAB_AUDITALLOW OR AVTAB_AUDITDENY"
definition AVTAB_TRANSITION :: u16 where "AVTAB_TRANSITION = 0x0010"
definition AVTAB_MEMBER :: u16 where "AVTAB_MEMBER = 0x0020"
definition AVTAB_CHANGE :: u16 where "AVTAB_CHANGE = 0x0040"
definition AVTAB_TYPE :: u16 where "AVTAB_TYPE = AVTAB_TRANSITION OR AVTAB_MEMBER OR AVTAB_CHANGE"
definition AVTAB_XPERMS_ALLOWED :: u16 where "AVTAB_XPERMS_ALLOWED = 0x0100"
definition AVTAB_XPERMS_AUDITALLOW :: u16 where "AVTAB_XPERMS_AUDITALLOW = 0x0200"
definition AVTAB_XPERMS_DONTAUDIT :: u16 where "AVTAB_XPERMS_DONTAUDIT = 0x0400"
definition AVTAB_XPERMS :: u16 where
  "AVTAB_XPERMS = AVTAB_XPERMS_ALLOWED OR AVTAB_XPERMS_AUDITALLOW OR AVTAB_XPERMS_DONTAUDIT"
definition AVTAB_ENABLED_OLD :: u32 where "AVTAB_ENABLED_OLD = 0x80000000"
definition AVTAB_ENABLED :: u16 where "AVTAB_ENABLED = 0x8000"

lemmas avtab_consts =
  AVTAB_ALLOWED_def AVTAB_AUDITALLOW_def AVTAB_AUDITDENY_def AVTAB_NEVERALLOW_def AVTAB_AV_def
  AVTAB_TRANSITION_def AVTAB_MEMBER_def AVTAB_CHANGE_def AVTAB_TYPE_def AVTAB_XPERMS_ALLOWED_def
  AVTAB_XPERMS_AUDITALLOW_def AVTAB_XPERMS_DONTAUDIT_def AVTAB_XPERMS_def AVTAB_ENABLED_OLD_def
  AVTAB_ENABLED_def

record avtab_extended_perms =
  xspecified :: u8
  driver :: u8
  perms :: "u32 list"

record avtab_datum =
  avdata :: u32
  xperms :: "avtab_extended_perms option"

record avtab_node =
  naddr :: nat
  nkey :: avtab_key
  ndatum :: avtab_datum
  parse_context :: nat
  merged :: u32

record avtab =
  avslots :: "avtab_node list list option"
  avnel :: u32
  nslot :: u32
  avmask :: u32
  anext :: nat

section \<open>Hashing\<close>

definition av_mix :: "u32 \<Rightarrow> u32 \<Rightarrow> u32" where
  "av_mix input hash =
     (let v = input * 0xcc9e2d51;
          v = push_bit 15 v OR drop_bit (32 - 15) v;
          v = v * 0x1b873593;
          hash = hash XOR v;
          hash = push_bit 13 hash OR drop_bit (32 - 13) hash in
      hash * 5 + 0xe6546b64)"

definition avtab_hash :: "avtab_key \<Rightarrow> u32 \<Rightarrow> u32" where
  "avtab_hash key msk =
     (let hash = av_mix (ucast (source_type key))
                   (av_mix (ucast (target_type key)) (av_mix (ucast (target_class key)) 0));
          hash = hash XOR drop_bit 16 hash;
          hash = hash * 0x85ebca6b;
          hash = hash XOR drop_bit 13 hash;
          hash = hash * 0xc2b2ae35;
          hash = hash XOR drop_bit 16 hash in
      hash AND msk)"

text \<open>\<^verbatim>\<open>h->htable[hvalue]\<close> with the signed \<^verbatim>\<open>hvalue\<close>.\<close>

definition av_slot :: "avtab_node list list \<Rightarrow> avtab_key \<Rightarrow> u32 \<Rightarrow> nat result" where
  "av_slot tbl key msk =
     (let hvalue = sint (avtab_hash key msk) in
      if 0 \<le> hvalue \<and> nat hvalue < length tbl then Inr (nat hvalue) else Inl UB)"

section \<open>Searching and inserting\<close>

text \<open>\<^verbatim>\<open>key->specified & ~(AVTAB_ENABLED | AVTAB_ENABLED_OLD)\<close>, stored in 16 bits\<close>

definition spec_of :: "avtab_key \<Rightarrow> u16" where
  "spec_of key = specified key AND NOT AVTAB_ENABLED"

text \<open>The two tests of the loops: the node matches; the node lies behind every match.\<close>

definition node_matches :: "avtab_key \<Rightarrow> u16 \<Rightarrow> avtab_node \<Rightarrow> bool" where
  "node_matches key sp cur \<longleftrightarrow>
     source_type key = source_type (nkey cur) \<and> target_type key = target_type (nkey cur) \<and>
     target_class key = target_class (nkey cur) \<and> sp AND specified (nkey cur) \<noteq> 0"

definition node_behind :: "avtab_key \<Rightarrow> avtab_node \<Rightarrow> bool" where
  "node_behind key cur \<longleftrightarrow>
     source_type key < source_type (nkey cur) \<or>
     source_type key = source_type (nkey cur) \<and> target_type key < target_type (nkey cur) \<or>
     source_type key = source_type (nkey cur) \<and> target_type key = target_type (nkey cur) \<and>
       target_class key < target_class (nkey cur)"

text \<open>The loop of the searches: the list from the first match on.\<close>

fun scan_loop :: "avtab_key \<Rightarrow> u16 \<Rightarrow> avtab_node list \<Rightarrow> avtab_node list" where
  "scan_loop key sp [] = []"
| "scan_loop key sp (cur # rest) =
     (if node_matches key sp cur then cur # rest
      else if node_behind key cur then []
      else scan_loop key sp rest)"

definition avtab_search_node :: "avtab \<Rightarrow> avtab_key \<Rightarrow> avtab_node list result" where
  "avtab_search_node h key =
     (case avslots h of
        None \<Rightarrow> Inr []
      | Some tbl \<Rightarrow>
          rbind (av_slot tbl key (avmask h)) (\<lambda>i. Inr (scan_loop key (spec_of key) (tbl ! i))))"

definition avtab_search :: "avtab \<Rightarrow> avtab_key \<Rightarrow> avtab_datum option result" where
  "avtab_search h key =
     (case avslots h of
        None \<Rightarrow> Inr None
      | Some tbl \<Rightarrow>
          rbind (av_slot tbl key (avmask h)) (\<lambda>i.
            case scan_loop key (spec_of key) (tbl ! i) of
              [] \<Rightarrow> Inr None
            | cur # _ \<Rightarrow> Inr (Some (ndatum cur))))"

text \<open>The argument \<^verbatim>\<open>specified\<close> is an \<^verbatim>\<open>int\<close> here; only its low 16 bits meet those of the nodes.\<close>

definition avtab_search_node_next :: "avtab_node list \<Rightarrow> u32 \<Rightarrow> avtab_node list" where
  "avtab_search_node_next node sp =
     (case node of
        [] \<Rightarrow> []
      | n # rest \<Rightarrow>
          scan_loop (nkey n) (ucast (sp AND NOT (ucast AVTAB_ENABLED OR AVTAB_ENABLED_OLD))) rest)"

text \<open>
  \<^verbatim>\<open>avtab_insert_node\<close>: the slot, the nodes before the new one (last one first) and those behind
  it.  The extended permissions are copied for a rule that has them, else the datum is.
\<close>

definition avtab_insert_node ::
  "alloc \<Rightarrow> avtab \<Rightarrow> avtab_node list list \<Rightarrow> nat \<Rightarrow> avtab_node list \<Rightarrow> avtab_node list \<Rightarrow> avtab_key
     \<Rightarrow> avtab_datum \<Rightarrow> (avtab \<times> nat) option"
where
  "avtab_insert_node m h tbl i prev cur key datum =
     (if \<not> malloc (at_site 0 m) then None
      else
        let has_xperms = (specified key AND AVTAB_XPERMS \<noteq> 0) in
        if has_xperms \<and> \<not> malloc (at_site 1 m) then None
        else
          let d = (if has_xperms
                   then \<lparr>avdata = 0,
                         xperms = Some (case xperms datum of
                                          Some x \<Rightarrow> x
                                        | None \<Rightarrow> \<lparr>xspecified = 0, driver = 0, perms = replicate 8 0\<rparr>)\<rparr>
                   else datum);
              new = \<lparr>naddr = anext h, nkey = key, ndatum = d, parse_context = 0, merged = 0\<rparr> in
          Some (h\<lparr>avslots := Some (tbl[i := rev prev @ new # cur]), avnel := avnel h + 1,
                  anext := anext h + 1\<rparr>, anext h))"

fun insert_loop ::
  "avtab_key \<Rightarrow> u16 \<Rightarrow> avtab_node list \<Rightarrow> avtab_node list \<Rightarrow> (avtab_node list \<times> avtab_node list) result"
where
  "insert_loop key sp prev [] = Inr (prev, [])"
| "insert_loop key sp prev (cur # rest) =
     (if node_matches key sp cur
      then if sp AND AVTAB_XPERMS \<noteq> 0 then Inr (prev, cur # rest) else Inl EEXIST
      else if node_behind key cur then Inr (prev, cur # rest)
      else insert_loop key sp (cur # prev) rest)"

definition avtab_insert :: "alloc \<Rightarrow> avtab \<Rightarrow> avtab_key \<Rightarrow> avtab_datum \<Rightarrow> avtab result" where
  "avtab_insert m h key datum =
     (case avslots h of
        None \<Rightarrow> Inl ENOMEM
      | Some tbl \<Rightarrow>
          rbind (av_slot tbl key (avmask h)) (\<lambda>i.
            rbind (insert_loop key (spec_of key) [] (tbl ! i)) (\<lambda>(prev, cur).
              case avtab_insert_node m h tbl i prev cur key datum of
                None \<Rightarrow> Inl ENOMEM
              | Some (h', _) \<Rightarrow> Inr h')))"

fun nonunique_loop ::
  "avtab_key \<Rightarrow> u16 \<Rightarrow> avtab_node list \<Rightarrow> avtab_node list \<Rightarrow> avtab_node list \<times> avtab_node list"
where
  "nonunique_loop key sp prev [] = (prev, [])"
| "nonunique_loop key sp prev (cur # rest) =
     (if node_matches key sp cur \<or> node_behind key cur then (prev, cur # rest)
      else nonunique_loop key sp (cur # prev) rest)"

text \<open>The result is the table with the address of the new node, or no node.\<close>

definition avtab_insert_nonunique ::
  "alloc \<Rightarrow> avtab \<Rightarrow> avtab_key \<Rightarrow> avtab_datum \<Rightarrow> (avtab \<times> nat) option result"
where
  "avtab_insert_nonunique m h key datum =
     (case avslots h of
        None \<Rightarrow> Inr None
      | Some tbl \<Rightarrow>
          rbind (av_slot tbl key (avmask h)) (\<lambda>i.
            case nonunique_loop key (spec_of key) [] (tbl ! i) of (prev, cur) \<Rightarrow>
              Inr (avtab_insert_node m h tbl i prev cur key datum)))"

section \<open>The whole table\<close>

text \<open>\<^verbatim>\<open>avtab_init\<close> leaves the slot count and the mask as they are.\<close>

definition avtab_init :: "avtab \<Rightarrow> avtab" where
  "avtab_init h = h\<lparr>avslots := None, avnel := 0\<rparr>"

definition avtab_destroy :: "avtab \<Rightarrow> avtab" where
  "avtab_destroy h =
     (case avslots h of None \<Rightarrow> h | Some _ \<Rightarrow> h\<lparr>avslots := None, nslot := 0, avmask := 0\<rparr>)"

function shift_loop :: "u32 \<Rightarrow> u32 \<Rightarrow> u32" where
  "shift_loop work shift = (if work \<noteq> 0 then shift_loop (drop_bit 1 work) (shift + 1) else shift)"
  by pat_completeness auto
termination
proof (relation "measure (\<lambda>(work, shift). unat work)", goal_cases)
  case (2 work shift)
  then have "0 < unat work" by (simp add: unat_gt_0)
  moreover have "unat (drop_bit 1 work) = unat work div 2"
    by (simp add: drop_bit_eq_div unat_div)
  ultimately show ?case by simp
qed simp

declare shift_loop.simps [simp del]

definition MAX_AVTAB_HASH_BUCKETS :: u32 where
  "MAX_AVTAB_HASH_BUCKETS = push_bit 20 1"

definition avtab_alloc :: "alloc \<Rightarrow> avtab \<Rightarrow> u32 \<Rightarrow> avtab result" where
  "avtab_alloc m h nrules =
     (if nrules = 0 then Inr (h\<lparr>avnel := 0, nslot := 0, avmask := 0\<rparr>)
      else
        let shift = shift_loop nrules 0;
            shift = (if shift > 2 then shift - 2 else shift);
            ns = push_bit (unat shift) 1;
            ns = (if ns > MAX_AVTAB_HASH_BUCKETS then MAX_AVTAB_HASH_BUCKETS else ns) in
        if \<not> malloc m then Inl STATUS_ERR
        else Inr (h\<lparr>avslots := Some (replicate (unat ns) []), avnel := 0, nslot := ns, avmask := ns - 1\<rparr>))"

text \<open>The callback gets the key and the datum of every node.\<close>

definition avtab_map :: "avtab \<Rightarrow> (avtab_key \<Rightarrow> avtab_datum \<Rightarrow> 's \<Rightarrow> 's result) \<Rightarrow> 's \<Rightarrow> 's result" where
  "avtab_map h f args =
     for_each
       (\<lambda>i s. case avslots h of
                None \<Rightarrow> Inl UB
              | Some tbl \<Rightarrow>
                  rbind (idx tbl (unat i)) (\<lambda>chain. for_each (\<lambda>n. f (nkey n) (ndatum n)) chain s))
       (upto32 (nslot h)) args"

section \<open>Reading\<close>

definition POLICYDB_VERSION_AVTAB :: u32 where "POLICYDB_VERSION_AVTAB = 20"
definition POLICYDB_VERSION_XPERMS_IOCTL :: u32 where "POLICYDB_VERSION_XPERMS_IOCTL = 30"

definition spec_order :: "u16 list" where
  "spec_order = [AVTAB_ALLOWED, AVTAB_AUDITDENY, AVTAB_AUDITALLOW, AVTAB_TRANSITION, AVTAB_CHANGE,
     AVTAB_MEMBER, AVTAB_XPERMS_ALLOWED, AVTAB_XPERMS_AUDITALLOW, AVTAB_XPERMS_DONTAUDIT]"

text \<open>The words of a buffer of little endian integers of \<open>k\<close> bytes.\<close>

fun le_words :: "nat \<Rightarrow> nat \<Rightarrow> u8 list \<Rightarrow> 'a::len word list" where
  "le_words k 0 bs = []"
| "le_words k (Suc n) bs = le_to_cpu (take k bs) # le_words k n (drop k bs)"

text \<open>
  One iteration of the loop over \<^verbatim>\<open>spec_order\<close> for the old format: the next word of the buffer
  is the datum of the rule inserted.
\<close>

definition old_spec_step ::
  "(avtab \<Rightarrow> avtab_key \<Rightarrow> avtab_datum \<Rightarrow> 'p \<Rightarrow> (avtab \<times> 'p) result) \<Rightarrow> u32 \<Rightarrow> u16 \<Rightarrow> avtab_key \<Rightarrow> u32 list
     \<Rightarrow> u16 \<Rightarrow> nat \<times> avtab \<times> 'p \<Rightarrow> (nat \<times> avtab \<times> 'p) result"
where
  "old_spec_step insertf val enabled key buf sp = (\<lambda>(items, a, p).
     if val AND ucast sp \<noteq> 0
     then rbind (idx buf items) (\<lambda>w.
            rbind (insertf a (key\<lparr>specified := sp OR enabled\<rparr>) \<lparr>avdata = w, xperms = None\<rparr> p)
              (\<lambda>(a, p). Inr (items + 1, a, p)))
     else Inr (items, a, p))"

text \<open>
  The format before version 20.  The local array \<^verbatim>\<open>buf32\<close> has eight elements; \<open>stale\<close> is what the
  elements that were not read from the file hold.
\<close>

definition avtab_read_item_old ::
  "(nat \<Rightarrow> u32) \<Rightarrow> policy_file \<Rightarrow> avtab \<Rightarrow>
     (avtab \<Rightarrow> avtab_key \<Rightarrow> avtab_datum \<Rightarrow> 'p \<Rightarrow> (avtab \<times> 'p) result) \<Rightarrow> 'p
     \<Rightarrow> (policy_file \<times> avtab \<times> 'p) result"
where
  "avtab_read_item_old stale fp a insertf p =
     rbind (next_entry fp 4) (\<lambda>(fp, b).
       let items2 = unat (le_to_cpu b :: u32) in
       if items2 < 5 \<or> items2 > 8 then Inl STATUS_ERR
       else rbind (next_entry fp (4 * items2)) (\<lambda>(fp, b).
         let buf32 = le_words 4 items2 b @ map stale [items2..<8];
             src = buf32 ! 0; tgt = buf32 ! 1; cls = buf32 ! 2; val = buf32 ! 3;
             key = \<lparr>source_type = ucast src, target_type = ucast tgt, target_class = ucast cls, specified = 0\<rparr> in
         if ucast (source_type key) \<noteq> src then Inl STATUS_ERR
         else if ucast (target_type key) \<noteq> tgt then Inl STATUS_ERR
         else if ucast (target_class key) \<noteq> cls then Inl STATUS_ERR
         else
           let enabled = (if val AND AVTAB_ENABLED_OLD \<noteq> 0 then AVTAB_ENABLED else 0) in
           if val AND ucast (AVTAB_AV OR AVTAB_TYPE) = 0 then Inl STATUS_ERR
           else if val AND ucast AVTAB_AV \<noteq> 0 \<and> val AND ucast AVTAB_TYPE \<noteq> 0 then Inl STATUS_ERR
           else rbind (for_each (old_spec_step insertf val enabled key buf32) spec_order (4, a, p))
                  (\<lambda>(items, a, p). if items \<noteq> items2 then Inl STATUS_ERR else Inr (fp, a, p))))"

definition avtab_read_item ::
  "(nat \<Rightarrow> u32) \<Rightarrow> policy_file \<Rightarrow> u32 \<Rightarrow> avtab \<Rightarrow>
     (avtab \<Rightarrow> avtab_key \<Rightarrow> avtab_datum \<Rightarrow> 'p \<Rightarrow> (avtab \<times> 'p) result) \<Rightarrow> 'p
     \<Rightarrow> (policy_file \<times> avtab \<times> 'p) result"
where
  "avtab_read_item stale fp vers a insertf p =
     (if vers < POLICYDB_VERSION_AVTAB then avtab_read_item_old stale fp a insertf p
      else rbind (next_entry fp 8) (\<lambda>(fp, b).
        let buf16 = le_words 2 4 b;
            key = \<lparr>source_type = buf16 ! 0, target_type = buf16 ! 1, target_class = buf16 ! 2,
                   specified = buf16 ! 3\<rparr>;
            set = length (filter (\<lambda>sp. specified key AND sp \<noteq> 0) spec_order) in
        if set = 0 \<or> set > 1 then Inl STATUS_ERR
        else if vers < POLICYDB_VERSION_XPERMS_IOCTL \<and> specified key AND AVTAB_XPERMS \<noteq> 0
        then Inl STATUS_ERR
        else if specified key AND AVTAB_XPERMS \<noteq> 0
        then rbind (next_entry fp 1) (\<lambda>(fp, b1). rbind (next_entry fp 1) (\<lambda>(fp, b2).
               rbind (next_entry fp 32) (\<lambda>(fp, b3).
                 let x = \<lparr>xspecified = hd b1, driver = hd b2, perms = le_words 4 8 b3\<rparr> in
                 rbind (insertf a key \<lparr>avdata = 0, xperms = Some x\<rparr> p) (\<lambda>(a, p). Inr (fp, a, p)))))
        else rbind (next_entry fp 4) (\<lambda>(fp, b).
               rbind (insertf a key \<lparr>avdata = le_to_cpu b, xperms = None\<rparr> p) (\<lambda>(a, p). Inr (fp, a, p)))))"

definition avtab_insertf ::
  "alloc \<Rightarrow> avtab \<Rightarrow> avtab_key \<Rightarrow> avtab_datum \<Rightarrow> unit \<Rightarrow> (avtab \<times> unit) result"
where
  "avtab_insertf m a k d p = rbind (avtab_insert m a k d) (\<lambda>a'. Inr (a', p))"

text \<open>On any error the table is destroyed and \<^verbatim>\<open>-1\<close> returned.\<close>

definition avtab_read :: "alloc \<Rightarrow> (nat \<Rightarrow> u32) \<Rightarrow> avtab \<Rightarrow> policy_file \<Rightarrow> u32 \<Rightarrow> (policy_file \<times> avtab) result" where
  "avtab_read m stale a fp vers =
     (case rbind (next_entry fp 4) (\<lambda>(fp, b).
             let n = le_to_cpu b :: u32 in
             if n = 0 then Inl STATUS_ERR
             else rbind (avtab_alloc (at_site 0 m) a n) (\<lambda>a.
               for_each
                 (\<lambda>i (fp, a). rbind
                    (avtab_read_item stale fp vers a (avtab_insertf (at_site (unat i) (at_site 1 m))) ())
                    (\<lambda>(fp, a, _). Inr (fp, a)))
                 (upto32 n) (fp, a))) of
        Inl UB \<Rightarrow> Inl UB
      | Inl _ \<Rightarrow> Inl STATUS_ERR
      | Inr r \<Rightarrow> Inr r)"

section \<open>Lemmas\<close>

subsection \<open>The order of the keys\<close>

definition key_rank :: "avtab_key \<Rightarrow> nat" where
  "key_rank k = unat (source_type k) * 2 ^ 32 + unat (target_type k) * 2 ^ 16 + unat (target_class k)"

lemma unat_less_2p16: "unat (w :: u16) < 65536"
  using unsigned_less [of w] by simp

lemma lex_rank:
  fixes a b c a' b' c' :: nat
  assumes "b < 65536" "c < 65536" "b' < 65536" "c' < 65536"
  shows "a * 4294967296 + b * 65536 + c < a' * 4294967296 + b' * 65536 + c' \<longleftrightarrow>
      a < a' \<or> a = a' \<and> b < b' \<or> a = a' \<and> b = b' \<and> c < c'"
    and "a * 4294967296 + b * 65536 + c = a' * 4294967296 + b' * 65536 + c' \<longleftrightarrow>
      a = a' \<and> b = b' \<and> c = c'"
proof -
  show less: "a * 4294967296 + b * 65536 + c < a' * 4294967296 + b' * 65536 + c' \<longleftrightarrow>
      a < a' \<or> a = a' \<and> b < b' \<or> a = a' \<and> b = b' \<and> c < c'"
    using assms by linarith
  show "a * 4294967296 + b * 65536 + c = a' * 4294967296 + b' * 65536 + c' \<longleftrightarrow>
      a = a' \<and> b = b' \<and> c = c'"
  proof
    assume eq: "a * 4294967296 + b * 65536 + c = a' * 4294967296 + b' * 65536 + c'"
    then have a: "a = a'" using assms by linarith
    with eq have b: "b = b'" using assms by linarith
    with a eq show "a = a' \<and> b = b' \<and> c = c'" by simp
  qed simp
qed

lemma node_behind_rank: "node_behind key n \<longleftrightarrow> key_rank key < key_rank (nkey n)"
  using lex_rank(1) [OF unat_less_2p16 unat_less_2p16 unat_less_2p16 unat_less_2p16]
  by (simp add: node_behind_def key_rank_def word_less_nat_alt word_unat_eq_iff)

lemma key_rank_eq:
  "key_rank k = key_rank k' \<longleftrightarrow>
     source_type k = source_type k' \<and> target_type k = target_type k' \<and> target_class k = target_class k'"
  using lex_rank(2) [OF unat_less_2p16 unat_less_2p16 unat_less_2p16 unat_less_2p16]
  by (simp add: key_rank_def word_unat_eq_iff)

lemma node_matches_rank:
  "node_matches key sp n \<longleftrightarrow> key_rank key = key_rank (nkey n) \<and> sp AND specified (nkey n) \<noteq> 0"
  by (auto simp: node_matches_def key_rank_eq)

definition av_sorted :: "avtab_node list \<Rightarrow> bool" where
  "av_sorted c \<longleftrightarrow> sorted (map (key_rank \<circ> nkey) c)"

lemma av_sorted_simps [simp]:
  "av_sorted []"
  "av_sorted (n # c) \<longleftrightarrow> (\<forall>b \<in> set c. key_rank (nkey n) \<le> key_rank (nkey b)) \<and> av_sorted c"
  "av_sorted (a @ c) \<longleftrightarrow> av_sorted a \<and> av_sorted c \<and>
     (\<forall>x \<in> set a. \<forall>y \<in> set c. key_rank (nkey x) \<le> key_rank (nkey y))"
  by (auto simp: av_sorted_def sorted_append)

subsection \<open>Searching a chain\<close>

lemma scan_loop_dropWhile:
  "av_sorted c \<Longrightarrow> scan_loop key sp c = dropWhile (\<lambda>n. \<not> node_matches key sp n) c"
proof (induction c)
  case (Cons n c)
  show ?case
  proof (cases "node_behind key n")
    case True
    then have "\<forall>b \<in> set (n # c). \<not> node_matches key sp b"
      using Cons.prems by (auto simp: node_behind_rank node_matches_rank)
    then have "dropWhile (\<lambda>n. \<not> node_matches key sp n) c = []" "\<not> node_matches key sp n"
      by (simp_all add: dropWhile_eq_Nil_conv)
    with True show ?thesis by (simp add: eq_commute [of "[]"])
  next
    case False
    then show ?thesis using Cons by simp
  qed
qed simp

text \<open>The loop \<^verbatim>\<open>for (node = search(...); node; node = avtab_search_node_next(node, specified))\<close>\<close>

lemma scan_loop_length: "length (scan_loop key sp c) \<le> length c"
  by (induction c) auto

function node_iter :: "u32 \<Rightarrow> avtab_node list \<Rightarrow> avtab_node list" where
  "node_iter sp [] = []"
| "node_iter sp (n # rest) = n # node_iter sp (avtab_search_node_next (n # rest) sp)"
  by pat_completeness auto
termination
  by (relation "measure (\<lambda>(sp, c). length c)")
    (auto simp: avtab_search_node_next_def le_imp_less_Suc scan_loop_length)

lemma node_iter_filter:
  assumes "av_sorted c" and "\<And>n. n \<in> set c \<Longrightarrow> P n \<longleftrightarrow> node_matches key sp n"
    and "sp = ucast (sp' AND NOT (ucast AVTAB_ENABLED OR AVTAB_ENABLED_OLD))"
  shows "node_iter sp' (scan_loop key sp c) = filter P c"
  using assms(1,2)
proof (induction c)
  case (Cons n c)
  have rest: "node_iter sp' (scan_loop key sp c) = filter P c" using Cons by simp
  show ?case
  proof (cases "node_matches key sp n")
    case True
    then have rank: "key_rank key = key_rank (nkey n)" by (simp add: node_matches_rank)
    have "node_matches (nkey n) sp = node_matches key sp"
      using rank by (simp add: fun_eq_iff node_matches_rank)
    then have "scan_loop (nkey n) sp c = scan_loop key sp c"
      using Cons.prems(1) by (simp add: scan_loop_dropWhile)
    with True rest Cons.prems(2) [of n] show ?thesis
      by (simp add: avtab_search_node_next_def assms(3))
  next
    case False
    have "scan_loop key sp (n # c) = scan_loop key sp c"
      using False Cons.prems(1) scan_loop_dropWhile [of "n # c" key sp] by (simp add: scan_loop_dropWhile)
    with False rest Cons.prems(2) [of n] show ?thesis by simp
  qed
qed simp

subsection \<open>Inserting into a chain\<close>

lemma insert_loop_cases:
  assumes "av_sorted (rev prev @ c)" and "\<forall>n \<in> set prev. key_rank (nkey n) \<le> key_rank key"
  shows "(\<exists>n \<in> set c. node_matches key sp n) \<and> sp AND AVTAB_XPERMS = 0 \<and> insert_loop key sp prev c = Inl EEXIST
    \<or> \<not> ((\<exists>n \<in> set c. node_matches key sp n) \<and> sp AND AVTAB_XPERMS = 0) \<and>
      (\<exists>p cur. insert_loop key sp prev c = Inr (p, cur) \<and> rev prev @ c = rev p @ cur \<and>
         (\<forall>n \<in> set p. key_rank (nkey n) \<le> key_rank key) \<and> (\<forall>n \<in> set cur. key_rank key \<le> key_rank (nkey n)) \<and>
         (\<exists>q. p = q @ prev \<and> (\<forall>n \<in> set q. \<not> node_matches key sp n)))"
  using assms
proof (induction key sp prev c rule: insert_loop.induct)
  case (1 key sp prev)
  then show ?case by auto
next
  case (2 key sp prev cur rest)
  consider "node_matches key sp cur" | "\<not> node_matches key sp cur" "node_behind key cur"
    | "\<not> node_matches key sp cur" "\<not> node_behind key cur" by blast
  then show ?case
  proof cases
    case 1
    then show ?thesis using 2(2,3) by (auto simp: node_matches_rank)
  next
    case 2
    then have "\<forall>n \<in> set (cur # rest). key_rank key < key_rank (nkey n)"
      using \<open>av_sorted (rev prev @ cur # rest)\<close> by (auto simp: node_behind_rank)
    then have "\<forall>n \<in> set (cur # rest). \<not> node_matches key sp n" by (auto simp: node_matches_rank)
    with 2 \<open>\<forall>n \<in> set (cur # rest). key_rank key < _ n\<close> \<open>\<forall>n \<in> set prev. _ n\<close> show ?thesis
      by (auto intro: less_imp_le)
  next
    case 3
    have "\<forall>n \<in> set (cur # prev). key_rank (nkey n) \<le> key_rank key"
      using 3 2(3) by (auto simp: node_behind_rank)
    with 2(1) [OF 3] 2(2) 3 show ?thesis by auto
  qed
qed

subsection \<open>Well-formed tables\<close>

definition av_nodes :: "avtab \<Rightarrow> avtab_node list" where
  "av_nodes h = (case avslots h of None \<Rightarrow> [] | Some tbl \<Rightarrow> concat tbl)"

definition av_home :: "avtab \<Rightarrow> avtab_key \<Rightarrow> nat" where
  "av_home h key = unat (avtab_hash key (avmask h))"

definition avtab_wf :: "avtab \<Rightarrow> bool" where
  "avtab_wf h \<longleftrightarrow>
     (\<exists>tbl. avslots h = Some tbl \<and> length tbl = unat (nslot h) \<and> 0 < nslot h \<and> unat (nslot h) \<le> 2 ^ 20 \<and>
        avmask h = nslot h - 1 \<and>
        (\<forall>i < length tbl. av_sorted (tbl ! i) \<and> (\<forall>n \<in> set (tbl ! i). av_home h (nkey n) = i)) \<and>
        distinct (map naddr (concat tbl)) \<and> (\<forall>n \<in> set (concat tbl). naddr n < anext h) \<and>
        avnel h = of_nat (length (concat tbl)))"

text \<open>The chain of a key.\<close>

definition av_chain :: "avtab \<Rightarrow> avtab_key \<Rightarrow> avtab_node list" where
  "av_chain h key = (case avslots h of None \<Rightarrow> [] | Some tbl \<Rightarrow> tbl ! av_home h key)"

lemma avtab_wfE:
  assumes "avtab_wf h"
  obtains tbl where "avslots h = Some tbl" "length tbl = unat (nslot h)" "0 < nslot h"
    "unat (nslot h) \<le> 2 ^ 20" "avmask h = nslot h - 1"
    "\<And>i. i < length tbl \<Longrightarrow> av_sorted (tbl ! i)"
    "\<And>i n. i < length tbl \<Longrightarrow> n \<in> set (tbl ! i) \<Longrightarrow> av_home h (nkey n) = i"
    "distinct (map naddr (concat tbl))" "\<And>n. n \<in> set (concat tbl) \<Longrightarrow> naddr n < anext h"
    "avnel h = of_nat (length (concat tbl))"
  using assms unfolding avtab_wf_def by blast

lemma minus_one_less: "0 < (w :: u32) \<Longrightarrow> w - 1 < w"
  by (simp add: word_less_nat_alt unat_minus_one unat_gt_0)

lemma avtab_hash_le: "avtab_hash key msk \<le> msk"
  unfolding avtab_hash_def Let_def by (rule word_and_le1)

lemma av_home_less:
  assumes "avmask h = nslot h - 1" and "0 < nslot h"
  shows "av_home h key < unat (nslot h)"
  using avtab_hash_le [of key "avmask h"] minus_one_less [OF assms(2)] assms(1)
  by (simp add: av_home_def word_less_nat_alt word_le_nat_alt)

lemma av_slot_home:
  assumes "avtab_wf h" and "avslots h = Some tbl"
  shows "av_slot tbl key (avmask h) = Inr (av_home h key)" and "av_home h key < length tbl"
proof -
  from assms(1) show less: "av_home h key < length tbl"
    by (rule avtab_wfE) (use assms(2) av_home_less in auto)
  have "unat (nslot h) \<le> 2 ^ 20" "length tbl = unat (nslot h)"
    using assms by (auto simp: avtab_wf_def)
  with less have "sint (avtab_hash key (avmask h)) = int (av_home h key)"
    by (intro sint_small) (auto simp: av_home_def)
  with less show "av_slot tbl key (avmask h) = Inr (av_home h key)"
    by (simp add: av_slot_def)
qed

lemma av_chain_sorted:
  assumes "avtab_wf h"
  shows "av_sorted (av_chain h key)"
proof -
  obtain tbl where "avslots h = Some tbl" "av_sorted (tbl ! av_home h key)"
    using assms av_slot_home(2) [OF assms] by (elim avtab_wfE) blast
  then show ?thesis by (simp add: av_chain_def)
qed

text \<open>The nodes of the table with the types and class of a key are in its chain.\<close>

lemma avtab_hash_rank: "key_rank k = key_rank k' \<Longrightarrow> av_home h k = av_home h k'"
  by (simp add: key_rank_eq av_home_def avtab_hash_def)

lemma av_chain_matches:
  assumes "avtab_wf h"
  shows "n \<in> set (av_nodes h) \<and> key_rank (nkey n) = key_rank key \<longleftrightarrow>
    n \<in> set (av_chain h key) \<and> key_rank (nkey n) = key_rank key"
proof -
  from assms obtain tbl where tbl: "avslots h = Some tbl"
    and home: "\<And>i n. i < length tbl \<Longrightarrow> n \<in> set (tbl ! i) \<Longrightarrow> av_home h (nkey n) = i"
    by (elim avtab_wfE) blast
  note less = av_slot_home(2) [OF assms tbl]
  have "n \<in> set (tbl ! av_home h key)" if "n \<in> set (concat tbl)" "key_rank (nkey n) = key_rank key"
  proof -
    from that(1) obtain i where i: "i < length tbl" "n \<in> set (tbl ! i)"
      by (auto simp: in_set_conv_nth [of _ tbl])
    with home [OF i] avtab_hash_rank [OF that(2), of h] show ?thesis by simp
  qed
  then show ?thesis
    using less by (auto simp: av_nodes_def av_chain_def tbl)
qed

lemma search_node_chain:
  assumes "avtab_wf h"
  shows "avtab_search_node h key = Inr (scan_loop key (spec_of key) (av_chain h key))"
  using assms av_slot_home [OF assms] by (elim avtab_wfE) (simp add: avtab_search_node_def av_chain_def)

lemma search_find:
  assumes "avtab_wf h"
  shows "avtab_search h key =
    Inr (map_option ndatum (find (node_matches key (spec_of key)) (av_chain h key)))"
proof -
  have find: "find P c = (case dropWhile (\<lambda>n. \<not> P n) c of [] \<Rightarrow> None | n # _ \<Rightarrow> Some n)"
    for P and c :: "avtab_node list" by (induction c) auto
  have push: "(case l of [] \<Rightarrow> Inr None | n # _ \<Rightarrow> Inr (Some (ndatum n))) =
      (Inr (map_option ndatum (case l of [] \<Rightarrow> None | n # _ \<Rightarrow> Some n)) :: avtab_datum option result)" for l
    by (cases l) simp_all
  obtain tbl where tbl: "avslots h = Some tbl" using assms by (rule avtab_wfE)
  have "avtab_search h key =
      (case scan_loop key (spec_of key) (av_chain h key) of [] \<Rightarrow> Inr None | n # _ \<Rightarrow> Inr (Some (ndatum n)))"
    using av_slot_home(1) [OF assms tbl] by (simp add: avtab_search_def av_chain_def tbl)
  also have "\<dots> = Inr (map_option ndatum (find (node_matches key (spec_of key)) (av_chain h key)))"
    unfolding find scan_loop_dropWhile [OF av_chain_sorted [OF assms]] by (rule push)
  finally show ?thesis .
qed

subsection \<open>Insertion\<close>

text \<open>The datum that the new node gets.\<close>

definition stored_datum :: "avtab_key \<Rightarrow> avtab_datum \<Rightarrow> avtab_datum" where
  "stored_datum key datum =
     (if specified key AND AVTAB_XPERMS \<noteq> 0
      then \<lparr>avdata = 0,
            xperms = Some (case xperms datum of
                             Some x \<Rightarrow> x
                           | None \<Rightarrow> \<lparr>xspecified = 0, driver = 0, perms = replicate 8 0\<rparr>)\<rparr>
      else datum)"

definition new_node :: "avtab \<Rightarrow> avtab_key \<Rightarrow> avtab_datum \<Rightarrow> avtab_node" where
  "new_node h key datum = \<lparr>naddr = anext h, nkey = key, ndatum = stored_datum key datum, parse_context = 0, merged = 0\<rparr>"

lemma avtab_insert_node_eq:
  "avtab_insert_node m h tbl i prev cur key datum =
     (if malloc (at_site 0 m) \<and> (specified key AND AVTAB_XPERMS \<noteq> 0 \<longrightarrow> malloc (at_site 1 m))
      then Some (h\<lparr>avslots := Some (tbl[i := rev prev @ new_node h key datum # cur]), avnel := avnel h + 1,
                   anext := anext h + 1\<rparr>, anext h)
      else None)"
  by (simp add: avtab_insert_node_def stored_datum_def new_node_def Let_def)

lemma concat_update:
  assumes "i < length tbl" and "tbl ! i = a @ b"
  shows "set (concat (tbl[i := a @ x # b])) = insert x (set (concat tbl))"
    and "length (concat (tbl[i := a @ x # b])) = Suc (length (concat tbl))"
    and "distinct (map f (concat (tbl[i := a @ x # b]))) \<longleftrightarrow>
         f x \<notin> f ` set (concat tbl) \<and> distinct (map f (concat tbl))"
proof -
  have "tbl = take i tbl @ (a @ b) # drop (Suc i) tbl" using assms by (metis id_take_nth_drop)
  then have old: "concat tbl = concat (take i tbl) @ (a @ b) @ concat (drop (Suc i) tbl)"
    by (metis concat.simps(2) concat_append)
  have new: "concat (tbl[i := a @ x # b]) = concat (take i tbl) @ (a @ x # b) @ concat (drop (Suc i) tbl)"
    using assms(1) by (simp add: upd_conv_take_nth_drop)
  show "set (concat (tbl[i := a @ x # b])) = insert x (set (concat tbl))" unfolding old new by auto
  show "length (concat (tbl[i := a @ x # b])) = Suc (length (concat tbl))" unfolding old new by simp
  show "distinct (map f (concat (tbl[i := a @ x # b]))) \<longleftrightarrow>
         f x \<notin> f ` set (concat tbl) \<and> distinct (map f (concat tbl))"
    unfolding old new by auto
qed

lemma insert_node_spec:
  assumes wf: "avtab_wf h" and tbl: "avslots h = Some tbl" and split: "av_chain h key = rev prev @ cur"
    and le: "\<forall>n \<in> set prev. key_rank (nkey n) \<le> key_rank key"
    and ge: "\<forall>n \<in> set cur. key_rank key \<le> key_rank (nkey n)"
    and h': "h' = h\<lparr>avslots := Some (tbl[av_home h key := rev prev @ new_node h key datum # cur]),
                    avnel := avnel h + 1, anext := anext h + 1\<rparr>"
  shows "avtab_wf h'" and "set (av_nodes h') = insert (new_node h key datum) (set (av_nodes h))"
    and "av_chain h' k = (if av_home h k = av_home h key then rev prev @ new_node h key datum # cur else av_chain h k)"
proof -
  let ?i = "av_home h key" and ?new = "new_node h key datum"
  note less = av_slot_home(2) [OF wf tbl, of key]
  have home: "av_home h' = av_home h" by (simp add: h' av_home_def fun_eq_iff)
  have chain: "tbl ! ?i = rev prev @ cur" using split by (simp add: av_chain_def tbl)
  note upd = concat_update(1,2) [OF less chain, where x = ?new] concat_update(3) [OF less chain, where x = ?new and f = naddr]
  show "set (av_nodes h') = insert ?new (set (av_nodes h))"
    using upd(1) by (simp add: av_nodes_def h' tbl)
  show "av_chain h' k = (if av_home h k = ?i then rev prev @ ?new # cur else av_chain h k)"
    unfolding av_chain_def home using less by (simp add: h' tbl nth_list_update)
  have sorted: "av_sorted (rev prev @ ?new # cur)"
    using av_chain_sorted [OF wf, of key] le ge by (auto simp: split new_node_def)
  have nkey: "nkey ?new = key" and naddr: "naddr ?new = anext h" by (simp_all add: new_node_def)
  have old: "length tbl = unat (nslot h)" "0 < nslot h" "unat (nslot h) \<le> 2 ^ 20" "avmask h = nslot h - 1"
    "\<forall>i < length tbl. av_sorted (tbl ! i) \<and> (\<forall>n \<in> set (tbl ! i). av_home h (nkey n) = i)"
    "distinct (map naddr (concat tbl))" "\<forall>n \<in> set (concat tbl). naddr n < anext h"
    "avnel h = of_nat (length (concat tbl))"
    using wf unfolding avtab_wf_def tbl by auto
  have chains: "av_sorted (tbl[?i := rev prev @ ?new # cur] ! i) \<and>
      (\<forall>n \<in> set (tbl[?i := rev prev @ ?new # cur] ! i). av_home h (nkey n) = i)" if "i < length tbl" for i
    using old(5) that sorted nkey chain less by (cases "i = ?i") fastforce+
  have "naddr ?new \<notin> naddr ` set (concat tbl)" using old(7) naddr by (metis image_iff less_irrefl)
  then have "distinct (map naddr (concat (tbl[?i := rev prev @ ?new # cur])))" using upd(3) old(6) by simp
  moreover have "\<forall>n \<in> set (concat (tbl[?i := rev prev @ ?new # cur])). naddr n < anext h + 1"
    unfolding upd(1) using old(7) naddr by (auto intro: less_SucI)
  moreover have "avnel h + 1 = of_nat (length (concat (tbl[?i := rev prev @ ?new # cur])))"
    unfolding upd(2) using old(8) by simp
  ultimately show "avtab_wf h'"
    using old(1-4) chains unfolding avtab_wf_def home by (simp add: h')
qed

lemma spec_of_and: "spec_of k AND specified k = spec_of k"
  by (auto simp: spec_of_def bit_eq_iff bit_simps)

lemma find_skip: "\<forall>n \<in> set a. \<not> P n \<Longrightarrow> find P (a @ x # b) = (if P x then Some x else find P b)"
  by (induction a) auto

lemma find_other: "\<not> P x \<Longrightarrow> find P (a @ x # b) = find P (a @ b)"
  by (induction a) auto

lemma avtab_search_other:
  assumes wf: "avtab_wf h" "avtab_wf h'"
    and chain: "\<And>k. av_chain h' k = (if av_home h k = av_home h key then rev prev @ new # cur else av_chain h k)"
    and split: "av_chain h key = rev prev @ cur" and other: "\<not> node_matches k (spec_of k) new"
  shows "avtab_search h' k = avtab_search h k"
proof (cases "av_home h k = av_home h key")
  case True
  then have "av_chain h k = rev prev @ cur" unfolding split [symmetric] by (cases "avslots h") (simp_all add: av_chain_def)
  with True other show ?thesis by (simp add: search_find wf chain find_other)
next
  case False
  then show ?thesis by (simp add: search_find wf chain)
qed

lemma insert_search_spec:
  assumes wf: "avtab_wf h"
  shows "avtab_insert m h key d = Inr h' \<Longrightarrow>
      avtab_wf h' \<and> set (av_nodes h') = insert (new_node h key d) (set (av_nodes h)) \<and>
      (spec_of key \<noteq> 0 \<longrightarrow> avtab_search h' key = Inr (Some (stored_datum key d))) \<and>
      (\<forall>k. \<not> node_matches k (spec_of k) (new_node h key d) \<longrightarrow> avtab_search h' k = avtab_search h k)"
    and "avtab_insert m h key d = Inl EEXIST \<longleftrightarrow>
      (\<exists>n \<in> set (av_nodes h). node_matches key (spec_of key) n) \<and> spec_of key AND AVTAB_XPERMS = 0"
    and "avtab_insert m h key d = Inl e \<Longrightarrow> e = EEXIST \<or> e = ENOMEM \<and> (\<exists>s. \<not> m s)"
proof -
  obtain tbl where tbl: "avslots h = Some tbl" using wf by (rule avtab_wfE)
  note slot = av_slot_home [OF wf tbl, of key]
  have chain_tbl: "tbl ! av_home h key = av_chain h key" by (simp add: av_chain_def tbl)
  have matches: "(\<exists>n \<in> set (av_nodes h). node_matches key (spec_of key) n) \<longleftrightarrow>
      (\<exists>n \<in> set (av_chain h key). node_matches key (spec_of key) n)"
    unfolding node_matches_rank using av_chain_matches [OF wf, of _ key] by metis
  have ins: "avtab_insert m h key d =
      rbind (insert_loop key (spec_of key) [] (av_chain h key)) (\<lambda>(prev, cur).
        case avtab_insert_node m h tbl (av_home h key) prev cur key d of
          None \<Rightarrow> Inl ENOMEM | Some (h', _) \<Rightarrow> Inr h')"
    by (simp add: avtab_insert_def tbl slot chain_tbl)
  note loop = insert_loop_cases [of "[]" "av_chain h key" key "spec_of key", simplified, OF av_chain_sorted [OF wf]]
  show "avtab_insert m h key d = Inl EEXIST \<longleftrightarrow>
      (\<exists>n \<in> set (av_nodes h). node_matches key (spec_of key) n) \<and> spec_of key AND AVTAB_XPERMS = 0"
    using loop matches by (auto simp: ins avtab_insert_node_eq split: if_splits)
  show "e = EEXIST \<or> e = ENOMEM \<and> (\<exists>s. \<not> m s)" if "avtab_insert m h key d = Inl e"
    using loop that by (auto simp: ins avtab_insert_node_eq malloc_def at_site_def split: if_splits)
  assume res: "avtab_insert m h key d = Inr h'"
  then have "insert_loop key (spec_of key) [] (av_chain h key) \<noteq> Inl EEXIST" by (auto simp: ins)
  with loop obtain prev cur where l: "insert_loop key (spec_of key) [] (av_chain h key) = Inr (prev, cur)"
    and split: "av_chain h key = rev prev @ cur"
    and le: "\<forall>n \<in> set prev. key_rank (nkey n) \<le> key_rank key"
    and ge: "\<forall>n \<in> set cur. key_rank key \<le> key_rank (nkey n)"
    and nomatch: "\<forall>n \<in> set prev. \<not> node_matches key (spec_of key) n"
    by fastforce
  have h': "h' = h\<lparr>avslots := Some (tbl[av_home h key := rev prev @ new_node h key d # cur]),
                avnel := avnel h + 1, anext := anext h + 1\<rparr>"
    using res by (auto simp: ins l avtab_insert_node_eq split: if_splits)
  note spec = insert_node_spec [OF wf tbl split le ge h']
  have "avtab_search h' key = Inr (Some (stored_datum key d))" if "spec_of key \<noteq> 0"
    using that nomatch
    by (simp add: search_find spec(1,3) find_skip node_matches_def new_node_def spec_of_and)
  moreover have "avtab_search h' k = avtab_search h k" if "\<not> node_matches k (spec_of k) (new_node h key d)" for k
    using avtab_search_other [OF wf spec(1) spec(3) split that] .
  ultimately show "avtab_wf h' \<and> set (av_nodes h') = insert (new_node h key d) (set (av_nodes h)) \<and>
      (spec_of key \<noteq> 0 \<longrightarrow> avtab_search h' key = Inr (Some (stored_datum key d))) \<and>
      (\<forall>k. \<not> node_matches k (spec_of k) (new_node h key d) \<longrightarrow> avtab_search h' k = avtab_search h k)"
    using spec(1,2) by blast
qed

lemma avtab_insert_total:
  assumes "avtab_wf h"
  shows "avtab_insert no_oom h key d = Inl EEXIST \<or> (\<exists>h'. avtab_insert no_oom h key d = Inr h')"
  using insert_search_spec(3) [OF assms, of no_oom key d]
  by (cases "avtab_insert no_oom h key d") (auto simp: no_oom_def)

lemma nonunique_loop_spec:
  assumes "av_sorted (rev prev @ c)" and "\<forall>n \<in> set prev. key_rank (nkey n) \<le> key_rank key"
    and "nonunique_loop key sp prev c = (p, cur)"
  shows "rev prev @ c = rev p @ cur \<and> (\<forall>n \<in> set p. key_rank (nkey n) \<le> key_rank key) \<and>
    (\<forall>n \<in> set cur. key_rank key \<le> key_rank (nkey n))"
  using assms
proof (induction key sp prev c rule: nonunique_loop.induct)
  case (2 key sp prev n rest)
  show ?case
  proof (cases "node_matches key sp n \<or> node_behind key n")
    case True
    then have "key_rank key \<le> key_rank (nkey n)" by (auto simp: node_matches_rank node_behind_rank)
    with True 2(2-4) show ?thesis by (auto intro: order_trans)
  next
    case False
    then have "\<forall>b \<in> set (n # prev). key_rank (nkey b) \<le> key_rank key"
      using 2(3) by (auto simp: node_behind_rank)
    with False 2(1) 2(2,4) show ?thesis by auto
  qed
qed auto

lemma insert_nonunique_spec:
  assumes wf: "avtab_wf h" and res: "avtab_insert_nonunique m h key d = Inr (Some (h', a))"
  shows "avtab_wf h' \<and> a = anext h \<and> anext h' = Suc (anext h) \<and>
    set (av_nodes h') = insert (new_node h key d) (set (av_nodes h))"
proof -
  obtain tbl where tbl: "avslots h = Some tbl" using wf by (rule avtab_wfE)
  note slot = av_slot_home [OF wf tbl, of key]
  have chain_tbl: "tbl ! av_home h key = av_chain h key" by (simp add: av_chain_def tbl)
  obtain prev cur where loop: "nonunique_loop key (spec_of key) [] (av_chain h key) = (prev, cur)" by force
  note l = nonunique_loop_spec [OF _ _ loop, simplified, OF av_chain_sorted [OF wf]]
  have "avtab_insert_node m h tbl (av_home h key) prev cur key d = Some (h', a)"
    using res by (simp add: avtab_insert_nonunique_def tbl slot chain_tbl loop)
  then have h': "h' = h\<lparr>avslots := Some (tbl[av_home h key := rev prev @ new_node h key d # cur]),
      avnel := avnel h + 1, anext := anext h + 1\<rparr>" and a: "a = anext h"
    by (auto simp: avtab_insert_node_eq split: if_splits)
  from insert_node_spec [OF wf tbl _ _ _ h'] l a show ?thesis by (auto simp: h')
qed

subsection \<open>Allocation\<close>

fun bitlen :: "nat \<Rightarrow> nat" where
  "bitlen n = (if n = 0 then 0 else Suc (bitlen (n div 2)))"

declare bitlen.simps [simp del]

lemma bitlen_bounds: "n \<noteq> 0 \<Longrightarrow> 2 ^ (bitlen n - 1) \<le> n \<and> n < 2 ^ bitlen n \<and> 0 < bitlen n"
proof (induction n rule: bitlen.induct)
  case (1 n)
  show ?case
  proof (cases "n div 2 = 0")
    case True
    with 1(2) have "n = 1" by simp
    then show ?thesis by (simp add: bitlen.simps)
  next
    case False
    with 1 have IH: "2 ^ (bitlen (n div 2) - 1) \<le> n div 2" "n div 2 < 2 ^ bitlen (n div 2)"
      "0 < bitlen (n div 2)" by auto
    have b: "bitlen n = Suc (bitlen (n div 2))" using 1(2) by (simp add: bitlen.simps)
    have "(2 :: nat) ^ bitlen (n div 2) = 2 * 2 ^ (bitlen (n div 2) - 1)"
      using IH(3) by (simp flip: power_Suc)
    moreover define x where "x = (2 :: nat) ^ (bitlen (n div 2) - 1)"
    ultimately have "2 * x \<le> n" "n < 4 * x" using IH by linarith+
    then show ?thesis using IH(3) \<open>_ = 2 * 2 ^ _\<close> by (simp add: b x_def)
  qed
qed

lemma shift_loop_eq: "shift_loop w sh = sh + of_nat (bitlen (unat w))"
proof (induction w sh rule: shift_loop.induct)
  case (1 work shift)
  show ?case
  proof (cases "work = 0")
    case True
    then show ?thesis by (simp add: shift_loop.simps bitlen.simps)
  next
    case False
    then have "bitlen (unat work) = Suc (bitlen (unat (drop_bit 1 work)))"
      by (subst bitlen.simps) (simp add: unat_eq_0 drop_bit_eq_div unat_div)
    with False 1 show ?thesis by (simp add: shift_loop.simps [of work])
  qed
qed

lemma bitlen_le_32: "bitlen (unat (w :: u32)) \<le> 32"
proof (cases "unat w = 0")
  case False
  then have "2 ^ (bitlen (unat w) - 1) < (2 :: nat) ^ 32"
    using bitlen_bounds [of "unat w"] unat_less_2p32 [of w] by linarith
  then have "bitlen (unat w) - 1 < 32" by (rule power_less_imp_less_exp [rotated]) simp
  then show ?thesis by simp
qed (simp add: bitlen.simps)

lemma unat_pow2: "j < 32 \<Longrightarrow> unat (2 ^ j :: u32) = 2 ^ j"
proof -
  assume "j < 32"
  then have "(2 :: nat) ^ j < 2 ^ 32" by (rule power_strict_increasing) simp
  then have "unat (of_nat (2 ^ j) :: u32) = 2 ^ j" by (subst unat_of_nat) simp
  then show ?thesis by simp
qed

text \<open>The exponent of the number of slots.\<close>

definition slot_bits :: "u32 \<Rightarrow> nat" where
  "slot_bits nrules =
     min 20 (if bitlen (unat nrules) > 2 then bitlen (unat nrules) - 2 else bitlen (unat nrules))"

lemma avtab_alloc_eq:
  assumes "nrules \<noteq> 0"
  shows "avtab_alloc m h nrules =
    (if malloc m
     then Inr (h\<lparr>avslots := Some (replicate (2 ^ slot_bits nrules) []), avnel := 0,
                 nslot := 2 ^ slot_bits nrules, avmask := 2 ^ slot_bits nrules - 1\<rparr>)
     else Inl STATUS_ERR)"
proof -
  define b where "b = bitlen (unat nrules)"
  have b32: "b \<le> 32" unfolding b_def by (rule bitlen_le_32)
  define k where "k = (if b > 2 then b - 2 else b)"
  have k30: "k \<le> 30" using b32 by (auto simp: k_def)
  have ub: "unat (of_nat b :: u32) = b" using b32 by (simp add: unat_of_nat)
  have shift: "unat (if (of_nat b :: u32) > 2 then of_nat b - 2 else of_nat b :: u32) = k"
    using b32 ub by (auto simp: k_def word_less_nat_alt unat_sub word_le_nat_alt)
  have pow: "unat (2 ^ j :: u32) = 2 ^ j" if "j \<le> 30" for j
    using that by (intro unat_pow2) simp
  have cap: "(if (2 ^ k :: u32) > MAX_AVTAB_HASH_BUCKETS then MAX_AVTAB_HASH_BUCKETS else 2 ^ k) = 2 ^ min 20 k"
  proof (cases "20 < k")
    case True
    then have "(2 :: nat) ^ 20 < 2 ^ k" by (rule power_strict_increasing) simp
    then have "MAX_AVTAB_HASH_BUCKETS < (2 ^ k :: u32)"
      using pow [OF k30] by (simp add: MAX_AVTAB_HASH_BUCKETS_def word_less_nat_alt)
    with True show ?thesis by (simp add: MAX_AVTAB_HASH_BUCKETS_def min_def)
  next
    case False
    then have "(2 :: nat) ^ k \<le> 2 ^ 20" by (intro power_increasing) simp_all
    then have "\<not> MAX_AVTAB_HASH_BUCKETS < (2 ^ k :: u32)"
      using pow [OF k30] by (simp add: MAX_AVTAB_HASH_BUCKETS_def word_less_nat_alt)
    with False show ?thesis by (simp add: min_def)
  qed
  have "slot_bits nrules = min 20 k" by (simp add: slot_bits_def k_def b_def)
  then show ?thesis
    using assms cap pow [of "min 20 k"]
    by (cases "MAX_AVTAB_HASH_BUCKETS < (2 ^ k :: u32)")
      (simp_all add: avtab_alloc_def Let_def shift_loop_eq b_def [symmetric] shift)
qed

lemma avtab_alloc_wf:
  assumes "nrules \<noteq> 0" and "avtab_alloc m h nrules = Inr h'"
  shows "avtab_wf h'" and "av_nodes h' = []"
proof -
  have "concat (replicate j []) = []" for j by (induction j) simp_all
  moreover have "unat (2 ^ slot_bits nrules :: u32) = 2 ^ slot_bits nrules"
    by (intro unat_pow2) (simp add: slot_bits_def)
  moreover have "(2 :: nat) ^ slot_bits nrules \<le> 2 ^ 20" by (intro power_increasing) (simp_all add: slot_bits_def)
  ultimately show "avtab_wf h'" "av_nodes h' = []"
    using assms(2) by (auto simp: avtab_alloc_eq [OF assms(1)] avtab_wf_def av_nodes_def word_less_nat_alt
        split: if_splits)
qed

subsection \<open>Reading\<close>

text \<open>What the insertion callback preserves, reading an item preserves.\<close>

lemma avtab_read_item_invar:
  assumes step: "\<And>a k d p a' p'. I a p \<Longrightarrow> insertf a k d p = Inr (a', p') \<Longrightarrow> I a' p'"
    and start: "I a p" and res: "avtab_read_item stale fp vers a insertf p = Inr (fp', a', p')"
  shows "I a' p'"
proof (cases "vers < POLICYDB_VERSION_AVTAB")
  case True
  with res obtain val enabled key buf items where
    loop: "for_each (old_spec_step insertf val enabled key buf) spec_order (4, a, p) = Inr (items, a', p')"
    by (auto simp: avtab_read_item_def avtab_read_item_old_def rbind_eq_Inr_iff Let_def split: if_splits)
  have "(\<lambda>_ (i, a, p). I a p) spec_order (items, a', p')"
  proof (rule for_each_invar [OF loop])
    show "(\<lambda>_ (i, a, p). I a p) [] (4 :: nat, a, p)" using start by simp
  next
    fix ys y zs and s s' :: "nat \<times> avtab \<times> 'a"
    assume "(\<lambda>_ (i, a, p). I a p) ys s" and "old_spec_step insertf val enabled key buf y s = Inr s'"
    then show "(\<lambda>_ (i, a, p). I a p) (ys @ [y]) s'"
      using step by (auto simp: old_spec_step_def rbind_eq_Inr_iff split: if_splits)
  qed
  then show ?thesis by simp
next
  case False
  with res start step show ?thesis
    by (auto simp: avtab_read_item_def rbind_eq_Inr_iff Let_def split: if_splits)
qed

lemma avtab_read_Inr:
  assumes "avtab_read m stale a fp vers = Inr (fp', a')"
  shows "avtab_wf a'"
proof -
  obtain n fp1 a1 where n: "n \<noteq> 0" and alloc: "avtab_alloc (at_site 0 m) a n = Inr a1"
    and loop: "for_each
        (\<lambda>i (fp, a). rbind
           (avtab_read_item stale fp vers a (avtab_insertf (at_site (unat i) (at_site 1 m))) ())
           (\<lambda>(fp, a, _). Inr (fp, a))) (upto32 n) (fp1, a1) = Inr (fp', a')"
    using assms by (auto simp: avtab_read_def rbind_eq_Inr_iff Let_def split: sum.splits err.splits if_splits)
  have "(\<lambda>_ (fp, a). avtab_wf a) (upto32 n) (fp', a')"
  proof (rule for_each_invar [OF loop])
    show "(\<lambda>_ (fp, a). avtab_wf a) [] (fp1, a1)" using avtab_alloc_wf(1) [OF n alloc] by simp
  next
    fix ys zs and i :: u32 and s s' :: "policy_file \<times> avtab"
    assume wf: "(\<lambda>_ (fp, a). avtab_wf a) ys s"
      and "(\<lambda>(fp, a). rbind
           (avtab_read_item stale fp vers a (avtab_insertf (at_site (unat i) (at_site 1 m))) ())
           (\<lambda>(fp, a, _). Inr (fp, a))) s = Inr s'"
    then obtain fp2 a2 fp3 a3 where s: "s = (fp2, a2)" "s' = (fp3, a3)"
      and item: "avtab_read_item stale fp2 vers a2 (avtab_insertf (at_site (unat i) (at_site 1 m))) ()
        = Inr (fp3, a3, ())"
      by (auto simp: rbind_eq_Inr_iff)
    have "avtab_wf a3"
      using wf s insert_search_spec(1)
      by (intro avtab_read_item_invar [OF _ _ item, where I = "\<lambda>a _. avtab_wf a"])
        (auto simp: avtab_insertf_def rbind_eq_Inr_iff)
    then show "(\<lambda>_ (fp, a). avtab_wf a) (ys @ [i]) s'" by (simp add: s)
  qed
  then show ?thesis by simp
qed

end
