(* ===== verification/Mls.thy ===== *)
theory Mls
  imports Ebitmap_Algebra
begin

text \<open>
  MLS levels and ranges, \<^verbatim>\<open>include/sepol/policydb/mls_types.h\<close> and the semantic levels of
  \<^verbatim>\<open>libsepol/src/mls.c\<close>, and the security contexts of \<^verbatim>\<open>include/sepol/policydb/context.h\<close>.  The
  dominance relation between levels is a partial order; it is presented as an interface, and
  ranges, containment and the between test are derived from it.
\<close>

section \<open>Levels and ranges\<close>

record mls_level =
  sens :: u32
  cat :: ebitmap

text \<open>The two elements of the array \<^verbatim>\<open>level\<close> are \<open>low\<close> and \<open>high\<close>.\<close>

record mls_range =
  low :: mls_level
  high :: mls_level

definition mls_level_init :: mls_level where
  "mls_level_init = \<lparr>sens = 0, cat = ebitmap_init\<rparr>"

definition mls_level_cpy :: "alloc \<Rightarrow> mls_level \<Rightarrow> mls_level result" where
  "mls_level_cpy m src =
     (case ebitmap_cpy m (cat src) of
        Inl _ \<Rightarrow> Inl STATUS_ERR
      | Inr c \<Rightarrow> Inr \<lparr>sens = sens src, cat = c\<rparr>)"

definition mls_level_destroy :: "mls_level option \<Rightarrow> mls_level option" where
  "mls_level_destroy lp = (case lp of None \<Rightarrow> None | Some _ \<Rightarrow> Some mls_level_init)"

definition mls_level_eq :: "mls_level \<Rightarrow> mls_level \<Rightarrow> bool" where
  "mls_level_eq l1 l2 \<longleftrightarrow> sens l1 = sens l2 \<and> ebitmap_cmp (cat l1) (cat l2)"

definition mls_level_dom :: "mls_level \<Rightarrow> mls_level \<Rightarrow> bool" where
  "mls_level_dom l1 l2 \<longleftrightarrow> sens l1 \<ge> sens l2 \<and> ebitmap_contains (cat l1) (cat l2)"

definition mls_level_incomp :: "mls_level \<Rightarrow> mls_level \<Rightarrow> bool" where
  "mls_level_incomp l1 l2 \<longleftrightarrow> \<not> mls_level_dom l1 l2 \<and> \<not> mls_level_dom l2 l1"

definition mls_level_between :: "mls_level \<Rightarrow> mls_level \<Rightarrow> mls_level \<Rightarrow> bool" where
  "mls_level_between l1 l2 l3 \<longleftrightarrow> mls_level_dom l1 l2 \<and> mls_level_dom l3 l1"

definition mls_range_contains :: "mls_range \<Rightarrow> mls_range \<Rightarrow> bool" where
  "mls_range_contains r1 r2 \<longleftrightarrow> mls_level_dom (low r2) (low r1) \<and> mls_level_dom (high r1) (high r2)"

definition mls_range_cpy :: "alloc \<Rightarrow> mls_range \<Rightarrow> mls_range result" where
  "mls_range_cpy m src =
     rbind (mls_level_cpy (at_site 0 m) (low src)) (\<lambda>l.
       rbind (mls_level_cpy (at_site 1 m) (high src)) (\<lambda>h. Inr \<lparr>low = l, high = h\<rparr>))"

definition mls_range_init :: mls_range where
  "mls_range_init = \<lparr>low = mls_level_init, high = mls_level_init\<rparr>"

definition mls_range_destroy :: "mls_range \<Rightarrow> mls_range" where
  "mls_range_destroy r =
     r\<lparr>low := the (mls_level_destroy (Some (low r))), high := the (mls_level_destroy (Some (high r)))\<rparr>"

definition mls_range_eq :: "mls_range \<Rightarrow> mls_range \<Rightarrow> bool" where
  "mls_range_eq r1 r2 \<longleftrightarrow> mls_level_eq (low r1) (low r2) \<and> mls_level_eq (high r1) (high r2)"

section \<open>Semantic levels\<close>

text \<open>A semantic category stands for the categories from \<open>slow\<close> to \<open>shigh\<close>; the linked list is a list.\<close>

record mls_semantic_cat =
  slow :: u32
  shigh :: u32

record mls_semantic_level =
  ssens :: u32
  scat :: "mls_semantic_cat list"

record mls_semantic_range =
  srlow :: mls_semantic_level
  srhigh :: mls_semantic_level

definition mls_semantic_level_init :: mls_semantic_level where
  "mls_semantic_level_init = \<lparr>ssens = 0, scat = []\<rparr>"

definition mls_semantic_range_init :: mls_semantic_range where
  "mls_semantic_range_init = \<lparr>srlow = mls_semantic_level_init, srhigh = mls_semantic_level_init\<rparr>"

fun semantic_cats_cpy :: "alloc \<Rightarrow> nat \<Rightarrow> mls_semantic_cat list \<Rightarrow> mls_semantic_cat list result" where
  "semantic_cats_cpy m i [] = Inr []"
| "semantic_cats_cpy m i (c # cs) =
     (if \<not> malloc (at_site i m) then Inl STATUS_ERR
      else rbind (semantic_cats_cpy m (Suc i) cs) (\<lambda>r. Inr (\<lparr>slow = slow c, shigh = shigh c\<rparr> # r)))"

definition mls_semantic_level_cpy :: "alloc \<Rightarrow> mls_semantic_level \<Rightarrow> mls_semantic_level result" where
  "mls_semantic_level_cpy m src =
     rbind (semantic_cats_cpy m 0 (scat src)) (\<lambda>cs. Inr \<lparr>ssens = ssens src, scat = cs\<rparr>)"

definition mls_semantic_range_cpy :: "alloc \<Rightarrow> mls_semantic_range \<Rightarrow> mls_semantic_range result" where
  "mls_semantic_range_cpy m src =
     rbind (mls_semantic_level_cpy (at_site 0 m) (srlow src)) (\<lambda>l.
       rbind (mls_semantic_level_cpy (at_site 1 m) (srhigh src)) (\<lambda>h. Inr \<lparr>srlow = l, srhigh = h\<rparr>))"

section \<open>Security contexts\<close>

record context_struct =
  user :: u32
  role :: u32
  type :: u32
  range :: mls_range

definition mls_context_init :: "context_struct \<Rightarrow> context_struct" where
  "mls_context_init c = c\<lparr>range := mls_range_init\<rparr>"

definition mls_context_cpy :: "alloc \<Rightarrow> context_struct \<Rightarrow> context_struct \<Rightarrow> context_struct result" where
  "mls_context_cpy m dst src =
     rbind (mls_range_cpy m (range src)) (\<lambda>r. Inr (dst\<lparr>range := r\<rparr>))"

definition mls_context_cmp :: "context_struct \<Rightarrow> context_struct \<Rightarrow> bool" where
  "mls_context_cmp c1 c2 \<longleftrightarrow>
     mls_level_eq (low (range c1)) (low (range c2)) \<and> mls_level_eq (high (range c1)) (high (range c2))"

definition mls_context_destroy :: "context_struct \<Rightarrow> context_struct" where
  "mls_context_destroy c = mls_context_init (c\<lparr>range := mls_range_destroy (range c)\<rparr>)"

definition context_init :: context_struct where
  "context_init = \<lparr>user = 0, role = 0, type = 0, range = mls_range_init\<rparr>"

definition context_cpy :: "alloc \<Rightarrow> context_struct \<Rightarrow> context_struct \<Rightarrow> context_struct result" where
  "context_cpy m dst src =
     mls_context_cpy m (dst\<lparr>user := user src, role := role src, type := type src\<rparr>) src"

definition context_destroy :: "context_struct \<Rightarrow> context_struct" where
  "context_destroy c = mls_context_destroy (c\<lparr>user := 0, role := 0, type := 0\<rparr>)"

definition context_cmp :: "context_struct \<Rightarrow> context_struct \<Rightarrow> bool" where
  "context_cmp c1 c2 \<longleftrightarrow>
     user c1 = user c2 \<and> role c1 = role c2 \<and> type c1 = type c2 \<and> mls_context_cmp c1 c2"

section \<open>Dominance\<close>

definition level_wf :: "mls_level \<Rightarrow> bool" where
  "level_wf l \<longleftrightarrow> ebitmap_wf (cat l)"

definition range_wf :: "mls_range \<Rightarrow> bool" where
  "range_wf r \<longleftrightarrow> level_wf (low r) \<and> level_wf (high r)"

definition context_wf :: "context_struct \<Rightarrow> bool" where
  "context_wf c \<longleftrightarrow> range_wf (range c)"

text \<open>
  The interface of a dominance relation: a partial order on the valid levels.  Ranges are pairs
  of levels; one range contains another when the other's low level dominates its low level and
  its high level dominates the other's.
\<close>

locale dominance =
  fixes ok :: "'l \<Rightarrow> bool"
    and dom :: "'l \<Rightarrow> 'l \<Rightarrow> bool"
  assumes dom_refl: "ok a \<Longrightarrow> dom a a"
    and dom_trans: "ok a \<Longrightarrow> ok b \<Longrightarrow> ok c \<Longrightarrow> dom a b \<Longrightarrow> dom b c \<Longrightarrow> dom a c"
    and dom_antisym: "ok a \<Longrightarrow> ok b \<Longrightarrow> dom a b \<Longrightarrow> dom b a \<Longrightarrow> a = b"
begin

lemma contains_refl: "ok l \<Longrightarrow> ok h \<Longrightarrow> dom l l \<and> dom h h"
  by (simp add: dom_refl)

lemma contains_trans:
  "ok l1 \<Longrightarrow> ok h1 \<Longrightarrow> ok l2 \<Longrightarrow> ok h2 \<Longrightarrow> ok l3 \<Longrightarrow> ok h3 \<Longrightarrow>
     dom l2 l1 \<and> dom h1 h2 \<Longrightarrow> dom l3 l2 \<and> dom h2 h3 \<Longrightarrow> dom l3 l1 \<and> dom h1 h3"
  using dom_trans [of l3 l2 l1] dom_trans [of h1 h2 h3] by blast

lemma contains_antisym:
  "ok l1 \<Longrightarrow> ok h1 \<Longrightarrow> ok l2 \<Longrightarrow> ok h2 \<Longrightarrow>
     dom l2 l1 \<and> dom h1 h2 \<Longrightarrow> dom l1 l2 \<and> dom h2 h1 \<Longrightarrow> l1 = l2 \<and> h1 = h2"
  by (auto intro: dom_antisym)

text \<open>A level between the ends of a contained range is between the ends of the containing one.\<close>

lemma between_mono:
  "ok l1 \<Longrightarrow> ok h1 \<Longrightarrow> ok l2 \<Longrightarrow> ok h2 \<Longrightarrow> ok x \<Longrightarrow>
     dom l2 l1 \<and> dom h1 h2 \<Longrightarrow> dom x l2 \<and> dom h2 x \<Longrightarrow> dom x l1 \<and> dom h1 x"
  using dom_trans [of x l2 l1] dom_trans [of h1 h2 x] by blast

end

section \<open>Lemmas\<close>

lemma mls_level_eq_iff [mls_simps]: "mls_level_eq l1 l2 \<longleftrightarrow> l1 = l2"
  by (auto simp: mls_level_eq_def ebitmap_cmp_iff intro: mls_level.equality)

lemma mls_level_dom_iff [mls_simps]:
  "level_wf l1 \<Longrightarrow> level_wf l2 \<Longrightarrow>
     mls_level_dom l1 l2 \<longleftrightarrow> sens l2 \<le> sens l1 \<and> ebits (cat l2) \<subseteq> ebits (cat l1)"
  by (simp add: mls_level_dom_def level_wf_def ebitmap_contains_iff)

interpretation lv: dominance level_wf mls_level_dom
proof unfold_locales
  fix a b c :: mls_level
  assume wf: "level_wf a"
  then show "mls_level_dom a a"
    by (simp add: mls_level_dom_def level_wf_def eb.covers_refl)
  assume "level_wf b"
  then show "mls_level_dom a b \<Longrightarrow> mls_level_dom b a \<Longrightarrow> a = b"
    using wf eb.covers_antisym [of "cat a" "cat b"]
    by (auto simp: mls_level_dom_def level_wf_def intro: mls_level.equality)
  assume "level_wf c"
  then show "mls_level_dom a b \<Longrightarrow> mls_level_dom b c \<Longrightarrow> mls_level_dom a c"
    using wf \<open>level_wf b\<close> eb.covers_trans [of "cat a" "cat b" "cat c"]
    by (auto simp: mls_level_dom_def level_wf_def)
qed

lemma mls_level_init_wf [simp]: "level_wf mls_level_init"
  by (simp add: level_wf_def mls_level_init_def)

lemma mls_range_init_wf [simp]: "range_wf mls_range_init"
  by (simp add: range_wf_def mls_range_init_def)

lemma mls_level_cpy_Inr: "mls_level_cpy m l = Inr l' \<Longrightarrow> l' = l"
  by (auto simp: mls_level_cpy_def split: sum.splits dest: ebitmap_cpy_Inr)

lemma mls_level_cpy_no_oom [simp]: "mls_level_cpy no_oom l = Inr l"
  by (simp add: mls_level_cpy_def)

lemma mls_range_cpy_Inr: "mls_range_cpy m r = Inr r' \<Longrightarrow> r' = r"
  by (auto simp: mls_range_cpy_def rbind_eq_Inr_iff dest!: mls_level_cpy_Inr)

lemma mls_range_cpy_no_oom [simp]: "mls_range_cpy no_oom r = Inr r"
  by (simp add: mls_range_cpy_def)

lemma semantic_cats_cpy_Inr: "semantic_cats_cpy m i cs = Inr cs' \<Longrightarrow> cs' = cs"
  by (induction m i cs arbitrary: cs' rule: semantic_cats_cpy.induct)
    (auto simp: rbind_eq_Inr_iff split: if_splits intro: mls_semantic_cat.equality)

lemma mls_semantic_level_cpy_Inr: "mls_semantic_level_cpy m l = Inr l' \<Longrightarrow> l' = l"
  by (auto simp: mls_semantic_level_cpy_def rbind_eq_Inr_iff dest!: semantic_cats_cpy_Inr)

lemma context_cpy_Inr: "context_cpy m dst src = Inr c \<Longrightarrow> c = src"
  by (auto simp: context_cpy_def mls_context_cpy_def rbind_eq_Inr_iff dest!: mls_range_cpy_Inr)

lemma context_cpy_no_oom [simp]: "context_cpy no_oom dst src = Inr src"
  by (simp add: context_cpy_def mls_context_cpy_def)

lemma context_cmp_iff [mls_simps]: "context_cmp c1 c2 \<longleftrightarrow> c1 = c2"
  by (auto simp: context_cmp_def mls_context_cmp_def mls_level_eq_iff
      intro: context_struct.equality mls_range.equality)

lemma context_destroy_init: "context_destroy c = context_init"
  by (simp add: context_destroy_def mls_context_destroy_def mls_context_init_def context_init_def)

section \<open>Properties\<close>

text \<open>
  C20: On levels with canonical category sets, \<^verbatim>\<open>mls_level_dom\<close> is the product of the order of the
  sensitivities with inclusion of the category sets, and a partial order; containment of ranges
  is reflexive and transitive, and a level between the ends of a contained range is between the
  ends of the containing range.
\<close>

theorem mls_dominance_order:
  assumes "range_wf r1" and "range_wf r2" and "range_wf r3" and "level_wf x"
  shows "(mls_level_dom (low r1) (low r2) \<longleftrightarrow>
      sens (low r2) \<le> sens (low r1) \<and> ebits (cat (low r2)) \<subseteq> ebits (cat (low r1))) \<and>
    mls_level_dom x x \<and>
    (mls_level_dom x (low r1) \<longrightarrow> mls_level_dom (low r1) x \<longrightarrow> x = low r1) \<and>
    mls_range_contains r1 r1 \<and>
    (mls_range_contains r1 r2 \<longrightarrow> mls_range_contains r2 r3 \<longrightarrow> mls_range_contains r1 r3) \<and>
    (mls_range_contains r1 r2 \<longrightarrow> mls_level_between x (low r2) (high r2) \<longrightarrow>
       mls_level_between x (low r1) (high r1))"
proof (intro conjI impI)
  have wf: "level_wf (low r1)" "level_wf (high r1)" "level_wf (low r2)" "level_wf (high r2)"
    "level_wf (low r3)" "level_wf (high r3)"
    using assms by (auto simp: range_wf_def)
  show "mls_level_dom (low r1) (low r2) \<longleftrightarrow>
      sens (low r2) \<le> sens (low r1) \<and> ebits (cat (low r2)) \<subseteq> ebits (cat (low r1))"
    using wf by (simp add: mls_level_dom_iff)
  show "mls_level_dom x x" using assms(4) by (rule lv.dom_refl)
  show "x = low r1" if "mls_level_dom x (low r1)" "mls_level_dom (low r1) x"
    using lv.dom_antisym [OF assms(4) wf(1) that] .
  show "mls_range_contains r1 r1"
    using lv.contains_refl [OF wf(1,2)] by (simp add: mls_range_contains_def)
  show "mls_range_contains r1 r3" if "mls_range_contains r1 r2" "mls_range_contains r2 r3"
    using lv.contains_trans [OF wf] that by (simp add: mls_range_contains_def)
  show "mls_level_between x (low r1) (high r1)"
    if "mls_range_contains r1 r2" "mls_level_between x (low r2) (high r2)"
    using lv.between_mono [OF wf(1-4) assms(4)] that
    by (simp add: mls_range_contains_def mls_level_between_def)
qed

theorem mls_dominance_order_witness:
  "mls_range_contains \<lparr>low = mls_level_init, high = \<lparr>sens = 3, cat = sample_bits\<rparr>\<rparr>
     \<lparr>low = mls_level_init, high = \<lparr>sens = 3, cat = sample_bits\<rparr>\<rparr>"
proof -
  have "level_wf \<lparr>sens = 3, cat = sample_bits\<rparr>" by (simp add: level_wf_def sample_bits_wf)
  then have "range_wf \<lparr>low = mls_level_init, high = \<lparr>sens = 3, cat = sample_bits\<rparr>\<rparr>"
    by (simp add: range_wf_def)
  from mls_dominance_order [OF this mls_range_init_wf mls_range_init_wf mls_level_init_wf]
  show ?thesis by blast
qed

end
