(* ===== verification/Sidtab.thy ===== *)
theory Sidtab
  imports Mls Hashtab
begin

text \<open>
  The table of security identifiers, \<^verbatim>\<open>libsepol/src/sidtab.c\<close>: 128 chains of contexts sorted by
  SID, and the next SID to hand out.  The table is shown to refine the generic hash table of
  \<open>Hashtab\<close> with the low seven bits of the SID as hash value, from which the laws of search,
  insertion and removal follow; allocation of SIDs for contexts is built on top.
\<close>

section \<open>Data\<close>

type_synonym sid = u32

definition SIDTAB_SIZE :: nat where
  "SIDTAB_SIZE = 2 ^ 7"

definition SIDTAB_HASH :: "sid \<Rightarrow> u32" where
  "SIDTAB_HASH s = s AND (of_nat SIDTAB_SIZE - 1)"

definition SECSID_NULL :: sid where "SECSID_NULL = 0"
definition SECINITSID_UNLABELED :: sid where "SECINITSID_UNLABELED = 3"

text \<open>The nodes of a chain are pairs of a SID and its context.\<close>

record sidtab =
  sidhtable :: "(sid \<times> context_struct) list list option"
  sidnel :: u32
  next_sid :: u32
  shutdown :: u8

section \<open>Operations\<close>

definition sepol_sidtab_init :: "alloc \<Rightarrow> sidtab result" where
  "sepol_sidtab_init m =
     (if \<not> malloc m then Inl ENOMEM
      else Inr \<lparr>sidhtable = Some (replicate SIDTAB_SIZE []), sidnel = 0, next_sid = 1, shutdown = 0\<rparr>)"

text \<open>The search loop: the nodes passed, last one first, and the list from the current node on.\<close>

fun sid_loop ::
  "sid \<Rightarrow> (sid \<times> context_struct) list \<Rightarrow> (sid \<times> context_struct) list
     \<Rightarrow> (sid \<times> context_struct) list \<times> (sid \<times> context_struct) list"
where
  "sid_loop s prev [] = (prev, [])"
| "sid_loop s prev (n # cur) = (if s > fst n then sid_loop s (n # prev) cur else (prev, n # cur))"

definition sepol_sidtab_insert :: "alloc \<Rightarrow> sidtab \<Rightarrow> sid \<Rightarrow> context_struct \<Rightarrow> sidtab result" where
  "sepol_sidtab_insert m s sd ctx =
     (case sidhtable s of
        None \<Rightarrow> Inl ENOMEM
      | Some tbl \<Rightarrow>
          let i = unat (SIDTAB_HASH sd) in
          rbind (idx tbl i) (\<lambda>chain.
            case sid_loop sd [] chain of (prev, cur) \<Rightarrow>
              if cur \<noteq> [] \<and> sd = fst (hd cur) then Inl EEXIST
              else if \<not> malloc (at_site 0 m) then Inl ENOMEM
              else case context_cpy (at_site 1 m) context_init ctx of
                Inl _ \<Rightarrow> Inl ENOMEM
              | Inr c \<Rightarrow>
                  Inr (s\<lparr>sidhtable := Some (tbl[i := rev prev @ (sd, c) # cur]), sidnel := sidnel s + 1,
                         next_sid := (if sd \<ge> next_sid s then sd + 1 else next_sid s)\<rparr>)))"

definition sepol_sidtab_remove :: "sidtab \<Rightarrow> sid \<Rightarrow> sidtab result" where
  "sepol_sidtab_remove s sd =
     (case sidhtable s of
        None \<Rightarrow> Inl ENOENT
      | Some tbl \<Rightarrow>
          let i = unat (SIDTAB_HASH sd) in
          rbind (idx tbl i) (\<lambda>chain.
            case sid_loop sd [] chain of
              (prev, []) \<Rightarrow> Inl ENOENT
            | (prev, n # rest) \<Rightarrow>
                if sd \<noteq> fst n then Inl ENOENT
                else Inr (s\<lparr>sidhtable := Some (tbl[i := rev prev @ rest]), sidnel := sidnel s - 1\<rparr>)))"

definition chain_search :: "(sid \<times> context_struct) list list \<Rightarrow> sid \<Rightarrow> context_struct option result" where
  "chain_search tbl sd =
     rbind (idx tbl (unat (SIDTAB_HASH sd))) (\<lambda>chain.
       case sid_loop sd [] chain of
         (_, []) \<Rightarrow> Inr None
       | (_, n # _) \<Rightarrow> if sd \<noteq> fst n then Inr None else Inr (Some (snd n)))"

text \<open>An unknown SID is mapped to the unlabeled one.\<close>

definition sepol_sidtab_search :: "sidtab \<Rightarrow> sid \<Rightarrow> context_struct option result" where
  "sepol_sidtab_search s sd =
     (case sidhtable s of
        None \<Rightarrow> Inr None
      | Some tbl \<Rightarrow>
          rbind (chain_search tbl sd) (\<lambda>r.
            case r of Some c \<Rightarrow> Inr (Some c) | None \<Rightarrow> chain_search tbl SECINITSID_UNLABELED))"

definition sepol_sidtab_map ::
  "sidtab \<Rightarrow> (sid \<Rightarrow> context_struct \<Rightarrow> 's \<Rightarrow> 's result) \<Rightarrow> 's \<Rightarrow> 's result"
where
  "sepol_sidtab_map s f args =
     (case sidhtable s of
        None \<Rightarrow> Inr args
      | Some tbl \<Rightarrow>
          for_each (\<lambda>i a. rbind (idx tbl i) (\<lambda>chain. for_each (\<lambda>n. f (fst n) (snd n)) chain a))
            [0..<SIDTAB_SIZE] args)"

text \<open>
  The callback of \<^verbatim>\<open>sepol_sidtab_map_remove_on_error\<close> may change the context in place; it returns
  whether it reported an error, the context and its arguments.
\<close>

fun sid_prune_chain ::
  "(sid \<Rightarrow> context_struct \<Rightarrow> 's \<Rightarrow> bool \<times> context_struct \<times> 's) \<Rightarrow> (sid \<times> context_struct) list \<Rightarrow> u32 \<Rightarrow> 's
     \<Rightarrow> (sid \<times> context_struct) list \<times> u32 \<times> 's"
where
  "sid_prune_chain f [] ne a = ([], ne, a)"
| "sid_prune_chain f (n # cur) ne a =
     (case f (fst n) (snd n) a of
        (True, _, a') \<Rightarrow> sid_prune_chain f cur (ne - 1) a'
      | (False, c, a') \<Rightarrow>
          (case sid_prune_chain f cur ne a' of (r, ne', a'') \<Rightarrow> ((fst n, c) # r, ne', a'')))"

definition sepol_sidtab_map_remove_on_error ::
  "sidtab \<Rightarrow> (sid \<Rightarrow> context_struct \<Rightarrow> 's \<Rightarrow> bool \<times> context_struct \<times> 's) \<Rightarrow> 's \<Rightarrow> (sidtab \<times> 's) result"
where
  "sepol_sidtab_map_remove_on_error s f args =
     (case sidhtable s of
        None \<Rightarrow> Inr (s, args)
      | Some tbl \<Rightarrow>
          rbind
            (for_each (\<lambda>i (tbl, ne, a). rbind (idx tbl i) (\<lambda>chain.
                case sid_prune_chain f chain ne a of (c, ne', a') \<Rightarrow> Inr (tbl[i := c], ne', a')))
              [0..<SIDTAB_SIZE] (tbl, sidnel s, args))
            (\<lambda>(tbl, ne, a). Inr (s\<lparr>sidhtable := Some tbl, sidnel := ne\<rparr>, a)))"

fun chain_find_context :: "context_struct \<Rightarrow> (sid \<times> context_struct) list \<Rightarrow> sid option" where
  "chain_find_context ctx [] = None"
| "chain_find_context ctx (n # cur) =
     (if context_cmp (snd n) ctx then Some (fst n) else chain_find_context ctx cur)"

fun search_context_loop ::
  "(sid \<times> context_struct) list list \<Rightarrow> context_struct \<Rightarrow> nat list \<Rightarrow> sid result"
where
  "search_context_loop tbl ctx [] = Inr 0"
| "search_context_loop tbl ctx (i # is) =
     rbind (idx tbl i) (\<lambda>chain.
       case chain_find_context ctx chain of Some sd \<Rightarrow> Inr sd | None \<Rightarrow> search_context_loop tbl ctx is)"

definition sepol_sidtab_search_context :: "sidtab \<Rightarrow> context_struct \<Rightarrow> sid result" where
  "sepol_sidtab_search_context s ctx =
     (case sidhtable s of
        None \<Rightarrow> Inl UB
      | Some tbl \<Rightarrow> search_context_loop tbl ctx [0..<SIDTAB_SIZE])"

text \<open>The locks are empty macros, so the second scan repeats the first one.\<close>

definition sepol_sidtab_context_to_sid :: "alloc \<Rightarrow> sidtab \<Rightarrow> context_struct \<Rightarrow> (sidtab \<times> sid) result" where
  "sepol_sidtab_context_to_sid m s ctx =
     rbind (sepol_sidtab_search_context s ctx) (\<lambda>sd.
       if sd \<noteq> 0 then Inr (s, sd)
       else rbind (sepol_sidtab_search_context s ctx) (\<lambda>sd.
         if sd \<noteq> 0 then Inr (s, sd)
         else if next_sid s = 2 ^ 32 - 1 \<or> shutdown s \<noteq> 0 then Inl ENOMEM
         else
           let sd = next_sid s in
           rbind (sepol_sidtab_insert m (s\<lparr>next_sid := next_sid s + 1\<rparr>) sd ctx) (\<lambda>s. Inr (s, sd))))"

text \<open>As for the other tables, the result of the destructor lists the contexts released.\<close>

definition sepol_sidtab_destroy :: "sidtab \<Rightarrow> (sidtab \<times> (sid \<times> context_struct) list) result" where
  "sepol_sidtab_destroy s =
     (case sidhtable s of
        None \<Rightarrow> Inr (s, [])
      | Some tbl \<Rightarrow>
          rbind (for_each (\<lambda>i freed. rbind (idx tbl i) (\<lambda>chain. Inr (freed @ chain))) [0..<SIDTAB_SIZE] [])
            (\<lambda>freed. Inr (s\<lparr>sidhtable := None, sidnel := 0, next_sid := 1\<rparr>, freed)))"

definition sepol_sidtab_set :: "sidtab \<Rightarrow> sidtab \<Rightarrow> sidtab" where
  "sepol_sidtab_set dst src =
     dst\<lparr>sidhtable := sidhtable src, sidnel := sidnel src, next_sid := next_sid src, shutdown := 0\<rparr>"

definition sepol_sidtab_shutdown :: "sidtab \<Rightarrow> sidtab" where
  "sepol_sidtab_shutdown s = s\<lparr>shutdown := 1\<rparr>"

text \<open>The figures printed by \<^verbatim>\<open>sepol_sidtab_hash_eval\<close>.\<close>

definition sepol_sidtab_hash_eval :: "sidtab \<Rightarrow> (u32 \<times> nat \<times> nat \<times> nat) result" where
  "sepol_sidtab_hash_eval s =
     (case sidhtable s of
        None \<Rightarrow> Inl UB
      | Some tbl \<Rightarrow>
          rbind
            (for_each (\<lambda>i (used, longest). rbind (idx tbl i) (\<lambda>chain.
                if chain \<noteq> [] then Inr (used + 1, if length chain > longest then length chain else longest)
                else Inr (used, longest)))
              [0..<SIDTAB_SIZE] (0, 0))
            (\<lambda>(used, longest). Inr (sidnel s, used, SIDTAB_SIZE, longest)))"

section \<open>Refinement of the generic table\<close>

definition sid_cmp :: "sid \<Rightarrow> sid \<Rightarrow> int" where
  "sid_cmp a b = uint a - uint b"

definition sid_hash :: "u32 \<Rightarrow> sid \<Rightarrow> u32" where
  "sid_hash sz s = SIDTAB_HASH s"

definition sid_size :: "u32 \<Rightarrow> bool" where
  "sid_size sz \<longleftrightarrow> sz = of_nat SIDTAB_SIZE"

text \<open>The SID table seen as a generic table.\<close>

definition sid_view :: "sidtab \<Rightarrow> (sid, context_struct) hashtab" where
  "sid_view s =
     map_option (\<lambda>tbl. \<lparr>htable = tbl, hsize = of_nat SIDTAB_SIZE, nel = sidnel s, hash_value = sid_hash,
                        keycmp = sid_cmp\<rparr>) (sidhtable s)"

definition sidtab_wf :: "sidtab \<Rightarrow> bool" where
  "sidtab_wf s \<longleftrightarrow>
     0 < next_sid s \<and>
     (\<exists>h. sid_view s = Some h \<and> hashtab_wf sid_size sid_hash sid_cmp h \<and> nel_ok h \<and>
          (\<forall>sd c. hmap h sd = Some c \<longrightarrow> 0 < sd \<and> sd < next_sid s))"

definition sid_map :: "sidtab \<Rightarrow> sid \<rightharpoonup> context_struct" where
  "sid_map s = (case sid_view s of None \<Rightarrow> Map.empty | Some h \<Rightarrow> hmap h)"

section \<open>Lemmas\<close>

interpretation sid: hash_keys sid_size sid_hash sid_cmp
proof unfold_locales
  fix x y z :: sid
  show "sid_cmp x y = 0 \<longleftrightarrow> x = y" by (simp add: sid_cmp_def word_uint_eq_iff)
  show "sid_cmp x y > 0 \<longleftrightarrow> sid_cmp y x < 0" by (simp add: sid_cmp_def)
  show "sid_cmp x y > 0 \<Longrightarrow> sid_cmp y z > 0 \<Longrightarrow> sid_cmp x z > 0" by (simp add: sid_cmp_def)
next
  fix sz :: u32 and k :: sid
  assume "sid_size sz"
  then have sz: "sz = 128" by (simp add: sid_size_def SIDTAB_SIZE_def)
  have "sid_hash sz k \<le> 127"
    using word_and_le1 [of k 127] by (simp add: sid_hash_def SIDTAB_HASH_def SIDTAB_SIZE_def)
  then show "sid_hash sz k < sz" by (rule order.strict_trans1) (simp add: sz)
  show "unat sz \<le> 2 ^ 31" by (simp add: sz)
qed

lemma sid_loop_chain: "sid_loop sd prev c = chain_loop sid_cmp sd prev c"
proof -
  have "fst n < sd \<longleftrightarrow> 0 < sid_cmp sd (fst n)" for n :: "sid \<times> context_struct"
    by (simp add: sid_cmp_def word_less_def)
  then show ?thesis by (induction sd prev c rule: sid_loop.induct) auto
qed

lemma sidtab_wfE:
  assumes "sidtab_wf s"
  obtains tbl h where "sidhtable s = Some tbl" "sid_view s = Some h" "htable h = tbl"
    "hashtab_wf sid_size sid_hash sid_cmp h" "nel_ok h" "sid_map s = hmap h" "nel h = sidnel s"
    "\<And>sd c. sid_map s sd = Some c \<Longrightarrow> 0 < sd \<and> sd < next_sid s"
  using assms unfolding sidtab_wf_def by (auto simp: sid_view_def sid_map_def)

lemma sid_map_less: "sidtab_wf s \<Longrightarrow> sid_map s sd = Some c \<Longrightarrow> 0 < sd \<and> sd < next_sid s"
  by (auto simp: sidtab_wf_def sid_map_def)

lemma sid_index:
  assumes "sidhtable s = Some tbl" and "sid_view s = Some h" and "hashtab_wf sid_size sid_hash sid_cmp h"
  shows "home h sd = unat (SIDTAB_HASH sd)" and "unat (SIDTAB_HASH sd) < length tbl"
proof -
  have h: "htable h = tbl" using assms(1,2) by (auto simp: sid_view_def)
  show home: "home h sd = unat (SIDTAB_HASH sd)"
    using sid.wfD(1) [OF assms(3)] by (simp add: home_def sid_hash_def)
  show "unat (SIDTAB_HASH sd) < length tbl" using sid.home_less [OF assms(3), of sd] h home by simp
qed

lemma chain_search_map:
  assumes "sidhtable s = Some tbl" and "sid_view s = Some h" and "hashtab_wf sid_size sid_hash sid_cmp h"
  shows "chain_search tbl sd = Inr (hmap h sd)"
proof -
  have h: "htable h = tbl" using assms(1,2) by (auto simp: sid_view_def)
  note i = sid_index [OF assms, of sd]
  obtain prev cur where loop: "chain_loop sid_cmp sd [] (tbl ! unat (SIDTAB_HASH sd)) = (prev, cur)" by force
  have "hmap h sd = (if cur \<noteq> [] \<and> fst (hd cur) = sd then Some (snd (hd cur)) else None)"
    using sid.map_of_chain [OF sid.wfD(5) [OF assms(3) sid.home_less [OF assms(3)]], of sd sd prev cur] loop i h
    by (simp add: sid.hmap_home [OF assms(3)])
  then show ?thesis
    using loop i(2) by (cases cur) (auto simp: chain_search_def sid_loop_chain)
qed

lemma sidtab_search_spec:
  assumes "sidtab_wf s"
  shows "sepol_sidtab_search s sd =
    Inr (case sid_map s sd of Some c \<Rightarrow> Some c | None \<Rightarrow> sid_map s SECINITSID_UNLABELED)"
proof -
  obtain tbl h where w: "sidhtable s = Some tbl" "sid_view s = Some h"
    "hashtab_wf sid_size sid_hash sid_cmp h" "sid_map s = hmap h"
    using assms by (rule sidtab_wfE) blast
  show ?thesis
    using chain_search_map [OF w(1-3)] by (simp add: sepol_sidtab_search_def w(1,4) split: option.split)
qed

text \<open>A successful insertion is an insertion into the generic table.\<close>

lemma sidtab_insert_cases:
  assumes "sidtab_wf s"
  obtains (dup) "sid_map s sd \<noteq> None" "sepol_sidtab_insert m s sd ctx = Inl EEXIST"
  | (oom) p where "sid_map s sd = None" "\<not> m p" "sepol_sidtab_insert m s sd ctx = Inl ENOMEM"
  | (new) s' h' where "sid_map s sd = None" "sepol_sidtab_insert m s sd ctx = Inr s'"
      "sid_view s' = Some h'" "hashtab_wf sid_size sid_hash sid_cmp h'" "nel_ok h'"
      "sid_map s' = (sid_map s)(sd \<mapsto> ctx)" "shutdown s' = shutdown s"
      "next_sid s' = (if sd \<ge> next_sid s then sd + 1 else next_sid s)"
proof -
  obtain tbl h where w: "sidhtable s = Some tbl" "sid_view s = Some h" "htable h = tbl"
    "hashtab_wf sid_size sid_hash sid_cmp h" "nel_ok h" "sid_map s = hmap h" "nel h = sidnel s"
    using assms by (rule sidtab_wfE)
  note i = sid_index [OF w(1,2,4), of sd]
  obtain prev cur where loop: "chain_loop sid_cmp sd [] (tbl ! unat (SIDTAB_HASH sd)) = (prev, cur)" by force
  have look: "hmap h sd = (if cur \<noteq> [] \<and> fst (hd cur) = sd then Some (snd (hd cur)) else None)"
    using sid.map_of_chain [OF sid.wfD(5) [OF w(4) sid.home_less [OF w(4)]], of sd sd prev cur] loop i w(3)
    by (simp add: sid.hmap_home [OF w(4)])
  have ins: "sepol_sidtab_insert m s sd ctx =
      (if cur \<noteq> [] \<and> sd = fst (hd cur) then Inl EEXIST
       else if \<not> malloc (at_site 0 m) then Inl ENOMEM
       else case context_cpy (at_site 1 m) context_init ctx of
         Inl _ \<Rightarrow> Inl ENOMEM
       | Inr c \<Rightarrow> Inr (s\<lparr>sidhtable := Some (tbl[unat (SIDTAB_HASH sd) := rev prev @ (sd, c) # cur]),
           sidnel := sidnel s + 1, next_sid := (if sd \<ge> next_sid s then sd + 1 else next_sid s)\<rparr>))"
    using i(2) by (simp add: sepol_sidtab_insert_def w(1) Let_def sid_loop_chain loop)
  have cpy_oom: "\<exists>p. \<not> m p" if "context_cpy (at_site 1 m) context_init ctx = Inl e" for e
  proof (rule ccontr)
    assume "\<nexists>p. \<not> m p"
    then have "at_site 1 m = no_oom" by (auto simp: at_site_def no_oom_def)
    with that show False by simp
  qed
  consider "cur \<noteq> [] \<and> fst (hd cur) = sd" | "\<not> (cur \<noteq> [] \<and> fst (hd cur) = sd)" by blast
  then show ?thesis
  proof cases
    case 1
    then show ?thesis using look w(6) by (intro dup) (auto simp: ins)
  next
    case none: 2
    then have map: "sid_map s sd = None" using look w(6) by simp
    show ?thesis
    proof (cases "malloc (at_site 0 m) \<and> (\<exists>c. context_cpy (at_site 1 m) context_init ctx = Inr c)")
      case False
      have "sepol_sidtab_insert m s sd ctx = Inl ENOMEM"
        using False none by (auto simp: ins split: sum.split)
      moreover have "\<exists>p. \<not> m p"
        using False cpy_oom by (cases "context_cpy (at_site 1 m) context_init ctx") (auto simp: malloc_def at_site_def)
      ultimately show ?thesis using map oom by blast
    next
      case True
      then have cpy: "context_cpy (at_site 1 m) context_init ctx = Inr ctx" using context_cpy_Inr by blast
      obtain h' where h': "hashtab_insert no_oom (Some h) sd ctx = Inr (Some h')"
        "hashtab_wf sid_size sid_hash sid_cmp h'" "hmap h' = (hmap h)(sd \<mapsto> ctx)"
        "length (entries h') = Suc (length (entries h))" "nel h' = nel h + 1"
        using map by (cases rule: sid.insert_cases [OF w(4), of sd no_oom ctx]) (auto simp: w(6))
      define s' where "s' = s\<lparr>sidhtable := Some (tbl[unat (SIDTAB_HASH sd) := rev prev @ (sd, ctx) # cur]),
           sidnel := sidnel s + 1, next_sid := (if sd \<ge> next_sid s then sd + 1 else next_sid s)\<rparr>"
      have "h' = h\<lparr>htable := tbl[unat (SIDTAB_HASH sd) := rev prev @ (sd, ctx) # cur], nel := nel h + 1\<rparr>"
        using h'(1) none sid.slot_home [OF w(4), of sd] loop sid.wfD(2) [OF w(4)] sid.cmp_eq
        by (auto simp: hashtab_insert_def w(3) i(1) split: if_splits)
      then have view: "sid_view s' = Some h'"
        using w(1,2,7) by (auto simp: sid_view_def s'_def)
      moreover have "nel_ok h'" using h'(4,5) w(5) by (simp add: nel_ok_def)
      moreover have "sid_map s' = (sid_map s)(sd \<mapsto> ctx)" using view h'(3) w(6) by (simp add: sid_map_def)
      moreover have "sepol_sidtab_insert m s sd ctx = Inr s'" using True none unfolding ins cpy s'_def by auto
      ultimately show ?thesis using map h'(2) by (intro new [of s' h']) (simp_all add: s'_def)
    qed
  qed
qed

lemma chain_find_context_Some:
  "chain_find_context ctx c = Some sd \<Longrightarrow> (sd, ctx) \<in> set c"
  by (induction c) (auto simp: context_cmp_iff split: if_splits)

lemma chain_find_context_None:
  "chain_find_context ctx c = None \<Longrightarrow> (sd, ctx) \<notin> set c"
  by (induction c) (auto simp: context_cmp_iff split: if_splits)

lemma search_context_loop_spec:
  assumes "\<forall>i \<in> set is. i < length tbl"
  shows "\<exists>sd. search_context_loop tbl ctx is = Inr sd \<and>
    ((\<exists>i \<in> set is. (sd, ctx) \<in> set (tbl ! i)) \<or> sd = 0 \<and> (\<forall>i \<in> set is. \<forall>x. (x, ctx) \<notin> set (tbl ! i)))"
  using assms
proof (induction "is")
  case (Cons i js)
  show ?case
  proof (cases "chain_find_context ctx (tbl ! i)")
    case None
    with Cons chain_find_context_None [OF None] show ?thesis by auto
  next
    case (Some sd)
    with Cons.prems chain_find_context_Some [OF Some] show ?thesis by auto
  qed
qed simp

lemma search_context_spec:
  assumes "sidtab_wf s"
  obtains (found) sd where "sepol_sidtab_search_context s ctx = Inr sd" "sd \<noteq> 0" "sid_map s sd = Some ctx"
  | (absent) "sepol_sidtab_search_context s ctx = Inr 0" "\<And>sd. sid_map s sd \<noteq> Some ctx"
proof -
  obtain tbl h where w: "sidhtable s = Some tbl" "sid_view s = Some h" "htable h = tbl"
    "hashtab_wf sid_size sid_hash sid_cmp h" "nel_ok h" "sid_map s = hmap h" "nel h = sidnel s"
    and pos: "\<And>sd c. sid_map s sd = Some c \<Longrightarrow> 0 < sd \<and> sd < next_sid s"
    using assms by (rule sidtab_wfE) blast
  have "hsize h = of_nat SIDTAB_SIZE" using w(1,2) by (auto simp: sid_view_def)
  then have len: "length tbl = SIDTAB_SIZE"
    using sid.wfD(4) [OF w(4)] w(3) by (simp add: SIDTAB_SIZE_def)
  have mem: "(\<exists>i \<in> set [0..<SIDTAB_SIZE]. (sd, ctx) \<in> set (tbl ! i)) \<longleftrightarrow> sid_map s sd = Some ctx" for sd
  proof -
    have "(\<exists>i \<in> set [0..<SIDTAB_SIZE]. x \<in> set (tbl ! i)) \<longleftrightarrow> (\<exists>c \<in> set tbl. x \<in> set c)" for x
      unfolding len [symmetric] set_upt by (metis atLeast0LessThan in_set_conv_nth lessThan_iff)
    then show ?thesis
      using sid.hmap_Some_iff [OF w(4), of sd ctx] by (simp add: w(6) entries_def w(3))
  qed
  obtain sd where sd: "sepol_sidtab_search_context s ctx = Inr sd"
    and alt: "sid_map s sd = Some ctx \<or> sd = 0 \<and> (\<forall>x. sid_map s x \<noteq> Some ctx)"
    using search_context_loop_spec [of "[0..<SIDTAB_SIZE]" tbl ctx] len mem
    by (auto simp: sepol_sidtab_search_context_def w(1))
  show ?thesis
  proof (cases "sid_map s sd = Some ctx")
    case True
    with pos [OF True] sd show ?thesis by (intro found) auto
  next
    case False
    with alt sd show ?thesis by (intro absent) auto
  qed
qed

lemma sidtab_insert_wf:
  assumes "sidtab_wf s" and "sepol_sidtab_insert m s sd ctx = Inr s'" and "0 < sd" and "sd < 2 ^ 32 - 1"
  shows "sidtab_wf s'" and "sid_map s' = (sid_map s)(sd \<mapsto> ctx)"
proof -
  have old: "0 < x \<and> x < next_sid s" if "sid_map s x = Some c" for x c
    using assms(1) that by (auto simp: sidtab_wf_def sid_map_def)
  have "unat sd + 1 < 2 ^ 32" using assms(4) by (simp add: word_less_nat_alt)
  then have succ: "sd < sd + 1" by (simp add: word_less_nat_alt unat_word_ariths)
  from assms(1) show map: "sid_map s' = (sid_map s)(sd \<mapsto> ctx)"
    by (cases rule: sidtab_insert_cases [of s sd m ctx]) (use assms(2) in auto)
  from assms(1) show "sidtab_wf s'"
  proof (cases rule: sidtab_insert_cases [of s sd m ctx])
    case (new s'' h')
    then have s': "s'' = s'" using assms(2) by simp
    have "0 < x \<and> x < next_sid s'" if "sid_map s' x = Some c" for x c
      using that old [of x c] assms(3) succ new(8) unfolding s' map
      by (auto split: if_splits)
    moreover have "hmap h' = sid_map s'" using new(3) s' by (simp add: sid_map_def)
    moreover have "0 < next_sid s'"
      using new(8) succ assms(1,3) unfolding s' by (auto simp: sidtab_wf_def intro: less_trans)
    ultimately show ?thesis using new(3-5) s' by (auto simp: sidtab_wf_def)
  qed (use assms(2) in auto)
qed

lemma sidtab_remove_spec:
  assumes "sidtab_wf s"
  shows "sid_map s sd = None \<Longrightarrow> sepol_sidtab_remove s sd = Inl ENOENT"
    and "sid_map s sd \<noteq> None \<Longrightarrow>
      \<exists>s'. sepol_sidtab_remove s sd = Inr s' \<and> sidtab_wf s' \<and> sid_map s' = (sid_map s)(sd := None)"
proof -
  obtain tbl h where w: "sidhtable s = Some tbl" "sid_view s = Some h" "htable h = tbl"
    "hashtab_wf sid_size sid_hash sid_cmp h" "nel_ok h" "sid_map s = hmap h" "nel h = sidnel s"
    using assms by (rule sidtab_wfE)
  note i = sid_index [OF w(1,2,4), of sd]
  obtain prev cur where loop: "chain_loop sid_cmp sd [] (tbl ! unat (SIDTAB_HASH sd)) = (prev, cur)" by force
  have look: "hmap h sd = (if cur \<noteq> [] \<and> fst (hd cur) = sd then Some (snd (hd cur)) else None)"
    using sid.map_of_chain [OF sid.wfD(5) [OF w(4) sid.home_less [OF w(4)]], of sd sd prev cur] loop i w(3)
    by (simp add: sid.hmap_home [OF w(4)])
  note rem = sepol_sidtab_remove_def [of s sd, unfolded w(1) Let_def option.case]
  show "sepol_sidtab_remove s sd = Inl ENOENT" if "sid_map s sd = None"
    using that look i(2) by (cases cur) (auto simp: rem w(6) sid_loop_chain loop split: if_splits)
  assume present: "sid_map s sd \<noteq> None"
  then obtain c rest where cur: "cur = (sd, c) # rest"
    using look w(6) by (cases cur) (auto split: if_splits)
  obtain h' where h': "hashtab_remove (Some h) sd None () = Inr (Some h', ())"
    "hashtab_wf sid_size sid_hash sid_cmp h'" "hmap h' = (hmap h)(sd := None)"
    "length (entries h) = Suc (length (entries h'))" "nel h' = nel h - 1"
    using present by (cases rule: sid.remove_cases [OF w(4), of sd None "()"]) (auto simp: w(6))
  define s' where "s' = s\<lparr>sidhtable := Some (tbl[unat (SIDTAB_HASH sd) := rev prev @ rest]), sidnel := sidnel s - 1\<rparr>"
  have "h' = h\<lparr>htable := tbl[unat (SIDTAB_HASH sd) := rev prev @ rest], nel := nel h - 1\<rparr>"
    using h'(1) sid.slot_home [OF w(4), of sd] loop sid.wfD(2) [OF w(4)]
    by (auto simp: hashtab_remove_def w(3) i(1) cur)
  then have view: "sid_view s' = Some h'" using w(1,2,7) by (auto simp: sid_view_def s'_def)
  moreover have "nel_ok h'" using h'(4,5) w(5) by (simp add: nel_ok_def)
  moreover have map: "sid_map s' = (sid_map s)(sd := None)" using view h'(3) w(6) by (simp add: sid_map_def)
  moreover have "sepol_sidtab_remove s sd = Inr s'"
    using i(2) by (simp add: rem sid_loop_chain loop cur s'_def)
  moreover have "0 < x \<and> x < next_sid s'" if "hmap h' x = Some c" for x c
    using that assms h'(3) w(2,6) by (auto simp: s'_def sidtab_wf_def sid_map_def split: if_splits)
  ultimately show "\<exists>s'. sepol_sidtab_remove s sd = Inr s' \<and> sidtab_wf s' \<and> sid_map s' = (sid_map s)(sd := None)"
    using h'(2) assms by (auto simp: sidtab_wf_def s'_def)
qed

lemma sidtab_init_wf:
  assumes "sepol_sidtab_init m = Inr s"
  shows "sidtab_wf s" and "sid_map s = Map.empty" and "next_sid s = 1" and "shutdown s = 0"
proof -
  have view: "sid_view s = hashtab_create no_oom sid_hash sid_cmp (of_nat SIDTAB_SIZE)"
    using assms by (auto simp: sepol_sidtab_init_def sid_view_def hashtab_create_def SIDTAB_SIZE_def split: if_splits)
  have "sid_size (of_nat SIDTAB_SIZE)" by (simp add: sid_size_def)
  moreover obtain h :: "(sid, context_struct) hashtab_val" where
    h: "hashtab_create no_oom sid_hash sid_cmp (of_nat SIDTAB_SIZE) = Some h"
    by (auto simp: hashtab_create_def)
  ultimately have c: "hashtab_wf sid_size sid_hash sid_cmp h" "hmap h = Map.empty" "entries h = []" "nel_ok h"
    by (rule sid.create_spec)+
  show "sid_map s = Map.empty" using c(2) by (simp add: sid_map_def view h)
  show n: "next_sid s = 1" and "shutdown s = 0"
    using assms by (auto simp: sepol_sidtab_init_def split: if_splits)
  show "sidtab_wf s" using c by (simp add: sidtab_wf_def view h n)
qed

section \<open>Properties\<close>

text \<open>
  C16: The SID table is a map from SIDs to contexts.  A search returns the context of the SID, or
  that of the unlabeled SID when there is none; an insertion under a new SID adds it, one under
  a used SID is refused; a removal deletes the SID or reports that there is none.
\<close>

theorem sidtab_operations:
  assumes "sidtab_wf s"
  shows "sepol_sidtab_search s sd =
      Inr (case sid_map s sd of Some c \<Rightarrow> Some c | None \<Rightarrow> sid_map s SECINITSID_UNLABELED) \<and>
    (sepol_sidtab_insert m s sd ctx = Inl EEXIST \<longleftrightarrow> sid_map s sd \<noteq> None) \<and>
    (\<forall>s'. sepol_sidtab_insert m s sd ctx = Inr s' \<longrightarrow>
       sid_map s' = (sid_map s)(sd \<mapsto> ctx) \<and> (0 < sd \<and> sd < 2 ^ 32 - 1 \<longrightarrow> sidtab_wf s')) \<and>
    (case sid_map s sd of
       None \<Rightarrow> sepol_sidtab_remove s sd = Inl ENOENT
     | Some _ \<Rightarrow> \<exists>s'. sepol_sidtab_remove s sd = Inr s' \<and> sidtab_wf s' \<and> sid_map s' = (sid_map s)(sd := None))"
proof (intro conjI allI impI)
  show "sepol_sidtab_search s sd =
      Inr (case sid_map s sd of Some c \<Rightarrow> Some c | None \<Rightarrow> sid_map s SECINITSID_UNLABELED)"
    using assms by (rule sidtab_search_spec)
  show "sepol_sidtab_insert m s sd ctx = Inl EEXIST \<longleftrightarrow> sid_map s sd \<noteq> None"
    by (cases rule: sidtab_insert_cases [OF assms, of sd m ctx]) auto
  show "case sid_map s sd of
       None \<Rightarrow> sepol_sidtab_remove s sd = Inl ENOENT
     | Some _ \<Rightarrow> \<exists>s'. sepol_sidtab_remove s sd = Inr s' \<and> sidtab_wf s' \<and> sid_map s' = (sid_map s)(sd := None)"
    using sidtab_remove_spec [OF assms, of sd] by (auto split: option.split)
  fix s' assume res: "sepol_sidtab_insert m s sd ctx = Inr s'"
  then show "sid_map s' = (sid_map s)(sd \<mapsto> ctx)"
    by (cases rule: sidtab_insert_cases [OF assms, of sd m ctx]) auto
  assume "0 < sd \<and> sd < 2 ^ 32 - 1"
  with sidtab_insert_wf(1) [OF assms res] show "sidtab_wf s'" by blast
qed

theorem sidtab_operations_witness:
  "\<exists>s. sepol_sidtab_init no_oom = Inr s \<and> sepol_sidtab_search s 17 = Inr None \<and>
       sepol_sidtab_remove s 17 = Inl ENOENT"
proof -
  obtain s where s: "sepol_sidtab_init no_oom = Inr s" by (simp add: sepol_sidtab_init_def)
  note w = sidtab_init_wf [OF s]
  from sidtab_operations [OF w(1), of 17 no_oom context_init] w(2) s show ?thesis by auto
qed

text \<open>
  C15: \<^verbatim>\<open>sepol_sidtab_context_to_sid\<close> returns a SID that the table maps to the context.  If the
  table has one already, the table does not change; otherwise a fresh SID is allocated, all
  existing SIDs keep their contexts, and the table stays well-formed, so SIDs are never reused
  and never wrap.  With memory, before shutdown and with SIDs left, the call succeeds.
\<close>

theorem sidtab_context_to_sid_spec:
  assumes "sidtab_wf s"
  shows "(\<forall>s' sd. sepol_sidtab_context_to_sid m s ctx = Inr (s', sd) \<longrightarrow>
      sidtab_wf s' \<and> 0 < sd \<and> sid_map s' sd = Some ctx \<and> sepol_sidtab_search s' sd = Inr (Some ctx) \<and>
      (if \<exists>x. sid_map s x = Some ctx then s' = s
       else sid_map s sd = None \<and> sid_map s' = (sid_map s)(sd \<mapsto> ctx))) \<and>
    (next_sid s \<noteq> 2 ^ 32 - 1 \<and> shutdown s = 0 \<longrightarrow>
      (\<exists>s' sd. sepol_sidtab_context_to_sid no_oom s ctx = Inr (s', sd)))"
proof -
  have pos: "0 < next_sid s" using assms by (simp add: sidtab_wf_def)
  have fresh: "sid_map s (next_sid s) = None"
    using sid_map_less [OF assms, of "next_sid s"] by (cases "sid_map s (next_sid s)") auto
  let ?s = "s\<lparr>next_sid := next_sid s + 1\<rparr>"
  have bump: "sidtab_wf ?s" "sid_map ?s = sid_map s" if "next_sid s \<noteq> 2 ^ 32 - 1"
  proof -
    have "unat (next_sid s) \<noteq> 2 ^ 32 - 1" using that by (simp add: word_unat_eq_iff)
    then have "unat (next_sid s) + 1 < 2 ^ 32" using unat_less_2p32 [of "next_sid s"] by simp
    then have "next_sid s < next_sid s + 1" by (simp add: word_less_nat_alt unat_word_ariths)
    moreover show "sid_map ?s = sid_map s" by (simp add: sid_map_def sid_view_def)
    ultimately show "sidtab_wf ?s"
      using assms pos unfolding sidtab_wf_def by (auto simp: sid_view_def intro: less_trans)
  qed
  from assms show ?thesis
  proof (cases rule: search_context_spec [of s ctx])
    case (found sd)
    then have "sepol_sidtab_context_to_sid m' s ctx = Inr (s, sd)" for m'
      by (simp add: sepol_sidtab_context_to_sid_def)
    with found assms sidtab_search_spec [OF assms, of sd] show ?thesis
      by (auto simp: word_neq_0_conv)
  next
    case absent
    have eq: "sepol_sidtab_context_to_sid m' s ctx =
        (if next_sid s = 2 ^ 32 - 1 \<or> shutdown s \<noteq> 0 then Inl ENOMEM
         else rbind (sepol_sidtab_insert m' ?s (next_sid s) ctx) (\<lambda>s'. Inr (s', next_sid s)))" for m'
      by (simp add: sepol_sidtab_context_to_sid_def absent(1) Let_def)
    have spec: "sidtab_wf s' \<and> sid_map s' = (sid_map s)(next_sid s \<mapsto> ctx)"
      if "next_sid s \<noteq> 2 ^ 32 - 1" "sepol_sidtab_insert m' ?s (next_sid s) ctx = Inr s'" for m' s'
    proof -
      have "unat (next_sid s) \<noteq> 2 ^ 32 - 1" using that(1) by (simp add: word_unat_eq_iff)
      then have "next_sid s < 2 ^ 32 - 1"
        using unat_less_2p32 [of "next_sid s"] by (simp add: word_less_nat_alt)
      from sidtab_insert_wf [OF bump(1) [OF that(1)] that(2) pos this] bump(2) [OF that(1)]
      show ?thesis by simp
    qed
    have search: "sepol_sidtab_search s' (next_sid s) = Inr (Some ctx)"
      if "sidtab_wf s' \<and> sid_map s' = (sid_map s)(next_sid s \<mapsto> ctx)" for s'
      using that by (simp add: sidtab_search_spec)
    have "\<exists>s'. sepol_sidtab_insert no_oom ?s (next_sid s) ctx = Inr s'" if "next_sid s \<noteq> 2 ^ 32 - 1"
      using fresh bump(2) [OF that]
      by (cases rule: sidtab_insert_cases [OF bump(1) [OF that], of "next_sid s" no_oom ctx])
        (auto simp: no_oom_def)
    with spec search fresh pos absent(2) show ?thesis
      unfolding eq by (auto simp: rbind_eq_Inr_iff split: if_splits)
  qed
qed

theorem sidtab_context_to_sid_spec_witness:
  "\<exists>s s' sd. sepol_sidtab_init no_oom = Inr s \<and>
     sepol_sidtab_context_to_sid no_oom s context_init = Inr (s', sd) \<and>
     sepol_sidtab_search s' sd = Inr (Some context_init)"
proof -
  obtain s where s: "sepol_sidtab_init no_oom = Inr s" by (simp add: sepol_sidtab_init_def)
  note w = sidtab_init_wf [OF s]
  note spec = sidtab_context_to_sid_spec [OF w(1), of no_oom context_init]
  then obtain s' sd where "sepol_sidtab_context_to_sid no_oom s context_init = Inr (s', sd)"
    using w(3,4) by auto
  with spec s show ?thesis by blast
qed

end
