(* ===== verification/Policydb.thy ===== *)
theory Policydb
  imports Symtab Avtab Mls Sidtab
begin

text \<open>
  The policy database, \<^verbatim>\<open>include/sepol/policydb/policydb.h\<close>, \<^verbatim>\<open>constraint.h\<close> and \<^verbatim>\<open>conditional.h\<close>: the
  datums of the symbol tables, constraints, conditionals, object contexts, the blocks of rules of policy
  modules and the database itself.

  The arrays \<^verbatim>\<open>..._val_to_struct\<close> hold the datums the C arrays point to, \<open>None\<close> standing for an
  element that no symbol has set.  The Boolean datums are shared by pointers in the C code; the
  model keeps their state in \<open>bool_val_to_struct\<close>.  The pointer of a block to its enabled branch is the
  position of the branch, and the pointers in \<^verbatim>\<open>decl_val_to_struct\<close> are the positions of a block and of
  one of its branches.
\<close>

section \<open>Datums\<close>

record type_set =
  ts_types :: ebitmap
  negset :: ebitmap
  ts_flags :: u32

record role_set =
  rs_roles :: ebitmap
  rs_flags :: u32

record perm_datum =
  perm_value :: u32

record common_datum =
  common_value :: u32
  common_permissions :: "perm_datum symtab"

record constraint_expr =
  expr_type :: u32
  attr :: u32
  cop :: u32
  names :: ebitmap
  type_names :: "type_set option"

record constraint_node =
  permissions :: u32
  cn_expr :: "constraint_expr list"

text \<open>The defaults are of type \<^verbatim>\<open>char\<close>.\<close>

record class_datum =
  class_value :: u32
  comkey :: "string option"
  comdatum :: "common_datum option"
  class_permissions :: "perm_datum symtab"
  constraints :: "constraint_node list"
  validatetrans :: "constraint_node list"
  default_user :: u8
  default_role :: u8
  default_type :: u8
  default_range :: u8

record role_datum =
  role_value :: u32
  dominates :: ebitmap
  role_types :: type_set
  role_cache :: ebitmap
  role_bounds :: u32
  role_flavor :: u32
  role_roles :: ebitmap

record role_trans =
  rt_role :: u32
  rt_type :: u32
  rt_tclass :: u32
  rt_new_role :: u32

record role_allow =
  ra_role :: u32
  ra_new_role :: u32

record filename_trans =
  ft_stype :: u32
  ft_ttype :: u32
  ft_tclass :: u32
  ft_name :: string
  ft_otype :: u32

record type_datum =
  type_value :: u32
  primary :: u32
  type_flavor :: u32
  type_types :: ebitmap
  type_flags :: u32
  type_bounds :: u32

record user_datum =
  user_value :: u32
  user_roles :: role_set
  user_range :: mls_semantic_range
  user_dfltlevel :: mls_semantic_level
  user_cache :: ebitmap
  exp_range :: mls_range
  exp_dfltlevel :: mls_level
  user_bounds :: u32

record level_datum =
  level :: "mls_level option"
  level_isalias :: u8
  level_defined :: u8

record cat_datum =
  cat_value :: u32
  cat_isalias :: u8

record range_trans =
  rg_source_type :: u32
  rg_target_type :: u32
  rg_target_class :: u32
  rg_target_range :: mls_range

record cond_bool_datum =
  bool_value :: u32
  state :: int
  bool_flags :: u32

section \<open>Rules of a policy module\<close>

record class_perm_node =
  cp_tclass :: u32
  cp_data :: u32

record av_extended_perms =
  axp_specified :: u8
  axp_driver :: u8
  axp_perms :: "u32 list"

record avrule =
  ar_specified :: u32
  ar_flags :: u32
  ar_stypes :: type_set
  ar_ttypes :: type_set
  ar_perms :: "class_perm_node list"
  ar_xperms :: "av_extended_perms option"
  ar_line :: u64
  ar_source_filename :: "string option"
  ar_source_line :: u64

section \<open>Conditionals\<close>

record cond_expr =
  cond_type :: u32
  cond_bool :: u32

text \<open>The true and false lists refer to nodes of the conditional access vector table by address.\<close>

record cond_node =
  cur_state :: int
  cond_exprs :: "cond_expr list"
  true_list :: "nat list"
  false_list :: "nat list"
  avtrue_list :: "avrule list"
  avfalse_list :: "avrule list"
  nbools :: u32
  bool_ids :: "u32 list"
  expr_pre_comp :: u32
  cond_flags :: u32

section \<open>Blocks of a policy module\<close>

record role_trans_rule =
  rtr_roles :: role_set
  rtr_types :: type_set
  rtr_classes :: ebitmap
  rtr_new_role :: u32

record role_allow_rule =
  rar_roles :: role_set
  rar_new_roles :: role_set

record filename_trans_rule =
  ftr_stypes :: type_set
  ftr_ttypes :: type_set
  ftr_tclass :: u32
  ftr_name :: string
  ftr_otype :: u32

record range_trans_rule =
  rgr_stypes :: type_set
  rgr_ttypes :: type_set
  rgr_tclasses :: ebitmap
  rgr_trange :: mls_semantic_range

text \<open>The symbols in scope: a set for every symbol table, and sets of permissions by class.\<close>

record scope_index =
  scope_sets :: "ebitmap list"
  class_perms_map :: "ebitmap list"
  class_perms_len :: u32

record avrule_decl =
  decl_id :: u32
  decl_enabled :: u32
  decl_cond_list :: "cond_node list"
  decl_avrules :: "avrule list"
  role_tr_rules :: "role_trans_rule list"
  role_allow_rules :: "role_allow_rule list"
  range_tr_rules :: "range_trans_rule list"
  required :: scope_index
  declared :: scope_index
  filename_trans_rules :: "filename_trans_rule list"
  d_commons :: "common_datum symtab"
  d_classes :: "class_datum symtab"
  d_roles :: "role_datum symtab"
  d_types :: "type_datum symtab"
  d_users :: "user_datum symtab"
  d_bools :: "cond_bool_datum symtab"
  d_levels :: "level_datum symtab"
  d_cats :: "cat_datum symtab"
  decl_module_name :: "string option"

record avrule_block =
  branch_list :: "avrule_decl list"
  block_enabled :: "nat option"
  block_flags :: u32

record scope_datum =
  sc_scope :: u32
  decl_ids :: "u32 list"

section \<open>Object contexts\<close>

datatype ocontext_u =
    U_name string
  | U_port (protocol: u8) (low_port: u16) (high_port: u16)
  | U_node (node_addr: u32) (node_mask32: u32)
  | U_node6 (node6_addr: "u32 list") (node6_mask: "u32 list")
  | U_device u32
  | U_pirq u16
  | U_iomem (low_iomem: u64) (high_iomem: u64)
  | U_ioport (low_ioport: u32) (high_ioport: u32)

record ocontext =
  oc_u :: ocontext_u
  oc_v :: u32
  oc_context0 :: context_struct
  oc_context1 :: context_struct
  oc_sid0 :: sid
  oc_sid1 :: sid

record genfs =
  fstype :: string
  head :: "ocontext list"

section \<open>The database\<close>

record policydb =
  policy_type :: u32
  p_name :: "string option"
  p_version :: "string option"
  target_platform :: int
  unsupported_format :: int
  mls :: bool
  p_commons :: "common_datum symtab"
  p_classes :: "class_datum symtab"
  p_roles :: "role_datum symtab"
  p_types :: "type_datum symtab"
  p_users :: "user_datum symtab"
  p_bools :: "cond_bool_datum symtab"
  p_levels :: "level_datum symtab"
  p_cats :: "cat_datum symtab"
  p_common_val_to_name :: "string option list"
  p_class_val_to_name :: "string option list"
  p_role_val_to_name :: "string option list"
  p_type_val_to_name :: "string option list"
  p_user_val_to_name :: "string option list"
  p_bool_val_to_name :: "string option list"
  p_sens_val_to_name :: "string option list"
  p_cat_val_to_name :: "string option list"
  class_val_to_struct :: "class_datum option list"
  role_val_to_struct :: "role_datum option list"
  user_val_to_struct :: "user_datum option list"
  type_val_to_struct :: "type_datum option list"
  p_scope :: "scope_datum symtab list"
  p_global :: "avrule_block list"
  decl_val_to_struct :: "(nat \<times> nat) option list"
  te_avtab :: avtab
  bool_val_to_struct :: "cond_bool_datum option list"
  te_cond_avtab :: avtab
  cond_list :: "cond_node list"
  role_tr :: "role_trans list"
  p_filename_trans :: "filename_trans list"
  p_role_allow :: "role_allow list"
  ocontexts :: "ocontext list list"
  p_genfs :: "genfs list"
  range_tr :: "range_trans list"
  type_attr_map :: "ebitmap list"
  attr_type_map :: "ebitmap list"
  policycaps :: ebitmap
  permissive_map :: ebitmap
  policyvers :: u32
  handle_unknown :: u32

text \<open>The database after \<^verbatim>\<open>memset(p, 0, sizeof(policydb_t))\<close>.\<close>

definition zero_symtab :: "'d symtab" where
  "zero_symtab = \<lparr>table = None, nprim = 0\<rparr>"

definition zero_avtab :: avtab where
  "zero_avtab = \<lparr>avslots = None, avnel = 0, nslot = 0, avmask = 0, anext = 0\<rparr>"

definition zero_policydb :: policydb where
  "zero_policydb =
     \<lparr>policy_type = 0, p_name = None, p_version = None, target_platform = 0, unsupported_format = 0, mls = False,
      p_commons = zero_symtab, p_classes = zero_symtab, p_roles = zero_symtab, p_types = zero_symtab,
      p_users = zero_symtab, p_bools = zero_symtab, p_levels = zero_symtab, p_cats = zero_symtab,
      p_common_val_to_name = [], p_class_val_to_name = [], p_role_val_to_name = [], p_type_val_to_name = [],
      p_user_val_to_name = [], p_bool_val_to_name = [], p_sens_val_to_name = [], p_cat_val_to_name = [],
      class_val_to_struct = [], role_val_to_struct = [], user_val_to_struct = [], type_val_to_struct = [],
      p_scope = replicate 8 zero_symtab, p_global = [], decl_val_to_struct = [],
      te_avtab = zero_avtab, bool_val_to_struct = [], te_cond_avtab = zero_avtab, cond_list = [],
      role_tr = [], p_filename_trans = [], p_role_allow = [], ocontexts = replicate 7 [], p_genfs = [],
      range_tr = [], type_attr_map = [], attr_type_map = [], policycaps = ebitmap_init,
      permissive_map = ebitmap_init, policyvers = 0, handle_unknown = 0\<rparr>"

definition POLICY_KERN :: u32 where "POLICY_KERN = 0"
definition POLICYDB_VERSION_CONSTRAINT_NAMES :: u32 where "POLICYDB_VERSION_CONSTRAINT_NAMES = 29"
definition OCON_ISID :: nat where "OCON_ISID = 0"
definition OCON_FS :: nat where "OCON_FS = 1"
definition OCON_PORT :: nat where "OCON_PORT = 2"
definition OCON_NETIF :: nat where "OCON_NETIF = 3"
definition OCON_NODE :: nat where "OCON_NODE = 4"
definition OCON_FSUSE :: nat where "OCON_FSUSE = 5"
definition OCON_NODE6 :: nat where "OCON_NODE6 = 6"

text \<open>
  Access to the element for the value \<open>v\<close> of an array indexed by value minus one: out of bounds,
  the value zero and an element that was never set are undefined behaviour.
\<close>

definition val_idx :: "'a option list \<Rightarrow> u32 \<Rightarrow> 'a result" where
  "val_idx xs v =
     rbind (idx xs (unat (v - 1))) (\<lambda>r. case r of None \<Rightarrow> Inl UB | Some x \<Rightarrow> Inr x)"

definition val_set :: "'a option list \<Rightarrow> u32 \<Rightarrow> 'a \<Rightarrow> 'a option list result" where
  "val_set xs v x = (if unat (v - 1) < length xs then Inr (xs[unat (v - 1) := Some x]) else Inl UB)"

text \<open>The C string in a buffer that ends with a zero byte.\<close>

definition cstring :: "u8 list \<Rightarrow> string" where
  "cstring bs = map (\<lambda>b. char_of (unat b)) (takeWhile (\<lambda>b. b \<noteq> 0) bs)"

lemma val_idx_Inr:
  "val_idx xs v = Inr x \<longleftrightarrow> unat (v - 1) < length xs \<and> xs ! unat (v - 1) = Some x"
  by (auto simp: val_idx_def idx_def split: option.splits)

end
