(* ===== verification/Policydb_Sets.thy ===== *)
theory Policydb_Sets
  imports Policydb
begin

text \<open>
  Sets of types and roles as rules of policy modules use them, and the reading of such sets and
  of rules, \<^verbatim>\<open>src/policydb.c\<close>.
\<close>

definition ROLE_STAR :: u32 where "ROLE_STAR = 1"
definition ROLE_COMP :: u32 where "ROLE_COMP = 2"
definition TYPE_STAR :: u32 where "TYPE_STAR = 1"
definition TYPE_COMP :: u32 where "TYPE_COMP = 2"

definition type_set_init :: type_set where
  "type_set_init = \<lparr>ts_types = ebitmap_init, negset = ebitmap_init, ts_flags = 0\<rparr>"

definition type_set_destroy :: "type_set option \<Rightarrow> type_set option" where
  "type_set_destroy x =
     map_option (\<lambda>x. x\<lparr>ts_types := ebitmap_destroy (ts_types x), negset := ebitmap_destroy (negset x)\<rparr>) x"

definition role_set_init :: role_set where
  "role_set_init = \<lparr>rs_roles = ebitmap_init, rs_flags = 0\<rparr>"

definition role_set_destroy :: "role_set \<Rightarrow> role_set" where
  "role_set_destroy x = x\<lparr>rs_roles := ebitmap_destroy (rs_roles x)\<rparr>"

text \<open>Any failure of a bitmap operation is reported as \<^verbatim>\<open>-1\<close>; undefined behaviour stays what it is.\<close>

definition or_status :: "'a result \<Rightarrow> 'a result" where
  "or_status r = (case r of Inl UB \<Rightarrow> Inl UB | Inl _ \<Rightarrow> Inl STATUS_ERR | Inr x \<Rightarrow> Inr x)"

definition type_set_or :: "alloc \<Rightarrow> type_set \<Rightarrow> type_set \<Rightarrow> type_set result" where
  "type_set_or m a b =
     (let dst = type_set_init in
      rbind (or_status (ebitmap_or (at_site 0 m) (ts_types a) (ts_types b))) (\<lambda>ty.
        rbind (or_status (ebitmap_or (at_site 1 m) (negset a) (negset b))) (\<lambda>ng.
          Inr \<lparr>ts_types = ty, negset = ng, ts_flags = ts_flags dst OR ts_flags a OR ts_flags b\<rparr>)))"

definition type_set_cpy :: "alloc \<Rightarrow> type_set \<Rightarrow> type_set result" where
  "type_set_cpy m src =
     rbind (or_status (ebitmap_cpy (at_site 0 m) (ts_types src))) (\<lambda>ty.
       rbind (or_status (ebitmap_cpy (at_site 1 m) (negset src))) (\<lambda>ng.
         Inr \<lparr>ts_types = ty, negset = ng, ts_flags = ts_flags src\<rparr>))"

definition type_set_or_eq :: "alloc \<Rightarrow> type_set \<Rightarrow> type_set \<Rightarrow> type_set result" where
  "type_set_or_eq m dst other =
     rbind (type_set_or (at_site 0 m) dst other) (\<lambda>tmp. type_set_cpy (at_site 1 m) tmp)"

definition role_set_get_role :: "role_set \<Rightarrow> u32 \<Rightarrow> bool" where
  "role_set_get_role x r =
     (if rs_flags x AND ROLE_STAR \<noteq> 0 then True
      else if ebitmap_get_bit (rs_roles x) (r - 1)
      then (if rs_flags x AND ROLE_COMP \<noteq> 0 then False else True)
      else (if rs_flags x AND ROLE_COMP \<noteq> 0 then True else False))"

section \<open>Reading\<close>

definition read_u32 :: "policy_file \<Rightarrow> (policy_file \<times> u32) result" where
  "read_u32 fp = rbind (or_status (next_entry fp 4)) (\<lambda>(fp, b). Inr (fp, le_to_cpu b))"

definition role_set_read :: "alloc \<Rightarrow> policy_file \<Rightarrow> (policy_file \<times> role_set) result" where
  "role_set_read m fp =
     rbind (or_status (ebitmap_read (at_site 0 m) fp)) (\<lambda>(fp, r).
       rbind (read_u32 fp) (\<lambda>(fp, f). Inr (fp, \<lparr>rs_roles = r, rs_flags = f\<rparr>)))"

definition type_set_read :: "alloc \<Rightarrow> policy_file \<Rightarrow> (policy_file \<times> type_set) result" where
  "type_set_read m fp =
     rbind (or_status (ebitmap_read (at_site 0 m) fp)) (\<lambda>(fp, t).
       rbind (or_status (ebitmap_read (at_site 1 m) fp)) (\<lambda>(fp, n).
         rbind (read_u32 fp) (\<lambda>(fp, f). Inr (fp, \<lparr>ts_types = t, negset = n, ts_flags = f\<rparr>))))"

definition avrule_init :: avrule where
  "avrule_init =
     \<lparr>ar_specified = 0, ar_flags = 0, ar_stypes = type_set_init, ar_ttypes = type_set_init,
      ar_perms = [], ar_xperms = None, ar_line = 0, ar_source_filename = None, ar_source_line = 0\<rparr>"

definition avrule_read :: "alloc \<Rightarrow> policy_file \<Rightarrow> (policy_file \<times> avrule) result" where
  "avrule_read m fp =
     (if \<not> malloc (at_site 0 m) then Inl STATUS_ERR
      else rbind (or_status (next_entry fp 8)) (\<lambda>(fp, b).
        rbind (type_set_read (at_site 1 m) fp) (\<lambda>(fp, st).
          rbind (type_set_read (at_site 2 m) fp) (\<lambda>(fp, tt).
            rbind (read_u32 fp) (\<lambda>(fp, len).
              rbind (for_each
                (\<lambda>i (fp, ps).
                   if \<not> malloc (at_site (unat i) (at_site 3 m)) then Inl STATUS_ERR
                   else rbind (or_status (next_entry fp 8)) (\<lambda>(fp, c).
                     let buf = le_words 4 2 c in
                     Inr (fp, ps @ [\<lparr>cp_tclass = buf ! 0, cp_data = buf ! 1\<rparr>])))
                (upto32 len) (fp, [])) (\<lambda>(fp, ps).
                let buf = le_words 4 2 b in
                Inr (fp, avrule_init\<lparr>ar_specified := buf ! 0, ar_flags := buf ! 1, ar_stypes := st,
                                     ar_ttypes := tt, ar_perms := ps\<rparr>)))))))"

definition avrule_read_list :: "alloc \<Rightarrow> policy_file \<Rightarrow> (policy_file \<times> avrule list) result" where
  "avrule_read_list m fp =
     rbind (read_u32 fp) (\<lambda>(fp, len).
       for_each
         (\<lambda>i (fp, rs). rbind (avrule_read (at_site (unat i) m) fp) (\<lambda>(fp, r). Inr (fp, rs @ [r])))
         (upto32 len) (fp, []))"

section \<open>Membership\<close>

text \<open>The roles of a set, numbered from one, as \<^verbatim>\<open>role_set_get_role\<close> decides them.\<close>

lemma role_set_get_role_iff:
  "ebitmap_wf (rs_roles x) \<Longrightarrow>
   role_set_get_role x r \<longleftrightarrow>
     rs_flags x AND ROLE_STAR \<noteq> 0 \<or> (unat (r - 1) \<in> ebits (rs_roles x)) \<noteq> (rs_flags x AND ROLE_COMP \<noteq> 0)"
  by (simp add: role_set_get_role_def ebitmap_get_bit_iff ebitmap_wf_ok)

lemma or_status_Inr [simp]: "or_status r = Inr x \<longleftrightarrow> r = Inr x"
  by (auto simp: or_status_def split: sum.splits err.splits)

lemma or_status_value [simp]: "or_status (Inr x) = Inr x"
  by (simp add: or_status_def)

lemma or_status_UB [simp]: "or_status r = Inl UB \<longleftrightarrow> r = Inl UB"
  by (auto simp: or_status_def split: sum.splits err.splits)

end
