(* ===== verification/Avtab_Laws.thy ===== *)
theory Avtab_Laws
  imports Avtab
begin

text \<open>
  What the access vector table promises: lookups after insertions, enumeration of all rules for
  a pair of types and a class, the size of the slot array, and what reading a table from a
  policy file establishes.
\<close>

lemma spec_enabled:
  "ucast ((ucast s :: u32) AND NOT (ucast AVTAB_ENABLED OR AVTAB_ENABLED_OLD)) = s AND NOT AVTAB_ENABLED"
  for s :: u16
proof (rule bit_word_eqI)
  fix k assume "k < LENGTH(16)"
  then have k: "k < 16" by simp
  have "AVTAB_ENABLED_OLD = 2 ^ 31" by (simp add: AVTAB_ENABLED_OLD_def)
  moreover have "bit (2 ^ 31 :: u32) k \<longleftrightarrow> k = 31" by (simp only: bit_exp_iff) auto
  ultimately have "\<not> bit AVTAB_ENABLED_OLD k" using k by simp
  then show "bit (ucast ((ucast s :: u32) AND NOT (ucast AVTAB_ENABLED OR AVTAB_ENABLED_OLD)) :: u16) k
      = bit (s AND NOT AVTAB_ENABLED) k"
    using k by (auto simp: bit_simps)
qed

text \<open>
  C13: On a well-formed table \<^verbatim>\<open>avtab_insert\<close> adds the rule, after which \<^verbatim>\<open>avtab_search\<close> finds the
  inserted datum under its key and what it found before under every key that does not overlap
  with it.  It is refused with \<^verbatim>\<open>SEPOL_EEXIST\<close> exactly when the table has a rule of one of the
  kinds of the key for the same types and class and the rule has no extended permissions; the
  only other error is exhausted memory.
\<close>

theorem avtab_insert_search:
  assumes "avtab_wf h"
  shows "(avtab_insert m h key d = Inl EEXIST \<longleftrightarrow>
      spec_of key AND AVTAB_XPERMS = 0 \<and> (\<exists>n \<in> set (av_nodes h). node_matches key (spec_of key) n)) \<and>
    (\<forall>e. avtab_insert m h key d = Inl e \<longrightarrow> e = EEXIST \<or> e = ENOMEM \<and> (\<exists>s. \<not> m s)) \<and>
    (\<forall>h'. avtab_insert m h key d = Inr h' \<longrightarrow>
       avtab_wf h' \<and>
       (spec_of key \<noteq> 0 \<longrightarrow> avtab_search h' key = Inr (Some (stored_datum key d))) \<and>
       (\<forall>k. \<not> (key_rank k = key_rank key \<and> spec_of k AND specified key \<noteq> 0) \<longrightarrow>
            avtab_search h' k = avtab_search h k))"
  using insert_search_spec [OF assms, of m key d]
  by (auto simp: node_matches_rank new_node_def)

definition empty_avtab :: avtab where
  "empty_avtab = \<lparr>avslots = Some [[]], avnel = 0, nslot = 1, avmask = 0, anext = 0\<rparr>"

lemma empty_avtab_wf: "avtab_wf empty_avtab"
  by (simp add: empty_avtab_def avtab_wf_def)

definition sample_key :: "u16 \<Rightarrow> avtab_key" where
  "sample_key s = \<lparr>source_type = 1, target_type = 1, target_class = 1, specified = s\<rparr>"

theorem avtab_insert_search_witness:
  "\<exists>h. avtab_insert no_oom empty_avtab (sample_key AVTAB_ALLOWED) \<lparr>avdata = 5, xperms = None\<rparr> = Inr h \<and>
       avtab_search h (sample_key AVTAB_ALLOWED) = Inr (Some \<lparr>avdata = 5, xperms = None\<rparr>)"
proof -
  note laws = avtab_insert_search [OF empty_avtab_wf, of no_oom "sample_key AVTAB_ALLOWED" "\<lparr>avdata = 5, xperms = None\<rparr>"]
  have "av_nodes empty_avtab = []" by (simp add: av_nodes_def empty_avtab_def)
  with laws obtain h where h: "avtab_insert no_oom empty_avtab (sample_key AVTAB_ALLOWED) \<lparr>avdata = 5, xperms = None\<rparr> = Inr h"
    using avtab_insert_total [OF empty_avtab_wf] by fastforce
  have "spec_of (sample_key AVTAB_ALLOWED) \<noteq> 0"
    "stored_datum (sample_key AVTAB_ALLOWED) \<lparr>avdata = 5, xperms = None\<rparr> = \<lparr>avdata = 5, xperms = None\<rparr>"
    by (simp_all add: spec_of_def sample_key_def stored_datum_def avtab_consts)
  with laws h show ?thesis by auto
qed

lemma node_iter_chain:
  assumes "avtab_wf h"
  shows "node_iter (ucast (specified key)) (scan_loop key (spec_of key) (av_chain h key)) =
    filter (node_matches key (spec_of key)) (av_chain h key)"
  by (rule node_iter_filter [OF av_chain_sorted [OF assms]]) (simp_all only: spec_enabled spec_of_def)

text \<open>The nodes visited by the enumeration, as a subset of the nodes of the table.\<close>

lemma node_iter_set:
  assumes "avtab_wf h"
  shows "set (node_iter (ucast (specified key)) (scan_loop key (spec_of key) (av_chain h key))) =
      {n \<in> set (av_nodes h). key_rank (nkey n) = key_rank key \<and> specified (nkey n) AND spec_of key \<noteq> 0}"
  unfolding node_iter_chain [OF assms] set_filter node_matches_rank
  using av_chain_matches [OF assms, of _ key]
  by (simp add: and.commute eq_commute [of "key_rank key"] set_eq_iff) blast

text \<open>
  C14: The loop over \<^verbatim>\<open>avtab_search_node\<close> and \<^verbatim>\<open>avtab_search_node_next\<close> visits exactly the rules of
  the table for the given types and class whose kind is among the ones asked for, whether or not
  they are marked enabled, and each of them once.
\<close>

theorem avtab_enumeration:
  assumes "avtab_wf h"
  shows "\<exists>c. avtab_search_node h key = Inr c \<and>
    set (node_iter (ucast (specified key)) c) =
      {n \<in> set (av_nodes h). key_rank (nkey n) = key_rank key \<and> specified (nkey n) AND spec_of key \<noteq> 0} \<and>
    distinct (map naddr (node_iter (ucast (specified key)) c))"
proof -
  let ?c = "scan_loop key (spec_of key) (av_chain h key)"
  note iter = node_iter_chain [OF assms, of key]
  obtain tbl where tbl: "avslots h = Some tbl" and d: "distinct (map naddr (concat tbl))"
    using assms by (rule avtab_wfE)
  let ?i = "av_home h key"
  have "concat tbl = concat (take ?i tbl) @ tbl ! ?i @ concat (drop (Suc ?i) tbl)"
    using av_slot_home(2) [OF assms tbl] by (metis concat.simps(2) concat_append id_take_nth_drop)
  then have "distinct (map naddr (tbl ! ?i))" using d by (metis distinct_append map_append)
  then have "distinct (map naddr (av_chain h key))" by (simp add: av_chain_def tbl)
  then have "distinct (map naddr (node_iter (ucast (specified key)) ?c))"
    unfolding iter by (rule distinct_map_filter)
  then show ?thesis using search_node_chain [OF assms] node_iter_set [OF assms, of key] by blast
qed

theorem avtab_enumeration_witness:
  "\<exists>c. avtab_search_node empty_avtab (sample_key AVTAB_AV) = Inr c \<and>
       set (node_iter (ucast (specified (sample_key AVTAB_AV))) c) = {}"
proof -
  have "av_nodes empty_avtab = []" by (simp add: av_nodes_def empty_avtab_def)
  with avtab_enumeration [OF empty_avtab_wf, of "sample_key AVTAB_AV"] show ?thesis by auto
qed

text \<open>
  \<^verbatim>\<open>avtab_alloc\<close> gives an empty well-formed table whose number of slots is a power of two of at
  most \<open>2^20\<close>, with the matching mask; up to that limit there is one slot per two to four rules.
\<close>

theorem avtab_alloc_size:
  assumes "nrules \<noteq> 0" and "avtab_alloc m h nrules = Inr h'"
  shows "avtab_wf h' \<and> av_nodes h' = [] \<and> (\<exists>k \<le> 20. unat (nslot h') = 2 ^ k) \<and> avmask h' = nslot h' - 1 \<and>
    (4 \<le> unat nrules \<and> unat nrules < 2 ^ 22 \<longrightarrow>
       2 * unat (nslot h') \<le> unat nrules \<and> unat nrules < 4 * unat (nslot h'))"
proof -
  have slots: "nslot h' = 2 ^ slot_bits nrules" "avmask h' = 2 ^ slot_bits nrules - 1"
    using assms by (auto simp: avtab_alloc_eq split: if_splits)
  have bits: "slot_bits nrules \<le> 20" by (simp add: slot_bits_def)
  then have pow: "unat (nslot h') = 2 ^ slot_bits nrules"
    unfolding slots by (intro unat_pow2) simp
  have "2 * 2 ^ slot_bits nrules \<le> unat nrules \<and> unat nrules < 4 * 2 ^ slot_bits nrules"
    if small: "4 \<le> unat nrules" "unat nrules < 2 ^ 22"
  proof -
    define b where "b = bitlen (unat nrules)"
    have b: "2 ^ (b - 1) \<le> unat nrules" "unat nrules < 2 ^ b"
      using bitlen_bounds [of "unat nrules"] small by (auto simp: b_def)
    have "(2 :: nat) ^ 2 < 2 ^ b" using b small by simp
    then have "2 < b" by (rule power_less_imp_less_exp [rotated]) simp
    have "(2 :: nat) ^ (b - 1) < 2 ^ 22" using b small by linarith
    then have "b - 1 < 22" by (rule power_less_imp_less_exp [rotated]) simp
    then have sb: "slot_bits nrules = b - 2" using \<open>2 < b\<close> by (simp add: slot_bits_def b_def)
    obtain j where "b = Suc (Suc j)" using \<open>2 < b\<close> by (metis less_imp_Suc_add Suc_1 add_2_eq_Suc)
    with b show ?thesis by (simp add: sb)
  qed
  with avtab_alloc_wf [OF assms] bits pow slots show ?thesis by auto
qed

theorem avtab_alloc_size_witness:
  "\<exists>h'. avtab_alloc no_oom empty_avtab 1000 = Inr h' \<and> 2 * unat (nslot h') \<le> 1000 \<and> 1000 < 4 * unat (nslot h')"
proof -
  have "\<exists>h'. avtab_alloc no_oom empty_avtab 1000 = Inr h'" by (simp add: avtab_alloc_eq)
  then show ?thesis using avtab_alloc_size [of 1000 no_oom empty_avtab] by auto
qed

text \<open>
  C27: Whatever a policy file holds, a table that \<^verbatim>\<open>avtab_read\<close> returns is well-formed: chains are
  sorted, every rule is in the slot its hash selects, addresses are distinct and the element
  count is right.
\<close>

theorem avtab_read_wf: "avtab_read m stale a fp vers = Inr (fp', a') \<Longrightarrow> avtab_wf a'"
  by (rule avtab_read_Inr)

lemma le_words_append:
  "length b = k \<Longrightarrow> le_words k (Suc n) (b @ bs) = le_to_cpu b # le_words k n bs"
  by simp

lemma upto32_1: "upto32 1 = [0]"
  by (simp add: upto32_def)

lemma le16_roundtrip [simp]: "le_to_cpu (cpu_to_le 2 w) = (w :: u16)"
  using take_bit_length_eq [of w] by (simp add: le_to_cpu_take)

definition sample_item :: "u8 list" where
  "sample_item = cpu_to_le 2 (1 :: u16) @ cpu_to_le 2 (1 :: u16) @ cpu_to_le 2 (1 :: u16)
     @ cpu_to_le 2 AVTAB_ALLOWED"

lemma read_sample_item:
  assumes "avtab_wf a" and "av_nodes a = []"
  shows "\<exists>fp' a'. avtab_read_item stale (mem_file p (sample_item @ cpu_to_le32 5)) 30 a (avtab_insertf no_oom) ()
    = Inr (fp', a', ())"
proof -
  have 1: "next_entry (mem_file p (sample_item @ cpu_to_le32 5)) 8
      = Inr (mem_file (p @ sample_item) (cpu_to_le32 5), sample_item)"
    by (rule next_entry_mem) (simp add: sample_item_def)
  have 2: "next_entry (mem_file (p @ sample_item) (cpu_to_le32 5)) 4
      = Inr (mem_file ((p @ sample_item) @ cpu_to_le32 5) [], cpu_to_le32 5)"
    using next_entry_mem [of "cpu_to_le32 5" 4 "p @ sample_item" "[]"] by simp
  have w: "le_words 2 4 sample_item = [1, 1, 1, AVTAB_ALLOWED]"
  proof -
    have "(4 :: nat) = Suc (Suc (Suc (Suc 0)))" by simp
    then show ?thesis unfolding sample_item_def by (simp only: le_words_append length_cpu_to_le) simp
  qed
  obtain a' where "avtab_insert no_oom a (sample_key AVTAB_ALLOWED) \<lparr>avdata = 5, xperms = None\<rparr> = Inr a'"
    using avtab_insert_total [OF assms(1), of "sample_key AVTAB_ALLOWED" "\<lparr>avdata = 5, xperms = None\<rparr>"]
      insert_search_spec(2) [OF assms(1), of no_oom "sample_key AVTAB_ALLOWED" "\<lparr>avdata = 5, xperms = None\<rparr>"] assms(2)
    by auto
  then show ?thesis
    by (simp add: avtab_read_item_def 1 2 w POLICYDB_VERSION_AVTAB_def POLICYDB_VERSION_XPERMS_IOCTL_def
        spec_order_def avtab_consts avtab_insertf_def sample_key_def [unfolded avtab_consts])
qed

theorem avtab_read_wf_witness:
  "\<exists>fp' a'. avtab_read no_oom (\<lambda>_. 0) empty_avtab (mem_file [] (cpu_to_le32 1 @ sample_item @ cpu_to_le32 5)) 30
     = Inr (fp', a') \<and> avtab_wf a'"
proof -
  have 1: "next_entry (mem_file [] (cpu_to_le32 1 @ sample_item @ cpu_to_le32 5)) 4
      = Inr (mem_file ([] @ cpu_to_le32 1) (sample_item @ cpu_to_le32 5), cpu_to_le32 1)"
    by (rule next_entry_mem) simp
  obtain a1 where a1: "avtab_alloc no_oom empty_avtab 1 = Inr a1" by (simp add: avtab_alloc_eq)
  have one: "(1 :: u32) \<noteq> 0" by simp
  note wf = avtab_alloc_wf [OF one a1]
  obtain fp' a' where "avtab_read_item (\<lambda>_. 0) (mem_file ([] @ cpu_to_le32 1) (sample_item @ cpu_to_le32 5)) 30 a1
      (avtab_insertf no_oom) () = Inr (fp', a', ())"
    using read_sample_item [OF wf] by blast
  then have "avtab_read no_oom (\<lambda>_. 0) empty_avtab (mem_file [] (cpu_to_le32 1 @ sample_item @ cpu_to_le32 5)) 30
      = Inr (fp', a')"
    by (simp add: avtab_read_def 1 [simplified] a1 upto32_1)
  with avtab_read_wf show ?thesis by blast
qed

lemma le_words_concat: "le_words 4 (length ws) (concat (map cpu_to_le32 ws) @ d) = ws"
  by (induction ws) simp_all

lemma insert_fresh_kind:
  assumes "avtab_wf a" and "\<forall>n \<in> set (av_nodes a). spec_of (sample_key s) AND specified (nkey n) = 0"
  obtains a' where "avtab_insert no_oom a (sample_key s) d = Inr a'" "avtab_wf a'"
    "set (av_nodes a') = insert (new_node a (sample_key s) d) (set (av_nodes a))"
  using avtab_insert_total [OF assms(1), of "sample_key s" d] insert_search_spec [OF assms(1), of no_oom "sample_key s" d]
    assms(2) by (auto simp: node_matches_def)

definition old_item :: "u32 list" where
  "old_item = [1, 1, 1, 0x707, 0, 0, 0, 0]"

lemma old_loop_overrun:
  assumes wf: "avtab_wf a" and empty: "av_nodes a = []"
  shows "for_each (old_spec_step (avtab_insertf no_oom) 0x707 0 (sample_key 0) old_item) spec_order (4, a, ())
    = Inl UB"
proof -
  let ?d = "\<lparr>avdata = 0, xperms = None\<rparr>"
  obtain a1 where a1: "avtab_insert no_oom a (sample_key 1) ?d = Inr a1" "avtab_wf a1"
    "set (av_nodes a1) = {new_node a (sample_key 1) ?d}"
    using empty insert_fresh_kind [OF wf, where s = 1 and d = ?d] by auto
  obtain a2 where a2: "avtab_insert no_oom a1 (sample_key 4) ?d = Inr a2" "avtab_wf a2"
    "set (av_nodes a2) = {new_node a1 (sample_key 4) ?d, new_node a (sample_key 1) ?d}"
    using insert_fresh_kind [OF a1(2), where s = 4 and d = ?d] a1(3)
    by (auto simp: new_node_def sample_key_def spec_of_def avtab_consts)
  obtain a3 where a3: "avtab_insert no_oom a2 (sample_key 2) ?d = Inr a3" "avtab_wf a3"
    "set (av_nodes a3) = {new_node a2 (sample_key 2) ?d, new_node a1 (sample_key 4) ?d, new_node a (sample_key 1) ?d}"
    using insert_fresh_kind [OF a2(2), where s = 2 and d = ?d] a2(3)
    by (auto simp: new_node_def sample_key_def spec_of_def avtab_consts)
  have "\<forall>n \<in> set (av_nodes a3). spec_of (sample_key 0x100) AND specified (nkey n) = 0"
    by (simp add: a3(3) new_node_def sample_key_def spec_of_def avtab_consts)
  from insert_fresh_kind [OF a3(2) this] obtain a4
    where a4: "avtab_insert no_oom a3 (sample_key 0x100) ?d = Inr a4" by metis
  have key: "sample_key 0\<lparr>specified := x\<rparr> = sample_key x" for x by (simp add: sample_key_def)
  show ?thesis
    by (simp add: spec_order_def avtab_consts old_spec_step_def avtab_insertf_def old_item_def idx_def key
        a1(1) a2(1) a3(1) a4)
qed

text \<open>
  An item in the format before version 20 whose kinds are three access vectors and extended
  permissions makes \<^verbatim>\<open>avtab_read_item\<close> read behind the end of its local buffer of eight words: the
  number of data words consumed is compared with the number read only after the loop.
\<close>

theorem avtab_read_item_overrun:
  assumes "vers < POLICYDB_VERSION_AVTAB" and "avtab_wf a" and "av_nodes a = []"
  shows "avtab_read_item stale (mem_file p (cpu_to_le32 8 @ concat (map cpu_to_le32 old_item) @ d)) vers a
    (avtab_insertf no_oom) () = Inl UB"
proof -
  let ?b = "concat (map cpu_to_le32 old_item)"
  have len: "length ?b = 32" and len8: "length old_item = 8" by (simp_all add: old_item_def)
  have 1: "next_entry (mem_file p (cpu_to_le32 8 @ ?b @ d)) 4 = Inr (mem_file (p @ cpu_to_le32 8) (?b @ d), cpu_to_le32 8)"
    by (rule next_entry_mem) simp
  have 2: "next_entry (mem_file (p @ cpu_to_le32 8) (?b @ d)) 32 = Inr (mem_file ((p @ cpu_to_le32 8) @ ?b) d, ?b)"
    by (rule next_entry_mem) (rule len)
  have w: "le_words 4 8 ?b = old_item"
    using le_words_concat [of old_item "[]"] len8 by simp
  show ?thesis
    using assms(1) old_loop_overrun [OF assms(2,3)]
    by (simp add: avtab_read_item_def avtab_read_item_old_def 1 2 w)
      (simp add: old_item_def avtab_consts sample_key_def)
qed

theorem avtab_read_item_overrun_witness:
  "avtab_read_item (\<lambda>_. 0) (mem_file [] (cpu_to_le32 8 @ concat (map cpu_to_le32 old_item) @ [])) 19 empty_avtab
    (avtab_insertf no_oom) () = Inl UB"
  by (rule avtab_read_item_overrun [OF _ empty_avtab_wf])
    (simp_all add: POLICYDB_VERSION_AVTAB_def av_nodes_def empty_avtab_def)

end
