(* ===== verification/Conditional.thy ===== *)
theory Conditional
  imports Policydb_Sets Avtab_Laws
begin

text \<open>
  Conditional policy, \<^verbatim>\<open>src/conditional.c\<close>: evaluation of the expressions in reverse Polish
  notation, the switching of the rules that depend on them, normalisation and comparison of
  expressions, and reading.

  The lists of a conditional hold addresses of nodes of \<^verbatim>\<open>te_cond_avtab\<close>; dereferencing an
  address that no node of the table has is undefined behaviour.
\<close>

definition COND_EXPR_MAXDEPTH :: nat where "COND_EXPR_MAXDEPTH = 10"
definition COND_MAX_BOOLS :: u32 where "COND_MAX_BOOLS = 5"
definition COND_BOOL :: u32 where "COND_BOOL = 1"
definition COND_NOT :: u32 where "COND_NOT = 2"
definition COND_OR :: u32 where "COND_OR = 3"
definition COND_AND :: u32 where "COND_AND = 4"
definition COND_XOR :: u32 where "COND_XOR = 5"
definition COND_EQ :: u32 where "COND_EQ = 6"
definition COND_NEQ :: u32 where "COND_NEQ = 7"
definition COND_LAST :: u32 where "COND_LAST = COND_NEQ"

lemmas cond_consts = COND_BOOL_def COND_NOT_def COND_OR_def COND_AND_def COND_XOR_def COND_EQ_def
  COND_NEQ_def COND_LAST_def

definition av_deref :: "avtab \<Rightarrow> nat \<Rightarrow> avtab_node result" where
  "av_deref h a =
     (case find (\<lambda>n. naddr n = a) (av_nodes h) of None \<Rightarrow> Inl UB | Some n \<Rightarrow> Inr n)"

definition av_modify :: "(avtab_node \<Rightarrow> avtab_node) \<Rightarrow> nat \<Rightarrow> avtab \<Rightarrow> avtab result" where
  "av_modify f a h =
     rbind (av_deref h a) (\<lambda>_.
       Inr (h\<lparr>avslots := map_option (map (map (\<lambda>n. if naddr n = a then f n else n))) (avslots h)\<rparr>))"

section \<open>Order of the rule lists\<close>

text \<open>
  \<^verbatim>\<open>cond_optimize\<close> moves rules to the front one at a time: \<open>front\<close> is the part of the list already
  behind the cursor, \<open>rest\<close> starts at the cursor.  The first element stays where it is.
\<close>

fun optimize_loop :: "avtab \<Rightarrow> nat list \<Rightarrow> nat list \<Rightarrow> nat list result" where
  "optimize_loop h front [] = Inr front"
| "optimize_loop h front (cur # rest) =
     rbind (av_deref h cur) (\<lambda>n.
       if specified (nkey n) AND AVTAB_TYPE \<noteq> 0 \<and> front \<noteq> []
       then optimize_loop h (cur # front) rest
       else optimize_loop h (front @ [cur]) rest)"

definition cond_optimize :: "avtab \<Rightarrow> nat list \<Rightarrow> nat list result" where
  "cond_optimize h l = optimize_loop h [] l"

fun cond_optimize_lists :: "avtab \<Rightarrow> cond_node list \<Rightarrow> cond_node list result" where
  "cond_optimize_lists h [] = Inr []"
| "cond_optimize_lists h (n # cl) =
     rbind (cond_optimize h (true_list n)) (\<lambda>t. rbind (cond_optimize h (false_list n)) (\<lambda>f.
       rbind (cond_optimize_lists h cl) (\<lambda>cl. Inr (n\<lparr>true_list := t, false_list := f\<rparr> # cl))))"

section \<open>Comparison of expressions\<close>

text \<open>The scan of the first \<open>k\<close> elements for the target.\<close>

fun present_loop :: "u32 \<Rightarrow> u32 list \<Rightarrow> nat \<Rightarrow> bool result" where
  "present_loop target bools 0 = Inr False"
| "present_loop target [] (Suc k) = Inl UB"
| "present_loop target (b # bools) (Suc k) =
     (if target = b then Inr True else present_loop target bools k)"

definition bool_present :: "u32 \<Rightarrow> u32 list \<Rightarrow> u32 \<Rightarrow> bool result" where
  "bool_present target bools num_bools =
     (if num_bools > COND_MAX_BOOLS then Inr False
      else present_loop target bools (unat num_bools))"

fun same_loop :: "u32 list \<Rightarrow> u32 list \<Rightarrow> u32 \<Rightarrow> u32 list \<Rightarrow> bool result" where
  "same_loop as bs x [] = Inr True"
| "same_loop as bs x (i # is) =
     rbind (idx as (unat i)) (\<lambda>a. rbind (bool_present a bs x) (\<lambda>r.
       if \<not> r then Inr False else same_loop as bs x is))"

definition same_bools :: "cond_node \<Rightarrow> cond_node \<Rightarrow> bool result" where
  "same_bools a b =
     (let x = nbools a in
      if x \<noteq> nbools b then Inr False else same_loop (bool_ids a) (bool_ids b) x (upto32 x))"

fun same_exprs :: "cond_expr list \<Rightarrow> cond_expr list \<Rightarrow> bool" where
  "same_exprs [] [] = True"
| "same_exprs (a # as) (b # bs) =
     (if cond_type a \<noteq> cond_type b then False
      else if cond_type a = COND_BOOL \<and> cond_bool a \<noteq> cond_bool b then False
      else same_exprs as bs)"
| "same_exprs _ _ = False"

definition cond_expr_equal :: "cond_node option \<Rightarrow> cond_node option \<Rightarrow> bool result" where
  "cond_expr_equal a b =
     (case (a, b) of
        (Some a, Some b) \<Rightarrow>
          if nbools a \<noteq> nbools b then Inr False
          else if nbools a \<le> COND_MAX_BOOLS \<and> nbools b \<le> COND_MAX_BOOLS
          then rbind (same_bools a b) (\<lambda>r.
                 if \<not> r then Inr False else Inr (expr_pre_comp a = expr_pre_comp b))
          else Inr (same_exprs (cond_exprs a) (cond_exprs b))
      | _ \<Rightarrow> Inr False)"

section \<open>Evaluation\<close>

definition of_bool_int :: "bool \<Rightarrow> int" where
  "of_bool_int b = (if b then 1 else 0)"

definition cond_binop :: "u32 \<Rightarrow> (int \<Rightarrow> int \<Rightarrow> int) option" where
  "cond_binop t =
     (if t = COND_OR then Some (\<lambda>a b. a OR b)
      else if t = COND_AND then Some (\<lambda>a b. a AND b)
      else if t = COND_XOR then Some (\<lambda>a b. a XOR b)
      else if t = COND_EQ then Some (\<lambda>a b. of_bool_int (a = b))
      else if t = COND_NEQ then Some (\<lambda>a b. of_bool_int (a \<noteq> b))
      else None)"

text \<open>
  The stack \<^verbatim>\<open>s[0..sp]\<close> is the list \<open>st\<close> with its top first; \<^verbatim>\<open>s[0]\<close> is \<open>-1\<close> before anything is
  pushed.
\<close>

fun eval_loop :: "cond_bool_datum option list \<Rightarrow> cond_expr list \<Rightarrow> int list \<Rightarrow> int result" where
  "eval_loop bools [] st = Inr (if st = [] then -1 else last st)"
| "eval_loop bools (cur # rest) st =
     (if cond_type cur = COND_BOOL
      then if length st = COND_EXPR_MAXDEPTH then Inr (-1)
           else rbind (val_idx bools (cond_bool cur)) (\<lambda>d. eval_loop bools rest (state d # st))
      else if cond_type cur = COND_NOT
      then (case st of [] \<Rightarrow> Inr (-1) | a # st \<Rightarrow> eval_loop bools rest (of_bool_int (a = 0) # st))
      else (case cond_binop (cond_type cur) of
              None \<Rightarrow> Inr (-1)
            | Some f \<Rightarrow> (case st of
                b # a # st \<Rightarrow> eval_loop bools rest (f a b # st)
              | _ \<Rightarrow> Inr (-1))))"

definition cond_evaluate_expr :: "policydb \<Rightarrow> cond_expr list \<Rightarrow> int result" where
  "cond_evaluate_expr p expr = eval_loop (bool_val_to_struct p) expr []"

text \<open>The empty list stands for \<^verbatim>\<open>NULL\<close>.\<close>

definition cond_copy_expr :: "alloc \<Rightarrow> cond_expr list \<Rightarrow> cond_expr list" where
  "cond_copy_expr m expr =
     (if list_all (\<lambda>i. malloc (at_site i m)) [0..<length expr] then expr else [])"

section \<open>Conditional nodes\<close>

definition empty_cond_node :: cond_node where
  "empty_cond_node =
     \<lparr>cur_state = 0, cond_exprs = [], true_list = [], false_list = [], avtrue_list = [],
      avfalse_list = [], nbools = 0, bool_ids = replicate 5 0, expr_pre_comp = 0, cond_flags = 0\<rparr>"

text \<open>\<^verbatim>\<open>cond_node_create\<close> answers \<open>None\<close> for \<^verbatim>\<open>NULL\<close>.\<close>

definition cond_node_create :: "alloc \<Rightarrow> policydb \<Rightarrow> cond_node option \<Rightarrow> cond_node option result" where
  "cond_node_create m p node =
     (if \<not> malloc (at_site 0 m) then Inr None
      else case node of
        None \<Rightarrow> Inr (Some empty_cond_node)
      | Some node \<Rightarrow>
          let e = cond_copy_expr (at_site 1 m) (cond_exprs node) in
          if e = [] then Inr None
          else rbind (cond_evaluate_expr p e) (\<lambda>st.
            let k = unat (min (nbools node) COND_MAX_BOOLS) in
            Inr (Some (empty_cond_node\<lparr>cond_exprs := e, cur_state := st, nbools := nbools node,
              bool_ids := take k (bool_ids node) @ drop k (bool_ids empty_cond_node),
              expr_pre_comp := expr_pre_comp node, cond_flags := cond_flags node\<rparr>))))"

text \<open>
  A reference to a conditional: the position of a node of the list searched, or a new node, if
  there was memory for it.
\<close>

datatype cond_ref = Existing nat | Created "cond_node option"

fun find_loop :: "nat \<Rightarrow> cond_node \<Rightarrow> cond_node list \<Rightarrow> nat option result" where
  "find_loop i needle [] = Inr None"
| "find_loop i needle (hay # rest) =
     rbind (cond_expr_equal (Some needle) (Some hay)) (\<lambda>r.
       if r then Inr (Some i) else find_loop (i + 1) needle rest)"

definition cond_node_find :: "alloc \<Rightarrow> policydb \<Rightarrow> cond_node \<Rightarrow> cond_node list \<Rightarrow> cond_ref result" where
  "cond_node_find m p needle haystack =
     rbind (find_loop 0 needle haystack) (\<lambda>r.
       case r of
         Some i \<Rightarrow> Inr (Existing i)
       | None \<Rightarrow> rbind (cond_node_create m p (Some needle)) (\<lambda>n. Inr (Created n)))"

definition cond_node_search ::
  "alloc \<Rightarrow> policydb \<Rightarrow> cond_node list \<Rightarrow> cond_node \<Rightarrow> (policydb \<times> cond_ref) result"
where
  "cond_node_search m p l cn =
     rbind (cond_node_find m p cn l) (\<lambda>r.
       case r of
         Created (Some n) \<Rightarrow> Inr (p\<lparr>cond_list := n # cond_list p\<rparr>, r)
       | _ \<Rightarrow> Inr (p, r))"

text \<open>Switching one rule on or off.\<close>

definition set_enabled :: "bool \<Rightarrow> avtab_node \<Rightarrow> avtab_node" where
  "set_enabled on n =
     n\<lparr>nkey := (nkey n)\<lparr>specified :=
         (if on then specified (nkey n) OR AVTAB_ENABLED else specified (nkey n) AND NOT AVTAB_ENABLED)\<rparr>\<rparr>"

definition evaluate_cond_node :: "policydb \<Rightarrow> cond_node \<Rightarrow> (policydb \<times> cond_node) result" where
  "evaluate_cond_node p node =
     rbind (cond_evaluate_expr p (cond_exprs node)) (\<lambda>new_state.
       if new_state \<noteq> cur_state node
       then rbind (for_each (av_modify (set_enabled (\<not> new_state \<le> 0))) (true_list node) (te_cond_avtab p)) (\<lambda>h.
              rbind (for_each (av_modify (set_enabled (new_state = 0))) (false_list node) h) (\<lambda>h.
                Inr (p\<lparr>te_cond_avtab := h\<rparr>, node\<lparr>cur_state := new_state\<rparr>)))
       else Inr (p, node))"

text \<open>The nodes already evaluated are the first ones of the list.\<close>

fun evaluate_loop :: "policydb \<Rightarrow> cond_node list \<Rightarrow> cond_node list \<Rightarrow> (policydb \<times> cond_node list) result" where
  "evaluate_loop p ev [] = Inr (p, ev)"
| "evaluate_loop p ev (cur # rest) =
     rbind (evaluate_cond_node p cur) (\<lambda>(p, cur). evaluate_loop p (ev @ [cur]) rest)"

definition evaluate_conds :: "policydb \<Rightarrow> policydb result" where
  "evaluate_conds p =
     rbind (evaluate_loop p [] (cond_list p)) (\<lambda>(p, cl). Inr (p\<lparr>cond_list := cl\<rparr>))"

section \<open>Normalisation\<close>

text \<open>\<^verbatim>\<open>p->bool_val_to_struct[b - 1]->state = v\<close>\<close>

definition set_bool_state :: "u32 \<Rightarrow> int \<Rightarrow> policydb \<Rightarrow> policydb result" where
  "set_bool_state b v p =
     rbind (val_idx (bool_val_to_struct p) b) (\<lambda>d.
       rbind (val_set (bool_val_to_struct p) b (d\<lparr>state := v\<rparr>)) (\<lambda>bs. Inr (p\<lparr>bool_val_to_struct := bs\<rparr>)))"

text \<open>The Booleans of the expression, recorded up to \<^verbatim>\<open>COND_MAX_BOOLS\<close>.\<close>

definition collect_bool :: "cond_expr \<Rightarrow> u32 \<times> u32 list \<Rightarrow> (u32 \<times> u32 list) result" where
  "collect_bool e = (\<lambda>(nb, ids).
     if cond_type e = COND_BOOL
     then rbind (bool_present (cond_bool e) ids nb) (\<lambda>r.
            if r then Inr (nb, ids)
            else if nb < COND_MAX_BOOLS then Inr (nb + 1, ids[unat nb := cond_bool e])
            else Inr (nb + 1, ids))
     else Inr (nb, ids))"

definition assign_bools :: "u32 list \<Rightarrow> u32 \<Rightarrow> u32 \<Rightarrow> policydb \<Rightarrow> policydb result" where
  "assign_bools ids nb test p =
     for_each
       (\<lambda>j p. rbind (idx ids (unat j)) (\<lambda>b.
          set_bool_state b (if test AND push_bit (unat j) 1 \<noteq> 0 then 1 else 0) p))
       (upto32 nb) p"

text \<open>The loop over all combinations of values; the last component is the value returned.\<close>

fun precomp_loop ::
  "u32 list \<Rightarrow> u32 \<Rightarrow> cond_expr list \<Rightarrow> u32 list \<Rightarrow> policydb \<Rightarrow> u32 \<Rightarrow> (policydb \<times> u32 \<times> int) result"
where
  "precomp_loop ids nb e [] p pre = Inr (p, pre, 0)"
| "precomp_loop ids nb e (test # tests) p pre =
     rbind (assign_bools ids nb test p) (\<lambda>p.
       rbind (cond_evaluate_expr p e) (\<lambda>k.
         if k = -1 then Inr (p, pre, -1)
         else precomp_loop ids nb e tests p (if k \<noteq> 0 then pre OR push_bit (unat test) 1 else pre)))"

definition save_bools :: "policydb \<Rightarrow> u32 list \<Rightarrow> u32 \<Rightarrow> int list result" where
  "save_bools p ids nb =
     for_each
       (\<lambda>i orig. rbind (idx ids (unat i)) (\<lambda>b.
          rbind (val_idx (bool_val_to_struct p) b) (\<lambda>d. Inr (orig @ [state d]))))
       (upto32 nb) []"

definition restore_bools :: "u32 list \<Rightarrow> int list \<Rightarrow> u32 \<Rightarrow> policydb \<Rightarrow> policydb result" where
  "restore_bools ids orig nb p =
     for_each
       (\<lambda>i p. rbind (idx ids (unat i)) (\<lambda>b. rbind (idx orig (unat i)) (\<lambda>v. set_bool_state b v p)))
       (upto32 nb) p"

text \<open>The expression without a final negation, the lists exchanged if there was one.\<close>

definition strip_not :: "cond_node \<Rightarrow> cond_node option result" where
  "strip_not cn =
     (if cond_exprs cn = [] then Inl UB
      else if cond_type (last (cond_exprs cn)) = COND_NOT
      then if length (cond_exprs cn) = 1 then Inr None
           else Inr (Some (cn\<lparr>cond_exprs := butlast (cond_exprs cn),
                  true_list := false_list cn, false_list := true_list cn,
                  avtrue_list := avfalse_list cn, avfalse_list := avtrue_list cn\<rparr>))
      else Inr (Some cn))"

definition cond_normalize_expr :: "policydb \<Rightarrow> cond_node \<Rightarrow> (policydb \<times> cond_node \<times> int) result" where
  "cond_normalize_expr p cn =
     (let cn = cn\<lparr>nbools := 0, bool_ids := replicate 5 0, expr_pre_comp := 0\<rparr> in
      rbind (strip_not cn) (\<lambda>r. case r of
        None \<Rightarrow> Inr (p, cn, -1)
      | Some cn \<Rightarrow>
          rbind (for_each collect_bool (cond_exprs cn) (0, bool_ids cn)) (\<lambda>(nb, ids).
            let cn = cn\<lparr>nbools := nb, bool_ids := ids\<rparr> in
            if nb \<le> COND_MAX_BOOLS
            then rbind (save_bools p ids nb) (\<lambda>orig.
                   rbind (precomp_loop ids nb (cond_exprs cn) (upto32 (push_bit (unat nb) 1)) p 0)
                     (\<lambda>(p, pre, rc).
                        let cn = cn\<lparr>expr_pre_comp := pre\<rparr> in
                        if rc = -1 then Inr (p, cn, -1)
                        else rbind (restore_bools ids orig nb p) (\<lambda>p. Inr (p, cn, 0))))
            else Inr (p, cn, 0))))"

section \<open>Initialisation and indexing\<close>

definition cond_policydb_init :: "policydb \<Rightarrow> policydb" where
  "cond_policydb_init p =
     p\<lparr>bool_val_to_struct := [], cond_list := [], te_cond_avtab := avtab_init (te_cond_avtab p)\<rparr>"

text \<open>Memory that has been freed is not accessible any more.\<close>

definition cond_policydb_destroy :: "policydb \<Rightarrow> policydb" where
  "cond_policydb_destroy p =
     p\<lparr>bool_val_to_struct := [], te_cond_avtab := avtab_destroy (te_cond_avtab p), cond_list := []\<rparr>"

text \<open>The array is not initialised; without memory it is \<^verbatim>\<open>NULL\<close> and \<^verbatim>\<open>-1\<close> is returned.\<close>

definition cond_init_bool_indexes :: "alloc \<Rightarrow> policydb \<Rightarrow> policydb \<times> int" where
  "cond_init_bool_indexes m p =
     (if malloc m then (p\<lparr>bool_val_to_struct := replicate (unat (nprim (p_bools p))) None\<rparr>, 0)
      else (p\<lparr>bool_val_to_struct := []\<rparr>, -1))"

definition cond_index_bool :: "string \<Rightarrow> cond_bool_datum \<Rightarrow> policydb \<Rightarrow> policydb result" where
  "cond_index_bool key d p =
     (if bool_value d = 0 \<or> bool_value d > nprim (p_bools p) then Inl EINVAL
      else rbind (val_set (p_bool_val_to_name p) (bool_value d) key) (\<lambda>nm.
        rbind (val_set (bool_val_to_struct p) (bool_value d) d) (\<lambda>bs.
          Inr (p\<lparr>p_bool_val_to_name := nm, bool_val_to_struct := bs\<rparr>))))"

section \<open>Reading\<close>

definition MOD_POLICYDB_VERSION_TUNABLE_SEP :: u32 where "MOD_POLICYDB_VERSION_TUNABLE_SEP = 14"

definition bool_isvalid :: "cond_bool_datum \<Rightarrow> bool" where
  "bool_isvalid b \<longleftrightarrow> state b = 0 \<or> state b = 1"

text \<open>
  A name of \<open>n\<close> bytes: with \<^verbatim>\<open>malloc(len + 1)\<close> and \<^verbatim>\<open>key[len] = 0\<close>, the sum in 32 bits.
\<close>

definition read_key :: "alloc \<Rightarrow> policy_file \<Rightarrow> u32 \<Rightarrow> (policy_file \<times> string) result" where
  "read_key m fp n =
     (if \<not> malloc m then Inl STATUS_ERR
      else rbind (or_status (next_entry fp (unat n))) (\<lambda>(fp, bs).
        if n + 1 = 0 then Inl UB else Inr (fp, cstring bs)))"

definition cond_read_bool ::
  "alloc \<Rightarrow> policydb \<Rightarrow> (string, cond_bool_datum) hashtab \<Rightarrow> policy_file
     \<Rightarrow> (policy_file \<times> (string, cond_bool_datum) hashtab) result"
where
  "cond_read_bool m p h fp =
     (if \<not> malloc (at_site 0 m) then Inl STATUS_ERR
      else rbind (or_status (next_entry fp 12)) (\<lambda>(fp, b).
        let buf = le_words 4 3 b :: u32 list;
            d = \<lparr>bool_value = buf ! 0, state = sint (buf ! 1), bool_flags = 0\<rparr> in
        if \<not> bool_isvalid d then Inl STATUS_ERR
        else rbind (read_key (at_site 1 m) fp (buf ! 2)) (\<lambda>(fp, key).
          rbind (if policy_type p \<noteq> POLICY_KERN \<and> policyvers p \<ge> MOD_POLICYDB_VERSION_TUNABLE_SEP
                 then rbind (read_u32 fp) (\<lambda>(fp, f). Inr (fp, d\<lparr>bool_flags := f\<rparr>))
                 else Inr (fp, d)) (\<lambda>(fp, d).
            rbind (or_status (hashtab_insert (at_site 2 m) h key d)) (\<lambda>h. Inr (fp, h))))))"

text \<open>
  The conflicts of a type rule: with the unconditional rules, and with the conditional ones
  unless the only one is in the other list.
\<close>

definition type_rule_conflict :: "avtab \<Rightarrow> nat list \<Rightarrow> avtab \<Rightarrow> avtab_key \<Rightarrow> bool result" where
  "type_rule_conflict te other a k =
     (if specified k AND AVTAB_TYPE = 0 then Inr False
      else rbind (avtab_search te k) (\<lambda>r.
        if r \<noteq> None then Inr True
        else if other \<noteq> []
        then rbind (avtab_search_node a k) (\<lambda>ns.
          case ns of
            [] \<Rightarrow> Inr False
          | n # _ \<Rightarrow>
              if avtab_search_node_next ns (ucast (specified k)) \<noteq> [] then Inr True
              else Inr (\<not> list_ex (\<lambda>cur. cur = naddr n) other))
        else rbind (avtab_search a k) (\<lambda>r. Inr (r \<noteq> None))))"

text \<open>
  \<^verbatim>\<open>cond_insertf\<close> is called with the table \<^verbatim>\<open>p->te_cond_avtab\<close> as \<open>a\<close>, the unconditional table \<open>te\<close>,
  the list \<open>other\<close> (empty for \<^verbatim>\<open>NULL\<close>) and the list built so far.
\<close>

definition cond_insertf ::
  "alloc \<Rightarrow> avtab \<Rightarrow> nat list \<Rightarrow> avtab \<Rightarrow> avtab_key \<Rightarrow> avtab_datum \<Rightarrow> nat list \<Rightarrow> (avtab \<times> nat list) result"
where
  "cond_insertf m te other a k d lst =
     rbind (type_rule_conflict te other a k) (\<lambda>c.
       if c then Inl STATUS_ERR
       else rbind (avtab_insert_nonunique (at_site (length lst) (at_site 0 m)) a k d) (\<lambda>r.
         case r of
           None \<Rightarrow> Inl STATUS_ERR
         | Some (a, ad) \<Rightarrow>
             rbind (av_modify (\<lambda>n. n\<lparr>parse_context := 1\<rparr>) ad a) (\<lambda>a.
               if \<not> malloc (at_site (length lst) (at_site 1 m)) then Inl STATUS_ERR else Inr (a, lst @ [ad]))))"

definition cond_read_av_list ::
  "alloc \<Rightarrow> (nat \<Rightarrow> u32) \<Rightarrow> policydb \<Rightarrow> policy_file \<Rightarrow> nat list \<Rightarrow> (policydb \<times> policy_file \<times> nat list) result"
where
  "cond_read_av_list m stale p fp other =
     rbind (read_u32 fp) (\<lambda>(fp, len).
       if len = 0 then Inr (p, fp, [])
       else rbind (for_each
              (\<lambda>i (fp, a, lst). avtab_read_item stale fp (policyvers p) a (cond_insertf m (te_avtab p) other) lst)
              (upto32 len) (fp, te_cond_avtab p, [])) (\<lambda>(fp, a, lst). Inr (p\<lparr>te_cond_avtab := a\<rparr>, fp, lst)))"

definition expr_isvalid :: "policydb \<Rightarrow> cond_expr \<Rightarrow> bool" where
  "expr_isvalid p e =
     (if cond_type e \<le> 0 \<or> cond_type e > COND_LAST then False
      else if cond_bool e > nprim (p_bools p) then False
      else True)"

definition read_exprs :: "alloc \<Rightarrow> policydb \<Rightarrow> u32 \<Rightarrow> policy_file \<Rightarrow> (policy_file \<times> cond_expr list) result" where
  "read_exprs m p n fp =
     for_each
       (\<lambda>i (fp, es). rbind (or_status (next_entry fp 8)) (\<lambda>(fp, b).
          if \<not> malloc (at_site i m) then Inl STATUS_ERR
          else
            let buf = le_words 4 2 b;
                e = \<lparr>cond_type = buf ! 0, cond_bool = buf ! 1\<rparr> in
            if \<not> expr_isvalid p e then Inl STATUS_ERR else Inr (fp, es @ [e])))
       [0..<nat (sint n)] (fp, [])"

definition cond_read_node ::
  "alloc \<Rightarrow> (nat \<Rightarrow> u32) \<Rightarrow> policydb \<Rightarrow> cond_node \<Rightarrow> policy_file \<Rightarrow> (policydb \<times> policy_file \<times> cond_node) result"
where
  "cond_read_node m stale p node fp =
     rbind (read_u32 fp) (\<lambda>(fp, st). rbind (read_u32 fp) (\<lambda>(fp, len).
       rbind (read_exprs (at_site 0 m) p len fp) (\<lambda>(fp, es).
         let node = node\<lparr>cur_state := sint st, cond_exprs := es\<rparr> in
         rbind (if policy_type p = POLICY_KERN
                then rbind (cond_read_av_list (at_site 1 m) stale p fp []) (\<lambda>(p, fp, t).
                       rbind (cond_read_av_list (at_site 2 m) stale p fp t) (\<lambda>(p, fp, f).
                         Inr (p, fp, node\<lparr>true_list := t, false_list := f\<rparr>)))
                else rbind (avrule_read_list (at_site 1 m) fp) (\<lambda>(fp, t).
                       rbind (avrule_read_list (at_site 2 m) fp) (\<lambda>(fp, f).
                         Inr (p, fp, node\<lparr>avtrue_list := t, avfalse_list := f\<rparr>)))) (\<lambda>(p, fp, node).
           if policy_type p \<noteq> POLICY_KERN \<and> policyvers p \<ge> MOD_POLICYDB_VERSION_TUNABLE_SEP
           then rbind (read_u32 fp) (\<lambda>(fp, f). Inr (p, fp, node\<lparr>cond_flags := f\<rparr>))
           else Inr (p, fp, node)))))"

text \<open>The list is assigned when the first node has been read.\<close>

definition cond_read_list ::
  "alloc \<Rightarrow> (nat \<Rightarrow> u32) \<Rightarrow> policydb \<Rightarrow> cond_node list \<Rightarrow> policy_file
     \<Rightarrow> (policydb \<times> policy_file \<times> cond_node list) result"
where
  "cond_read_list m stale p l fp =
     rbind (read_u32 fp) (\<lambda>(fp, len).
       rbind (or_status (avtab_alloc (at_site 0 m) (te_cond_avtab p) (avnel (te_avtab p)))) (\<lambda>a.
         for_each
           (\<lambda>i (p, fp, nodes).
              if \<not> malloc (at_site i (at_site 1 m)) then Inl STATUS_ERR
              else rbind (cond_read_node (at_site i (at_site 2 m)) stale p empty_cond_node fp) (\<lambda>(p, fp, n).
                Inr (p, fp, (if i = 0 then [n] else nodes @ [n]))))
           [0..<nat (sint len)] (p\<lparr>te_cond_avtab := a\<rparr>, fp, l)))"

section \<open>Access decisions\<close>

record av_decision =
  allowed :: u32
  decided :: u32
  auditallow :: u32
  auditdeny :: u32
  seqno :: u32

definition cond_av_step :: "avtab_node \<Rightarrow> av_decision \<Rightarrow> av_decision" where
  "cond_av_step n avd =
     (let on = (\<lambda>k. k OR AVTAB_ENABLED = specified (nkey n) AND (k OR AVTAB_ENABLED));
          avd = (if on AVTAB_ALLOWED then avd\<lparr>allowed := allowed avd OR avdata (ndatum n)\<rparr> else avd);
          avd = (if on AVTAB_AUDITDENY then avd\<lparr>auditdeny := auditdeny avd AND avdata (ndatum n)\<rparr> else avd);
          avd = (if on AVTAB_AUDITALLOW then avd\<lparr>auditallow := auditallow avd OR avdata (ndatum n)\<rparr> else avd)
      in avd)"

definition cond_compute_av :: "avtab \<Rightarrow> avtab_key \<Rightarrow> av_decision \<Rightarrow> av_decision result" where
  "cond_compute_av ctab key avd =
     rbind (avtab_search_node ctab key) (\<lambda>ns.
       Inr (fold cond_av_step (node_iter (ucast (specified key)) ns) avd))"

fun cond_av_list_search :: "avtab \<Rightarrow> avtab_key \<Rightarrow> nat list \<Rightarrow> avtab_datum option result" where
  "cond_av_list_search h key [] = Inr None"
| "cond_av_list_search h key (cur # rest) =
     rbind (av_deref h cur) (\<lambda>n.
       if source_type (nkey n) = source_type key \<and> target_type (nkey n) = target_type key \<and>
          target_class (nkey n) = target_class key
       then Inr (Some (ndatum n))
       else cond_av_list_search h key rest)"

end
