(* ===== verification/Rpn.thy ===== *)
theory Rpn
  imports Prelude
begin

text \<open>
  Expressions in reverse Polish notation on a stack of bounded depth.  Conditional expressions and
  constraint expressions are both stored this way and evaluated by loops of the same shape; the
  locale states what such a loop does at one token and derives what it does on the notation of a
  whole expression.
\<close>

section \<open>Expressions and their notation\<close>

datatype 't rexp = Leaf 't | Una 't "'t rexp" | Bin 't "'t rexp" "'t rexp"

fun postfix :: "'t rexp \<Rightarrow> 't list" where
  "postfix (Leaf t) = [t]"
| "postfix (Una t a) = postfix a @ [t]"
| "postfix (Bin t a b) = postfix a @ postfix b @ [t]"

text \<open>The number of stack elements the evaluation of an expression needs.\<close>

fun need :: "'t rexp \<Rightarrow> nat" where
  "need (Leaf t) = 1"
| "need (Una t a) = need a"
| "need (Bin t a b) = max (need a) (need b + 1)"

fun well_formed :: "('t \<Rightarrow> bool) \<Rightarrow> ('t \<Rightarrow> bool) \<Rightarrow> ('t \<Rightarrow> bool) \<Rightarrow> 't rexp \<Rightarrow> bool" where
  "well_formed lf un bin (Leaf t) \<longleftrightarrow> lf t"
| "well_formed lf un bin (Una t a) \<longleftrightarrow> un t \<and> well_formed lf un bin a"
| "well_formed lf un bin (Bin t a b) \<longleftrightarrow> bin t \<and> well_formed lf un bin a \<and> well_formed lf un bin b"

text \<open>The value of an expression, from the values of the leaves and the operations.\<close>

fun rvalue :: "('t \<Rightarrow> 'v) \<Rightarrow> ('t \<Rightarrow> 'v \<Rightarrow> 'v) \<Rightarrow> ('t \<Rightarrow> 'v \<Rightarrow> 'v \<Rightarrow> 'v) \<Rightarrow> 't rexp \<Rightarrow> 'v" where
  "rvalue lv uv bv (Leaf t) = lv t"
| "rvalue lv uv bv (Una t a) = uv t (rvalue lv uv bv a)"
| "rvalue lv uv bv (Bin t a b) = bv t (rvalue lv uv bv a) (rvalue lv uv bv b)"

lemma need_pos [simp]: "1 \<le> need e"
  by (induction e) auto

lemma postfix_nonempty [simp]: "postfix e \<noteq> []"
  by (cases e) auto

lemma need_le_length: "need e \<le> length (postfix e)"
proof (induction e)
  case (Bin t a b)
  then show ?case by simp
qed auto

lemma well_formed_mono:
  assumes "well_formed lf un bin e" and "\<And>t. t \<in> set_rexp e \<Longrightarrow> lf t \<Longrightarrow> lf' t"
    and "\<And>t. t \<in> set_rexp e \<Longrightarrow> un t \<Longrightarrow> un' t" and "\<And>t. t \<in> set_rexp e \<Longrightarrow> bin t \<Longrightarrow> bin' t"
  shows "well_formed lf' un' bin' e"
  using assms by (induction e) auto

text \<open>Relating two evaluations of the same expression.\<close>

lemma rvalue_hom:
  assumes "well_formed lf un bin e"
    and "\<And>t. lf t \<Longrightarrow> t \<in> set_rexp e \<Longrightarrow> h (lv t) = lv' t"
    and "\<And>t a. un t \<Longrightarrow> h (uv t a) = uv' t (h a)"
    and "\<And>t a b. bin t \<Longrightarrow> h (bv t a b) = bv' t (h a) (h b)"
  shows "h (rvalue lv uv bv e) = rvalue lv' uv' bv' e"
  using assms by (induction e) auto

section \<open>Evaluation loops\<close>

locale rpn_machine =
  fixes run :: "'t list \<Rightarrow> 'v list \<Rightarrow> 'r"
    and lf :: "'t \<Rightarrow> bool" and un :: "'t \<Rightarrow> bool" and bin :: "'t \<Rightarrow> bool"
    and lv :: "'t \<Rightarrow> 'v" and uv :: "'t \<Rightarrow> 'v \<Rightarrow> 'v" and bv :: "'t \<Rightarrow> 'v \<Rightarrow> 'v \<Rightarrow> 'v"
    and limit :: nat and overflow :: 'r
  assumes run_leaf: "lf t \<Longrightarrow> length st \<le> limit \<Longrightarrow>
      run (t # ts) st = (if length st = limit then overflow else run ts (lv t # st))"
    and run_un: "un t \<Longrightarrow> run (t # ts) (a # st) = run ts (uv t a # st)"
    and run_bin: "bin t \<Longrightarrow> run (t # ts) (b # a # st) = run ts (bv t a b # st)"
begin

abbreviation expr_value where "expr_value \<equiv> rvalue lv uv bv"

text \<open>
  On the notation of an expression the loop pushes its value, or overflows when the stack is too
  small for it.
\<close>

lemma run_postfix:
  assumes "well_formed lf un bin e" and "length st \<le> limit"
  shows "run (postfix e @ ts) st =
    (if length st + need e \<le> limit then run ts (expr_value e # st) else overflow)"
  using assms
proof (induction e arbitrary: ts st)
  case (Leaf t)
  then show ?case by (auto simp: run_leaf)
next
  case (Una t a)
  then show ?case by (simp add: run_un)
next
  case (Bin t a b)
  have a: "run (postfix (Bin t a b) @ ts) st =
      (if length st + need a \<le> limit then run (postfix b @ t # ts) (expr_value a # st) else overflow)"
    using Bin.IH(1) [of st "postfix b @ t # ts"] Bin.prems by simp
  show ?case
  proof (cases "length st + need a \<le> limit")
    case False
    then have "\<not> length st + need (Bin t a b) \<le> limit" by simp
    then show ?thesis using a False by simp
  next
    case True
    then have "length (expr_value a # st) \<le> limit" using need_pos [of a] by (simp del: need_pos)
    then have "run (postfix b @ t # ts) (expr_value a # st) =
        (if length st + 1 + need b \<le> limit then run (t # ts) (expr_value b # expr_value a # st) else overflow)"
      using Bin.IH(2) [of "expr_value a # st" "t # ts"] Bin.prems by simp
    moreover have "length st + need (Bin t a b) \<le> limit \<longleftrightarrow> length st + 1 + need b \<le> limit"
      using True by (simp add: max_def)
    ultimately show ?thesis using a True Bin.prems by (simp only: well_formed.simps rvalue.simps run_bin if_True)
  qed
qed

lemma run_expr:
  assumes "well_formed lf un bin e"
  shows "run (postfix e) [] = (if need e \<le> limit then run [] [expr_value e] else overflow)"
  using run_postfix [OF assms, of "[]" "[]"] by simp

end

end
