(* ===== verification/Conditional_Laws.thy ===== *)
theory Conditional_Laws
  imports Conditional Rpn "HOL-Library.Multiset"
begin

text \<open>
  Properties of conditional policy: expressions are evaluated as Boolean formulas, switching keeps
  the rules in step with the expressions, normalisation computes truth tables, and what a policy
  file yields is well-formed.
\<close>

section \<open>Evaluation of expressions\<close>

definition is_bool :: "cond_expr \<Rightarrow> bool" where "is_bool t \<longleftrightarrow> cond_type t = COND_BOOL"
definition is_not :: "cond_expr \<Rightarrow> bool" where "is_not t \<longleftrightarrow> cond_type t = COND_NOT"
definition is_binop :: "cond_expr \<Rightarrow> bool" where "is_binop t \<longleftrightarrow> cond_binop (cond_type t) \<noteq> None"

definition cond_tree :: "cond_expr rexp \<Rightarrow> bool" where
  "cond_tree = well_formed is_bool is_not is_binop"

text \<open>The truth value of an expression under an assignment to the Booleans.\<close>

definition connective :: "u32 \<Rightarrow> bool \<Rightarrow> bool \<Rightarrow> bool" where
  "connective t a b =
     (if t = COND_OR then a \<or> b else if t = COND_AND then a \<and> b else if t = COND_EQ then a = b else a \<noteq> b)"

definition cond_holds :: "(u32 \<Rightarrow> bool) \<Rightarrow> cond_expr rexp \<Rightarrow> bool" where
  "cond_holds env = rvalue (\<lambda>t. env (cond_bool t)) (\<lambda>_. Not) (\<lambda>t. connective (cond_type t))"

text \<open>The database holds the assignment for the Booleans of the expression.\<close>

definition bools_agree :: "cond_bool_datum option list \<Rightarrow> (u32 \<Rightarrow> bool) \<Rightarrow> cond_expr list \<Rightarrow> bool" where
  "bools_agree bools env es \<longleftrightarrow>
     list_all (\<lambda>t. is_bool t \<longrightarrow>
       (case val_idx bools (cond_bool t) of Inl _ \<Rightarrow> False | Inr d \<Rightarrow> state d = of_bool_int (env (cond_bool t)))) es"

lemma bools_agreeD:
  assumes "bools_agree bools env es" and "t \<in> set es" and "is_bool t"
  shows "\<exists>d. val_idx bools (cond_bool t) = Inr d \<and> state d = of_bool_int (env (cond_bool t))"
  using assms by (cases "val_idx bools (cond_bool t)") (auto simp: bools_agree_def list_all_iff)

lemmas cond_kind_defs = is_bool_def is_not_def is_binop_def cond_binop_def cond_consts

lemma cond_kinds:
  "is_not t \<Longrightarrow> \<not> is_bool t" "is_binop t \<Longrightarrow> \<not> is_bool t" "is_binop t \<Longrightarrow> \<not> is_not t"
  by (auto simp: cond_kind_defs)

definition stored_state :: "cond_bool_datum option list \<Rightarrow> u32 \<Rightarrow> int" where
  "stored_state bools b = (case val_idx bools b of Inl _ \<Rightarrow> 0 | Inr d \<Rightarrow> state d)"

interpretation ce: rpn_machine "eval_loop bools"
  "\<lambda>t. is_bool t \<and> (\<exists>d. val_idx bools (cond_bool t) = Inr d)" is_not is_binop
  "\<lambda>t. stored_state bools (cond_bool t)" "\<lambda>_ a. of_bool_int (a = 0)" "\<lambda>t. the (cond_binop (cond_type t))"
  COND_EXPR_MAXDEPTH "Inr (-1)" for bools
proof
  show "eval_loop bools (t # ts) st =
      (if length st = COND_EXPR_MAXDEPTH then Inr (- 1) else eval_loop bools ts (stored_state bools (cond_bool t) # st))"
    if "is_bool t \<and> (\<exists>d. val_idx bools (cond_bool t) = Inr d)" for t st ts
    using that by (auto simp: is_bool_def stored_state_def)
  show "eval_loop bools (t # ts) (a # st) = eval_loop bools ts (of_bool_int (a = 0) # st)"
    if "is_not t" for t ts a st
    using that by (simp add: is_not_def COND_NOT_def COND_BOOL_def)
  show "eval_loop bools (t # ts) (b # a # st) = eval_loop bools ts (the (cond_binop (cond_type t)) a b # st)"
    if "is_binop t" for t ts b a st
    using that cond_kinds(2,3) [OF that] by (auto simp: is_binop_def is_bool_def is_not_def)
qed

lemma of_bool_int_eq: "of_bool_int a = of_bool_int b \<longleftrightarrow> a = b"
  by (simp add: of_bool_int_def)

lemma binop_bool:
  "is_binop t \<Longrightarrow> the (cond_binop (cond_type t)) (of_bool_int a) (of_bool_int b) =
     of_bool_int (connective (cond_type t) a b)"
  by (auto simp: cond_kind_defs connective_def of_bool_int_def)

lemma set_postfix: "set (postfix e) = set_rexp e"
  by (induction e) auto

text \<open>The value computed on the stored states is the truth value.\<close>

lemma stored_value:
  assumes "cond_tree e" and "bools_agree bools env (postfix e)"
  shows "rvalue (\<lambda>t. stored_state bools (cond_bool t)) (\<lambda>_ a. of_bool_int (a = 0))
      (\<lambda>t. the (cond_binop (cond_type t))) e = of_bool_int (cond_holds env e)"
proof -
  have leaf: "stored_state bools (cond_bool t) = of_bool_int (env (cond_bool t))"
    if "is_bool t" "t \<in> set_rexp e" for t
    using bools_agreeD [OF assms(2), of t] that by (auto simp: set_postfix stored_state_def)
  have "well_formed is_bool is_not is_binop e'\<Longrightarrow> set_rexp e' \<subseteq> set_rexp e \<Longrightarrow>
      rvalue (\<lambda>t. stored_state bools (cond_bool t)) (\<lambda>_ a. of_bool_int (a = 0))
        (\<lambda>t. the (cond_binop (cond_type t))) e' = of_bool_int (cond_holds env e')" for e'
  proof (induction e')
    case (Bin t a b)
    then show ?case by (simp add: cond_holds_def binop_bool)
  qed (use leaf in \<open>auto simp: cond_holds_def of_bool_int_def\<close>)
  then show ?thesis using assms(1) by (simp add: cond_tree_def)
qed

lemma eval_tree:
  assumes "cond_tree e" and "bools_agree bools env (postfix e)"
  shows "eval_loop bools (postfix e) [] =
    Inr (if need e \<le> COND_EXPR_MAXDEPTH then of_bool_int (cond_holds env e) else -1)"
proof -
  have "well_formed (\<lambda>t. is_bool t \<and> (\<exists>d. val_idx bools (cond_bool t) = Inr d)) is_not is_binop e"
    using assms(1) unfolding cond_tree_def
    by (rule well_formed_mono) (use bools_agreeD [OF assms(2)] set_postfix [of e] in blast)+
  from ce.run_expr [OF this] stored_value [OF assms] show ?thesis by simp
qed

text \<open>
  C12: The loop over an expression in reverse Polish notation computes the truth value of the
  formula the notation stands for, under the assignment that the database stores, provided the
  formula needs at most \<^verbatim>\<open>COND_EXPR_MAXDEPTH\<close> stack elements; a formula that needs more is
  reported as undefined.
\<close>

theorem cond_evaluate_expr_correct:
  assumes "cond_tree e" and "bools_agree (bool_val_to_struct p) env (postfix e)"
  shows "cond_evaluate_expr p (postfix e) =
    Inr (if need e \<le> COND_EXPR_MAXDEPTH then of_bool_int (cond_holds env e) else -1)"
  using eval_tree [OF assms] by (simp add: cond_evaluate_expr_def)

text \<open>\<^verbatim>\<open>A && !B\<close> with \<^verbatim>\<open>A\<close> true and \<^verbatim>\<open>B\<close> false\<close>

definition tok :: "u32 \<Rightarrow> u32 \<Rightarrow> cond_expr" where
  "tok t b = \<lparr>cond_type = t, cond_bool = b\<rparr>"

definition and_not :: "u32 \<Rightarrow> u32 \<Rightarrow> cond_expr rexp" where
  "and_not a b = Bin (tok COND_AND 0) (Leaf (tok COND_BOOL a)) (Una (tok COND_NOT 0) (Leaf (tok COND_BOOL b)))"

definition two_bools :: policydb where
  "two_bools = zero_policydb\<lparr>bool_val_to_struct :=
     [Some \<lparr>bool_value = 1, state = 1, bool_flags = 0\<rparr>, Some \<lparr>bool_value = 2, state = 0, bool_flags = 0\<rparr>]\<rparr>"

lemma and_not_tree: "cond_tree (and_not a b)" "need (and_not a b) \<le> COND_EXPR_MAXDEPTH"
  by (simp_all add: and_not_def tok_def cond_tree_def cond_kind_defs COND_EXPR_MAXDEPTH_def)

lemmas val_eval = val_idx_def val_set_def idx_def

theorem cond_evaluate_expr_correct_witness: "cond_evaluate_expr two_bools (postfix (and_not 1 2)) = Inr 1"
proof -
  have "bools_agree (bool_val_to_struct two_bools) (\<lambda>b. b = 1) (postfix (and_not 1 2))"
    by (simp add: bools_agree_def two_bools_def and_not_def tok_def val_eval of_bool_int_def is_bool_def cond_consts)
  from cond_evaluate_expr_correct [OF and_not_tree(1) this] show ?thesis
    using and_not_tree(2) [of 1 2]
    by (simp add: cond_holds_def and_not_def tok_def connective_def of_bool_int_def cond_consts)
qed

section \<open>Rules in place\<close>

text \<open>A change of nodes that keeps their addresses and places in the table.\<close>

definition av_map :: "(avtab_node \<Rightarrow> avtab_node) \<Rightarrow> avtab \<Rightarrow> avtab" where
  "av_map g h = h\<lparr>avslots := map_option (map (map g)) (avslots h)\<rparr>"

definition in_place :: "(avtab_node \<Rightarrow> avtab_node) \<Rightarrow> bool" where
  "in_place g \<longleftrightarrow> (\<forall>n. naddr (g n) = naddr n \<and> key_rank (nkey (g n)) = key_rank (nkey n))"

lemma av_map_nodes [simp]: "av_nodes (av_map g h) = map g (av_nodes h)"
  by (simp add: av_map_def av_nodes_def map_concat split: option.split)

lemma av_map_comp: "av_map g (av_map f h) = av_map (g \<circ> f) h"
  by (cases "avslots h") (simp_all add: av_map_def)

lemma av_map_ident:
  assumes "\<And>n. n \<in> set (av_nodes h) \<Longrightarrow> g n = n"
  shows "av_map g h = h"
proof (cases "avslots h")
  case (Some tbl)
  with assms have "map (map g) tbl = tbl"
    by (intro map_idI) (auto simp: av_nodes_def)
  with Some show ?thesis by (simp add: av_map_def)
qed (simp add: av_map_def)

lemma av_map_cong: "(\<And>n. f n = g n) \<Longrightarrow> av_map f h = av_map g h"
  by (metis ext)

lemma in_place_addrs: "in_place g \<Longrightarrow> map naddr (av_nodes (av_map g h)) = map naddr (av_nodes h)"
  by (simp add: in_place_def)

lemma in_place_addr_set: "in_place g \<Longrightarrow> naddr ` set (av_nodes (av_map g h)) = naddr ` set (av_nodes h)"
  by (metis in_place_addrs list.set_map)

lemma av_map_wf:
  assumes "in_place g" and "avtab_wf h"
  shows "avtab_wf (av_map g h)"
proof -
  have home: "av_home (av_map g h) = av_home h" by (simp add: av_home_def av_map_def fun_eq_iff)
  have key: "av_home h (nkey (g n)) = av_home h (nkey n)" for n
    using assms(1) by (intro avtab_hash_rank) (simp add: in_place_def)
  have sorted: "av_sorted (map g c) = av_sorted c" for c
    using assms(1) by (simp add: av_sorted_def in_place_def comp_def)
  have addr: "naddr (g n) = naddr n" for n using assms(1) by (simp add: in_place_def)
  obtain tbl where tbl: "avslots h = Some tbl" using assms(2) by (rule avtab_wfE)
  have "map naddr (concat (map (map g) tbl)) = map naddr (concat tbl)"
    by (simp add: map_concat [symmetric] addr)
  then show ?thesis
    using assms(2) tbl unfolding avtab_wf_def home
    by (auto simp: av_map_def sorted key addr map_concat [symmetric] comp_def)
qed

lemma av_modify_map:
  assumes "a \<in> naddr ` set (av_nodes h)"
  shows "av_modify f a h = Inr (av_map (\<lambda>n. if naddr n = a then f n else n) h)"
proof -
  have "find (\<lambda>n. naddr n = a) (av_nodes h) \<noteq> None" using assms by (auto simp: find_None_iff)
  then show ?thesis by (auto simp: av_modify_def av_deref_def av_map_def)
qed

section \<open>Switching rules\<close>

definition rule_on :: "avtab_node \<Rightarrow> bool" where
  "rule_on n \<longleftrightarrow> specified (nkey n) AND AVTAB_ENABLED \<noteq> 0"

lemma enabled_bit: "w AND AVTAB_ENABLED \<noteq> 0 \<longleftrightarrow> bit w 15"
  using test_bit_and_power [of w 15] by (simp add: AVTAB_ENABLED_def)

lemma bit_pow2_16: "bit (2 ^ n :: u16) k \<longleftrightarrow> k = n \<and> n < 16"
  by (auto simp: bit_simps)

lemma bit_AVTAB_ENABLED: "bit AVTAB_ENABLED k \<longleftrightarrow> k = 15"
proof -
  have "AVTAB_ENABLED = 2 ^ 15" by (simp add: AVTAB_ENABLED_def)
  then show ?thesis using bit_pow2_16 [of 15 k] by simp
qed

lemma set_enabled_simps [simp]:
  "naddr (set_enabled b n) = naddr n" "rule_on (set_enabled b n) = b"
  "key_rank (nkey (set_enabled b n)) = key_rank (nkey n)" "ndatum (set_enabled b n) = ndatum n"
  by (auto simp: set_enabled_def rule_on_def enabled_bit bit_AVTAB_ENABLED key_rank_def bit_simps)

lemma set_enabled_same: "rule_on n = b \<Longrightarrow> set_enabled b n = n"
  unfolding rule_on_def enabled_bit set_enabled_def
  by (cases b) (auto intro!: avtab_node.equality avtab_key.equality bit_word_eqI
      simp: bit_simps bit_AVTAB_ENABLED)

lemma set_enabled_twice [simp]: "set_enabled b (set_enabled b n) = set_enabled b n"
  by (rule set_enabled_same) simp

lemma for_each_modify:
  assumes "set as \<subseteq> naddr ` set (av_nodes h)"
  shows "for_each (av_modify (set_enabled b)) as h =
    Inr (av_map (\<lambda>n. if naddr n \<in> set as then set_enabled b n else n) h)"
  using assms
proof (induction as arbitrary: h)
  case Nil
  show ?case by (simp add: av_map_ident)
next
  case (Cons a as)
  let ?f = "\<lambda>n. if naddr n = a then set_enabled b n else n"
  have addrs: "naddr ` set (av_nodes (av_map ?f h)) = naddr ` set (av_nodes h)"
    by (rule in_place_addr_set) (simp add: in_place_def)
  have "for_each (av_modify (set_enabled b)) (a # as) h = for_each (av_modify (set_enabled b)) as (av_map ?f h)"
    using Cons.prems by (simp add: av_modify_map)
  also have "\<dots> = Inr (av_map ((\<lambda>n. if naddr n \<in> set as then set_enabled b n else n) \<circ> ?f) h)"
    using Cons.IH [of "av_map ?f h"] Cons.prems addrs by (simp add: av_map_comp)
  also have "\<dots> = Inr (av_map (\<lambda>n. if naddr n \<in> set (a # as) then set_enabled b n else n) h)"
    by (simp, rule av_map_cong) simp
  finally show ?case .
qed

text \<open>
  The rules of a conditional are in step with it: those of the true list are on exactly when its
  state is positive, those of the false list exactly when it is zero.
\<close>

definition node_sync :: "avtab \<Rightarrow> cond_node \<Rightarrow> bool" where
  "node_sync h n \<longleftrightarrow>
     (\<forall>r \<in> set (av_nodes h).
        (naddr r \<in> set (true_list n) \<longrightarrow> (rule_on r \<longleftrightarrow> 0 < cur_state n)) \<and>
        (naddr r \<in> set (false_list n) \<longrightarrow> (rule_on r \<longleftrightarrow> cur_state n = 0)))"

definition rule_addrs :: "cond_node list \<Rightarrow> nat list" where
  "rule_addrs cl = concat (map (\<lambda>n. true_list n @ false_list n) cl)"

text \<open>Every rule belongs to one list of one conditional, and is in the table.\<close>

definition cond_wf :: "avtab \<Rightarrow> cond_node list \<Rightarrow> bool" where
  "cond_wf h cl \<longleftrightarrow> distinct (rule_addrs cl) \<and> set (rule_addrs cl) \<subseteq> naddr ` set (av_nodes h)"

text \<open>What a conditional that evaluates to \<open>v\<close> does to a rule.\<close>

definition switch :: "int \<Rightarrow> cond_node \<Rightarrow> avtab_node \<Rightarrow> avtab_node" where
  "switch v n r =
     (if naddr r \<in> set (true_list n) then set_enabled (0 < v) r
      else if naddr r \<in> set (false_list n) then set_enabled (v = 0) r
      else r)"

lemma switch_simps [simp]:
  "naddr (switch v n r) = naddr r" "key_rank (nkey (switch v n r)) = key_rank (nkey r)" "in_place (switch v n)"
  "ndatum (switch v n r) = ndatum r"
  by (simp_all add: switch_def in_place_def)

text \<open>Two rules that differ at most in the mark of enabled rules.\<close>

definition same_rule_but_enabled :: "avtab_node \<Rightarrow> avtab_node \<Rightarrow> bool" where
  "same_rule_but_enabled r r' \<longleftrightarrow>
     naddr r' = naddr r \<and> ndatum r' = ndatum r \<and> parse_context r' = parse_context r \<and> merged r' = merged r \<and>
     source_type (nkey r') = source_type (nkey r) \<and> target_type (nkey r') = target_type (nkey r) \<and>
     target_class (nkey r') = target_class (nkey r) \<and>
     specified (nkey r') AND NOT AVTAB_ENABLED = specified (nkey r) AND NOT AVTAB_ENABLED"

lemma set_enabled_frame: "same_rule_but_enabled r (set_enabled on r)"
  by (auto simp: same_rule_but_enabled_def set_enabled_def bit_eq_iff bit_and_iff bit_or_iff bit_not_iff)

lemma same_rule_refl: "same_rule_but_enabled r r"
  by (simp add: same_rule_but_enabled_def)

lemma same_rule_trans: "same_rule_but_enabled r r1 \<Longrightarrow> same_rule_but_enabled r1 r2 \<Longrightarrow> same_rule_but_enabled r r2"
  by (simp add: same_rule_but_enabled_def)

lemma switch_frame: "same_rule_but_enabled r (switch v n r)"
  by (simp add: switch_def set_enabled_frame same_rule_refl)

lemma cond_wf_Cons:
  "cond_wf h (n # cl) \<longleftrightarrow>
     distinct (true_list n) \<and> distinct (false_list n) \<and> set (true_list n) \<inter> set (false_list n) = {} \<and>
     (set (true_list n) \<union> set (false_list n)) \<inter> set (rule_addrs cl) = {} \<and>
     set (true_list n) \<union> set (false_list n) \<subseteq> naddr ` set (av_nodes h) \<and> cond_wf h cl"
  by (auto simp: cond_wf_def rule_addrs_def)

lemma cond_wf_in_place: "in_place g \<Longrightarrow> cond_wf (av_map g h) cl \<longleftrightarrow> cond_wf h cl"
  by (simp only: cond_wf_def in_place_addr_set)

lemma evaluate_cond_node_switch:
  assumes "cond_wf (te_cond_avtab p) [n]" and "node_sync (te_cond_avtab p) n"
    and "cond_evaluate_expr p (cond_exprs n) = Inr v"
  shows "evaluate_cond_node p n =
    Inr (p\<lparr>te_cond_avtab := av_map (switch v n) (te_cond_avtab p)\<rparr>, n\<lparr>cur_state := v\<rparr>)"
proof (cases "v = cur_state n")
  case True
  have "av_map (switch v n) (te_cond_avtab p) = te_cond_avtab p"
    using assms(1,2) True
    by (intro av_map_ident) (auto simp: switch_def node_sync_def cond_wf_Cons intro!: set_enabled_same)
  with True assms(3) show ?thesis by (simp add: evaluate_cond_node_def)
next
  case False
  let ?h = "te_cond_avtab p"
  let ?t = "\<lambda>r. if naddr r \<in> set (true_list n) then set_enabled (0 < v) r else r"
  let ?f = "\<lambda>r. if naddr r \<in> set (false_list n) then set_enabled (v = 0) r else r"
  have sub: "set (true_list n) \<subseteq> naddr ` set (av_nodes ?h)" "set (false_list n) \<subseteq> naddr ` set (av_nodes ?h)"
    and disj: "set (true_list n) \<inter> set (false_list n) = {}"
    using assms(1) by (auto simp: cond_wf_Cons)
  have "in_place ?t" by (simp add: in_place_def)
  then have sub': "set (false_list n) \<subseteq> naddr ` set (av_nodes (av_map ?t ?h))"
    using sub(2) by (simp only: in_place_addr_set)
  have "av_map (?f \<circ> ?t) ?h = av_map (switch v n) ?h"
    using disj by (intro av_map_cong) (auto simp: switch_def)
  then show ?thesis
    using False assms(3) for_each_modify [OF sub(1), of "0 < v"] for_each_modify [OF sub', of "v = 0"]
    by (simp add: evaluate_cond_node_def av_map_comp not_le)
qed

lemma switch_sync:
  assumes "cond_wf h [n]"
  shows "node_sync (av_map (switch v n) h) (n\<lparr>cur_state := v\<rparr>)"
  using assms by (auto simp: node_sync_def switch_def cond_wf_Cons)

lemma node_sync_frame:
  assumes "in_place g" and "\<And>r. naddr r \<in> set (rule_addrs [n]) \<Longrightarrow> g r = r"
  shows "node_sync (av_map g h) n \<longleftrightarrow> node_sync h n"
proof -
  have "naddr (g r) = naddr r" for r using assms(1) by (simp add: in_place_def)
  moreover have "rule_on (g r) = rule_on r" if "naddr r \<in> set (true_list n) \<union> set (false_list n)" for r
    using assms(2) [of r] that by (simp add: rule_addrs_def)
  ultimately show ?thesis by (auto simp: node_sync_def)
qed

lemma cond_evaluate_expr_te [simp]:
  "cond_evaluate_expr (p\<lparr>te_cond_avtab := h\<rparr>) = cond_evaluate_expr p"
  by (simp add: cond_evaluate_expr_def fun_eq_iff)

definition new_state :: "policydb \<Rightarrow> cond_node \<Rightarrow> cond_node" where
  "new_state p n = n\<lparr>cur_state := projr (cond_evaluate_expr p (cond_exprs n))\<rparr>"

lemma evaluate_loop_sync:
  assumes "cond_wf (te_cond_avtab p) rest" and "\<And>n. n \<in> set rest \<Longrightarrow> node_sync (te_cond_avtab p) n"
    and "\<And>n. n \<in> set rest \<Longrightarrow> \<exists>v. cond_evaluate_expr p (cond_exprs n) = Inr v"
  shows "\<exists>g. in_place g \<and> (\<forall>r. naddr r \<notin> set (rule_addrs rest) \<longrightarrow> g r = r) \<and> (\<forall>r. same_rule_but_enabled r (g r)) \<and>
    evaluate_loop p ev rest =
      Inr (p\<lparr>te_cond_avtab := av_map g (te_cond_avtab p)\<rparr>, ev @ map (new_state p) rest) \<and>
    (\<forall>n \<in> set rest. node_sync (av_map g (te_cond_avtab p)) (new_state p n))"
  using assms
proof (induction rest arbitrary: p ev)
  case Nil
  show ?case by (intro exI [of _ id]) (simp add: in_place_def av_map_ident same_rule_refl)
next
  case (Cons n rest)
  let ?h = "te_cond_avtab p"
  obtain v where v: "cond_evaluate_expr p (cond_exprs n) = Inr v" using Cons.prems(3) by force
  let ?p = "p\<lparr>te_cond_avtab := av_map (switch v n) ?h\<rparr>"
  have wf: "cond_wf ?h [n]" "cond_wf ?h rest"
    and disj: "set (rule_addrs [n]) \<inter> set (rule_addrs rest) = {}"
    using Cons.prems(1) by (auto simp: cond_wf_Cons rule_addrs_def) (simp_all add: cond_wf_def rule_addrs_def)
  have same: "switch v n r = r" if "naddr r \<notin> set (rule_addrs [n])" for r
    using that by (simp add: switch_def rule_addrs_def)
  have sub: "set (rule_addrs [n']) \<subseteq> set (rule_addrs rest)" if "n' \<in> set rest" for n'
    using that by (auto simp: rule_addrs_def)
  have "node_sync (te_cond_avtab ?p) n'" if "n' \<in> set rest" for n'
    using node_sync_frame [OF switch_simps(3), of n' v n ?h] same disj sub [OF that] Cons.prems(2) that by auto
  then obtain g where g: "in_place g" "\<forall>r. naddr r \<notin> set (rule_addrs rest) \<longrightarrow> g r = r"
    "evaluate_loop ?p (ev @ [n\<lparr>cur_state := v\<rparr>]) rest =
      Inr (?p\<lparr>te_cond_avtab := av_map g (te_cond_avtab ?p)\<rparr>, (ev @ [n\<lparr>cur_state := v\<rparr>]) @ map (new_state ?p) rest)"
    "\<forall>n \<in> set rest. node_sync (av_map g (te_cond_avtab ?p)) (new_state ?p n)" "\<forall>r. same_rule_but_enabled r (g r)"
    using Cons.IH [of ?p "ev @ [n\<lparr>cur_state := v\<rparr>]"] wf(2) Cons.prems(3) by (auto simp: cond_wf_in_place)
  have st: "new_state ?p = new_state p" "new_state p n = n\<lparr>cur_state := v\<rparr>"
    by (simp_all add: new_state_def fun_eq_iff v)
  have "node_sync (av_map g (te_cond_avtab ?p)) (new_state p n)"
    using g(1,2) disj switch_sync [OF wf(1), of v]
    by (subst node_sync_frame) (auto simp: st rule_addrs_def)
  moreover have "evaluate_cond_node p n = Inr (?p, n\<lparr>cur_state := v\<rparr>)"
    using evaluate_cond_node_switch [OF wf(1) _ v] Cons.prems(2) by simp
  moreover have "\<forall>r. naddr r \<notin> set (rule_addrs (n # rest)) \<longrightarrow> (g \<circ> switch v n) r = r"
    using g(2) same by (auto simp: rule_addrs_def)
  moreover have "in_place (g \<circ> switch v n)" using g(1) by (simp add: in_place_def)
  moreover have "same_rule_but_enabled r ((g \<circ> switch v n) r)" for r
    using g(5) same_rule_trans [OF switch_frame [of r v n]] by simp
  ultimately show ?case
    using g(3,4) by (intro exI [of _ "g \<circ> switch v n"]) (simp add: st av_map_comp comp_def)
qed

text \<open>
  C11: \<^verbatim>\<open>evaluate_conds\<close> keeps the rules in step with the conditionals.  If every conditional rule
  belongs to one list of one conditional, the rules are in step with the stored states and all
  expressions refer to existing Booleans, then the call returns; afterwards every conditional has
  the current value of its expression as its state, exactly the rules selected by these states
  are enabled and the table is as well-formed as before.  Nothing else of the policy changes: every rule stays in its
  place and differs at most in its mark of being enabled, and not even in that if it is in no list.
\<close>

theorem evaluate_conds_sync:
  assumes "cond_wf (te_cond_avtab p) (cond_list p)"
    and "\<And>n. n \<in> set (cond_list p) \<Longrightarrow> node_sync (te_cond_avtab p) n"
    and "\<And>n. n \<in> set (cond_list p) \<Longrightarrow> \<exists>v. cond_evaluate_expr p (cond_exprs n) = Inr v"
  shows "\<exists>p' g. evaluate_conds p = Inr p' \<and>
    p' = p\<lparr>te_cond_avtab := av_map g (te_cond_avtab p), cond_list := map (new_state p) (cond_list p)\<rparr> \<and>
    (\<forall>n \<in> set (cond_list p'). node_sync (te_cond_avtab p') n) \<and>
    (avtab_wf (te_cond_avtab p) \<longrightarrow> avtab_wf (te_cond_avtab p')) \<and> cond_wf (te_cond_avtab p') (cond_list p') \<and>
    (\<forall>r. same_rule_but_enabled r (g r)) \<and> (\<forall>r. naddr r \<notin> set (rule_addrs (cond_list p)) \<longrightarrow> g r = r)"
proof -
  obtain g where g: "in_place g" "\<forall>r. naddr r \<notin> set (rule_addrs (cond_list p)) \<longrightarrow> g r = r" "\<forall>r. same_rule_but_enabled r (g r)"
    "evaluate_loop p [] (cond_list p) =
      Inr (p\<lparr>te_cond_avtab := av_map g (te_cond_avtab p)\<rparr>, [] @ map (new_state p) (cond_list p))"
    "\<forall>n \<in> set (cond_list p). node_sync (av_map g (te_cond_avtab p)) (new_state p n)"
    using evaluate_loop_sync [OF assms, of "[]"] by blast
  have addrs: "rule_addrs (map (new_state p) cl) = rule_addrs cl" for cl
    by (induction cl) (simp_all add: rule_addrs_def new_state_def)
  have "cond_wf (av_map g (te_cond_avtab p)) (map (new_state p) (cond_list p))"
    using assms(1) unfolding cond_wf_in_place [OF g(1)] by (simp add: cond_wf_def addrs)
  then show ?thesis
    using g av_map_wf [OF g(1)] by (intro exI [of _ "p\<lparr>te_cond_avtab := av_map g (te_cond_avtab p), cond_list := map (new_state p) (cond_list p)\<rparr>"] exI [of _ g])
      (simp add: evaluate_conds_def)
qed

text \<open>One rule in the true list of a conditional on the first Boolean, which has just become true.\<close>

definition sample_rule :: avtab_node where
  "sample_rule = \<lparr>naddr = 0, nkey = sample_key AVTAB_ALLOWED, ndatum = \<lparr>avdata = 5, xperms = None\<rparr>, parse_context = 1, merged = 0\<rparr>"

definition sample_cond :: policydb where
  "sample_cond = two_bools\<lparr>te_cond_avtab := empty_avtab\<lparr>avslots := Some [[sample_rule]], avnel := 1, anext := 1\<rparr>,
     cond_list := [empty_cond_node\<lparr>cond_exprs := [tok COND_BOOL 1], true_list := [0]\<rparr>]\<rparr>"

theorem evaluate_conds_sync_witness:
  "\<exists>p' r. evaluate_conds sample_cond = Inr p' \<and> map cur_state (cond_list p') = [1] \<and>
     av_nodes (te_cond_avtab p') = [r] \<and> rule_on r \<and> ndatum r = ndatum sample_rule"
proof -
  have nodes: "av_nodes (te_cond_avtab sample_cond) = [sample_rule]"
    by (simp add: sample_cond_def av_nodes_def)
  then have 1: "cond_wf (te_cond_avtab sample_cond) (cond_list sample_cond)"
    "\<And>n. n \<in> set (cond_list sample_cond) \<Longrightarrow> node_sync (te_cond_avtab sample_cond) n"
    by (simp_all add: cond_wf_def rule_addrs_def sample_cond_def empty_cond_node_def sample_rule_def
        node_sync_def rule_on_def sample_key_def AVTAB_ALLOWED_def AVTAB_ENABLED_def)
  have eval: "cond_evaluate_expr sample_cond [tok COND_BOOL 1] = Inr 1"
    by (simp add: cond_evaluate_expr_def sample_cond_def two_bools_def tok_def val_eval COND_EXPR_MAXDEPTH_def)
  have list: "cond_list sample_cond = [empty_cond_node\<lparr>cond_exprs := [tok COND_BOOL 1], true_list := [0]\<rparr>]"
    by (simp add: sample_cond_def)
  have 2: "\<exists>v. cond_evaluate_expr sample_cond (cond_exprs n) = Inr v" if "n \<in> set (cond_list sample_cond)" for n
    using that eval by (simp add: list)
  from evaluate_conds_sync [OF 1 2] obtain p' g where *: "evaluate_conds sample_cond = Inr p'"
    "p' = sample_cond\<lparr>te_cond_avtab := av_map g (te_cond_avtab sample_cond), cond_list := map (new_state sample_cond) (cond_list sample_cond)\<rparr>"
    "\<forall>n \<in> set (cond_list p'). node_sync (te_cond_avtab p') n" "same_rule_but_enabled sample_rule (g sample_rule)"
    by blast
  then have "av_nodes (te_cond_avtab p') = [g sample_rule]" using nodes by simp
  with * show ?thesis
    by (intro exI [of _ p'] exI [of _ "g sample_rule"])
      (auto simp: list new_state_def eval node_sync_def same_rule_but_enabled_def empty_cond_node_def sample_rule_def)
qed

section \<open>Order of the rule lists\<close>

definition type_rule :: "avtab \<Rightarrow> nat \<Rightarrow> bool" where
  "type_rule h a \<longleftrightarrow> (\<exists>n. av_deref h a = Inr n \<and> specified (nkey n) AND AVTAB_TYPE \<noteq> 0)"

lemma av_deref_total: "a \<in> naddr ` set (av_nodes h) \<Longrightarrow> \<exists>n. av_deref h a = Inr n"
  by (cases "find (\<lambda>n. naddr n = a) (av_nodes h)") (auto simp: av_deref_def find_None_iff)

lemma optimize_loop_eq:
  assumes "set rest \<subseteq> naddr ` set (av_nodes h)" and "front \<noteq> []"
  shows "optimize_loop h front rest =
    Inr (rev (filter (type_rule h) rest) @ front @ filter (\<lambda>a. \<not> type_rule h a) rest)"
  using assms
proof (induction rest arbitrary: front)
  case (Cons a rest)
  then obtain n where "av_deref h a = Inr n" using av_deref_total [of a h] by auto
  with Cons show ?case by (simp add: type_rule_def)
qed simp

text \<open>
  \<^verbatim>\<open>cond_optimize\<close> rearranges a rule list so that all type rules come before all other rules,
  and loses or duplicates none; the rules that are not type rules keep their order.
\<close>

theorem cond_optimize_type_rules_first:
  assumes "set l \<subseteq> naddr ` set (av_nodes h)"
  shows "\<exists>ts os. cond_optimize h l = Inr (ts @ os) \<and> mset (ts @ os) = mset l \<and>
    list_all (type_rule h) ts \<and> list_all (\<lambda>a. \<not> type_rule h a) os \<and>
    os = filter (\<lambda>a. \<not> type_rule h a) l"
proof (cases l)
  case (Cons a rest)
  obtain n where n: "av_deref h a = Inr n" using assms Cons av_deref_total [of a h] by auto
  have "cond_optimize h l = optimize_loop h [a] rest"
    using n by (simp add: cond_optimize_def Cons)
  then have eq: "cond_optimize h l =
      Inr (rev (filter (type_rule h) rest) @ a # filter (\<lambda>a. \<not> type_rule h a) rest)"
    using assms by (simp add: optimize_loop_eq Cons)
  let ?ts = "rev (filter (type_rule h) rest) @ (if type_rule h a then [a] else [])"
  show ?thesis
    by (rule exI [of _ ?ts], rule exI [of _ "filter (\<lambda>a. \<not> type_rule h a) l"])
      (simp add: eq [unfolded Cons] Cons list_all_iff multiset_partition [symmetric] mset_filter)
qed (simp add: cond_optimize_def)

theorem cond_optimize_type_rules_first_witness:
  "\<exists>l'. cond_optimize (te_cond_avtab sample_cond) [0] = Inr l' \<and> mset l' = {#0#}"
proof -
  have "naddr ` set (av_nodes (te_cond_avtab sample_cond)) = {0}"
    by (simp add: sample_cond_def av_nodes_def sample_rule_def)
  then show ?thesis using cond_optimize_type_rules_first [of "[0]" "te_cond_avtab sample_cond"] by auto
qed

section \<open>Access decisions\<close>

lemma word_subset_bits: "w = s AND w \<longleftrightarrow> (\<forall>i. bit w i \<longrightarrow> bit s i)" for w :: "'a::len word"
proof
  assume "w = s AND w"
  then show "\<forall>i. bit w i \<longrightarrow> bit s i" by (metis bit_and_iff)
next
  assume "\<forall>i. bit w i \<longrightarrow> bit s i"
  then show "w = s AND w" by (intro bit_word_eqI) (auto simp: bit_and_iff)
qed

lemma kind_enabled:
  assumes "k \<in> {AVTAB_ALLOWED, AVTAB_AUDITDENY, AVTAB_AUDITALLOW}"
  shows "k OR AVTAB_ENABLED = specified (nkey n) AND (k OR AVTAB_ENABLED) \<longleftrightarrow>
    rule_on n \<and> specified (nkey n) AND k \<noteq> 0"
proof -
  obtain j where k: "k = 2 ^ j" and j: "j < 15"
    using assms that [of 0] that [of 1] that [of 2] by (auto simp: avtab_consts)
  have bits: "bit (k OR AVTAB_ENABLED) i \<longleftrightarrow> i = j \<or> i = 15" for i
    using j by (auto simp: k bit_or_iff bit_pow2_16 bit_AVTAB_ENABLED)
  show ?thesis
    unfolding word_subset_bits bits rule_on_def enabled_bit by (auto simp: k test_bit_and_power)
qed

text \<open>The rules that decide about a key.\<close>

definition deciding :: "avtab \<Rightarrow> avtab_key \<Rightarrow> u16 \<Rightarrow> avtab_node set" where
  "deciding h key k =
     {n \<in> set (av_nodes h). key_rank (nkey n) = key_rank key \<and> specified (nkey n) AND spec_of key \<noteq> 0 \<and>
        rule_on n \<and> specified (nkey n) AND k \<noteq> 0}"

lemma fold_cond_av_step:
  "bit (allowed (fold cond_av_step ns avd)) b \<longleftrightarrow> bit (allowed avd) b \<or>
     (\<exists>n \<in> set ns. rule_on n \<and> specified (nkey n) AND AVTAB_ALLOWED \<noteq> 0 \<and> bit (avdata (ndatum n)) b)"
  "bit (auditallow (fold cond_av_step ns avd)) b \<longleftrightarrow> bit (auditallow avd) b \<or>
     (\<exists>n \<in> set ns. rule_on n \<and> specified (nkey n) AND AVTAB_AUDITALLOW \<noteq> 0 \<and> bit (avdata (ndatum n)) b)"
  "bit (auditdeny (fold cond_av_step ns avd)) b \<longleftrightarrow> bit (auditdeny avd) b \<and>
     (\<forall>n \<in> set ns. rule_on n \<longrightarrow> specified (nkey n) AND AVTAB_AUDITDENY \<noteq> 0 \<longrightarrow> bit (avdata (ndatum n)) b)"
  "decided (fold cond_av_step ns avd) = decided avd"
  "seqno (fold cond_av_step ns avd) = seqno avd"
  by (induction ns arbitrary: avd) (auto simp: cond_av_step_def kind_enabled Let_def bit_or_iff bit_and_iff)

lemma cond_compute_av_adds:
  assumes "avtab_wf ctab"
  shows "\<exists>avd'. cond_compute_av ctab key avd = Inr avd' \<and>
    (\<forall>b. (bit (allowed avd') b \<longleftrightarrow> bit (allowed avd) b \<or>
            (\<exists>n \<in> deciding ctab key AVTAB_ALLOWED. bit (avdata (ndatum n)) b)) \<and>
         (bit (auditallow avd') b \<longleftrightarrow> bit (auditallow avd) b \<or>
            (\<exists>n \<in> deciding ctab key AVTAB_AUDITALLOW. bit (avdata (ndatum n)) b)) \<and>
         (bit (auditdeny avd') b \<longleftrightarrow> bit (auditdeny avd) b \<and>
            (\<forall>n \<in> deciding ctab key AVTAB_AUDITDENY. bit (avdata (ndatum n)) b))) \<and>
    decided avd' = decided avd \<and> seqno avd' = seqno avd"
  using search_node_chain [OF assms, of key] node_iter_set [OF assms, of key]
  by (simp add: cond_compute_av_def fold_cond_av_step deciding_def) blast

text \<open>
  \<^verbatim>\<open>cond_compute_av\<close> adds to a decision exactly what the enabled conditional rules for the key
  say: a permission is allowed or audited if it was or some such rule names it, and its denial is
  audited if it was and every such rule names it; nothing else of the decision changes.
\<close>

theorem cond_compute_av_spec:
  assumes "avtab_wf ctab"
  shows "\<exists>avd'. cond_compute_av ctab key avd = Inr avd' \<and>
    (\<forall>b. (bit (allowed avd') b \<longleftrightarrow> bit (allowed avd) b \<or>
            (\<exists>n \<in> deciding ctab key AVTAB_ALLOWED. bit (avdata (ndatum n)) b)) \<and>
         (bit (auditallow avd') b \<longleftrightarrow> bit (auditallow avd) b \<or>
            (\<exists>n \<in> deciding ctab key AVTAB_AUDITALLOW. bit (avdata (ndatum n)) b)) \<and>
         (bit (auditdeny avd') b \<longleftrightarrow> bit (auditdeny avd) b \<and>
            (\<forall>n \<in> deciding ctab key AVTAB_AUDITDENY. bit (avdata (ndatum n)) b))) \<and>
    decided avd' = decided avd \<and> seqno avd' = seqno avd"
  using assms by (rule cond_compute_av_adds)

lemma sample_cond_wf: "avtab_wf (te_cond_avtab sample_cond)"
  using av_home_less [of "te_cond_avtab sample_cond" "nkey sample_rule"]
  by (simp add: avtab_wf_def sample_cond_def empty_avtab_def sample_rule_def)

definition no_decision :: av_decision where
  "no_decision = \<lparr>allowed = 0, decided = 0, auditallow = 0, auditdeny = - 1, seqno = 0\<rparr>"

theorem cond_compute_av_spec_witness:
  "\<exists>avd. cond_compute_av (av_map (set_enabled True) (te_cond_avtab sample_cond)) (sample_key AVTAB_AV) no_decision
     = Inr avd \<and> bit (allowed avd) 0 \<and> \<not> bit (allowed avd) 1"
proof -
  let ?h = "av_map (set_enabled True) (te_cond_avtab sample_cond)"
  have wf: "avtab_wf ?h" using sample_cond_wf by (rule av_map_wf [rotated]) (simp add: in_place_def)
  have "av_nodes ?h = [set_enabled True sample_rule]" by (simp add: sample_cond_def av_nodes_def av_map_def)
  then have "deciding ?h (sample_key AVTAB_AV) AVTAB_ALLOWED = {set_enabled True sample_rule}"
    unfolding deciding_def
    by (auto simp: key_rank_def sample_rule_def set_enabled_def rule_on_def sample_key_def spec_of_def avtab_consts)
  moreover have "avdata (ndatum (set_enabled True sample_rule)) = 5" by (simp add: sample_rule_def)
  ultimately show ?thesis
    using cond_compute_av_spec [OF wf, of "sample_key AVTAB_AV" no_decision]
    by (auto simp: no_decision_def)
qed

end
