(* ===== verification/Cond_Normalize.thy ===== *)
theory Cond_Normalize
  imports Conditional_Laws
begin

text \<open>
  Normalisation of conditional expressions: \<^verbatim>\<open>cond_normalize_expr\<close> records the Booleans of an
  expression and the table of its truth values, and leaves the Booleans of the database as they
  were.  \<^verbatim>\<open>cond_expr_equal\<close> compares expressions by these tables.
\<close>

section \<open>Changing the states of Booleans\<close>

text \<open>The array with the states at some indices replaced.\<close>

definition with_states :: "(nat \<rightharpoonup> int) \<Rightarrow> cond_bool_datum option list \<Rightarrow> cond_bool_datum option list" where
  "with_states g bs =
     map (\<lambda>i. case g i of None \<Rightarrow> bs ! i | Some v \<Rightarrow> map_option (\<lambda>d. d\<lparr>state := v\<rparr>) (bs ! i)) [0..<length bs]"

lemma length_with_states [simp]: "length (with_states g bs) = length bs"
  by (simp add: with_states_def)

lemma nth_with_states:
  "i < length bs \<Longrightarrow> with_states g bs ! i =
     (case g i of None \<Rightarrow> bs ! i | Some v \<Rightarrow> map_option (\<lambda>d. d\<lparr>state := v\<rparr>) (bs ! i))"
  by (cases "g i") (simp_all add: with_states_def)

lemma with_states_comp: "with_states g2 (with_states g1 bs) = with_states (g1 ++ g2) bs"
  by (rule nth_equalityI)
    (auto simp: nth_with_states map_add_def option.map_comp comp_def split: option.split)

lemma with_states_ident:
  assumes "\<And>i v d. g i = Some v \<Longrightarrow> i < length bs \<Longrightarrow> bs ! i = Some d \<Longrightarrow> state d = v"
  shows "with_states g bs = bs"
proof (rule nth_equalityI)
  fix i
  assume "i < length (with_states g bs)"
  with assms show "with_states g bs ! i = bs ! i"
    by (cases "bs ! i") (auto simp: nth_with_states split: option.split)
qed simp

lemma with_states_none [simp]: "with_states (\<lambda>_. None) bs = bs"
  by (rule with_states_ident) simp

lemma with_states_cong:
  "(\<And>i. i < length bs \<Longrightarrow> f i = g i) \<Longrightarrow> with_states f bs = with_states g bs"
  by (rule nth_equalityI) (simp_all add: nth_with_states)

text \<open>The Booleans named exist.\<close>

definition valid_bool :: "cond_bool_datum option list \<Rightarrow> u32 \<Rightarrow> bool" where
  "valid_bool bs b \<longleftrightarrow> unat (b - 1) < length bs \<and> bs ! unat (b - 1) \<noteq> None"

lemma valid_bool_idx: "valid_bool bs b \<longleftrightarrow> (\<exists>d. val_idx bs b = Inr d)"
  by (auto simp: valid_bool_def val_idx_Inr)

lemma valid_bool_with_states [simp]: "valid_bool (with_states g bs) b = valid_bool bs b"
  by (auto simp: valid_bool_def nth_with_states split: option.splits)

lemma set_bool_state_with:
  assumes "valid_bool (bool_val_to_struct p) b"
  shows "set_bool_state b v p = Inr (p\<lparr>bool_val_to_struct := with_states [unat (b - 1) \<mapsto> v] (bool_val_to_struct p)\<rparr>)"
proof -
  let ?bs = "bool_val_to_struct p" and ?i = "unat (b - 1)"
  obtain d where d: "?i < length ?bs" "?bs ! ?i = Some d" using assms by (auto simp: valid_bool_def)
  have "?bs[?i := Some (d\<lparr>state := v\<rparr>)] = with_states [?i \<mapsto> v] ?bs"
    using d by (intro nth_equalityI) (auto simp: nth_with_states nth_list_update)
  with d show ?thesis by (simp add: set_bool_state_def val_idx_def val_set_def)
qed

text \<open>The states that a list of values gives to the Booleans of a list.\<close>

definition states_for :: "u32 list \<Rightarrow> int list \<Rightarrow> nat \<rightharpoonup> int" where
  "states_for ids vs = map_of (rev (zip (map (\<lambda>b. unat (b - 1)) ids) vs))"

lemma index_inj: "unat (a - 1) = unat (b - 1) \<longleftrightarrow> a = (b :: u32)"
  by (metis diff_add_cancel word_unat_eq_iff)

lemma distinct_index: "distinct ids \<Longrightarrow> distinct (map (\<lambda>b. unat (b - 1)) (ids :: u32 list))"
  by (auto simp: distinct_map inj_on_def index_inj)

lemma states_for_nth:
  assumes "distinct ids" and "length vs = length ids" and "j < length ids"
  shows "states_for ids vs (unat (ids ! j - 1)) = Some (vs ! j)"
proof -
  let ?z = "zip (map (\<lambda>b. unat (b - 1)) ids) vs"
  have "distinct (map fst (rev ?z))" using distinct_index [OF assms(1)] assms(2) by (simp add: rev_map [symmetric])
  moreover have "(unat (ids ! j - 1), vs ! j) \<in> set (rev ?z)"
    using assms(2,3) by (auto simp: set_zip intro!: exI [of _ j])
  ultimately show ?thesis unfolding states_for_def by (rule map_of_is_SomeI)
qed

lemma states_for_dom: "length vs = length ids \<Longrightarrow> dom (states_for ids vs) = (\<lambda>b. unat (b - 1)) ` set ids"
  by (simp add: states_for_def dom_map_of_conv_image_fst flip: set_map) 

text \<open>A loop over the first elements of an array with a value for each position.\<close>

lemma upto32_Suc: "Suc n < 2 ^ 32 \<Longrightarrow> upto32 (of_nat (Suc n)) = upto32 (of_nat n) @ [of_nat n]"
  using unat_of_nat [of "Suc n", where 'a = 32] unat_of_nat [of n, where 'a = 32]
  by (simp add: upto32_def del: of_nat_Suc)

lemma assign_loop:
  assumes "n \<le> length ids" and "n < 2 ^ 32" and "\<And>b. b \<in> set (take n ids) \<Longrightarrow> valid_bool (bool_val_to_struct p) b"
  shows "for_each (\<lambda>j p. rbind (idx ids (unat j)) (\<lambda>b. set_bool_state b (f (unat j)) p)) (upto32 (of_nat n)) p =
    Inr (p\<lparr>bool_val_to_struct := with_states (states_for (take n ids) (map f [0..<n])) (bool_val_to_struct p)\<rparr>)"
  using assms
proof (induction n)
  case 0
  show ?case by (simp add: upto32_def states_for_def)
next
  case (Suc n)
  let ?bs = "bool_val_to_struct p"
  have take: "take (Suc n) ids = take n ids @ [ids ! n]" using Suc.prems(1) by (simp add: take_Suc_conv_app_nth)
  then have valid: "valid_bool ?bs (ids ! n)" using Suc.prems(3) by simp
  have un: "unat (of_nat n :: u32) = n" using Suc.prems(2) by (simp add: unat_of_nat)
  let ?g = "states_for (take n ids) (map f [0..<n])"
  have IH: "for_each (\<lambda>j p. rbind (idx ids (unat j)) (\<lambda>b. set_bool_state b (f (unat j)) p)) (upto32 (of_nat n)) p =
      Inr (p\<lparr>bool_val_to_struct := with_states ?g ?bs\<rparr>)"
    using Suc take by simp
  have "?g ++ [unat (ids ! n - 1) \<mapsto> f n] = states_for (take (Suc n) ids) (map f [0..<Suc n])"
    using Suc.prems(1) by (simp add: states_for_def take map_add_def fun_eq_iff split: option.split)
  then show ?case
    using Suc.prems(1) valid
    by (simp only: upto32_Suc [OF Suc.prems(2)] for_each_append IH)
      (simp add: un set_bool_state_with with_states_comp)
qed

section \<open>The Booleans of an expression\<close>

definition bools_of :: "cond_expr list \<Rightarrow> u32 set" where
  "bools_of es = cond_bool ` {t \<in> set es. is_bool t}"

lemma bools_of_simps [simp]:
  "bools_of [] = {}" "bools_of (xs @ ys) = bools_of xs \<union> bools_of ys"
  "bools_of (t # xs) = (if is_bool t then insert (cond_bool t) (bools_of xs) else bools_of xs)"
  by (auto simp: bools_of_def)

lemma finite_bools_of [simp]: "finite (bools_of es)"
  by (simp add: bools_of_def)

text \<open>The Booleans in the order of their first occurrence.\<close>

definition bool_list :: "cond_expr list \<Rightarrow> u32 list" where
  "bool_list es = rev (remdups (rev (map cond_bool (filter is_bool es))))"

lemma bool_list_laws [simp]: "distinct (bool_list es)" "set (bool_list es) = bools_of es"
  by (auto simp: bool_list_def bools_of_def)

lemma bool_list_snoc:
  "bool_list (es @ [t]) =
     (if is_bool t \<and> cond_bool t \<notin> bools_of es then bool_list es @ [cond_bool t] else bool_list es)"
  by (auto simp: bool_list_def bools_of_def)

lemma bool_list_mono: "length (bool_list es) \<le> length (bool_list (es @ fs))"
proof -
  have "card (bools_of es) \<le> card (bools_of (es @ fs))" by (intro card_mono) auto
  then show ?thesis by (simp flip: bool_list_laws(2) distinct_card [OF bool_list_laws(1)])
qed

lemma present_loop_eq: "n \<le> length bs \<Longrightarrow> present_loop t bs n = Inr (t \<in> set (take n bs))"
  by (induction t bs n rule: present_loop.induct) auto

text \<open>The array of recorded Booleans.\<close>

definition id_array :: "u32 list \<Rightarrow> u32 list" where
  "id_array L = L @ replicate (5 - length L) 0"

lemma id_array_simps [simp]:
  "length L \<le> 5 \<Longrightarrow> length (id_array L) = 5" "take (length L) (id_array L) = L"
  by (simp_all add: id_array_def)

lemma id_array_snoc: "length L < 5 \<Longrightarrow> (id_array L)[length L := b] = id_array (L @ [b])"
  by (cases "5 - length L") (auto simp: id_array_def list_update_append)

lemma unat_of_nat_small: "k \<le> 5 \<Longrightarrow> unat (of_nat k :: u32) = k"
  by (simp add: unat_of_nat)

lemma less_max: "k \<le> 5 \<Longrightarrow> (of_nat k :: u32) < COND_MAX_BOOLS \<longleftrightarrow> k < 5"
  by (simp add: COND_MAX_BOOLS_def word_less_nat_alt unat_of_nat_small)

lemma bool_present_eq:
  assumes "length L \<le> 5"
  shows "bool_present t (id_array L) (of_nat (length L)) = Inr (t \<in> set L)"
  using assms present_loop_eq [of "length L" "id_array L" t]
  by (simp add: bool_present_def COND_MAX_BOOLS_def word_less_nat_alt unat_of_nat_small)

lemma collect_step:
  assumes "length (bool_list ys) \<le> 5" and "length (bool_list (ys @ [y])) \<le> 5"
  shows "collect_bool y (of_nat (length (bool_list ys)), id_array (bool_list ys)) =
    Inr (of_nat (length (bool_list (ys @ [y]))), id_array (bool_list (ys @ [y])))"
proof (cases "is_bool y \<and> cond_bool y \<notin> bools_of ys")
  case False
  then show ?thesis
    using bool_present_eq [OF assms(1), of "cond_bool y"] by (auto simp: collect_bool_def bool_list_snoc is_bool_def)
next
  case True
  then have "length (bool_list ys) < 5" using assms(2) by (simp add: bool_list_snoc)
  with True show ?thesis
    using bool_present_eq [OF assms(1), of "cond_bool y"] less_max [OF assms(1)] unat_of_nat_small [OF assms(1)]
    by (simp add: collect_bool_def bool_list_snoc is_bool_def id_array_snoc add.commute)
qed

lemma collect_bools:
  assumes "length (bool_list es) \<le> 5"
  shows "for_each collect_bool es (0, replicate 5 0) = Inr (of_nat (length (bool_list es)), id_array (bool_list es))"
proof -
  have "\<exists>s. for_each collect_bool es (0, replicate 5 0) = Inr s \<and>
      s = (of_nat (length (bool_list es)), id_array (bool_list es))"
  proof (rule for_each_total [of "\<lambda>ys s. s = (of_nat (length (bool_list ys)), id_array (bool_list ys))"])
    fix ys y zs and s :: "u32 \<times> u32 list"
    assume es: "es = ys @ y # zs" and s: "s = (of_nat (length (bool_list ys)), id_array (bool_list ys))"
    have "length (bool_list ys) \<le> 5" "length (bool_list (ys @ [y])) \<le> 5"
      using assms bool_list_mono [of ys "y # zs"] bool_list_mono [of "ys @ [y]" zs] by (simp_all add: es)
    from collect_step [OF this] show "\<exists>s'. collect_bool y s = Inr s' \<and>
        s' = (of_nat (length (bool_list (ys @ [y]))), id_array (bool_list (ys @ [y])))"
      by (simp add: s)
  qed (simp add: bool_list_def id_array_def)
  then show ?thesis by simp
qed

section \<open>The truth table\<close>

text \<open>The assignment that the number of a row of the table stands for.\<close>

definition row :: "u32 list \<Rightarrow> nat \<Rightarrow> u32 \<Rightarrow> bool" where
  "row L t b \<longleftrightarrow> (\<exists>j < length L. L ! j = b \<and> bit t j)"

lemma row_nth: "distinct L \<Longrightarrow> j < length L \<Longrightarrow> row L t (L ! j) \<longleftrightarrow> bit t j"
  by (auto simp: row_def nth_eq_iff_index_eq)

definition row_states :: "u32 list \<Rightarrow> nat \<Rightarrow> nat \<rightharpoonup> int" where
  "row_states L t = states_for L (map (\<lambda>j. of_bool_int (bit t j)) [0..<length L])"

lemma assign_bools_row:
  assumes "length L \<le> 5" and "\<And>b. b \<in> set L \<Longrightarrow> valid_bool (bool_val_to_struct p) b"
  shows "assign_bools (id_array L) (of_nat (length L)) test p =
    Inr (p\<lparr>bool_val_to_struct := with_states (row_states L (unat test)) (bool_val_to_struct p)\<rparr>)"
proof -
  have "(if test AND push_bit (unat j) 1 \<noteq> 0 then 1 else 0) = of_bool_int (bit (unat test) (unat j))" for j :: u32
    using test_bit_and_power [of test "unat j"] by (auto simp: of_bool_int_def bit_unsigned_iff push_bit_eq_mult dest: bit_imp_le_length)
  then show ?thesis
    using assign_loop [of "length L" "id_array L" p "\<lambda>j. of_bool_int (bit (unat test) j)"] assms
    unfolding assign_bools_def row_states_def by simp
qed

lemma row_agrees:
  assumes L: "distinct L" "bools_of es \<subseteq> set L" and valid: "\<And>b. b \<in> set L \<Longrightarrow> valid_bool bs b"
  shows "bools_agree (with_states (row_states L t) bs) (row L t) es"
proof -
  have "\<exists>d. val_idx (with_states (row_states L t) bs) b = Inr d \<and> state d = of_bool_int (row L t b)"
    if "b \<in> set L" for b
  proof -
    from that obtain j where j: "j < length L" "L ! j = b" by (auto simp: in_set_conv_nth)
    have "row_states L t (unat (b - 1)) = Some (of_bool_int (bit t j))"
      using states_for_nth [OF L(1) _ j(1), of "map (\<lambda>j. of_bool_int (bit t j)) [0..<length L]"] j
      by (simp add: row_states_def)
    with valid [OF that] row_nth [OF L(1) j(1), of t] j(2) show ?thesis
      by (auto simp: val_idx_Inr valid_bool_def nth_with_states)
  qed
  then show ?thesis
    using L(2) by (fastforce simp: bools_agree_def list_all_iff bools_of_def split: sum.split)
qed

lemma row_states_dom: "dom (row_states L t) = (\<lambda>b. unat (b - 1)) ` set L"
  by (simp add: row_states_def states_for_dom)

lemma bit_pow2_32: "bit (2 ^ n :: u32) k \<longleftrightarrow> k = n \<and> n < 32"
  by (auto simp: bit_simps)

lemma precomp_loop_table:
  assumes e: "cond_tree e" "need e \<le> COND_EXPR_MAXDEPTH"
    and L: "length L \<le> 5" "distinct L" "bools_of (postfix e) \<subseteq> set L"
    and valid: "\<And>b. b \<in> set L \<Longrightarrow> valid_bool (bool_val_to_struct p) b"
    and "\<And>t. t \<in> set ts \<Longrightarrow> unat t < 32" and "dom g \<subseteq> (\<lambda>b. unat (b - 1)) ` set L"
  shows "\<exists>g' pre'. dom g' \<subseteq> (\<lambda>b. unat (b - 1)) ` set L \<and>
    precomp_loop (id_array L) (of_nat (length L)) (postfix e) ts
        (p\<lparr>bool_val_to_struct := with_states g (bool_val_to_struct p)\<rparr>) pre =
      Inr (p\<lparr>bool_val_to_struct := with_states g' (bool_val_to_struct p)\<rparr>, pre', 0) \<and>
    (\<forall>k. bit pre' k \<longleftrightarrow> bit pre k \<or> (\<exists>t \<in> set ts. unat t = k) \<and> cond_holds (row L k) e)"
  using assms(7,8)
proof (induction ts arbitrary: g pre)
  case Nil
  then show ?case by (intro exI [of _ g] exI [of _ pre]) simp
next
  case (Cons t ts)
  let ?bs = "bool_val_to_struct p" and ?g = "g ++ row_states L (unat t)"
  let ?h = "cond_holds (row L (unat t)) e"
  have valid': "valid_bool (with_states g ?bs) b" if "b \<in> set L" for b using valid [OF that] by simp
  let ?pre = "if ?h then pre OR push_bit (unat t) 1 else pre"
  have eval: "cond_evaluate_expr (p\<lparr>bool_val_to_struct := with_states ?g ?bs\<rparr>) (postfix e) = Inr (of_bool_int ?h)"
    using eval_tree [OF e(1) row_agrees [OF L(2,3) valid', of "unat t"]] e(2)
    by (simp add: cond_evaluate_expr_def with_states_comp)
  have assign: "assign_bools (id_array L) (of_nat (length L)) t (p\<lparr>bool_val_to_struct := with_states g ?bs\<rparr>) =
      Inr (p\<lparr>bool_val_to_struct := with_states ?g ?bs\<rparr>)"
    using assign_bools_row [OF L(1), of "p\<lparr>bool_val_to_struct := with_states g ?bs\<rparr>" t] valid'
    by (simp add: with_states_comp)
  have dom: "dom ?g \<subseteq> (\<lambda>b. unat (b - 1)) ` set L" using Cons.prems(2) by (simp add: row_states_dom)
  have ts: "unat u < 32" if "u \<in> set ts" for u using Cons.prems(1) that by simp
  obtain g' pre' where g': "dom g' \<subseteq> (\<lambda>b. unat (b - 1)) ` set L"
    and loop: "precomp_loop (id_array L) (of_nat (length L)) (postfix e) ts
        (p\<lparr>bool_val_to_struct := with_states ?g ?bs\<rparr>) ?pre =
      Inr (p\<lparr>bool_val_to_struct := with_states g' ?bs\<rparr>, pre', 0)"
    and pre': "\<And>k. bit pre' k \<longleftrightarrow> bit ?pre k \<or> (\<exists>t \<in> set ts. unat t = k) \<and> cond_holds (row L k) e"
    using Cons.IH [OF ts dom, of ?pre] by blast
  have "bit pre' k \<longleftrightarrow> bit pre k \<or> (\<exists>u \<in> set (t # ts). unat u = k) \<and> cond_holds (row L k) e" for k
    unfolding pre' using Cons.prems(1) [of t] by (auto simp: bit_or_iff bit_pow2_32)
  moreover have "of_bool_int ?h \<noteq> - 1" "of_bool_int ?h \<noteq> 0 \<longleftrightarrow> ?h" by (simp_all add: of_bool_int_def)
  ultimately show ?case
    using g' loop by (intro exI [of _ g'] exI [of _ pre']) (simp add: assign eval)
qed

lemma for_each_cong:
  assumes "\<And>x s. x \<in> set xs \<Longrightarrow> f x s = g x s"
  shows "for_each f xs s = for_each g xs s"
  using assms by (induction xs arbitrary: s) (auto split: sum.split)

lemma save_loop:
  assumes "n \<le> length ids" and "n < 2 ^ 32" and "\<And>b. b \<in> set (take n ids) \<Longrightarrow> valid_bool (bool_val_to_struct p) b"
  shows "save_bools p ids (of_nat n) = Inr (map (stored_state (bool_val_to_struct p)) (take n ids))"
  using assms
proof (induction n)
  case 0
  show ?case by (simp add: save_bools_def upto32_def)
next
  case (Suc n)
  have take: "take (Suc n) ids = take n ids @ [ids ! n]" using Suc.prems(1) by (simp add: take_Suc_conv_app_nth)
  then obtain d where "val_idx (bool_val_to_struct p) (ids ! n) = Inr d"
    using Suc.prems(3) by (auto simp: valid_bool_idx)
  moreover have "unat (of_nat n :: u32) = n" using Suc.prems(2) by (simp add: unat_of_nat)
  ultimately show ?case
    using Suc take upto32_Suc [OF Suc.prems(2)]
    by (simp add: save_bools_def for_each_append stored_state_def del: of_nat_Suc)
qed

lemma states_for_Some:
  assumes "states_for ids vs i = Some v" and "length vs = length ids"
  shows "\<exists>j < length ids. i = unat (ids ! j - 1) \<and> v = vs ! j"
  using map_of_SomeD [OF assms(1) [unfolded states_for_def]] assms(2) by (auto simp: set_zip)

lemma restore_bools_saved:
  assumes L: "length L \<le> 5" "distinct L" and valid: "\<And>b. b \<in> set L \<Longrightarrow> valid_bool (bool_val_to_struct p) b"
    and g: "dom g \<subseteq> (\<lambda>b. unat (b - 1)) ` set L"
  shows "restore_bools (id_array L) (map (stored_state (bool_val_to_struct p)) L) (of_nat (length L))
      (p\<lparr>bool_val_to_struct := with_states g (bool_val_to_struct p)\<rparr>) = Inr p"
proof -
  let ?bs = "bool_val_to_struct p" and ?orig = "map (stored_state (bool_val_to_struct p)) L"
  let ?p = "p\<lparr>bool_val_to_struct := with_states g ?bs\<rparr>"
  have "restore_bools (id_array L) ?orig (of_nat (length L)) ?p =
      for_each (\<lambda>i p. rbind (idx (id_array L) (unat i)) (\<lambda>b. set_bool_state b (?orig ! unat i) p))
        (upto32 (of_nat (length L))) ?p"
    unfolding restore_bools_def
    using unat_of_nat_small [OF L(1)]
    by (intro for_each_cong) (auto simp: set_upto32 word_less_nat_alt idx_def rbind_def split: sum.split)
  also have "\<dots> = Inr (p\<lparr>bool_val_to_struct := with_states (g ++ states_for L ?orig) ?bs\<rparr>)"
    using assign_loop [of "length L" "id_array L" ?p "\<lambda>j. ?orig ! j"] L valid
    by (simp add: with_states_comp map_nth del: nth_map) (simp add: map_nth [of ?orig, simplified])
  also have "with_states (g ++ states_for L ?orig) ?bs = ?bs"
  proof (rule with_states_ident)
    fix i v d
    assume "(g ++ states_for L ?orig) i = Some v" and i: "i < length ?bs" "?bs ! i = Some d"
    then have "states_for L ?orig i = Some v"
      using g states_for_dom [of ?orig L] by (auto simp: map_add_Some_iff domIff) 
    then obtain j where "j < length L" "i = unat (L ! j - 1)" "v = ?orig ! j"
      using states_for_Some [of L ?orig i v] by auto
    with i show "state d = v" by (simp add: stored_state_def val_idx_def)
  qed
  finally show ?thesis by simp
qed

lemma upto32_values: "(\<exists>t \<in> set (upto32 n). unat t = k) \<longleftrightarrow> k < unat n"
  by (metis set_upto32 mem_Collect_eq word_less_nat_alt unat_of_nat32)

section \<open>Normalisation\<close>

text \<open>A negation at the root is removed and the lists of the conditional are exchanged instead.\<close>

fun norm_tree :: "cond_expr rexp \<Rightarrow> cond_expr rexp" where
  "norm_tree (Una t a) = a"
| "norm_tree e = e"

fun is_negation :: "cond_expr rexp \<Rightarrow> bool" where
  "is_negation (Una t a) = True"
| "is_negation e = False"

definition exchange_lists :: "cond_node \<Rightarrow> cond_node" where
  "exchange_lists cn =
     cn\<lparr>true_list := false_list cn, false_list := true_list cn,
        avtrue_list := avfalse_list cn, avfalse_list := avtrue_list cn\<rparr>"

lemma norm_tree_laws:
  assumes "cond_tree e"
  shows "cond_tree (norm_tree e)" "need (norm_tree e) = need e"
    "bools_of (postfix (norm_tree e)) = bools_of (postfix e)"
    "cond_holds env e \<longleftrightarrow> cond_holds env (norm_tree e) \<noteq> is_negation e"
    "is_negation e \<longleftrightarrow> is_not (last (postfix e))"
    "is_negation e \<Longrightarrow> length (postfix e) \<noteq> 1 \<and> butlast (postfix e) = postfix (norm_tree e)"
proof -
  from assms show "cond_tree (norm_tree e)" "need (norm_tree e) = need e"
    "cond_holds env e \<longleftrightarrow> cond_holds env (norm_tree e) \<noteq> is_negation e"
    "bools_of (postfix (norm_tree e)) = bools_of (postfix e)"
    "is_negation e \<longleftrightarrow> is_not (last (postfix e))"
    by (cases e; auto simp: cond_tree_def cond_holds_def dest: cond_kinds)+
  show "length (postfix e) \<noteq> 1 \<and> butlast (postfix e) = postfix (norm_tree e)" if "is_negation e"
    using that by (cases e) auto
qed

lemma strip_not_tree:
  assumes "cond_tree e" and "cond_exprs cn = postfix e"
  shows "strip_not cn =
    Inr (Some ((if is_negation e then exchange_lists cn else cn)\<lparr>cond_exprs := postfix (norm_tree e)\<rparr>))"
proof (cases "is_negation e")
  case True
  then show ?thesis
    using assms norm_tree_laws(5,6) [OF assms(1)]
    by (simp add: strip_not_def is_not_def exchange_lists_def)
next
  case False
  moreover from False have "norm_tree e = e" by (cases e) simp_all
  ultimately show ?thesis
    using assms norm_tree_laws(5) [OF assms(1)] by (simp add: strip_not_def is_not_def)
qed

text \<open>The conditional that normalisation leaves.\<close>

definition normal_node :: "cond_expr rexp \<Rightarrow> u32 \<Rightarrow> cond_node \<Rightarrow> cond_node" where
  "normal_node e pre cn =
     (let L = bool_list (postfix e) in
      (if is_negation e then exchange_lists cn else cn)\<lparr>cond_exprs := postfix (norm_tree e),
        nbools := of_nat (length L), bool_ids := id_array L, expr_pre_comp := pre\<rparr>)"

lemma normal_node_simps [simp]:
  "expr_pre_comp (normal_node e pre cn) = pre" "cond_exprs (normal_node e pre cn) = postfix (norm_tree e)"
  by (simp_all add: normal_node_def Let_def)

lemma bool_list_norm: "cond_tree e \<Longrightarrow> bool_list (postfix (norm_tree e)) = bool_list (postfix e)"
  by (cases e) (auto simp: bool_list_snoc cond_tree_def dest: cond_kinds)

lemma normalize_table:
  assumes "cond_tree e" and "cond_exprs cn = postfix e" and "need e \<le> COND_EXPR_MAXDEPTH"
    and "length (bool_list (postfix e)) \<le> 5"
    and valid: "\<And>b. b \<in> bools_of (postfix e) \<Longrightarrow> valid_bool (bool_val_to_struct p) b"
  shows "\<exists>pre. cond_normalize_expr p cn = Inr (p, normal_node e pre cn, 0) \<and>
    (\<forall>t. bit pre t \<longleftrightarrow> t < 2 ^ length (bool_list (postfix e)) \<and>
       cond_holds (row (bool_list (postfix e)) t) (norm_tree e))"
proof -
  let ?cn = "cn\<lparr>nbools := 0, bool_ids := replicate 5 0, expr_pre_comp := 0\<rparr>" and ?e = "norm_tree e"
  let ?L = "bool_list (postfix e)"
  note tree = norm_tree_laws(1-3) [OF assms(1)]
  have strip: "strip_not ?cn =
      Inr (Some ((if is_negation e then exchange_lists ?cn else ?cn)\<lparr>cond_exprs := postfix ?e\<rparr>))"
    using strip_not_tree [OF assms(1), of ?cn] assms(2) by simp
  have coll: "for_each collect_bool (postfix ?e) (0, replicate 5 0) = Inr (of_nat (length ?L), id_array ?L)"
    using collect_bools [of "postfix ?e"] assms(4) by (simp add: bool_list_norm [OF assms(1)])
  have valid': "valid_bool (bool_val_to_struct p) b" if "b \<in> set ?L" for b using valid that by simp
  have save: "save_bools p (id_array ?L) (of_nat (length ?L)) = Inr (map (stored_state (bool_val_to_struct p)) ?L)"
    using save_loop [of "length ?L" "id_array ?L" p] assms(4) valid' by simp
  let ?tests = "upto32 (push_bit (unat (of_nat (length ?L) :: u32)) 1)"
  have small: "(2 :: nat) ^ length ?L \<le> 2 ^ 5" using assms(4) by (intro power_increasing) simp_all
  have size: "unat (push_bit (unat (of_nat (length ?L) :: u32)) 1 :: u32) = 2 ^ length ?L"
    using assms(4) unat_pow2 [of "length ?L"] by (simp add: unat_of_nat_small)
  note tests = upto32_values [of "push_bit (unat (of_nat (length ?L) :: u32)) 1", unfolded size]
  have "unat t < 32" if "t \<in> set ?tests" for t using tests [of "unat t"] that small by auto
  then obtain g pre where g: "dom g \<subseteq> (\<lambda>b. unat (b - 1)) ` set ?L"
    and loop: "precomp_loop (id_array ?L) (of_nat (length ?L)) (postfix ?e) ?tests
        (p\<lparr>bool_val_to_struct := with_states Map.empty (bool_val_to_struct p)\<rparr>) 0 =
      Inr (p\<lparr>bool_val_to_struct := with_states g (bool_val_to_struct p)\<rparr>, pre, 0)"
    and pre: "\<And>k. bit pre k \<longleftrightarrow> bit (0 :: u32) k \<or> k < 2 ^ length ?L \<and> cond_holds (row ?L k) ?e"
    using precomp_loop_table [OF tree(1), of ?L p ?tests Map.empty 0] assms(3,4) tree(2,3) valid'
    unfolding tests by auto
  have max: "(of_nat (length ?L) :: u32) \<le> COND_MAX_BOOLS"
    using assms(4) by (simp add: COND_MAX_BOOLS_def word_le_nat_alt unat_of_nat_small)
  show ?thesis
    using restore_bools_saved [OF assms(4) bool_list_laws(1) valid' g] loop save strip coll max pre
    by (intro exI [of _ pre], cases "is_negation e")
      (simp_all add: cond_normalize_expr_def exchange_lists_def normal_node_def Let_def)
qed

text \<open>
  C22: For an expression of at most \<^verbatim>\<open>COND_MAX_BOOLS\<close> different Booleans that fits the evaluation
  stack, \<^verbatim>\<open>cond_normalize_expr\<close> succeeds and leaves the database exactly as it was.  It removes a
  negation at the root and exchanges the lists, records the Booleans in the order of their first
  occurrence, and bit \<open>t\<close> of \<^verbatim>\<open>expr_pre_comp\<close> is the truth value of the remaining expression when
  Boolean number \<open>j\<close> has the value of bit \<open>j\<close> of \<open>t\<close>.
\<close>

theorem cond_normalize_truth_table:
  assumes "cond_tree e" and "cond_exprs cn = postfix e" and "need e \<le> COND_EXPR_MAXDEPTH"
    and "length (bool_list (postfix e)) \<le> 5"
    and "\<And>b. b \<in> bools_of (postfix e) \<Longrightarrow> valid_bool (bool_val_to_struct p) b"
  shows "\<exists>pre. cond_normalize_expr p cn = Inr (p, normal_node e pre cn, 0) \<and>
    (\<forall>t. bit pre t \<longleftrightarrow> t < 2 ^ length (bool_list (postfix e)) \<and>
       cond_holds (row (bool_list (postfix e)) t) (norm_tree e))"
  using normalize_table [OF assms] .

definition and_not_node :: "u32 \<Rightarrow> u32 \<Rightarrow> cond_node" where
  "and_not_node a b = empty_cond_node\<lparr>cond_exprs := postfix (and_not a b)\<rparr>"

lemma and_not_laws:
  "cond_exprs (and_not_node a b) = postfix (and_not a b)" "norm_tree (and_not a b) = and_not a b"
  "\<not> is_negation (and_not a b)" "bools_of (postfix (and_not a b)) = {a, b}"
  "a \<noteq> b \<Longrightarrow> bool_list (postfix (and_not a b)) = [a, b]"
  "cond_holds env (and_not a b) \<longleftrightarrow> env a \<and> \<not> env b"
  by (auto simp: and_not_node_def and_not_def tok_def is_bool_def cond_consts bool_list_def cond_holds_def
      connective_def)

lemma two_bools_valid: "b \<in> {1, 2} \<Longrightarrow> valid_bool (bool_val_to_struct two_bools) b"
  by (auto simp: valid_bool_def two_bools_def)

lemma row_pair: "a \<noteq> b \<Longrightarrow> row [a, b] t a \<longleftrightarrow> bit t 0" "a \<noteq> b \<Longrightarrow> row [a, b] t b \<longleftrightarrow> bit t 1"
  using row_nth [of "[a, b]" 0 t] row_nth [of "[a, b]" 1 t] by simp_all

lemma and_not_normal:
  assumes "a \<in> {1, 2}" "b \<in> {1, 2}" "a \<noteq> b"
  shows "\<exists>pre. cond_normalize_expr two_bools (and_not_node a b) =
      Inr (two_bools, normal_node (and_not a b) pre (and_not_node a b), 0) \<and>
    (\<forall>t. bit pre t \<longleftrightarrow> t < 4 \<and> bit t 0 \<and> \<not> bit t 1)"
  using normalize_table [OF and_not_tree(1) [of a b] and_not_laws(1) and_not_tree(2), of two_bools]
    two_bools_valid assms
  by (auto simp: and_not_laws row_pair)

theorem cond_normalize_truth_table_witness:
  "\<exists>pre. cond_normalize_expr two_bools (and_not_node 1 2) = Inr (two_bools, normal_node (and_not 1 2) pre (and_not_node 1 2), 0)
     \<and> \<not> bit pre 4"
  using cond_normalize_truth_table [OF and_not_tree(1) [of 1 2] and_not_laws(1) and_not_tree(2), of two_bools]
    two_bools_valid
  by (auto simp: and_not_laws)

section \<open>Comparison\<close>

text \<open>A conditional with the table of the expression \<open>e\<close> for the Booleans \<open>L\<close>, as normalisation leaves it.\<close>

definition normalized :: "cond_node \<Rightarrow> u32 list \<Rightarrow> cond_expr rexp \<Rightarrow> bool" where
  "normalized cn L e \<longleftrightarrow>
     nbools cn = of_nat (length L) \<and> bool_ids cn = id_array L \<and> length L \<le> 5 \<and> distinct L \<and>
     cond_tree e \<and> set L = bools_of (postfix e) \<and>
     (\<forall>t. bit (expr_pre_comp cn) t \<longleftrightarrow> t < 2 ^ length L \<and> cond_holds (row L t) e)"

lemma cond_holds_cong:
  assumes "\<And>b. b \<in> bools_of (postfix e) \<Longrightarrow> f b = g b" and "cond_tree e"
  shows "cond_holds f e = cond_holds g e"
  using assms unfolding cond_tree_def cond_holds_def by (induction e) auto

lemma row_exists: "distinct L \<Longrightarrow> \<exists>t < 2 ^ length L. \<forall>b \<in> set L. row L t b = env b"
proof (rule exI [of _ "horner_sum of_bool 2 (map env L)"], intro conjI ballI)
  assume L: "distinct L"
  show "horner_sum of_bool 2 (map env L) < (2 :: nat) ^ length L"
    using horner_sum_of_bool_2_less [of "map env L"] by simp
  fix b
  assume "b \<in> set L"
  then obtain j where "j < length L" "L ! j = b" by (auto simp: in_set_conv_nth)
  then show "row L (horner_sum of_bool 2 (map env L)) b = env b"
    using row_nth [OF L, of j] by (auto simp: bit_horner_sum_bit_iff)
qed

lemma same_table_iff:
  assumes "normalized a L ea" and "normalized b L eb"
  shows "expr_pre_comp a = expr_pre_comp b \<longleftrightarrow> (\<forall>env. cond_holds env ea = cond_holds env eb)"
proof
  assume eq: "expr_pre_comp a = expr_pre_comp b"
  show "\<forall>env. cond_holds env ea = cond_holds env eb"
  proof
    fix env
    obtain t where t: "t < 2 ^ length L" "\<forall>b \<in> set L. row L t b = env b"
      using row_exists [of L env] assms(1) by (auto simp: normalized_def)
    have "cond_holds env ea = cond_holds (row L t) ea" "cond_holds env eb = cond_holds (row L t) eb"
      using t(2) assms by (auto simp: normalized_def intro!: cond_holds_cong)
    moreover have "cond_holds (row L t) ea = cond_holds (row L t) eb"
      using eq t(1) assms by (metis normalized_def)
    ultimately show "cond_holds env ea = cond_holds env eb" by simp
  qed
next
  assume "\<forall>env. cond_holds env ea = cond_holds env eb"
  then show "expr_pre_comp a = expr_pre_comp b"
    using assms by (intro bit_word_eqI) (simp add: normalized_def)
qed

lemma same_loop_True:
  assumes "length as \<le> 5" "length bs \<le> 5" "length as = length bs" and "set as \<subseteq> set bs"
    and "\<And>i. i \<in> set is \<Longrightarrow> unat i < length as"
  shows "same_loop (id_array as) (id_array bs) (of_nat (length bs)) is = Inr True"
  using assms(5)
proof (induction "is")
  case (Cons i "is")
  then have i: "unat i < length as" by simp
  then have "idx (id_array as) (unat i) = Inr (as ! unat i)"
    using assms(1) by (simp add: idx_def id_array_def nth_append)
  moreover have "as ! unat i \<in> set bs" using i assms(4) by (meson nth_mem subsetD)
  ultimately show ?case
    using Cons bool_present_eq [OF assms(2), of "as ! unat i"] by simp
qed simp

lemma cond_expr_equal_table:
  assumes "normalized a L ea" and "normalized b L' eb" and "set L = set L'"
  shows "cond_expr_equal (Some a) (Some b) = Inr (expr_pre_comp a = expr_pre_comp b)"
proof -
  have len: "length L = length L'" "length L \<le> 5"
    using assms distinct_card [of L] distinct_card [of L'] by (auto simp: normalized_def)
  have "(of_nat (length L) :: u32) \<le> COND_MAX_BOOLS"
    using len by (simp add: COND_MAX_BOOLS_def word_le_nat_alt unat_of_nat_small)
  moreover have "same_bools a b = Inr True"
    using assms len same_loop_True [of L L' "upto32 (of_nat (length L'))"] unat_of_nat_small [of "length L'"]
    by (simp add: same_bools_def normalized_def set_upto32 word_less_nat_alt)
  ultimately show ?thesis
    using assms len by (simp add: cond_expr_equal_def normalized_def)
qed

text \<open>
  C23: For two normalised conditionals that record the same Booleans in the same order,
  \<^verbatim>\<open>cond_expr_equal\<close> decides whether their expressions have the same value under every assignment.
\<close>

theorem cond_expr_equal_equivalent:
  assumes "normalized a L ea" and "normalized b L eb"
  shows "cond_expr_equal (Some a) (Some b) = Inr (\<forall>env. cond_holds env ea = cond_holds env eb)"
  using cond_expr_equal_table [OF assms refl] same_table_iff [OF assms] by simp

lemma and_not_normalized:
  assumes "a \<noteq> b" and "\<forall>t. bit pre t \<longleftrightarrow> t < 4 \<and> bit t 0 \<and> \<not> bit t 1"
  shows "normalized (normal_node (and_not a b) pre (and_not_node a b)) [a, b] (and_not a b)"
  using assms and_not_tree(1) [of a b]
  by (simp add: normalized_def normal_node_def Let_def and_not_laws row_pair)

theorem cond_expr_equal_equivalent_witness:
  "\<exists>cn. cond_normalize_expr two_bools (and_not_node 1 2) = Inr (two_bools, cn, 0) \<and>
     cond_expr_equal (Some cn) (Some cn) = Inr True"
proof -
  let ?n = "\<lambda>pre. normal_node (and_not 1 2) pre (and_not_node 1 2)"
  obtain pre where pre: "cond_normalize_expr two_bools (and_not_node 1 2) = Inr (two_bools, ?n pre, 0)"
    "\<forall>t. bit pre t \<longleftrightarrow> t < 4 \<and> bit t 0 \<and> \<not> bit t 1"
    using and_not_normal [of 1 2] by auto
  have norm: "normalized (?n pre) [1, 2] (and_not 1 2)" using and_not_normalized [OF _ pre(2)] by simp
  show ?thesis using pre(1) cond_expr_equal_equivalent [OF norm norm] by (intro exI [of _ "?n pre"]) simp
qed

text \<open>
  C40: When two expressions mention the same Booleans in different orders, the comparison is wrong.
  The normalised conditionals for \<^verbatim>\<open>A && !B\<close> and \<^verbatim>\<open>B && !A\<close> have the same table, because each table
  is indexed in the order of first occurrence and \<^verbatim>\<open>same_bools\<close> ignores the order, so
  \<^verbatim>\<open>cond_expr_equal\<close> reports them equal although one is true and the other false in a database where
  \<^verbatim>\<open>A\<close> is true and \<^verbatim>\<open>B\<close> false.
\<close>

theorem cond_expr_equal_confuses:
  "\<exists>a b. cond_normalize_expr two_bools (and_not_node 1 2) = Inr (two_bools, a, 0) \<and>
     cond_normalize_expr two_bools (and_not_node 2 1) = Inr (two_bools, b, 0) \<and>
     cond_expr_equal (Some a) (Some b) = Inr True \<and>
     cond_evaluate_expr two_bools (cond_exprs a) = Inr 1 \<and> cond_evaluate_expr two_bools (cond_exprs b) = Inr 0"
proof -
  let ?table = "\<lambda>pre. \<forall>t. bit pre t \<longleftrightarrow> t < 4 \<and> bit t 0 \<and> \<not> bit t 1"
  let ?n = "\<lambda>a b pre. normal_node (and_not a b) pre (and_not_node a b)"
  obtain p q where p: "cond_normalize_expr two_bools (and_not_node 1 2) = Inr (two_bools, ?n 1 2 p, 0)" "?table p"
    and q: "cond_normalize_expr two_bools (and_not_node 2 1) = Inr (two_bools, ?n 2 1 q, 0)" "?table q"
    using and_not_normal [of 1 2] and_not_normal [of 2 1] by auto
  have "p = q" using p(2) q(2) by (intro bit_word_eqI) simp
  have "normalized (?n 1 2 p) [1, 2] (and_not 1 2)" "normalized (?n 2 1 q) [2, 1] (and_not 2 1)"
    using and_not_normalized p(2) q(2) by simp_all
  from cond_expr_equal_table [OF this] \<open>p = q\<close>
  have eq: "cond_expr_equal (Some (?n 1 2 p)) (Some (?n 2 1 q)) = Inr True" by (simp add: insert_commute)
  have agree: "bools_agree (bool_val_to_struct two_bools) (\<lambda>b. b = 1) (postfix (and_not 1 2))"
    "bools_agree (bool_val_to_struct two_bools) (\<lambda>b. b = 1) (postfix (and_not 2 1))"
    by (simp_all add: bools_agree_def two_bools_def and_not_def tok_def val_eval of_bool_int_def is_bool_def cond_consts)
  have "cond_evaluate_expr two_bools (postfix (and_not 1 2)) = Inr 1"
    using eval_tree [OF and_not_tree(1) agree(1)] and_not_tree(2) [of 1 2]
    by (simp add: cond_evaluate_expr_def and_not_laws of_bool_int_def)
  moreover have "cond_evaluate_expr two_bools (postfix (and_not 2 1)) = Inr 0"
    using eval_tree [OF and_not_tree(1) agree(2)] and_not_tree(2) [of 2 1]
    by (simp add: cond_evaluate_expr_def and_not_laws of_bool_int_def)
  ultimately show ?thesis
    using p(1) q(1) eq by (intro exI [of _ "?n 1 2 p"] exI [of _ "?n 2 1 q"]) (simp add: and_not_laws)
qed

end
