(* ===== verification/Cond_Read.thy ===== *)
theory Cond_Read
  imports Conditional_Laws
begin

text \<open>
  Reading conditionals: what \<^verbatim>\<open>cond_read_list\<close> returns for a kernel policy satisfies the
  preconditions of \<^verbatim>\<open>evaluate_conds\<close>, except that an expression may name the Boolean number zero.
\<close>

section \<open>Addresses of the rules read\<close>

text \<open>The rules \<open>base\<close> read before and the rules \<open>lst\<close> of the list being read have addresses of their own.\<close>

definition addrs_ok :: "nat list \<Rightarrow> avtab \<Rightarrow> nat list \<Rightarrow> bool" where
  "addrs_ok base a lst \<longleftrightarrow>
     avtab_wf a \<and> distinct (base @ lst) \<and> set (base @ lst) \<subseteq> naddr ` set (av_nodes a)"

lemma addr_less: "avtab_wf h \<Longrightarrow> x \<in> naddr ` set (av_nodes h) \<Longrightarrow> x < anext h"
  by (auto simp: avtab_wf_def av_nodes_def)

lemma cond_insertf_addrs:
  assumes ok: "addrs_ok base a lst" and res: "cond_insertf m te other a k d lst = Inr (a', lst')"
  shows "addrs_ok base a' lst'"
proof -
  have wf: "avtab_wf a" using ok by (simp add: addrs_ok_def)
  obtain b ad where ins: "avtab_insert_nonunique (at_site (length lst) (at_site 0 m)) a k d = Inr (Some (b, ad))"
    and set_context: "av_modify (\<lambda>n. n\<lparr>parse_context := 1\<rparr>) ad b = Inr a'" and lst': "lst' = lst @ [ad]"
    using res by (auto simp: cond_insertf_def rbind_eq_Inr_iff split: if_splits option.splits)
  note spec = insert_nonunique_spec [OF wf ins]
  let ?g = "\<lambda>n. if naddr n = ad then n\<lparr>parse_context := 1\<rparr> else n"
  have in_place: "in_place ?g" by (simp add: in_place_def)
  have a': "a' = av_map ?g b" using set_context by (auto simp: av_modify_def av_map_def rbind_eq_Inr_iff simp del: One_nat_def)
  have a'_wf: "avtab_wf a'" "naddr ` set (av_nodes a') = naddr ` set (av_nodes b)"
    unfolding a' using av_map_wf [OF in_place, of b] in_place_addr_set [OF in_place, of b] spec by blast+
  have "anext a \<notin> set (base @ lst)"
    using ok addr_less [OF wf] by (meson addrs_ok_def less_irrefl subsetD)
  then show ?thesis
    using ok spec unfolding addrs_ok_def a'_wf(2) lst' by (auto simp: a'_wf new_node_def)
qed

lemma cond_read_av_list_addrs:
  assumes ok: "addrs_ok base (te_cond_avtab p) []"
    and res: "cond_read_av_list m stale p fp other = Inr (p', fp', l)"
  shows "addrs_ok (base @ l) (te_cond_avtab p') []" and "\<exists>a. p' = p\<lparr>te_cond_avtab := a\<rparr>"
proof -
  have "addrs_ok base (te_cond_avtab p') l \<and> (\<exists>a. p' = p\<lparr>te_cond_avtab := a\<rparr>)"
  proof -
    obtain fp1 n where n: "read_u32 fp = Inr (fp1, n)" using res by (auto simp: cond_read_av_list_def rbind_eq_Inr_iff)
    show ?thesis
    proof (cases "n = 0")
      case True
      then have "p' = p" "l = []" using res n by (auto simp: cond_read_av_list_def)
      then show ?thesis using ok by (auto intro: exI [of _ "te_cond_avtab p"])
    next
      case False
      obtain a fp2 where loop: "for_each
          (\<lambda>i (fp, a, lst). avtab_read_item stale fp (policyvers p) a (cond_insertf m (te_avtab p) other) lst)
          (upto32 n) (fp1, te_cond_avtab p, []) = Inr (fp2, a, l)" and p': "p' = p\<lparr>te_cond_avtab := a\<rparr>"
        using res n False by (auto simp: cond_read_av_list_def rbind_eq_Inr_iff)
      have "(\<lambda>_ (fp, a, lst). addrs_ok base a lst) (upto32 n) (fp2, a, l)"
      proof (rule for_each_invar [OF loop])
        show "(\<lambda>_ (fp, a, lst). addrs_ok base a lst) [] (fp1, te_cond_avtab p, [])" using ok by simp
      next
        fix ys zs and y :: u32 and s s' :: "policy_file \<times> avtab \<times> nat list"
        assume "(\<lambda>_ (fp, a, lst). addrs_ok base a lst) ys s"
          and "(\<lambda>(fp, a, lst). avtab_read_item stale fp (policyvers p) a (cond_insertf m (te_avtab p) other) lst) s = Inr s'"
        then obtain fp3 a3 l3 fp4 a4 l4 where s: "s = (fp3, a3, l3)" "s' = (fp4, a4, l4)" "addrs_ok base a3 l3"
          and item: "avtab_read_item stale fp3 (policyvers p) a3 (cond_insertf m (te_avtab p) other) l3 = Inr (fp4, a4, l4)"
          by (cases s; cases s') simp
        have "addrs_ok base a4 l4"
          using cond_insertf_addrs s(3) item by (rule avtab_read_item_invar [where I = "addrs_ok base"])
        then show "(\<lambda>_ (fp, a, lst). addrs_ok base a lst) (ys @ [y]) s'" by (simp add: s)
      qed
      then show ?thesis using p' by auto
    qed
  qed
  then show "addrs_ok (base @ l) (te_cond_avtab p') []" "\<exists>a. p' = p\<lparr>te_cond_avtab := a\<rparr>"
    by (auto simp: addrs_ok_def)
qed

section \<open>Expressions read\<close>

lemma read_exprs_valid:
  assumes "read_exprs m p n fp = Inr (fp', es)"
  shows "list_all (expr_isvalid p) es"
proof -
  have "(\<lambda>_ (fp, es). list_all (expr_isvalid p) es) [0..<nat (sint n)] (fp', es)"
    using assms unfolding read_exprs_def
    by (rule for_each_invar) (auto simp: rbind_eq_Inr_iff Let_def split: if_splits)
  then show ?thesis by simp
qed

lemma expr_isvalid_te: "expr_isvalid (p\<lparr>te_cond_avtab := a\<rparr>) = expr_isvalid p"
  by (simp add: expr_isvalid_def fun_eq_iff)

lemma cond_read_node_ok:
  assumes kern: "policy_type p = POLICY_KERN" and ok: "addrs_ok base (te_cond_avtab p) []"
    and res: "cond_read_node m stale p empty_cond_node fp = Inr (p', fp', n)"
  shows "addrs_ok (base @ rule_addrs [n]) (te_cond_avtab p') []" and "\<exists>a. p' = p\<lparr>te_cond_avtab := a\<rparr>"
    and "list_all (expr_isvalid p) (cond_exprs n)"
proof -
  obtain fp1 len fp2 es fp3 p1 t fp4 p2 f where
    es: "read_exprs (at_site 0 m) p len fp1 = Inr (fp2, es)"
    and t: "cond_read_av_list (at_site 1 m) stale p fp2 [] = Inr (p1, fp3, t)"
    and f: "cond_read_av_list (at_site 2 m) stale p1 fp3 t = Inr (p2, fp4, f)"
    and n: "p' = p2" "rule_addrs [n] = t @ f" "cond_exprs n = es"
    using res kern
    by (auto simp: cond_read_node_def rbind_eq_Inr_iff Let_def rule_addrs_def split: if_splits)
  note t' = cond_read_av_list_addrs [OF ok t]
  note f' = cond_read_av_list_addrs [OF t'(1) f]
  show "addrs_ok (base @ rule_addrs [n]) (te_cond_avtab p') []" using f'(1) n by simp
  show "\<exists>a. p' = p\<lparr>te_cond_avtab := a\<rparr>" using t'(2) f'(2) n(1) by auto
  show "list_all (expr_isvalid p) (cond_exprs n)" using read_exprs_valid [OF es] n(3) by simp
qed

text \<open>
  C24: Conditionals read from any kernel policy are well-formed: the conditional rule table is
  well-formed, every rule belongs to exactly one list of one conditional and is in the table, and
  every element of an expression has a known operator and a Boolean number that is not too large.
\<close>

theorem cond_read_list_wf:
  assumes "policy_type p = POLICY_KERN" and "avnel (te_avtab p) \<noteq> 0"
    and "cond_read_list m stale p [] fp = Inr (p', fp', cl)"
  shows "avtab_wf (te_cond_avtab p') \<and> cond_wf (te_cond_avtab p') cl \<and>
    list_all (\<lambda>n. list_all (expr_isvalid p) (cond_exprs n)) cl"
proof -
  let ?P = "\<lambda>_ (p1, fp, nodes). (\<exists>a. p1 = p\<lparr>te_cond_avtab := a\<rparr>) \<and>
    addrs_ok (rule_addrs nodes) (te_cond_avtab p1) [] \<and>
    list_all (\<lambda>n. list_all (expr_isvalid p) (cond_exprs n)) nodes"
  obtain a fp1 len where a: "avtab_alloc (at_site 0 m) (te_cond_avtab p) (avnel (te_avtab p)) = Inr a"
    and loop: "for_each
         (\<lambda>i (p, fp, nodes).
            if \<not> malloc (at_site i (at_site 1 m)) then Inl STATUS_ERR
            else rbind (cond_read_node (at_site i (at_site 2 m)) stale p empty_cond_node fp) (\<lambda>(p, fp, n).
              Inr (p, fp, (if i = 0 then [n] else nodes @ [n]))))
         [0..<nat (sint (len :: u32))] (p\<lparr>te_cond_avtab := a\<rparr>, fp1, []) = Inr (p', fp', cl)"
    using assms(3) by (auto simp: cond_read_list_def rbind_eq_Inr_iff)
  have "?P [0..<nat (sint len)] (p', fp', cl)"
  proof (rule for_each_invar [OF loop])
    show "?P [] (p\<lparr>te_cond_avtab := a\<rparr>, fp1, [])"
      using avtab_alloc_wf [OF assms(2) a] by (auto simp: addrs_ok_def rule_addrs_def)
  next
    fix ys zs i and s s' :: "policydb \<times> policy_file \<times> cond_node list"
    assume P: "?P ys s" and step: "(\<lambda>(p, fp, nodes).
            if \<not> malloc (at_site i (at_site 1 m)) then Inl STATUS_ERR
            else rbind (cond_read_node (at_site i (at_site 2 m)) stale p empty_cond_node fp) (\<lambda>(p, fp, n).
              Inr (p, fp, (if i = 0 then [n] else nodes @ [n])))) s = Inr s'"
    obtain p1 fp2 nodes where s: "s = (p1, fp2, nodes)" by (metis prod.exhaust)
    with step obtain p2 fp3 n where node: "cond_read_node (at_site i (at_site 2 m)) stale p1 empty_cond_node fp2 = Inr (p2, fp3, n)"
      and s': "s' = (p2, fp3, if i = 0 then [n] else nodes @ [n])"
      by (auto simp: rbind_eq_Inr_iff split: if_splits)
    have p1: "\<exists>a. p1 = p\<lparr>te_cond_avtab := a\<rparr>" and ok: "addrs_ok (rule_addrs nodes) (te_cond_avtab p1) []"
      and v: "list_all (\<lambda>n. list_all (expr_isvalid p) (cond_exprs n)) nodes"
      using P s by auto
    have kern: "policy_type p1 = POLICY_KERN" using p1 assms(1) by auto
    note n = cond_read_node_ok [OF kern ok node]
    have "expr_isvalid p1 = expr_isvalid p" using p1 expr_isvalid_te by auto
    moreover have "rule_addrs (nodes @ [n]) = rule_addrs nodes @ rule_addrs [n]" by (simp add: rule_addrs_def)
    ultimately show "?P (ys @ [i]) s'"
      using n p1 v s' by (auto simp: addrs_ok_def)
  qed
  then show ?thesis by (auto simp: addrs_ok_def cond_wf_def)
qed

lemma read_u32_mem: "read_u32 (mem_file q (cpu_to_le32 w @ d)) = Inr (mem_file (q @ cpu_to_le32 w) d, w)"
  using next_entry_mem [of "cpu_to_le32 w" 4 q d] by (simp add: read_u32_def or_status_def)

lemma le_words_pair: "le_words 4 2 (cpu_to_le32 a @ cpu_to_le32 b) = [a, b]"
  by (simp add: numeral_2_eq_2)

text \<open>One conditional on Boolean 1 with empty lists.\<close>

definition sample_kernel :: policydb where
  "sample_kernel = zero_policydb\<lparr>te_avtab := te_cond_avtab sample_cond, p_bools := zero_symtab\<lparr>nprim := 1\<rparr>\<rparr>"

definition sample_cond_file :: "u8 list" where
  "sample_cond_file = concat (map cpu_to_le32 [1, 0, 1, 1, 1, 0, 0])"

theorem cond_read_list_wf_witness:
  "\<exists>p' fp' n. cond_read_list no_oom (\<lambda>_. 0) sample_kernel [] (mem_file [] sample_cond_file) = Inr (p', fp', [n])
     \<and> avtab_wf (te_cond_avtab p') \<and> cond_exprs n = [tok COND_BOOL 1]"
proof -
  have 1: "policy_type sample_kernel = POLICY_KERN" "avnel (te_avtab sample_kernel) \<noteq> 0"
    by (simp_all add: sample_kernel_def zero_policydb_def POLICY_KERN_def sample_cond_def)
  obtain a where a: "avtab_alloc no_oom (te_cond_avtab sample_kernel) (avnel (te_avtab sample_kernel)) = Inr a"
    using 1(2) by (simp add: avtab_alloc_eq)
  let ?p = "sample_kernel\<lparr>te_cond_avtab := a\<rparr>"
  have valid: "expr_isvalid ?p (tok COND_BOOL 1)"
    by (simp add: expr_isvalid_def tok_def sample_kernel_def cond_consts)
  have exprs: "read_exprs no_oom ?p 1 (mem_file q (cpu_to_le32 1 @ cpu_to_le32 1 @ d)) =
      Inr (mem_file (q @ cpu_to_le32 1 @ cpu_to_le32 1) d, [tok COND_BOOL 1])" for q d
    using next_entry_mem [of "cpu_to_le32 1 @ cpu_to_le32 1" 8 q d] valid
    by (simp add: read_exprs_def or_status_def le_words_pair tok_def COND_BOOL_def Let_def)
  have nolist: "cond_read_av_list no_oom st ?p (mem_file q (cpu_to_le32 0 @ d)) l =
      Inr (?p, mem_file (q @ cpu_to_le32 0) d, [])" for st q d l
    by (simp add: cond_read_av_list_def read_u32_mem)
  have "\<exists>fp n. cond_read_node no_oom st ?p empty_cond_node
      (mem_file q (cpu_to_le32 0 @ cpu_to_le32 1 @ cpu_to_le32 1 @ cpu_to_le32 1 @ cpu_to_le32 0 @ cpu_to_le32 0)) =
      Inr (?p, fp, n) \<and> cond_exprs n = [tok COND_BOOL 1]" for st q
    using 1(1) nolist [where d = "[]"] by (simp add: cond_read_node_def read_u32_mem exprs nolist)
  then obtain fp n where node: "cond_read_node no_oom (\<lambda>_. 0) ?p empty_cond_node
      (mem_file (cpu_to_le32 1) (cpu_to_le32 0 @ cpu_to_le32 1 @ cpu_to_le32 1 @ cpu_to_le32 1 @ cpu_to_le32 0 @ cpu_to_le32 0)) =
      Inr (?p, fp, n)" "cond_exprs n = [tok COND_BOOL 1]" by blast
  have "cond_read_list no_oom (\<lambda>_. 0) sample_kernel [] (mem_file [] sample_cond_file) = Inr (?p, fp, [n])"
    using read_u32_mem [of "[]" 1] node(1) a by (simp add: cond_read_list_def sample_cond_file_def or_status_def)
  with cond_read_list_wf [OF 1 this] node(2) show ?thesis by blast
qed

text \<open>
  The check of expressions on reading admits the Boolean number zero.  Numbers start at one and
  index an array after subtracting one, so evaluating such an expression reads far outside the
  array of Booleans, whatever the database.
\<close>

theorem expr_isvalid_admits_zero:
  assumes "length (bool_val_to_struct p) < 2 ^ 32"
  shows "expr_isvalid p (tok COND_BOOL 0) \<and> cond_evaluate_expr p [tok COND_BOOL 0] = Inl UB"
proof -
  have "unat (- 1 :: u32) = 2 ^ 32 - 1" by (simp add: unsigned_minus_1_eq_mask mask_eq_exp_minus_1)
  then show ?thesis
    using assms
    by (simp add: expr_isvalid_def tok_def cond_consts cond_evaluate_expr_def val_eval COND_EXPR_MAXDEPTH_def)
qed

theorem expr_isvalid_admits_zero_witness:
  "expr_isvalid two_bools (tok COND_BOOL 0) \<and> cond_evaluate_expr two_bools [tok COND_BOOL 0] = Inl UB"
  by (rule expr_isvalid_admits_zero) (simp add: two_bools_def)

end
