(* ===== verification/Util.thy ===== *)
theory Util
  imports Policydb_Sets
begin

text \<open>
  Helpers of the library: \<^verbatim>\<open>src/util.c\<close> (arrays that grow, the names of the permissions in an access
  vector, the splitting of lines into tokens), \<^verbatim>\<open>src/polcaps.c\<close> (policy capabilities),
  \<^verbatim>\<open>src/constraint.c\<close> and \<^verbatim>\<open>src/roles.c\<close>.
\<close>

section \<open>Arrays\<close>

text \<open>
  The array and its count; a null array is \<open>None\<close>.  When the count is at its maximum the array is
  reallocated to the size zero and the element is written behind its end.
\<close>

definition add_i_to_a :: "alloc \<Rightarrow> u32 \<Rightarrow> u32 \<Rightarrow> u32 list option \<Rightarrow> (u32 \<times> u32 list) result" where
  "add_i_to_a m i cnt a =
     (let cnt = (case a of None \<Rightarrow> 0 | Some _ \<Rightarrow> cnt); xs = (case a of None \<Rightarrow> [] | Some xs \<Rightarrow> xs) in
      if \<not> malloc m then Inl STATUS_ERR
      else if cnt + 1 = 0 then Inl UB
      else Inr (cnt + 1, take (unat cnt) xs @ [i]))"

section \<open>Names of permissions\<close>

text \<open>\<^verbatim>\<open>hashtab_map(table, perm_name, &v)\<close> stops at the first permission with the value.\<close>

definition perm_name :: "perm_datum symtab \<Rightarrow> u32 \<Rightarrow> string option" where
  "perm_name s v =
     (case table s of
        None \<Rightarrow> None
      | Some h \<Rightarrow> map_option fst (find (\<lambda>n. perm_value (snd n) = v) (entries h)))"

definition avbuf_size :: nat where "avbuf_size = 1024"

text \<open>
  The loop over the permissions.  The variable \<^verbatim>\<open>perm\<close> keeps the name of the previous permission when
  a bit has none.  A text that does not fit into the buffer gives a null pointer.
\<close>

fun av_to_string_loop ::
  "class_datum \<Rightarrow> u32 \<Rightarrow> nat list \<Rightarrow> string option \<Rightarrow> string \<Rightarrow> string option result"
where
  "av_to_string_loop cl av [] perm buf = Inr (Some buf)"
| "av_to_string_loop cl av (i # is) perm buf =
     (if 32 \<le> i then Inl UB
      else if av AND push_bit i 1 = 0 then av_to_string_loop cl av is perm buf
      else
        let found = (case perm_name (class_permissions cl) (of_nat i + 1) of
              Some s \<Rightarrow> Some s
            | None \<Rightarrow> (case comdatum cl of None \<Rightarrow> None | Some c \<Rightarrow> perm_name (common_permissions c) (of_nat i + 1)));
            perm = (case found of Some s \<Rightarrow> Some s | None \<Rightarrow> perm) in
        case perm of
          None \<Rightarrow> av_to_string_loop cl av is perm buf
        | Some s \<Rightarrow>
            if length s + 1 \<ge> avbuf_size - length buf then Inr None
            else av_to_string_loop cl av is perm (buf @ '' '' @ s))"

text \<open>
  The buffer is static and not cleared: when nothing is written it still holds \<open>old\<close>, what an earlier
  call left there.
\<close>

definition sepol_av_to_string :: "string \<Rightarrow> policydb \<Rightarrow> u32 \<Rightarrow> u32 \<Rightarrow> string option result" where
  "sepol_av_to_string old p tclass av =
     rbind (val_idx (class_val_to_struct p) tclass) (\<lambda>cl.
       rbind (av_to_string_loop cl av [0..<unat (nprim (class_permissions cl))] None []) (\<lambda>r.
         Inr (if r = Some [] then Some old else r)))"

section \<open>Tokens\<close>

definition isspace :: "char \<Rightarrow> bool" where
  "isspace c \<longleftrightarrow> c = CHR 0x20 \<or> (0x09 \<le> (of_char c :: nat) \<and> (of_char c :: nat) \<le> 0x0d)"

definition delimits :: "char \<Rightarrow> char \<Rightarrow> bool" where
  "delimits delim c \<longleftrightarrow> (if isspace delim then isspace c else c = delim)"

text \<open>What the first loop of \<^verbatim>\<open>tokenize_str\<close> passes, with the delimiter, and what is left.\<close>

fun scan_token :: "char \<Rightarrow> string \<Rightarrow> string \<times> string" where
  "scan_token delim [] = ([], [])"
| "scan_token delim (c # s) =
     (if delimits delim c then ([c], s)
      else case scan_token delim s of (t, r) \<Rightarrow> (c # t, r))"

text \<open>The token and the rest.  The delimiter is cut off only if something is left behind it.\<close>

definition tokenize_str :: "alloc \<Rightarrow> char \<Rightarrow> string \<Rightarrow> (string \<times> string) result" where
  "tokenize_str m delim ptr =
     (case scan_token delim ptr of (t, r) \<Rightarrow>
       if \<not> malloc m then Inl STATUS_ERR
       else Inr (take (if r \<noteq> [] then length t - 1 else length t) t,
                 if isspace delim then dropWhile isspace r else r))"

text \<open>The arguments that are set; their number is the result of \<^verbatim>\<open>tokenize\<close>.\<close>

fun tokenize :: "alloc \<Rightarrow> string \<Rightarrow> char \<Rightarrow> nat \<Rightarrow> string list" where
  "tokenize m buf delim 0 = []"
| "tokenize m buf delim (Suc k) =
     (if buf = [] then []
      else if k = 0 then (if malloc (at_site 0 m) then [buf] else [])
      else case tokenize_str (at_site 0 m) delim buf of
             Inl _ \<Rightarrow> []
           | Inr (t, r) \<Rightarrow> t # tokenize (at_site 1 m) r delim k)"

section \<open>Policy capabilities\<close>

definition POLICYDB_CAPABILITY_MAX :: int where "POLICYDB_CAPABILITY_MAX = 3"

definition polcap_names :: "string option list" where
  "polcap_names = [Some ''network_peer_controls'', Some ''open_perms'', Some ''redhat1'',
                   Some ''always_check_network'', None]"

text \<open>\<^verbatim>\<open>strcasecmp(a, b) == 0\<close> in the C locale.\<close>

definition tolower :: "char \<Rightarrow> char" where
  "tolower c = (let n = of_char c :: nat in if 65 \<le> n \<and> n \<le> 90 then char_of (n + 32) else c)"

definition strcaseeq :: "string \<Rightarrow> string \<Rightarrow> bool" where
  "strcaseeq a b \<longleftrightarrow> map tolower a = map tolower b"

fun polcap_loop :: "string \<Rightarrow> string option list \<Rightarrow> int \<Rightarrow> int" where
  "polcap_loop name [] capnum = - 1"
| "polcap_loop name (n # ns) capnum =
     (if POLICYDB_CAPABILITY_MAX < capnum then - 1
      else case n of
             None \<Rightarrow> polcap_loop name ns (capnum + 1)
           | Some s \<Rightarrow> if strcaseeq s name then capnum else polcap_loop name ns (capnum + 1))"

definition sepol_polcap_getnum :: "string \<Rightarrow> int" where
  "sepol_polcap_getnum name = polcap_loop name polcap_names 0"

definition sepol_polcap_getname :: "int \<Rightarrow> string option result" where
  "sepol_polcap_getname capnum =
     (if POLICYDB_CAPABILITY_MAX < capnum then Inr None
      else if capnum < 0 then Inl UB
      else idx polcap_names (nat capnum))"

section \<open>Constraint expressions and roles\<close>

definition constraint_expr_init :: "alloc \<Rightarrow> constraint_expr result" where
  "constraint_expr_init m =
     (if \<not> malloc m then Inl STATUS_ERR
      else Inr \<lparr>expr_type = 0, attr = 0, cop = 0, names = ebitmap_init, type_names = Some type_set_init\<rparr>)"

definition sepol_role_exists :: "policydb \<Rightarrow> string \<Rightarrow> bool result" where
  "sepol_role_exists p r = rbind (hashtab_search (table (p_roles p)) r) (\<lambda>d. Inr (d \<noteq> None))"

text \<open>The names are copied; a value without a name is a null pointer.\<close>

definition sepol_role_list :: "alloc \<Rightarrow> policydb \<Rightarrow> string list result" where
  "sepol_role_list m p =
     (if \<not> malloc (at_site 0 m) then Inl STATUS_ERR
      else for_each (\<lambda>i acc. rbind (val_idx (p_role_val_to_name p) (i + 1)) (\<lambda>s.
             if \<not> malloc (at_site (unat i) (at_site 1 m)) then Inl STATUS_ERR else Inr (acc @ [s])))
           (upto32 (nprim (p_roles p))) [])"

section \<open>Lemmas\<close>

text \<open>Fields joined by a delimiter.\<close>

fun joined :: "char \<Rightarrow> string list \<Rightarrow> string" where
  "joined d [] = []"
| "joined d [f] = f"
| "joined d (f # fs) = f @ d # joined d fs"

lemma scan_token_field:
  assumes "\<not> isspace d" and "d \<notin> set f"
  shows "scan_token d (f @ d # s) = (f @ [d], s)"
  using assms by (induction f) (auto simp: delimits_def)

lemma joined_nonempty: "fs \<noteq> [] \<Longrightarrow> last fs \<noteq> [] \<Longrightarrow> joined d fs \<noteq> []"
  by (induction d fs rule: joined.induct) auto

section \<open>Properties\<close>

text \<open>
  Fields joined by a delimiter that is not white space are split again by \<^verbatim>\<open>tokenize\<close>, empty ones
  included, when it is asked for as many as there are: the delimiter must not occur in any field
  but the last, and the last field must not be empty.
\<close>

theorem tokenize_joined:
  assumes "\<not> isspace d" and "\<forall>f \<in> set (butlast fs). d \<notin> set f" and "fs \<noteq> []" and "last fs \<noteq> []"
  shows "tokenize no_oom (joined d fs) d (length fs) = fs"
  using assms
proof (induction d fs rule: joined.induct)
  case (3 d f g fs)
  let ?rest = "joined d (g # fs)"
  have "scan_token d (joined d (f # g # fs)) = (f @ [d], ?rest)"
    using 3(2,3) by (simp add: scan_token_field)
  moreover have rest: "?rest \<noteq> []" using 3(5) by (intro joined_nonempty) simp_all
  ultimately have "tokenize_str no_oom d (joined d (f # g # fs)) = Inr (f, ?rest)"
    using 3(2) by (simp add: tokenize_str_def)
  then show ?case using 3 rest by simp
qed simp_all

theorem tokenize_joined_witness:
  "tokenize no_oom ''user::s0:c1'' CHR '':'' 3 = [''user'', '''', ''s0:c1'']"
proof -
  have "tokenize no_oom (joined CHR '':'' [''user'', '''', ''s0:c1'']) CHR '':'' 3 = [''user'', '''', ''s0:c1'']"
    using tokenize_joined [of "CHR '':''" "[''user'', '''', ''s0:c1'']"]
    by (simp add: isspace_def numeral_3_eq_3 del: tokenize.simps)
  then show ?thesis by simp
qed

text \<open>
  The delimiter stays part of the last token: a field with one delimiter behind it and nothing
  more is returned together with the delimiter, as the only token.
\<close>

theorem tokenize_keeps_delimiter:
  "d \<notin> set f \<Longrightarrow> \<not> isspace d \<Longrightarrow> tokenize no_oom (f @ [d]) d (Suc (Suc k)) = [f @ [d]]"
  by (simp add: tokenize_str_def scan_token_field split: prod.splits)

theorem tokenize_keeps_delimiter_witness:
  "tokenize no_oom ''s0:'' CHR '':'' 2 = [''s0:'']"
  using tokenize_keeps_delimiter [of "CHR '':''" "''s0''" 0] by (simp add: isspace_def numeral_2_eq_2)

end
