(* ===== verification/Constraint.thy ===== *)
theory Constraint
  imports Util Rpn Conditional
begin

text \<open>
  Evaluation of constraint expressions, \<^verbatim>\<open>constraint_expr_eval_reason\<close> of \<^verbatim>\<open>src/services.c\<close>.  The
  function also builds a text that explains the decision.  The model has the value it returns, the
  allocations that can make it fail, and what it reads of the policy, also for the text; the text itself, which
  does not influence the value, is left out, and with it the growth of its buffers and the calls that hand over a buffer
  for it.
\<close>

section \<open>Constants\<close>

definition CEXPR_MAXDEPTH :: nat where "CEXPR_MAXDEPTH = 5"

definition CEXPR_NOT :: u32 where "CEXPR_NOT = 1"
definition CEXPR_AND :: u32 where "CEXPR_AND = 2"
definition CEXPR_OR :: u32 where "CEXPR_OR = 3"
definition CEXPR_ATTR :: u32 where "CEXPR_ATTR = 4"
definition CEXPR_NAMES :: u32 where "CEXPR_NAMES = 5"

definition CEXPR_USER :: u32 where "CEXPR_USER = 1"
definition CEXPR_ROLE :: u32 where "CEXPR_ROLE = 2"
definition CEXPR_TYPE :: u32 where "CEXPR_TYPE = 4"
definition CEXPR_TARGET :: u32 where "CEXPR_TARGET = 8"
definition CEXPR_XTARGET :: u32 where "CEXPR_XTARGET = 16"
definition CEXPR_L1L2 :: u32 where "CEXPR_L1L2 = 32"
definition CEXPR_L1H2 :: u32 where "CEXPR_L1H2 = 64"
definition CEXPR_H1L2 :: u32 where "CEXPR_H1L2 = 128"
definition CEXPR_H1H2 :: u32 where "CEXPR_H1H2 = 256"
definition CEXPR_L1H1 :: u32 where "CEXPR_L1H1 = 512"
definition CEXPR_L2H2 :: u32 where "CEXPR_L2H2 = 1024"

definition CEXPR_EQ :: u32 where "CEXPR_EQ = 1"
definition CEXPR_NEQ :: u32 where "CEXPR_NEQ = 2"
definition CEXPR_DOM :: u32 where "CEXPR_DOM = 3"
definition CEXPR_DOMBY :: u32 where "CEXPR_DOMBY = 4"
definition CEXPR_INCOMP :: u32 where "CEXPR_INCOMP = 5"

definition STACK_LEN :: nat where "STACK_LEN = 32"

lemmas cexpr_types = CEXPR_NOT_def CEXPR_AND_def CEXPR_OR_def CEXPR_ATTR_def CEXPR_NAMES_def
lemmas cexpr_attrs = CEXPR_USER_def CEXPR_ROLE_def CEXPR_TYPE_def CEXPR_TARGET_def CEXPR_XTARGET_def CEXPR_L1L2_def
  CEXPR_L1H2_def CEXPR_H1L2_def CEXPR_H1H2_def CEXPR_L1H1_def CEXPR_L2H2_def
lemmas cexpr_ops = CEXPR_EQ_def CEXPR_NEQ_def CEXPR_DOM_def CEXPR_DOMBY_def CEXPR_INCOMP_def

section \<open>One comparison\<close>

text \<open>
  The value of one comparison, or \<open>None\<close> where the code reports a \<^verbatim>\<open>BUG\<close> and gives up.  A
  dereferenced null pointer is undefined.
\<close>

definition deref :: "'a option \<Rightarrow> 'a result" where
  "deref r = (case r of None \<Rightarrow> Inl UB | Some x \<Rightarrow> Inr x)"

definition compare_vals :: "u32 \<Rightarrow> u32 \<Rightarrow> u32 \<Rightarrow> bool option" where
  "compare_vals oper val1 val2 =
     (if oper = CEXPR_EQ then Some (val1 = val2)
      else if oper = CEXPR_NEQ then Some (val1 \<noteq> val2)
      else None)"

definition compare_roles :: "policydb \<Rightarrow> u32 \<Rightarrow> u32 \<Rightarrow> u32 \<Rightarrow> bool option result" where
  "compare_roles p oper val1 val2 =
     rbind (idx (role_val_to_struct p) (unat (val1 - 1))) (\<lambda>r1.
       rbind (idx (role_val_to_struct p) (unat (val2 - 1))) (\<lambda>r2.
         if oper = CEXPR_DOM
         then rbind (deref r1) (\<lambda>r1. Inr (Some (ebitmap_get_bit (dominates r1) (val2 - 1))))
         else if oper = CEXPR_DOMBY
         then rbind (deref r2) (\<lambda>r2. Inr (Some (ebitmap_get_bit (dominates r2) (val1 - 1))))
         else if oper = CEXPR_INCOMP
         then rbind (deref r1) (\<lambda>r1.
           if ebitmap_get_bit (dominates r1) (val2 - 1) then Inr (Some False)
           else rbind (deref r2) (\<lambda>r2. Inr (Some (\<not> ebitmap_get_bit (dominates r2) (val1 - 1)))))
         else Inr (compare_vals oper val1 val2)))"

definition compare_levels :: "u32 \<Rightarrow> mls_level \<Rightarrow> mls_level \<Rightarrow> bool option" where
  "compare_levels oper l1 l2 =
     (if oper = CEXPR_EQ then Some (mls_level_eq l1 l2)
      else if oper = CEXPR_NEQ then Some (\<not> mls_level_eq l1 l2)
      else if oper = CEXPR_DOM then Some (mls_level_dom l1 l2)
      else if oper = CEXPR_DOMBY then Some (mls_level_dom l2 l1)
      else if oper = CEXPR_INCOMP then Some (mls_level_incomp l2 l1)
      else None)"

text \<open>\<^verbatim>\<open>CEXPR_ATTR\<close>: an attribute of the source and one of the target.\<close>

definition cexpr_attr :: "policydb \<Rightarrow> context_struct \<Rightarrow> context_struct \<Rightarrow> constraint_expr \<Rightarrow> bool option result" where
  "cexpr_attr p scontext tcontext e =
     (let s = range scontext; t = range tcontext in
      if attr e = CEXPR_USER then Inr (compare_vals (cop e) (user scontext) (user tcontext))
      else if attr e = CEXPR_TYPE then Inr (compare_vals (cop e) (type scontext) (type tcontext))
      else if attr e = CEXPR_ROLE then compare_roles p (cop e) (role scontext) (role tcontext)
      else if attr e = CEXPR_L1L2 then Inr (compare_levels (cop e) (low s) (low t))
      else if attr e = CEXPR_L1H2 then Inr (compare_levels (cop e) (low s) (high t))
      else if attr e = CEXPR_H1L2 then Inr (compare_levels (cop e) (high s) (low t))
      else if attr e = CEXPR_H1H2 then Inr (compare_levels (cop e) (high s) (high t))
      else if attr e = CEXPR_L1H1 then Inr (compare_levels (cop e) (low s) (high s))
      else if attr e = CEXPR_L2H2 then Inr (compare_levels (cop e) (low t) (high t))
      else Inr None)"

text \<open>
  The list of names for the text: for the types of a kernel policy that has them, the types and attributes of the
  source, otherwise the names that are compared.  The bits are numbers of entries of the arrays of names, which are
  read without a check.
\<close>

definition name_list_bits :: "ebitmap \<Rightarrow> u32 list" where
  "name_list_bits e = filter (ebitmap_get_bit e) (map of_nat [unat (ebitmap_startbit e)..<unat (highbit e)])"

definition get_name_list :: "policydb \<Rightarrow> constraint_expr \<Rightarrow> u32 \<Rightarrow> unit result" where
  "get_name_list p e ty =
     rbind (if policy_type p = POLICY_KERN \<and> policyvers p \<ge> POLICYDB_VERSION_CONSTRAINT_NAMES \<and> ty = CEXPR_TYPE
            then rbind (deref (type_names e)) (\<lambda>t. Inr (ts_types t)) else Inr (names e)) (\<lambda>types.
       for_each (\<lambda>i _.
           if ty = CEXPR_USER then rbind (idx (p_user_val_to_name p) (unat i)) (\<lambda>s. rbind (deref s) (\<lambda>_. Inr ()))
           else if ty = CEXPR_ROLE then rbind (idx (p_role_val_to_name p) (unat i)) (\<lambda>s. rbind (deref s) (\<lambda>_. Inr ()))
           else if ty = CEXPR_TYPE then rbind (idx (p_type_val_to_name p) (unat i)) (\<lambda>s. rbind (deref s) (\<lambda>_. Inr ()))
           else Inr ())
         (name_list_bits types) ())"

text \<open>\<^verbatim>\<open>CEXPR_NAMES\<close>: an attribute of one of the contexts, with its kind, and a set of names.\<close>

definition names_operand :: "context_struct \<Rightarrow> context_struct \<Rightarrow> context_struct option \<Rightarrow> constraint_expr \<Rightarrow> (u32 \<times> u32) option" where
  "names_operand scontext tcontext xcontext e =
     (case (if attr e AND CEXPR_TARGET \<noteq> 0 then Some tcontext
            else if attr e AND CEXPR_XTARGET \<noteq> 0 then xcontext
            else Some scontext) of
        None \<Rightarrow> None
      | Some c \<Rightarrow>
          if attr e AND CEXPR_USER \<noteq> 0 then Some (CEXPR_USER, user c)
          else if attr e AND CEXPR_ROLE \<noteq> 0 then Some (CEXPR_ROLE, role c)
          else if attr e AND CEXPR_TYPE \<noteq> 0 then Some (CEXPR_TYPE, type c)
          else None)"

definition cexpr_names ::
  "policydb \<Rightarrow> context_struct \<Rightarrow> context_struct \<Rightarrow> context_struct option \<Rightarrow> constraint_expr \<Rightarrow> bool option result"
where
  "cexpr_names p scontext tcontext xcontext e =
     (case names_operand scontext tcontext xcontext e of
        None \<Rightarrow> Inr None
      | Some (u_r_t, val1) \<Rightarrow>
          if cop e = CEXPR_EQ
          then rbind (get_name_list p e u_r_t) (\<lambda>_. Inr (Some (ebitmap_get_bit (names e) (val1 - 1))))
          else if cop e = CEXPR_NEQ
          then rbind (get_name_list p e u_r_t) (\<lambda>_. Inr (Some (\<not> ebitmap_get_bit (names e) (val1 - 1))))
          else Inr None)"

section \<open>The loop\<close>

text \<open>
  \<^verbatim>\<open>goto out\<close> with \<^verbatim>\<open>expr_counter\<close> not zero walks over \<^verbatim>\<open>expr_list\<close> until a null pointer.  The array is
  not initialised behind the elements that are set.
\<close>

definition give_up :: "nat \<Rightarrow> bool list option result" where
  "give_up expr_counter = (if expr_counter = 0 then Inr None else Inl UB)"

definition push_value :: "bool option result \<Rightarrow> nat \<Rightarrow> (bool \<Rightarrow> bool list option result) \<Rightarrow> bool list option result" where
  "push_value r expr_counter k =
     rbind r (\<lambda>v. case v of None \<Rightarrow> give_up expr_counter | Some b \<Rightarrow> k b)"

text \<open>
  The loop over the expression with the stack \<open>st\<close>, whose first element is \<^verbatim>\<open>s[sp]\<close>.  The result is
  the stack, or \<open>None\<close> if the code gave up.  An operation on an empty stack accesses \<^verbatim>\<open>s[-1]\<close>.
\<close>

fun eval_cexpr ::
  "alloc \<Rightarrow> policydb \<Rightarrow> context_struct \<Rightarrow> context_struct \<Rightarrow> context_struct option \<Rightarrow> nat \<Rightarrow> nat \<Rightarrow>
   constraint_expr list \<Rightarrow> bool list \<Rightarrow> bool list option result"
where
  "eval_cexpr m p sc tc xc expr_counter expr_list_len [] st = Inr (Some st)"
| "eval_cexpr m p sc tc xc expr_counter expr_list_len (e # es) st =
     (let grow = expr_list_len \<le> expr_counter;
          expr_list_len = (if \<not> grow then expr_list_len else if expr_list_len = 0 then STACK_LEN else expr_list_len * 2);
          next = eval_cexpr (at_site 2 m) p sc tc xc (Suc expr_counter) expr_list_len es in
      if grow \<and> \<not> malloc (at_site 0 m) then (if expr_counter = 0 then Inl ENOMEM else Inl UB)
      else if \<not> malloc (at_site 1 m) then Inl ENOMEM
      else if expr_type e = CEXPR_NOT
      then (case st of a # st \<Rightarrow> next ((\<not> a) # st) | _ \<Rightarrow> Inl UB)
      else if expr_type e = CEXPR_AND
      then (case st of b # a # st \<Rightarrow> next ((a \<and> b) # st) | _ \<Rightarrow> Inl UB)
      else if expr_type e = CEXPR_OR
      then (case st of b # a # st \<Rightarrow> next ((a \<or> b) # st) | _ \<Rightarrow> Inl UB)
      else if expr_type e = CEXPR_ATTR
      then if length st = CEXPR_MAXDEPTH then give_up expr_counter
           else push_value (cexpr_attr p sc tc e) expr_counter (\<lambda>b. next (b # st))
      else if expr_type e = CEXPR_NAMES
      then if length st = CEXPR_MAXDEPTH then give_up expr_counter
           else push_value (cexpr_names p sc tc xc e) expr_counter (\<lambda>b. next (b # st))
      else give_up expr_counter)"

text \<open>
  The text starts with the name of the class, which is looked up even if the class is zero, and,
  except for transitions, the names of the permissions.
\<close>

definition get_class_info :: "alloc \<Rightarrow> policydb \<Rightarrow> u16 \<Rightarrow> constraint_node \<Rightarrow> context_struct option \<Rightarrow> unit result" where
  "get_class_info m p tclass constraint xcontext =
     (if \<not> malloc m then Inl ENOMEM
      else if tclass = 0 then Inl UB
      else rbind (val_idx (p_class_val_to_name p) (ucast tclass)) (\<lambda>_.
        if xcontext = None
        then rbind (sepol_av_to_string [] p (ucast tclass) (permissions constraint)) (\<lambda>_. Inr ())
        else Inr ()))"

text \<open>The conversion of the text to infix notation allocates a buffer for every operator.\<close>

definition infix_buffers :: "alloc \<Rightarrow> constraint_expr list \<Rightarrow> unit result" where
  "infix_buffers m es =
     (if \<not> malloc (at_site 0 m) then Inl ENOMEM
      else for_each (\<lambda>(i, e) _.
          if expr_type e \<in> {CEXPR_NOT, CEXPR_AND, CEXPR_OR} \<and> \<not> malloc (at_site i (at_site 1 m)) then Inl ENOMEM
          else Inr ()) (enumerate 0 es) ())"

definition constraint_expr_eval_reason ::
  "alloc \<Rightarrow> policydb \<Rightarrow> context_struct \<Rightarrow> context_struct \<Rightarrow> context_struct option \<Rightarrow> u16 \<Rightarrow> constraint_node \<Rightarrow> bool result"
where
  "constraint_expr_eval_reason m p scontext tcontext xcontext tclass constraint =
     rbind (get_class_info (at_site 0 m) p tclass constraint xcontext) (\<lambda>_.
       rbind (eval_cexpr (at_site 1 m) p scontext tcontext xcontext 0 0 (cn_expr constraint) []) (\<lambda>r.
         case r of
           None \<Rightarrow> Inr False
         | Some st \<Rightarrow>
             rbind (infix_buffers (at_site 2 m) (cn_expr constraint)) (\<lambda>_.
               if st = [] then Inl UB else Inr (last st))))"

text \<open>How the callers read the result: an error code counts as true.\<close>

definition constraint_holds :: "bool result \<Rightarrow> bool result" where
  "constraint_holds r = (case r of Inl UB \<Rightarrow> Inl UB | Inl _ \<Rightarrow> Inr True | Inr b \<Rightarrow> Inr b)"

end
