(* ===== verification/Mls_Policy.thy ===== *)
theory Mls_Policy
  imports Policydb_Sets
begin

text \<open>
  The MLS fields of security contexts under a policy, \<^verbatim>\<open>src/mls.c\<close>: their string
  representation, parsing, validity, and the computation and conversion of ranges.

  Where the C code fills a buffer of precomputed size, the model returns the string; that the
  precomputed size is right is a theorem.  The parser cuts the string into pieces in place; the
  model returns the pieces.
\<close>

definition OBJECT_R_VAL :: u32 where "OBJECT_R_VAL = 1"
definition SECCLASS_PROCESS :: u16 where "SECCLASS_PROCESS = 2"

text \<open>\<^verbatim>\<open>p_cat_val_to_name[i]\<close>: unset names are null pointers.\<close>

definition cat_name :: "policydb \<Rightarrow> u32 \<Rightarrow> string result" where
  "cat_name p i =
     rbind (idx (p_cat_val_to_name p) (unat i)) (\<lambda>r. case r of None \<Rightarrow> Inl UB | Some s \<Rightarrow> Inr s)"

section \<open>Length and text of the MLS fields\<close>

text \<open>
  The body of the loop over the categories, for the length: the state is \<^verbatim>\<open>range\<close> and \<^verbatim>\<open>len\<close>.
\<close>

definition len_step :: "policydb \<Rightarrow> u32 \<times> bool \<Rightarrow> nat \<times> u32 \<Rightarrow> (nat \<times> u32) result" where
  "len_step p v = (\<lambda>(range, len). case v of (i, b) \<Rightarrow>
     if b
     then if range \<noteq> 0 then Inr (range + 1, len)
          else rbind (cat_name p i) (\<lambda>s. Inr (range + 1, len + (of_nat (length s) + 1)))
     else if range > 1
     then rbind (cat_name p (i - 1)) (\<lambda>s. Inr (0, len + (of_nat (length s) + 1)))
     else Inr (0, len))"

text \<open>The value of the loop variable behind the loop.\<close>

definition after_loop :: "(u32 \<times> bool) list \<Rightarrow> u32" where
  "after_loop vs = (if vs = [] then 0 else fst (last vs) + 1)"

definition level_len :: "policydb \<Rightarrow> mls_level \<Rightarrow> u32 \<Rightarrow> u32 result" where
  "level_len p l n =
     rbind (val_idx (p_sens_val_to_name p) (sens l)) (\<lambda>s.
       rbind (ebitmap_for_each_bit (cat l)) (\<lambda>vs.
         rbind (for_each (len_step p) vs (0, n + of_nat (length s))) (\<lambda>(range, len).
           if range > 1
           then rbind (cat_name p (after_loop vs - 1)) (\<lambda>s. Inr (len + (of_nat (length s) + 1)))
           else Inr len)))"

definition mls_compute_context_len :: "policydb \<Rightarrow> context_struct \<Rightarrow> u32 result" where
  "mls_compute_context_len p c =
     (if \<not> mls p then Inr 0
      else rbind (level_len p (low (range c)) 1) (\<lambda>len.
        if mls_level_eq (low (range c)) (high (range c)) then Inr len
        else level_len p (high (range c)) (len + 1)))"

text \<open>The same loop for the text: the state is \<^verbatim>\<open>range\<close>, \<^verbatim>\<open>wrote_sep\<close> and what has been written.\<close>

definition text_step :: "policydb \<Rightarrow> u32 \<times> bool \<Rightarrow> nat \<times> bool \<times> string \<Rightarrow> (nat \<times> bool \<times> string) result" where
  "text_step p v = (\<lambda>(range, sep, out). case v of (i, b) \<Rightarrow>
     if b
     then if range \<noteq> 0 then Inr (range + 1, sep, out)
          else rbind (cat_name p i) (\<lambda>s. Inr (range + 1, True, out @ (if sep then '','' else '':'') @ s))
     else if range > 1
     then rbind (cat_name p (i - 1)) (\<lambda>s. Inr (0, sep, out @ (if range > 2 then ''.'' else '','') @ s))
     else Inr (0, sep, out))"

definition level_text :: "policydb \<Rightarrow> mls_level \<Rightarrow> string \<Rightarrow> string result" where
  "level_text p l out =
     rbind (val_idx (p_sens_val_to_name p) (sens l)) (\<lambda>s.
       rbind (ebitmap_for_each_bit (cat l)) (\<lambda>vs.
         rbind (for_each (text_step p) vs (0, False, out @ s)) (\<lambda>(range, sep, out).
           if range > 1
           then rbind (cat_name p (after_loop vs - 1)) (\<lambda>s. Inr (out @ (if range > 2 then ''.'' else '','') @ s))
           else Inr out)))"

definition mls_sid_to_context :: "policydb \<Rightarrow> context_struct \<Rightarrow> string \<Rightarrow> string result" where
  "mls_sid_to_context p c out =
     (if \<not> mls p then Inr out
      else rbind (level_text p (low (range c)) (out @ '':'')) (\<lambda>out.
        if mls_level_eq (low (range c)) (high (range c)) then Inr out
        else level_text p (high (range c)) (out @ ''-'')))"

text \<open>
  \<^verbatim>\<open>mls_to_string\<close> moves back by the computed length and copies from the second character on:
  with any other length written it would leave its buffers, and without MLS it reads behind the
  first one.
\<close>

definition mls_to_string :: "alloc \<Rightarrow> policydb \<Rightarrow> context_struct \<Rightarrow> string result" where
  "mls_to_string m p c =
     rbind (mls_compute_context_len p c) (\<lambda>len.
       if \<not> malloc (at_site 0 m) \<or> \<not> malloc (at_site 1 m) then Inl STATUS_ERR
       else rbind (mls_sid_to_context p c []) (\<lambda>s.
         if s = [] \<or> length s \<noteq> unat len then Inl UB else Inr (tl s)))"

section \<open>Validity\<close>

text \<open>The loop over the categories of a level; the result says whether all are associated.\<close>

fun cats_valid :: "policydb \<Rightarrow> level_datum \<Rightarrow> u32 list \<Rightarrow> bool result" where
  "cats_valid p d [] = Inr True"
| "cats_valid p d (i # is) =
     (if i > nprim (p_cats p) then Inr False
      else case level d of
        None \<Rightarrow> Inl UB
      | Some l \<Rightarrow> if \<not> ebitmap_get_bit (cat l) i then Inr False else cats_valid p d is)"

definition mls_level_isvalid :: "policydb \<Rightarrow> mls_level \<Rightarrow> bool result" where
  "mls_level_isvalid p l =
     (if sens l = 0 \<or> sens l > nprim (p_levels p) then Inr False
      else rbind (val_idx (p_sens_val_to_name p) (sens l)) (\<lambda>s.
        rbind (hashtab_search (table (p_levels p)) s) (\<lambda>d.
          case d of
            None \<Rightarrow> Inr False
          | Some d \<Rightarrow> rbind (ebitmap_positive_bits (cat l)) (cats_valid p d))))"

definition mls_context_isvalid :: "policydb \<Rightarrow> context_struct \<Rightarrow> bool result" where
  "mls_context_isvalid p c =
     (if \<not> mls p then Inr True
      else if \<not> mls_level_dom (high (range c)) (low (range c)) then Inr False
      else rbind (mls_level_isvalid p (low (range c))) (\<lambda>v.
        if \<not> v then Inr False
        else rbind (mls_level_isvalid p (high (range c))) (\<lambda>v.
          if \<not> v then Inr False
          else if role c = OBJECT_R_VAL then Inr True
          else if user c = 0 \<or> user c > nprim (p_users p) then Inr False
          else rbind (val_idx (user_val_to_struct p) (user c)) (\<lambda>u.
            Inr (mls_range_contains (exp_range u) (range c))))))"

section \<open>Parsing\<close>

text \<open>The text up to the first of some characters, that character if there is one, and the rest.\<close>

fun cut :: "(char \<Rightarrow> bool) \<Rightarrow> string \<Rightarrow> string \<times> char option \<times> string" where
  "cut P [] = ([], None, [])"
| "cut P (c # cs) = (if P c then ([], Some c, cs) else case cut P cs of (t, d, r) \<Rightarrow> (c # t, d, r))"

definition find_cat :: "policydb \<Rightarrow> string \<Rightarrow> u32 result" where
  "find_cat p s =
     rbind (hashtab_search (table (p_cats p)) s) (\<lambda>d.
       case d of None \<Rightarrow> Inl STATUS_ERR | Some d \<Rightarrow> Inr (cat_value d))"

text \<open>\<^verbatim>\<open>for (i = a; i < b; i++) set bit i\<close>\<close>

definition set_cat_range :: "alloc \<Rightarrow> u32 \<Rightarrow> u32 \<Rightarrow> ebitmap \<Rightarrow> ebitmap result" where
  "set_cat_range m a b e =
     for_each (\<lambda>i e. or_status (ebitmap_set_bit (at_site (unat i) m) e i True))
       (filter (\<lambda>i. a \<le> i) (upto32 b)) e"

text \<open>One category or range of categories.\<close>

definition parse_cat :: "alloc \<Rightarrow> policydb \<Rightarrow> string \<Rightarrow> ebitmap \<Rightarrow> ebitmap result" where
  "parse_cat m p tok e =
     (case cut (\<lambda>c. c = CHR ''.'') tok of (name, dot, rng) \<Rightarrow>
        rbind (find_cat p name) (\<lambda>a.
          rbind (or_status (ebitmap_set_bit (at_site 0 m) e (a - 1) True)) (\<lambda>e.
            if dot \<noteq> None
            then rbind (find_cat p rng) (\<lambda>b.
                   if a \<ge> b then Inl STATUS_ERR else set_cat_range (at_site 1 m) a b e)
            else Inr e)))"

lemma cut_length: "cut P s = (t, d, r) \<Longrightarrow> d \<noteq> None \<Longrightarrow> length r < length s"
proof (induction P s arbitrary: t d r rule: cut.induct)
  case (2 P c cs)
  then show ?case by (fastforce split: if_splits prod.splits)
qed simp

text \<open>The list of categories; the result has the delimiter behind it and the rest of the string.\<close>

function parse_cats ::
  "alloc \<Rightarrow> nat \<Rightarrow> policydb \<Rightarrow> string \<Rightarrow> ebitmap \<Rightarrow> (ebitmap \<times> char option \<times> string) result"
where
  "parse_cats m k p s e =
     (case cut (\<lambda>c. c = CHR '','' \<or> c = CHR ''-'') s of (tok, delim, rest) \<Rightarrow>
        rbind (parse_cat (at_site k m) p tok e) (\<lambda>e.
          if delim = Some (CHR '','') then parse_cats m (k + 1) p rest e else Inr (e, delim, rest)))"
  by pat_completeness auto
termination
  by (relation "measure (\<lambda>(m, k, p, s, e). length s)") (auto dest: cut_length [OF sym])

declare parse_cats.simps [simp del]

text \<open>One level: the sensitivity \<open>tok\<close> with the delimiter behind it, and the categories if any.\<close>

definition parse_level ::
  "alloc \<Rightarrow> policydb \<Rightarrow> string \<Rightarrow> char option \<Rightarrow> string \<Rightarrow> mls_level \<Rightarrow> (mls_level \<times> char option \<times> string) result"
where
  "parse_level m p tok delim rest l =
     rbind (hashtab_search (table (p_levels p)) tok) (\<lambda>d.
       case d of
         None \<Rightarrow> Inl STATUS_ERR
       | Some d \<Rightarrow> (case level d of
           None \<Rightarrow> Inl UB
         | Some ld \<Rightarrow>
             let l = l\<lparr>sens := sens ld\<rparr> in
             if delim = Some (CHR '':'')
             then rbind (parse_cats m 0 p rest (cat l)) (\<lambda>(e, delim, rest). Inr (l\<lparr>cat := e\<rparr>, delim, rest))
             else Inr (l, delim, rest)))"

text \<open>
  The delimiter before the MLS fields is \<open>oldc\<close>, absent when the context has none.  The position
  behind the MLS fields is not returned.
\<close>

definition mls_context_to_sid ::
  "alloc \<Rightarrow> policydb \<Rightarrow> char option \<Rightarrow> string \<Rightarrow> context_struct \<Rightarrow> context_struct result"
where
  "mls_context_to_sid m p oldc s c =
     (if \<not> mls p then Inr c
      else if oldc = None then Inl STATUS_ERR
      else case cut (\<lambda>c. c = CHR '':'' \<or> c = CHR ''-'') s of (tok, delim, rest) \<Rightarrow>
        rbind (parse_level (at_site 0 m) p tok delim rest (low (range c))) (\<lambda>(l, delim, rest).
          if delim = Some (CHR ''-'')
          then case cut (\<lambda>c. c = CHR '':'') rest of (tok, delim, rest) \<Rightarrow>
            rbind (parse_level (at_site 1 m) p tok delim rest (high (range c))) (\<lambda>(h, _).
              Inr (c\<lparr>range := \<lparr>low = l, high = h\<rparr>\<rparr>))
          else rbind (mls_level_cpy (at_site 2 m) l) (\<lambda>h. Inr (c\<lparr>range := \<lparr>low = l, high = h\<rparr>\<rparr>))))"

definition mls_from_string :: "alloc \<Rightarrow> policydb \<Rightarrow> string \<Rightarrow> context_struct \<Rightarrow> context_struct result" where
  "mls_from_string m p s c =
     (if \<not> malloc (at_site 0 m) then Inl STATUS_ERR
      else or_status (mls_context_to_sid (at_site 1 m) p (Some (CHR ''$'')) s c))"

section \<open>Copying, computing and converting ranges\<close>

definition mls_copy_context :: "alloc \<Rightarrow> context_struct \<Rightarrow> context_struct \<Rightarrow> context_struct result" where
  "mls_copy_context m dst src =
     rbind (ebitmap_cpy (at_site 0 m) (cat (low (range src)))) (\<lambda>l.
       rbind (ebitmap_cpy (at_site 1 m) (cat (high (range src)))) (\<lambda>h.
         Inr (dst\<lparr>range := \<lparr>low = \<lparr>sens = sens (low (range src)), cat = l\<rparr>,
                            high = \<lparr>sens = sens (high (range src)), cat = h\<rparr>\<rparr>\<rparr>)))"

definition mls_scopy_context :: "alloc \<Rightarrow> context_struct \<Rightarrow> context_struct \<Rightarrow> context_struct result" where
  "mls_scopy_context m dst src =
     rbind (ebitmap_cpy (at_site 0 m) (cat (low (range src)))) (\<lambda>l.
       rbind (ebitmap_cpy (at_site 1 m) (cat (low (range src)))) (\<lambda>h.
         Inr (dst\<lparr>range := \<lparr>low = \<lparr>sens = sens (low (range src)), cat = l\<rparr>,
                            high = \<lparr>sens = sens (low (range src)), cat = h\<rparr>\<rparr>\<rparr>)))"

definition mls_range_set :: "alloc \<Rightarrow> context_struct \<Rightarrow> mls_range \<Rightarrow> context_struct result" where
  "mls_range_set m c r =
     rbind (ebitmap_cpy (at_site 0 m) (cat (low r))) (\<lambda>l.
       rbind (ebitmap_cpy (at_site 1 m) (cat (high r))) (\<lambda>h.
         Inr (c\<lparr>range := \<lparr>low = \<lparr>sens = sens (low r), cat = l\<rparr>, high = \<lparr>sens = sens (high r), cat = h\<rparr>\<rparr>\<rparr>)))"

definition mls_setup_user_range ::
  "context_struct \<Rightarrow> user_datum \<Rightarrow> context_struct \<Rightarrow> bool \<Rightarrow> context_struct result"
where
  "mls_setup_user_range fromcon u usercon is_mls =
     (if is_mls
      then
        let fromcon_sen = low (range fromcon); fromcon_clr = high (range fromcon);
            user_low = low (exp_range u); user_clr = high (exp_range u); user_def = exp_dfltlevel u in
        rbind (if mls_level_between user_def fromcon_sen fromcon_clr then Inr user_def
               else if mls_level_between fromcon_sen user_def user_clr then Inr fromcon_sen
               else if mls_level_between fromcon_clr user_low user_def then Inr user_low
               else Inl EINVAL) (\<lambda>usercon_sen.
          if mls_level_dom user_clr fromcon_clr
          then Inr (usercon\<lparr>range := \<lparr>low = usercon_sen, high = fromcon_clr\<rparr>\<rparr>)
          else if mls_level_dom fromcon_clr user_clr
          then Inr (usercon\<lparr>range := \<lparr>low = usercon_sen, high = user_clr\<rparr>\<rparr>)
          else Inl EINVAL)
      else Inr usercon)"

text \<open>Conversion of the categories and of a level from the values of one policy to those of another.\<close>

definition convert_cats :: "alloc \<Rightarrow> policydb \<Rightarrow> policydb \<Rightarrow> u32 list \<Rightarrow> ebitmap result" where
  "convert_cats m oldp newp bits =
     for_each
       (\<lambda>i e. rbind (cat_name oldp i) (\<lambda>s.
          rbind (hashtab_search (table (p_cats newp)) s) (\<lambda>d.
            case d of
              None \<Rightarrow> Inl EINVAL
            | Some d \<Rightarrow> ebitmap_set_bit (at_site (unat i) m) e (cat_value d - 1) True)))
       bits ebitmap_init"

definition convert_level :: "alloc \<Rightarrow> policydb \<Rightarrow> policydb \<Rightarrow> mls_level \<Rightarrow> mls_level result" where
  "convert_level m oldp newp l =
     rbind (val_idx (p_sens_val_to_name oldp) (sens l)) (\<lambda>s.
       rbind (hashtab_search (table (p_levels newp)) s) (\<lambda>d.
         case d of
           None \<Rightarrow> Inl EINVAL
         | Some d \<Rightarrow> (case level d of
             None \<Rightarrow> Inl UB
           | Some ld \<Rightarrow>
               rbind (ebitmap_positive_bits (cat l)) (\<lambda>bits.
                 rbind (convert_cats m oldp newp bits) (\<lambda>e. Inr \<lparr>sens = sens ld, cat = e\<rparr>)))))"

definition mls_convert_context :: "alloc \<Rightarrow> policydb \<Rightarrow> policydb \<Rightarrow> context_struct \<Rightarrow> context_struct result" where
  "mls_convert_context m oldp newp c =
     (if \<not> mls oldp then Inr c
      else rbind (convert_level (at_site 0 m) oldp newp (low (range c))) (\<lambda>l.
        rbind (convert_level (at_site 1 m) oldp newp (high (range c))) (\<lambda>h.
          Inr (c\<lparr>range := \<lparr>low = l, high = h\<rparr>\<rparr>))))"

text \<open>The first range transition for the types and class.\<close>

fun find_range_trans :: "range_trans list \<Rightarrow> u32 \<Rightarrow> u32 \<Rightarrow> u16 \<Rightarrow> mls_range option" where
  "find_range_trans [] stype ttype tclass = None"
| "find_range_trans (r # rs) stype ttype tclass =
     (if rg_source_type r = stype \<and> rg_target_type r = ttype \<and> rg_target_class r = ucast tclass
      then Some (rg_target_range r) else find_range_trans rs stype ttype tclass)"

definition mls_default_range :: "alloc \<Rightarrow> context_struct \<Rightarrow> u16 \<Rightarrow> context_struct \<Rightarrow> context_struct result" where
  "mls_default_range m scon tclass newcon =
     (if tclass = SECCLASS_PROCESS then mls_copy_context m newcon scon else mls_scopy_context m newcon scon)"

definition mls_compute_sid ::
  "alloc \<Rightarrow> policydb \<Rightarrow> context_struct \<Rightarrow> context_struct \<Rightarrow> u16 \<Rightarrow> u32 \<Rightarrow> context_struct \<Rightarrow> context_struct result"
where
  "mls_compute_sid m p scon tcon tclass spec newcon =
     (if \<not> mls p then Inr newcon
      else if spec = ucast AVTAB_TRANSITION
      then (case find_range_trans (range_tr p) (type scon) (type tcon) tclass of
              Some r \<Rightarrow> mls_range_set m newcon r
            | None \<Rightarrow> mls_default_range m scon tclass newcon)
      else if spec = ucast AVTAB_CHANGE then mls_default_range m scon tclass newcon
      else if spec = ucast AVTAB_MEMBER
      then if type newcon \<noteq> type tcon then mls_scopy_context m newcon scon else mls_copy_context m newcon tcon
      else Inl EINVAL)"

section \<open>The interface on strings\<close>

definition sepol_mls_contains :: "alloc \<Rightarrow> policydb \<Rightarrow> string \<Rightarrow> string \<Rightarrow> bool result" where
  "sepol_mls_contains m p mls1 mls2 =
     (if \<not> malloc (at_site 0 m) \<or> \<not> malloc (at_site 1 m) then Inl STATUS_ERR
      else rbind (mls_from_string (at_site 2 m) p mls1 context_init) (\<lambda>ctx1.
        rbind (mls_from_string (at_site 3 m) p mls2 context_init) (\<lambda>ctx2.
          Inr (mls_range_contains (range ctx1) (range ctx2)))))"

definition sepol_mls_check :: "alloc \<Rightarrow> policydb \<Rightarrow> string \<Rightarrow> unit result" where
  "sepol_mls_check m p s =
     (if \<not> malloc (at_site 0 m) then Inl STATUS_ERR
      else rbind (mls_from_string (at_site 1 m) p s context_init) (\<lambda>_. Inr ()))"

end
