(* ===== verification/Expand_Sets.thy ===== *)
theory Expand_Sets
  imports Policydb_Sets
begin

text \<open>
  Expansion of sets of types and roles and of semantic MLS levels into bitmaps, \<^verbatim>\<open>src/expand.c\<close>.
  A failed assertion ends the program; in the model it is \<open>UB\<close>.  Messages are left out.
\<close>

definition TYPE_ATTRIB :: u32 where "TYPE_ATTRIB = 1"
definition ROLE_ATTRIB :: u32 where "ROLE_ATTRIB = 1"

text \<open>The bits of a bitmap renumbered by \<open>vmap\<close>; bits that map to zero are left out.\<close>

definition map_ebitmap :: "alloc \<Rightarrow> ebitmap \<Rightarrow> u32 list \<Rightarrow> ebitmap result" where
  "map_ebitmap m src vmap =
     rbind (ebitmap_positive_bits src) (\<lambda>bits.
       for_each
         (\<lambda>i dst. rbind (idx vmap (unat i)) (\<lambda>v.
            if v = 0 then Inr dst else or_status (ebitmap_set_bit (at_site (unat i) m) dst (v - 1) True)))
         bits ebitmap_init)"

section \<open>Sets of roles\<close>

text \<open>
  \<^verbatim>\<open>for (i = 0; i < p->p_roles.nprim++; i++)\<close>: the bound is incremented whenever it is compared.  The
  loop ends at the latest when the bit cannot be set.
\<close>

function role_star_loop :: "alloc \<Rightarrow> u32 \<Rightarrow> u32 \<Rightarrow> ebitmap \<Rightarrow> (ebitmap \<times> u32) result" where
  "role_star_loop m i n r =
     (if i < n
      then case ebitmap_set_bit (at_site (unat i) m) r i True of
             Inl _ \<Rightarrow> Inl STATUS_ERR
           | Inr r' \<Rightarrow> role_star_loop m (i + 1) (n + 1) r'
      else Inr (r, n + 1))"
  by pat_completeness auto
termination
proof (relation "measure (\<lambda>(m, i, n, r). 2 ^ 32 - unat i)")
  fix m i n r r'
  assume "ebitmap_set_bit (at_site (unat i) m) r i True = Inr r'"
  then have "unat i < 2 ^ 32 - MAPSIZE" using ebitmap_set_bit_EINVAL [of i] by (cases "2 ^ 32 - MAPSIZE \<le> unat i") auto
  then show "((m, i + 1, n + 1, r'), m, i, n, r) \<in> measure (\<lambda>(m, i, n, r). 2 ^ 32 - unat i)"
    by (simp add: unat_word_ariths MAPSIZE_def)
qed simp

declare role_star_loop.simps [simp del]

text \<open>The roles of the set, with those of the role attributes, under the numbering of the output policy.\<close>

definition mapped_roles :: "alloc \<Rightarrow> role_set \<Rightarrow> policydb option \<Rightarrow> u32 list option \<Rightarrow> ebitmap result" where
  "mapped_roles m x base rolemap =
     (case rolemap of
        None \<Rightarrow> or_status (ebitmap_cpy (at_site 0 m) (rs_roles x))
      | Some vmap \<Rightarrow> (case base of
          None \<Rightarrow> Inl UB
        | Some b \<Rightarrow>
            rbind (ebitmap_positive_bits (rs_roles x)) (\<lambda>bits.
              rbind (for_each
                  (\<lambda>i roles. rbind (idx (role_val_to_struct b) (unat i)) (\<lambda>d. case d of
                      None \<Rightarrow> Inl UB
                    | Some rd \<Rightarrow>
                        if role_flavor rd = ROLE_ATTRIB
                        then or_status (ebitmap_union (at_site (unat i) (at_site 1 m)) roles (role_roles rd))
                        else or_status (ebitmap_set_bit (at_site (unat i) (at_site 1 m)) roles i True)))
                  bits ebitmap_init)
                (\<lambda>roles. map_ebitmap (at_site 2 m) roles vmap))))"

text \<open>
  The complement: \<^verbatim>\<open>for (i = 0; i < ebitmap_length(r); i++)\<close>, where the length may shrink when a bit
  is cleared.
\<close>

function role_comp_loop :: "alloc \<Rightarrow> u32 \<Rightarrow> ebitmap \<Rightarrow> ebitmap result" where
  "role_comp_loop m i r =
     (if i < highbit r
      then rbind (or_status (ebitmap_set_bit (at_site (unat i) m) r i (\<not> ebitmap_get_bit r i)))
             (\<lambda>r. role_comp_loop m (i + 1) r)
      else Inr r)"
  by pat_completeness auto
termination
proof (relation "measure (\<lambda>(m, i, r). 2 ^ 32 - unat i)")
  fix m i and r r' :: ebitmap
  assume "i < highbit r"
  then have "unat i + 1 < 2 ^ 32" using unat_less_2p32 [of "highbit r"] by (simp add: word_less_nat_alt)
  then show "((m, i + 1, r'), m, i, r) \<in> measure (\<lambda>(m, i, r). 2 ^ 32 - unat i)"
    by (simp add: unat_word_ariths)
qed simp

declare role_comp_loop.simps [simp del]

text \<open>The result has the roles and the number of roles of the output policy.\<close>

definition role_set_expand ::
  "alloc \<Rightarrow> role_set \<Rightarrow> policydb \<Rightarrow> policydb option \<Rightarrow> u32 list option \<Rightarrow> (ebitmap \<times> policydb) result"
where
  "role_set_expand m x out base rolemap =
     (if rs_flags x AND ROLE_STAR \<noteq> 0
      then rbind (role_star_loop (at_site 0 m) 0 (nprim (p_roles out)) ebitmap_init) (\<lambda>(r, n).
             Inr (r, out\<lparr>p_roles := (p_roles out)\<lparr>nprim := n\<rparr>\<rparr>))
      else rbind (mapped_roles (at_site 1 m) x base rolemap) (\<lambda>roles.
        rbind (ebitmap_positive_bits roles) (\<lambda>bits.
          rbind (for_each (\<lambda>i r. or_status (ebitmap_set_bit (at_site (unat i) (at_site 2 m)) r i True)) bits ebitmap_init)
            (\<lambda>r. if rs_flags x AND ROLE_COMP \<noteq> 0
                 then rbind (role_comp_loop (at_site 3 m) 0 r) (\<lambda>r. Inr (r, out))
                 else Inr (r, out)))))"

section \<open>Sets of types\<close>

text \<open>\<open>is_attrib d\<close> is \<^verbatim>\<open>type_val_to_struct[i] && type_val_to_struct[i]->flavor == TYPE_ATTRIB\<close>.\<close>

definition is_attrib :: "type_datum option \<Rightarrow> bool" where
  "is_attrib d = (case d of None \<Rightarrow> False | Some t \<Rightarrow> type_flavor t = TYPE_ATTRIB)"

definition type_step :: "alloc \<Rightarrow> policydb \<Rightarrow> u32 \<Rightarrow> ebitmap \<Rightarrow> ebitmap result" where
  "type_step m p i types =
     rbind (idx (type_val_to_struct p) (unat i)) (\<lambda>d. case d of
         None \<Rightarrow> Inl UB
       | Some t \<Rightarrow>
           if type_flavor t = TYPE_ATTRIB then or_status (ebitmap_union (at_site (unat i) m) types (type_types t))
           else or_status (ebitmap_set_bit (at_site (unat i) m) types i True))"

definition neg_step :: "alloc \<Rightarrow> policydb \<Rightarrow> u32 \<Rightarrow> ebitmap \<Rightarrow> ebitmap result" where
  "neg_step m p i types =
     rbind (idx (type_val_to_struct p) (unat i)) (\<lambda>d.
       if is_attrib d then or_status (ebitmap_union (at_site (unat i) m) types (type_types (the d)))
       else or_status (ebitmap_set_bit (at_site (unat i) m) types i True))"

definition star_step :: "alloc \<Rightarrow> policydb \<Rightarrow> ebitmap \<Rightarrow> u32 \<Rightarrow> ebitmap \<Rightarrow> ebitmap result" where
  "star_step m p neg i t =
     (if ebitmap_get_bit neg i then Inr t
      else rbind (idx (type_val_to_struct p) (unat i)) (\<lambda>d.
        if is_attrib d then Inr t else or_status (ebitmap_set_bit (at_site (unat i) m) t i True)))"

definition comp_step :: "alloc \<Rightarrow> policydb \<Rightarrow> u32 \<Rightarrow> ebitmap \<Rightarrow> ebitmap result" where
  "comp_step m p i t =
     rbind (idx (type_val_to_struct p) (unat i)) (\<lambda>d.
       if is_attrib d then if ebitmap_get_bit t i then Inl UB else Inr t
       else or_status (ebitmap_set_bit (at_site (unat i) m) t i (\<not> ebitmap_get_bit t i)))"

definition type_set_expand :: "alloc \<Rightarrow> type_set \<Rightarrow> policydb \<Rightarrow> bool \<Rightarrow> ebitmap result" where
  "type_set_expand m ts p alwaysexpand =
     rbind (if alwaysexpand \<or> highbit (negset ts) \<noteq> 0 \<or> ts_flags ts \<noteq> 0
            then rbind (ebitmap_positive_bits (ts_types ts)) (\<lambda>bits. for_each (type_step (at_site 0 m) p) bits ebitmap_init)
            else or_status (ebitmap_cpy (at_site 0 m) (ts_types ts))) (\<lambda>types.
       rbind (rbind (ebitmap_positive_bits (negset ts)) (\<lambda>bits. for_each (neg_step (at_site 1 m) p) bits ebitmap_init)) (\<lambda>neg.
         if ts_flags ts AND TYPE_STAR \<noteq> 0
         then for_each (star_step (at_site 2 m) p neg) (upto32 (nprim (p_types p))) ebitmap_init
         else rbind (rbind (ebitmap_positive_bits types) (\<lambda>bits.
             for_each (\<lambda>i t. if ebitmap_get_bit neg i then Inr t
                 else or_status (ebitmap_set_bit (at_site (unat i) (at_site 3 m)) t i True)) bits ebitmap_init)) (\<lambda>t.
           if ts_flags ts AND TYPE_COMP \<noteq> 0
           then for_each (comp_step (at_site 4 m) p) (upto32 (nprim (p_types p))) t
           else Inr t)))"

definition expand_convert_type_set ::
  "alloc \<Rightarrow> policydb \<Rightarrow> u32 list \<Rightarrow> type_set \<Rightarrow> bool \<Rightarrow> ebitmap result"
where
  "expand_convert_type_set m p typemap ts alwaysexpand =
     rbind (map_ebitmap (at_site 0 m) (ts_types ts) typemap) (\<lambda>types.
       rbind (map_ebitmap (at_site 1 m) (negset ts) typemap) (\<lambda>neg.
         type_set_expand (at_site 2 m) \<lparr>ts_types = types, negset = neg, ts_flags = ts_flags ts\<rparr> p alwaysexpand))"

section \<open>Semantic levels\<close>

text \<open>The categories from \<^verbatim>\<open>cat->low\<close> to \<^verbatim>\<open>cat->high\<close>.\<close>

definition expand_cat :: "alloc \<Rightarrow> level_datum \<Rightarrow> mls_semantic_cat \<Rightarrow> ebitmap \<Rightarrow> ebitmap result" where
  "expand_cat m d c e =
     (if slow c > shigh c then Inl STATUS_ERR
      else for_each
        (\<lambda>i e. case level d of
            None \<Rightarrow> Inl UB
          | Some l \<Rightarrow> if \<not> ebitmap_get_bit (cat l) i then Inl STATUS_ERR
                      else or_status (ebitmap_set_bit (at_site (unat i) m) e i True))
        (filter (\<lambda>i. slow c - 1 \<le> i) (upto32 (shigh c))) e)"

definition mls_semantic_level_expand :: "alloc \<Rightarrow> mls_semantic_level \<Rightarrow> policydb \<Rightarrow> mls_level result" where
  "mls_semantic_level_expand m sl p =
     (if \<not> mls p \<or> ssens sl = 0 then Inr mls_level_init
      else rbind (val_idx (p_sens_val_to_name p) (ssens sl)) (\<lambda>s.
        rbind (hashtab_search (table (p_levels p)) s) (\<lambda>d. case d of
            None \<Rightarrow> Inl STATUS_ERR
          | Some d \<Rightarrow>
              rbind (for_each (\<lambda>(k, c) e. expand_cat (at_site k m) d c e) (List.enumerate 0 (scat sl)) ebitmap_init)
                (\<lambda>e. Inr \<lparr>sens = ssens sl, cat = e\<rparr>))))"

definition mls_semantic_range_expand :: "alloc \<Rightarrow> mls_semantic_range \<Rightarrow> policydb \<Rightarrow> mls_range result" where
  "mls_semantic_range_expand m sr p =
     rbind (mls_semantic_level_expand (at_site 0 m) (srlow sr) p) (\<lambda>l.
       rbind (mls_semantic_level_expand (at_site 1 m) (srhigh sr) p) (\<lambda>h.
         if \<not> mls_level_dom h l then Inl STATUS_ERR else Inr \<lparr>low = l, high = h\<rparr>))"

end
