(* ===== verification/Context.thy ===== *)
theory Context
  imports Mls_Policy Expand_Sets
begin

text \<open>
  Context records, \<^verbatim>\<open>src/context_record.c\<close>, and security contexts under a policy, \<^verbatim>\<open>src/context.c\<close>:
  validity and conversion from and to strings and records.

  A string is a character list; a null pointer is \<open>None\<close>.  Messages are left out.
\<close>

section \<open>Records\<close>

record sepol_context =
  con_user :: "string option"
  con_role :: "string option"
  con_type :: "string option"
  con_mls :: "string option"

text \<open>\<^verbatim>\<open>strdup\<close>, with null as the result without memory; its argument must not be null.\<close>

definition strdup :: "alloc \<Rightarrow> string option \<Rightarrow> string option result" where
  "strdup m s = (case s of None \<Rightarrow> Inl UB | Some s \<Rightarrow> Inr (if malloc m then Some s else None))"

definition sepol_context_set_user :: "alloc \<Rightarrow> sepol_context \<Rightarrow> string option \<Rightarrow> sepol_context result" where
  "sepol_context_set_user m con u =
     rbind (strdup m u) (\<lambda>tmp_user. if tmp_user = None then Inl STATUS_ERR else Inr (con\<lparr>con_user := tmp_user\<rparr>))"

definition sepol_context_set_role :: "alloc \<Rightarrow> sepol_context \<Rightarrow> string option \<Rightarrow> sepol_context result" where
  "sepol_context_set_role m con r =
     rbind (strdup m r) (\<lambda>tmp_role. if tmp_role = None then Inl STATUS_ERR else Inr (con\<lparr>con_role := tmp_role\<rparr>))"

definition sepol_context_set_type :: "alloc \<Rightarrow> sepol_context \<Rightarrow> string option \<Rightarrow> sepol_context result" where
  "sepol_context_set_type m con t =
     rbind (strdup m t) (\<lambda>tmp_type. if tmp_type = None then Inl STATUS_ERR else Inr (con\<lparr>con_type := tmp_type\<rparr>))"

definition sepol_context_set_mls :: "alloc \<Rightarrow> sepol_context \<Rightarrow> string option \<Rightarrow> sepol_context result" where
  "sepol_context_set_mls m con l =
     rbind (strdup m l) (\<lambda>tmp_mls. if tmp_mls = None then Inl STATUS_ERR else Inr (con\<lparr>con_mls := tmp_mls\<rparr>))"

definition sepol_context_create :: "alloc \<Rightarrow> sepol_context result" where
  "sepol_context_create m =
     (if malloc m then Inr \<lparr>con_user = None, con_role = None, con_type = None, con_mls = None\<rparr> else Inl STATUS_ERR)"

text \<open>The copy of a field that must be there.\<close>

definition clone_field :: "alloc \<Rightarrow> string option \<Rightarrow> string option result" where
  "clone_field m s = rbind (strdup m s) (\<lambda>t. if t = None then Inl STATUS_ERR else Inr t)"

definition sepol_context_clone :: "alloc \<Rightarrow> sepol_context option \<Rightarrow> sepol_context option result" where
  "sepol_context_clone m con =
     (case con of
        None \<Rightarrow> Inr None
      | Some con \<Rightarrow>
          rbind (sepol_context_create (at_site 0 m)) (\<lambda>new_con.
            rbind (clone_field (at_site 1 m) (con_user con)) (\<lambda>u.
              rbind (clone_field (at_site 2 m) (con_role con)) (\<lambda>r.
                rbind (clone_field (at_site 3 m) (con_type con)) (\<lambda>t.
                  rbind (if con_mls con = None then Inr None else clone_field (at_site 4 m) (con_mls con)) (\<lambda>l.
                    Inr (Some (new_con\<lparr>con_user := u, con_role := r, con_type := t, con_mls := l\<rparr>))))))))"

text \<open>The string is cut at its first three colons.  The record of the text \<^verbatim>\<open><<none>>\<close> is null.\<close>

definition sepol_context_from_string :: "alloc \<Rightarrow> string \<Rightarrow> sepol_context option result" where
  "sepol_context_from_string m str =
     (if strcmp str ''<<none>>'' = 0 then Inr None
      else rbind (sepol_context_create (at_site 0 m)) (\<lambda>con.
        if \<not> malloc (at_site 1 m) then Inl STATUS_ERR
        else case cut (\<lambda>c. c = CHR '':'') str of (u, colon, lo) \<Rightarrow>
          if colon = None then Inl STATUS_ERR
          else rbind (sepol_context_set_user (at_site 2 m) con (Some u)) (\<lambda>con.
            case cut (\<lambda>c. c = CHR '':'') lo of (r, colon, lo) \<Rightarrow>
              if colon = None then Inl STATUS_ERR
              else rbind (sepol_context_set_role (at_site 3 m) con (Some r)) (\<lambda>con.
                case cut (\<lambda>c. c = CHR '':'') lo of (t, colon, lo) \<Rightarrow>
                  rbind (sepol_context_set_type (at_site 4 m) con (Some t)) (\<lambda>con.
                    if colon = None then Inr (Some con)
                    else rbind (sepol_context_set_mls (at_site 5 m) con (Some lo)) (\<lambda>con. Inr (Some con)))))))"

text \<open>The lengths are computed as signed integers.\<close>

definition INT_MAX :: nat where "INT_MAX = 2 ^ 31 - 1"

definition sepol_context_to_string :: "alloc \<Rightarrow> sepol_context \<Rightarrow> string result" where
  "sepol_context_to_string m con =
     (case (con_user con, con_role con, con_type con) of
        (Some u, Some r, Some t) \<Rightarrow>
          let s = u @ '':'' @ r @ '':'' @ t @ (case con_mls con of None \<Rightarrow> [] | Some l \<Rightarrow> '':'' @ l) in
          if length s + 1 > INT_MAX then Inl UB
          else if \<not> malloc m then Inl STATUS_ERR
          else Inr s
      | _ \<Rightarrow> Inl UB)"

section \<open>Validity\<close>

text \<open>
  The arrays of roles and users are allocated by \<^verbatim>\<open>malloc\<close> and never get a null pointer: a slot that no symbol
  was indexed at is uninitialised, and reading it is undefined behaviour.
\<close>

definition context_is_valid :: "policydb \<Rightarrow> context_struct \<Rightarrow> bool result" where
  "context_is_valid p c =
     (if role c = 0 \<or> role c > nprim (p_roles p) then Inr False
      else if user c = 0 \<or> user c > nprim (p_users p) then Inr False
      else if type c = 0 \<or> type c > nprim (p_types p) then Inr False
      else rbind
        (if role c \<noteq> OBJECT_R_VAL
         then rbind (val_idx (role_val_to_struct p) (role c)) (\<lambda>r.
           if \<not> ebitmap_get_bit (role_cache r) (type c - 1) then Inr False
           else rbind (val_idx (user_val_to_struct p) (user c)) (\<lambda>usrdatum.
             Inr (ebitmap_get_bit (user_cache usrdatum) (role c - 1))))
         else Inr True)
        (\<lambda>ok. if \<not> ok then Inr False else mls_context_isvalid p c))"

definition policydb_context_isvalid :: "policydb \<Rightarrow> context_struct \<Rightarrow> bool result" where
  "policydb_context_isvalid p c = context_is_valid p c"

section \<open>Strings\<close>

text \<open>
  The result has the string and the size of its buffer, which includes the terminating null
  character.  The MLS fields are written behind the type into what is left of the buffer.
\<close>

definition context_to_string :: "alloc \<Rightarrow> policydb \<Rightarrow> context_struct \<Rightarrow> (string \<times> nat) result" where
  "context_to_string m p c =
     rbind (val_idx (p_user_val_to_name p) (user c)) (\<lambda>u.
       rbind (val_idx (p_role_val_to_name p) (role c)) (\<lambda>r.
         rbind (val_idx (p_type_val_to_name p) (type c)) (\<lambda>t.
           rbind (mls_compute_context_len p c) (\<lambda>len.
             let scontext_len = length u + 1 + length r + 1 + length t + unat len + 1 in
             if \<not> malloc m then Inl STATUS_ERR
             else rbind (mls_sid_to_context p c (u @ '':'' @ r @ '':'' @ t)) (\<lambda>s.
               if length s + 1 > scontext_len then Inl UB else Inr (s, scontext_len))))))"

section \<open>Records and contexts\<close>

text \<open>The record must not be null, nor its user, role and type.\<close>

definition context_from_record :: "alloc \<Rightarrow> policydb \<Rightarrow> sepol_context option \<Rightarrow> context_struct result" where
  "context_from_record m p rec =
     (case rec of
        None \<Rightarrow> Inl UB
      | Some rec \<Rightarrow>
          rbind (strdup (at_site 0 m) (con_user rec)) (\<lambda>u.
          rbind (strdup (at_site 1 m) (con_role rec)) (\<lambda>r.
          rbind (strdup (at_site 2 m) (con_type rec)) (\<lambda>t.
            case (u, r, t, malloc (at_site 3 m)) of
              (Some u, Some r, Some t, True) \<Rightarrow>
                rbind (hashtab_search (table (p_users p)) u) (\<lambda>usrdatum. case usrdatum of
                  None \<Rightarrow> Inl STATUS_ERR
                | Some usrdatum \<Rightarrow>
                rbind (hashtab_search (table (p_roles p)) r) (\<lambda>roldatum. case roldatum of
                  None \<Rightarrow> Inl STATUS_ERR
                | Some roldatum \<Rightarrow>
                rbind (hashtab_search (table (p_types p)) t) (\<lambda>typdatum. case typdatum of
                  None \<Rightarrow> Inl STATUS_ERR
                | Some typdatum \<Rightarrow>
                if type_flavor typdatum = TYPE_ATTRIB then Inl STATUS_ERR
                else
                  let scontext = context_init\<lparr>user := user_value usrdatum, role := role_value roldatum,
                                              type := type_value typdatum\<rparr> in
                  if con_mls rec \<noteq> None \<and> \<not> mls p then Inl STATUS_ERR
                  else if con_mls rec = None \<and> mls p then Inl STATUS_ERR
                  else rbind (case con_mls rec of
                      None \<Rightarrow> Inr scontext
                    | Some l \<Rightarrow> or_status (mls_from_string (at_site 4 m) p l scontext)) (\<lambda>scontext.
                    rbind (context_is_valid p scontext) (\<lambda>ok.
                      if \<not> ok then Inl STATUS_ERR else Inr scontext)))))
            | _ \<Rightarrow> Inl STATUS_ERR))))"

definition name_of :: "string option list \<Rightarrow> u32 \<Rightarrow> string option result" where
  "name_of ns v = idx ns (unat (v - 1))"

definition context_to_record :: "alloc \<Rightarrow> policydb \<Rightarrow> context_struct \<Rightarrow> sepol_context result" where
  "context_to_record m p c =
     rbind (sepol_context_create (at_site 0 m)) (\<lambda>rec.
       rbind (rbind (name_of (p_user_val_to_name p) (user c)) (sepol_context_set_user (at_site 1 m) rec)) (\<lambda>rec.
         rbind (rbind (name_of (p_role_val_to_name p) (role c)) (sepol_context_set_role (at_site 2 m) rec)) (\<lambda>rec.
           rbind (rbind (name_of (p_type_val_to_name p) (type c)) (sepol_context_set_type (at_site 3 m) rec)) (\<lambda>rec.
             if mls p
             then rbind (or_status (mls_to_string (at_site 4 m) p c)) (\<lambda>l. sepol_context_set_mls (at_site 5 m) rec (Some l))
             else Inr rec))))"

text \<open>
  The string is given with its length and copied; the copy ends at the first null character of it.
\<close>

definition context_from_string :: "alloc \<Rightarrow> policydb \<Rightarrow> string \<Rightarrow> context_struct result" where
  "context_from_string m p con_str =
     (if \<not> malloc (at_site 0 m) then Inl STATUS_ERR
      else rbind (sepol_context_from_string (at_site 1 m) (takeWhile (\<lambda>c. c \<noteq> CHR 0x00) con_str)) (\<lambda>ctx_record.
        context_from_record (at_site 2 m) p ctx_record))"

definition sepol_context_check :: "alloc \<Rightarrow> policydb \<Rightarrow> sepol_context option \<Rightarrow> unit result" where
  "sepol_context_check m p con = rbind (context_from_record m p con) (\<lambda>_. Inr ())"

end
