(* ===== verification/Services.thy ===== *)
theory Services
  imports Constraint Context
begin

text \<open>
  The security server, \<^verbatim>\<open>src/services.c\<close>: access decisions, the SIDs of contexts and new objects, and
  the SIDs of the objects that a policy labels.  The server has an active policy and a SID table,
  which are arguments here; \<open>Server\<close> adds the loading of a policy.  Messages are left out, and so
  are the functions that return an explanation of a decision as text.
\<close>

section \<open>Constants\<close>

definition PROCESS__TRANSITION :: u32 where "PROCESS__TRANSITION = 0x00000002"
definition PROCESS__DYNTRANSITION :: u32 where "PROCESS__DYNTRANSITION = 0x00800000"
definition SECCLASS_DIR :: u16 where "SECCLASS_DIR = 7"
definition SEPOL_COMPUTEAV_TE :: u32 where "SEPOL_COMPUTEAV_TE = 1"
definition SEPOL_COMPUTEAV_CONS :: u32 where "SEPOL_COMPUTEAV_CONS = 2"
definition SEPOL_COMPUTEAV_RBAC :: u32 where "SEPOL_COMPUTEAV_RBAC = 4"
definition SECINITSID_FS :: sid where "SECINITSID_FS = 4"
definition SECINITSID_FILE :: sid where "SECINITSID_FILE = 5"
definition SECINITSID_PORT :: sid where "SECINITSID_PORT = 9"
definition SECINITSID_NETIF :: sid where "SECINITSID_NETIF = 10"
definition SECINITSID_NETMSG :: sid where "SECINITSID_NETMSG = 11"
definition SECINITSID_NODE :: sid where "SECINITSID_NODE = 12"
definition SECURITY_FS_USE_GENFS :: u32 where "SECURITY_FS_USE_GENFS = 4"
definition SECURITY_FS_USE_NONE :: u32 where "SECURITY_FS_USE_NONE = 5"

text \<open>The sequence number of policy changes is never changed.\<close>

definition latest_granting :: u32 where "latest_granting = 0"

section \<open>Access decisions\<close>

definition te_av_step :: "avtab_node \<Rightarrow> av_decision \<Rightarrow> av_decision" where
  "te_av_step n avd =
     (if specified (nkey n) = AVTAB_ALLOWED then avd\<lparr>allowed := allowed avd OR avdata (ndatum n)\<rparr>
      else if specified (nkey n) = AVTAB_AUDITALLOW then avd\<lparr>auditallow := auditallow avd OR avdata (ndatum n)\<rparr>
      else if specified (nkey n) = AVTAB_AUDITDENY then avd\<lparr>auditdeny := auditdeny avd AND avdata (ndatum n)\<rparr>
      else avd)"

text \<open>The rules for one pair of types or attributes.\<close>

definition te_key :: "u32 \<Rightarrow> u32 \<Rightarrow> u16 \<Rightarrow> avtab_key" where
  "te_key i j tclass = \<lparr>source_type = ucast (i + 1), target_type = ucast (j + 1), target_class = tclass,
                        specified = AVTAB_AV\<rparr>"

definition te_pair :: "policydb \<Rightarrow> avtab_key \<Rightarrow> av_decision \<Rightarrow> av_decision result" where
  "te_pair p avkey avd =
     rbind (avtab_search_node (te_avtab p) avkey) (\<lambda>ns.
       cond_compute_av (te_cond_avtab p) avkey (fold te_av_step (node_iter (ucast (specified avkey)) ns) avd))"

definition te_decide :: "policydb \<Rightarrow> ebitmap \<Rightarrow> ebitmap \<Rightarrow> u16 \<Rightarrow> av_decision \<Rightarrow> av_decision result" where
  "te_decide p sattr tattr tclass avd =
     rbind (ebitmap_positive_bits sattr) (\<lambda>is.
       for_each (\<lambda>i avd.
         rbind (ebitmap_positive_bits tattr) (\<lambda>js.
           for_each (\<lambda>j avd. te_pair p (te_key i j tclass) avd) js avd))
         is avd)"

text \<open>Permissions prohibited by a constraint are removed.\<close>

definition constrain ::
  "alloc \<Rightarrow> policydb \<Rightarrow> context_struct \<Rightarrow> context_struct \<Rightarrow> u16 \<Rightarrow> constraint_node \<Rightarrow> u32 \<Rightarrow> u32 result"
where
  "constrain m p scontext tcontext tclass c al =
     (if permissions c AND al = 0 then Inr al
      else rbind (constraint_holds (constraint_expr_eval_reason m p scontext tcontext None tclass c)) (\<lambda>ok.
        Inr (if ok then al else al AND NOT (permissions c))))"

text \<open>A change of the role must be allowed.\<close>

definition role_change_allowed :: "policydb \<Rightarrow> u32 \<Rightarrow> u32 \<Rightarrow> bool" where
  "role_change_allowed p r1 r2 \<longleftrightarrow> list_ex (\<lambda>ra. r1 = ra_role ra \<and> r2 = ra_new_role ra) (p_role_allow p)"

definition role_check :: "policydb \<Rightarrow> context_struct \<Rightarrow> context_struct \<Rightarrow> u16 \<Rightarrow> u32 \<Rightarrow> u32" where
  "role_check p scontext tcontext tclass al =
     (if tclass = SECCLASS_PROCESS \<and> al AND (PROCESS__TRANSITION OR PROCESS__DYNTRANSITION) \<noteq> 0 \<and>
         role scontext \<noteq> role tcontext \<and> \<not> role_change_allowed p (role scontext) (role tcontext)
      then al AND NOT (PROCESS__TRANSITION OR PROCESS__DYNTRANSITION)
      else al)"

definition note_reason :: "u32 \<Rightarrow> u32 \<Rightarrow> u32 \<times> u32 \<Rightarrow> u32 \<times> u32" where
  "note_reason flag al rr =
     (case rr of (requested, reason) \<Rightarrow>
       if requested AND NOT al \<noteq> 0 then (requested AND al, reason OR flag) else (requested, reason))"

definition context_struct_compute_av ::
  "alloc \<Rightarrow> policydb \<Rightarrow> context_struct \<Rightarrow> context_struct \<Rightarrow> u16 \<Rightarrow> u32 \<Rightarrow> (av_decision \<times> u32) result"
where
  "context_struct_compute_av m p scontext tcontext tclass requested =
     (if tclass = 0 \<or> ucast tclass > nprim (p_classes p) then Inl EINVAL
      else
        rbind (idx (class_val_to_struct p) (unat tclass - 1)) (\<lambda>tclass_datum.
        rbind (idx (type_attr_map p) (unat (type scontext - 1))) (\<lambda>sattr.
        rbind (idx (type_attr_map p) (unat (type tcontext - 1))) (\<lambda>tattr.
        rbind (te_decide p sattr tattr tclass
            \<lparr>allowed = 0, decided = 0xffffffff, auditallow = 0, auditdeny = 0xffffffff, seqno = latest_granting\<rparr>) (\<lambda>avd.
          let rr = note_reason SEPOL_COMPUTEAV_TE (allowed avd) (requested, 0) in
          rbind (deref tclass_datum) (\<lambda>cl.
          rbind (for_each (\<lambda>(i, c). constrain (at_site i m) p scontext tcontext tclass c)
              (enumerate 0 (constraints cl)) (allowed avd)) (\<lambda>al.
            let rr = note_reason SEPOL_COMPUTEAV_CONS al rr;
                al' = role_check p scontext tcontext tclass al;
                rr = note_reason SEPOL_COMPUTEAV_RBAC al' rr in
            Inr (avd\<lparr>allowed := al'\<rparr>, snd rr))))))))"

definition sid_context :: "sidtab \<Rightarrow> sid \<Rightarrow> context_struct result" where
  "sid_context t sd = rbind (sepol_sidtab_search t sd) (\<lambda>c. case c of None \<Rightarrow> Inl EINVAL | Some c \<Rightarrow> Inr c)"

definition sepol_compute_av_reason ::
  "alloc \<Rightarrow> policydb \<Rightarrow> sidtab \<Rightarrow> sid \<Rightarrow> sid \<Rightarrow> u16 \<Rightarrow> u32 \<Rightarrow> (av_decision \<times> u32) result"
where
  "sepol_compute_av_reason m p t ssid tsid tclass requested =
     rbind (sid_context t ssid) (\<lambda>scontext.
       rbind (sid_context t tsid) (\<lambda>tcontext.
         context_struct_compute_av m p scontext tcontext tclass requested))"

definition sepol_compute_av :: "alloc \<Rightarrow> policydb \<Rightarrow> sidtab \<Rightarrow> sid \<Rightarrow> sid \<Rightarrow> u16 \<Rightarrow> u32 \<Rightarrow> av_decision result" where
  "sepol_compute_av m p t ssid tsid tclass requested =
     rbind (sepol_compute_av_reason m p t ssid tsid tclass requested) (\<lambda>(avd, _). Inr avd)"

text \<open>The class passed on for the text of the reason is zero.\<close>

definition sepol_validate_transition :: "alloc \<Rightarrow> policydb \<Rightarrow> sidtab \<Rightarrow> sid \<Rightarrow> sid \<Rightarrow> sid \<Rightarrow> u16 \<Rightarrow> unit result" where
  "sepol_validate_transition m p t oldsid newsid tasksid tclass =
     (if tclass = 0 \<or> ucast tclass > nprim (p_classes p) then Inl EINVAL
      else
        rbind (idx (class_val_to_struct p) (unat tclass - 1)) (\<lambda>tclass_datum.
        rbind (sid_context t oldsid) (\<lambda>ocontext.
        rbind (sid_context t newsid) (\<lambda>ncontext.
        rbind (sid_context t tasksid) (\<lambda>tcontext.
        rbind (deref tclass_datum) (\<lambda>cl.
          for_each (\<lambda>(i, c) _.
              rbind (constraint_holds (constraint_expr_eval_reason (at_site i m) p ocontext ncontext (Some tcontext) 0 c))
                (\<lambda>ok. if ok then Inr () else Inl EPERM))
            (enumerate 0 (validatetrans cl)) ()))))))"

section \<open>Names of classes and permissions\<close>

text \<open>The loop goes on until a null pointer: the end of the array is not looked at.\<close>

fun class_by_name :: "string \<Rightarrow> string option list \<Rightarrow> u16 \<Rightarrow> u16 result" where
  "class_by_name name [] i = Inl UB"
| "class_by_name name (n # ns) i =
     (case n of
        None \<Rightarrow> Inl STATUS_ERR
      | Some s \<Rightarrow> if strcmp s name = 0 then Inr i else class_by_name name ns (i + 1))"

text \<open>The 16 bit number wraps around to zero, which reads in front of the array.\<close>

definition sepol_string_to_security_class :: "policydb \<Rightarrow> string \<Rightarrow> u16 result" where
  "sepol_string_to_security_class p class_name = class_by_name class_name (take (2 ^ 16 - 1) (p_class_val_to_name p)) 1"

definition perm_bit :: "perm_datum \<Rightarrow> u32 result" where
  "perm_bit d = (if 32 \<le> unat (perm_value d - 1) then Inl UB else Inr (push_bit (unat (perm_value d - 1)) 1))"

definition sepol_string_to_av_perm :: "policydb \<Rightarrow> u16 \<Rightarrow> string \<Rightarrow> u32 result" where
  "sepol_string_to_av_perm p tclass perm =
     (if tclass = 0 \<or> ucast tclass > nprim (p_classes p) then Inl EINVAL
      else rbind (val_idx (class_val_to_struct p) (ucast tclass)) (\<lambda>cl.
        rbind (hashtab_search (table (class_permissions cl)) perm) (\<lambda>d. case d of
            Some d \<Rightarrow> perm_bit d
          | None \<Rightarrow> (case comdatum cl of
              None \<Rightarrow> Inl STATUS_ERR
            | Some com \<Rightarrow> rbind (hashtab_search (table (common_permissions com)) perm) (\<lambda>d. case d of
                Some d \<Rightarrow> perm_bit d
              | None \<Rightarrow> Inl STATUS_ERR)))))"

section \<open>Strings and SIDs\<close>

definition sepol_sid_to_context :: "alloc \<Rightarrow> policydb \<Rightarrow> sidtab \<Rightarrow> sid \<Rightarrow> (string \<times> nat) result" where
  "sepol_sid_to_context m p t sd = rbind (sid_context t sd) (context_to_string m p)"

text \<open>
  A function that changes the SID table returns it with its result, also after an error.
\<close>

definition ctx_sid :: "alloc \<Rightarrow> context_struct \<Rightarrow> sidtab \<Rightarrow> sid result \<times> sidtab" where
  "ctx_sid m c t = (case sepol_sidtab_context_to_sid m t c of Inl e \<Rightarrow> (Inl e, t) | Inr (t', sd) \<Rightarrow> (Inr sd, t'))"

definition status :: "'a result \<times> 's \<Rightarrow> 'a result \<times> 's" where
  "status r = (or_status (fst r), snd r)"

text \<open>The SID is looked up only if the caller wants it.\<close>

definition sepol_context_to_sid :: "alloc \<Rightarrow> policydb \<Rightarrow> string \<Rightarrow> bool \<Rightarrow> sidtab \<Rightarrow> sid option result \<times> sidtab" where
  "sepol_context_to_sid m p scontext want t =
     (case or_status (context_from_string (at_site 0 m) p scontext) of
        Inl e \<Rightarrow> (Inl e, t)
      | Inr c \<Rightarrow>
          if \<not> want then (Inr None, t)
          else case status (ctx_sid (at_site 1 m) c t) of
                 (Inl e, t) \<Rightarrow> (Inl e, t)
               | (Inr sd, t) \<Rightarrow> (Inr (Some sd), t))"

section \<open>SIDs of new objects\<close>

definition selinux_enforcing :: bool where "selinux_enforcing = True"

text \<open>
  Without enforcing, the three contexts are written out for a message and the texts are freed; the
  text of a context that cannot be written is an uninitialised pointer.
\<close>

definition text_for_message :: "alloc \<Rightarrow> policydb \<Rightarrow> context_struct \<Rightarrow> unit result" where
  "text_for_message m p c = (case context_to_string m p c of Inl _ \<Rightarrow> Inl UB | Inr _ \<Rightarrow> Inr ())"

definition compute_sid_handle_invalid_context ::
  "alloc \<Rightarrow> policydb \<Rightarrow> context_struct \<Rightarrow> context_struct \<Rightarrow> u16 \<Rightarrow> context_struct \<Rightarrow> unit result"
where
  "compute_sid_handle_invalid_context m p scontext tcontext tclass newcontext =
     (if selinux_enforcing then Inl EACCES
      else rbind (text_for_message (at_site 0 m) p scontext) (\<lambda>_.
        rbind (text_for_message (at_site 1 m) p tcontext) (\<lambda>_.
        rbind (text_for_message (at_site 2 m) p newcontext) (\<lambda>_.
          if tclass = 0 then Inl UB
          else rbind (val_idx (p_class_val_to_name p) (ucast tclass)) (\<lambda>_. Inr ())))))"

text \<open>The type rule for a pair of types: a permanent one, or else the first enabled conditional one.\<close>

definition type_rule :: "policydb \<Rightarrow> avtab_key \<Rightarrow> avtab_datum option result" where
  "type_rule p avkey =
     rbind (avtab_search (te_avtab p) avkey) (\<lambda>avdatum. case avdatum of
         Some d \<Rightarrow> Inr (Some d)
       | None \<Rightarrow>
           rbind (avtab_search_node (te_cond_avtab p) avkey) (\<lambda>ns.
             Inr (map_option ndatum
               (find (\<lambda>n. specified (nkey n) AND AVTAB_ENABLED \<noteq> 0) (node_iter (ucast (specified avkey)) ns)))))"

definition role_rule :: "policydb \<Rightarrow> u32 \<Rightarrow> u32 \<Rightarrow> u32 option" where
  "role_rule p r ty = map_option rt_new_role (find (\<lambda>tr. rt_role tr = r \<and> rt_type tr = ty) (role_tr p))"

definition new_user :: "u16 \<Rightarrow> context_struct \<Rightarrow> context_struct \<Rightarrow> context_struct \<Rightarrow> context_struct" where
  "new_user spec scontext tcontext c =
     (if spec = AVTAB_TRANSITION \<or> spec = AVTAB_CHANGE then c\<lparr>user := user scontext\<rparr>
      else if spec = AVTAB_MEMBER then c\<lparr>user := user tcontext\<rparr>
      else c)"

definition new_defaults :: "u16 \<Rightarrow> context_struct \<Rightarrow> context_struct \<Rightarrow> context_struct \<Rightarrow> context_struct" where
  "new_defaults tclass scontext tcontext c =
     (if tclass = SECCLASS_PROCESS then c\<lparr>role := role scontext, type := type scontext\<rparr>
      else c\<lparr>role := OBJECT_R_VAL, type := type tcontext\<rparr>)"

definition new_role :: "policydb \<Rightarrow> u16 \<Rightarrow> u16 \<Rightarrow> context_struct \<Rightarrow> context_struct \<Rightarrow> context_struct \<Rightarrow> context_struct" where
  "new_role p tclass spec scontext tcontext c =
     (if tclass = SECCLASS_PROCESS \<and> spec AND AVTAB_TRANSITION \<noteq> 0
      then case role_rule p (role scontext) (type tcontext) of Some r \<Rightarrow> c\<lparr>role := r\<rparr> | None \<Rightarrow> c
      else c)"

text \<open>The context of a new object, if it is valid.\<close>

definition new_context ::
  "alloc \<Rightarrow> policydb \<Rightarrow> context_struct \<Rightarrow> context_struct \<Rightarrow> u16 \<Rightarrow> u16 \<Rightarrow> context_struct result"
where
  "new_context m p scontext tcontext tclass spec =
     (let c = new_defaults tclass scontext tcontext (new_user spec scontext tcontext context_init);
          avkey = \<lparr>source_type = ucast (type scontext), target_type = ucast (type tcontext), target_class = tclass,
                   specified = spec\<rparr> in
      rbind (type_rule p avkey) (\<lambda>avdatum.
        let c = (case avdatum of Some d \<Rightarrow> c\<lparr>type := avdata d\<rparr> | None \<Rightarrow> c);
            c = new_role p tclass spec scontext tcontext c in
        rbind (mls_compute_sid (at_site 0 m) p scontext tcontext tclass (ucast spec) c) (\<lambda>c.
        rbind (policydb_context_isvalid p c) (\<lambda>ok.
          if ok then Inr c
          else rbind (compute_sid_handle_invalid_context (at_site 1 m) p scontext tcontext tclass c) (\<lambda>_. Inr c)))))"

text \<open>
  When a SID is not known, the new context is destroyed although it has not been initialised.
\<close>

definition sepol_compute_sid ::
  "alloc \<Rightarrow> policydb \<Rightarrow> sid \<Rightarrow> sid \<Rightarrow> u16 \<Rightarrow> u16 \<Rightarrow> sidtab \<Rightarrow> sid result \<times> sidtab"
where
  "sepol_compute_sid m p ssid tsid tclass spec t =
     (case (sid_context t ssid, sid_context t tsid) of
        (Inr scontext, Inr tcontext) \<Rightarrow>
          (case new_context (at_site 0 m) p scontext tcontext tclass spec of
             Inl e \<Rightarrow> (Inl e, t)
           | Inr c \<Rightarrow> ctx_sid (at_site 1 m) c t)
      | _ \<Rightarrow> (Inl UB, t))"

definition sepol_transition_sid :: "alloc \<Rightarrow> policydb \<Rightarrow> sid \<Rightarrow> sid \<Rightarrow> u16 \<Rightarrow> sidtab \<Rightarrow> sid result \<times> sidtab" where
  "sepol_transition_sid m p ssid tsid tclass = sepol_compute_sid m p ssid tsid tclass AVTAB_TRANSITION"

definition sepol_member_sid :: "alloc \<Rightarrow> policydb \<Rightarrow> sid \<Rightarrow> sid \<Rightarrow> u16 \<Rightarrow> sidtab \<Rightarrow> sid result \<times> sidtab" where
  "sepol_member_sid m p ssid tsid tclass = sepol_compute_sid m p ssid tsid tclass AVTAB_MEMBER"

definition sepol_change_sid :: "alloc \<Rightarrow> policydb \<Rightarrow> sid \<Rightarrow> sid \<Rightarrow> u16 \<Rightarrow> sidtab \<Rightarrow> sid result \<times> sidtab" where
  "sepol_change_sid m p ssid tsid tclass = sepol_compute_sid m p ssid tsid tclass AVTAB_CHANGE"

end
