(* ===== verification/Constraint_Laws.thy ===== *)
theory Constraint_Laws
  imports Constraint Conditional_Laws
begin

text \<open>
  What a constraint expression means and that its evaluation computes it: an instance of the
  machines for reverse Polish notation.
\<close>

section \<open>Tokens\<close>

definition cexpr_value ::
  "policydb \<Rightarrow> context_struct \<Rightarrow> context_struct \<Rightarrow> context_struct option \<Rightarrow> constraint_expr \<Rightarrow> bool option result"
where
  "cexpr_value p sc tc xc e =
     (if expr_type e = CEXPR_ATTR then cexpr_attr p sc tc e else cexpr_names p sc tc xc e)"

text \<open>
  The names that are read for the message: a set of types is there where the policy has such sets, and every
  number in the set is that of a name.
\<close>

definition listed_names :: "policydb \<Rightarrow> constraint_expr \<Rightarrow> u32 \<Rightarrow> ebitmap option" where
  "listed_names p e ty =
     (if policy_type p = POLICY_KERN \<and> policyvers p \<ge> POLICYDB_VERSION_CONSTRAINT_NAMES \<and> ty = CEXPR_TYPE
      then map_option ts_types (type_names e) else Some (names e))"

definition names_of_kind :: "policydb \<Rightarrow> u32 \<Rightarrow> string option list" where
  "names_of_kind p ty =
     (if ty = CEXPR_USER then p_user_val_to_name p else if ty = CEXPR_ROLE then p_role_val_to_name p else p_type_val_to_name p)"

definition names_known :: "policydb \<Rightarrow> constraint_expr \<Rightarrow> u32 \<Rightarrow> bool" where
  "names_known p e ty \<longleftrightarrow> (\<exists>l. listed_names p e ty = Some l \<and>
     (\<forall>i \<in> set (name_list_bits l). \<exists>s. unat i < length (names_of_kind p ty) \<and> names_of_kind p ty ! unat i = Some s))"

lemma get_name_list_iff:
  assumes "ty \<in> {CEXPR_USER, CEXPR_ROLE, CEXPR_TYPE}"
  shows "get_name_list p e ty = (if names_known p e ty then Inr () else Inl UB)"
proof -
  have one: "rbind (idx xs i) (\<lambda>s. rbind (deref s) (\<lambda>_. Inr ())) = (if i < length xs \<and> xs ! i \<noteq> None then Inr () else Inl UB)"
    for xs :: "string option list" and i
    by (auto simp: idx_def deref_def split: option.splits)
  have loop: "for_each (\<lambda>i _. rbind (idx xs (unat i)) (\<lambda>s. rbind (deref s) (\<lambda>_. Inr ()))) is () =
      (if \<forall>i \<in> set is. unat i < length xs \<and> xs ! unat i \<noteq> None then Inr () else Inl UB)" for xs :: "string option list" and "is" :: "u32 list"
    by (induction "is") (auto simp: one)
  have "get_name_list p e ty = rbind (deref (listed_names p e ty)) (\<lambda>l.
      for_each (\<lambda>i _. rbind (idx (names_of_kind p ty) (unat i)) (\<lambda>s. rbind (deref s) (\<lambda>_. Inr ()))) (name_list_bits l) ())"
    using assms by (auto simp: get_name_list_def listed_names_def names_of_kind_def deref_def cexpr_attrs split: option.split)
  then show ?thesis
    by (cases "listed_names p e ty") (simp_all add: loop names_known_def deref_def [of None] deref_def [of "Some _"])
qed

text \<open>A comparison that the evaluation supports, and the truth value it has.\<close>

definition cexpr_leaf ::
  "policydb \<Rightarrow> context_struct \<Rightarrow> context_struct \<Rightarrow> context_struct option \<Rightarrow> constraint_expr \<Rightarrow> bool"
where
  "cexpr_leaf p sc tc xc e \<longleftrightarrow>
     expr_type e = CEXPR_ATTR \<and> (\<exists>b. cexpr_attr p sc tc e = Inr (Some b)) \<or>
     expr_type e = CEXPR_NAMES \<and> cop e \<in> {CEXPR_EQ, CEXPR_NEQ} \<and>
       (\<exists>ty v. names_operand sc tc xc e = Some (ty, v) \<and> names_known p e ty)"

definition cexpr_true ::
  "policydb \<Rightarrow> context_struct \<Rightarrow> context_struct \<Rightarrow> context_struct option \<Rightarrow> constraint_expr \<Rightarrow> bool"
where
  "cexpr_true p sc tc xc e \<longleftrightarrow>
     (if expr_type e = CEXPR_ATTR then cexpr_attr p sc tc e = Inr (Some True)
      else \<exists>ty v. names_operand sc tc xc e = Some (ty, v) \<and> (ebitmap_get_bit (names e) (v - 1) \<longleftrightarrow> cop e = CEXPR_EQ))"

lemma names_operand_kind: "names_operand sc tc xc e = Some (ty, v) \<Longrightarrow> ty \<in> {CEXPR_USER, CEXPR_ROLE, CEXPR_TYPE}"
  by (auto simp: names_operand_def split: option.splits if_splits)

lemma leaf_value:
  assumes "cexpr_leaf p sc tc xc e"
  shows "cexpr_value p sc tc xc e = Inr (Some (cexpr_true p sc tc xc e))"
proof (cases "expr_type e = CEXPR_ATTR")
  case True
  then show ?thesis using assms by (auto simp: cexpr_leaf_def cexpr_value_def cexpr_true_def cexpr_types)
next
  case False
  then obtain ty v where v: "names_operand sc tc xc e = Some (ty, v)" "names_known p e ty" "cop e \<in> {CEXPR_EQ, CEXPR_NEQ}"
    using assms by (auto simp: cexpr_leaf_def)
  then show ?thesis
    using False get_name_list_iff [OF names_operand_kind [OF v(1)], of p e]
    by (auto simp: cexpr_value_def cexpr_names_def cexpr_true_def cexpr_ops)
qed

lemma leaf_type: "cexpr_leaf p sc tc xc e \<Longrightarrow> expr_type e \<in> {CEXPR_ATTR, CEXPR_NAMES}"
  by (auto simp: cexpr_leaf_def)

definition cexpr_not :: "constraint_expr \<Rightarrow> bool" where "cexpr_not e \<longleftrightarrow> expr_type e = CEXPR_NOT"

definition cexpr_binary :: "constraint_expr \<Rightarrow> bool" where
  "cexpr_binary e \<longleftrightarrow> expr_type e \<in> {CEXPR_AND, CEXPR_OR}"

definition cexpr_join :: "constraint_expr \<Rightarrow> bool \<Rightarrow> bool \<Rightarrow> bool" where
  "cexpr_join e a b = (if expr_type e = CEXPR_AND then a \<and> b else a \<or> b)"

text \<open>The truth value of a constraint expression.\<close>

definition constraint_meaning ::
  "policydb \<Rightarrow> context_struct \<Rightarrow> context_struct \<Rightarrow> context_struct option \<Rightarrow> constraint_expr rexp \<Rightarrow> bool"
where
  "constraint_meaning p sc tc xc = rvalue (cexpr_true p sc tc xc) (\<lambda>_ a. \<not> a) cexpr_join"

section \<open>The machine\<close>

lemma eval_cexpr_counter:
  "0 < c \<Longrightarrow> eval_cexpr no_oom p sc tc xc c n es st = eval_cexpr no_oom p sc tc xc 1 STACK_LEN es st"
proof (induction es arbitrary: c n st)
  case (Cons e es)
  have step: "eval_cexpr no_oom p sc tc xc (Suc c) k es st = eval_cexpr no_oom p sc tc xc 1 STACK_LEN es st" for c k st
    using Cons.IH [of "Suc c" k st] by simp
  have up: "give_up c = give_up 1" using Cons.prems by (simp add: give_up_def)
  show ?case
    unfolding eval_cexpr.simps Let_def at_site_no_oom malloc_no_oom step push_value_def up by simp
qed simp

interpretation cx: rpn_machine "eval_cexpr no_oom p sc tc xc 1 STACK_LEN" "cexpr_leaf p sc tc xc" cexpr_not cexpr_binary
  "cexpr_true p sc tc xc" "\<lambda>_ a. \<not> a" cexpr_join CEXPR_MAXDEPTH "Inl UB"
  for p sc tc xc
proof unfold_locales
  note step = eval_cexpr_counter [of "Suc 1" p sc tc xc]
  fix t ts st a b
  show "eval_cexpr no_oom p sc tc xc 1 STACK_LEN (t # ts) st =
      (if length st = CEXPR_MAXDEPTH then Inl UB
       else eval_cexpr no_oom p sc tc xc 1 STACK_LEN ts (cexpr_true p sc tc xc t # st))"
    if "cexpr_leaf p sc tc xc t" "length st \<le> CEXPR_MAXDEPTH" for t ts st
    using leaf_type [OF that(1)] leaf_value [OF that(1)] step by (auto simp: cexpr_value_def push_value_def give_up_def Let_def cexpr_types)
  show "eval_cexpr no_oom p sc tc xc 1 STACK_LEN (t # ts) (a # st) =
      eval_cexpr no_oom p sc tc xc 1 STACK_LEN ts ((\<not> a) # st)" if "cexpr_not t" for t ts a st
    using that step by (simp add: cexpr_not_def Let_def)
  show "eval_cexpr no_oom p sc tc xc 1 STACK_LEN (t # ts) (b # a # st) =
      eval_cexpr no_oom p sc tc xc 1 STACK_LEN ts (cexpr_join t a b # st)" if "cexpr_binary t" for t ts a b st
    using that step by (auto simp: cexpr_binary_def cexpr_join_def Let_def cexpr_types)
qed

abbreviation cexpr_ok where
  "cexpr_ok p sc tc xc \<equiv> well_formed (cexpr_leaf p sc tc xc) cexpr_not cexpr_binary"

text \<open>The first token of an expression is a comparison.\<close>

lemma postfix_first: "well_formed lf un bin e \<Longrightarrow> \<exists>t ts. postfix e = t # ts \<and> lf t"
  by (induction e) auto

lemma eval_cexpr_start:
  assumes "cexpr_ok p sc tc xc e"
  shows "eval_cexpr no_oom p sc tc xc 0 0 (postfix e) [] = eval_cexpr no_oom p sc tc xc 1 STACK_LEN (postfix e) []"
proof -
  obtain t ts where t: "postfix e = t # ts" "cexpr_leaf p sc tc xc t"
    using postfix_first [OF assms] by blast
  have "eval_cexpr no_oom p sc tc xc 0 0 (t # ts) [] = eval_cexpr no_oom p sc tc xc 1 STACK_LEN ts [cexpr_true p sc tc xc t]"
    using leaf_type [OF t(2)] leaf_value [OF t(2)]
    by (auto simp: cexpr_value_def push_value_def Let_def cexpr_types CEXPR_MAXDEPTH_def)
  then show ?thesis
    unfolding t(1) using cx.run_leaf [OF t(2), of "[]" ts] by (simp add: CEXPR_MAXDEPTH_def)
qed

section \<open>The text of the class\<close>

text \<open>A class whose name, datum and permissions can be written out.\<close>

definition class_known :: "policydb \<Rightarrow> u16 \<Rightarrow> bool" where
  "class_known p tclass \<longleftrightarrow> tclass \<noteq> 0 \<and> (\<exists>s. val_idx (p_class_val_to_name p) (ucast tclass) = Inr s) \<and>
     (\<exists>cl. val_idx (class_val_to_struct p) (ucast tclass) = Inr cl \<and> nprim (class_permissions cl) \<le> 32)"

lemma av_to_string_loop_defined:
  "\<forall>i \<in> set is. i < 32 \<Longrightarrow> \<exists>r. av_to_string_loop cl av is perm buf = Inr r"
proof (induction "is" arbitrary: perm buf)
  case (Cons i "is")
  then have "i < 32" and IH: "\<exists>r. av_to_string_loop cl av is perm buf = Inr r" for perm buf by auto
  then show ?case by (auto simp: Let_def split: option.splits)
qed simp

lemma class_known_info:
  assumes "class_known p tclass"
  shows "get_class_info no_oom p tclass c xc = Inr ()"
proof -
  obtain s cl where s: "val_idx (p_class_val_to_name p) (ucast tclass) = Inr s" "tclass \<noteq> 0"
    and cl: "val_idx (class_val_to_struct p) (ucast tclass) = Inr cl" "nprim (class_permissions cl) \<le> 32"
    using assms by (auto simp: class_known_def)
  from cl(2) have "\<forall>i \<in> set [0..<unat (nprim (class_permissions cl))]. i < 32" by (simp add: word_le_nat_alt)
  then obtain r where "av_to_string_loop cl (permissions c) [0..<unat (nprim (class_permissions cl))] None [] = Inr r"
    using av_to_string_loop_defined by blast
  then show ?thesis using s cl by (simp add: get_class_info_def sepol_av_to_string_def)
qed

lemma infix_buffers_no_oom: "infix_buffers no_oom es = Inr ()"
proof -
  have "for_each (\<lambda>(i, e) _. if expr_type e \<in> {CEXPR_NOT, CEXPR_AND, CEXPR_OR} \<and> \<not> malloc no_oom then Inl ENOMEM
      else Inr ()) xs () = Inr ()" for xs :: "(nat \<times> constraint_expr) list"
    by (induction xs) auto
  then show ?thesis by (simp add: infix_buffers_def)
qed

lemma constraint_eval:
  assumes "class_known p tclass" and ok: "cexpr_ok p sc tc xc e" and "cn_expr c = postfix e"
  shows "constraint_expr_eval_reason no_oom p sc tc xc tclass c =
    (if need e \<le> CEXPR_MAXDEPTH then Inr (constraint_meaning p sc tc xc e) else Inl UB)"
proof -
  have "eval_cexpr no_oom p sc tc xc 0 0 (postfix e) [] =
      (if need e \<le> CEXPR_MAXDEPTH then Inr (Some [constraint_meaning p sc tc xc e]) else Inl UB)"
    using cx.run_expr [OF ok] eval_cexpr_start [OF ok] by (simp add: constraint_meaning_def)
  then show ?thesis
    using assms by (simp add: constraint_expr_eval_reason_def class_known_info infix_buffers_no_oom)
qed

section \<open>Properties\<close>

text \<open>
  C8: \<^verbatim>\<open>constraint_expr_eval_reason\<close> computes the truth value of a constraint for the contexts, when its
  comparisons are supported, the names that they list for the message exist in the policy, and the evaluation
  needs at most \<^verbatim>\<open>CEXPR_MAXDEPTH\<close> stack elements.  For a deeper constraint it walks over uninitialised memory.
\<close>

theorem constraint_eval_correct:
  assumes "class_known p tclass" and "cexpr_ok p sc tc xc e" and "cn_expr c = postfix e"
  shows "constraint_expr_eval_reason no_oom p sc tc xc tclass c =
    (if need e \<le> CEXPR_MAXDEPTH then Inr (constraint_meaning p sc tc xc e) else Inl UB)"
  using assms by (rule constraint_eval)

definition same_user :: constraint_expr where
  "same_user = \<lparr>expr_type = CEXPR_ATTR, attr = CEXPR_USER, cop = CEXPR_EQ, names = ebitmap_init, type_names = None\<rparr>"

definition dom_low :: constraint_expr where
  "dom_low = same_user\<lparr>attr := CEXPR_L1L2, cop := CEXPR_DOM\<rparr>"

text \<open>The type of the target is one of a set of types, here the first one.\<close>

definition target_type_in :: constraint_expr where
  "target_type_in = same_user\<lparr>expr_type := CEXPR_NAMES, attr := CEXPR_TYPE OR CEXPR_TARGET, names := low_bits 1\<rparr>"

definition either :: constraint_expr where
  "either = same_user\<lparr>expr_type := CEXPR_OR\<rparr>"

definition sample_class :: class_datum where
  "sample_class = \<lparr>class_value = 1, comkey = None, comdatum = None, class_permissions = zero_symtab,
     constraints = [\<lparr>permissions = 1, cn_expr = [same_user, dom_low, either]\<rparr>], validatetrans = [],
     default_user = 0, default_role = 0, default_type = 0, default_range = 0\<rparr>"

definition sample_classes :: policydb where
  "sample_classes = zero_policydb\<lparr>p_classes := zero_symtab\<lparr>nprim := 1\<rparr>, p_class_val_to_name := [Some ''file''],
     class_val_to_struct := [Some sample_class]\<rparr>"

lemma sample_class_known: "class_known sample_classes 1"
  by (simp add: class_known_def sample_classes_def sample_class_def val_idx_def zero_symtab_def)

lemma sample_constraint_ok:
  "cexpr_ok p sc tc xc (Bin either (Leaf same_user) (Leaf dom_low))"
  "postfix (Bin either (Leaf same_user) (Leaf dom_low)) = [same_user, dom_low, either]"
  by (simp_all add: cexpr_leaf_def cexpr_binary_def cexpr_attr_def compare_vals_def compare_levels_def
      either_def dom_low_def same_user_def cexpr_types cexpr_attrs cexpr_ops)

definition typed_classes :: policydb where
  "typed_classes = sample_classes\<lparr>p_type_val_to_name := [Some ''t'']\<rparr>"

lemma low_bit_list: "name_list_bits (low_bits 1) = [0]"
  by (simp add: name_list_bits_def low_bits_def ebitmap_startbit_def upt_rec ebitmap_eval)

lemma target_type_leaf: "cexpr_leaf typed_classes sc tc xc target_type_in"
  by (simp add: cexpr_leaf_def names_known_def listed_names_def names_of_kind_def names_operand_def target_type_in_def same_user_def
      typed_classes_def sample_classes_def zero_policydb_def low_bit_list cexpr_types cexpr_attrs cexpr_ops POLICYDB_VERSION_CONSTRAINT_NAMES_def)

theorem constraint_eval_correct_witness:
  "constraint_expr_eval_reason no_oom typed_classes context_init (context_init\<lparr>user := 7, type := 1\<rparr>) None 1
     \<lparr>permissions = 1, cn_expr = [same_user, target_type_in, either]\<rparr> = Inr True"
proof -
  let ?e = "Bin either (Leaf same_user) (Leaf target_type_in)" and ?tc = "context_init\<lparr>user := 7, type := 1\<rparr>"
  have known: "class_known typed_classes 1" using sample_class_known by (simp add: class_known_def typed_classes_def)
  have ok: "cexpr_ok typed_classes context_init ?tc None ?e"
    using sample_constraint_ok(1) target_type_leaf by simp
  have "constraint_meaning typed_classes context_init ?tc None ?e"
    by (simp add: constraint_meaning_def cexpr_join_def cexpr_true_def names_operand_def either_def target_type_in_def same_user_def
        cexpr_types cexpr_attrs cexpr_ops context_init_def low_bits_def ebitmap_eval)
  then show ?thesis
    using constraint_eval_correct [OF known ok, of "\<lparr>permissions = 1, cn_expr = [same_user, target_type_in, either]\<rparr>"]
    by (simp add: CEXPR_MAXDEPTH_def)
qed

end
