(* ===== verification/Mls_Laws.thy ===== *)
theory Mls_Laws
  imports Mls_Policy
begin

text \<open>
  Properties of the MLS operations under a policy: the precomputed length is the length of the
  text, the range set up for a user lies within the user's range, and computed ranges are ranges.
\<close>

section \<open>A sample policy\<close>

text \<open>A policy with two sensitivities and three categories, for the witnesses.\<close>

definition one_slot :: "(string \<times> 'd) list \<Rightarrow> 'd symtab" where
  "one_slot kvs = \<lparr>table = Some \<lparr>htable = [kvs], hsize = 1, nel = of_nat (length kvs), hash_value = symhash, keycmp = symcmp\<rparr>,
                   nprim = of_nat (length kvs)\<rparr>"

lemma one_slot_search:
  "hashtab_search (table (one_slot kvs)) key =
     (case chain_loop strcmp key [] kvs of
        (_, []) \<Rightarrow> Inr None
      | (_, n # _) \<Rightarrow> if strcmp key (fst n) \<noteq> 0 then Inr None else Inr (Some (snd n)))"
proof -
  have "symcmp = strcmp" by (simp add: fun_eq_iff symcmp_def)
  then show ?thesis by (simp add: one_slot_def hashtab_search_def slot_def symhash_def)
qed

lemma symhash_one: "symhash 1 k = 0"
  by (simp add: symhash_def)

lemma one_slot_wf: "chain_sorted strcmp kvs \<Longrightarrow> length kvs < 2 ^ 32 \<Longrightarrow> symtab_wf (one_slot kvs)"
proof -
  have "symcmp = strcmp" by (simp add: fun_eq_iff symcmp_def)
  then show "chain_sorted strcmp kvs \<Longrightarrow> length kvs < 2 ^ 32 \<Longrightarrow> symtab_wf (one_slot kvs)"
    by (simp add: one_slot_def symtab_wf_def hashtab_wf_def sym_size_def symhash_one)
qed

lemma one_slot_map: "symtab_map (one_slot kvs) = map_of kvs"
  by (simp add: one_slot_def symtab_map_def hmap_def entries_def)

definition sample_mls :: policydb where
  "sample_mls = zero_policydb\<lparr>
     mls := True,
     p_levels := one_slot
       [(''s0'', \<lparr>level = Some \<lparr>sens = 1, cat = low_bits 7\<rparr>, level_isalias = 0, level_defined = 1\<rparr>),
        (''s1'', \<lparr>level = Some \<lparr>sens = 2, cat = low_bits 7\<rparr>, level_isalias = 0, level_defined = 1\<rparr>)],
     p_sens_val_to_name := [Some ''s0'', Some ''s1''],
     p_cats := one_slot [(''c0'', \<lparr>cat_value = 1, cat_isalias = 0\<rparr>), (''c1'', \<lparr>cat_value = 2, cat_isalias = 0\<rparr>),
        (''c2'', \<lparr>cat_value = 3, cat_isalias = 0\<rparr>)],
     p_cat_val_to_name := [Some ''c0'', Some ''c1'', Some ''c2'']\<rparr>"

definition sample_range :: context_struct where
  "sample_range = context_init\<lparr>range := \<lparr>low = \<lparr>sens = 1, cat = low_bits 2\<rparr>, high = \<lparr>sens = 2, cat = low_bits 7\<rparr>\<rparr>\<rparr>"

section \<open>Length of the text\<close>

definition map_result :: "('a \<Rightarrow> 'b) \<Rightarrow> 'a result \<Rightarrow> 'b result" where
  "map_result f r = (case r of Inl e \<Rightarrow> Inl e | Inr x \<Rightarrow> Inr (f x))"

lemma map_result_simps [simp]:
  "map_result f (Inl e) = Inl e" "map_result f (Inr x) = Inr (f x)"
  by (simp_all add: map_result_def)

lemma map_result_rbind: "map_result f (rbind r g) = rbind r (\<lambda>x. map_result f (g x))"
  by (cases r) simp_all

lemma rbind_map_result: "rbind (map_result f r) g = rbind r (\<lambda>x. g (f x))"
  by (cases r) simp_all

definition text_len :: "nat \<times> bool \<times> string \<Rightarrow> nat \<times> u32" where
  "text_len = (\<lambda>(r, sep, out). (r, of_nat (length out)))"

text \<open>Forgetting the text turns a step of one loop into a step of the other.\<close>

lemma len_text_step: "len_step p v (text_len s) = map_result text_len (text_step p v s)"
  by (cases v; cases s) (auto simp: len_step_def text_step_def text_len_def map_result_rbind
      intro!: arg_cong [of _ _ "rbind _"])

lemma len_text_loop: "for_each (len_step p) vs (text_len s) = map_result text_len (for_each (text_step p) vs s)"
proof (induction vs arbitrary: s)
  case (Cons v vs)
  show ?case by (cases "text_step p v s") (simp_all add: len_text_step Cons.IH)
qed simp

lemma level_len_text: "level_len p l (of_nat (length out)) = map_result (\<lambda>s. of_nat (length s)) (level_text p l out)"
proof -
  have "for_each (len_step p) vs (0, of_nat (length out) + of_nat (length s)) =
      map_result text_len (for_each (text_step p) vs (0, False, out @ s))" for vs s
    using len_text_loop [of p vs "(0, False, out @ s)"] by (simp add: text_len_def)
  then show ?thesis
    by (auto simp: level_len_def level_text_def map_result_rbind rbind_map_result text_len_def
        split: prod.split intro!: arg_cong [of _ _ "rbind _"] ext)
qed

lemma context_len_text:
  "mls_compute_context_len p c = map_result (\<lambda>s. of_nat (length s)) (mls_sid_to_context p c [])"
proof -
  have "level_len p l (of_nat (length out) + 1) = map_result (\<lambda>s. of_nat (length s)) (level_text p l (out @ ''-''))" for l out
    using level_len_text [of p l "out @ ''-''"] by (simp add: add.commute)
  moreover have "level_len p l 1 = map_result (\<lambda>s. of_nat (length s)) (level_text p l '':'')" for l
    using level_len_text [of p l "'':''"] by simp
  ultimately show ?thesis
    by (auto simp: mls_compute_context_len_def mls_sid_to_context_def rbind_map_result map_result_rbind
        intro!: arg_cong [of _ _ "rbind _"] ext)
qed

text \<open>
  The length that \<^verbatim>\<open>mls_compute_context_len\<close> computes is the number of characters that
  \<^verbatim>\<open>mls_sid_to_context\<close> writes, modulo \<open>2 ^ 32\<close>, for every policy and context, so a text of less
  than \<open>2 ^ 32\<close> characters fits the buffers allocated from it exactly; each is undefined exactly
  when the other is.
\<close>

theorem mls_text_length:
  "mls_compute_context_len p c = map_result (\<lambda>s. of_nat (length s)) (mls_sid_to_context p c [])"
  by (rule context_len_text)

section \<open>The range of a user\<close>

lemma level_dom_preorder:
  "mls_level_dom l l" "mls_level_dom l1 l2 \<Longrightarrow> mls_level_dom l2 l3 \<Longrightarrow> mls_level_dom l1 l3"
  using ebitmap_contains_preorder by (auto simp: mls_level_dom_def)

lemma setup_user_range:
  assumes dflt: "mls_level_between (exp_dfltlevel u) (low (exp_range u)) (high (exp_range u))"
    and proper: "mls_level_dom (high (range fromcon)) (low (range fromcon))"
    and res: "mls_setup_user_range fromcon u usercon True = Inr con"
  obtains x y where "con = usercon\<lparr>range := \<lparr>low = x, high = y\<rparr>\<rparr>"
    and "x \<in> {exp_dfltlevel u, low (range fromcon), low (exp_range u)}" and "y \<in> {high (range fromcon), high (exp_range u)}"
    and "mls_level_dom y x" and "mls_level_dom x (low (exp_range u))" and "mls_level_dom (high (exp_range u)) y"
    and "mls_level_dom (high (range fromcon)) y"
proof -
  let ?s = "low (range fromcon)" and ?c = "high (range fromcon)"
  let ?l = "low (exp_range u)" and ?h = "high (exp_range u)" and ?d = "exp_dfltlevel u"
  have d: "mls_level_dom ?d ?l" "mls_level_dom ?h ?d" using dflt by (auto simp: mls_level_between_def)
  note tr = level_dom_preorder(2)
  from res obtain x y where con: "con = usercon\<lparr>range := \<lparr>low = x, high = y\<rparr>\<rparr>"
    and x: "x = ?d \<and> mls_level_between ?d ?s ?c \<or> x = ?s \<and> mls_level_between ?s ?d ?h \<or> x = ?l \<and> mls_level_between ?c ?l ?d"
    and y: "y = ?c \<and> mls_level_dom ?h ?c \<or> y = ?h \<and> mls_level_dom ?c ?h"
    by (auto simp: mls_setup_user_range_def Let_def split: if_splits)
  have "mls_level_dom ?c x" "mls_level_dom ?h x" "mls_level_dom x ?l"
    using x d proper tr [of ?h ?d ?l] tr [of ?s ?d ?l] level_dom_preorder(1) by (auto simp: mls_level_between_def)
  then show thesis using x y level_dom_preorder(1) by (intro that [OF con]) auto
qed

text \<open>
  C30: When \<^verbatim>\<open>mls_setup_user_range\<close> succeeds for a user whose default level lies in the user's range
  and a context with a proper range, the range it sets is proper, lies within the user's range and
  does not exceed the clearance of the original context; nothing else of the context changes.
\<close>

theorem mls_setup_user_range_contained:
  assumes dflt: "mls_level_between (exp_dfltlevel u) (low (exp_range u)) (high (exp_range u))"
    and proper: "mls_level_dom (high (range fromcon)) (low (range fromcon))"
    and res: "mls_setup_user_range fromcon u usercon True = Inr con"
  shows "mls_level_dom (high (range con)) (low (range con)) \<and>
    mls_range_contains (exp_range u) (range con) \<and>
    mls_level_dom (high (range fromcon)) (high (range con)) \<and>
    (\<exists>r. con = usercon\<lparr>range := r\<rparr>)"
  by (rule setup_user_range [OF assms]) (auto simp: mls_range_contains_def)

definition sample_user :: user_datum where
  "sample_user = \<lparr>user_value = 1, user_roles = \<lparr>rs_roles = ebitmap_init, rs_flags = 0\<rparr>,
     user_range = mls_semantic_range_init, user_dfltlevel = mls_semantic_level_init, user_cache = ebitmap_init,
     exp_range = \<lparr>low = \<lparr>sens = 1, cat = ebitmap_init\<rparr>, high = \<lparr>sens = 2, cat = low_bits 7\<rparr>\<rparr>,
     exp_dfltlevel = \<lparr>sens = 1, cat = ebitmap_init\<rparr>, user_bounds = 0\<rparr>"

lemmas dom_eval = mls_level_dom_def mls_level_between_def ebitmap_contains_def low_bits_def

theorem mls_setup_user_range_contained_witness:
  "mls_setup_user_range sample_range sample_user context_init True = Inr sample_range \<and>
   mls_range_contains (exp_range sample_user) (range sample_range)"
proof -
  have "mls_setup_user_range sample_range sample_user context_init True = Inr sample_range"
    by (simp add: mls_setup_user_range_def sample_range_def sample_user_def dom_eval ebitmap_init_def)
  moreover from this have "mls_range_contains (exp_range sample_user) (range sample_range)"
    using mls_setup_user_range_contained [of sample_user sample_range context_init sample_range]
    by (simp add: sample_range_def sample_user_def dom_eval ebitmap_init_def)
  ultimately show ?thesis by blast
qed

section \<open>Validity\<close>

text \<open>The levels of a policy: every sensitivity has a name that leads to its definition.\<close>

definition levels_wf :: "policydb \<Rightarrow> bool" where
  "levels_wf p \<longleftrightarrow> symtab_wf (p_levels p) \<and>
     (\<forall>v. 0 < v \<longrightarrow> v \<le> nprim (p_levels p) \<longrightarrow> (\<exists>s. val_idx (p_sens_val_to_name p) v = Inr s)) \<and>
     (\<forall>s d. symtab_map (p_levels p) s = Some d \<longrightarrow> (\<exists>l. level d = Some l \<and> level_wf l))"

text \<open>The definition of a sensitivity by way of its name.\<close>

definition level_of :: "policydb \<Rightarrow> u32 \<Rightarrow> mls_level option" where
  "level_of p v = (case val_idx (p_sens_val_to_name p) v of
     Inl _ \<Rightarrow> None | Inr s \<Rightarrow> Option.bind (symtab_map (p_levels p) s) level)"

definition valid_level :: "policydb \<Rightarrow> mls_level \<Rightarrow> bool" where
  "valid_level p l \<longleftrightarrow> 0 < sens l \<and> sens l \<le> nprim (p_levels p) \<and>
     (case level_of p (sens l) of
        None \<Rightarrow> False
      | Some d \<Rightarrow> ebits (cat l) \<subseteq> ebits (cat d) \<inter> {..unat (nprim (p_cats p))})"

lemma cats_valid_all:
  assumes "level d = Some l"
  shows "cats_valid p d is = Inr (\<forall>i \<in> set is. i \<le> nprim (p_cats p) \<and> ebitmap_get_bit (cat l) i)"
  using assms by (induction "is") (auto simp: not_less)

lemma mls_level_isvalid_iff:
  assumes p: "levels_wf p" and l: "level_wf l"
  shows "mls_level_isvalid p l = Inr (valid_level p l)"
proof (cases "0 < sens l \<and> sens l \<le> nprim (p_levels p)")
  case True
  then obtain s where s: "val_idx (p_sens_val_to_name p) (sens l) = Inr s" using p by (auto simp: levels_wf_def)
  have search: "hashtab_search (table (p_levels p)) s = Inr (symtab_map (p_levels p) s)"
    using p by (intro symtab_search) (simp add: levels_wf_def)
  have wf: "ebitmap_wf (cat l)" using l by (simp add: level_wf_def)
  obtain bs where bs: "ebitmap_positive_bits (cat l) = Inr bs" "sorted_wrt (<) (map unat bs)" "unat ` set bs = ebits (cat l)"
    by (rule ebitmap_positive_bits_spec [OF wf])
  show ?thesis
  proof (cases "symtab_map (p_levels p) s")
    case None
    with True s search show ?thesis by (simp add: mls_level_isvalid_def valid_level_def level_of_def not_less)
  next
    case (Some d)
    then obtain ld where ld: "level d = Some ld" "level_wf ld" using p unfolding levels_wf_def by blast
    have "(\<forall>i \<in> set bs. i \<le> nprim (p_cats p) \<and> ebitmap_get_bit (cat ld) i) \<longleftrightarrow>
        unat ` set bs \<subseteq> ebits (cat ld) \<inter> {..unat (nprim (p_cats p))}"
      using ebitmap_get_bit_iff [OF ebitmap_wf_ok, of "cat ld"] ld(2) by (auto simp: level_wf_def word_le_nat_alt)
    moreover have "\<not> (sens l = 0 \<or> nprim (p_levels p) < sens l)" using True by auto
    ultimately show ?thesis
      using True s search Some ld bs
      by (simp add: mls_level_isvalid_def valid_level_def level_of_def cats_valid_all)
  qed
next
  case False
  then show ?thesis by (auto simp: mls_level_isvalid_def valid_level_def word_gt_0)
qed

text \<open>
  The range of a valid context is proper, both its levels are valid and, unless the role is that of
  objects, the user exists and the user's range contains the range.
\<close>

definition valid_range :: "policydb \<Rightarrow> context_struct \<Rightarrow> bool" where
  "valid_range p c \<longleftrightarrow> (mls p \<longrightarrow>
     mls_level_dom (high (range c)) (low (range c)) \<and> valid_level p (low (range c)) \<and> valid_level p (high (range c)) \<and>
       (role c = OBJECT_R_VAL \<or> (0 < user c \<and> user c \<le> nprim (p_users p) \<and>
          (\<exists>u. val_idx (user_val_to_struct p) (user c) = Inr u \<and> mls_range_contains (exp_range u) (range c)))))"

definition users_set :: "policydb \<Rightarrow> bool" where
  "users_set p \<longleftrightarrow> (\<forall>v. 0 < v \<longrightarrow> v \<le> nprim (p_users p) \<longrightarrow> (\<exists>u. val_idx (user_val_to_struct p) v = Inr u))"

lemma mls_context_isvalid_iff:
  assumes "mls p \<Longrightarrow> levels_wf p" and "context_wf c" and "users_set p"
  shows "mls_context_isvalid p c = Inr (valid_range p c)"
proof (cases "mls p")
  case True
  have "level_wf (low (range c))" "level_wf (high (range c))"
    using assms(2) by (auto simp: context_wf_def range_wf_def)
  note lv = mls_level_isvalid_iff [OF assms(1) [OF True] this(1)] mls_level_isvalid_iff [OF assms(1) [OF True] this(2)]
  show ?thesis
  proof (cases "0 < user c \<and> user c \<le> nprim (p_users p)")
    case True
    then obtain u where "val_idx (user_val_to_struct p) (user c) = Inr u" using assms(3) by (auto simp: users_set_def)
    then show ?thesis using True lv by (auto simp: mls_context_isvalid_def valid_range_def not_less)
  next
    case False
    then show ?thesis using lv by (auto simp: mls_context_isvalid_def valid_range_def word_gt_0)
  qed
qed (simp add: mls_context_isvalid_def valid_range_def)

lemma sample_levels_wf: "levels_wf sample_mls"
proof -
  have "symtab_wf (p_levels sample_mls)"
    by (simp add: sample_mls_def one_slot_wf chain_sorted_def)
  moreover have "\<exists>s. val_idx (p_sens_val_to_name sample_mls) v = Inr s" if "0 < v" "v \<le> nprim (p_levels sample_mls)" for v
  proof -
    have "unat v \<le> 2" "0 < unat v" using that by (simp_all add: sample_mls_def one_slot_def word_le_nat_alt word_less_nat_alt)
    then have "unat (v - 1) < 2" using that by (simp add: unat_minus_one word_gt_0)
    then have "unat (v - 1) = 0 \<or> unat (v - 1) = 1" by linarith
    then show ?thesis by (auto simp: sample_mls_def val_idx_def idx_def)
  qed
  moreover have "\<exists>l. level d = Some l \<and> level_wf l" if "symtab_map (p_levels sample_mls) s = Some d" for s d
    using that by (auto simp: sample_mls_def one_slot_map level_wf_def low_bits_wf split: if_splits)
  ultimately show ?thesis by (simp add: levels_wf_def)
qed

lemma sample_valid_levels: "valid_level sample_mls (low (range sample_range))" "valid_level sample_mls (high (range sample_range))"
proof -
  have lv: "level_of sample_mls 1 = Some \<lparr>sens = 1, cat = low_bits 7\<rparr>" "level_of sample_mls 2 = Some \<lparr>sens = 2, cat = low_bits 7\<rparr>"
    by (simp_all add: level_of_def sample_mls_def val_idx_def idx_def one_slot_map)
  have n: "nprim (p_levels sample_mls) = 2" "nprim (p_cats sample_mls) = 3"
    by (simp_all add: sample_mls_def one_slot_def)
  show "valid_level sample_mls (low (range sample_range))" "valid_level sample_mls (high (range sample_range))"
    by (simp_all add: valid_level_def sample_range_def lv n low_bits_bits)
qed

section \<open>Computed ranges\<close>

lemma range_copies:
  "mls_copy_context m dst src = Inr c \<Longrightarrow> c = dst\<lparr>range := range src\<rparr>"
  "mls_scopy_context m dst src = Inr c \<Longrightarrow> c = dst\<lparr>range := \<lparr>low = low (range src), high = low (range src)\<rparr>\<rparr>"
  "mls_range_set m dst r = Inr c \<Longrightarrow> c = dst\<lparr>range := r\<rparr>"
  by (auto simp: mls_copy_context_def mls_scopy_context_def mls_range_set_def rbind_eq_Inr_iff dest!: ebitmap_cpy_Inr)

lemma ebitmap_cpy_error: "ebitmap_cpy m e = Inl x \<Longrightarrow> x = ENOMEM"
proof -
  have "cpy_loop m i ns = Inl x \<Longrightarrow> x = ENOMEM" for i ns
    by (induction m i ns rule: cpy_loop.induct) (auto simp: rbind_eq_Inl_iff split: if_splits)
  then show "ebitmap_cpy m e = Inl x \<Longrightarrow> x = ENOMEM" by (auto simp: ebitmap_cpy_def rbind_eq_Inl_iff)
qed

lemma range_copy_errors:
  "mls_copy_context m dst src = Inl x \<Longrightarrow> x = ENOMEM"
  "mls_scopy_context m dst src = Inl x \<Longrightarrow> x = ENOMEM"
  "mls_range_set m dst r = Inl x \<Longrightarrow> x = ENOMEM"
  by (auto simp: mls_copy_context_def mls_scopy_context_def mls_range_set_def rbind_eq_Inl_iff dest!: ebitmap_cpy_error)

lemma find_range_trans_in: "find_range_trans rs s t k = Some r \<Longrightarrow> \<exists>x \<in> set rs. r = rg_target_range x"
  by (induction rs) (auto split: if_splits)

definition proper_range :: "mls_range \<Rightarrow> bool" where
  "proper_range r \<longleftrightarrow> range_wf r \<and> mls_level_dom (high r) (low r)"

lemma proper_single: "range_wf r \<Longrightarrow> proper_range \<lparr>low = low r, high = low r\<rparr>"
  by (simp add: proper_range_def range_wf_def lv.dom_refl)

text \<open>
  The range of a new object.  A process inherits the range of its creator, any other object only the low level; a transition
  follows the first range transition rule for the types and the class, if there is one; a member of a polyinstantiated
  object has the range of the object unless a rule has changed its type.
\<close>

definition range_rule_for :: "context_struct \<Rightarrow> context_struct \<Rightarrow> u16 \<Rightarrow> range_trans \<Rightarrow> bool" where
  "range_rule_for scon tcon tclass r \<longleftrightarrow>
     rg_source_type r = type scon \<and> rg_target_type r = type tcon \<and> rg_target_class r = ucast tclass"

definition low_only :: "mls_range \<Rightarrow> mls_range" where
  "low_only r = \<lparr>low = low r, high = low r\<rparr>"

definition inherited_range :: "context_struct \<Rightarrow> u16 \<Rightarrow> mls_range" where
  "inherited_range scon tclass = (if tclass = SECCLASS_PROCESS then range scon else low_only (range scon))"

definition chosen_range :: "policydb \<Rightarrow> context_struct \<Rightarrow> context_struct \<Rightarrow> u16 \<Rightarrow> u32 \<Rightarrow> context_struct \<Rightarrow> mls_range \<Rightarrow> bool" where
  "chosen_range p scon tcon tclass spec newcon r \<longleftrightarrow>
     spec = ucast AVTAB_TRANSITION \<and>
       ((\<exists>pre x post. range_tr p = pre @ x # post \<and> range_rule_for scon tcon tclass x \<and>
           (\<forall>y \<in> set pre. \<not> range_rule_for scon tcon tclass y) \<and> r = rg_target_range x) \<or>
        (\<forall>y \<in> set (range_tr p). \<not> range_rule_for scon tcon tclass y) \<and> r = inherited_range scon tclass) \<or>
     spec = ucast AVTAB_CHANGE \<and> r = inherited_range scon tclass \<or>
     spec = ucast AVTAB_MEMBER \<and> r = (if type newcon = type tcon then range tcon else low_only (range scon))"

lemma find_range_trans_first:
  "case find_range_trans rs (type scon) (type tcon) tclass of
     None \<Rightarrow> \<forall>y \<in> set rs. \<not> range_rule_for scon tcon tclass y
   | Some r \<Rightarrow> \<exists>pre x post. rs = pre @ x # post \<and> range_rule_for scon tcon tclass x \<and>
       (\<forall>y \<in> set pre. \<not> range_rule_for scon tcon tclass y) \<and> r = rg_target_range x"
proof (induction rs)
  case (Cons r rs)
  show ?case
  proof (cases "range_rule_for scon tcon tclass r")
    case True
    then show ?thesis by (auto simp: range_rule_for_def intro!: exI [of _ "[]"])
  next
    case False
    then have skip: "find_range_trans (r # rs) (type scon) (type tcon) tclass = find_range_trans rs (type scon) (type tcon) tclass"
      by (auto simp: range_rule_for_def)
    show ?thesis
    proof (cases "find_range_trans rs (type scon) (type tcon) tclass")
      case None
      then show ?thesis using Cons.IH False skip by simp
    next
      case (Some q)
      then obtain pre x post where "rs = pre @ x # post" "range_rule_for scon tcon tclass x"
        "\<forall>y \<in> set pre. \<not> range_rule_for scon tcon tclass y" "q = rg_target_range x"
        using Cons.IH by auto
      then show ?thesis using False skip Some by (auto intro!: exI [of _ "r # pre"])
    qed
  qed
qed simp

lemma compute_sid_range:
  assumes "mls p" and "mls_compute_sid m p scon tcon tclass spec newcon = Inr con"
  shows "con = newcon\<lparr>range := range con\<rparr> \<and> chosen_range p scon tcon tclass spec newcon (range con)"
proof -
  have dflt: "con = newcon\<lparr>range := inherited_range scon tclass\<rparr>" if "mls_default_range m scon tclass newcon = Inr con"
    using that by (auto simp: mls_default_range_def inherited_range_def low_only_def split: if_splits dest: range_copies)
  show ?thesis
  proof (cases "spec = ucast AVTAB_TRANSITION")
    case True
    then show ?thesis
    proof (cases "find_range_trans (range_tr p) (type scon) (type tcon) tclass")
      case None
      then have "con = newcon\<lparr>range := inherited_range scon tclass\<rparr>"
        using True assms by (intro dflt) (simp add: mls_compute_sid_def)
      then show ?thesis using True None find_range_trans_first [of "range_tr p" scon tcon tclass] by (simp add: chosen_range_def)
    next
      case (Some r)
      then have "con = newcon\<lparr>range := r\<rparr>" using True assms by (simp add: mls_compute_sid_def range_copies)
      then show ?thesis using True Some find_range_trans_first [of "range_tr p" scon tcon tclass] by (simp add: chosen_range_def)
    qed
  next
    case False
    then show ?thesis
      using assms by (auto simp: mls_compute_sid_def chosen_range_def low_only_def split: if_splits dest!: dflt range_copies)
  qed
qed

lemma compute_sid_fails:
  assumes "mls p" and "mls_compute_sid m p scon tcon tclass spec newcon = Inl x"
  shows "x = ENOMEM \<or> x = EINVAL \<and> spec \<notin> {ucast AVTAB_TRANSITION, ucast AVTAB_CHANGE, ucast AVTAB_MEMBER}"
  using assms(2)
  by (auto simp: mls_compute_sid_def assms(1) mls_default_range_def split: if_splits option.splits dest: range_copy_errors)

lemma chosen_range_proper:
  assumes "proper_range (range scon)" and "proper_range (range tcon)"
    and "\<And>x. x \<in> set (range_tr p) \<Longrightarrow> proper_range (rg_target_range x)" and "chosen_range p scon tcon tclass spec newcon r"
  shows "proper_range r"
proof -
  have "proper_range (low_only (range scon))"
    using assms(1) proper_single [of "range scon"] by (simp add: proper_range_def low_only_def)
  then show ?thesis using assms by (auto simp: chosen_range_def inherited_range_def)
qed

text \<open>
  C31: Under MLS \<^verbatim>\<open>mls_compute_sid\<close> gives the new context the range that the policy chooses and changes nothing
  else of it.  For a transition this is the range of the first rule for the two types and the class, and without such a
  rule, as for a relabelling, the range of the source for a process and the low level of the source for anything
  else; for a member it is the range of the target, or the low level of the source if the new type is another than that of the
  target.  If the ranges of the contexts and of the rules are proper, the new one is.  It fails only without memory or for
  a specification other than the three it knows.
\<close>

theorem mls_compute_sid_proper:
  assumes "mls p"
  shows "case mls_compute_sid m p scon tcon tclass spec newcon of
      Inr con \<Rightarrow> con = newcon\<lparr>range := range con\<rparr> \<and> chosen_range p scon tcon tclass spec newcon (range con) \<and>
        (proper_range (range scon) \<and> proper_range (range tcon) \<and> (\<forall>x \<in> set (range_tr p). proper_range (rg_target_range x)) \<longrightarrow>
           proper_range (range con))
    | Inl x \<Rightarrow> x = ENOMEM \<or> x = EINVAL \<and> spec \<notin> {ucast AVTAB_TRANSITION, ucast AVTAB_CHANGE, ucast AVTAB_MEMBER}"
proof (cases "mls_compute_sid m p scon tcon tclass spec newcon")
  case (Inl x)
  then show ?thesis using compute_sid_fails [OF assms] by simp
next
  case (Inr con)
  then show ?thesis using compute_sid_range [OF assms Inr] chosen_range_proper [of scon tcon p tclass spec newcon "range con"] by auto
qed

theorem mls_compute_sid_proper_witness:
  "\<exists>con. mls_compute_sid no_oom sample_mls sample_range sample_range 7 (ucast AVTAB_TRANSITION) context_init = Inr con \<and>
     range con = low_only (range sample_range) \<and> proper_range (range con)"
proof -
  have m: "mls sample_mls" "range_tr sample_mls = []" by (simp_all add: sample_mls_def zero_policydb_def)
  have proper: "proper_range (range sample_range)"
    by (simp add: proper_range_def range_wf_def level_wf_def sample_range_def low_bits_wf) (simp add: dom_eval)
  have "\<not> isl (mls_compute_sid no_oom sample_mls sample_range sample_range 7 (ucast AVTAB_TRANSITION) context_init)"
    by (simp add: mls_compute_sid_def m mls_default_range_def SECCLASS_PROCESS_def mls_scopy_context_def)
  then obtain con where con: "mls_compute_sid no_oom sample_mls sample_range sample_range 7 (ucast AVTAB_TRANSITION) context_init = Inr con"
    by (cases "mls_compute_sid no_oom sample_mls sample_range sample_range 7 (ucast AVTAB_TRANSITION) context_init") simp_all
  have kinds: "(ucast AVTAB_TRANSITION :: u32) \<noteq> ucast AVTAB_CHANGE" "(ucast AVTAB_TRANSITION :: u32) \<noteq> ucast AVTAB_MEMBER"
    by (simp_all add: AVTAB_TRANSITION_def AVTAB_CHANGE_def AVTAB_MEMBER_def)
  have "range con = low_only (range sample_range) \<and> proper_range (range con)"
    using mls_compute_sid_proper [OF m(1), where m = no_oom and scon = sample_range and tcon = sample_range and tclass = 7 and spec = "ucast AVTAB_TRANSITION" and newcon = context_init,
        unfolded con sum.case] proper kinds
    by (auto simp add: m(2) chosen_range_def inherited_range_def SECCLASS_PROCESS_def)
  with con show ?thesis by blast
qed

section \<open>Conversion\<close>

text \<open>
  \<^verbatim>\<open>moved_level\<close>: the sensitivity is the one that the new policy gives the name of the old one, and the categories
  are those that it gives the names of the old ones. A name of the new policy may be an alias.
\<close>

definition moved_cats :: "policydb \<Rightarrow> policydb \<Rightarrow> u32 set \<Rightarrow> nat set \<Rightarrow> bool" where
  "moved_cats oldp newp B B' \<longleftrightarrow>
     (\<forall>b\<in>B. \<exists>s d. cat_name oldp b = Inr s \<and> symtab_map (p_cats newp) s = Some d) \<and>
     B' = {unat (cat_value d - 1) | b s d. b \<in> B \<and> cat_name oldp b = Inr s \<and> symtab_map (p_cats newp) s = Some d}"

definition moved_level :: "policydb \<Rightarrow> policydb \<Rightarrow> mls_level \<Rightarrow> mls_level \<Rightarrow> bool" where
  "moved_level oldp newp l l' \<longleftrightarrow> level_wf l' \<and>
     (\<exists>s d. val_idx (p_sens_val_to_name oldp) (sens l) = Inr s \<and> symtab_map (p_levels newp) s = Some d \<and>
            map_option sens (level d) = Some (sens l')) \<and>
     moved_cats oldp newp (of_nat ` ebits (cat l)) (ebits (cat l'))"

text \<open>
  Where the new policy has no aliases (the value of every name has this name), the levels have the
  same names under the two policies.
\<close>

definition names_direct :: "policydb \<Rightarrow> bool" where
  "names_direct p \<longleftrightarrow>
     (\<forall>s d. symtab_map (p_cats p) s = Some d \<longrightarrow> cat_name p (cat_value d - 1) = Inr s) \<and>
     (\<forall>s d l. symtab_map (p_levels p) s = Some d \<longrightarrow> level d = Some l \<longrightarrow> val_idx (p_sens_val_to_name p) (sens l) = Inr s)"

definition same_names :: "policydb \<Rightarrow> policydb \<Rightarrow> mls_level \<Rightarrow> mls_level \<Rightarrow> bool" where
  "same_names oldp newp l l' \<longleftrightarrow>
     val_idx (p_sens_val_to_name newp) (sens l') = val_idx (p_sens_val_to_name oldp) (sens l) \<and>
     (\<lambda>b. cat_name newp (of_nat b)) ` ebits (cat l') = (\<lambda>b. cat_name oldp (of_nat b)) ` ebits (cat l)"

lemma moved_cats_names:
  assumes "names_direct newp" and moved: "moved_cats oldp newp B B'"
  shows "(\<lambda>b. cat_name newp (of_nat b)) ` B' = cat_name oldp ` B"
proof -
  have direct: "cat_name newp (cat_value d - 1) = Inr s" if "symtab_map (p_cats newp) s = Some d" for s d
    using assms(1) that unfolding names_direct_def by blast
  have B': "B' = {unat (cat_value d - 1) | b s d. b \<in> B \<and> cat_name oldp b = Inr s \<and> symtab_map (p_cats newp) s = Some d}"
    using moved unfolding moved_cats_def by blast
  have "cat_name oldp b \<in> (\<lambda>b. cat_name newp (of_nat b)) ` B'" if "b \<in> B" for b
  proof -
    from moved that obtain s d where s: "cat_name oldp b = Inr s" "symtab_map (p_cats newp) s = Some d"
      unfolding moved_cats_def by blast
    then have "unat (cat_value d - 1) \<in> B'" using that unfolding B' by blast
    then show ?thesis using direct [OF s(2)] s(1) by (force intro: rev_image_eqI)
  qed
  moreover have "cat_name newp (of_nat c) \<in> cat_name oldp ` B" if "c \<in> B'" for c
    using that unfolding B' by (auto simp: direct intro: rev_image_eqI)
  ultimately show ?thesis by blast
qed

lemma moved_level_names:
  assumes newp: "names_direct newp" and moved: "moved_level oldp newp l l'"
  shows "same_names oldp newp l l'"
proof -
  have "val_idx (p_sens_val_to_name newp) (sens l') = val_idx (p_sens_val_to_name oldp) (sens l)"
    using moved newp by (auto simp: moved_level_def names_direct_def) metis
  then show ?thesis
    using moved moved_cats_names [OF newp, of oldp "of_nat ` ebits (cat l)" "ebits (cat l')"]
    by (simp add: moved_level_def same_names_def image_image)
qed

lemma convert_cats_moved:
  assumes newp: "symtab_wf (p_cats newp)" and res: "convert_cats m oldp newp bits = Inr e"
  shows "ebitmap_wf e \<and> moved_cats oldp newp (set bits) (ebits e)"
  using res unfolding convert_cats_def
proof (rule for_each_invar)
  fix ys y zs e e'
  assume I: "ebitmap_wf e \<and> moved_cats oldp newp (set ys) (ebits e)"
    and step: "rbind (cat_name oldp y) (\<lambda>s. rbind (hashtab_search (table (p_cats newp)) s) (\<lambda>d. case d of
        None \<Rightarrow> Inl EINVAL | Some d \<Rightarrow> ebitmap_set_bit (at_site (unat y) m) e (cat_value d - 1) True)) = Inr e'"
  from step newp obtain s d where s: "cat_name oldp y = Inr s" "symtab_map (p_cats newp) s = Some d"
    and set: "ebitmap_set_bit (at_site (unat y) m) e (cat_value d - 1) True = Inr e'"
    by (auto simp: rbind_eq_Inr_iff symtab_search split: option.splits)
  have "ebits e' = insert (unat (cat_value d - 1)) (ebits e)"
    using set_bit_ebits [OF set] I by (simp add: ebitmap_wf_def)
  then show "ebitmap_wf e' \<and> moved_cats oldp newp (set (ys @ [y])) (ebits e')"
    using I set_bit_wf [OF set] s by (auto simp: moved_cats_def)
qed (simp add: moved_cats_def)

lemma convert_level_moved:
  assumes newp: "symtab_wf (p_levels newp)" "symtab_wf (p_cats newp)" and l: "level_wf l"
    and res: "convert_level m oldp newp l = Inr l'"
  shows "moved_level oldp newp l l'"
proof -
  have search: "hashtab_search (table (p_levels newp)) s = Inr (symtab_map (p_levels newp) s)" for s
    using newp(1) by (rule symtab_search)
  from res obtain s where s1: "val_idx (p_sens_val_to_name oldp) (sens l) = Inr s"
    by (auto simp: convert_level_def rbind_eq_Inr_iff)
  from res obtain d ld where s2: "symtab_map (p_levels newp) s = Some d" "level d = Some ld"
    by (auto simp: convert_level_def s1 search split: option.splits)
  note s = s1 s2
  from res obtain bits e where
    e: "ebitmap_positive_bits (cat l) = Inr bits" "convert_cats m oldp newp bits = Inr e" "l' = \<lparr>sens = sens ld, cat = e\<rparr>"
    by (auto simp: convert_level_def s search rbind_eq_Inr_iff)
  have wf: "ebitmap_wf (cat l)" using l by (simp add: level_wf_def)
  obtain bs where bs: "ebitmap_positive_bits (cat l) = Inr bs" "sorted_wrt (<) (map unat bs)" "unat ` set bs = ebits (cat l)"
    by (rule ebitmap_positive_bits_spec [OF wf])
  have "set bits = of_nat ` ebits (cat l)"
    using bs e(1) by (force simp flip: bs(3))
  then show ?thesis
    using s e(3) convert_cats_moved [OF newp(2) e(2)] by (simp add: moved_level_def level_wf_def)
qed

text \<open>
  C32: \<^verbatim>\<open>mls_convert_context\<close> moves the range of a context to another policy by name, and keeps the user, role and
  type: each level of the result has the sensitivity that the new policy gives the name of the old
  sensitivity, and exactly the categories that the new policy gives the names of the old
  categories, all of which it has. These names may be aliases of the new policy; when the new
  policy has no aliases, the levels of the result have the same names under the new policy as the
  original levels under the old one. The old policy is an MLS policy, the tables of the new policy
  are well formed and so is the context.
\<close>

theorem mls_convert_context_names:
  assumes "mls oldp" and "symtab_wf (p_levels newp)" and "symtab_wf (p_cats newp)" and "context_wf c"
    and "mls_convert_context m oldp newp c = Inr c'"
  shows "moved_level oldp newp (low (range c)) (low (range c')) \<and>
    moved_level oldp newp (high (range c)) (high (range c')) \<and> c' = c\<lparr>range := range c'\<rparr> \<and>
    (names_direct newp \<longrightarrow>
       same_names oldp newp (low (range c)) (low (range c')) \<and> same_names oldp newp (high (range c)) (high (range c')))"
proof -
  have "level_wf (low (range c))" "level_wf (high (range c))" using assms(4) by (auto simp: context_wf_def range_wf_def)
  note moved = convert_level_moved [OF assms(2,3) this(1)] convert_level_moved [OF assms(2,3) this(2)]
  show ?thesis
    using assms(1,5) by (auto simp: mls_convert_context_def rbind_eq_Inr_iff dest!: moved intro: moved_level_names)
qed

text \<open>A new policy for the witness: the two sensitivities and the categories have other values, and \<^verbatim>\<open>c1\<close> is an alias.\<close>

definition renumbered_mls :: policydb where
  "renumbered_mls = sample_mls\<lparr>
     p_levels := one_slot
       [(''s0'', \<lparr>level = Some \<lparr>sens = 2, cat = low_bits 7\<rparr>, level_isalias = 0, level_defined = 1\<rparr>),
        (''s1'', \<lparr>level = Some \<lparr>sens = 1, cat = low_bits 7\<rparr>, level_isalias = 0, level_defined = 1\<rparr>)],
     p_sens_val_to_name := [Some ''s1'', Some ''s0''],
     p_cats := one_slot [(''c0'', \<lparr>cat_value = 1, cat_isalias = 0\<rparr>), (''c1'', \<lparr>cat_value = 3, cat_isalias = 1\<rparr>),
        (''c2'', \<lparr>cat_value = 3, cat_isalias = 0\<rparr>)],
     p_cat_val_to_name := [Some ''c0'', None, Some ''c2'']\<rparr>"

lemma renumbered_convert:
  "convert_level no_oom sample_mls renumbered_mls \<lparr>sens = 1, cat = low_bits 2\<rparr> = Inr \<lparr>sens = 2, cat = low_bits 4\<rparr>"
proof -
  obtain bs where bs: "ebitmap_positive_bits (low_bits 2) = Inr bs" "sorted_wrt (<) (map unat bs)" "unat ` set bs = {1}"
    using bits_holds [of "low_bits 2" "{1}"] low_bits_bits(2) low_bits_wf [of 2] by (auto simp: holds_def)
  have "b = 1" if "b \<in> set bs" for b using that bs(3) by (metis image_eqI singletonD word_unat_eq_iff unat_1)
  then have "bs = [1]" using bs(2,3) by (cases bs; cases "tl bs") auto
  then show ?thesis
    using bs(1) by (simp add: convert_level_def convert_cats_def renumbered_mls_def sample_mls_def one_slot_search val_idx_def
        idx_def cat_name_def ebitmap_eval ebitmap_init_def) (simp add: low_bits_def)
qed

theorem mls_convert_context_names_witness:
  "let old = \<lparr>sens = 1, cat = low_bits 2\<rparr>; new = \<lparr>sens = 2, cat = low_bits 4\<rparr> in
     mls_convert_context no_oom sample_mls renumbered_mls (context_init\<lparr>range := \<lparr>low = old, high = old\<rparr>\<rparr>) =
       Inr (context_init\<lparr>range := \<lparr>low = new, high = new\<rparr>\<rparr>) \<and>
     moved_level sample_mls renumbered_mls old new"
proof -
  let ?old = "\<lparr>sens = 1, cat = low_bits 2\<rparr>" and ?new = "\<lparr>sens = 2, cat = low_bits 4\<rparr>"
  let ?c = "context_init\<lparr>range := \<lparr>low = ?old, high = ?old\<rparr>\<rparr>"
  have m: "mls sample_mls" by (simp add: sample_mls_def)
  have wf: "symtab_wf (p_levels renumbered_mls)" "symtab_wf (p_cats renumbered_mls)"
    by (simp_all add: renumbered_mls_def one_slot_wf chain_sorted_def)
  have c: "mls_convert_context no_oom sample_mls renumbered_mls ?c = Inr (?c\<lparr>range := \<lparr>low = ?new, high = ?new\<rparr>\<rparr>)"
    using m by (simp add: mls_convert_context_def renumbered_convert)
  with mls_convert_context_names [OF m wf _ c] show ?thesis
    by (simp add: context_wf_def range_wf_def level_wf_def low_bits_wf)
qed

end
