(* ===== verification/Mls_Roundtrip.thy ===== *)
theory Mls_Roundtrip
  imports Mls_Laws
begin

text \<open>
  The text of the MLS fields parsed again.  The categories are written as runs of consecutive
  bits; the writer counts the bits of a run while it walks over the bits of the nodes, and takes
  the end of one node and the start of the next as consecutive.  For bitmaps where that is so,
  parsing returns the range; otherwise the text may denote other categories.
\<close>

section \<open>Runs\<close>

text \<open>
  The runs in a list of visited bits, each with its first bit and the number of bits.  \<open>(a, n)\<close> is
  the run at hand, with \<open>n = 0\<close> when there is none.
\<close>

fun runs :: "u32 \<Rightarrow> nat \<Rightarrow> (u32 \<times> bool) list \<Rightarrow> (u32 \<times> nat) list" where
  "runs a n [] = (if n = 0 then [] else [(a, n)])"
| "runs a n ((i, b) # vs) =
     (if b then if n = 0 then runs i 1 vs else runs a (Suc n) vs
      else if n = 0 then runs a 0 vs else (a, n) # runs a 0 vs)"

text \<open>The visit behind a set bit is the next bit.\<close>

fun chained :: "u32 \<Rightarrow> nat \<Rightarrow> (u32 \<times> bool) list \<Rightarrow> bool" where
  "chained a n [] \<longleftrightarrow> True"
| "chained a n ((i, b) # vs) \<longleftrightarrow>
     (n = 0 \<or> i = a + of_nat n) \<and> (if b then if n = 0 then chained i 1 vs else chained a (Suc n) vs
                                   else chained a 0 vs)"

definition run_end :: "(u32 \<Rightarrow> string) \<Rightarrow> u32 \<times> nat \<Rightarrow> string" where
  "run_end nm = (\<lambda>(a, n). if n \<le> 1 then [] else (if n > 2 then ''.'' else '','') @ nm (a + of_nat n - 1))"

fun runs_text :: "(u32 \<Rightarrow> string) \<Rightarrow> bool \<Rightarrow> (u32 \<times> nat) list \<Rightarrow> string" where
  "runs_text nm sep [] = []"
| "runs_text nm sep (r # rs) =
     (if sep then '','' else '':'') @ nm (fst r) @ run_end nm r @ runs_text nm True rs"

text \<open>What is left to be written in the middle of a run.\<close>

definition rest_text :: "(u32 \<Rightarrow> string) \<Rightarrow> nat \<Rightarrow> bool \<Rightarrow> (u32 \<times> nat) list \<Rightarrow> string" where
  "rest_text nm n sep rs =
     (if n = 0 then runs_text nm sep rs else run_end nm (hd rs) @ runs_text nm True (tl rs))"

definition finish_text :: "policydb \<Rightarrow> u32 \<Rightarrow> nat \<times> bool \<times> string \<Rightarrow> string result" where
  "finish_text p i = (\<lambda>(range, sep, out).
     if range > 1 then rbind (cat_name p (i - 1)) (\<lambda>s. Inr (out @ (if range > 2 then ''.'' else '','') @ s))
     else Inr out)"

lemma level_text_finish:
  "level_text p l out =
     rbind (val_idx (p_sens_val_to_name p) (sens l)) (\<lambda>s.
       rbind (ebitmap_for_each_bit (cat l)) (\<lambda>vs.
         rbind (for_each (text_step p) vs (0, False, out @ s)) (finish_text p (after_loop vs))))"
  by (simp add: level_text_def finish_text_def)

definition named_by :: "policydb \<Rightarrow> (u32 \<Rightarrow> string) \<Rightarrow> u32 set \<Rightarrow> bool" where
  "named_by p nm S \<longleftrightarrow> (\<forall>i \<in> S. cat_name p i = Inr (nm i))"

lemma named_byD: "named_by p nm S \<Longrightarrow> i \<in> S \<Longrightarrow> cat_name p i = Inr (nm i)"
  by (simp add: named_by_def)

definition set_visits :: "(u32 \<times> bool) list \<Rightarrow> u32 set" where
  "set_visits vs = set (map fst (filter snd vs))"

lemma set_visits_simps [simp]:
  "set_visits [] = {}"
  "set_visits ((i, b) # vs) = (if b then insert i (set_visits vs) else set_visits vs)"
  by (auto simp: set_visits_def)

lemma text_step_apply:
  "text_step p (i, b) (n, sep, out) =
     (if b
      then if n \<noteq> 0 then Inr (n + 1, sep, out)
           else rbind (cat_name p i) (\<lambda>s. Inr (n + 1, True, out @ (if sep then '','' else '':'') @ s))
      else if n > 1
      then rbind (cat_name p (i - 1)) (\<lambda>s. Inr (0, sep, out @ (if n > 2 then ''.'' else '','') @ s))
      else Inr (0, sep, out))"
  by (simp add: text_step_def)

lemma runs_nonempty: "0 < n \<Longrightarrow> runs a n vs \<noteq> []"
  by (induction a n vs rule: runs.induct) auto

text \<open>The loop writes the runs.  \<open>u\<close> is the last bit visited before.\<close>

lemma text_loop:
  assumes "chained a n vs" "n > 0 \<Longrightarrow> sep \<and> u = a + of_nat n - 1 \<and> u \<in> S" "set_visits vs \<subseteq> S" "named_by p nm S"
  shows "rbind (for_each (text_step p) vs (n, sep, out))
      (finish_text p (if vs = [] then u + 1 else fst (last vs) + 1)) =
    Inr (out @ rest_text nm n sep (runs a n vs))"
  using assms
proof (induction a n vs arbitrary: sep out u rule: runs.induct)
  case (1 a n)
  then show ?case
    by (auto simp: finish_text_def rest_text_def run_end_def named_byD split: if_splits)
next
  case (2 a n i b vs)
  let ?f = "finish_text p (if vs = [] then i + 1 else fst (last vs) + 1)"
  have last: "(if (i, b) # vs = [] then u + 1 else fst (last ((i, b) # vs)) + 1) =
      (if vs = [] then i + 1 else fst (last vs) + 1)" by simp
  consider (start) "b" "n = 0" | (more) "b" "n > 0" | (skip) "\<not> b" "n = 0" | (stop) "\<not> b" "n > 0" by auto
  then show ?case
  proof cases
    case start
    then have "rbind (for_each (text_step p) vs (1, True, out @ (if sep then '','' else '':'') @ nm i)) ?f =
        Inr ((out @ (if sep then '','' else '':'') @ nm i) @ rest_text nm 1 True (runs i 1 vs))"
      using 2 by (intro "2.IH"(1)) simp_all
    moreover have "fst (hd (runs i 1 vs)) = i"
    proof -
      have "n > 0 \<Longrightarrow> fst (hd (runs a n vs)) = a" for a n
        by (induction a n vs rule: runs.induct) auto
      then show ?thesis by simp
    qed
    moreover have "cat_name p i = Inr (nm i)" using start 2 by (simp add: named_byD)
    ultimately show ?thesis
      unfolding last using start runs_nonempty [of 1 i vs]
      by (cases "runs i 1 vs") (auto simp: text_step_apply rest_text_def)
  next
    case more
    then have "rbind (for_each (text_step p) vs (Suc n, sep, out)) ?f =
        Inr (out @ rest_text nm (Suc n) sep (runs a (Suc n) vs))"
      using 2 by (intro "2.IH"(2)) (simp_all add: algebra_simps)
    then show ?thesis unfolding last using more by (simp add: text_step_apply rest_text_def)
  next
    case skip
    then have "rbind (for_each (text_step p) vs (0, sep, out)) ?f = Inr (out @ rest_text nm 0 sep (runs a 0 vs))"
      using 2 by (intro "2.IH"(3)) simp_all
    then show ?thesis unfolding last using skip by (simp add: text_step_apply)
  next
    case stop
    have "rbind (for_each (text_step p) vs (0, sep, out @ run_end nm (a, n))) ?f =
        Inr ((out @ run_end nm (a, n)) @ rest_text nm 0 sep (runs a 0 vs))"
      using 2 stop by (intro "2.IH"(4)) simp_all
    moreover have "text_step p (i, b) (n, sep, out) = Inr (0, sep, out @ run_end nm (a, n))"
      using 2(5,6) stop named_byD [OF 2(8)] by (auto simp: text_step_apply run_end_def)
    ultimately show ?thesis unfolding last using stop 2(6) by (simp add: rest_text_def)
  qed
qed

text \<open>The bits of the runs are the set bits.\<close>

definition run_bits :: "u32 \<times> nat \<Rightarrow> nat set" where
  "run_bits r = {unat (fst r)..<unat (fst r) + snd r}"

lemma run_bits_simps [simp]:
  "run_bits (a, 0) = {}"
  "run_bits (a, Suc n) = insert (unat a + n) (run_bits (a, n))"
  by (auto simp: run_bits_def)

lemma runs_bits:
  assumes "chained a n vs" "\<forall>i \<in> set_visits vs. unat i + 1 < 2 ^ 32" "n > 0 \<Longrightarrow> unat a + n < 2 ^ 32"
  shows "\<Union> (run_bits ` set (runs a n vs)) = (if n > 0 then run_bits (a, n) else {}) \<union> unat ` set_visits vs"
  using assms
proof (induction a n vs rule: runs.induct)
  case (2 a n i b vs)
  have "unat i = unat a + n" if "n > 0"
    using "2.prems"(1,3) that by (simp add: unat_word_ariths unat_of_nat take_bit_nat_def)
  then show ?case
    using 2 by (cases b; cases "n = 0") simp_all
qed simp

lemma runs_pos: "r \<in> set (runs a n vs) \<Longrightarrow> 0 < snd r"
  by (induction a n vs rule: runs.induct) (auto split: if_splits)

text \<open>Where a node ends with a set bit, the next node must follow it.\<close>

fun seamless_nodes :: "ebitmap_node list \<Rightarrow> bool" where
  "seamless_nodes (n1 # n2 # ns) \<longleftrightarrow>
     (bit (nmap n1) 63 \<longrightarrow> startbit n2 = startbit n1 + of_nat MAPSIZE) \<and> seamless_nodes (n2 # ns)"
| "seamless_nodes ns \<longleftrightarrow> True"

definition follows :: "u32 \<times> bool \<Rightarrow> u32 \<times> bool \<Rightarrow> bool" where
  "follows v w \<longleftrightarrow> (snd v \<longrightarrow> fst w = fst v + 1)"

lemma chained_successively:
  assumes "successively follows vs" "n > 0 \<Longrightarrow> vs \<noteq> [] \<Longrightarrow> fst (hd vs) = a + of_nat n"
  shows "chained a n vs"
  using assms
proof (induction a n vs rule: chained.induct)
  case (2 a n i b vs)
  have "follows (i, b) (hd vs)" if "vs \<noteq> []" using "2.prems"(1) that by (cases vs) auto
  then show ?case
    using 2 by (auto simp: follows_def successively_Cons algebra_simps)
qed simp

lemma successively_block: "successively follows (block_visits 0 n)"
  by (simp add: block_visits_def successively_conv_nth follows_def)

lemma successively_nodes:
  "seamless_nodes ns \<Longrightarrow> successively follows (concat (map (block_visits 0) ns))"
proof (induction ns rule: seamless_nodes.induct)
  case (1 n1 n2 ns)
  have "block_visits 0 n = (startbit n, bit (nmap n) 0) # block_visits 1 n" for n
    by (simp add: block_visits_def upt_conv_Cons MAPSIZE_def)
  then have "hd (concat (map (block_visits 0) (n2 # ns))) = (startbit n2, bit (nmap n2) 0)" by simp
  moreover have "last (block_visits 0 n1) = (startbit n1 + 63, bit (nmap n1) 63)"
    by (simp add: block_visits_def last_map MAPSIZE_def)
  ultimately show ?case
    using 1 successively_block [of n1] by (auto simp: successively_append_iff follows_def MAPSIZE_def)
qed (simp_all add: successively_block)

section \<open>Parsing the runs\<close>

lemma cut_at: "\<forall>c \<in> set s. \<not> P c \<Longrightarrow> P d \<Longrightarrow> cut P (s @ d # t) = (s, Some d, t)"
  by (induction s) auto

lemma cut_none: "\<forall>c \<in> set s. \<not> P c \<Longrightarrow> cut P s = (s, None, [])"
  by (induction s) auto

lemma set_cat_range_holds:
  assumes "holds e S" "unat b \<le> 2 ^ 32 - MAPSIZE"
  shows "\<exists>e'. set_cat_range no_oom a b e = Inr e' \<and> holds e' (S \<union> {unat a..<unat b})"
proof -
  let ?is = "filter (\<lambda>i. a \<le> i) (upto32 b)"
  have "\<exists>e'. for_each (\<lambda>i e. or_status (ebitmap_set_bit no_oom e i True)) ?is e = Inr e' \<and>
      holds e' (S \<union> unat ` set ?is)"
  proof (rule for_each_total)
    show "holds e (S \<union> unat ` set [])" using assms by simp
  next
    fix ys y zs e
    assume "?is = ys @ y # zs" and I: "holds e (S \<union> unat ` set ys)"
    then have "y \<in> set ?is" by simp
    then have "unat y < 2 ^ 32 - MAPSIZE" using assms(2) by (simp add: set_upto32 word_less_nat_alt)
    from set_bit_holds [OF I this]
    show "\<exists>e'. or_status (ebitmap_set_bit no_oom e y True) = Inr e' \<and> holds e' (S \<union> unat ` set (ys @ [y]))"
      by simp
  qed
  moreover have "unat ` set ?is = {unat a..<unat b}"
  proof (intro equalityI subsetI)
    fix x assume x: "x \<in> {unat a..<unat b}"
    then have "unat (of_nat x :: u32) = x" using unat_of_nat32 [of x b] by simp
    with x show "x \<in> unat ` set ?is"
      by (intro image_eqI [of _ _ "of_nat x"]) (simp_all add: set_upto32 word_less_nat_alt word_le_nat_alt)
  qed (auto simp: set_upto32 word_less_nat_alt word_le_nat_alt)
  ultimately show ?thesis by (simp add: set_cat_range_def)
qed

text \<open>The categories of \<open>S\<close> can be found by their names, which have no delimiters.\<close>

definition found_by :: "policydb \<Rightarrow> (u32 \<Rightarrow> string) \<Rightarrow> u32 set \<Rightarrow> bool" where
  "found_by p nm S \<longleftrightarrow> (\<forall>i \<in> S. find_cat p (nm i) = Inr (i + 1) \<and> unat i < 2 ^ 32 - MAPSIZE \<and>
     (\<forall>c \<in> set (nm i). c \<noteq> CHR '','' \<and> c \<noteq> CHR ''-'' \<and> c \<noteq> CHR ''.''))"

lemma found_byD:
  assumes "found_by p nm S" "i \<in> S"
  shows "find_cat p (nm i) = Inr (i + 1)" "unat i < 2 ^ 32 - MAPSIZE"
    "\<forall>c \<in> set (nm i). c \<noteq> CHR '','' \<and> c \<noteq> CHR ''-'' \<and> c \<noteq> CHR ''.''"
  using assms by (auto simp: found_by_def)

lemma parse_single:
  assumes "found_by p nm S" "i \<in> S" "holds e T"
  shows "\<exists>e'. parse_cat no_oom p (nm i) e = Inr e' \<and> holds e' (insert (unat i) T)"
proof -
  have "cut (\<lambda>c. c = CHR ''.'') (nm i) = (nm i, None, [])"
    using found_byD(3) [OF assms(1,2)] by (intro cut_none) simp
  then show ?thesis
    using set_bit_holds [OF assms(3) found_byD(2) [OF assms(1,2)]] found_byD(1) [OF assms(1,2)]
    by (auto simp: parse_cat_def)
qed

lemma parse_range:
  assumes S: "found_by p nm S" "a \<in> S" "b \<in> S" and "unat a < unat b" and e: "holds e T"
  shows "\<exists>e'. parse_cat no_oom p (nm a @ CHR ''.'' # nm b) e = Inr e' \<and> holds e' (T \<union> {unat a..unat b})"
proof -
  have bound: "unat a < 2 ^ 32 - MAPSIZE" "unat b < 2 ^ 32 - MAPSIZE" using found_byD(2) S by blast+
  then have s: "unat (a + 1) = unat a + 1" "unat (b + 1) = unat b + 1"
    by (simp_all add: unat_word_ariths MAPSIZE_def)
  from set_bit_holds [OF e bound(1)] obtain e1 where
    e1: "ebitmap_set_bit no_oom e a True = Inr e1" "holds e1 (insert (unat a) T)" by blast
  have "unat (b + 1) \<le> 2 ^ 32 - MAPSIZE" using bound s by simp
  from set_cat_range_holds [OF e1(2) this, of "a + 1"] obtain e2 where
    e2: "set_cat_range no_oom (a + 1) (b + 1) e1 = Inr e2" "holds e2 (insert (unat a) T \<union> {unat a + 1..<unat b + 1})"
    using s by auto
  have "insert (unat a) T \<union> {unat a + 1..<unat b + 1} = T \<union> {unat a..unat b}" using assms(4) by auto
  moreover have "\<not> a + 1 \<ge> b + 1" using s assms(4) by (simp add: word_le_nat_alt)
  moreover have "cut (\<lambda>c. c = CHR ''.'') (nm a @ CHR ''.'' # nm b) = (nm a, Some (CHR ''.''), nm b)"
    using found_byD(3) [OF S(1,2)] by (intro cut_at) auto
  ultimately show ?thesis
    using e1 e2 found_byD(1) [OF S(1,2)] found_byD(1) [OF S(1,3)] by (auto simp: parse_cat_def)
qed

text \<open>One token with what follows it, which is nothing or starts with a delimiter.\<close>

definition ends :: "string \<Rightarrow> bool" where
  "ends x \<longleftrightarrow> x = [] \<or> hd x = CHR '','' \<or> hd x = CHR ''-''"

definition next_cats :: "policydb \<Rightarrow> nat \<Rightarrow> string \<Rightarrow> ebitmap \<Rightarrow> (ebitmap \<times> char option \<times> string) result" where
  "next_cats p k x e =
     (case x of
        [] \<Rightarrow> Inr (e, None, [])
      | c # t \<Rightarrow> if c = CHR '','' then parse_cats no_oom k p t e else Inr (e, Some c, t))"

lemma parse_token:
  assumes "\<forall>c \<in> set tok. \<not> (c = CHR '','' \<or> c = CHR ''-'')" "parse_cat no_oom p tok e = Inr e'" "ends x"
  shows "parse_cats no_oom k p (tok @ x) e = next_cats p (k + 1) x e'"
proof (cases x)
  case Nil
  with assms show ?thesis by (subst parse_cats.simps) (simp add: cut_none next_cats_def)
next
  case (Cons d t)
  then have "cut (\<lambda>c. c = CHR '','' \<or> c = CHR ''-'') (tok @ x) = (tok, Some d, t)"
    using assms by (auto simp: ends_def intro: cut_at)
  then show ?thesis
    using assms(2) Cons by (subst parse_cats.simps) (simp add: next_cats_def)
qed

text \<open>A run whose bits do not wrap around, with its first and its last category in \<open>S\<close>.\<close>

definition run_ok :: "u32 set \<Rightarrow> u32 \<times> nat \<Rightarrow> bool" where
  "run_ok S = (\<lambda>(a, n). n > 0 \<and> a \<in> S \<and> a + of_nat n - 1 \<in> S \<and> unat (a + of_nat n - 1) = unat a + n - 1)"

lemma parse_run:
  assumes S: "found_by p nm S" and r: "run_ok S r" and x: "ends x" and e: "holds e T"
  shows "\<exists>k' e'. parse_cats no_oom k p (nm (fst r) @ run_end nm r @ x) e = next_cats p k' x e' \<and>
    holds e' (T \<union> run_bits r)"
proof -
  obtain a n where an: "r = (a, n)" by force
  let ?b = "a + of_nat n - 1"
  have a: "a \<in> S" and b: "?b \<in> S" "unat ?b = unat a + n - 1" and n: "n > 0"
    using r by (auto simp: an run_ok_def)
  note clean = found_byD(3) [OF S a] found_byD(3) [OF S b(1)]
  from parse_single [OF S a e] obtain e1 where
    e1: "parse_cat no_oom p (nm a) e = Inr e1" "holds e1 (insert (unat a) T)" by blast
  consider "n = 1" | "n = 2" | "n > 2" using n by linarith
  then show ?thesis
  proof cases
    case 1
    have "parse_cats no_oom k p (nm a @ x) e = next_cats p (k + 1) x e1"
      using clean(1) e1(1) x by (intro parse_token) auto
    with 1 e1(2) show ?thesis by (auto simp: an run_end_def)
  next
    case 2
    from parse_single [OF S b(1) e1(2)] obtain e2 where
      e2: "parse_cat no_oom p (nm ?b) e1 = Inr e2" "holds e2 (insert (unat ?b) (insert (unat a) T))" by blast
    have "parse_cats no_oom k p (nm a @ CHR '','' # nm ?b @ x) e =
        next_cats p (k + 1) (CHR '','' # nm ?b @ x) e1"
      using clean(1) e1(1) by (intro parse_token) (auto simp: ends_def)
    also have "\<dots> = parse_cats no_oom (k + 1) p (nm ?b @ x) e1"
      by (simp add: next_cats_def)
    also have "\<dots> = next_cats p (k + 1 + 1) x e2"
      using clean(2) e2(1) x by (intro parse_token) auto
    finally have "parse_cats no_oom k p (nm a @ CHR '','' # nm ?b @ x) e = next_cats p (k + 1 + 1) x e2" .
    moreover have "insert (unat ?b) (insert (unat a) T) = T \<union> run_bits r"
      using 2 b(2) by (auto simp: an run_bits_def)
    ultimately show ?thesis using 2 e2(2) by (auto simp: an run_end_def)
  next
    case 3
    then have "unat a < unat ?b" using b(2) by linarith
    from parse_range [OF S a b(1) this e] obtain e2 where
      e2: "parse_cat no_oom p (nm a @ CHR ''.'' # nm ?b) e = Inr e2" "holds e2 (T \<union> {unat a..unat ?b})" by blast
    have "parse_cats no_oom k p ((nm a @ CHR ''.'' # nm ?b) @ x) e = next_cats p (k + 1) x e2"
      using clean e2(1) x by (intro parse_token) auto
    moreover have "{unat a..unat ?b} = run_bits r" using 3 b(2) by (auto simp: an run_bits_def)
    ultimately show ?thesis using 3 e2(2) by (auto simp: an run_end_def)
  qed
qed

lemma parse_runs:
  assumes S: "found_by p nm S" and "\<forall>r \<in> set (r # rs). run_ok S r" and "z = [] \<or> hd z = CHR ''-''" and "holds e T"
  shows "\<exists>e'. parse_cats no_oom k p (nm (fst r) @ run_end nm r @ runs_text nm True rs @ z) e =
      (case z of [] \<Rightarrow> Inr (e', None, []) | c # t \<Rightarrow> Inr (e', Some c, t)) \<and>
    holds e' (T \<union> \<Union> (run_bits ` set (r # rs)))"
  using assms(2-)
proof (induction rs arbitrary: r e T k)
  case Nil
  have "\<exists>k' e'. parse_cats no_oom k p (nm (fst r) @ run_end nm r @ z) e = next_cats p k' z e' \<and>
      holds e' (T \<union> run_bits r)"
    using Nil by (intro parse_run [OF S]) (auto simp: ends_def)
  then show ?case using Nil(2) by (auto simp: next_cats_def split: list.splits)
next
  case (Cons q rs)
  let ?y = "nm (fst q) @ run_end nm q @ runs_text nm True rs @ z"
  have "\<exists>k' e'. parse_cats no_oom k p (nm (fst r) @ run_end nm r @ CHR '','' # ?y) e = next_cats p k' (CHR '','' # ?y) e' \<and>
      holds e' (T \<union> run_bits r)"
    using Cons.prems by (intro parse_run [OF S]) (auto simp: ends_def)
  then obtain k' e1 where e1: "parse_cats no_oom k p (nm (fst r) @ run_end nm r @ CHR '','' # ?y) e =
      parse_cats no_oom k' p ?y e1" "holds e1 (T \<union> run_bits r)"
    by (auto simp: next_cats_def)
  have "\<exists>e'. parse_cats no_oom k' p ?y e1 = (case z of [] \<Rightarrow> Inr (e', None, []) | c # t \<Rightarrow> Inr (e', Some c, t)) \<and>
      holds e' ((T \<union> run_bits r) \<union> \<Union> (run_bits ` set (q # rs)))"
    using Cons.prems e1(2) by (intro Cons.IH) auto
  then show ?case using e1(1) by (simp add: Un_assoc)
qed

section \<open>Levels\<close>

text \<open>
  The names of a level are those the symbol tables map back to it, without the characters that
  delimit them.
\<close>

definition cat_named :: "policydb \<Rightarrow> u32 \<Rightarrow> bool" where
  "cat_named p i \<longleftrightarrow> (case cat_name p i of
     Inl _ \<Rightarrow> False
   | Inr s \<Rightarrow> find_cat p s = Inr (i + 1) \<and> (\<forall>c \<in> set s. c \<noteq> CHR '','' \<and> c \<noteq> CHR ''-'' \<and> c \<noteq> CHR ''.''))"

definition sens_named :: "policydb \<Rightarrow> u32 \<Rightarrow> bool" where
  "sens_named p v \<longleftrightarrow> (case val_idx (p_sens_val_to_name p) v of
     Inl _ \<Rightarrow> False
   | Inr s \<Rightarrow> rbind (hashtab_search (table (p_levels p)) s) (\<lambda>d. Inr (map_option sens (Option.bind d level))) = Inr (Some v) \<and>
       (\<forall>c \<in> set s. c \<noteq> CHR '':'' \<and> c \<noteq> CHR ''-''))"

definition level_named :: "policydb \<Rightarrow> mls_level \<Rightarrow> bool" where
  "level_named p l \<longleftrightarrow> level_wf l \<and> sens_named p (sens l) \<and> seamless_nodes (nodes (cat l)) \<and>
     (\<forall>b \<in> ebits (cat l). cat_named p (of_nat b))"

text \<open>What is read back behind the categories: nothing, or the text from a delimiter on.\<close>

definition read_back :: "'a \<Rightarrow> string \<Rightarrow> 'a \<times> char option \<times> string" where
  "read_back x z = (case z of [] \<Rightarrow> (x, None, []) | c # t \<Rightarrow> (x, Some c, t))"

lemma read_back_eq: "(case z of [] \<Rightarrow> Inr (x, None, []) | c # t \<Rightarrow> Inr (x, Some c, t)) = Inr (read_back x z)"
  by (simp add: read_back_def split: list.split)

lemma run_okI:
  assumes "0 < snd r" "run_bits r \<subseteq> unat ` S"
  shows "run_ok S r"
proof -
  obtain a n where r: "r = (a, n)" by force
  have n: "n > 0" and sub: "{unat a..<unat a + n} \<subseteq> unat ` S" using assms by (auto simp: r run_bits_def)
  have mem: "w \<in> S" if "unat w \<in> unat ` S" for w :: u32
    using that by (auto simp flip: word_unat_eq_iff)
  have last: "unat a + n - 1 \<in> unat ` S" using n sub by auto
  then have lt: "unat a + n - 1 < 2 ^ 32" using unat_less_2p32 by auto
  have "a + of_nat n - 1 = (of_nat (unat a + n - 1) :: u32)"
    using n by (cases n) simp_all
  then have b: "unat (a + of_nat n - 1) = unat a + n - 1"
    using lt by (simp add: unat_of_nat)
  have "a \<in> S" by (rule mem) (use n sub in auto)
  moreover have "a + of_nat n - 1 \<in> S" by (rule mem) (simp only: b last)
  ultimately show ?thesis
    unfolding r run_ok_def using n b by simp
qed

lemma cat_namedD:
  assumes "cat_named p i"
  shows "cat_name p i = Inr (projr (cat_name p i))" "find_cat p (projr (cat_name p i)) = Inr (i + 1)"
    "\<forall>c \<in> set (projr (cat_name p i)). c \<noteq> CHR '','' \<and> c \<noteq> CHR ''-'' \<and> c \<noteq> CHR ''.''"
  using assms by (simp_all add: cat_named_def split: sum.splits)

lemma level_cats_text:
  assumes wf: "ebitmap_wf e" and seam: "seamless_nodes (nodes e)" and named: "\<forall>b \<in> ebits e. cat_named p (of_nat b)"
  shows "\<exists>t. (\<forall>out. rbind (ebitmap_for_each_bit e) (\<lambda>vs.
        rbind (for_each (text_step p) vs (0, False, out)) (finish_text p (after_loop vs))) = Inr (out @ t)) \<and>
      (if t = [] then e = ebitmap_init else hd t = CHR '':'' \<and> (\<forall>k z. z = [] \<or> hd z = CHR ''-'' \<longrightarrow>
         parse_cats no_oom k p (tl t @ z) ebitmap_init = Inr (read_back e z)))"
proof -
  let ?vs = "concat (map (block_visits 0) (nodes e))"
  let ?S = "set_visits ?vs" and ?nm = "\<lambda>i. projr (cat_name p i)" and ?rs = "runs (- 1) 0 ?vs"
  have vs: "ebitmap_for_each_bit e = Inr ?vs" by (rule ebitmap_for_each_bit_wf [OF wf])
  obtain bs where bs: "ebitmap_positive_bits e = Inr bs" "sorted_wrt (<) (map unat bs)" "unat ` set bs = ebits e"
    by (rule ebitmap_positive_bits_spec [OF wf])
  then have eb: "unat ` ?S = ebits e"
    using vs by (simp add: ebitmap_positive_bits_def set_visits_def)
  have S: "cat_named p i" "unat i < 2 ^ 32 - MAPSIZE" if "i \<in> ?S" for i
  proof -
    have i: "unat i \<in> ebits e" using that eb by blast
    with named show "cat_named p i" by force
    show "unat i < 2 ^ 32 - MAPSIZE"
      using ebits_less [OF ebitmap_wf_ok [OF wf] i] ebitmap_highbit_bound [OF wf] by linarith
  qed
  have by1: "named_by p ?nm ?S" and by2: "found_by p ?nm ?S"
    using cat_namedD [OF S(1)] S(2) unfolding named_by_def found_by_def by blast+
  have ch: "chained (- 1) 0 ?vs" using successively_nodes [OF seam] by (intro chained_successively) auto
  have m1: "- 1 + 1 = (0 :: u32)" by simp
  have written: "rbind (for_each (text_step p) ?vs (0, False, out)) (finish_text p (after_loop ?vs)) =
      Inr (out @ runs_text ?nm False ?rs)" for out
    using text_loop [OF ch, of False "- 1" ?S p ?nm out] by1
    unfolding m1 after_loop_def by (simp add: rest_text_def split del: if_split)
  have "\<Union> (run_bits ` set ?rs) = ebits e"
    using runs_bits [OF ch] S(2) eb by (fastforce simp: MAPSIZE_def)
  then have bits: "\<Union> (run_bits ` set ?rs) = unat ` ?S" using eb by simp
  have ok: "\<forall>r \<in> set ?rs. run_ok ?S r"
  proof
    fix r assume r: "r \<in> set ?rs"
    then have "run_bits r \<subseteq> unat ` ?S" unfolding bits [symmetric] by blast
    then show "run_ok ?S r" using runs_pos [OF r] by (rule run_okI [rotated])
  qed
  show ?thesis
  proof (cases ?rs)
    case Nil
    then have "ebits e = {}" using bits eb by simp
    then have "e = ebitmap_init" using ebitmap_canonical [OF wf] by simp
    then show ?thesis using vs written Nil by (intro exI [of _ "[]"]) simp
  next
    case (Cons r rs)
    have "parse_cats no_oom k p (tl (runs_text ?nm False ?rs) @ z) ebitmap_init = Inr (read_back e z)"
      if z: "z = [] \<or> hd z = CHR ''-''" for k z
    proof -
      have "holds ebitmap_init {}" by (simp add: holds_def)
      from parse_runs [OF by2 ok [unfolded Cons] z this, of k] obtain e' where
        e': "parse_cats no_oom k p (tl (runs_text ?nm False ?rs) @ z) ebitmap_init = Inr (read_back e' z)"
        "holds e' (\<Union> (run_bits ` set ?rs))"
        unfolding read_back_eq Cons by auto
      have "e' = e" using e'(2) wf bits eb by (intro ebitmap_canonical) (auto simp: holds_def)
      with e' show ?thesis by simp
    qed
    then show ?thesis using vs written Cons by (intro exI [of _ "runs_text ?nm False ?rs"]) auto
  qed
qed

text \<open>A level is written as the name of its sensitivity and its categories, and read back.\<close>

definition reads_back :: "policydb \<Rightarrow> mls_level \<Rightarrow> string \<Rightarrow> bool" where
  "reads_back p l s \<longleftrightarrow> (\<forall>P z l0. P (CHR '':'') \<longrightarrow> (\<forall>c. P c \<longrightarrow> c = CHR '':'' \<or> c = CHR ''-'') \<longrightarrow>
     z = [] \<or> hd z = CHR ''-'' \<and> P (CHR ''-'') \<longrightarrow> cat l0 = ebitmap_init \<longrightarrow>
     (case cut P (s @ z) of (tok, delim, rest) \<Rightarrow> parse_level no_oom p tok delim rest l0) = Inr (read_back l z))"

lemma reads_backD:
  assumes "reads_back p l s" "P (CHR '':'')" "\<And>c. P c \<Longrightarrow> c = CHR '':'' \<or> c = CHR ''-''"
    "z = [] \<or> hd z = CHR ''-'' \<and> P (CHR ''-'')" "cat l0 = ebitmap_init"
  shows "(case cut P (s @ z) of (tok, delim, rest) \<Rightarrow> parse_level no_oom p tok delim rest l0) = Inr (read_back l z)"
  using assms(1) [unfolded reads_back_def, rule_format, of P z l0] assms(2-) by blast

lemma sens_namedD:
  assumes "sens_named p v"
  obtains s d ld where "val_idx (p_sens_val_to_name p) v = Inr s" "\<forall>c \<in> set s. c \<noteq> CHR '':'' \<and> c \<noteq> CHR ''-''"
    "hashtab_search (table (p_levels p)) s = Inr (Some d)" "level d = Some ld" "sens ld = v"
  using assms by (auto simp: sens_named_def rbind_eq_Inr_iff bind_eq_Some_conv split: sum.splits)

lemma level_text_reads_back:
  assumes "level_named p l"
  shows "\<exists>s. (\<forall>out. level_text p l out = Inr (out @ s)) \<and> reads_back p l s"
proof -
  obtain s d ld where s: "val_idx (p_sens_val_to_name p) (sens l) = Inr s" "\<forall>c \<in> set s. c \<noteq> CHR '':'' \<and> c \<noteq> CHR ''-''"
    and d: "hashtab_search (table (p_levels p)) s = Inr (Some d)" "level d = Some ld" "sens ld = sens l"
    using assms by (auto simp: level_named_def elim!: sens_namedD)
  from assms have "\<exists>t. (\<forall>out. rbind (ebitmap_for_each_bit (cat l)) (\<lambda>vs.
        rbind (for_each (text_step p) vs (0, False, out)) (finish_text p (after_loop vs))) = Inr (out @ t)) \<and>
      (if t = [] then cat l = ebitmap_init else hd t = CHR '':'' \<and> (\<forall>k z. z = [] \<or> hd z = CHR ''-'' \<longrightarrow>
         parse_cats no_oom k p (tl t @ z) ebitmap_init = Inr (read_back (cat l) z)))"
    by (intro level_cats_text) (auto simp: level_named_def level_wf_def)
  then obtain t where written: "\<forall>out. rbind (ebitmap_for_each_bit (cat l)) (\<lambda>vs.
        rbind (for_each (text_step p) vs (0, False, out)) (finish_text p (after_loop vs))) = Inr (out @ t)"
    and parsed: "if t = [] then cat l = ebitmap_init else hd t = CHR '':'' \<and> (\<forall>k z. z = [] \<or> hd z = CHR ''-'' \<longrightarrow>
         parse_cats no_oom k p (tl t @ z) ebitmap_init = Inr (read_back (cat l) z))"
    by (elim exE conjE)
  have t: "level_text p l out = Inr (out @ s @ t)" for out
    using written [rule_format, of "out @ s"] by (simp add: level_text_finish s(1))
  have nil: "t = [] \<Longrightarrow> cat l = ebitmap_init" using parsed by simp
  have cats: "t \<noteq> [] \<Longrightarrow> z = [] \<or> hd z = CHR ''-'' \<Longrightarrow> hd t = CHR '':'' \<and>
      parse_cats no_oom 0 p (tl t @ z) ebitmap_init = Inr (read_back (cat l) z)" for z
    using parsed by presburger
  have "(case cut P ((s @ t) @ z) of (tok, delim, rest) \<Rightarrow> parse_level no_oom p tok delim rest l0) = Inr (read_back l z)"
    if P: "P (CHR '':'')" "\<forall>c. P c \<longrightarrow> c = CHR '':'' \<or> c = CHR ''-''" and z: "z = [] \<or> hd z = CHR ''-'' \<and> P (CHR ''-'')"
      and l0: "cat l0 = ebitmap_init" for P z l0
  proof -
    have clean: "\<forall>c \<in> set s. \<not> P c" using s(2) P(2) by blast
    have eta: "l0\<lparr>sens := sens l, cat := cat l\<rparr> = l" by (cases l) simp
    show ?thesis
    proof (cases t)
      case Nil
      have "l0\<lparr>sens := sens l\<rparr> = l" using eta nil Nil l0 by (metis mls_level.surjective mls_level.update_convs(1) mls_level.update_convs(2))
      moreover have "cut P (s @ z) = read_back s z"
        using clean z by (cases z) (auto simp: read_back_def cut_none cut_at)
      ultimately show ?thesis using d Nil z by (cases z) (auto simp: read_back_def parse_level_def)
    next
      case (Cons c t')
      with cats [of z] z have "c = CHR '':''" "parse_cats no_oom 0 p (t' @ z) ebitmap_init = Inr (read_back (cat l) z)" by auto
      moreover from this have "cut P ((s @ t) @ z) = (s, Some (CHR '':''), t' @ z)"
        using clean P(1) Cons by (simp add: cut_at)
      ultimately show ?thesis using d l0 eta by (cases z) (auto simp: read_back_def parse_level_def)
    qed
  qed
  then have "reads_back p l (s @ t)" unfolding reads_back_def by blast
  then show ?thesis using t by blast
qed

section \<open>Ranges\<close>

text \<open>The text of a range is appended to what has been written and read back into an empty range.\<close>

lemma mls_text_back:
  assumes "mls p" and "level_named p (low (range c))" and "level_named p (high (range c))"
  shows "\<exists>t. (\<forall>out. mls_sid_to_context p c out = Inr (out @ CHR '':'' # t)) \<and>
    (\<forall>c0. range c0 = mls_range_init \<longrightarrow> mls_from_string no_oom p t c0 = Inr (c0\<lparr>range := range c\<rparr>))"
proof -
  from level_text_reads_back [OF assms(2)] level_text_reads_back [OF assms(3)] obtain s h where
    s: "\<forall>out. level_text p (low (range c)) out = Inr (out @ s)" "reads_back p (low (range c)) s" and
    h: "\<forall>out. level_text p (high (range c)) out = Inr (out @ h)" "reads_back p (high (range c)) h" by blast
  have eta: "\<lparr>low = low (range c), high = high (range c)\<rparr> = range c" by simp
  have init: "cat (low mls_range_init) = ebitmap_init" "cat (high mls_range_init) = ebitmap_init"
    by (simp_all add: mls_range_init_def mls_level_init_def)
  let ?P = "\<lambda>c. c = CHR '':'' \<or> c = CHR ''-''"
  have low: "(case cut ?P (s @ z) of (tok, delim, rest) \<Rightarrow> parse_level no_oom p tok delim rest (low mls_range_init)) =
      Inr (read_back (low (range c)) z)" if "z = [] \<or> hd z = CHR ''-''" for z
    by (rule reads_backD [OF s(2)]) (use that init in simp_all)
  have high: "(case cut (\<lambda>c. c = CHR '':'') h of (tok, delim, rest) \<Rightarrow> parse_level no_oom p tok delim rest (high mls_range_init)) =
      Inr (high (range c), None, [])"
    using reads_backD [OF h(2), of "\<lambda>c. c = CHR '':''" "[]"] init by (simp add: read_back_def)
  show ?thesis
  proof (cases "mls_level_eq (low (range c)) (high (range c))")
    case True
    then have same: "high (range c) = low (range c)" by (auto simp: mls_level_eq_def ebitmap_cmp_iff)
    have "\<forall>out. mls_sid_to_context p c out = Inr (out @ CHR '':'' # s)"
      using True assms(1) s(1) by (simp add: mls_sid_to_context_def)
    moreover obtain tok d r where cut: "cut ?P s = (tok, d, r)" by (metis prod_cases3)
    then have "mls_from_string no_oom p s c0 = Inr (c0\<lparr>range := range c\<rparr>)" if "range c0 = mls_range_init" for c0
      using low [of "[]"] assms(1) same eta that
      by (simp add: mls_from_string_def mls_context_to_sid_def read_back_def mls_level_cpy_def)
    ultimately show ?thesis by blast
  next
    case False
    have "\<forall>out. mls_sid_to_context p c out = Inr (out @ CHR '':'' # s @ CHR ''-'' # h)"
      using False assms(1) s(1) h(1) by (simp add: mls_sid_to_context_def)
    moreover obtain tok d r where cut: "cut ?P (s @ CHR ''-'' # h) = (tok, d, r)" by (metis prod_cases3)
    moreover obtain tok' d' r' where cut': "cut (\<lambda>c. c = CHR '':'') h = (tok', d', r')" by (metis prod_cases3)
    have "mls_from_string no_oom p (s @ CHR ''-'' # h) c0 = Inr (c0\<lparr>range := range c\<rparr>)" if "range c0 = mls_range_init" for c0
      using low [of "CHR ''-'' # h"] high assms(1) eta cut cut' that
      by (simp add: mls_from_string_def mls_context_to_sid_def read_back_def)
    ultimately show ?thesis by blast
  qed
qed

section \<open>Properties\<close>

text \<open>
  C29: The text that \<^verbatim>\<open>mls_to_string\<close> makes of a range whose levels have names in the policy is
  parsed back by \<^verbatim>\<open>mls_from_string\<close> into the same range, provided the names have no delimiters in
  them and no run of categories ends a node of the bitmap before a gap.  The text is always made
  and parsed without undefined behaviour, unless it has \<open>2 ^ 32\<close> characters or more.
\<close>

theorem mls_string_roundtrip:
  assumes "mls p" and "level_named p (low (range c))" and "level_named p (high (range c))"
  shows "\<exists>t. mls_sid_to_context p c [] = Inr t \<and> (length t < 2 ^ 32 \<longrightarrow>
    mls_to_string no_oom p c = Inr (tl t) \<and>
    mls_from_string no_oom p (tl t) context_init = Inr (context_init\<lparr>range := range c\<rparr>))"
proof -
  from mls_text_back [OF assms] obtain t where t: "mls_sid_to_context p c [] = Inr (CHR '':'' # t)"
    and bk: "\<forall>c0. range c0 = mls_range_init \<longrightarrow> mls_from_string no_oom p t c0 = Inr (c0\<lparr>range := range c\<rparr>)"
    by auto
  have len: "unat (of_nat n :: u32) = n" if "n < 2 ^ 32" for n using that by (simp add: unat_of_nat)
  have "mls_to_string no_oom p c = Inr t" if "length (CHR '':'' # t) < 2 ^ 32"
    using len [OF that] t by (simp add: mls_to_string_def context_len_text)
  moreover have "range context_init = mls_range_init" by (simp add: context_init_def)
  ultimately show ?thesis using t bk by simp
qed

lemma seamless_low_bits [simp]: "seamless_nodes (nodes (low_bits w))"
  by (simp add: low_bits_def)

lemma sample_cats: "cat_named sample_mls 0" "cat_named sample_mls 1" "cat_named sample_mls 2"
  by (simp_all add: cat_named_def sample_mls_def cat_name_def find_cat_def one_slot_search idx_def)

lemma sample_sens: "sens_named sample_mls 1" "sens_named sample_mls 2"
  by (simp_all add: sens_named_def sample_mls_def val_idx_def one_slot_search idx_def)

lemma sample_mls_named: "level_named sample_mls (low (range sample_range))" "level_named sample_mls (high (range sample_range))"
  using sample_cats sample_sens by (simp_all add: level_named_def level_wf_def sample_range_def low_bits_wf low_bits_bits)

theorem mls_string_roundtrip_witness:
  "\<exists>t. mls_sid_to_context sample_mls sample_range [] = Inr t \<and> (length t < 2 ^ 32 \<longrightarrow>
    mls_from_string no_oom sample_mls (tl t) context_init = Inr (context_init\<lparr>range := range sample_range\<rparr>))"
  using mls_string_roundtrip [of sample_mls sample_range] sample_mls_named by (auto simp: sample_mls_def)

section \<open>Categories on both sides of a gap\<close>

text \<open>The categories 62, 63 and 128, and the categories from 62 to 128.\<close>

definition tail_node :: ebitmap_node where
  "tail_node = \<lparr>startbit = 0, nmap = push_bit 62 3\<rparr>"

lemma tail_bit: "bit (nmap tail_node) k \<longleftrightarrow> k = 62 \<or> k = 63"
proof -
  have m: "(3 :: u64) = mask 2" by (simp add: mask_eq_exp_minus_1)
  have b3: "bit (3 :: u64) k \<longleftrightarrow> k < 2" for k unfolding m bit_mask_iff by auto
  show ?thesis unfolding tail_node_def ebitmap_node.select_convs bit_push_bit_iff b3 by auto
qed

lemma tail_start: "startbit tail_node = 0" "nmap tail_node \<noteq> 0"
  using tail_bit [of 62] by (auto simp: tail_node_def)

definition gap_cats :: ebitmap where
  "gap_cats = \<lparr>nodes = [tail_node, \<lparr>startbit = 128, nmap = 1\<rparr>], highbit = 192\<rparr>"

definition full_cats :: ebitmap where
  "full_cats = \<lparr>nodes = [tail_node, \<lparr>startbit = 64, nmap = - 1\<rparr>, \<lparr>startbit = 128, nmap = 1\<rparr>], highbit = 192\<rparr>"

lemma gap_wf: "ebitmap_wf gap_cats" "ebitmap_wf full_cats"
  by (auto simp: gap_cats_def full_cats_def tail_start ebitmap_wf_def nodes_ok_def MAPSIZE_def)

lemma gap_nodes:
  "nodes gap_cats = [tail_node, \<lparr>startbit = 128, nmap = 1\<rparr>]"
  "nodes full_cats = [tail_node, \<lparr>startbit = 64, nmap = - 1\<rparr>, \<lparr>startbit = 128, nmap = 1\<rparr>]"
  by (simp_all add: gap_cats_def full_cats_def)

lemma gap_bits: "64 \<notin> ebits gap_cats" "64 \<in> ebits full_cats"
  by (auto simp: gap_nodes ebits_def nodes_bits_def nbits_iff tail_start tail_bit)

text \<open>Outside of a run the loop skips, within a run it only counts.\<close>

lemma text_skip: "for_each (text_step p) (map (\<lambda>i. (f i, False)) is) (0, sep, out) = Inr (0, sep, out)"
  by (induction "is") (simp_all add: text_step_apply)

lemma text_run: "n > 0 \<Longrightarrow> for_each (text_step p) (map (\<lambda>i. (f i, True)) is) (n, sep, out) = Inr (n + length is, sep, out)"
  by (induction "is" arbitrary: n) (simp_all add: text_step_apply)

lemma text_tail:
  "for_each (text_step p) (block_visits 0 tail_node) (0, False, out) =
     rbind (cat_name p 62) (\<lambda>s. Inr (2, True, out @ '':'' @ s))"
proof -
  have "[0..<64] = [0..<62] @ [62, 63 :: nat]" by (simp add: upt_rec)
  then have "block_visits 0 tail_node = map (\<lambda>i. (of_nat i, False)) [0..<62] @ [(62, True), (63, True)]"
    by (simp add: block_visits_def tail_start tail_bit MAPSIZE_def)
  then show ?thesis
    by (cases "cat_name p 62") (simp_all add: for_each_append text_skip text_step_apply numeral_2_eq_2)
qed

lemma text_after_run:
  assumes "n \<ge> 2"
  shows "for_each (text_step p) (block_visits 0 \<lparr>startbit = 128, nmap = 1\<rparr>) (n, sep, out) =
     rbind (cat_name p 128) (\<lambda>s. Inr (0, sep, out @ ''.'' @ s))"
proof -
  have "block_visits 0 \<lparr>startbit = 128, nmap = 1\<rparr> =
      (128, True) # (129, False) # map (\<lambda>i. (128 + of_nat i, False)) [2..<64]"
    by (simp add: block_visits_def MAPSIZE_def upt_conv_Cons bit_1_iff)
  then show ?thesis
    using assms by (cases "cat_name p 128") (simp_all add: text_step_apply text_skip)
qed

text \<open>
  The text of a level does not determine its categories: for every policy and sensitivity, the
  text of the categories 62, 63 and 128 is the text of all categories from 62 to 128, although the
  bitmaps are canonical and differ.  The writer misses the gap between two nodes of the bitmap.
\<close>

theorem mls_text_misses_gap:
  "level_text p \<lparr>sens = v, cat = gap_cats\<rparr> out = level_text p \<lparr>sens = v, cat = full_cats\<rparr> out \<and>
   ebits gap_cats \<noteq> ebits full_cats"
proof -
  have b: "block_visits 0 \<lparr>startbit = 64, nmap = - 1\<rparr> = map (\<lambda>i. (64 + of_nat i, True)) [0..<64]"
    by (simp add: block_visits_def MAPSIZE_def)
  have ne: "block_visits 0 n \<noteq> []" for n by (simp add: block_visits_def MAPSIZE_def)
  have "level_text p \<lparr>sens = v, cat = gap_cats\<rparr> out = level_text p \<lparr>sens = v, cat = full_cats\<rparr> out"
    unfolding level_text_finish
    by (cases "cat_name p 62"; cases "val_idx (p_sens_val_to_name p) v")
      (simp_all add: ebitmap_for_each_bit_wf gap_wf gap_nodes for_each_append text_tail text_run b
        text_after_run after_loop_def ne last_append)
  then show ?thesis using gap_bits by auto
qed

end
