(* ===== verification/Expand_Laws.thy ===== *)
theory Expand_Laws
  imports Expand_Sets
begin

text \<open>
  Expanded sets: a set of types denotes what its flags say of the types and attributes in it; the
  loops over the roles do not.
\<close>

section \<open>Sets of types\<close>

text \<open>
  The types of a policy are well-formed when every value below the number of types has an entry,
  and the attributes contain only types.
\<close>

definition types_wf :: "policydb \<Rightarrow> bool" where
  "types_wf p \<longleftrightarrow> length (type_val_to_struct p) = unat (nprim (p_types p)) \<and> length (type_val_to_struct p) \<le> 2 ^ 32 - MAPSIZE \<and>
     (\<forall>t. Some t \<in> set (type_val_to_struct p) \<longrightarrow> type_flavor t = TYPE_ATTRIB \<longrightarrow>
        ebitmap_wf (type_types t) \<and>
        (\<forall>i \<in> ebits (type_types t). i < length (type_val_to_struct p) \<and> \<not> is_attrib (type_val_to_struct p ! i)))"

text \<open>What a value in a set stands for.\<close>

definition stands_for :: "policydb \<Rightarrow> nat \<Rightarrow> nat set" where
  "stands_for p i =
     (if is_attrib (type_val_to_struct p ! i) then ebits (type_types (the (type_val_to_struct p ! i))) else {i})"

definition types_denoted :: "policydb \<Rightarrow> type_set \<Rightarrow> nat set" where
  "types_denoted p ts =
     (let T = \<Union> (stands_for p ` ebits (ts_types ts)); N = \<Union> (stands_for p ` ebits (negset ts));
          all = {i. i < length (type_val_to_struct p) \<and> \<not> is_attrib (type_val_to_struct p ! i)} in
      if ts_flags ts AND TYPE_STAR \<noteq> 0 then all - N
      else if ts_flags ts AND TYPE_COMP \<noteq> 0 then all - (T - N)
      else T - N)"

definition type_set_wf :: "policydb \<Rightarrow> type_set \<Rightarrow> bool" where
  "type_set_wf p ts \<longleftrightarrow> ebitmap_wf (ts_types ts) \<and> ebitmap_wf (negset ts) \<and>
     (\<forall>i \<in> ebits (ts_types ts). i < length (type_val_to_struct p) \<and> type_val_to_struct p ! i \<noteq> None) \<and>
     (\<forall>i \<in> ebits (negset ts). i < length (type_val_to_struct p))"

lemma attrib_holds:
  assumes "types_wf p" "i < length (type_val_to_struct p)" "is_attrib (type_val_to_struct p ! i)"
  shows "holds (type_types (the (type_val_to_struct p ! i))) (stands_for p i)"
proof -
  obtain t where t: "type_val_to_struct p ! i = Some t" "type_flavor t = TYPE_ATTRIB"
    using assms(3) by (auto simp: is_attrib_def split: option.splits)
  then have "Some t \<in> set (type_val_to_struct p)" using nth_mem [OF assms(2)] by simp
  then show ?thesis using assms t by (auto simp: types_wf_def stands_for_def holds_def)
qed

lemma stands_for_types:
  assumes "types_wf p" "i < length (type_val_to_struct p)" "k \<in> stands_for p i"
  shows "k < length (type_val_to_struct p) \<and> \<not> is_attrib (type_val_to_struct p ! k)"
proof (cases "is_attrib (type_val_to_struct p ! i)")
  case True
  then obtain t where t: "type_val_to_struct p ! i = Some t" "type_flavor t = TYPE_ATTRIB"
    by (auto simp: is_attrib_def split: option.splits)
  then have "Some t \<in> set (type_val_to_struct p)" using nth_mem [OF assms(2)] by simp
  then show ?thesis using assms t True by (auto simp: types_wf_def stands_for_def)
next
  case False
  then show ?thesis using assms by (simp add: stands_for_def)
qed

lemma type_step_holds:
  assumes p: "types_wf p" and i: "unat i < length (type_val_to_struct p)" and e: "holds e T"
  shows "\<exists>e'. neg_step no_oom p i e = Inr e' \<and> holds e' (T \<union> stands_for p (unat i))"
    and "type_val_to_struct p ! unat i \<noteq> None \<Longrightarrow>
      \<exists>e'. type_step no_oom p i e = Inr e' \<and> holds e' (T \<union> stands_for p (unat i))"
proof -
  have bound: "unat i < 2 ^ 32 - MAPSIZE" using p i by (auto simp: types_wf_def)
  have "\<exists>e'. (if is_attrib (type_val_to_struct p ! unat i) then ebitmap_union no_oom e (type_types (the (type_val_to_struct p ! unat i)))
      else ebitmap_set_bit no_oom e i True) = Inr e' \<and> holds e' (T \<union> stands_for p (unat i))"
    using union_holds [OF e attrib_holds [OF p i]] set_bit_holds [OF e bound] by (auto simp: stands_for_def)
  then show "\<exists>e'. neg_step no_oom p i e = Inr e' \<and> holds e' (T \<union> stands_for p (unat i))"
    and "type_val_to_struct p ! unat i \<noteq> None \<Longrightarrow>
      \<exists>e'. type_step no_oom p i e = Inr e' \<and> holds e' (T \<union> stands_for p (unat i))"
    using i by (auto simp: neg_step_def type_step_def idx_def is_attrib_def split: if_splits option.splits)
qed

lemma unat_upto32: "unat ` set (upto32 n) = {..<unat n}"
proof
  show "{..<unat n} \<subseteq> unat ` set (upto32 n)"
  proof
    fix k assume "k \<in> {..<unat n}"
    then have "unat (of_nat k :: u32) = k" "k < unat n" using unat_of_nat32 [of k n] by auto
    then show "k \<in> unat ` set (upto32 n)"
      by (intro image_eqI [of _ _ "of_nat k"]) (simp_all add: set_upto32 word_less_nat_alt)
  qed
qed (auto simp: set_upto32 word_less_nat_alt)

lemma UN_upto32: "(\<Union>i \<in> set (upto32 n). g (unat i)) = (\<Union>k < unat n. g k)"
  unfolding unat_upto32 [symmetric] by auto

lemma expand_loop_holds:
  assumes "holds s S" and "\<And>i e T. unat i \<in> S \<Longrightarrow> holds e T \<Longrightarrow> \<exists>e'. f i e = Inr e' \<and> holds e' (T \<union> g (unat i))"
  shows "\<exists>e. rbind (ebitmap_positive_bits s) (\<lambda>bits. for_each f bits ebitmap_init) = Inr e \<and> holds e (\<Union> (g ` S))"
proof -
  from bits_holds [OF assms(1)] obtain bs where bs: "ebitmap_positive_bits s = Inr bs" "unat ` set bs = S" by blast
  have "\<exists>e. for_each f bs ebitmap_init = Inr e \<and> holds e ({} \<union> \<Union> ((\<lambda>i. g (unat i)) ` set bs))"
    using assms(2) bs(2) by (intro for_each_holds) auto
  moreover have "\<Union> ((\<lambda>i. g (unat i)) ` set bs) = \<Union> (g ` S)" using bs(2) by (auto simp flip: bs(2))
  ultimately show ?thesis using bs(1) by simp
qed

lemma star_loop_holds:
  assumes p: "types_wf p" and neg: "holds neg N"
  shows "\<exists>t. for_each (star_step no_oom p neg) (upto32 (nprim (p_types p))) ebitmap_init = Inr t \<and>
    holds t ({i. i < length (type_val_to_struct p) \<and> \<not> is_attrib (type_val_to_struct p ! i)} - N)"
proof -
  let ?n = "nprim (p_types p)" and ?a = "type_val_to_struct p"
  have len: "length ?a = unat ?n" using p by (simp add: types_wf_def)
  let ?g = "\<lambda>k. if k \<in> N \<or> is_attrib (?a ! k) then {} else {k}"
  have "\<exists>t. for_each (star_step no_oom p neg) (upto32 ?n) ebitmap_init = Inr t \<and>
      holds t ({} \<union> (\<Union>i \<in> set (upto32 ?n). ?g (unat i)))"
  proof (rule for_each_holds)
    fix i e T assume i: "i \<in> set (upto32 ?n)" and e: "holds e T"
    then have "unat i < length ?a" using len by (simp add: set_upto32 word_less_nat_alt)
    then show "\<exists>e'. star_step no_oom p neg i e = Inr e' \<and> holds e' (T \<union> ?g (unat i))"
      using set_bit_holds [OF e, of i] e p holds_get [OF neg] by (auto simp: star_step_def idx_def types_wf_def)
  qed simp
  moreover have "{} \<union> (\<Union>i \<in> set (upto32 ?n). ?g (unat i)) = {i. i < length ?a \<and> \<not> is_attrib (?a ! i)} - N"
    unfolding UN_upto32 [where g = ?g] len by auto
  ultimately show ?thesis by metis
qed

lemma comp_loop_holds:
  assumes p: "types_wf p" and t: "holds t T"
    and T: "\<And>k. k \<in> T \<Longrightarrow> k < length (type_val_to_struct p) \<and> \<not> is_attrib (type_val_to_struct p ! k)"
  shows "\<exists>t'. for_each (comp_step no_oom p) (upto32 (nprim (p_types p))) t = Inr t' \<and>
    holds t' ({i. i < length (type_val_to_struct p) \<and> \<not> is_attrib (type_val_to_struct p ! i)} - T)"
proof -
  let ?n = "nprim (p_types p)" and ?a = "type_val_to_struct p"
  let ?done = "\<lambda>ys. (T - unat ` set ys) \<union> {k \<in> unat ` set ys. \<not> is_attrib (?a ! k) \<and> k \<notin> T}"
  have len: "length ?a = unat ?n" using p by (simp add: types_wf_def)
  have "\<exists>t'. for_each (comp_step no_oom p) (upto32 ?n) t = Inr t' \<and> holds t' (?done (upto32 ?n))"
  proof (rule for_each_total)
    show "holds t (?done [])" using t by simp
  next
    fix ys y zs e
    assume up: "upto32 ?n = ys @ y # zs" and I: "holds e (?done ys)"
    then have "y \<in> set (upto32 ?n)" "y \<notin> set ys" using distinct_upto32 [of ?n] by auto
    then have y: "unat y < length ?a" "unat y \<notin> unat ` set ys"
      using len by (auto simp: set_upto32 word_less_nat_alt simp flip: word_unat_eq_iff)
    then have bound: "unat y < 2 ^ 32 - MAPSIZE" using p by (simp add: types_wf_def)
    have get: "ebitmap_get_bit e y \<longleftrightarrow> unat y \<in> T" using holds_get [OF I, of y] y(2) by simp
    have new: "?done (ys @ [y]) = (if is_attrib (?a ! unat y) \<or> unat y \<in> T then ?done ys - {unat y} else insert (unat y) (?done ys))"
      using y(2) by auto
    show "\<exists>e'. comp_step no_oom p y e = Inr e' \<and> holds e' (?done (ys @ [y]))"
    proof (cases "is_attrib (?a ! unat y)")
      case True
      then have "unat y \<notin> T" using T by blast
      then have "?done ys - {unat y} = ?done ys" using y(2) by auto
      then show ?thesis using True I y(1) get \<open>unat y \<notin> T\<close> unfolding new by (simp add: comp_step_def idx_def)
    next
      case False
      then show ?thesis
        using y(1) get set_bit_holds [OF I bound] clear_bit_holds [OF I bound, of no_oom] unfolding new
        by (auto simp: comp_step_def idx_def)
    qed
  qed
  moreover have "?done (upto32 ?n) = {i. i < length ?a \<and> \<not> is_attrib (?a ! i)} - T"
    using T unfolding unat_upto32 len by auto
  ultimately show ?thesis by simp
qed

lemma copy_loop_holds:
  assumes "holds types T" "holds neg N"
  shows "\<exists>t. rbind (ebitmap_positive_bits types) (\<lambda>bits.
      for_each (\<lambda>i t. if ebitmap_get_bit neg i then Inr t else or_status (ebitmap_set_bit no_oom t i True)) bits ebitmap_init) = Inr t \<and>
    holds t (T - N)"
proof -
  have "\<exists>t. rbind (ebitmap_positive_bits types) (\<lambda>bits.
      for_each (\<lambda>i t. if ebitmap_get_bit neg i then Inr t else or_status (ebitmap_set_bit no_oom t i True)) bits ebitmap_init) = Inr t \<and>
    holds t (\<Union>k \<in> T. if k \<in> N then {} else {k})"
  proof (rule expand_loop_holds [OF assms(1)])
    fix i :: u32 and e S assume "unat i \<in> T" "holds e S"
    then show "\<exists>e'. (if ebitmap_get_bit neg i then Inr e else or_status (ebitmap_set_bit no_oom e i True)) = Inr e' \<and>
        holds e' (S \<union> (if unat i \<in> N then {} else {unat i}))"
      using holds_get [OF assms(2), of i] set_bit_holds [of e S i] holds_less [OF assms(1)] by auto
  qed
  moreover have "(\<Union>k \<in> T. if k \<in> N then {} else {k}) = T - N" by auto
  ultimately show ?thesis by metis
qed

lemma type_set_expand_denoted:
  assumes p: "types_wf p" and ts: "type_set_wf p ts"
  shows "\<exists>t. type_set_expand no_oom ts p True = Inr t \<and> holds t (types_denoted p ts)"
proof -
  let ?T = "\<Union> (stands_for p ` ebits (ts_types ts))" and ?N = "\<Union> (stands_for p ` ebits (negset ts))"
  have h: "holds (ts_types ts) (ebits (ts_types ts))" "holds (negset ts) (ebits (negset ts))"
    using ts by (auto simp: type_set_wf_def holds_def)
  have "\<exists>e. rbind (ebitmap_positive_bits (ts_types ts)) (\<lambda>bits. for_each (type_step no_oom p) bits ebitmap_init) = Inr e \<and> holds e ?T"
    using ts by (intro expand_loop_holds [OF h(1)] type_step_holds(2) [OF p]) (auto simp: type_set_wf_def)
  then obtain types where types: "rbind (ebitmap_positive_bits (ts_types ts)) (\<lambda>bits. for_each (type_step no_oom p) bits ebitmap_init) = Inr types"
    "holds types ?T" by blast
  have "\<exists>e. rbind (ebitmap_positive_bits (negset ts)) (\<lambda>bits. for_each (neg_step no_oom p) bits ebitmap_init) = Inr e \<and> holds e ?N"
    using ts by (intro expand_loop_holds [OF h(2)] type_step_holds(1) [OF p]) (auto simp: type_set_wf_def)
  then obtain neg where neg: "rbind (ebitmap_positive_bits (negset ts)) (\<lambda>bits. for_each (neg_step no_oom p) bits ebitmap_init) = Inr neg"
    "holds neg ?N" by blast
  from copy_loop_holds [OF types(2) neg(2)] obtain t where
    t: "rbind (ebitmap_positive_bits types) (\<lambda>bits.
        for_each (\<lambda>i t. if ebitmap_get_bit neg i then Inr t else or_status (ebitmap_set_bit no_oom t i True)) bits ebitmap_init) = Inr t"
    "holds t (?T - ?N)" by blast
  have sub: "k < length (type_val_to_struct p) \<and> \<not> is_attrib (type_val_to_struct p ! k)" if "k \<in> ?T - ?N" for k
    using that stands_for_types [OF p] ts by (auto simp: type_set_wf_def)
  from star_loop_holds [OF p neg(2)] comp_loop_holds [OF p t(2) sub]
  show ?thesis
    unfolding type_set_expand_def at_site_no_oom by (simp add: types(1) neg(1) t(1) t(2) types_denoted_def Let_def)
qed

lemma highbit_empty: "ebitmap_wf e \<Longrightarrow> highbit e = 0 \<longleftrightarrow> ebits e = {}"
proof
  assume wf: "ebitmap_wf e"
  show "ebits e = {}" if "highbit e = 0"
  proof -
    have "nodes e = []"
    proof (rule ccontr)
      assume ne: "nodes e \<noteq> []"
      then have l: "last (nodes e) \<in> set (nodes e)" by simp
      then have "unat (startbit (last (nodes e)) + of_nat MAPSIZE) = unat (startbit (last (nodes e))) + MAPSIZE"
        using wf by (simp add: ebitmap_wf_def MAPSIZE_def unat_word_ariths)
      moreover have "highbit e = startbit (last (nodes e)) + of_nat MAPSIZE" using wf ne by (simp add: ebitmap_wf_def)
      ultimately show False using that by (simp add: MAPSIZE_def)
    qed
    then show ?thesis by (simp add: ebits_def nodes_bits_def)
  qed
  show "highbit e = 0" if "ebits e = {}"
  proof -
    have "e = ebitmap_init" using wf that by (intro holds_unique [of _ "{}"]) (simp_all add: holds_def)
    then show ?thesis by (simp add: ebitmap_init_def)
  qed
qed

lemma type_set_copied:
  assumes "type_set_wf p ts" and "ebits (negset ts) = {}" and "ts_flags ts = 0"
  shows "\<exists>t. type_set_expand no_oom ts p False = Inr t \<and> holds t (ebits (ts_types ts))"
proof -
  have wf: "ebitmap_wf (ts_types ts)" "ebitmap_wf (negset ts)" using assms(1) by (auto simp: type_set_wf_def)
  obtain bs where "ebitmap_positive_bits (negset ts) = Inr bs" "unat ` set bs = ebits (negset ts)"
    by (rule ebitmap_positive_bits_spec [OF wf(2)])
  then have neg: "ebitmap_positive_bits (negset ts) = Inr []" using assms(2) by simp
  have "holds ebitmap_init {}" by (simp add: holds_def)
  moreover have "holds (ts_types ts) (ebits (ts_types ts))"
    using assms(1) by (auto simp: type_set_wf_def holds_def)
  ultimately show ?thesis
    using copy_loop_holds [of "ts_types ts" "ebits (ts_types ts)" ebitmap_init "{}"] assms(3) highbit_empty [OF wf(2)] assms(2)
    unfolding type_set_expand_def at_site_no_oom by (auto simp add: neg)
qed

text \<open>
  C28: \<^verbatim>\<open>type_set_expand\<close> computes what a set of types denotes: its types and the types of its attributes
  without the negated ones, all types but the negated ones for \<open>*\<close>, and all other types for a
  complement; attributes are then never members of the result.  Only when the caller does not ask for the
  expansion (\<^verbatim>\<open>alwaysexpand\<close>) and the set has neither negated types nor flags, the result is the set of types and
  attributes as it is.  In both cases it returns a canonical bitmap, without failed assertions, whenever memory is
  available.
\<close>

theorem type_set_expand_spec:
  assumes "types_wf p" and "type_set_wf p ts"
  shows "\<exists>t. type_set_expand no_oom ts p alwaysexpand = Inr t \<and> ebitmap_wf t \<and>
    ebits t = (if alwaysexpand \<or> ebits (negset ts) \<noteq> {} \<or> ts_flags ts \<noteq> 0 then types_denoted p ts else ebits (ts_types ts))"
proof (cases "alwaysexpand \<or> ebits (negset ts) \<noteq> {} \<or> ts_flags ts \<noteq> 0")
  case True
  have "ebitmap_wf (negset ts)" using assms(2) by (simp add: type_set_wf_def)
  then have "type_set_expand no_oom ts p alwaysexpand = type_set_expand no_oom ts p True"
    using True highbit_empty [of "negset ts"] by (auto simp: type_set_expand_def)
  with True show ?thesis using type_set_expand_denoted [OF assms] by (auto simp: holds_def)
next
  case False
  then show ?thesis using type_set_copied [OF assms(2)] by (auto simp: holds_def)
qed

text \<open>Two types and an attribute of both; all types of the attribute but the first.\<close>

definition sample_type :: "u32 \<Rightarrow> u32 \<Rightarrow> ebitmap \<Rightarrow> type_datum" where
  "sample_type v fl b = \<lparr>type_value = v, primary = 1, type_flavor = fl, type_types = b, type_flags = 0, type_bounds = 0\<rparr>"

definition sample_types :: policydb where
  "sample_types = zero_policydb\<lparr>p_types := zero_symtab\<lparr>nprim := 3\<rparr>,
     type_val_to_struct := [Some (sample_type 1 0 ebitmap_init), Some (sample_type 2 0 ebitmap_init),
       Some (sample_type 3 TYPE_ATTRIB (low_bits 3))]\<rparr>"

definition sample_type_set :: type_set where
  "sample_type_set = \<lparr>ts_types = low_bits 4, negset = low_bits 1, ts_flags = 0\<rparr>"

theorem type_set_expand_spec_witness:
  "(\<exists>t. type_set_expand no_oom sample_type_set sample_types True = Inr t \<and> ebits t = {1}) \<and>
   (\<exists>t. type_set_expand no_oom (sample_type_set\<lparr>negset := ebitmap_init\<rparr>) sample_types False = Inr t \<and> ebits t = {2})"
proof
  have wf: "types_wf sample_types"
    by (auto simp: types_wf_def sample_types_def sample_type_def TYPE_ATTRIB_def MAPSIZE_def low_bits_bits low_bits_wf is_attrib_def)
  have "type_set_wf sample_types sample_type_set"
    using low_bits_wf [of 4] low_bits_wf [of 1]
    by (simp add: type_set_wf_def sample_type_set_def sample_types_def low_bits_bits)
  moreover have "types_denoted sample_types sample_type_set = {1}"
    by (auto simp: types_denoted_def sample_type_set_def sample_types_def low_bits_bits stands_for_def is_attrib_def
        sample_type_def TYPE_ATTRIB_def)
  ultimately show "\<exists>t. type_set_expand no_oom sample_type_set sample_types True = Inr t \<and> ebits t = {1}"
    using type_set_expand_spec [OF wf, of sample_type_set True] by auto
  have "type_set_wf sample_types (sample_type_set\<lparr>negset := ebitmap_init\<rparr>)"
    using low_bits_wf [of 4] by (simp add: type_set_wf_def sample_type_set_def sample_types_def low_bits_bits)
  then show "\<exists>t. type_set_expand no_oom (sample_type_set\<lparr>negset := ebitmap_init\<rparr>) sample_types False = Inr t \<and> ebits t = {2}"
    using type_set_expand_spec [OF wf, of "sample_type_set\<lparr>negset := ebitmap_init\<rparr>" False]
    by (auto simp: sample_type_set_def low_bits_bits)
qed

section \<open>Sets of roles\<close>

lemma unat_of_nat_less: "x < 2 ^ 32 \<Longrightarrow> unat (of_nat x :: u32) = x"
  by (simp add: unat_of_nat)

lemma star_loop_fails:
  assumes "0 < n" "n < 64" "k \<le> 2 ^ 32 - 64"
  shows "role_star_loop no_oom (of_nat k) (of_nat (n + k)) r = Inl STATUS_ERR"
  using assms(3)
proof (induction arbitrary: r rule: inc_induct)
  case base
  have "unat (of_nat (2 ^ 32 - 64) :: u32) = 2 ^ 32 - 64" by (simp add: unat_of_nat)
  moreover have "unat (of_nat (n + (2 ^ 32 - 64)) :: u32) = n + (2 ^ 32 - 64)"
    using assms(2) by (subst unat_of_nat) simp
  ultimately show ?case
    using assms(1) ebitmap_set_bit_EINVAL [of "of_nat (2 ^ 32 - 64)" no_oom r True]
    by (subst role_star_loop.simps) (simp add: word_less_nat_alt MAPSIZE_def)
next
  case (step k)
  have k: "unat (of_nat k :: u32) = k" "unat (of_nat (n + k) :: u32) = n + k"
    using step(2) assms(2) by (intro unat_of_nat_less; simp)+
  then have "(of_nat k :: u32) < of_nat (n + k)" using assms(1) by (simp add: word_less_nat_alt)
  then show ?case
    using step(3) by (subst role_star_loop.simps) (auto simp: algebra_simps split: sum.split)
qed

lemma star_loop_wraps:
  assumes "64 \<le> n" "n < 2 ^ 32" "k \<le> 2 ^ 32 - n" "holds r {..<k}"
  shows "\<exists>r'. role_star_loop no_oom (of_nat k) (of_nat (n + k)) r = Inr (r', 1) \<and> holds r' {..<2 ^ 32 - n}"
  using assms(3,4)
proof (induction arbitrary: r rule: inc_induct)
  case base
  have "n + (2 ^ 32 - n) = 2 ^ 32" using assms(2) by simp
  then have "(of_nat (n + (2 ^ 32 - n)) :: u32) = 0" by simp
  with base show ?case by (subst role_star_loop.simps) simp
next
  case (step k)
  have k: "unat (of_nat k :: u32) = k" "unat (of_nat (n + k) :: u32) = n + k"
    using step(2) assms(1) by (intro unat_of_nat_less; simp)+
  then have lt: "(of_nat k :: u32) < of_nat (n + k)" using assms(1) by (simp add: word_less_nat_alt)
  have "k < 2 ^ 32 - MAPSIZE" using step(2) assms(1) by (simp add: MAPSIZE_def)
  then obtain r' where r': "ebitmap_set_bit no_oom r (of_nat k) True = Inr r'" "holds r' (insert k {..<k})"
    using set_bit_holds [OF step(4), of "of_nat k"] k(1) by auto
  then have "holds r' {..<Suc k}" by (simp add: lessThan_Suc)
  from step(3) [OF this] show ?case
    using lt r'(1) by (subst role_star_loop.simps) (simp add: algebra_simps)
qed

text \<open>
  The set of all roles cannot be expanded: \<^verbatim>\<open>role_set_expand\<close> increments the number of roles with
  every comparison, so with fewer than 64 roles it fails after setting all but the last 64 bits,
  and with more it leaves a set of \<open>2 ^ 32 - n\<close> roles and the number of roles at one.
\<close>

theorem role_set_expand_star:
  assumes "rs_flags x AND ROLE_STAR \<noteq> 0" and "n = unat (nprim (p_roles p))" and "0 < n"
  shows "(n < 64 \<longrightarrow> role_set_expand no_oom x p base rolemap = Inl STATUS_ERR) \<and>
    (64 \<le> n \<longrightarrow> (\<exists>r. role_set_expand no_oom x p base rolemap = Inr (r, p\<lparr>p_roles := (p_roles p)\<lparr>nprim := 1\<rparr>\<rparr>) \<and>
       ebits r = {..<2 ^ 32 - n}))"
proof -
  have n: "nprim (p_roles p) = of_nat (n + 0)" using assms(2) by simp
  have "n < 2 ^ 32" using assms(2) unat_less_2p32 by simp
  then show ?thesis
    using assms(1,3) star_loop_fails [of n 0 ebitmap_init] star_loop_wraps [of n 0 ebitmap_init]
    by (auto simp: role_set_expand_def n holds_def)
qed

definition star_roles :: role_set where
  "star_roles = \<lparr>rs_roles = ebitmap_init, rs_flags = ROLE_STAR\<rparr>"

definition three_roles :: policydb where
  "three_roles = zero_policydb\<lparr>p_roles := zero_symtab\<lparr>nprim := 3\<rparr>\<rparr>"

theorem role_set_expand_star_witness: "role_set_expand no_oom star_roles three_roles None None = Inl STATUS_ERR"
  using role_set_expand_star [of star_roles 3 three_roles None None] by (simp add: star_roles_def three_roles_def ROLE_STAR_def)

text \<open>A set without flags is expanded to itself.\<close>

lemma role_set_expand_plain:
  assumes "rs_flags x = 0" and "ebitmap_wf (rs_roles x)"
  shows "role_set_expand no_oom x p base None = Inr (rs_roles x, p)"
proof -
  have h: "holds (rs_roles x) (ebits (rs_roles x))" using assms(2) by (simp add: holds_def)
  have "\<exists>e. rbind (ebitmap_positive_bits (rs_roles x)) (\<lambda>bits.
      for_each (\<lambda>i r. or_status (ebitmap_set_bit no_oom r i True)) bits ebitmap_init) = Inr e \<and>
    holds e (\<Union>k \<in> ebits (rs_roles x). {k})"
  proof (rule expand_loop_holds [OF h])
    fix i :: u32 and e T assume "unat i \<in> ebits (rs_roles x)" "holds e T"
    then show "\<exists>e'. or_status (ebitmap_set_bit no_oom e i True) = Inr e' \<and> holds e' (T \<union> {unat i})"
      using set_bit_holds [of e T i] holds_less [OF h] by simp
  qed
  then obtain e where e: "rbind (ebitmap_positive_bits (rs_roles x)) (\<lambda>bits.
      for_each (\<lambda>i r. or_status (ebitmap_set_bit no_oom r i True)) bits ebitmap_init) = Inr e" "holds e (ebits (rs_roles x))"
    by auto
  then have "e = rs_roles x" using holds_unique h by blast
  with e(1) assms(1) show ?thesis
    by (auto simp: role_set_expand_def mapped_roles_def rbind_eq_Inr_iff)
qed

text \<open>
  The complement of a set of roles is taken within the length of the bitmap, which shrinks while
  it is taken: the complement of the first role alone is empty.
\<close>

definition not_first :: role_set where
  "not_first = \<lparr>rs_roles = \<lparr>nodes = [\<lparr>startbit = 0, nmap = 1\<rparr>], highbit = 64\<rparr>, rs_flags = ROLE_COMP\<rparr>"

text \<open>
  The expansion of the complement of the first role is the empty set, whatever roles the policy
  has, while \<^verbatim>\<open>role_set_get_role\<close> counts every other role as a member of the same set.
\<close>

theorem role_set_expand_complement:
  "role_set_expand no_oom not_first p base None = Inr (ebitmap_init, p) \<and> {r. role_set_get_role not_first r} = - {1}"
proof -
  have wf: "ebitmap_wf (rs_roles not_first)"
    by (simp add: not_first_def ebitmap_wf_def nodes_ok_def MAPSIZE_def)
  have "role_set_expand no_oom (not_first\<lparr>rs_flags := 0\<rparr>) p base None = Inr (rs_roles not_first, p)"
    using role_set_expand_plain [of "not_first\<lparr>rs_flags := 0\<rparr>" p base] wf by simp
  moreover have "role_comp_loop no_oom 0 (rs_roles not_first) = Inr ebitmap_init"
  proof -
    have "ebitmap_set_bit no_oom (rs_roles not_first) 0 False = Inr ebitmap_init" "ebitmap_get_bit (rs_roles not_first) 0"
      "highbit (rs_roles not_first) = 64"
      by (simp_all add: not_first_def ebitmap_eval ebitmap_init_def)
    moreover have "role_comp_loop no_oom 1 ebitmap_init = Inr ebitmap_init"
      by (subst role_comp_loop.simps) (simp add: ebitmap_init_def)
    ultimately show ?thesis by (subst role_comp_loop.simps) simp
  qed
  ultimately have "role_set_expand no_oom not_first p base None = Inr (ebitmap_init, p)"
    by (auto simp: role_set_expand_def mapped_roles_def not_first_def ROLE_COMP_def ROLE_STAR_def rbind_eq_Inr_iff)
  moreover have "role_set_get_role not_first r \<longleftrightarrow> r \<noteq> 1" for r
  proof -
    have "ebits (rs_roles not_first) = {0}"
      by (auto simp: not_first_def ebits_def nodes_bits_def nbits_def bit_1_iff)
    then have "ebitmap_get_bit (rs_roles not_first) (r - 1) \<longleftrightarrow> r = 1"
      using ebitmap_get_bit_iff [OF ebitmap_wf_ok [OF wf], of "r - 1"] by (simp add: unat_eq_0)
    then show ?thesis by (simp add: role_set_get_role_def not_first_def ROLE_COMP_def ROLE_STAR_def)
  qed
  ultimately show ?thesis by auto
qed

end
