(* ===== verification/Context_Laws.thy ===== *)
theory Context_Laws
  imports Context Mls_Roundtrip Expand_Laws
begin

text \<open>
  Context strings parsed back, context records and contexts, and what makes a context valid.
\<close>

section \<open>Records\<close>

definition no_colon :: "string \<Rightarrow> bool" where
  "no_colon s \<longleftrightarrow> CHR '':'' \<notin> set s"

lemma cut_colon: "no_colon s \<Longrightarrow> cut (\<lambda>c. c = CHR '':'') (s @ CHR '':'' # t) = (s, Some (CHR '':''), t)"
  by (rule cut_at) (auto simp: no_colon_def)

lemma cut_no_colon: "no_colon s \<Longrightarrow> cut (\<lambda>c. c = CHR '':'') s = (s, None, [])"
  by (rule cut_none) (auto simp: no_colon_def)

lemmas record_defs = sepol_context_create_def sepol_context_set_user_def sepol_context_set_role_def
  sepol_context_set_type_def sepol_context_set_mls_def strdup_def

lemma record_from_string:
  assumes "no_colon u" "no_colon r" "no_colon t"
  shows "sepol_context_from_string no_oom (u @ '':'' @ r @ '':'' @ t @ (case l of None \<Rightarrow> [] | Some l \<Rightarrow> '':'' @ l)) =
    Inr (Some \<lparr>con_user = Some u, con_role = Some r, con_type = Some t, con_mls = l\<rparr>)"
proof -
  have "u @ '':'' @ r @ '':'' @ t @ (case l of None \<Rightarrow> [] | Some l \<Rightarrow> '':'' @ l) \<noteq> ''<<none>>''"
  proof
    assume "u @ '':'' @ r @ '':'' @ t @ (case l of None \<Rightarrow> [] | Some l \<Rightarrow> '':'' @ l) = ''<<none>>''"
    then have "CHR '':'' \<in> set ''<<none>>''" by (metis in_set_conv_decomp append.assoc append_Cons)
    then show False by simp
  qed
  then show ?thesis
    using assms
    by (cases l) (simp_all add: sepol_context_from_string_def strcmp_eq cut_colon cut_no_colon record_defs)
qed

text \<open>
  The string of a record with user, role and type, none of which has a colon in it, is parsed
  back into the record; the MLS field may have any text, or be missing.
\<close>

theorem context_record_roundtrip:
  assumes "con = \<lparr>con_user = Some u, con_role = Some r, con_type = Some t, con_mls = l\<rparr>"
    and "no_colon u" and "no_colon r" and "no_colon t" and "sepol_context_to_string no_oom con = Inr s"
  shows "sepol_context_from_string no_oom s = Inr (Some con)"
proof -
  have "s = u @ '':'' @ r @ '':'' @ t @ (case l of None \<Rightarrow> [] | Some l \<Rightarrow> '':'' @ l)"
    using assms(1,5) by (auto simp: sepol_context_to_string_def Let_def split: if_splits)
  then show ?thesis unfolding assms(1) using record_from_string assms by metis
qed

theorem context_record_roundtrip_witness:
  "sepol_context_from_string no_oom ''u:r:t:s0-s1:c0'' =
     Inr (Some \<lparr>con_user = Some ''u'', con_role = Some ''r'', con_type = Some ''t'', con_mls = Some ''s0-s1:c0''\<rparr>)"
  by (rule context_record_roundtrip [OF refl])
    (simp_all add: no_colon_def sepol_context_to_string_def INT_MAX_def)

lemma context_from_string_record:
  assumes "takeWhile (\<lambda>c. c \<noteq> CHR 0x00) s = s" and "sepol_context_from_string no_oom s = Inr rec"
  shows "context_from_string no_oom p s = context_from_record no_oom p rec"
  unfolding context_from_string_def assms(1) by (simp add: assms(2))

section \<open>A sample policy\<close>

text \<open>The sample policy with a user, the role of objects and another role, and a type.\<close>

definition sample_role :: "u32 \<Rightarrow> ebitmap \<Rightarrow> role_datum" where
  "sample_role v e = \<lparr>role_value = v, dominates = ebitmap_init, role_types = type_set_init, role_cache = e,
     role_bounds = 0, role_flavor = 0, role_roles = ebitmap_init\<rparr>"

definition sample_policy :: policydb where
  "sample_policy = (let u = sample_user\<lparr>user_cache := low_bits 2\<rparr>;
       ob = sample_role 1 ebitmap_init; r = sample_role 2 (low_bits 1); t = sample_type 1 0 ebitmap_init in
     sample_mls\<lparr>p_users := one_slot [(''u'', u)], p_user_val_to_name := [Some ''u''], user_val_to_struct := [Some u],
       p_roles := one_slot [(''object_r'', ob), (''r'', r)], p_role_val_to_name := [Some ''object_r'', Some ''r''],
       role_val_to_struct := [Some ob, Some r],
       p_types := one_slot [(''t'', t)], p_type_val_to_name := [Some ''t''], type_val_to_struct := [Some t]\<rparr>)"

definition sample_context :: context_struct where
  "sample_context = sample_range\<lparr>user := 1, role := 2, type := 1\<rparr>"

lemma sample_policy_mls [simp]:
  "mls sample_policy" "p_levels sample_policy = p_levels sample_mls" "p_cats sample_policy = p_cats sample_mls"
  "p_sens_val_to_name sample_policy = p_sens_val_to_name sample_mls" "p_cat_val_to_name sample_policy = p_cat_val_to_name sample_mls"
  by (simp_all add: sample_policy_def sample_mls_def Let_def)

lemma sample_policy_levels:
  "sens_named sample_policy v = sens_named sample_mls v" "cat_named sample_policy v = cat_named sample_mls v" "levels_wf sample_policy = levels_wf sample_mls"
  "valid_level sample_policy l = valid_level sample_mls l"
  unfolding sens_named_def cat_named_def cat_name_def find_cat_def levels_wf_def valid_level_def level_of_def
    sample_policy_mls by (rule refl)+

section \<open>Contexts\<close>

text \<open>The sensitivity and the categories of a level, and the fields of a context, have names that lead back to them.\<close>

definition level_names_lead_back :: "policydb \<Rightarrow> mls_level \<Rightarrow> bool" where
  "level_names_lead_back p l \<longleftrightarrow> level_wf l \<and> sens_named p (sens l) \<and> (\<forall>b \<in> ebits (cat l). cat_named p (of_nat b))"

definition context_named :: "policydb \<Rightarrow> context_struct \<Rightarrow> bool" where
  "context_named p c \<longleftrightarrow>
     (\<exists>u d. val_idx (p_user_val_to_name p) (user c) = Inr u \<and> no_colon u \<and>
        hashtab_search (table (p_users p)) u = Inr (Some d) \<and> user_value d = user c) \<and>
     (\<exists>r d. val_idx (p_role_val_to_name p) (role c) = Inr r \<and> no_colon r \<and>
        hashtab_search (table (p_roles p)) r = Inr (Some d) \<and> role_value d = role c) \<and>
     (\<exists>t d. val_idx (p_type_val_to_name p) (type c) = Inr t \<and> no_colon t \<and>
        hashtab_search (table (p_types p)) t = Inr (Some d) \<and> type_value d = type c \<and> type_flavor d \<noteq> TYPE_ATTRIB) \<and>
     (if mls p then level_names_lead_back p (low (range c)) \<and> level_names_lead_back p (high (range c))
      else range c = mls_range_init)"

text \<open>No level has a run of categories that ends a node of its bitmap before a gap.\<close>

definition range_seamless :: "context_struct \<Rightarrow> bool" where
  "range_seamless c \<longleftrightarrow> seamless_nodes (nodes (cat (low (range c)))) \<and> seamless_nodes (nodes (cat (high (range c))))"

text \<open>The MLS part of a context string.\<close>

lemma context_mls_text:
  assumes "context_named p c" and "mls p \<Longrightarrow> range_seamless c"
  shows "\<exists>l. (\<forall>out. mls_sid_to_context p c out = Inr (out @ (case l of None \<Rightarrow> [] | Some l \<Rightarrow> '':'' @ l))) \<and>
    (l = None \<longleftrightarrow> \<not> mls p) \<and>
    (\<forall>c0. range c0 = mls_range_init \<longrightarrow>
       (case l of None \<Rightarrow> Inr c0 | Some l \<Rightarrow> or_status (mls_from_string no_oom p l c0)) = Inr (c0\<lparr>range := range c\<rparr>))"
proof (cases "mls p")
  case True
  then have "level_named p (low (range c))" "level_named p (high (range c))"
    using assms by (simp_all add: context_named_def level_names_lead_back_def range_seamless_def level_named_def)
  with True mls_text_back [of p c] obtain t where
    t: "\<forall>out. mls_sid_to_context p c out = Inr (out @ CHR '':'' # t)"
    "\<forall>c0. range c0 = mls_range_init \<longrightarrow> mls_from_string no_oom p t c0 = Inr (c0\<lparr>range := range c\<rparr>)"
    by blast
  then show ?thesis using True by (intro exI [of _ "Some t"]) simp
next
  case False
  then have "range c = mls_range_init" using assms by (simp add: context_named_def)
  then show ?thesis using False by (intro exI [of _ None]) (auto simp: mls_sid_to_context_def)
qed

text \<open>
  C9: The string of a valid context whose fields have names in the policy is parsed back into the
  context, by way of a record: \<^verbatim>\<open>context_from_string\<close> inverts \<^verbatim>\<open>context_to_string\<close>.  Both succeed when
  memory is available and the MLS part has less than \<open>2 ^ 32\<close> characters, and the size of the
  buffer is the length of the string and one more.  Names are C strings, without null characters,
  and lead back to the values they stand for; those of users, roles and types have no colon.  Under
  MLS, no run of categories of a level ends a node of its bitmap (with category 63, 127, ...) when
  the next node starts behind a gap: the text of such a level names the categories in the gap too.
\<close>

theorem context_string_roundtrip:
  assumes "context_named p c" and "context_is_valid p c = Inr True" and "mls p \<Longrightarrow> range_seamless c"
    and "\<And>t. mls_sid_to_context p c [] = Inr t \<Longrightarrow> length t < 2 ^ 32"
    and "\<And>s n. context_to_string no_oom p c = Inr (s, n) \<Longrightarrow> CHR 0x00 \<notin> set s"
  shows "\<exists>s. context_to_string no_oom p c = Inr (s, length s + 1) \<and> context_from_string no_oom p s = Inr c"
proof -
  from assms(1) obtain u r t du dr dt where
    u: "val_idx (p_user_val_to_name p) (user c) = Inr u" "no_colon u"
      "hashtab_search (table (p_users p)) u = Inr (Some du)" "user_value du = user c" and
    r: "val_idx (p_role_val_to_name p) (role c) = Inr r" "no_colon r"
      "hashtab_search (table (p_roles p)) r = Inr (Some dr)" "role_value dr = role c" and
    t: "val_idx (p_type_val_to_name p) (type c) = Inr t" "no_colon t"
      "hashtab_search (table (p_types p)) t = Inr (Some dt)" "type_value dt = type c" "type_flavor dt \<noteq> TYPE_ATTRIB"
    unfolding context_named_def by (elim conjE exE)
  from context_mls_text [OF assms(1,3)] obtain l where
    written: "\<forall>out. mls_sid_to_context p c out = Inr (out @ (case l of None \<Rightarrow> [] | Some l \<Rightarrow> '':'' @ l))" and
    l: "l = None \<longleftrightarrow> \<not> mls p"
    "\<forall>c0. range c0 = mls_range_init \<longrightarrow>
       (case l of None \<Rightarrow> Inr c0 | Some l \<Rightarrow> or_status (mls_from_string no_oom p l c0)) = Inr (c0\<lparr>range := range c\<rparr>)"
    by blast
  let ?l = "case l of None \<Rightarrow> [] | Some l \<Rightarrow> '':'' @ l"
  let ?s = "u @ '':'' @ r @ '':'' @ t @ ?l"
  have "mls_sid_to_context p c [] = Inr ?l" using written by simp
  then have len: "mls_compute_context_len p c = Inr (of_nat (length ?l))" "length ?l < 2 ^ 32"
    using assms(4) by (simp_all add: context_len_text)
  have to: "context_to_string no_oom p c = Inr (?s, length ?s + 1)"
    using u r t written len by (simp add: context_to_string_def unat_of_nat)
  let ?c0 = "context_init\<lparr>user := user c, role := role c, type := type c\<rparr>"
  have "range ?c0 = mls_range_init" by (simp add: context_init_def)
  then have fill: "(case l of None \<Rightarrow> Inr ?c0 | Some l \<Rightarrow> or_status (mls_from_string no_oom p l ?c0)) = Inr c"
    using l(2) by (simp add: context_init_def)
  have "takeWhile (\<lambda>c. c \<noteq> CHR 0x00) ?s = ?s" using assms(5) [OF to] by (auto simp: takeWhile_eq_all_conv)
  then have "context_from_string no_oom p ?s = context_from_record no_oom p
      (Some \<lparr>con_user = Some u, con_role = Some r, con_type = Some t, con_mls = l\<rparr>)"
    using record_from_string [OF u(2) r(2) t(2), of l] by (rule context_from_string_record)
  also have "\<dots> = Inr c"
    using u r t l(1) fill assms(2) by (auto simp: context_from_record_def strdup_def Let_def)
  finally show ?thesis using to by blast
qed

text \<open>
  A context string must not be \<^verbatim>\<open><<none>>\<close>: its record is null, and \<^verbatim>\<open>context_from_string\<close> reads
  the user from it.
\<close>

theorem context_from_string_none: "context_from_string no_oom p ''<<none>>'' = Inl UB"
  by (simp add: context_from_string_def sepol_context_from_string_def strcmp_eq context_from_record_def)

section \<open>Validity\<close>

text \<open>
  C10: \<^verbatim>\<open>context_is_valid\<close> decides validity without undefined behaviour: user, role and type are
  declared, the role is authorised for the type and the user for the role unless the role is that
  of objects, and under MLS the range is proper, its levels are defined with their categories and,
  again unless the role is that of objects, the user's range contains it.  Categories are numbered
  from zero in the bitmaps; the bound on them admits one more than the policy has.
\<close>

theorem context_is_valid_iff:
  assumes "mls p \<Longrightarrow> levels_wf p" and "context_wf c" and "users_set p"
    and "\<And>v. 0 < v \<Longrightarrow> v \<le> nprim (p_roles p) \<Longrightarrow> \<exists>r. val_idx (role_val_to_struct p) v = Inr r"
  shows "\<exists>v. context_is_valid p c = Inr v \<and> (v \<longleftrightarrow>
    role c \<in> {1..nprim (p_roles p)} \<and> user c \<in> {1..nprim (p_users p)} \<and> type c \<in> {1..nprim (p_types p)} \<and>
    (role c = OBJECT_R_VAL \<or> (\<exists>r u. val_idx (role_val_to_struct p) (role c) = Inr r \<and> val_idx (user_val_to_struct p) (user c) = Inr u \<and>
       ebitmap_get_bit (role_cache r) (type c - 1) \<and> ebitmap_get_bit (user_cache u) (role c - 1))) \<and>
    valid_range p c)"
proof (cases "role c \<in> {1..nprim (p_roles p)} \<and> user c \<in> {1..nprim (p_users p)} \<and> type c \<in> {1..nprim (p_types p)}")
  case True
  have pos: "x \<noteq> 0" "0 < x" if "1 \<le> x" for x :: u32 using that by (auto simp: word_le_nat_alt word_less_nat_alt)
  from True obtain r u where r: "val_idx (role_val_to_struct p) (role c) = Inr r" and u: "val_idx (user_val_to_struct p) (user c) = Inr u"
    using assms(3) assms(4) [of "role c"] pos unfolding users_set_def by (meson atLeastAtMost_iff)
  with True r u show ?thesis
    using pos mls_context_isvalid_iff [OF assms(1-3)] by (auto simp: context_is_valid_def not_less)
next
  case False
  have "x = 0 \<or> 1 \<le> x" for x :: u32 by (cases "x = 0") (auto simp: word_le_nat_alt unat_gt_0 Suc_le_eq)
  with False show ?thesis by (auto simp: context_is_valid_def not_less) (meson not_le)+
qed

lemma one_or_two: "0 < v \<Longrightarrow> v \<le> 2 \<Longrightarrow> v = 1 \<or> v = (2 :: u32)"
proof -
  assume "0 < v" "v \<le> 2"
  then have "0 < unat v" "unat v \<le> 2" by (simp_all add: word_le_nat_alt word_less_nat_alt)
  then have "unat v = unat (1 :: u32) \<or> unat v = unat (2 :: u32)" by auto
  then show "v = 1 \<or> v = 2" by (simp only: word_unat_eq_iff [symmetric])
qed

lemma sample_policy_sets:
  "nprim (p_users sample_policy) = 1" "nprim (p_roles sample_policy) = 2" "nprim (p_types sample_policy) = 1"
  "val_idx (user_val_to_struct sample_policy) 1 = Inr (sample_user\<lparr>user_cache := low_bits 2\<rparr>)"
  "val_idx (role_val_to_struct sample_policy) 1 = Inr (sample_role 1 ebitmap_init)"
  "val_idx (role_val_to_struct sample_policy) 2 = Inr (sample_role 2 (low_bits 1))"
  by (simp_all add: sample_policy_def Let_def one_slot_def val_idx_def idx_def)

lemma sample_policy_wf:
  "levels_wf sample_policy" "context_wf sample_context" "users_set sample_policy"
  "0 < v \<Longrightarrow> v \<le> nprim (p_roles sample_policy) \<Longrightarrow> \<exists>r. val_idx (role_val_to_struct sample_policy) v = Inr r"
proof -
  show "levels_wf sample_policy" by (simp add: sample_policy_levels sample_levels_wf)
  show "context_wf sample_context"
    by (simp add: context_wf_def range_wf_def level_wf_def sample_context_def sample_range_def low_bits_wf)
  have one: "v = 1" if "0 < v" "v \<le> 1" for v :: u32
    using that one_or_two [of v] order_trans [of v 1 2] by (auto simp: word_le_nat_alt)
  show "users_set sample_policy" by (auto simp: users_set_def sample_policy_sets dest!: one)
  show "0 < v \<Longrightarrow> v \<le> nprim (p_roles sample_policy) \<Longrightarrow> \<exists>r. val_idx (role_val_to_struct sample_policy) v = Inr r"
    using one_or_two [of v] by (auto simp: sample_policy_sets)
qed

lemma sample_valid_range: "valid_range sample_policy sample_context"
  using sample_valid_levels
  by (simp add: valid_range_def sample_policy_levels sample_context_def sample_policy_sets)
    (simp add: mls_range_contains_def sample_range_def sample_user_def dom_eval ebitmap_init_def)

theorem context_is_valid_iff_witness: "context_is_valid sample_policy sample_context = Inr True"
proof -
  have "ebitmap_get_bit (low_bits 1) 0" "ebitmap_get_bit (low_bits 2) 1"
    by (simp_all add: low_bits_def ebitmap_eval)
  then show ?thesis
    using context_is_valid_iff [of sample_policy sample_context] sample_policy_wf sample_valid_range
    by (auto simp: sample_policy_sets sample_context_def sample_role_def)
qed

definition plain_context :: context_struct where
  "plain_context = sample_context\<lparr>range := \<lparr>low = \<lparr>sens = 1, cat = ebitmap_init\<rparr>, high = \<lparr>sens = 2, cat = ebitmap_init\<rparr>\<rparr>\<rparr>"

lemma plain_context_text: "mls_sid_to_context sample_policy plain_context out = Inr (out @ '':s0-s1'')"
proof -
  have "ebitmap_for_each_bit ebitmap_init = Inr []"
    by (simp add: ebitmap_for_each_bit_wf) (simp add: ebitmap_init_def)
  then show ?thesis
    by (simp add: mls_sid_to_context_def level_text_def plain_context_def mls_level_eq_def)
      (simp add: sample_mls_def val_idx_def idx_def)
qed

lemma plain_context_named: "context_named sample_policy plain_context"
proof -
  have "level_names_lead_back sample_policy (low (range plain_context))"
    "level_names_lead_back sample_policy (high (range plain_context))"
    unfolding level_names_lead_back_def sample_policy_levels
    using sample_sens by (simp_all add: level_wf_def plain_context_def)
  then show ?thesis
    by (simp add: context_named_def)
      (simp add: sample_policy_def plain_context_def sample_context_def Let_def one_slot_search val_idx_def idx_def no_colon_def
        sample_user_def sample_role_def sample_type_def TYPE_ATTRIB_def)
qed

lemma plain_context_valid: "context_is_valid sample_policy plain_context = Inr True"
proof -
  have "valid_level sample_policy (low (range plain_context))" "valid_level sample_policy (high (range plain_context))"
    unfolding sample_policy_levels
    using sample_valid_levels by (auto simp: valid_level_def plain_context_def sample_range_def split: option.splits)
  then have "valid_range sample_policy plain_context"
    by (simp add: valid_range_def plain_context_def sample_context_def sample_policy_sets)
      (simp add: mls_range_contains_def sample_user_def dom_eval ebitmap_init_def)
  moreover have "context_wf plain_context"
    by (simp add: context_wf_def range_wf_def level_wf_def plain_context_def)
  ultimately have "mls_context_isvalid sample_policy plain_context = Inr True"
    using mls_context_isvalid_iff [of sample_policy plain_context] sample_policy_wf by simp
  moreover have "ebitmap_get_bit (low_bits 1) 0" "ebitmap_get_bit (low_bits 2) 1"
    by (simp_all add: low_bits_def ebitmap_eval)
  moreover have "user plain_context = 1" "role plain_context = 2" "type plain_context = 1"
    by (simp_all add: plain_context_def sample_context_def)
  ultimately show ?thesis
    by (simp add: context_is_valid_def sample_policy_sets sample_role_def OBJECT_R_VAL_def)
qed

lemma plain_seamless: "range_seamless plain_context"
  by (simp add: range_seamless_def plain_context_def ebitmap_init_def)

theorem context_string_roundtrip_witness:
  "context_from_string no_oom sample_policy ''u:r:t:s0-s1'' = Inr plain_context"
proof -
  have s: "context_to_string no_oom sample_policy plain_context = Inr (''u:r:t:s0-s1'', 12)"
    by (simp add: context_to_string_def context_len_text plain_context_text)
      (simp add: sample_policy_def plain_context_def sample_context_def Let_def val_idx_def idx_def)
  have "\<exists>s. context_to_string no_oom sample_policy plain_context = Inr (s, length s + 1) \<and>
      context_from_string no_oom sample_policy s = Inr plain_context"
    using plain_context_named plain_context_valid s
    by (intro context_string_roundtrip) (auto simp: plain_context_text plain_seamless)
  then show ?thesis using s by auto
qed

end
