(* ===== verification/Services_Laws.thy ===== *)
theory Services_Laws
  imports Services Constraint_Laws Context_Laws
begin

text \<open>
  What the security server decides: the access vector is computed from the rules for the types and
  their attributes, the constraints of the class and the allowed changes of the role.
\<close>

section \<open>Rules\<close>

definition te_rules :: "avtab \<Rightarrow> avtab_key \<Rightarrow> u16 \<Rightarrow> avtab_node set" where
  "te_rules h key k = {n \<in> set (av_nodes h). key_rank (nkey n) = key_rank key \<and> specified (nkey n) = k}"

text \<open>Permission \<open>b\<close> is named by a rule of the given kind, or by an enabled conditional one.\<close>

definition rule_names :: "policydb \<Rightarrow> avtab_key \<Rightarrow> u16 \<Rightarrow> nat \<Rightarrow> bool" where
  "rule_names p key k b \<longleftrightarrow>
     (\<exists>n \<in> te_rules (te_avtab p) key k \<union> deciding (te_cond_avtab p) key k. bit (avdata (ndatum n)) b)"

definition all_rules_name :: "policydb \<Rightarrow> avtab_key \<Rightarrow> u16 \<Rightarrow> nat \<Rightarrow> bool" where
  "all_rules_name p key k b \<longleftrightarrow>
     (\<forall>n \<in> te_rules (te_avtab p) key k \<union> deciding (te_cond_avtab p) key k. bit (avdata (ndatum n)) b)"

lemma fold_te_av_step:
  "bit (allowed (fold te_av_step ns avd)) b \<longleftrightarrow> bit (allowed avd) b \<or>
     (\<exists>n \<in> set ns. specified (nkey n) = AVTAB_ALLOWED \<and> bit (avdata (ndatum n)) b)"
  "bit (auditallow (fold te_av_step ns avd)) b \<longleftrightarrow> bit (auditallow avd) b \<or>
     (\<exists>n \<in> set ns. specified (nkey n) = AVTAB_AUDITALLOW \<and> bit (avdata (ndatum n)) b)"
  "bit (auditdeny (fold te_av_step ns avd)) b \<longleftrightarrow> bit (auditdeny avd) b \<and>
     (\<forall>n \<in> set ns. specified (nkey n) = AVTAB_AUDITDENY \<longrightarrow> bit (avdata (ndatum n)) b)"
  by (induction ns arbitrary: avd) (auto simp: te_av_step_def avtab_consts bit_or_iff bit_and_iff)

lemma te_pair_spec:
  assumes "avtab_wf (te_avtab p)" and "avtab_wf (te_cond_avtab p)" and key: "specified key = AVTAB_AV"
  shows "\<exists>avd'. te_pair p key avd = Inr avd' \<and>
    (\<forall>b. (bit (allowed avd') b \<longleftrightarrow> bit (allowed avd) b \<or> rule_names p key AVTAB_ALLOWED b) \<and>
         (bit (auditallow avd') b \<longleftrightarrow> bit (auditallow avd) b \<or> rule_names p key AVTAB_AUDITALLOW b) \<and>
         (bit (auditdeny avd') b \<longleftrightarrow> bit (auditdeny avd) b \<and> all_rules_name p key AVTAB_AUDITDENY b))"
proof -
  let ?ns = "node_iter (ucast (specified key)) (scan_loop key (spec_of key) (av_chain (te_avtab p) key))"
  have "{n \<in> set ?ns. specified (nkey n) = k} = te_rules (te_avtab p) key k"
    if "k \<in> {AVTAB_ALLOWED, AVTAB_AUDITALLOW, AVTAB_AUDITDENY}" for k
    using that key unfolding node_iter_set [OF assms(1)] te_rules_def by (auto simp: spec_of_def avtab_consts)
  then have rules: "n \<in> set ?ns \<and> specified (nkey n) = k \<longleftrightarrow> n \<in> te_rules (te_avtab p) key k"
    if "k \<in> {AVTAB_ALLOWED, AVTAB_AUDITALLOW, AVTAB_AUDITDENY}" for k n using that by blast
  obtain avd' where avd': "te_pair p key avd = Inr avd'"
    and bits: "\<forall>b. (bit (allowed avd') b \<longleftrightarrow> bit (allowed (fold te_av_step ?ns avd)) b \<or>
            (\<exists>n \<in> deciding (te_cond_avtab p) key AVTAB_ALLOWED. bit (avdata (ndatum n)) b)) \<and>
         (bit (auditallow avd') b \<longleftrightarrow> bit (auditallow (fold te_av_step ?ns avd)) b \<or>
            (\<exists>n \<in> deciding (te_cond_avtab p) key AVTAB_AUDITALLOW. bit (avdata (ndatum n)) b)) \<and>
         (bit (auditdeny avd') b \<longleftrightarrow> bit (auditdeny (fold te_av_step ?ns avd)) b \<and>
            (\<forall>n \<in> deciding (te_cond_avtab p) key AVTAB_AUDITDENY. bit (avdata (ndatum n)) b))"
    using cond_compute_av_adds [OF assms(2), of key "fold te_av_step ?ns avd"]
    by (auto simp: te_pair_def search_node_chain [OF assms(1)])
  have "(\<exists>n \<in> set ?ns. specified (nkey n) = AVTAB_ALLOWED \<and> bit (avdata (ndatum n)) b) \<longleftrightarrow>
      (\<exists>n \<in> te_rules (te_avtab p) key AVTAB_ALLOWED. bit (avdata (ndatum n)) b)"
    "(\<exists>n \<in> set ?ns. specified (nkey n) = AVTAB_AUDITALLOW \<and> bit (avdata (ndatum n)) b) \<longleftrightarrow>
      (\<exists>n \<in> te_rules (te_avtab p) key AVTAB_AUDITALLOW. bit (avdata (ndatum n)) b)"
    "(\<forall>n \<in> set ?ns. specified (nkey n) = AVTAB_AUDITDENY \<longrightarrow> bit (avdata (ndatum n)) b) \<longleftrightarrow>
      (\<forall>n \<in> te_rules (te_avtab p) key AVTAB_AUDITDENY. bit (avdata (ndatum n)) b)" for b
    using rules [of AVTAB_ALLOWED] rules [of AVTAB_AUDITALLOW] rules [of AVTAB_AUDITDENY] by blast+
  with avd' bits show ?thesis
    unfolding fold_te_av_step rule_names_def all_rules_name_def by (simp add: bex_Un ball_Un)
qed

section \<open>Types and attributes\<close>

text \<open>The pairs of types and attributes of two types.\<close>

definition attr_bits :: "policydb \<Rightarrow> u32 \<Rightarrow> u32 set" where
  "attr_bits p ty = {i. unat i \<in> ebits (type_attr_map p ! unat (ty - 1))}"

definition te_keys :: "policydb \<Rightarrow> context_struct \<Rightarrow> context_struct \<Rightarrow> u16 \<Rightarrow> avtab_key set" where
  "te_keys p scon tcon tclass = {te_key i j tclass | i j. i \<in> attr_bits p (type scon) \<and> j \<in> attr_bits p (type tcon)}"

lemma for_each_nested:
  "for_each (\<lambda>i. for_each (g i) js) is s = for_each (\<lambda>(i, j). g i j) (List.product is js) s"
proof (induction "is" arbitrary: s)
  case (Cons i "is")
  have "for_each (\<lambda>(i, j). g i j) (map (Pair i) js) s = for_each (g i) js s" for s
    by (induction js arbitrary: s) (auto split: sum.split)
  then show ?case using Cons.IH by (auto simp: for_each_append rbind_def split: sum.splits)
qed simp

lemma te_pairs_spec:
  assumes wf: "avtab_wf (te_avtab p)" "avtab_wf (te_cond_avtab p)"
  shows "\<exists>avd'. for_each (\<lambda>(i, j). te_pair p (te_key i j tclass)) xs avd = Inr avd' \<and>
    (\<forall>b. (bit (allowed avd') b \<longleftrightarrow> bit (allowed avd) b \<or> (\<exists>(i, j) \<in> set xs. rule_names p (te_key i j tclass) AVTAB_ALLOWED b)) \<and>
         (bit (auditallow avd') b \<longleftrightarrow> bit (auditallow avd) b \<or> (\<exists>(i, j) \<in> set xs. rule_names p (te_key i j tclass) AVTAB_AUDITALLOW b)) \<and>
         (bit (auditdeny avd') b \<longleftrightarrow> bit (auditdeny avd) b \<and> (\<forall>(i, j) \<in> set xs. all_rules_name p (te_key i j tclass) AVTAB_AUDITDENY b)))"
proof (induction xs arbitrary: avd)
  case (Cons x xs)
  obtain i j where x: "x = (i, j)" by (cases x)
  obtain avd1 where 1: "te_pair p (te_key i j tclass) avd = Inr avd1"
    "\<forall>b. (bit (allowed avd1) b \<longleftrightarrow> bit (allowed avd) b \<or> rule_names p (te_key i j tclass) AVTAB_ALLOWED b) \<and>
         (bit (auditallow avd1) b \<longleftrightarrow> bit (auditallow avd) b \<or> rule_names p (te_key i j tclass) AVTAB_AUDITALLOW b) \<and>
         (bit (auditdeny avd1) b \<longleftrightarrow> bit (auditdeny avd) b \<and> all_rules_name p (te_key i j tclass) AVTAB_AUDITDENY b)"
    using te_pair_spec [OF wf, of "te_key i j tclass" avd] by (auto simp: te_key_def)
  show ?case using Cons.IH [of avd1] 1 x by auto
qed simp

lemma te_decide_spec:
  assumes wf: "avtab_wf (te_avtab p)" "avtab_wf (te_cond_avtab p)"
    and attrs: "ebitmap_wf (type_attr_map p ! unat (type scon - 1))" "ebitmap_wf (type_attr_map p ! unat (type tcon - 1))"
  shows "\<exists>avd'. te_decide p (type_attr_map p ! unat (type scon - 1)) (type_attr_map p ! unat (type tcon - 1)) tclass avd = Inr avd' \<and>
    (\<forall>b. (bit (allowed avd') b \<longleftrightarrow> bit (allowed avd) b \<or> (\<exists>key \<in> te_keys p scon tcon tclass. rule_names p key AVTAB_ALLOWED b)) \<and>
         (bit (auditallow avd') b \<longleftrightarrow> bit (auditallow avd) b \<or> (\<exists>key \<in> te_keys p scon tcon tclass. rule_names p key AVTAB_AUDITALLOW b)) \<and>
         (bit (auditdeny avd') b \<longleftrightarrow> bit (auditdeny avd) b \<and> (\<forall>key \<in> te_keys p scon tcon tclass. all_rules_name p key AVTAB_AUDITDENY b)))"
proof -
  obtain si where i: "ebitmap_positive_bits (type_attr_map p ! unat (type scon - 1)) = Inr si"
    "unat ` set si = ebits (type_attr_map p ! unat (type scon - 1))" by (rule ebitmap_positive_bits_spec [OF attrs(1)])
  obtain js where j: "ebitmap_positive_bits (type_attr_map p ! unat (type tcon - 1)) = Inr js"
    "unat ` set js = ebits (type_attr_map p ! unat (type tcon - 1))" by (rule ebitmap_positive_bits_spec [OF attrs(2)])
  have whole: "set xs = {x. unat x \<in> S}" if "unat ` set xs = S" for xs :: "u32 list" and S
    using that by (auto simp flip: word_unat_eq_iff)
  have "set si = attr_bits p (type scon)" "set js = attr_bits p (type tcon)"
    unfolding attr_bits_def using whole i(2) j(2) by blast+
  then have keys: "(\<exists>key \<in> te_keys p scon tcon tclass. P key) \<longleftrightarrow> (\<exists>x \<in> set si. \<exists>y \<in> set js. P (te_key x y tclass))"
    "(\<forall>key \<in> te_keys p scon tcon tclass. P key) \<longleftrightarrow> (\<forall>x \<in> set si. \<forall>y \<in> set js. P (te_key x y tclass))" for P
    unfolding te_keys_def by blast+
  have "te_decide p (type_attr_map p ! unat (type scon - 1)) (type_attr_map p ! unat (type tcon - 1)) tclass avd =
      for_each (\<lambda>(i, j). te_pair p (te_key i j tclass)) (List.product si js) avd"
    by (simp add: te_decide_def i(1) j(1) for_each_nested)
  then show ?thesis
    using te_pairs_spec [OF wf, of tclass "List.product si js" avd] by (simp add: keys)
qed

section \<open>Constraints and roles\<close>

text \<open>The constraints of a class are well-formed expressions that fit on the stack.\<close>

definition constraint_ok :: "policydb \<Rightarrow> context_struct \<Rightarrow> context_struct \<Rightarrow> constraint_node \<Rightarrow> bool" where
  "constraint_ok p scon tcon c \<longleftrightarrow>
     (\<exists>e. cn_expr c = postfix e \<and> cexpr_ok p scon tcon None e \<and> need e \<le> CEXPR_MAXDEPTH)"

definition constraint_true :: "policydb \<Rightarrow> context_struct \<Rightarrow> context_struct \<Rightarrow> constraint_node \<Rightarrow> bool" where
  "constraint_true p scon tcon c \<longleftrightarrow>
     (\<exists>e. cn_expr c = postfix e \<and> cexpr_ok p scon tcon None e \<and> constraint_meaning p scon tcon None e)"

lemma constraint_true_eval:
  assumes "class_known p tclass" and "constraint_ok p scon tcon c"
  shows "constraint_expr_eval_reason no_oom p scon tcon None tclass c = Inr (constraint_true p scon tcon c)"
proof -
  from assms(2) obtain e where e: "cn_expr c = postfix e" "cexpr_ok p scon tcon None e" "need e \<le> CEXPR_MAXDEPTH"
    by (auto simp: constraint_ok_def)
  have ev: "constraint_expr_eval_reason no_oom p scon tcon None tclass c = Inr (constraint_meaning p scon tcon None e)"
    using constraint_eval [OF assms(1) e(2) e(1)] e(3) by simp
  have "constraint_meaning p scon tcon None e' = constraint_meaning p scon tcon None e"
    if "cn_expr c = postfix e'" "cexpr_ok p scon tcon None e'" for e'
    using constraint_eval [OF assms(1) that(2) that(1)] ev by (simp split: if_splits)
  then have "constraint_true p scon tcon c = constraint_meaning p scon tcon None e"
    unfolding constraint_true_def using e by blast
  with ev show ?thesis by simp
qed

lemma constrain_spec:
  assumes "class_known p tclass" and "constraint_ok p scon tcon c"
  shows "\<exists>al'. constrain no_oom p scon tcon tclass c al = Inr al' \<and>
    (\<forall>b. bit al' b \<longleftrightarrow> bit al b \<and> (bit (permissions c) b \<longrightarrow> constraint_true p scon tcon c))"
proof (cases "permissions c AND al = 0")
  case True
  have "\<not> (bit (permissions c) b \<and> bit al b)" for b
    using arg_cong [OF True, of "\<lambda>w. bit w b"] by (simp add: bit_and_iff)
  with True show ?thesis by (auto simp: constrain_def)
next
  case False
  have "bit (al AND NOT (permissions c)) b \<longleftrightarrow> bit al b \<and> \<not> bit (permissions c) b" for b
    using bit_imp_le_length [of al b] by (auto simp: bit_and_iff bit_not_iff)
  with False show ?thesis
    by (auto simp: constrain_def constraint_true_eval [OF assms] constraint_holds_def)
qed

lemma constrain_all_spec:
  assumes "class_known p tclass" and "\<forall>c \<in> set cs. constraint_ok p scon tcon c"
  shows "\<exists>al'. for_each (\<lambda>(i, c). constrain no_oom p scon tcon tclass c) (enumerate k cs) al = Inr al' \<and>
    (\<forall>b. bit al' b \<longleftrightarrow> bit al b \<and> (\<forall>c \<in> set cs. bit (permissions c) b \<longrightarrow> constraint_true p scon tcon c))"
  using assms(2)
proof (induction cs arbitrary: k al)
  case (Cons c cs)
  obtain al1 where 1: "constrain no_oom p scon tcon tclass c al = Inr al1"
    "\<forall>b. bit al1 b \<longleftrightarrow> bit al b \<and> (bit (permissions c) b \<longrightarrow> constraint_true p scon tcon c)"
    using constrain_spec [OF assms(1), of scon tcon c al] Cons.prems by auto
  then show ?case using Cons.IH [of "Suc k" al1] Cons.prems by auto
qed simp

text \<open>The change of the role that a transition would make is not allowed.\<close>

definition role_denied :: "policydb \<Rightarrow> context_struct \<Rightarrow> context_struct \<Rightarrow> u16 \<Rightarrow> bool" where
  "role_denied p scon tcon tclass \<longleftrightarrow> tclass = SECCLASS_PROCESS \<and> role scon \<noteq> role tcon \<and>
     \<not> (\<exists>ra \<in> set (p_role_allow p). ra_role ra = role scon \<and> ra_new_role ra = role tcon)"

lemma transition_bits [simp]:
  "bit PROCESS__TRANSITION b \<longleftrightarrow> b = 1" "bit PROCESS__DYNTRANSITION b \<longleftrightarrow> b = 23"
proof -
  have e: "PROCESS__TRANSITION = 2 ^ 1" "PROCESS__DYNTRANSITION = 2 ^ 23"
    by (simp_all add: PROCESS__TRANSITION_def PROCESS__DYNTRANSITION_def)
  show "bit PROCESS__TRANSITION b \<longleftrightarrow> b = 1" unfolding e(1) bit_exp_iff by auto
  show "bit PROCESS__DYNTRANSITION b \<longleftrightarrow> b = 23" unfolding e(2) bit_exp_iff by auto
qed

lemma role_check_bits:
  "bit (role_check p scon tcon tclass al) b \<longleftrightarrow> bit al b \<and> (role_denied p scon tcon tclass \<longrightarrow> b \<noteq> 1 \<and> b \<noteq> 23)"
proof -
  have changed: "role_change_allowed p (role scon) (role tcon) \<longleftrightarrow>
      (\<exists>ra \<in> set (p_role_allow p). ra_role ra = role scon \<and> ra_new_role ra = role tcon)"
    by (simp add: role_change_allowed_def list_ex_iff eq_commute)
  have cut: "bit (al AND NOT (PROCESS__TRANSITION OR PROCESS__DYNTRANSITION)) b \<longleftrightarrow> bit al b \<and> b \<noteq> 1 \<and> b \<noteq> 23"
    using bit_imp_le_length [of al b] by (auto simp: bit_and_iff bit_not_iff bit_or_iff)
  have "\<not> bit al 1 \<and> \<not> bit al 23" if "al AND (PROCESS__TRANSITION OR PROCESS__DYNTRANSITION) = 0"
    using arg_cong [OF that, of "\<lambda>w. bit w 1"] arg_cong [OF that, of "\<lambda>w. bit w 23"]
    by (simp add: bit_and_iff bit_or_iff)
  then show ?thesis
    unfolding role_check_def role_denied_def changed using cut by auto
qed

lemma sub_bits: "x AND NOT al = 0 \<longleftrightarrow> (\<forall>b. bit x b \<longrightarrow> bit al b)" for x al :: u32
proof
  assume l: "x AND NOT al = 0"
  show "\<forall>b. bit x b \<longrightarrow> bit al b"
    using arg_cong [OF l, of "\<lambda>w. bit w _"] bit_imp_le_length [of x] by (auto simp: bit_and_iff bit_not_iff)
next
  assume "\<forall>b. bit x b \<longrightarrow> bit al b"
  then show "x AND NOT al = 0" by (intro bit_eqI) (auto simp: bit_and_iff bit_not_iff)
qed

text \<open>The reasons: which of three shrinking vectors lacks a requested permission.\<close>

lemma note_reasons:
  assumes "\<forall>b. bit a2 b \<longrightarrow> bit a1 b" and "\<forall>b. bit a3 b \<longrightarrow> bit a2 b" and "f1 \<noteq> 0" and "f2 \<noteq> 0" and "f3 \<noteq> 0"
  shows "snd (note_reason f3 a3 (note_reason f2 a2 (note_reason f1 a1 (req, 0)))) = 0 \<longleftrightarrow> (\<forall>b. bit req b \<longrightarrow> bit a3 b)"
proof -
  have S: "snd (note_reason f a rr) = 0 \<longleftrightarrow> snd rr = 0 \<and> fst rr AND NOT a = 0" if "f \<noteq> 0" for f a rr
    using that by (auto simp: note_reason_def or_eq_0_iff split: prod.splits)
  have F: "fst (note_reason f a rr) = fst rr" if "fst rr AND NOT a = 0" for f a rr
    using that by (cases rr) (simp add: note_reason_def)
  have "snd (note_reason f3 a3 (note_reason f2 a2 (note_reason f1 a1 (req, 0)))) = 0 \<longleftrightarrow>
      req AND NOT a1 = 0 \<and> req AND NOT a2 = 0 \<and> req AND NOT a3 = 0"
    using S [OF assms(5), of a3 "note_reason f2 a2 (note_reason f1 a1 (req, 0))"]
      S [OF assms(4), of a2 "note_reason f1 a1 (req, 0)"] S [OF assms(3), of a1 "(req, 0)"]
      F [of "(req, 0)" a1 f1] F [of "note_reason f1 a1 (req, 0)" a2 f2] by auto
  then show ?thesis unfolding sub_bits using assms(1,2) by blast
qed

section \<open>Properties\<close>

text \<open>
  What an access decision needs: well-formed rule tables, sets of attributes for both types, and a
  class of the policy whose constraints can be evaluated for the contexts.
\<close>

definition decidable_access :: "policydb \<Rightarrow> context_struct \<Rightarrow> context_struct \<Rightarrow> u16 \<Rightarrow> class_datum \<Rightarrow> bool" where
  "decidable_access p scon tcon tclass cl \<longleftrightarrow>
     avtab_wf (te_avtab p) \<and> avtab_wf (te_cond_avtab p) \<and> class_known p tclass \<and> ucast tclass \<le> nprim (p_classes p) \<and>
     val_idx (class_val_to_struct p) (ucast tclass) = Inr cl \<and> (\<forall>c \<in> set (constraints cl). constraint_ok p scon tcon c) \<and>
     (\<forall>c \<in> {scon, tcon}. unat (type c - 1) < length (type_attr_map p) \<and> ebitmap_wf (type_attr_map p ! unat (type c - 1)))"

lemma unat_ucast_pred: "tclass \<noteq> 0 \<Longrightarrow> unat ((ucast tclass :: u32) - 1) = unat tclass - 1" for tclass :: u16
proof -
  assume "tclass \<noteq> 0"
  moreover have "unat (ucast tclass :: u32) = unat tclass"
    using unat_less_2p16 [of tclass] by (simp add: unsigned_ucast_eq take_bit_nat_eq_self)
  ultimately show ?thesis by (metis unat_0 unat_minus_one word_unat_eq_iff)
qed

lemma access_decision:
  assumes ok: "decidable_access p scon tcon tclass cl"
  obtains avd reason where "context_struct_compute_av no_oom p scon tcon tclass req = Inr (avd, reason)"
    "\<And>b. bit (allowed avd) b \<longleftrightarrow>
       (\<exists>key \<in> te_keys p scon tcon tclass. rule_names p key AVTAB_ALLOWED b) \<and>
       (\<forall>c \<in> set (constraints cl). bit (permissions c) b \<longrightarrow> constraint_true p scon tcon c) \<and>
       (role_denied p scon tcon tclass \<longrightarrow> b \<noteq> 1 \<and> b \<noteq> 23)"
    "\<And>b. bit (auditallow avd) b \<longleftrightarrow> (\<exists>key \<in> te_keys p scon tcon tclass. rule_names p key AVTAB_AUDITALLOW b)"
    "\<And>b. bit (auditdeny avd) b \<longleftrightarrow> b < 32 \<and> (\<forall>key \<in> te_keys p scon tcon tclass. all_rules_name p key AVTAB_AUDITDENY b)"
    "reason = 0 \<longleftrightarrow> req AND NOT (allowed avd) = 0"
proof -
  let ?d = "\<lparr>allowed = 0, decided = 0xffffffff, auditallow = 0, auditdeny = 0xffffffff, seqno = latest_granting\<rparr>"
  have cl: "tclass \<noteq> 0" "\<not> ucast tclass > nprim (p_classes p)" "idx (class_val_to_struct p) (unat tclass - 1) = Inr (Some cl)"
    using ok unat_ucast_pred [of tclass]
    by (auto simp: decidable_access_def class_known_def val_idx_Inr idx_def not_less)
  obtain avd where avd: "te_decide p (type_attr_map p ! unat (type scon - 1)) (type_attr_map p ! unat (type tcon - 1)) tclass ?d = Inr avd"
    and te: "\<forall>b. (bit (allowed avd) b \<longleftrightarrow> bit (allowed ?d) b \<or> (\<exists>key \<in> te_keys p scon tcon tclass. rule_names p key AVTAB_ALLOWED b)) \<and>
         (bit (auditallow avd) b \<longleftrightarrow> bit (auditallow ?d) b \<or> (\<exists>key \<in> te_keys p scon tcon tclass. rule_names p key AVTAB_AUDITALLOW b)) \<and>
         (bit (auditdeny avd) b \<longleftrightarrow> bit (auditdeny ?d) b \<and> (\<forall>key \<in> te_keys p scon tcon tclass. all_rules_name p key AVTAB_AUDITDENY b))"
    using te_decide_spec [of p scon tcon tclass ?d] ok unfolding decidable_access_def by auto
  obtain al where al: "for_each (\<lambda>(i, c). constrain no_oom p scon tcon tclass c) (enumerate 0 (constraints cl)) (allowed avd) = Inr al"
    "\<forall>b. bit al b \<longleftrightarrow> bit (allowed avd) b \<and> (\<forall>c \<in> set (constraints cl). bit (permissions c) b \<longrightarrow> constraint_true p scon tcon c)"
    using constrain_all_spec [of p tclass "constraints cl" scon tcon 0 "allowed avd"] ok unfolding decidable_access_def by auto
  let ?al = "role_check p scon tcon tclass al"
  let ?rr = "note_reason SEPOL_COMPUTEAV_RBAC ?al (note_reason SEPOL_COMPUTEAV_CONS al
      (note_reason SEPOL_COMPUTEAV_TE (allowed avd) (req, 0)))"
  have "context_struct_compute_av no_oom p scon tcon tclass req = Inr (avd\<lparr>allowed := ?al\<rparr>, snd ?rr)"
    using ok cl avd al(1) by (simp add: context_struct_compute_av_def decidable_access_def deref_def Let_def)
  moreover have "snd ?rr = 0 \<longleftrightarrow> req AND NOT ?al = 0"
    unfolding sub_bits using al(2) role_check_bits [of p scon tcon tclass al]
    by (intro note_reasons) (simp_all add: SEPOL_COMPUTEAV_TE_def SEPOL_COMPUTEAV_CONS_def SEPOL_COMPUTEAV_RBAC_def)
  moreover have "bit (auditdeny ?d) b \<longleftrightarrow> b < 32" for b
  proof -
    have "(0xffffffff :: u32) = - 1" "bit (- 1 :: u32) b \<longleftrightarrow> b < 32" by simp_all
    then show ?thesis by (simp only: av_decision.select_convs)
  qed
  ultimately show ?thesis
    using that [of "avd\<lparr>allowed := ?al\<rparr>" "snd ?rr"] te al(2) by (simp add: role_check_bits)
qed

text \<open>
  C1: An access decision is what the policy says.  A permission is allowed if a rule, or an enabled
  conditional rule, for the types or attributes of both contexts and the class allows it, every
  constraint of the class on it is true of the contexts, and it is not a transition to a role that
  is not allowed.  Granting is audited if a rule says so, and denial unless a rule leaves it out.  The
  reason is zero just when everything requested is allowed.
\<close>

theorem access_decision_spec:
  assumes "decidable_access p scon tcon tclass cl"
  shows "\<exists>avd reason. context_struct_compute_av no_oom p scon tcon tclass req = Inr (avd, reason) \<and>
    (\<forall>b. (bit (allowed avd) b \<longleftrightarrow>
           (\<exists>key \<in> te_keys p scon tcon tclass. rule_names p key AVTAB_ALLOWED b) \<and>
           (\<forall>c \<in> set (constraints cl). bit (permissions c) b \<longrightarrow> constraint_true p scon tcon c) \<and>
           (role_denied p scon tcon tclass \<longrightarrow> b \<noteq> 1 \<and> b \<noteq> 23)) \<and>
         (bit (auditallow avd) b \<longleftrightarrow> (\<exists>key \<in> te_keys p scon tcon tclass. rule_names p key AVTAB_AUDITALLOW b)) \<and>
         (bit (auditdeny avd) b \<longleftrightarrow> b < 32 \<and> (\<forall>key \<in> te_keys p scon tcon tclass. all_rules_name p key AVTAB_AUDITDENY b))) \<and>
    (reason = 0 \<longleftrightarrow> req AND NOT (allowed avd) = 0)"
  by (rule access_decision [OF assms, of req]) blast

definition sample_access :: policydb where
  "sample_access = sample_classes\<lparr>te_avtab := te_cond_avtab sample_cond, te_cond_avtab := empty_avtab,
     type_attr_map := [low_bits 1], attr_type_map := [low_bits 1]\<rparr>"

definition typed :: "u32 \<Rightarrow> context_struct" where
  "typed u = context_init\<lparr>user := u, type := 1\<rparr>"

lemma sample_access_decidable: "decidable_access sample_access (typed 1) (typed 2) 1 sample_class"
proof -
  have "class_known sample_access 1" using sample_class_known
    by (simp add: class_known_def sample_access_def)
  moreover have "constraint_ok sample_access (typed 1) (typed 2) c" if "c \<in> set (constraints sample_class)" for c
    using that sample_constraint_ok(1) [of sample_access "typed 1" "typed 2" None] sample_constraint_ok(2) unfolding constraint_ok_def
    by (intro exI [of _ "Bin either (Leaf same_user) (Leaf dom_low)"]) (auto simp: sample_class_def CEXPR_MAXDEPTH_def)
  ultimately show ?thesis
    using sample_cond_wf empty_avtab_wf low_bits_wf [of 1]
    by (auto simp: decidable_access_def sample_access_def typed_def sample_classes_def val_idx_def zero_symtab_def)
qed

lemma sample_access_rules:
  "te_keys sample_access (typed 1) (typed 2) 1 = {te_key 0 0 1}"
  "rule_names sample_access (te_key 0 0 1) AVTAB_ALLOWED b \<longleftrightarrow> bit (5 :: u32) b"
proof -
  have "attr_bits sample_access 1 = {0}"
    by (auto simp: attr_bits_def sample_access_def low_bits_bits unat_eq_0)
  then show "te_keys sample_access (typed 1) (typed 2) 1 = {te_key 0 0 1}" by (auto simp: te_keys_def typed_def)
  have "te_rules (te_avtab sample_access) (te_key 0 0 1) AVTAB_ALLOWED = {sample_rule}"
    by (auto simp: te_rules_def sample_access_def av_nodes_def sample_cond_def key_rank_def te_key_def sample_rule_def
        sample_key_def)
  moreover have "deciding (te_cond_avtab sample_access) (te_key 0 0 1) AVTAB_ALLOWED = {}"
    by (simp add: deciding_def sample_access_def av_nodes_def empty_avtab_def)
  ultimately show "rule_names sample_access (te_key 0 0 1) AVTAB_ALLOWED b \<longleftrightarrow> bit (5 :: u32) b"
    by (simp add: rule_names_def sample_rule_def)
qed

theorem access_decision_spec_witness:
  "\<exists>avd. context_struct_compute_av no_oom sample_access (typed 1) (typed 2) 1 4 = Inr (avd, 0) \<and>
     bit (allowed avd) 2 \<and> \<not> bit (allowed avd) 1"
proof -
  obtain avd reason where avd: "context_struct_compute_av no_oom sample_access (typed 1) (typed 2) 1 4 = Inr (avd, reason)"
    "\<forall>b. bit (allowed avd) b \<longleftrightarrow> bit (5 :: u32) b \<and>
       (\<forall>c \<in> set (constraints sample_class). bit (permissions c) b \<longrightarrow> constraint_true sample_access (typed 1) (typed 2) c) \<and>
       (role_denied sample_access (typed 1) (typed 2) 1 \<longrightarrow> b \<noteq> 1 \<and> b \<noteq> 23)"
    "reason = 0 \<longleftrightarrow> 4 AND NOT (allowed avd) = 0"
    using access_decision_spec [OF sample_access_decidable, of 4] unfolding sample_access_rules(1) by (auto simp: sample_access_rules(2))
  have "bit (allowed avd) 2" "\<not> bit (allowed avd) 1"
    using avd(2) by (simp_all add: sample_class_def role_denied_def SECCLASS_PROCESS_def)
  moreover have "b = 2" if "bit (4 :: u32) b" for b
  proof -
    have "bit (2 ^ 2 :: u32) b" using that by simp
    then show ?thesis unfolding bit_exp_iff by simp
  qed
  ultimately show ?thesis using avd(1,3) unfolding sub_bits by blast
qed

end
