(* ===== verification/Policydb_Index.thy ===== *)
theory Policydb_Index
  imports Expand_Sets Conditional
begin

text \<open>
  The arrays of a policy database that lead from values to names and to the data of classes,
  roles, types and users, and the expanded sets of roles and users, \<^verbatim>\<open>src/policydb.c\<close>.

  The arrays of data hold pointers to the entries of the symbol tables; in the model they hold
  copies, and an update through the table is made in both places.  The entry that belongs to a
  name is the one the array of names has the name at.
\<close>

section \<open>Indexing\<close>

definition common_index :: "string \<Rightarrow> common_datum \<Rightarrow> policydb \<Rightarrow> policydb result" where
  "common_index key d p =
     (if common_value d = 0 \<or> common_value d > nprim (p_commons p) then Inl EINVAL
      else rbind (val_set (p_common_val_to_name p) (common_value d) key) (\<lambda>a. Inr (p\<lparr>p_common_val_to_name := a\<rparr>)))"

definition class_index :: "string \<Rightarrow> class_datum \<Rightarrow> policydb \<Rightarrow> policydb result" where
  "class_index key d p =
     (if class_value d = 0 \<or> class_value d > nprim (p_classes p) then Inl EINVAL
      else rbind (val_set (p_class_val_to_name p) (class_value d) key) (\<lambda>a.
        rbind (val_set (class_val_to_struct p) (class_value d) d) (\<lambda>b.
          Inr (p\<lparr>p_class_val_to_name := a, class_val_to_struct := b\<rparr>))))"

definition role_index :: "string \<Rightarrow> role_datum \<Rightarrow> policydb \<Rightarrow> policydb result" where
  "role_index key d p =
     (if role_value d = 0 \<or> role_value d > nprim (p_roles p) then Inl EINVAL
      else rbind (val_set (p_role_val_to_name p) (role_value d) key) (\<lambda>a.
        rbind (val_set (role_val_to_struct p) (role_value d) d) (\<lambda>b.
          Inr (p\<lparr>p_role_val_to_name := a, role_val_to_struct := b\<rparr>))))"

definition type_index :: "string \<Rightarrow> type_datum \<Rightarrow> policydb \<Rightarrow> policydb result" where
  "type_index key d p =
     (if primary d \<noteq> 0
      then if type_value d = 0 \<or> type_value d > nprim (p_types p) then Inl EINVAL
           else rbind (val_set (p_type_val_to_name p) (type_value d) key) (\<lambda>a.
             rbind (val_set (type_val_to_struct p) (type_value d) d) (\<lambda>b.
               Inr (p\<lparr>p_type_val_to_name := a, type_val_to_struct := b\<rparr>)))
      else Inr p)"

definition user_index :: "string \<Rightarrow> user_datum \<Rightarrow> policydb \<Rightarrow> policydb result" where
  "user_index key d p =
     (if user_value d = 0 \<or> user_value d > nprim (p_users p) then Inl EINVAL
      else rbind (val_set (p_user_val_to_name p) (user_value d) key) (\<lambda>a.
        rbind (val_set (user_val_to_struct p) (user_value d) d) (\<lambda>b.
          Inr (p\<lparr>p_user_val_to_name := a, user_val_to_struct := b\<rparr>))))"

definition sens_index :: "string \<Rightarrow> level_datum \<Rightarrow> policydb \<Rightarrow> policydb result" where
  "sens_index key d p =
     (if level_isalias d = 0
      then case level d of
             None \<Rightarrow> Inl UB
           | Some l \<Rightarrow>
               if sens l = 0 \<or> sens l > nprim (p_levels p) then Inl EINVAL
               else rbind (val_set (p_sens_val_to_name p) (sens l) key) (\<lambda>a. Inr (p\<lparr>p_sens_val_to_name := a\<rparr>))
      else Inr p)"

definition cat_index :: "string \<Rightarrow> cat_datum \<Rightarrow> policydb \<Rightarrow> policydb result" where
  "cat_index key d p =
     (if cat_isalias d = 0
      then if cat_value d = 0 \<or> cat_value d > nprim (p_cats p) then Inl EINVAL
           else rbind (val_set (p_cat_val_to_name p) (cat_value d) key) (\<lambda>a. Inr (p\<lparr>p_cat_val_to_name := a\<rparr>))
      else Inr p)"

text \<open>A new array for the values of a symbol table.\<close>

definition new_array :: "'d symtab \<Rightarrow> 'a option list" where
  "new_array s = replicate (unat (nprim s)) None"

definition policydb_index_classes :: "alloc \<Rightarrow> policydb \<Rightarrow> policydb result" where
  "policydb_index_classes m p =
     (if \<not> malloc (at_site 0 m) then Inl STATUS_ERR
      else rbind (or_status (hashtab_map (table (p_commons p)) common_index
          (p\<lparr>p_common_val_to_name := new_array (p_commons p)\<rparr>))) (\<lambda>p.
        if \<not> malloc (at_site 1 m) then Inl STATUS_ERR
        else if \<not> malloc (at_site 2 m) then Inl STATUS_ERR
        else or_status (hashtab_map (table (p_classes p)) class_index
          (p\<lparr>class_val_to_struct := new_array (p_classes p), p_class_val_to_name := new_array (p_classes p)\<rparr>))))"

definition policydb_index_bools :: "alloc \<Rightarrow> policydb \<Rightarrow> policydb result" where
  "policydb_index_bools m p =
     (case cond_init_bool_indexes (at_site 0 m) p of (p, rc) \<Rightarrow>
       if rc = - 1 then Inl STATUS_ERR
       else if \<not> malloc (at_site 1 m) then Inl STATUS_ERR
       else or_status (hashtab_map (table (p_bools p)) cond_index_bool
         (p\<lparr>p_bool_val_to_name := new_array (p_bools p)\<rparr>)))"

section \<open>Expanded sets\<close>

definition set_entry :: "string \<Rightarrow> 'd \<Rightarrow> 'd symtab \<Rightarrow> 'd symtab" where
  "set_entry key d s =
     s\<lparr>table := map_option (\<lambda>h. h\<lparr>htable := map (map (\<lambda>n. if fst n = key then (key, d) else n)) (htable h)\<rparr>) (table s)\<rparr>"

definition set_named :: "string option list \<Rightarrow> string \<Rightarrow> 'd \<Rightarrow> 'd option list \<Rightarrow> 'd option list" where
  "set_named ns key d arr =
     map (\<lambda>i. if i < length ns \<and> ns ! i = Some key then Some d else arr ! i) [0..<length arr]"

definition policydb_role_cache :: "alloc \<Rightarrow> string \<Rightarrow> role_datum \<Rightarrow> policydb \<Rightarrow> policydb result" where
  "policydb_role_cache m key d p =
     rbind (or_status (type_set_expand m (role_types d) p True)) (\<lambda>e.
       let d' = d\<lparr>role_cache := e\<rparr> in
       Inr (p\<lparr>p_roles := set_entry key d' (p_roles p),
              role_val_to_struct := set_named (p_role_val_to_name p) key d' (role_val_to_struct p)\<rparr>))"

definition POLICY_MOD :: u32 where "POLICY_MOD = 2"

definition policydb_user_cache :: "alloc \<Rightarrow> string \<Rightarrow> user_datum \<Rightarrow> policydb \<Rightarrow> policydb result" where
  "policydb_user_cache m key d p =
     rbind (or_status (role_set_expand (at_site 0 m) (user_roles d) p None None)) (\<lambda>(e, p).
       let d = d\<lparr>user_cache := e\<rparr> in
       rbind (if policy_type p \<noteq> POLICY_KERN \<and> policy_type p \<noteq> POLICY_MOD
              then rbind (or_status (mls_semantic_range_expand (at_site 1 m) (user_range d) p)) (\<lambda>r.
                rbind (or_status (mls_semantic_level_expand (at_site 2 m) (user_dfltlevel d) p)) (\<lambda>l.
                  Inr (d\<lparr>exp_range := r, exp_dfltlevel := l\<rparr>)))
              else Inr d) (\<lambda>d.
         Inr (p\<lparr>p_users := set_entry key d (p_users p),
                user_val_to_struct := set_named (p_user_val_to_name p) key d (user_val_to_struct p)\<rparr>)))"

text \<open>One symbol table of the loop: the array of names is made and filled if there are any.\<close>

definition index_table ::
  "alloc \<Rightarrow> 'd symtab \<Rightarrow> (string option list \<Rightarrow> policydb \<Rightarrow> policydb) \<Rightarrow>
   (string \<Rightarrow> 'd \<Rightarrow> policydb \<Rightarrow> policydb result) \<Rightarrow> policydb \<Rightarrow> policydb result"
where
  "index_table m s set_names index_f p =
     (let p = set_names [] p in
      if nprim s \<noteq> 0
      then if \<not> malloc m then Inl STATUS_ERR
           else or_status (hashtab_map (table s) index_f (set_names (new_array s) p))
      else Inr p)"

text \<open>The result of \<^verbatim>\<open>cond_init_bool_indexes\<close> is not looked at: without memory its array is null.\<close>

definition policydb_index_others :: "alloc \<Rightarrow> policydb \<Rightarrow> policydb result" where
  "policydb_index_others m p =
     (if \<not> malloc (at_site 0 m) then Inl STATUS_ERR
      else if \<not> malloc (at_site 1 m) then Inl STATUS_ERR
      else if \<not> malloc (at_site 2 m) then Inl STATUS_ERR
      else
        let p = p\<lparr>role_val_to_struct := new_array (p_roles p), user_val_to_struct := new_array (p_users p),
                  type_val_to_struct := new_array (p_types p)\<rparr>;
            p = fst (cond_init_bool_indexes (at_site 3 m) p) in
        rbind (index_table (at_site 4 m) (p_roles p) (\<lambda>a p. p\<lparr>p_role_val_to_name := a\<rparr>) role_index p) (\<lambda>p.
        rbind (index_table (at_site 5 m) (p_types p) (\<lambda>a p. p\<lparr>p_type_val_to_name := a\<rparr>) type_index p) (\<lambda>p.
        rbind (index_table (at_site 6 m) (p_users p) (\<lambda>a p. p\<lparr>p_user_val_to_name := a\<rparr>) user_index p) (\<lambda>p.
        rbind (index_table (at_site 7 m) (p_bools p) (\<lambda>a p. p\<lparr>p_bool_val_to_name := a\<rparr>) cond_index_bool p) (\<lambda>p.
        rbind (index_table (at_site 8 m) (p_levels p) (\<lambda>a p. p\<lparr>p_sens_val_to_name := a\<rparr>) sens_index p) (\<lambda>p.
        rbind (index_table (at_site 9 m) (p_cats p) (\<lambda>a p. p\<lparr>p_cat_val_to_name := a\<rparr>) cat_index p) (\<lambda>p.
        rbind (or_status (hashtab_map (table (p_roles p)) (policydb_role_cache (at_site 10 m)) p)) (\<lambda>p.
          or_status (hashtab_map (table (p_users p)) (policydb_user_cache (at_site 11 m)) p)))))))))"

end
