(* ===== verification/Policydb_Read.thy ===== *)
theory Policydb_Read
  imports Constraint Context Policydb_Index
begin

text \<open>
  Reading the symbols of a policy: permissions, classes and their constraints, roles, types, users,
  sensitivities and categories, \<^verbatim>\<open>src/policydb.c\<close>.  Messages are left out.  The functions return the
  rest of the file and the table with the new symbol.
\<close>

section \<open>Constants\<close>

definition POLICY_BASE :: u32 where "POLICY_BASE = 1"
definition POLICYDB_VERSION_VALIDATETRANS :: u32 where "POLICYDB_VERSION_VALIDATETRANS = 19"
definition POLICYDB_VERSION_MLS :: u32 where "POLICYDB_VERSION_MLS = 19"
definition POLICYDB_VERSION_BOUNDARY :: u32 where "POLICYDB_VERSION_BOUNDARY = 24"
definition POLICYDB_VERSION_NEW_OBJECT_DEFAULTS :: u32 where "POLICYDB_VERSION_NEW_OBJECT_DEFAULTS = 27"
definition POLICYDB_VERSION_DEFAULT_TYPE :: u32 where "POLICYDB_VERSION_DEFAULT_TYPE = 28"
definition MOD_POLICYDB_VERSION_VALIDATETRANS :: u32 where "MOD_POLICYDB_VERSION_VALIDATETRANS = 5"
definition MOD_POLICYDB_VERSION_MLS :: u32 where "MOD_POLICYDB_VERSION_MLS = 5"
definition MOD_POLICYDB_VERSION_MLS_USERS :: u32 where "MOD_POLICYDB_VERSION_MLS_USERS = 6"
definition MOD_POLICYDB_VERSION_PERMISSIVE :: u32 where "MOD_POLICYDB_VERSION_PERMISSIVE = 8"
definition MOD_POLICYDB_VERSION_BOUNDARY :: u32 where "MOD_POLICYDB_VERSION_BOUNDARY = 9"
definition MOD_POLICYDB_VERSION_BOUNDARY_ALIAS :: u32 where "MOD_POLICYDB_VERSION_BOUNDARY_ALIAS = 10"
definition MOD_POLICYDB_VERSION_ROLEATTRIB :: u32 where "MOD_POLICYDB_VERSION_ROLEATTRIB = 13"
definition MOD_POLICYDB_VERSION_NEW_OBJECT_DEFAULTS :: u32 where "MOD_POLICYDB_VERSION_NEW_OBJECT_DEFAULTS = 15"
definition MOD_POLICYDB_VERSION_DEFAULT_TYPE :: u32 where "MOD_POLICYDB_VERSION_DEFAULT_TYPE = 16"

definition PERM_SYMTAB_SIZE :: u32 where "PERM_SYMTAB_SIZE = 32"
definition OBJECT_R :: string where "OBJECT_R = ''object_r''"
definition TYPE_ALIAS :: u32 where "TYPE_ALIAS = 2"
definition TYPE_FLAGS_PERMISSIVE :: u32 where "TYPE_FLAGS_PERMISSIVE = 1"
definition TYPEDATUM_PROPERTY_PRIMARY :: u32 where "TYPEDATUM_PROPERTY_PRIMARY = 1"
definition TYPEDATUM_PROPERTY_ATTRIBUTE :: u32 where "TYPEDATUM_PROPERTY_ATTRIBUTE = 2"
definition TYPEDATUM_PROPERTY_ALIAS :: u32 where "TYPEDATUM_PROPERTY_ALIAS = 4"
definition TYPEDATUM_PROPERTY_PERMISSIVE :: u32 where "TYPEDATUM_PROPERTY_PERMISSIVE = 8"

definition policydb_has_boundary_feature :: "policydb \<Rightarrow> bool" where
  "policydb_has_boundary_feature p \<longleftrightarrow>
     policy_type p = POLICY_KERN \<and> policyvers p \<ge> POLICYDB_VERSION_BOUNDARY \<or>
     policy_type p \<noteq> POLICY_KERN \<and> policyvers p \<ge> MOD_POLICYDB_VERSION_BOUNDARY"

text \<open>A feature of kernel policies from one version on and of base policies from another.\<close>

definition kern_or_base :: "policydb \<Rightarrow> u32 \<Rightarrow> u32 \<Rightarrow> bool" where
  "kern_or_base p kv bv \<longleftrightarrow>
     policy_type p = POLICY_KERN \<and> policyvers p \<ge> kv \<or> policy_type p = POLICY_BASE \<and> policyvers p \<ge> bv"

text \<open>\<open>n\<close> words at once, and a name of \<open>n\<close> bytes whose buffer has \<open>n + 1\<close> bytes, the sum in 64 bits.\<close>

definition read_words :: "nat \<Rightarrow> policy_file \<Rightarrow> (policy_file \<times> u32 list) result" where
  "read_words n fp = rbind (or_status (next_entry fp (4 * n))) (\<lambda>(fp, b). Inr (fp, le_words 4 n b))"

definition read_name :: "alloc \<Rightarrow> policy_file \<Rightarrow> u32 \<Rightarrow> (policy_file \<times> string) result" where
  "read_name m fp n =
     (if \<not> malloc m then Inl STATUS_ERR
      else rbind (or_status (next_entry fp (unat n))) (\<lambda>(fp, bs). Inr (fp, cstring bs)))"

section \<open>MLS\<close>

text \<open>With no items the buffer still holds their number, zero.\<close>

definition mls_read_range_helper :: "alloc \<Rightarrow> policy_file \<Rightarrow> (policy_file \<times> mls_range) result" where
  "mls_read_range_helper m fp =
     rbind (read_words 1 fp) (\<lambda>(fp, buf).
       let items = buf ! 0 in
       if items > 2 then Inl EINVAL
       else rbind (read_words (unat items) fp) (\<lambda>(fp, buf).
         let s0 = (if items = 0 then 0 else buf ! 0); s1 = (if items > 1 then buf ! 1 else s0) in
         rbind (ebitmap_read (at_site 0 m) fp) (\<lambda>(fp, c0).
           rbind (if items > 1 then ebitmap_read (at_site 1 m) fp
                  else rbind (ebitmap_cpy (at_site 1 m) c0) (\<lambda>c. Inr (fp, c))) (\<lambda>(fp, c1).
             Inr (fp, \<lparr>low = \<lparr>sens = s0, cat = c0\<rparr>, high = \<lparr>sens = s1, cat = c1\<rparr>\<rparr>)))))"

text \<open>The categories end up in the reverse order of the file.\<close>

definition mls_read_semantic_level_helper :: "alloc \<Rightarrow> policy_file \<Rightarrow> (policy_file \<times> mls_semantic_level) result" where
  "mls_read_semantic_level_helper m fp =
     (case rbind (read_words 2 fp) (\<lambda>(fp, buf).
         rbind (for_each (\<lambda>i (fp, cs).
             if \<not> malloc (at_site (unat i) m) then Inl EINVAL
             else rbind (read_words 2 fp) (\<lambda>(fp, b). Inr (fp, \<lparr>slow = b ! 0, shigh = b ! 1\<rparr> # cs)))
           (upto32 (buf ! 1)) (fp, [])) (\<lambda>(fp, cs). Inr (fp, \<lparr>ssens = buf ! 0, scat = cs\<rparr>))) of
        Inl UB \<Rightarrow> Inl UB
      | Inl _ \<Rightarrow> Inl EINVAL
      | Inr r \<Rightarrow> Inr r)"

definition mls_read_semantic_range_helper :: "alloc \<Rightarrow> policy_file \<Rightarrow> (policy_file \<times> mls_semantic_range) result" where
  "mls_read_semantic_range_helper m fp =
     rbind (mls_read_semantic_level_helper (at_site 0 m) fp) (\<lambda>(fp, l).
       rbind (mls_read_semantic_level_helper (at_site 1 m) fp) (\<lambda>(fp, h). Inr (fp, \<lparr>srlow = l, srhigh = h\<rparr>)))"

text \<open>One bit of a set of categories: the first element of the list may be open, without a high end.\<close>

definition to_semantic_step ::
  "alloc \<Rightarrow> u32 \<times> bool \<Rightarrow> bool \<times> mls_semantic_cat list \<Rightarrow> (bool \<times> mls_semantic_cat list) result"
where
  "to_semantic_step m v s =
     (case (v, s) of ((i, b), (is_open, cs)) \<Rightarrow>
       if b
       then if is_open then Inr (is_open, cs)
            else if \<not> malloc (at_site (unat i) m) then Inl STATUS_ERR
            else Inr (True, \<lparr>slow = i + 1, shigh = 0\<rparr> # cs)
       else if \<not> is_open then Inr (is_open, cs)
       else case cs of [] \<Rightarrow> Inl UB | c # cs \<Rightarrow> Inr (False, c\<lparr>shigh := i\<rparr> # cs))"

definition mls_level_to_semantic :: "alloc \<Rightarrow> mls_level \<Rightarrow> mls_semantic_level result" where
  "mls_level_to_semantic m l =
     rbind (ebitmap_for_each_bit (cat l)) (\<lambda>vs.
       rbind (for_each (to_semantic_step m) vs (False, [])) (\<lambda>(is_open, cs).
         Inr \<lparr>ssens = sens l,
              scat = (if is_open then (case cs of [] \<Rightarrow> [] | c # cs \<Rightarrow> c\<lparr>shigh := after_loop vs\<rparr> # cs) else cs)\<rparr>))"

definition mls_range_to_semantic :: "alloc \<Rightarrow> mls_range \<Rightarrow> mls_semantic_range result" where
  "mls_range_to_semantic m r =
     rbind (mls_level_to_semantic (at_site 0 m) (low r)) (\<lambda>l.
       rbind (mls_level_to_semantic (at_site 1 m) (high r)) (\<lambda>h. Inr \<lparr>srlow = l, srhigh = h\<rparr>))"

definition mls_read_level :: "alloc \<Rightarrow> policy_file \<Rightarrow> (policy_file \<times> mls_level) result" where
  "mls_read_level m fp =
     (case rbind (read_words 1 fp) (\<lambda>(fp, buf).
         rbind (ebitmap_read m fp) (\<lambda>(fp, c). Inr (fp, \<lparr>sens = buf ! 0, cat = c\<rparr>))) of
        Inl UB \<Rightarrow> Inl UB
      | Inl _ \<Rightarrow> Inl EINVAL
      | Inr r \<Rightarrow> Inr r)"

text \<open>A context; without a range in the file it keeps the one it has.\<close>

definition context_read_and_validate ::
  "alloc \<Rightarrow> policydb \<Rightarrow> context_struct \<Rightarrow> policy_file \<Rightarrow> (policy_file \<times> context_struct) result"
where
  "context_read_and_validate m p c fp =
     rbind (read_words 3 fp) (\<lambda>(fp, buf).
       let c = c\<lparr>user := buf ! 0, role := buf ! 1, type := buf ! 2\<rparr> in
       rbind (if kern_or_base p POLICYDB_VERSION_MLS MOD_POLICYDB_VERSION_MLS
              then rbind (or_status (mls_read_range_helper m fp)) (\<lambda>(fp, r). Inr (fp, c\<lparr>range := r\<rparr>))
              else Inr (fp, c)) (\<lambda>(fp, c).
         rbind (policydb_context_isvalid p c) (\<lambda>ok.
           if ok then Inr (fp, c) else Inl STATUS_ERR)))"

section \<open>Permissions and classes\<close>

definition perm_read ::
  "alloc \<Rightarrow> (string, perm_datum) hashtab \<Rightarrow> policy_file \<Rightarrow> (policy_file \<times> (string, perm_datum) hashtab) result"
where
  "perm_read m h fp =
     (if \<not> malloc (at_site 0 m) then Inl STATUS_ERR
      else rbind (read_words 2 fp) (\<lambda>(fp, buf).
        rbind (read_name (at_site 1 m) fp (buf ! 0)) (\<lambda>(fp, key).
          rbind (or_status (hashtab_insert (at_site 2 m) h key \<lparr>perm_value = buf ! 1\<rparr>)) (\<lambda>h. Inr (fp, h)))))"

definition perms_read :: "alloc \<Rightarrow> u32 \<Rightarrow> perm_datum symtab \<Rightarrow> policy_file \<Rightarrow> (policy_file \<times> perm_datum symtab) result" where
  "perms_read m cnt s fp =
     rbind (for_each (\<lambda>i (fp, h). perm_read (at_site (unat i) m) h fp) (upto32 cnt) (fp, table s)) (\<lambda>(fp, h).
       Inr (fp, s\<lparr>table := h\<rparr>))"

definition common_read ::
  "alloc \<Rightarrow> (string, common_datum) hashtab \<Rightarrow> policy_file \<Rightarrow> (policy_file \<times> (string, common_datum) hashtab) result"
where
  "common_read m h fp =
     (if \<not> malloc (at_site 0 m) then Inl STATUS_ERR
      else rbind (read_words 4 fp) (\<lambda>(fp, buf).
        rbind (or_status (symtab_init (at_site 1 m) PERM_SYMTAB_SIZE)) (\<lambda>s.
          rbind (read_name (at_site 2 m) fp (buf ! 0)) (\<lambda>(fp, key).
            rbind (perms_read (at_site 3 m) (buf ! 3) (s\<lparr>nprim := buf ! 2\<rparr>) fp) (\<lambda>(fp, s).
              rbind (or_status (hashtab_insert (at_site 4 m) h key
                  \<lparr>common_value = buf ! 1, common_permissions = s\<rparr>)) (\<lambda>h. Inr (fp, h)))))))"

text \<open>
  One expression of a constraint, with the depth the evaluation has reached, which starts at \<open>- 1\<close>.
\<close>

definition read_cexpr ::
  "alloc \<Rightarrow> policydb \<Rightarrow> bool \<Rightarrow> policy_file \<Rightarrow> int \<Rightarrow> (policy_file \<times> int \<times> constraint_expr) result"
where
  "read_cexpr m p allowxtarget fp depth =
     (if \<not> malloc (at_site 0 m) then Inl STATUS_ERR
      else rbind (constraint_expr_init (at_site 1 m)) (\<lambda>e.
        rbind (read_words 3 fp) (\<lambda>(fp, buf).
          let e = e\<lparr>expr_type := buf ! 0, attr := buf ! 1, cop := buf ! 2\<rparr>; ty = buf ! 0 in
          if ty = CEXPR_NOT then if depth < 0 then Inl STATUS_ERR else Inr (fp, depth, e)
          else if ty = CEXPR_AND \<or> ty = CEXPR_OR then if depth < 1 then Inl STATUS_ERR else Inr (fp, depth - 1, e)
          else if ty = CEXPR_ATTR
          then if depth = int CEXPR_MAXDEPTH - 1 then Inl STATUS_ERR else Inr (fp, depth + 1, e)
          else if ty = CEXPR_NAMES
          then if \<not> allowxtarget \<and> attr e AND CEXPR_XTARGET \<noteq> 0 then Inl STATUS_ERR
               else if depth = int CEXPR_MAXDEPTH - 1 then Inl STATUS_ERR
               else rbind (or_status (ebitmap_read (at_site 2 m) fp)) (\<lambda>(fp, ns).
                 rbind (if policy_type p \<noteq> POLICY_KERN \<or> policyvers p \<ge> POLICYDB_VERSION_CONSTRAINT_NAMES
                        then rbind (type_set_read (at_site 3 m) fp) (\<lambda>(fp, t). Inr (fp, Some t))
                        else Inr (fp, type_names e)) (\<lambda>(fp, t).
                   Inr (fp, depth + 1, e\<lparr>names := ns, type_names := t\<rparr>)))
          else Inl STATUS_ERR)))"

definition read_cons ::
  "alloc \<Rightarrow> policydb \<Rightarrow> bool \<Rightarrow> policy_file \<Rightarrow> (policy_file \<times> constraint_node) result"
where
  "read_cons m p allowxtarget fp =
     (if \<not> malloc (at_site 0 m) then Inl STATUS_ERR
      else rbind (read_words 2 fp) (\<lambda>(fp, buf).
        rbind (for_each
            (\<lambda>j (fp, depth, es). rbind (read_cexpr (at_site (unat j) (at_site 1 m)) p allowxtarget fp depth) (\<lambda>(fp, depth, e).
               Inr (fp, depth, es @ [e])))
            (upto32 (buf ! 1)) (fp, - 1, [])) (\<lambda>(fp, depth, es).
          if depth \<noteq> 0 then Inl STATUS_ERR else Inr (fp, \<lparr>permissions = buf ! 0, cn_expr = es\<rparr>))))"

definition read_cons_helper ::
  "alloc \<Rightarrow> policydb \<Rightarrow> u32 \<Rightarrow> bool \<Rightarrow> policy_file \<Rightarrow> (policy_file \<times> constraint_node list) result"
where
  "read_cons_helper m p ncons allowxtarget fp =
     for_each
       (\<lambda>i (fp, cs). rbind (read_cons (at_site (unat i) m) p allowxtarget fp) (\<lambda>(fp, c). Inr (fp, cs @ [c])))
       (upto32 ncons) (fp, [])"

text \<open>The common of a class is looked up by its key.\<close>

definition read_comkey ::
  "alloc \<Rightarrow> policydb \<Rightarrow> u32 \<Rightarrow> policy_file \<Rightarrow> (policy_file \<times> string option \<times> common_datum option) result"
where
  "read_comkey m p len2 fp =
     (if len2 = 0 then Inr (fp, None, None)
      else rbind (read_name m fp len2) (\<lambda>(fp, k).
        rbind (hashtab_search (table (p_commons p)) k) (\<lambda>d. case d of
            None \<Rightarrow> Inl STATUS_ERR
          | Some d \<Rightarrow> Inr (fp, Some k, Some d))))"

text \<open>The defaults are truncated to a byte.\<close>

definition class_read ::
  "alloc \<Rightarrow> policydb \<Rightarrow> (string, class_datum) hashtab \<Rightarrow> policy_file \<Rightarrow> (policy_file \<times> (string, class_datum) hashtab) result"
where
  "class_read m p h fp =
     (if \<not> malloc (at_site 0 m) then Inl STATUS_ERR
      else rbind (read_words 6 fp) (\<lambda>(fp, buf).
      rbind (or_status (symtab_init (at_site 1 m) PERM_SYMTAB_SIZE)) (\<lambda>s.
      rbind (read_name (at_site 2 m) fp (buf ! 0)) (\<lambda>(fp, key).
      rbind (read_comkey (at_site 3 m) p (buf ! 1) fp) (\<lambda>(fp, ck, cd).
      rbind (perms_read (at_site 4 m) (buf ! 4) (s\<lparr>nprim := buf ! 3\<rparr>) fp) (\<lambda>(fp, s).
      rbind (read_cons_helper (at_site 5 m) p (buf ! 5) False fp) (\<lambda>(fp, cons).
      rbind (if kern_or_base p POLICYDB_VERSION_VALIDATETRANS MOD_POLICYDB_VERSION_VALIDATETRANS
             then rbind (read_words 1 fp) (\<lambda>(fp, b). read_cons_helper (at_site 6 m) p (b ! 0) True fp)
             else Inr (fp, [])) (\<lambda>(fp, vtrans).
      rbind (if kern_or_base p POLICYDB_VERSION_NEW_OBJECT_DEFAULTS MOD_POLICYDB_VERSION_NEW_OBJECT_DEFAULTS
             then read_words 3 fp else Inr (fp, [0, 0, 0])) (\<lambda>(fp, b).
      rbind (if kern_or_base p POLICYDB_VERSION_DEFAULT_TYPE MOD_POLICYDB_VERSION_DEFAULT_TYPE
             then read_words 1 fp else Inr (fp, [0])) (\<lambda>(fp, t).
      rbind (or_status (hashtab_insert (at_site 7 m) h key
          \<lparr>class_value = buf ! 2, comkey = ck, comdatum = cd, class_permissions = s, constraints = cons, validatetrans = vtrans,
           default_user = ucast (b ! 0), default_role = ucast (b ! 1), default_type = ucast (t ! 0),
           default_range = ucast (b ! 2)\<rparr>)) (\<lambda>h. Inr (fp, h))))))))))))"

section \<open>Roles and types\<close>

definition role_zero :: role_datum where
  "role_zero = \<lparr>role_value = 0, dominates = ebitmap_init, role_types = type_set_init, role_cache = ebitmap_init,
     role_bounds = 0, role_flavor = 0, role_roles = ebitmap_init\<rparr>"

text \<open>The role \<^verbatim>\<open>object_r\<close>, which the table already has, is checked and skipped.\<close>

definition role_read ::
  "alloc \<Rightarrow> policydb \<Rightarrow> (string, role_datum) hashtab \<Rightarrow> policy_file \<Rightarrow> (policy_file \<times> (string, role_datum) hashtab) result"
where
  "role_read m p h fp =
     (if \<not> malloc (at_site 0 m) then Inl STATUS_ERR
      else let bound = policydb_has_boundary_feature p in
      rbind (read_words (if bound then 3 else 2) fp) (\<lambda>(fp, buf).
      rbind (read_name (at_site 1 m) fp (buf ! 0)) (\<lambda>(fp, key).
      rbind (or_status (ebitmap_read (at_site 2 m) fp)) (\<lambda>(fp, dom).
      rbind (if policy_type p = POLICY_KERN
             then rbind (or_status (ebitmap_read (at_site 3 m) fp)) (\<lambda>(fp, ts). Inr (fp, type_set_init\<lparr>ts_types := ts\<rparr>))
             else type_set_read (at_site 3 m) fp) (\<lambda>(fp, types).
      rbind (if policy_type p \<noteq> POLICY_KERN \<and> policyvers p \<ge> MOD_POLICYDB_VERSION_ROLEATTRIB
             then rbind (read_words 1 fp) (\<lambda>(fp, b).
               rbind (or_status (ebitmap_read (at_site 4 m) fp)) (\<lambda>(fp, rs). Inr (fp, b ! 0, rs)))
             else Inr (fp, 0, ebitmap_init)) (\<lambda>(fp, flavor, rs).
        if strcmp key OBJECT_R = 0
        then if buf ! 1 \<noteq> OBJECT_R_VAL then Inl STATUS_ERR else Inr (fp, h)
        else rbind (or_status (hashtab_insert (at_site 5 m) h key
            (role_zero\<lparr>role_value := buf ! 1, dominates := dom, role_types := types,
               role_bounds := (if bound then buf ! 2 else 0), role_flavor := flavor, role_roles := rs\<rparr>)))
          (\<lambda>h. Inr (fp, h))))))))"

definition type_zero :: type_datum where
  "type_zero = \<lparr>type_value = 0, primary = 0, type_flavor = 0, type_types = ebitmap_init, type_flags = 0, type_bounds = 0\<rparr>"

definition boundary_alias :: "policydb \<Rightarrow> bool" where
  "boundary_alias p \<longleftrightarrow> policy_type p \<noteq> POLICY_KERN \<and> policyvers p \<ge> MOD_POLICYDB_VERSION_BOUNDARY_ALIAS"

definition type_to_read :: "policydb \<Rightarrow> nat" where
  "type_to_read p =
     (if policydb_has_boundary_feature p then if boundary_alias p then 5 else 4
      else if policy_type p = POLICY_KERN then 3
      else if policyvers p \<ge> MOD_POLICYDB_VERSION_PERMISSIVE then 5 else 4)"

text \<open>The fields of a type that are packed into its properties.\<close>

definition set_properties :: "policydb \<Rightarrow> u32 \<Rightarrow> type_datum \<Rightarrow> type_datum" where
  "set_properties p props d =
     (let d = (if props AND TYPEDATUM_PROPERTY_ATTRIBUTE \<noteq> 0 then d\<lparr>type_flavor := TYPE_ATTRIB\<rparr> else d);
          d = (if props AND TYPEDATUM_PROPERTY_ALIAS \<noteq> 0 \<and> policy_type p \<noteq> POLICY_KERN
               then d\<lparr>type_flavor := TYPE_ALIAS\<rparr> else d);
          d = (if props AND TYPEDATUM_PROPERTY_PERMISSIVE \<noteq> 0 \<and> policy_type p \<noteq> POLICY_KERN
               then d\<lparr>type_flags := type_flags d OR TYPE_FLAGS_PERMISSIVE\<rparr> else d)
      in d)"

definition type_fields :: "policydb \<Rightarrow> u32 list \<Rightarrow> type_datum" where
  "type_fields p buf =
     (let d = type_zero\<lparr>type_value := buf ! 1\<rparr> in
      if policydb_has_boundary_feature p
      then if boundary_alias p
           then (set_properties p (buf ! 3) (d\<lparr>primary := buf ! 2\<rparr>))\<lparr>type_bounds := buf ! 4\<rparr>
           else (set_properties p (buf ! 2)
                  (if buf ! 2 AND TYPEDATUM_PROPERTY_PRIMARY \<noteq> 0 then d\<lparr>primary := 1\<rparr> else d))\<lparr>type_bounds := buf ! 3\<rparr>
      else
        let d = d\<lparr>primary := buf ! 2\<rparr> in
        if policy_type p = POLICY_KERN then d
        else let d = d\<lparr>type_flavor := buf ! 3\<rparr> in
             if policyvers p \<ge> MOD_POLICYDB_VERSION_PERMISSIVE then d\<lparr>type_flags := buf ! 4\<rparr> else d)"

definition type_read ::
  "alloc \<Rightarrow> policydb \<Rightarrow> (string, type_datum) hashtab \<Rightarrow> policy_file \<Rightarrow> (policy_file \<times> (string, type_datum) hashtab) result"
where
  "type_read m p h fp =
     (if \<not> malloc (at_site 0 m) then Inl STATUS_ERR
      else rbind (read_words (type_to_read p) fp) (\<lambda>(fp, buf).
      rbind (if policy_type p \<noteq> POLICY_KERN then or_status (ebitmap_read (at_site 1 m) fp) else Inr (fp, ebitmap_init))
        (\<lambda>(fp, ts).
      rbind (read_name (at_site 2 m) fp (buf ! 0)) (\<lambda>(fp, key).
      rbind (or_status (hashtab_insert (at_site 3 m) h key ((type_fields p buf)\<lparr>type_types := ts\<rparr>)))
        (\<lambda>h. Inr (fp, h))))))"

section \<open>Users, sensitivities and categories\<close>

definition user_zero :: user_datum where
  "user_zero = \<lparr>user_value = 0, user_roles = role_set_init, user_range = mls_semantic_range_init,
     user_dfltlevel = mls_semantic_level_init, user_cache = ebitmap_init, exp_range = mls_range_init,
     exp_dfltlevel = mls_level_init, user_bounds = 0\<rparr>"

text \<open>The MLS fields of a user, which kernel policies and old modules have expanded.\<close>

definition user_mls_read :: "alloc \<Rightarrow> policydb \<Rightarrow> user_datum \<Rightarrow> policy_file \<Rightarrow> (policy_file \<times> user_datum) result" where
  "user_mls_read m p d fp =
     (if policy_type p = POLICY_KERN \<and> policyvers p \<ge> POLICYDB_VERSION_MLS \<or>
         (policy_type p = POLICY_MOD \<or> policy_type p = POLICY_BASE) \<and> policyvers p \<ge> MOD_POLICYDB_VERSION_MLS \<and>
         policyvers p < MOD_POLICYDB_VERSION_MLS_USERS
      then rbind (or_status (mls_read_range_helper (at_site 0 m) fp)) (\<lambda>(fp, r).
        rbind (or_status (mls_read_level (at_site 1 m) fp)) (\<lambda>(fp, l).
          let d = d\<lparr>exp_range := r, exp_dfltlevel := l\<rparr> in
          if policy_type p = POLICY_KERN then Inr (fp, d)
          else rbind (mls_range_to_semantic (at_site 2 m) r) (\<lambda>sr.
            rbind (mls_level_to_semantic (at_site 3 m) l) (\<lambda>sl.
              Inr (fp, d\<lparr>user_range := sr, user_dfltlevel := sl\<rparr>)))))
      else if (policy_type p = POLICY_MOD \<or> policy_type p = POLICY_BASE) \<and> policyvers p \<ge> MOD_POLICYDB_VERSION_MLS_USERS
      then rbind (or_status (mls_read_semantic_range_helper (at_site 0 m) fp)) (\<lambda>(fp, r).
        rbind (or_status (mls_read_semantic_level_helper (at_site 1 m) fp)) (\<lambda>(fp, l).
          Inr (fp, d\<lparr>user_range := r, user_dfltlevel := l\<rparr>)))
      else Inr (fp, d))"

definition user_read ::
  "alloc \<Rightarrow> policydb \<Rightarrow> (string, user_datum) hashtab \<Rightarrow> policy_file \<Rightarrow> (policy_file \<times> (string, user_datum) hashtab) result"
where
  "user_read m p h fp =
     (if \<not> malloc (at_site 0 m) then Inl STATUS_ERR
      else let bound = policydb_has_boundary_feature p in
      rbind (read_words (if bound then 3 else 2) fp) (\<lambda>(fp, buf).
      rbind (read_name (at_site 1 m) fp (buf ! 0)) (\<lambda>(fp, key).
      rbind (if policy_type p = POLICY_KERN
             then rbind (or_status (ebitmap_read (at_site 2 m) fp)) (\<lambda>(fp, rs). Inr (fp, role_set_init\<lparr>rs_roles := rs\<rparr>))
             else role_set_read (at_site 2 m) fp) (\<lambda>(fp, roles).
      rbind (user_mls_read (at_site 3 m) p
          (user_zero\<lparr>user_value := buf ! 1, user_roles := roles, user_bounds := (if bound then buf ! 2 else 0)\<rparr>) fp)
        (\<lambda>(fp, d).
      rbind (or_status (hashtab_insert (at_site 4 m) h key d)) (\<lambda>h. Inr (fp, h)))))))"

text \<open>The length of a name is a 32 bit number here, to which one is added.\<close>

definition sens_read ::
  "alloc \<Rightarrow> (string, level_datum) hashtab \<Rightarrow> policy_file \<Rightarrow> (policy_file \<times> (string, level_datum) hashtab) result"
where
  "sens_read m h fp =
     (if \<not> malloc (at_site 0 m) then Inl STATUS_ERR
      else rbind (read_words 2 fp) (\<lambda>(fp, buf).
      rbind (read_key (at_site 1 m) fp (buf ! 0)) (\<lambda>(fp, key).
        if \<not> malloc (at_site 2 m) then Inl STATUS_ERR
        else rbind (or_status (mls_read_level (at_site 3 m) fp)) (\<lambda>(fp, l).
          rbind (or_status (hashtab_insert (at_site 4 m) h key
              \<lparr>level = Some l, level_isalias = ucast (buf ! 1), level_defined = 0\<rparr>)) (\<lambda>h. Inr (fp, h))))))"

definition cat_read ::
  "alloc \<Rightarrow> (string, cat_datum) hashtab \<Rightarrow> policy_file \<Rightarrow> (policy_file \<times> (string, cat_datum) hashtab) result"
where
  "cat_read m h fp =
     (if \<not> malloc (at_site 0 m) then Inl STATUS_ERR
      else rbind (read_words 3 fp) (\<lambda>(fp, buf).
      rbind (read_key (at_site 1 m) fp (buf ! 0)) (\<lambda>(fp, key).
      rbind (or_status (hashtab_insert (at_site 2 m) h key
          \<lparr>cat_value = buf ! 1, cat_isalias = ucast (buf ! 2)\<rparr>)) (\<lambda>h. Inr (fp, h)))))"

end
