(* ===== verification/Modules.thy ===== *)
theory Modules
  imports Policydb_Read Util
begin

text \<open>
  Policy modules: the blocks of rules of \<^verbatim>\<open>src/avrule_block.c\<close>, symbols with their scopes
  (\<^verbatim>\<open>symtab_insert\<close>, \<^verbatim>\<open>scope_read\<close>), and the readers of the parts that only modules have, \<^verbatim>\<open>src/policydb.c\<close>.
  Messages are left out.
\<close>

section \<open>Constants\<close>

definition SCOPE_REQ :: u32 where "SCOPE_REQ = 1"
definition SCOPE_DECL :: u32 where "SCOPE_DECL = 2"
definition ROLE_ROLE :: u32 where "ROLE_ROLE = 0"
definition SYM_CLASSES :: nat where "SYM_CLASSES = 1"
definition SYM_ROLES :: nat where "SYM_ROLES = 2"
definition SYM_USERS :: nat where "SYM_USERS = 4"
definition SYM_NUM :: nat where "SYM_NUM = 8"
definition AVRULE_OPTIONAL :: u32 where "AVRULE_OPTIONAL = 1"
definition MOD_POLICYDB_VERSION_RANGETRANS :: u32 where "MOD_POLICYDB_VERSION_RANGETRANS = 6"
definition MOD_POLICYDB_VERSION_FILENAME_TRANS :: u32 where "MOD_POLICYDB_VERSION_FILENAME_TRANS = 11"
definition MOD_POLICYDB_VERSION_ROLETRANS :: u32 where "MOD_POLICYDB_VERSION_ROLETRANS = 12"

section \<open>Blocks and their branches\<close>

definition decl_symtab_sizes :: "u32 list" where
  "decl_symtab_sizes = [2, 4, 8, 32, 16, 4, 2, 2]"

definition scope_index_zero :: scope_index where
  "scope_index_zero = \<lparr>scope_sets = replicate SYM_NUM ebitmap_init, class_perms_map = [], class_perms_len = 0\<rparr>"

definition avrule_block_create :: "alloc \<Rightarrow> avrule_block result" where
  "avrule_block_create m =
     (if \<not> malloc m then Inl ENOMEM else Inr \<lparr>branch_list = [], block_enabled = None, block_flags = 0\<rparr>)"

definition avrule_decl_create :: "alloc \<Rightarrow> u32 \<Rightarrow> avrule_decl result" where
  "avrule_decl_create m i =
     (if \<not> malloc (at_site 0 m) then Inl ENOMEM
      else let sz = (\<lambda>i. decl_symtab_sizes ! i) in
      rbind (symtab_init (at_site 1 m) (sz 0)) (\<lambda>commons.
      rbind (symtab_init (at_site 2 m) (sz 1)) (\<lambda>classes.
      rbind (symtab_init (at_site 3 m) (sz 2)) (\<lambda>roles.
      rbind (symtab_init (at_site 4 m) (sz 3)) (\<lambda>types.
      rbind (symtab_init (at_site 5 m) (sz 4)) (\<lambda>users.
      rbind (symtab_init (at_site 6 m) (sz 5)) (\<lambda>bools.
      rbind (symtab_init (at_site 7 m) (sz 6)) (\<lambda>levels.
      rbind (symtab_init (at_site 8 m) (sz 7)) (\<lambda>cats.
        Inr \<lparr>decl_id = i, decl_enabled = 0, decl_cond_list = [], decl_avrules = [], role_tr_rules = [],
             role_allow_rules = [], range_tr_rules = [], required = scope_index_zero, declared = scope_index_zero,
             filename_trans_rules = [], d_commons = commons, d_classes = classes, d_roles = roles, d_types = types,
             d_users = users, d_bools = bools, d_levels = levels, d_cats = cats, decl_module_name = None\<rparr>)))))))))"

definition get_decl_cond_list ::
  "alloc \<Rightarrow> policydb \<Rightarrow> avrule_decl \<Rightarrow> cond_node \<Rightarrow> (avrule_decl \<times> cond_ref) result"
where
  "get_decl_cond_list m p decl cond =
     rbind (cond_node_find m p cond (decl_cond_list decl)) (\<lambda>r. case r of
         Created (Some n) \<Rightarrow> Inr (decl\<lparr>decl_cond_list := n # decl_cond_list decl\<rparr>, r)
       | _ \<Rightarrow> Inr (decl, r))"

text \<open>The branch that a pointer of \<^verbatim>\<open>decl_val_to_struct\<close> leads to.\<close>

definition decl_at :: "policydb \<Rightarrow> nat \<times> nat \<Rightarrow> avrule_decl result" where
  "decl_at p = (\<lambda>(b, k). rbind (idx (p_global p) b) (\<lambda>block. idx (branch_list block) k))"

fun any_enabled :: "policydb \<Rightarrow> u32 list \<Rightarrow> bool result" where
  "any_enabled p [] = Inr False"
| "any_enabled p (i # is) =
     rbind (idx (decl_val_to_struct p) (unat (i - 1))) (\<lambda>r. case r of
         None \<Rightarrow> any_enabled p is
       | Some r \<Rightarrow> rbind (decl_at p r) (\<lambda>decl. if decl_enabled decl \<noteq> 0 then Inr True else any_enabled p is))"

definition is_id_enabled :: "string \<Rightarrow> policydb \<Rightarrow> nat \<Rightarrow> bool result" where
  "is_id_enabled i p symbol_table =
     rbind (idx (p_scope p) symbol_table) (\<lambda>s.
       rbind (hashtab_search (table s) i) (\<lambda>sc. case sc of
           None \<Rightarrow> Inr False
         | Some sc \<Rightarrow> if sc_scope sc \<noteq> SCOPE_DECL then Inr False else any_enabled p (decl_ids sc)))"

definition is_perm_enabled :: "string \<Rightarrow> string \<Rightarrow> policydb \<Rightarrow> bool result" where
  "is_perm_enabled class_id perm_id p =
     rbind (is_id_enabled class_id p SYM_CLASSES) (\<lambda>on.
       if \<not> on then Inr False
       else rbind (hashtab_search (table (p_classes p)) class_id) (\<lambda>c. case c of
           None \<Rightarrow> Inr False
         | Some c \<Rightarrow>
             rbind (hashtab_search (table (class_permissions c)) perm_id) (\<lambda>perm.
               rbind (case (perm, comdatum c) of
                        (None, Some com) \<Rightarrow> hashtab_search (table (common_permissions com)) perm_id
                      | _ \<Rightarrow> Inr perm) (\<lambda>perm. Inr (perm \<noteq> None)))))"

section \<open>Symbols and their scopes\<close>

text \<open>
  \<^verbatim>\<open>symtab_insert\<close> into the symbol table \<open>symnum\<close> with its table of scopes.  \<open>mk\<close> gives the datum with the value
  it gets; without a \<open>value\<close> it keeps its own.  \<open>plain\<close> says which datums are no role attributes.  The result is one if the
  symbol was there already; the code \<^verbatim>\<open>-2\<close> of the function, which is that of \<^verbatim>\<open>-ENOENT\<close>, stands for a conflict.
  The tables are returned with an error too.
\<close>

definition scope_check :: "nat \<Rightarrow> ('d \<Rightarrow> bool) \<Rightarrow> 'd option \<Rightarrow> 'd \<Rightarrow> u32 \<Rightarrow> scope_datum \<Rightarrow> scope_datum result" where
  "scope_check symnum plain base cur sc old =
     (if sc_scope old = SCOPE_DECL \<and> sc = SCOPE_DECL
      then if symnum \<noteq> SYM_ROLES \<and> symnum \<noteq> SYM_USERS then Inl ENOENT
           else if symnum = SYM_ROLES
           then case base of
                  None \<Rightarrow> Inl UB
                | Some base \<Rightarrow> if \<not> (plain base \<and> plain cur) then Inl ENOENT else Inr old
           else Inr old
      else if sc_scope old = SCOPE_REQ \<and> sc = SCOPE_DECL then Inr (old\<lparr>sc_scope := SCOPE_DECL\<rparr>)
      else if sc_scope old \<noteq> sc then Inl ENOENT
      else Inr old)"

definition add_decl_id :: "alloc \<Rightarrow> u32 \<Rightarrow> scope_datum \<Rightarrow> scope_datum result" where
  "add_decl_id m i sc =
     (if i \<in> set (decl_ids sc) then Inr sc
      else case add_i_to_a m i (of_nat (length (decl_ids sc))) (if decl_ids sc = [] then None else Some (decl_ids sc)) of
             Inl UB \<Rightarrow> Inl UB
           | Inl _ \<Rightarrow> Inl ENOMEM
           | Inr (_, a) \<Rightarrow> Inr (sc\<lparr>decl_ids := a\<rparr>))"

definition scope_insert ::
  "alloc \<Rightarrow> nat \<Rightarrow> ('d \<Rightarrow> bool) \<Rightarrow> string \<Rightarrow> 'd \<Rightarrow> u32 \<Rightarrow> u32 \<Rightarrow> 'd symtab \<Rightarrow> scope_datum symtab \<Rightarrow> unit result \<times> scope_datum symtab"
where
  "scope_insert m symnum plain key cur sc i s ss =
     (case hashtab_search (table ss) key of
        Inl e \<Rightarrow> (Inl e, ss)
      | Inr None \<Rightarrow>
          if \<not> malloc (at_site 0 m) \<or> \<not> malloc (at_site 1 m) then (Inl ENOMEM, ss)
          else (case hashtab_insert (at_site 2 m) (table ss) key \<lparr>sc_scope = sc, decl_ids = []\<rparr> of
             Inl e \<Rightarrow> (Inl e, ss)
           | Inr h \<Rightarrow>
               let ss = ss\<lparr>table := h\<rparr> in
               (case add_decl_id (at_site 3 m) i \<lparr>sc_scope = sc, decl_ids = []\<rparr> of
                  Inl e \<Rightarrow> (Inl e, ss)
                | Inr d \<Rightarrow> (Inr (), set_entry key d ss)))
      | Inr (Some old) \<Rightarrow>
          (case rbind (hashtab_search (table s) key) (\<lambda>base. scope_check symnum plain base cur sc old) of
             Inl e \<Rightarrow> (Inl e, ss)
           | Inr d \<Rightarrow>
               (case add_decl_id (at_site 3 m) i d of
                  Inl e \<Rightarrow> (Inl e, set_entry key d ss)
                | Inr d \<Rightarrow> (Inr (), set_entry key d ss))))"

definition symtab_insert ::
  "alloc \<Rightarrow> nat \<Rightarrow> ('d \<Rightarrow> bool) \<Rightarrow> string \<Rightarrow> (u32 \<Rightarrow> 'd) \<Rightarrow> u32 \<Rightarrow> u32 \<Rightarrow> bool \<Rightarrow> 'd symtab \<times> scope_datum symtab \<Rightarrow>
   nat result \<times> 'd symtab \<times> scope_datum symtab"
where
  "symtab_insert m symnum plain key mk sc i value = (\<lambda>(s, ss).
     let v = (if value then nprim s + 1 else nprim s) in
     case hashtab_insert (at_site 0 m) (table s) key (mk v) of
       Inr h \<Rightarrow>
         let s = s\<lparr>table := h, nprim := v\<rparr> in
         (case scope_insert (at_site 1 m) symnum plain key (mk v) sc i s ss of (r, ss) \<Rightarrow> (rbind r (\<lambda>_. Inr 0), s, ss))
     | Inl EEXIST \<Rightarrow>
         (case scope_insert (at_site 1 m) symnum plain key (mk (nprim s)) sc i s ss of (r, ss) \<Rightarrow> (rbind r (\<lambda>_. Inr 1), s, ss))
     | Inl e \<Rightarrow> (Inl e, s, ss))"

section \<open>Bitmaps whose errors are partly ignored\<close>

text \<open>
  Some callers compare the result of \<^verbatim>\<open>ebitmap_read\<close> with \<^verbatim>\<open>-1\<close>, which it returns only for a truncated file.  After
  any other error they go on with an empty bitmap from where the file stands then.
\<close>

fun read_nodes_rest :: "alloc \<Rightarrow> u32 \<Rightarrow> ebitmap_node option \<Rightarrow> nat \<Rightarrow> nat \<Rightarrow> policy_file \<Rightarrow> policy_file" where
  "read_nodes_rest m hb l i 0 fp = fp"
| "read_nodes_rest m hb l i (Suc count) fp =
     (case next_entry fp 4 of
        Inl _ \<Rightarrow> fp
      | Inr (fp, b) \<Rightarrow>
          let sb = le_to_cpu b in
          if \<not> malloc (at_site i m) \<or> sb AND (of_nat MAPSIZE - 1) \<noteq> 0 \<or> unat sb > unat hb - MAPSIZE then fp
          else case next_entry fp 8 of
            Inl _ \<Rightarrow> fp
          | Inr (fp, b) \<Rightarrow>
              if le_to_cpu b = (0 :: u64) \<or> (\<exists>n. l = Some n \<and> sb \<le> startbit n) then fp
              else read_nodes_rest m hb (Some \<lparr>startbit = sb, nmap = le_to_cpu b\<rparr>) (Suc i) count fp)"

definition ebitmap_read_rest :: "alloc \<Rightarrow> policy_file \<Rightarrow> policy_file" where
  "ebitmap_read_rest m fp =
     (case next_entry fp 12 of
        Inl _ \<Rightarrow> fp
      | Inr (fp, buf) \<Rightarrow>
          let mapsize = le_to_cpu (take 4 buf) :: u32; hb = le_to_cpu (take 4 (drop 4 buf));
              count = le_to_cpu (take 4 (drop 8 buf)) :: u32 in
          if unat mapsize \<noteq> MAPSIZE \<or> hb = 0 \<or> hb AND (of_nat MAPSIZE - 1) \<noteq> 0 then fp
          else read_nodes_rest m hb None 0 (unat count) fp)"

definition ebitmap_read_lax :: "alloc \<Rightarrow> policy_file \<Rightarrow> (policy_file \<times> ebitmap) result" where
  "ebitmap_read_lax m fp =
     (case ebitmap_read m fp of
        Inl e \<Rightarrow> if e = STATUS_ERR \<or> e = UB then Inl e else Inr (ebitmap_read_rest m fp, ebitmap_init)
      | Inr r \<Rightarrow> Inr r)"

section \<open>Rules\<close>

text \<open>A list of items that are allocated and read one after the other.\<close>

definition read_items ::
  "alloc \<Rightarrow> u32 \<Rightarrow> (alloc \<Rightarrow> policy_file \<Rightarrow> (policy_file \<times> 'a) result) \<Rightarrow> policy_file \<Rightarrow> (policy_file \<times> 'a list) result"
where
  "read_items m n f fp =
     for_each (\<lambda>i (fp, xs).
         if \<not> malloc (at_site 0 (at_site (unat i) m)) then Inl STATUS_ERR
         else rbind (f (at_site 1 (at_site (unat i) m)) fp) (\<lambda>(fp, x). Inr (fp, xs @ [x])))
       (upto32 n) (fp, [])"

definition role_trans_rule_read :: "alloc \<Rightarrow> policydb \<Rightarrow> policy_file \<Rightarrow> (policy_file \<times> role_trans_rule list) result" where
  "role_trans_rule_read m p fp =
     rbind (read_words 1 fp) (\<lambda>(fp, nel).
       read_items m (nel ! 0) (\<lambda>m fp.
         rbind (role_set_read (at_site 0 m) fp) (\<lambda>(fp, rs).
         rbind (type_set_read (at_site 1 m) fp) (\<lambda>(fp, ts).
         rbind (or_status (if policyvers p \<ge> MOD_POLICYDB_VERSION_ROLETRANS then ebitmap_read (at_site 2 m) fp
                else rbind (ebitmap_set_bit (at_site 2 m) ebitmap_init (ucast SECCLASS_PROCESS - 1) True) (\<lambda>e. Inr (fp, e)))) (\<lambda>(fp, cs).
         rbind (read_words 1 fp) (\<lambda>(fp, buf).
           Inr (fp, \<lparr>rtr_roles = rs, rtr_types = ts, rtr_classes = cs, rtr_new_role = buf ! 0\<rparr>)))))) fp)"

definition role_allow_rule_read :: "alloc \<Rightarrow> policy_file \<Rightarrow> (policy_file \<times> role_allow_rule list) result" where
  "role_allow_rule_read m fp =
     rbind (read_words 1 fp) (\<lambda>(fp, nel).
       read_items m (nel ! 0) (\<lambda>m fp.
         rbind (role_set_read (at_site 0 m) fp) (\<lambda>(fp, rs).
         rbind (role_set_read (at_site 1 m) fp) (\<lambda>(fp, ns). Inr (fp, \<lparr>rar_roles = rs, rar_new_roles = ns\<rparr>)))) fp)"

definition filename_trans_rule_read :: "alloc \<Rightarrow> policy_file \<Rightarrow> (policy_file \<times> filename_trans_rule list) result" where
  "filename_trans_rule_read m fp =
     rbind (read_words 1 fp) (\<lambda>(fp, nel).
       read_items m (nel ! 0) (\<lambda>m fp.
         rbind (read_words 1 fp) (\<lambda>(fp, l).
         rbind (read_key (at_site 0 m) fp (l ! 0)) (\<lambda>(fp, name).
         rbind (type_set_read (at_site 1 m) fp) (\<lambda>(fp, st).
         rbind (type_set_read (at_site 2 m) fp) (\<lambda>(fp, tt).
         rbind (read_words 2 fp) (\<lambda>(fp, buf).
           Inr (fp, \<lparr>ftr_stypes = st, ftr_ttypes = tt, ftr_tclass = buf ! 0, ftr_name = name, ftr_otype = buf ! 1\<rparr>))))))) fp)"

definition range_trans_rule_read :: "alloc \<Rightarrow> policy_file \<Rightarrow> (policy_file \<times> range_trans_rule list) result" where
  "range_trans_rule_read m fp =
     rbind (read_words 1 fp) (\<lambda>(fp, nel).
       read_items m (nel ! 0) (\<lambda>m fp.
         rbind (type_set_read (at_site 0 m) fp) (\<lambda>(fp, st).
         rbind (type_set_read (at_site 1 m) fp) (\<lambda>(fp, tt).
         rbind (or_status (ebitmap_read (at_site 2 m) fp)) (\<lambda>(fp, cs).
         rbind (or_status (mls_read_semantic_range_helper (at_site 3 m) fp)) (\<lambda>(fp, r).
           Inr (fp, \<lparr>rgr_stypes = st, rgr_ttypes = tt, rgr_tclasses = cs, rgr_trange = r\<rparr>)))))) fp)"

section \<open>Blocks\<close>

text \<open>
  If the array of permission sets cannot be allocated, the cleanup destroys its elements nevertheless; the first of them is
  at the null pointer, which is tolerated.
\<close>

definition scope_index_read :: "alloc \<Rightarrow> nat \<Rightarrow> scope_index \<Rightarrow> policy_file \<Rightarrow> (policy_file \<times> scope_index) result" where
  "scope_index_read m n si fp =
     rbind (for_each (\<lambda>i (fp, es). rbind (ebitmap_read_lax (at_site i (at_site 0 m)) fp) (\<lambda>(fp, e). Inr (fp, es[i := e])))
         [0..<n] (fp, scope_sets si)) (\<lambda>(fp, es).
       rbind (read_words 1 fp) (\<lambda>(fp, buf).
         let cnt = buf ! 0 in
         if cnt = 0 then Inr (fp, \<lparr>scope_sets = es, class_perms_map = [], class_perms_len = 0\<rparr>)
         else if \<not> malloc (at_site 1 m) then Inl (if cnt = 1 then STATUS_ERR else UB)
         else rbind (for_each (\<lambda>i (fp, cs). rbind (ebitmap_read_lax (at_site (unat i) (at_site 2 m)) fp) (\<lambda>(fp, e). Inr (fp, cs @ [e])))
             (upto32 cnt) (fp, [])) (\<lambda>(fp, cs).
           Inr (fp, \<lparr>scope_sets = es, class_perms_map = cs, class_perms_len = cnt\<rparr>))))"

definition decl_read_symtab ::
  "alloc \<Rightarrow> (avrule_decl \<Rightarrow> 'd symtab) \<Rightarrow> (('d symtab \<Rightarrow> 'd symtab) \<Rightarrow> avrule_decl \<Rightarrow> avrule_decl) \<Rightarrow>
   (alloc \<Rightarrow> policydb \<Rightarrow> (string, 'd) hashtab \<Rightarrow> policy_file \<Rightarrow> (policy_file \<times> (string, 'd) hashtab) result) \<Rightarrow>
   policydb \<Rightarrow> avrule_decl \<Rightarrow> policy_file \<Rightarrow> (policy_file \<times> avrule_decl) result"
where
  "decl_read_symtab m get put read_f p decl fp =
     rbind (read_words 2 fp) (\<lambda>(fp, buf).
       rbind (for_each (\<lambda>j (fp, h). or_status (read_f (at_site (unat j) m) p h fp)) (upto32 (buf ! 1)) (fp, table (get decl))) (\<lambda>(fp, h).
         Inr (fp, put (\<lambda>_. \<lparr>table = h, nprim = buf ! 0\<rparr>) decl)))"

definition decl_read_symtabs :: "alloc \<Rightarrow> nat \<Rightarrow> policydb \<Rightarrow> avrule_decl \<Rightarrow> policy_file \<Rightarrow> (policy_file \<times> avrule_decl) result" where
  "decl_read_symtabs m n p decl fp =
     for_each (\<lambda>i (fp, d).
       let m = at_site i m in
       if i = 0 then decl_read_symtab m d_commons d_commons_update (\<lambda>m _. common_read m) p d fp
       else if i = 1 then decl_read_symtab m d_classes d_classes_update class_read p d fp
       else if i = 2 then decl_read_symtab m d_roles d_roles_update role_read p d fp
       else if i = 3 then decl_read_symtab m d_types d_types_update type_read p d fp
       else if i = 4 then decl_read_symtab m d_users d_users_update user_read p d fp
       else if i = 5 then decl_read_symtab m d_bools d_bools_update cond_read_bool p d fp
       else if i = 6 then decl_read_symtab m d_levels d_levels_update (\<lambda>m _. sens_read m) p d fp
       else if i = 7 then decl_read_symtab m d_cats d_cats_update (\<lambda>m _. cat_read m) p d fp
       else Inl UB)
     [0..<n] (fp, decl)"

definition avrule_decl_read ::
  "alloc \<Rightarrow> (nat \<Rightarrow> u32) \<Rightarrow> policydb \<Rightarrow> avrule_decl \<Rightarrow> nat \<Rightarrow> policy_file \<Rightarrow> (policy_file \<times> policydb \<times> avrule_decl) result"
where
  "avrule_decl_read m stale p decl n fp =
     rbind (read_words 2 fp) (\<lambda>(fp, buf).
     rbind (cond_read_list (at_site 0 m) stale p (decl_cond_list decl) fp) (\<lambda>(p, fp, conds).
     rbind (avrule_read_list (at_site 1 m) fp) (\<lambda>(fp, rules).
     rbind (role_trans_rule_read (at_site 2 m) p fp) (\<lambda>(fp, rtr).
     rbind (role_allow_rule_read (at_site 3 m) fp) (\<lambda>(fp, rar).
     rbind (if policyvers p \<ge> MOD_POLICYDB_VERSION_FILENAME_TRANS then filename_trans_rule_read (at_site 4 m) fp else Inr (fp, [])) (\<lambda>(fp, ftr).
     rbind (if policyvers p \<ge> MOD_POLICYDB_VERSION_RANGETRANS then range_trans_rule_read (at_site 5 m) fp else Inr (fp, [])) (\<lambda>(fp, rgr).
     rbind (scope_index_read (at_site 6 m) n (required decl) fp) (\<lambda>(fp, req).
     rbind (scope_index_read (at_site 7 m) n (declared decl) fp) (\<lambda>(fp, dec).
     rbind (decl_read_symtabs (at_site 8 m) n p
         (decl\<lparr>decl_id := buf ! 0, decl_enabled := buf ! 1, decl_cond_list := conds, decl_avrules := rules, role_tr_rules := rtr,
               role_allow_rules := rar, filename_trans_rules := ftr, range_tr_rules := rgr, required := req, declared := dec\<rparr>) fp)
       (\<lambda>(fp, decl). Inr (fp, p, decl)))))))))))"

definition branch_step ::
  "alloc \<Rightarrow> (nat \<Rightarrow> u32) \<Rightarrow> nat \<Rightarrow> policy_file \<times> policydb \<times> avrule_block \<Rightarrow> (policy_file \<times> policydb \<times> avrule_block) result"
where
  "branch_step m stale n = (\<lambda>(fp, p, block).
     rbind (or_status (avrule_decl_create (at_site 0 m) 0)) (\<lambda>decl.
       rbind (or_status (avrule_decl_read (at_site 1 m) stale p decl n fp)) (\<lambda>(fp, p, decl).
         if decl_enabled decl \<noteq> 0 \<and> block_enabled block \<noteq> None then Inl STATUS_ERR
         else Inr (fp, p, block\<lparr>branch_list := branch_list block @ [decl],
           block_enabled := (if decl_enabled decl \<noteq> 0 then Some (length (branch_list block)) else block_enabled block)\<rparr>))))"

definition avrule_block_read ::
  "alloc \<Rightarrow> (nat \<Rightarrow> u32) \<Rightarrow> policydb \<Rightarrow> nat \<Rightarrow> policy_file \<Rightarrow> (policy_file \<times> policydb) result"
where
  "avrule_block_read m stale p n fp =
     (if p_global p \<noteq> [] then Inl UB
      else rbind (read_words 1 fp) (\<lambda>(fp, nblocks).
        for_each (\<lambda>i (fp, p).
            let m = at_site (unat i) m in
            if \<not> malloc (at_site 0 m) then Inl STATUS_ERR
            else rbind (read_words 1 fp) (\<lambda>(fp, ndecls).
              rbind (for_each (\<lambda>j. branch_step (at_site (unat j) (at_site 1 m)) stale n) (upto32 (ndecls ! 0))
                  (fp, p, \<lparr>branch_list = [], block_enabled = None, block_flags = (if i = 0 then 0 else AVRULE_OPTIONAL)\<rparr>)) (\<lambda>(fp, p, block).
                Inr (fp, p\<lparr>p_global := p_global p @ [block]\<rparr>))))
          (upto32 (nblocks ! 0)) (fp, p)))"

section \<open>Scopes\<close>

definition found :: "'d option result \<Rightarrow> bool result" where
  "found r = rbind r (\<lambda>d. Inr (d \<noteq> None))"

definition symbol_exists :: "policydb \<Rightarrow> nat \<Rightarrow> string \<Rightarrow> bool result" where
  "symbol_exists p i key =
     (if i = 0 then found (hashtab_search (table (p_commons p)) key)
      else if i = 1 then found (hashtab_search (table (p_classes p)) key)
      else if i = 2 then found (hashtab_search (table (p_roles p)) key)
      else if i = 3 then found (hashtab_search (table (p_types p)) key)
      else if i = 4 then found (hashtab_search (table (p_users p)) key)
      else if i = 5 then found (hashtab_search (table (p_bools p)) key)
      else if i = 6 then found (hashtab_search (table (p_levels p)) key)
      else if i = 7 then found (hashtab_search (table (p_cats p)) key)
      else Inl UB)"

text \<open>The role \<^verbatim>\<open>object_r\<close> has a scope already; that of the file is dropped.\<close>

definition scope_read :: "alloc \<Rightarrow> policydb \<Rightarrow> nat \<Rightarrow> policy_file \<Rightarrow> (policy_file \<times> policydb) result" where
  "scope_read m p symnum fp =
     rbind (read_words 1 fp) (\<lambda>(fp, l).
     rbind (read_name (at_site 0 m) fp (l ! 0)) (\<lambda>(fp, key).
     rbind (symbol_exists p symnum key) (\<lambda>known.
       if \<not> known \<or> \<not> malloc (at_site 1 m) then Inl STATUS_ERR
       else rbind (read_words 2 fp) (\<lambda>(fp, buf).
         if buf ! 1 = 0 then Inl UB
         else if \<not> malloc (at_site 2 m) then Inl STATUS_ERR
         else rbind (read_words (unat (buf ! 1)) fp) (\<lambda>(fp, ids).
           if key = OBJECT_R \<and> symnum = SYM_ROLES then Inr (fp, p)
           else rbind (idx (p_scope p) symnum) (\<lambda>s.
             rbind (or_status (hashtab_insert (at_site 3 m) (table s) key \<lparr>sc_scope = buf ! 0, decl_ids = ids\<rparr>)) (\<lambda>h.
               Inr (fp, p\<lparr>p_scope := (p_scope p)[symnum := s\<lparr>table := h\<rparr>]\<rparr>))))))))"

definition read_scopes :: "alloc \<Rightarrow> nat \<Rightarrow> policydb \<Rightarrow> policy_file \<Rightarrow> (policy_file \<times> policydb) result" where
  "read_scopes m n p fp =
     for_each (\<lambda>i (fp, p).
         rbind (read_words 1 fp) (\<lambda>(fp, nel).
           for_each (\<lambda>j (fp, p). scope_read (at_site (unat j) (at_site i m)) p i fp) (upto32 (nel ! 0)) (fp, p)))
       [0..<n] (fp, p)"

text \<open>The array of the declarations; a number outside it is written past its end.\<close>

definition all_decls :: "policydb \<Rightarrow> ((nat \<times> nat) \<times> avrule_decl) list" where
  "all_decls p =
     concat (map (\<lambda>(b, block). map (\<lambda>(k, d). ((b, k), d)) (enumerate 0 (branch_list block))) (enumerate 0 (p_global p)))"

definition policydb_index_decls :: "alloc \<Rightarrow> policydb \<Rightarrow> policydb result" where
  "policydb_index_decls m p =
     (if \<not> malloc m then Inl STATUS_ERR
      else rbind (for_each (\<lambda>(r, d) arr. val_set arr (decl_id d) r) (all_decls p) (replicate (length (all_decls p)) None)) (\<lambda>arr.
        Inr (p\<lparr>decl_val_to_struct := arr\<rparr>)))"

end
