(* ===== verification/Object_Sids.thy ===== *)
theory Object_Sids
  imports Services
begin

text \<open>
  SIDs of the objects that the policy labels, and of the contexts a user can reach,
  \<^verbatim>\<open>src/services.c\<close>.  An object context keeps the SID it was given, so that the functions change the
  policy as well as the SID table; both are returned also after an error.  The members of the
  union in an object context are used according to the list it is in; any other use is undefined.
\<close>

section \<open>Object contexts\<close>

fun oc_search :: "(ocontext \<Rightarrow> bool result) \<Rightarrow> ocontext list \<Rightarrow> nat \<Rightarrow> nat option result" where
  "oc_search P [] i = Inr None"
| "oc_search P (c # cs) i = rbind (P c) (\<lambda>ok. if ok then Inr (Some i) else oc_search P cs (Suc i))"

definition oc_name :: "ocontext \<Rightarrow> string result" where
  "oc_name c = (case oc_u c of U_name s \<Rightarrow> Inr s | _ \<Rightarrow> Inl UB)"

definition oc_named :: "string \<Rightarrow> ocontext \<Rightarrow> bool result" where
  "oc_named name c = rbind (oc_name c) (\<lambda>s. Inr (strcmp s name = 0))"

text \<open>The SID of the first context, made if there is none yet.\<close>

definition label_one :: "alloc \<Rightarrow> ocontext \<Rightarrow> sidtab \<Rightarrow> unit result \<times> ocontext \<times> sidtab" where
  "label_one m c t =
     (if oc_sid0 c \<noteq> 0 then (Inr (), c, t)
      else case ctx_sid m (oc_context0 c) t of
             (Inl e, t) \<Rightarrow> (Inl e, c, t)
           | (Inr sd, t) \<Rightarrow> (Inr (), c\<lparr>oc_sid0 := sd\<rparr>, t))"

text \<open>The SIDs of both contexts, made anew if one is missing.\<close>

definition label_two :: "alloc \<Rightarrow> ocontext \<Rightarrow> sidtab \<Rightarrow> unit result \<times> ocontext \<times> sidtab" where
  "label_two m c t =
     (if oc_sid0 c \<noteq> 0 \<and> oc_sid1 c \<noteq> 0 then (Inr (), c, t)
      else case ctx_sid (at_site 0 m) (oc_context0 c) t of
             (Inl e, t) \<Rightarrow> (Inl e, c, t)
           | (Inr sd, t) \<Rightarrow>
               (case ctx_sid (at_site 1 m) (oc_context1 c) t of
                  (Inl e, t) \<Rightarrow> (Inl e, c\<lparr>oc_sid0 := sd\<rparr>, t)
                | (Inr sd', t) \<Rightarrow> (Inr (), c\<lparr>oc_sid0 := sd, oc_sid1 := sd'\<rparr>, t)))"

definition set_ocontext :: "nat \<Rightarrow> nat \<Rightarrow> ocontext \<Rightarrow> policydb \<Rightarrow> policydb" where
  "set_ocontext k i c p = p\<lparr>ocontexts := (ocontexts p)[k := (ocontexts p ! k)[i := c]]\<rparr>"

text \<open>
  Search in the list \<open>k\<close> of the policy, label what is found and return a part of it, or a default.
\<close>

definition labelled ::
  "(ocontext \<Rightarrow> bool result) \<Rightarrow> (ocontext \<Rightarrow> sidtab \<Rightarrow> unit result \<times> ocontext \<times> sidtab) \<Rightarrow> (ocontext \<Rightarrow> 'a) \<Rightarrow> 'a \<Rightarrow>
   nat \<Rightarrow> policydb \<Rightarrow> sidtab \<Rightarrow> 'a result \<times> policydb \<times> sidtab"
where
  "labelled P label out dflt k p t =
     (case rbind (idx (ocontexts p) k) (\<lambda>cs. oc_search P cs 0) of
        Inl e \<Rightarrow> (Inl e, p, t)
      | Inr None \<Rightarrow> (Inr dflt, p, t)
      | Inr (Some i) \<Rightarrow>
          (case label (ocontexts p ! k ! i) t of (r, c, t) \<Rightarrow>
            (rbind r (\<lambda>_. Inr (out c)), set_ocontext k i c p, t)))"

definition sepol_fs_sid :: "alloc \<Rightarrow> string \<Rightarrow> policydb \<Rightarrow> sidtab \<Rightarrow> (sid \<times> sid) result \<times> policydb \<times> sidtab" where
  "sepol_fs_sid m name =
     labelled (oc_named name) (label_two m) (\<lambda>c. (oc_sid0 c, oc_sid1 c)) (SECINITSID_FS, SECINITSID_FILE) OCON_FS"

definition port_matches :: "u8 \<Rightarrow> u16 \<Rightarrow> ocontext \<Rightarrow> bool result" where
  "port_matches proto port c =
     (case oc_u c of
        U_port pr lo hi \<Rightarrow> Inr (pr = proto \<and> lo \<le> port \<and> port \<le> hi)
      | _ \<Rightarrow> Inl UB)"

definition sepol_port_sid :: "alloc \<Rightarrow> u8 \<Rightarrow> u16 \<Rightarrow> policydb \<Rightarrow> sidtab \<Rightarrow> sid result \<times> policydb \<times> sidtab" where
  "sepol_port_sid m proto port = labelled (port_matches proto port) (label_one m) oc_sid0 SECINITSID_PORT OCON_PORT"

definition sepol_netif_sid :: "alloc \<Rightarrow> string \<Rightarrow> policydb \<Rightarrow> sidtab \<Rightarrow> (sid \<times> sid) result \<times> policydb \<times> sidtab" where
  "sepol_netif_sid m name =
     labelled (oc_named name) (label_two m) (\<lambda>c. (oc_sid0 c, oc_sid1 c)) (SECINITSID_NETIF, SECINITSID_NETMSG) OCON_NETIF"

text \<open>Arrays of four words; the comparison stops at the first difference.\<close>

fun match_words :: "u32 list \<Rightarrow> u32 list \<Rightarrow> u32 list \<Rightarrow> nat \<Rightarrow> bool result" where
  "match_words (i # is) (a # as) (k # ks) (Suc n) = (if a \<noteq> i AND k then Inr False else match_words is as ks n)"
| "match_words _ _ _ 0 = Inr True"
| "match_words _ _ _ (Suc n) = Inl UB"

definition match_ipv6_addrmask :: "u32 list \<Rightarrow> u32 list \<Rightarrow> u32 list \<Rightarrow> bool result" where
  "match_ipv6_addrmask inp addr msk = match_words inp addr msk 4"

definition node_matches4 :: "u32 \<Rightarrow> ocontext \<Rightarrow> bool result" where
  "node_matches4 addr c = (case oc_u c of U_node a k \<Rightarrow> Inr (a = addr AND k) | _ \<Rightarrow> Inl UB)"

definition node_matches6 :: "u32 list \<Rightarrow> ocontext \<Rightarrow> bool result" where
  "node_matches6 addr c = (case oc_u c of U_node6 a k \<Rightarrow> match_ipv6_addrmask addr a k | _ \<Rightarrow> Inl UB)"

definition AF_INET :: u16 where "AF_INET = 2"
definition AF_INET6 :: u16 where "AF_INET6 = 10"

text \<open>The address is given as the words in memory and its length in bytes.\<close>

definition sepol_node_sid ::
  "alloc \<Rightarrow> u16 \<Rightarrow> u32 list \<Rightarrow> nat \<Rightarrow> policydb \<Rightarrow> sidtab \<Rightarrow> sid result \<times> policydb \<times> sidtab"
where
  "sepol_node_sid m domain addrp addrlen p t =
     (if domain = AF_INET
      then if addrlen \<noteq> 4 then (Inl EINVAL, p, t)
           else case addrp of
                  [] \<Rightarrow> (Inl UB, p, t)
                | addr # _ \<Rightarrow> labelled (node_matches4 addr) (label_one m) oc_sid0 SECINITSID_NODE OCON_NODE p t
      else if domain = AF_INET6
      then if addrlen \<noteq> 16 then (Inl EINVAL, p, t)
           else labelled (node_matches6 addrp) (label_one m) oc_sid0 SECINITSID_NODE OCON_NODE6 p t
      else (Inr SECINITSID_NODE, p, t))"

section \<open>File systems\<close>

text \<open>The entry for a file system type in the sorted list.\<close>

fun genfs_search :: "string \<Rightarrow> genfs list \<Rightarrow> nat \<Rightarrow> nat option" where
  "genfs_search ty [] i = None"
| "genfs_search ty (g # gs) i =
     (let cmp = strcmp ty (fstype g) in
      if cmp \<le> 0 then (if cmp = 0 then Some i else None) else genfs_search ty gs (Suc i))"

text \<open>\<^verbatim>\<open>strncmp(name, path, strlen(name)) == 0\<close>\<close>

definition genfs_matches :: "string \<Rightarrow> u16 \<Rightarrow> ocontext \<Rightarrow> bool result" where
  "genfs_matches path sclass c =
     rbind (oc_name c) (\<lambda>s.
       Inr ((oc_v c = 0 \<or> ucast sclass = oc_v c) \<and> take (length s) path = s))"

definition set_genfs :: "nat \<Rightarrow> nat \<Rightarrow> ocontext \<Rightarrow> policydb \<Rightarrow> policydb" where
  "set_genfs k i c p =
     p\<lparr>p_genfs := (p_genfs p)[k := (p_genfs p ! k)\<lparr>head := (head (p_genfs p ! k))[i := c]\<rparr>]\<rparr>"

text \<open>When nothing matches, the SID of unlabeled objects is returned together with the error.\<close>

definition sepol_genfs_sid ::
  "alloc \<Rightarrow> string \<Rightarrow> string \<Rightarrow> u16 \<Rightarrow> policydb \<Rightarrow> sidtab \<Rightarrow> (sid option \<times> unit result) \<times> policydb \<times> sidtab"
where
  "sepol_genfs_sid m ty path sclass p t =
     (case genfs_search ty (p_genfs p) 0 of
        None \<Rightarrow> ((Some SECINITSID_UNLABELED, Inl ENOENT), p, t)
      | Some k \<Rightarrow>
          (case oc_search (genfs_matches path sclass) (head (p_genfs p ! k)) 0 of
             Inl e \<Rightarrow> ((None, Inl e), p, t)
           | Inr None \<Rightarrow> ((Some SECINITSID_UNLABELED, Inl ENOENT), p, t)
           | Inr (Some i) \<Rightarrow>
               (case label_one m (head (p_genfs p ! k) ! i) t of
                  (Inl e, c, t) \<Rightarrow> ((None, Inl e), set_genfs k i c p, t)
                | (Inr _, c, t) \<Rightarrow> ((Some (oc_sid0 c), Inr ()), set_genfs k i c p, t))))"

text \<open>The behaviour and the SID; any error of the search by path counts as no labeling support.\<close>

definition sepol_fs_use ::
  "alloc \<Rightarrow> string \<Rightarrow> policydb \<Rightarrow> sidtab \<Rightarrow> (u32 \<times> sid option) result \<times> policydb \<times> sidtab"
where
  "sepol_fs_use m ty p t =
     (case rbind (idx (ocontexts p) OCON_FSUSE) (\<lambda>cs. oc_search (oc_named ty) cs 0) of
        Inl e \<Rightarrow> (Inl e, p, t)
      | Inr (Some i) \<Rightarrow>
          (case label_one (at_site 0 m) (ocontexts p ! OCON_FSUSE ! i) t of (r, c, t) \<Rightarrow>
            (rbind r (\<lambda>_. Inr (oc_v c, Some (oc_sid0 c))), set_ocontext OCON_FSUSE i c p, t))
      | Inr None \<Rightarrow>
          (case sepol_genfs_sid (at_site 1 m) ty ''/'' SECCLASS_DIR p t of
             ((sd, Inl UB), p, t) \<Rightarrow> (Inl UB, p, t)
           | ((sd, Inl _), p, t) \<Rightarrow> (Inr (SECURITY_FS_USE_NONE, sd), p, t)
           | ((sd, Inr _), p, t) \<Rightarrow> (Inr (SECURITY_FS_USE_GENFS, sd), p, t)))"

section \<open>Contexts of a user\<close>

text \<open>A loop whose body changes a state that remains after an error.\<close>

fun try_each :: "('i \<Rightarrow> 'a \<Rightarrow> 's \<Rightarrow> 'a result \<times> 's) \<Rightarrow> 'i list \<Rightarrow> 'a \<Rightarrow> 's \<Rightarrow> 'a result \<times> 's" where
  "try_each f [] a s = (Inr a, s)"
| "try_each f (x # xs) a s =
     (case f x a s of
        (Inl e, s) \<Rightarrow> (Inl e, s)
      | (Inr a, s) \<Rightarrow> try_each f xs a s)"

definition SIDS_NEL :: nat where "SIDS_NEL = 25"

text \<open>
  One type of one role.  \<open>junk\<close> is the content of \<^verbatim>\<open>usercon.range\<close>, which is set only for an MLS
  policy; looking up the SID reads it.  The array of SIDs grows by \<^verbatim>\<open>SIDS_NEL\<close> elements when it is
  full.  An error of the access decision is kept as the result but does not end the loop.
\<close>

definition user_sid_step ::
  "alloc \<Rightarrow> policydb \<Rightarrow> context_struct \<Rightarrow> user_datum \<Rightarrow> mls_range \<Rightarrow> u32 \<Rightarrow> u32 \<Rightarrow> sid list \<times> unit result \<Rightarrow> sidtab \<Rightarrow>
   (sid list \<times> unit result) result \<times> sidtab"
where
  "user_sid_step m p fromcon u junk i j acc t =
     (let usercon = \<lparr>user = user_value u, role = i + 1, type = j + 1, range = junk\<rparr> in
      case acc of (mysids, rc) \<Rightarrow>
        if type usercon = type fromcon then (Inr acc, t)
        else case mls_setup_user_range fromcon u usercon (mls p) of
          Inl _ \<Rightarrow> (Inr acc, t)
        | Inr usercon \<Rightarrow>
            (case context_struct_compute_av (at_site 0 m) p fromcon usercon SECCLASS_PROCESS PROCESS__TRANSITION of
               Inl UB \<Rightarrow> (Inl UB, t)
             | Inl e \<Rightarrow> (Inr (mysids, Inl e), t)
             | Inr (avd, _) \<Rightarrow>
                 if allowed avd AND PROCESS__TRANSITION = 0 then (Inr (mysids, Inr ()), t)
                 else if \<not> mls p then (Inl UB, t)
                 else case ctx_sid (at_site 1 m) usercon t of
                        (Inl e, t) \<Rightarrow> (Inl e, t)
                      | (Inr sd, t) \<Rightarrow>
                          if length mysids \<noteq> 0 \<and> length mysids mod SIDS_NEL = 0 \<and> \<not> malloc (at_site 2 m) then (Inl ENOMEM, t)
                          else (Inr (mysids @ [sd], Inr ()), t)))"

definition sepol_get_user_sids ::
  "alloc \<Rightarrow> policydb \<Rightarrow> sid \<Rightarrow> string \<Rightarrow> mls_range \<Rightarrow> sidtab \<Rightarrow> sid list result \<times> sidtab"
where
  "sepol_get_user_sids m p fromsid username junk t =
     (case rbind (sid_context t fromsid) (\<lambda>fromcon.
         rbind (hashtab_search (table (p_users p)) username) (\<lambda>u.
         case u of None \<Rightarrow> Inl EINVAL | Some u \<Rightarrow>
           if \<not> malloc (at_site 0 m) then Inl ENOMEM
           else rbind (ebitmap_positive_bits (rs_roles (user_roles u))) (\<lambda>roles. Inr (fromcon, u, roles)))) of
        Inl e \<Rightarrow> (Inl e, t)
      | Inr (fromcon, u, roles) \<Rightarrow>
          (case try_each (\<lambda>i acc t.
              case rbind (idx (role_val_to_struct p) (unat i)) (\<lambda>r.
                  rbind (deref r) (\<lambda>r. ebitmap_positive_bits (ts_types (role_types r)))) of
                Inl e \<Rightarrow> (Inl e, t)
              | Inr types \<Rightarrow>
                  try_each (\<lambda>j. user_sid_step (at_site (unat j) (at_site (unat i) (at_site 1 m))) p fromcon u junk i j)
                    types acc t)
              roles ([], Inr ()) t of
             (Inl e, t) \<Rightarrow> (Inl e, t)
           | (Inr (mysids, rc), t) \<Rightarrow> (rbind rc (\<lambda>_. Inr mysids), t)))"

end
