(* ===== verification/Policydb_File.thy ===== *)
theory Policydb_File
  imports Modules Object_Sids
begin

text \<open>
  Reading a binary policy, \<^verbatim>\<open>policydb_read\<close> of \<^verbatim>\<open>src/policydb.c\<close>, and the initial database.  A kernel policy
  and a module have a header and middle parts of their own and the same end.
  Where the code stores words of the file as they are, in network order, the machine is taken to
  be little-endian.  Messages are left out.
\<close>

section \<open>Constants\<close>

definition POLICYDB_MAGIC :: u32 where "POLICYDB_MAGIC = 0xf97cff8c"
definition POLICYDB_MOD_MAGIC :: u32 where "POLICYDB_MOD_MAGIC = 0xf97cff8d"
definition POLICYDB_STRING_MAX_LENGTH :: u32 where "POLICYDB_STRING_MAX_LENGTH = 32"
definition POLICYDB_VERSION_MIN :: u32 where "POLICYDB_VERSION_MIN = 15"
definition POLICYDB_VERSION_MAX :: u32 where "POLICYDB_VERSION_MAX = 30"
definition POLICYDB_VERSION_BOOL :: u32 where "POLICYDB_VERSION_BOOL = 16"
definition POLICYDB_VERSION_RANGETRANS :: u32 where "POLICYDB_VERSION_RANGETRANS = 21"
definition POLICYDB_VERSION_POLCAP :: u32 where "POLICYDB_VERSION_POLCAP = 22"
definition POLICYDB_VERSION_PERMISSIVE :: u32 where "POLICYDB_VERSION_PERMISSIVE = 23"
definition POLICYDB_VERSION_FILENAME_TRANS :: u32 where "POLICYDB_VERSION_FILENAME_TRANS = 25"
definition POLICYDB_VERSION_ROLETRANS :: u32 where "POLICYDB_VERSION_ROLETRANS = 26"
definition POLICYDB_VERSION_XEN_DEVICETREE :: u32 where "POLICYDB_VERSION_XEN_DEVICETREE = 30"
definition POLICYDB_CONFIG_MLS :: u32 where "POLICYDB_CONFIG_MLS = 1"
definition POLICYDB_CONFIG_UNKNOWN_MASK :: u32 where "POLICYDB_CONFIG_UNKNOWN_MASK = 6"
definition SEPOL_TARGET_SELINUX :: int where "SEPOL_TARGET_SELINUX = 0"
definition SEPOL_TARGET_XEN :: int where "SEPOL_TARGET_XEN = 1"
definition policydb_target_strings :: "string list" where
  "policydb_target_strings = [''SE Linux'', ''XenFlask'']"

text \<open>Type, version, number of symbol tables, number of lists of object contexts, platform.\<close>

definition policydb_compat :: "(u32 \<times> u32 \<times> nat \<times> nat \<times> int) list" where
  "policydb_compat =
     [(POLICY_KERN, 24, 8, 5, SEPOL_TARGET_XEN), (POLICY_KERN, 30, 8, 6, SEPOL_TARGET_XEN),
      (POLICY_KERN, 15, 5, 6, SEPOL_TARGET_SELINUX), (POLICY_KERN, 16, 6, 6, SEPOL_TARGET_SELINUX),
      (POLICY_KERN, 17, 6, 7, SEPOL_TARGET_SELINUX), (POLICY_KERN, 18, 6, 7, SEPOL_TARGET_SELINUX),
      (POLICY_KERN, 19, 8, 7, SEPOL_TARGET_SELINUX), (POLICY_KERN, 20, 8, 7, SEPOL_TARGET_SELINUX),
      (POLICY_KERN, 21, 8, 7, SEPOL_TARGET_SELINUX), (POLICY_KERN, 22, 8, 7, SEPOL_TARGET_SELINUX),
      (POLICY_KERN, 23, 8, 7, SEPOL_TARGET_SELINUX), (POLICY_KERN, 24, 8, 7, SEPOL_TARGET_SELINUX),
      (POLICY_KERN, 25, 8, 7, SEPOL_TARGET_SELINUX), (POLICY_KERN, 26, 8, 7, SEPOL_TARGET_SELINUX),
      (POLICY_KERN, 27, 8, 7, SEPOL_TARGET_SELINUX), (POLICY_KERN, 28, 8, 7, SEPOL_TARGET_SELINUX),
      (POLICY_KERN, 29, 8, 7, SEPOL_TARGET_SELINUX), (POLICY_KERN, 30, 8, 7, SEPOL_TARGET_SELINUX),
      (POLICY_BASE, 4, 8, 7, SEPOL_TARGET_SELINUX), (POLICY_BASE, 5, 8, 7, SEPOL_TARGET_SELINUX),
      (POLICY_BASE, 6, 8, 7, SEPOL_TARGET_SELINUX), (POLICY_BASE, 7, 8, 7, SEPOL_TARGET_SELINUX),
      (POLICY_BASE, 8, 8, 7, SEPOL_TARGET_SELINUX), (POLICY_BASE, 9, 8, 7, SEPOL_TARGET_SELINUX),
      (POLICY_BASE, 10, 8, 7, SEPOL_TARGET_SELINUX), (POLICY_BASE, 11, 8, 7, SEPOL_TARGET_SELINUX),
      (POLICY_BASE, 12, 8, 7, SEPOL_TARGET_SELINUX), (POLICY_BASE, 13, 8, 7, SEPOL_TARGET_SELINUX),
      (POLICY_BASE, 14, 8, 7, SEPOL_TARGET_SELINUX), (POLICY_BASE, 15, 8, 7, SEPOL_TARGET_SELINUX),
      (POLICY_BASE, 16, 8, 7, SEPOL_TARGET_SELINUX), (POLICY_BASE, 17, 8, 7, SEPOL_TARGET_SELINUX),
      (POLICY_MOD, 4, 8, 0, SEPOL_TARGET_SELINUX), (POLICY_MOD, 5, 8, 0, SEPOL_TARGET_SELINUX),
      (POLICY_MOD, 6, 8, 0, SEPOL_TARGET_SELINUX), (POLICY_MOD, 7, 8, 0, SEPOL_TARGET_SELINUX),
      (POLICY_MOD, 8, 8, 0, SEPOL_TARGET_SELINUX), (POLICY_MOD, 9, 8, 0, SEPOL_TARGET_SELINUX),
      (POLICY_MOD, 10, 8, 0, SEPOL_TARGET_SELINUX), (POLICY_MOD, 11, 8, 0, SEPOL_TARGET_SELINUX),
      (POLICY_MOD, 12, 8, 0, SEPOL_TARGET_SELINUX), (POLICY_MOD, 13, 8, 0, SEPOL_TARGET_SELINUX),
      (POLICY_MOD, 14, 8, 0, SEPOL_TARGET_SELINUX), (POLICY_MOD, 15, 8, 0, SEPOL_TARGET_SELINUX),
      (POLICY_MOD, 16, 8, 0, SEPOL_TARGET_SELINUX), (POLICY_MOD, 17, 8, 0, SEPOL_TARGET_SELINUX)]"

definition policydb_lookup_compat :: "u32 \<Rightarrow> u32 \<Rightarrow> int \<Rightarrow> (nat \<times> nat) option" where
  "policydb_lookup_compat vers ty platform =
     map_option (\<lambda>(_, _, sym_num, ocon_num, _). (sym_num, ocon_num))
       (find (\<lambda>(t, v, _, _, pl). v = vers \<and> t = ty \<and> pl = platform) policydb_compat)"

section \<open>The initial database\<close>

definition symtab_sizes :: "u32 list" where
  "symtab_sizes = [2, 32, 16, 512, 128, 16, 16, 16]"

text \<open>The role \<^verbatim>\<open>object_r\<close> with its scope.\<close>

definition roles_init :: "alloc \<Rightarrow> policydb \<Rightarrow> policydb result" where
  "roles_init m p =
     (if \<not> malloc (at_site 0 m) then Inl ENOMEM
      else if \<not> malloc (at_site 1 m) then Inl ENOMEM
      else rbind (idx (p_scope p) SYM_ROLES) (\<lambda>ss.
        case symtab_insert (at_site 2 m) SYM_ROLES (\<lambda>r. role_flavor r = ROLE_ROLE) OBJECT_R (\<lambda>v. role_zero\<lparr>role_value := v\<rparr>)
            (if policy_type p = POLICY_MOD then SCOPE_REQ else SCOPE_DECL) 1 True (p_roles p, ss) of (r, s, ss) \<Rightarrow>
          rbind r (\<lambda>rc.
            if rc \<noteq> 0 then Inl STATUS_ERR
            else if nprim s \<noteq> OBJECT_R_VAL then Inl EINVAL
            else Inr (p\<lparr>p_roles := s, p_scope := (p_scope p)[SYM_ROLES := ss]\<rparr>))))"

definition init_scopes :: "alloc \<Rightarrow> scope_datum symtab list result" where
  "init_scopes m =
     for_each (\<lambda>i ss. rbind (symtab_init (at_site i m) (symtab_sizes ! i)) (\<lambda>s. Inr (ss @ [s]))) [0..<SYM_NUM] []"

text \<open>
  Where \<open>or_unusable\<close> stands: when the tables of the scopes or the first block cannot be allocated, the symbol tables are destroyed but
  zero is returned; the database must then not be used.
\<close>

definition or_unusable :: "'a result \<Rightarrow> 'a result" where
  "or_unusable r = (case r of Inl _ \<Rightarrow> Inl UB | Inr x \<Rightarrow> Inr x)"

definition policydb_init :: "alloc \<Rightarrow> policydb result" where
  "policydb_init m =
     (let p = zero_policydb; sz = (\<lambda>i. symtab_sizes ! i) in
      rbind (symtab_init (at_site 0 m) (sz 0)) (\<lambda>commons.
      rbind (symtab_init (at_site 1 m) (sz 1)) (\<lambda>classes.
      rbind (symtab_init (at_site 2 m) (sz 2)) (\<lambda>roles.
      rbind (symtab_init (at_site 3 m) (sz 3)) (\<lambda>types.
      rbind (symtab_init (at_site 4 m) (sz 4)) (\<lambda>users.
      rbind (symtab_init (at_site 5 m) (sz 5)) (\<lambda>bools.
      rbind (symtab_init (at_site 6 m) (sz 6)) (\<lambda>levels.
      rbind (symtab_init (at_site 7 m) (sz 7)) (\<lambda>cats.
      rbind (or_unusable (init_scopes (at_site 8 m))) (\<lambda>scopes.
      rbind (or_unusable (avrule_block_create (at_site 10 m))) (\<lambda>block.
      rbind (or_unusable (avrule_decl_create (at_site 11 m) 1)) (\<lambda>decl.
        let p = p\<lparr>p_commons := commons, p_classes := classes, p_roles := roles, p_types := types, p_users := users,
                    p_bools := bools, p_levels := levels, p_cats := cats, p_scope := scopes,
                    p_global := [block\<lparr>branch_list := [decl]\<rparr>], te_avtab := avtab_init (te_avtab p)\<rparr> in
        rbind (roles_init (at_site 9 m) p) (\<lambda>p. Inr (cond_policydb_init p))))))))))))))"

section \<open>Rules\<close>

definition role_trans_read :: "alloc \<Rightarrow> policydb \<Rightarrow> policy_file \<Rightarrow> (policy_file \<times> role_trans list) result" where
  "role_trans_read m p fp =
     rbind (read_words 1 fp) (\<lambda>(fp, nel).
       read_items m (nel ! 0) (\<lambda>_ fp.
         rbind (read_words 3 fp) (\<lambda>(fp, buf).
           rbind (if policy_type p = POLICY_KERN \<and> policyvers p \<ge> POLICYDB_VERSION_ROLETRANS
                  then rbind (read_words 1 fp) (\<lambda>(fp, b). Inr (fp, b ! 0))
                  else Inr (fp, ucast SECCLASS_PROCESS)) (\<lambda>(fp, tclass).
             Inr (fp, \<lparr>rt_role = buf ! 0, rt_type = buf ! 1, rt_tclass = tclass, rt_new_role = buf ! 2\<rparr>)))) fp)"

definition role_allow_read :: "alloc \<Rightarrow> policy_file \<Rightarrow> (policy_file \<times> role_allow list) result" where
  "role_allow_read m fp =
     rbind (read_words 1 fp) (\<lambda>(fp, nel).
       read_items m (nel ! 0) (\<lambda>_ fp.
         rbind (read_words 2 fp) (\<lambda>(fp, buf). Inr (fp, \<lparr>ra_role = buf ! 0, ra_new_role = buf ! 1\<rparr>))) fp)"

definition filename_trans_read :: "alloc \<Rightarrow> policy_file \<Rightarrow> (policy_file \<times> filename_trans list) result" where
  "filename_trans_read m fp =
     rbind (read_words 1 fp) (\<lambda>(fp, nel).
       read_items m (nel ! 0) (\<lambda>m fp.
         rbind (read_words 1 fp) (\<lambda>(fp, l).
           rbind (or_status (read_key m fp (l ! 0))) (\<lambda>(fp, name).
             rbind (read_words 4 fp) (\<lambda>(fp, buf).
               Inr (fp, \<lparr>ft_stype = buf ! 0, ft_ttype = buf ! 1, ft_tclass = buf ! 2, ft_name = name,
                         ft_otype = buf ! 3\<rparr>))))) fp)"

definition range_list :: "alloc \<Rightarrow> policydb \<Rightarrow> policy_file \<Rightarrow> (policy_file \<times> range_trans list) result" where
  "range_list m p fp =
     rbind (read_words 1 fp) (\<lambda>(fp, nel).
       read_items m (nel ! 0) (\<lambda>m fp.
         rbind (read_words 2 fp) (\<lambda>(fp, buf).
           rbind (if policy_type p = POLICY_KERN \<and> policyvers p \<ge> POLICYDB_VERSION_RANGETRANS
                  then rbind (read_words 1 fp) (\<lambda>(fp, b). Inr (fp, b ! 0))
                  else Inr (fp, ucast SECCLASS_PROCESS)) (\<lambda>(fp, tclass).
             rbind (or_status (mls_read_range_helper m fp)) (\<lambda>(fp, r).
               Inr (fp, \<lparr>rg_source_type = buf ! 0, rg_target_type = buf ! 1, rg_target_class = tclass,
                         rg_target_range = r\<rparr>))))) fp)"

text \<open>The list of a file with no items does not replace the one that is there.\<close>

definition new_list :: "'a list \<Rightarrow> 'a list \<Rightarrow> 'a list" where
  "new_list old l = (if l = [] then old else l)"

text \<open>An old base module has its range transitions here; they become rules of the enabled branch of the first block.\<close>

definition range_rule :: "alloc \<Rightarrow> range_trans \<Rightarrow> range_trans_rule result" where
  "range_rule m rt =
     (if \<not> malloc (at_site 0 m) then Inl STATUS_ERR
      else rbind (or_status (ebitmap_set_bit (at_site 1 m) ebitmap_init (rg_source_type rt - 1) True)) (\<lambda>s.
        rbind (or_status (ebitmap_set_bit (at_site 2 m) ebitmap_init (rg_target_type rt - 1) True)) (\<lambda>t.
        rbind (or_status (ebitmap_set_bit (at_site 3 m) ebitmap_init (rg_target_class rt - 1) True)) (\<lambda>c.
        rbind (or_status (mls_range_to_semantic (at_site 4 m) (rg_target_range rt))) (\<lambda>r.
          Inr \<lparr>rgr_stypes = type_set_init\<lparr>ts_types := s\<rparr>, rgr_ttypes = type_set_init\<lparr>ts_types := t\<rparr>, rgr_tclasses = c, rgr_trange = r\<rparr>)))))"

definition set_range_rules :: "range_trans_rule list \<Rightarrow> policydb \<Rightarrow> policydb result" where
  "set_range_rules rules p =
     (case p_global p of
        [] \<Rightarrow> Inl UB
      | b # bs \<Rightarrow>
          (case block_enabled b of
             None \<Rightarrow> Inl UB
           | Some k \<Rightarrow> rbind (idx (branch_list b) k) (\<lambda>d.
               Inr (p\<lparr>p_global := b\<lparr>branch_list := (branch_list b)[k := d\<lparr>range_tr_rules := rules\<rparr>]\<rparr> # bs\<rparr>))))"

definition range_read :: "alloc \<Rightarrow> policydb \<Rightarrow> policy_file \<Rightarrow> (policy_file \<times> policydb) result" where
  "range_read m p fp =
     rbind (range_list (at_site 0 m) p fp) (\<lambda>(fp, l).
       let l = new_list (range_tr p) l in
       if policy_type p = POLICY_KERN then Inr (fp, p\<lparr>range_tr := l\<rparr>)
       else if l = [] then Inr (fp, p\<lparr>range_tr := []\<rparr>)
       else if \<not> malloc (at_site 0 (at_site 0 (at_site 1 m))) then Inl STATUS_ERR
       else rbind (set_range_rules [] p) (\<lambda>_.
         rbind (for_each (\<lambda>(i, rt) rs. rbind (range_rule (at_site i (at_site 1 m)) rt) (\<lambda>r. Inr (rs @ [r]))) (enumerate 0 l) []) (\<lambda>rs.
           rbind (set_range_rules rs p) (\<lambda>p. Inr (fp, p\<lparr>range_tr := []\<rparr>)))))"

section \<open>Object contexts\<close>

text \<open>An object context as \<^verbatim>\<open>calloc\<close> leaves it.\<close>

definition oc_zero :: ocontext where
  "oc_zero = \<lparr>oc_u = U_device 0, oc_v = 0, oc_context0 = context_init, oc_context1 = context_init, oc_sid0 = 0, oc_sid1 = 0\<rparr>"

definition with_context :: "alloc \<Rightarrow> policydb \<Rightarrow> ocontext \<Rightarrow> policy_file \<Rightarrow> (policy_file \<times> ocontext) result" where
  "with_context m p c fp =
     rbind (context_read_and_validate m p (oc_context0 c) fp) (\<lambda>(fp, x). Inr (fp, c\<lparr>oc_context0 := x\<rparr>))"

definition with_context1 :: "alloc \<Rightarrow> policydb \<Rightarrow> ocontext \<Rightarrow> policy_file \<Rightarrow> (policy_file \<times> ocontext) result" where
  "with_context1 m p c fp =
     rbind (context_read_and_validate m p (oc_context1 c) fp) (\<lambda>(fp, x). Inr (fp, c\<lparr>oc_context1 := x\<rparr>))"

definition ocontext_selinux :: "nat \<Rightarrow> alloc \<Rightarrow> policydb \<Rightarrow> policy_file \<Rightarrow> (policy_file \<times> ocontext) result" where
  "ocontext_selinux i m p fp =
     (if i = OCON_ISID
      then rbind (read_words 1 fp) (\<lambda>(fp, buf). with_context m p (oc_zero\<lparr>oc_sid0 := buf ! 0\<rparr>) fp)
      else if i = OCON_FS \<or> i = OCON_NETIF
      then rbind (read_words 1 fp) (\<lambda>(fp, buf).
        rbind (read_name (at_site 0 m) fp (buf ! 0)) (\<lambda>(fp, s).
          rbind (with_context (at_site 1 m) p (oc_zero\<lparr>oc_u := U_name s\<rparr>) fp) (\<lambda>(fp, c). with_context1 (at_site 2 m) p c fp)))
      else if i = OCON_PORT
      then rbind (read_words 3 fp) (\<lambda>(fp, buf).
        with_context m p (oc_zero\<lparr>oc_u := U_port (ucast (buf ! 0)) (ucast (buf ! 1)) (ucast (buf ! 2))\<rparr>) fp)
      else if i = OCON_NODE
      then rbind (read_words 2 fp) (\<lambda>(fp, buf). with_context m p (oc_zero\<lparr>oc_u := U_node (buf ! 0) (buf ! 1)\<rparr>) fp)
      else if i = OCON_FSUSE
      then rbind (read_words 2 fp) (\<lambda>(fp, buf).
        rbind (read_name (at_site 0 m) fp (buf ! 1)) (\<lambda>(fp, s).
          with_context (at_site 1 m) p (oc_zero\<lparr>oc_u := U_name s, oc_v := buf ! 0\<rparr>) fp))
      else if i = OCON_NODE6
      then rbind (read_words 8 fp) (\<lambda>(fp, buf). with_context m p (oc_zero\<lparr>oc_u := U_node6 (take 4 buf) (drop 4 buf)\<rparr>) fp)
      else Inl STATUS_ERR)"

definition ocontext_xen :: "nat \<Rightarrow> alloc \<Rightarrow> policydb \<Rightarrow> policy_file \<Rightarrow> (policy_file \<times> ocontext) result" where
  "ocontext_xen i m p fp =
     (if i = 0
      then rbind (read_words 1 fp) (\<lambda>(fp, buf). with_context m p (oc_zero\<lparr>oc_sid0 := buf ! 0\<rparr>) fp)
      else if i = 1
      then rbind (read_words 1 fp) (\<lambda>(fp, buf). with_context m p (oc_zero\<lparr>oc_u := U_pirq (ucast (buf ! 0))\<rparr>) fp)
      else if i = 2
      then rbind (read_words 2 fp) (\<lambda>(fp, buf). with_context m p (oc_zero\<lparr>oc_u := U_ioport (buf ! 0) (buf ! 1)\<rparr>) fp)
      else if i = 3
      then if policyvers p \<ge> POLICYDB_VERSION_XEN_DEVICETREE
           then rbind (or_status (next_entry fp 16)) (\<lambda>(fp, b).
             let b64 = le_words 8 2 b in with_context m p (oc_zero\<lparr>oc_u := U_iomem (b64 ! 0) (b64 ! 1)\<rparr>) fp)
           else rbind (read_words 2 fp) (\<lambda>(fp, buf).
             with_context m p (oc_zero\<lparr>oc_u := U_iomem (ucast (buf ! 0)) (ucast (buf ! 1))\<rparr>) fp)
      else if i = 4
      then rbind (read_words 1 fp) (\<lambda>(fp, buf). with_context m p (oc_zero\<lparr>oc_u := U_device (buf ! 0)\<rparr>) fp)
      else if i = 5
      then rbind (read_words 1 fp) (\<lambda>(fp, buf).
        rbind (read_name (at_site 0 m) fp (buf ! 0)) (\<lambda>(fp, s). with_context (at_site 1 m) p (oc_zero\<lparr>oc_u := U_name s\<rparr>) fp))
      else Inl STATUS_ERR)"

definition ocontext_lists ::
  "(nat \<Rightarrow> alloc \<Rightarrow> policydb \<Rightarrow> policy_file \<Rightarrow> (policy_file \<times> ocontext) result) \<Rightarrow> alloc \<Rightarrow> nat \<Rightarrow> policydb \<Rightarrow> policy_file \<Rightarrow>
   (policy_file \<times> policydb) result"
where
  "ocontext_lists item m ocon_num p fp =
     for_each (\<lambda>i (fp, p).
       rbind (read_words 1 fp) (\<lambda>(fp, nel).
         rbind (read_items (at_site i m) (nel ! 0) (\<lambda>m. item i m p) fp) (\<lambda>(fp, cs).
           Inr (fp, p\<lparr>ocontexts := (ocontexts p)[i := new_list (ocontexts p ! i) cs]\<rparr>))))
       [0..<ocon_num] (fp, p)"

definition ocontext_read :: "alloc \<Rightarrow> nat \<Rightarrow> policydb \<Rightarrow> policy_file \<Rightarrow> (policy_file \<times> policydb) result" where
  "ocontext_read m ocon_num p fp =
     (if target_platform p = SEPOL_TARGET_SELINUX then ocontext_lists ocontext_selinux m ocon_num p fp
      else if target_platform p = SEPOL_TARGET_XEN then ocontext_lists ocontext_xen m ocon_num p fp
      else Inl STATUS_ERR)"

text \<open>The place of a new file system: those with smaller names, and those with greater ones.\<close>

fun genfs_place :: "string \<Rightarrow> genfs list \<Rightarrow> (genfs list \<times> genfs list) result" where
  "genfs_place name [] = Inr ([], [])"
| "genfs_place name (g # gs) =
     (if strcmp name (fstype g) = 0 then Inl STATUS_ERR
      else if strcmp name (fstype g) < 0 then Inr ([], g # gs)
      else rbind (genfs_place name gs) (\<lambda>(xs, ys). Inr (g # xs, ys)))"

text \<open>A path goes before the first shorter one; it may not be there for the same class, or for all.\<close>

fun genfs_insert :: "ocontext \<Rightarrow> ocontext list \<Rightarrow> ocontext list result" where
  "genfs_insert newc [] = Inr [newc]"
| "genfs_insert newc (c # cs) =
     rbind (oc_name newc) (\<lambda>a. rbind (oc_name c) (\<lambda>b.
       if strcmp a b = 0 \<and> (oc_v c = 0 \<or> oc_v newc = 0 \<or> oc_v newc = oc_v c) then Inl STATUS_ERR
       else if length a > length b then Inr (newc # c # cs)
       else rbind (genfs_insert newc cs) (\<lambda>cs. Inr (c # cs))))"

definition genfs_entry :: "alloc \<Rightarrow> policydb \<Rightarrow> policy_file \<times> ocontext list \<Rightarrow> (policy_file \<times> ocontext list) result" where
  "genfs_entry m p s =
     (case s of (fp, cs) \<Rightarrow>
       if \<not> malloc (at_site 0 m) then Inl STATUS_ERR
       else rbind (read_words 1 fp) (\<lambda>(fp, l).
         rbind (read_name (at_site 1 m) fp (l ! 0)) (\<lambda>(fp, name).
           rbind (read_words 1 fp) (\<lambda>(fp, cl).
             rbind (with_context (at_site 2 m) p (oc_zero\<lparr>oc_u := U_name name, oc_v := cl ! 0\<rparr>) fp) (\<lambda>(fp, c).
               rbind (genfs_insert c cs) (\<lambda>cs. Inr (fp, cs)))))))"

text \<open>
  A failure frees the entry that was read last.  If that entry is in its list already, which is
  the case between two file systems, the list keeps a freed entry: the database can neither be used
  nor destroyed.
\<close>

definition after_entry :: "bool \<Rightarrow> 'a result \<Rightarrow> 'a result" where
  "after_entry linked r = (case r of Inl e \<Rightarrow> Inl (if linked then UB else e) | Inr x \<Rightarrow> Inr x)"

definition genfs_step :: "alloc \<Rightarrow> policy_file \<times> bool \<times> policydb \<Rightarrow> (policy_file \<times> bool \<times> policydb) result" where
  "genfs_step m s =
     (case s of (fp, linked, p) \<Rightarrow>
       rbind (after_entry linked
           (rbind (read_words 1 fp) (\<lambda>(fp, l).
              if \<not> malloc (at_site 0 m) then Inl STATUS_ERR
              else rbind (read_name (at_site 1 m) fp (l ! 0)) (\<lambda>(fp, name).
                rbind (genfs_place name (p_genfs p)) (\<lambda>(xs, ys).
                  rbind (read_words 1 fp) (\<lambda>(fp, nel2). Inr (fp, name, xs, ys, nel2 ! 0))))))) (\<lambda>(fp, name, xs, ys, nel2).
         rbind (for_each (\<lambda>j. genfs_entry (at_site (unat j) (at_site 2 m)) p) (upto32 nel2) (fp, [])) (\<lambda>(fp, cs).
           Inr (fp, linked \<or> cs \<noteq> [], p\<lparr>p_genfs := xs @ \<lparr>fstype = name, head = cs\<rparr> # ys\<rparr>))))"

definition genfs_read :: "alloc \<Rightarrow> policydb \<Rightarrow> policy_file \<Rightarrow> (policy_file \<times> policydb) result" where
  "genfs_read m p fp =
     rbind (read_words 1 fp) (\<lambda>(fp, nel).
       rbind (for_each (\<lambda>i. genfs_step (at_site (unat i) m)) (upto32 (nel ! 0)) (fp, False, p)) (\<lambda>(fp, _, p). Inr (fp, p)))"

section \<open>Attributes\<close>

definition note_attribute :: "alloc \<Rightarrow> u32 \<Rightarrow> u32 \<times> bool \<Rightarrow> ebitmap list \<Rightarrow> ebitmap list result" where
  "note_attribute m i v attrs =
     (case v of (j, b) \<Rightarrow>
       if \<not> b \<or> i = j then Inr attrs
       else rbind (idx attrs (unat j)) (\<lambda>e.
         rbind (or_status (ebitmap_set_bit (at_site (unat j) m) e i True)) (\<lambda>e. Inr (attrs[unat j := e]))))"

definition attribute_step ::
  "alloc \<Rightarrow> policydb \<Rightarrow> u32 \<Rightarrow> policy_file \<times> ebitmap list \<times> ebitmap list \<Rightarrow> (policy_file \<times> ebitmap list \<times> ebitmap list) result"
where
  "attribute_step m p i s =
     (case s of (fp, types, attrs) \<Rightarrow>
       rbind (if policyvers p \<ge> POLICYDB_VERSION_AVTAB
              then rbind (or_status (ebitmap_read (at_site 0 m) fp)) (\<lambda>(fp, e).
                rbind (ebitmap_for_each_bit e) (\<lambda>vs.
                  rbind (for_each (note_attribute (at_site 1 m) i) vs attrs) (\<lambda>attrs. Inr (fp, e, attrs))))
              else Inr (fp, types ! unat i, attrs)) (\<lambda>(fp, e, attrs).
         rbind (or_status (ebitmap_set_bit (at_site 2 m) e i True)) (\<lambda>e.
           rbind (idx (type_val_to_struct p) (unat i)) (\<lambda>t.
             rbind (case t of
                      None \<Rightarrow> Inr attrs
                    | Some d \<Rightarrow>
                        if type_flavor d \<noteq> TYPE_ATTRIB
                        then rbind (or_status (ebitmap_set_bit (at_site 3 m) (attrs ! unat i) i True)) (\<lambda>a.
                          Inr (attrs[unat i := a]))
                        else Inr attrs) (\<lambda>attrs.
               Inr (fp, types[unat i := e], attrs))))))"

definition attribute_maps :: "alloc \<Rightarrow> policydb \<Rightarrow> policy_file \<Rightarrow> (policy_file \<times> policydb) result" where
  "attribute_maps m p fp =
     (let n = nprim (p_types p); e = replicate (unat n) ebitmap_init in
      if \<not> malloc (at_site 0 m) \<or> \<not> malloc (at_site 1 m) then Inl STATUS_ERR
      else rbind (for_each (\<lambda>i. attribute_step (at_site (unat i) (at_site 2 m)) p i) (upto32 n) (fp, e, e)) (\<lambda>(fp, types, attrs).
        Inr (fp, p\<lparr>type_attr_map := types, attr_type_map := attrs\<rparr>)))"

section \<open>The file\<close>

definition read_symtab ::
  "alloc \<Rightarrow> (policydb \<Rightarrow> 'd symtab) \<Rightarrow> (('d symtab \<Rightarrow> 'd symtab) \<Rightarrow> policydb \<Rightarrow> policydb) \<Rightarrow>
   (alloc \<Rightarrow> policydb \<Rightarrow> (string, 'd) hashtab \<Rightarrow> policy_file \<Rightarrow> (policy_file \<times> (string, 'd) hashtab) result) \<Rightarrow>
   policydb \<Rightarrow> policy_file \<Rightarrow> (policy_file \<times> policydb) result"
where
  "read_symtab m get put read_f p fp =
     rbind (read_words 2 fp) (\<lambda>(fp, buf).
       rbind (for_each (\<lambda>j (fp, h). or_status (read_f (at_site (unat j) m) (put (table_update (\<lambda>_. h)) p) h fp))
           (upto32 (buf ! 1)) (fp, table (get p))) (\<lambda>(fp, h).
         Inr (fp, put (\<lambda>_. \<lparr>table = h, nprim = buf ! 0\<rparr>) p)))"

definition read_symtabs :: "alloc \<Rightarrow> nat \<Rightarrow> policydb \<Rightarrow> policy_file \<Rightarrow> (policy_file \<times> policydb) result" where
  "read_symtabs m sym_num p fp =
     for_each (\<lambda>i (fp, p).
       let m = at_site i m in
       if i = 0 then read_symtab m p_commons p_commons_update (\<lambda>m _. common_read m) p fp
       else if i = 1 then read_symtab m p_classes p_classes_update class_read p fp
       else if i = 2 then read_symtab m p_roles p_roles_update role_read p fp
       else if i = 3 then read_symtab m p_types p_types_update type_read p fp
       else if i = 4 then read_symtab m p_users p_users_update user_read p fp
       else if i = 5 then read_symtab m p_bools p_bools_update cond_read_bool p fp
       else if i = 6 then read_symtab m p_levels p_levels_update (\<lambda>m _. sens_read m) p fp
       else if i = 7 then read_symtab m p_cats p_cats_update (\<lambda>m _. cat_read m) p fp
       else Inl UB)
     [0..<sym_num] (fp, p)"

definition read_rules :: "alloc \<Rightarrow> (nat \<Rightarrow> nat \<Rightarrow> u32) \<Rightarrow> policydb \<Rightarrow> policy_file \<Rightarrow> (policy_file \<times> policydb) result" where
  "read_rules m stale p fp =
     rbind (avtab_read (at_site 0 m) (stale 0) (te_avtab p) fp (policyvers p)) (\<lambda>(fp, a).
       let p = p\<lparr>te_avtab := a\<rparr> in
       rbind (if policyvers p \<ge> POLICYDB_VERSION_BOOL
              then rbind (cond_read_list (at_site 1 m) (stale 1) p (cond_list p) fp) (\<lambda>(p, fp, l). Inr (fp, p\<lparr>cond_list := l\<rparr>))
              else Inr (fp, p)) (\<lambda>(fp, p).
         rbind (role_trans_read (at_site 2 m) p fp) (\<lambda>(fp, tr).
           rbind (role_allow_read (at_site 3 m) fp) (\<lambda>(fp, ra).
             let p = p\<lparr>role_tr := new_list (role_tr p) tr, p_role_allow := new_list (p_role_allow p) ra\<rparr> in
             if policyvers p \<ge> POLICYDB_VERSION_FILENAME_TRANS
             then rbind (filename_trans_read (at_site 4 m) fp) (\<lambda>(fp, ft).
               Inr (fp, p\<lparr>p_filename_trans := new_list (p_filename_trans p) ft\<rparr>))
             else Inr (fp, p)))))"

text \<open>What follows the symbols and the rules: the arrays, the object contexts, the ranges and the attributes.\<close>

definition read_contexts :: "alloc \<Rightarrow> nat \<Rightarrow> policydb \<Rightarrow> policy_file \<Rightarrow> (policy_file \<times> policydb) result" where
  "read_contexts m ocon_num p fp =
     rbind (policydb_index_decls (at_site 0 m) p) (\<lambda>p.
     rbind (policydb_index_classes (at_site 1 m) p) (\<lambda>p.
     rbind (policydb_index_others (at_site 2 m) p) (\<lambda>p.
     rbind (ocontext_read (at_site 3 m) ocon_num p fp) (\<lambda>(fp, p).
     rbind (genfs_read (at_site 4 m) p fp) (\<lambda>(fp, p).
     rbind (if policy_type p = POLICY_KERN \<and> policyvers p \<ge> POLICYDB_VERSION_MLS \<or>
               policy_type p = POLICY_BASE \<and> policyvers p \<ge> MOD_POLICYDB_VERSION_MLS \<and> policyvers p < MOD_POLICYDB_VERSION_RANGETRANS
            then range_read (at_site 5 m) p fp else Inr (fp, p)) (\<lambda>(fp, p).
       if policy_type p = POLICY_KERN then attribute_maps (at_site 6 m) p fp else Inr (fp, p)))))))"

definition policydb_set_target_platform :: "policydb \<Rightarrow> int \<Rightarrow> policydb \<times> int" where
  "policydb_set_target_platform p platform =
     (if platform = SEPOL_TARGET_SELINUX then (p\<lparr>target_platform := SEPOL_TARGET_SELINUX\<rparr>, 0)
      else if platform = SEPOL_TARGET_XEN then (p\<lparr>target_platform := SEPOL_TARGET_XEN\<rparr>, 0)
      else (p, - 1))"

definition read_bits :: "alloc \<Rightarrow> bool \<Rightarrow> ebitmap \<Rightarrow> policy_file \<Rightarrow> (policy_file \<times> ebitmap) result" where
  "read_bits m present e fp = (if present then ebitmap_read m fp else Inr (fp, e))"

definition read_kernel :: "alloc \<Rightarrow> (nat \<Rightarrow> nat \<Rightarrow> u32) \<Rightarrow> policydb \<Rightarrow> policy_file \<Rightarrow> (policy_file \<times> policydb) result" where
  "read_kernel m stale p fp =
     rbind (read_words 4 fp) (\<lambda>(fp, buf).
       let vers = buf ! 0 in
       if vers < POLICYDB_VERSION_MIN \<or> vers > POLICYDB_VERSION_MAX then Inl STATUS_ERR
       else
         let p = p\<lparr>policy_type := POLICY_KERN, policyvers := vers, mls := buf ! 1 AND POLICYDB_CONFIG_MLS \<noteq> 0,
                   handle_unknown := buf ! 1 AND POLICYDB_CONFIG_UNKNOWN_MASK\<rparr> in
         case policydb_lookup_compat vers POLICY_KERN (target_platform p) of
           None \<Rightarrow> Inl STATUS_ERR
         | Some (sym_num, ocon_num) \<Rightarrow>
             if buf ! 2 \<noteq> of_nat sym_num \<or> buf ! 3 \<noteq> of_nat ocon_num then Inl STATUS_ERR
             else rbind (read_bits (at_site 0 m) (vers \<ge> POLICYDB_VERSION_POLCAP) (policycaps p) fp) (\<lambda>(fp, caps).
               rbind (read_bits (at_site 1 m) (vers \<ge> POLICYDB_VERSION_PERMISSIVE) (permissive_map p) fp) (\<lambda>(fp, perm).
                 rbind (read_symtabs (at_site 2 m) sym_num (p\<lparr>policycaps := caps, permissive_map := perm\<rparr>) fp) (\<lambda>(fp, p).
                   rbind (read_rules (at_site 3 m) stale p fp) (\<lambda>(fp, p).
                     read_contexts (at_site 4 m) ocon_num p fp)))))"

definition POLICYDB_MOD_STRING :: string where "POLICYDB_MOD_STRING = ''SE Linux Module''"

definition MOD_POLICYDB_VERSION_MIN :: u32 where "MOD_POLICYDB_VERSION_MIN = 4"
definition MOD_POLICYDB_VERSION_MAX :: u32 where "MOD_POLICYDB_VERSION_MAX = 17"
definition MOD_POLICYDB_VERSION_POLCAP :: u32 where "MOD_POLICYDB_VERSION_POLCAP = 7"

definition read_module_name :: "alloc \<Rightarrow> policydb \<Rightarrow> policy_file \<Rightarrow> (policy_file \<times> policydb) result" where
  "read_module_name m p fp =
     rbind (read_words 1 fp) (\<lambda>(fp, l).
     rbind (read_name (at_site 0 m) fp (l ! 0)) (\<lambda>(fp, name).
     rbind (read_words 1 fp) (\<lambda>(fp, l).
     rbind (read_name (at_site 1 m) fp (l ! 0)) (\<lambda>(fp, vers).
       Inr (fp, p\<lparr>p_name := Some name, p_version := Some vers\<rparr>)))))"

definition read_module :: "alloc \<Rightarrow> (nat \<Rightarrow> nat \<Rightarrow> u32) \<Rightarrow> policydb \<Rightarrow> policy_file \<Rightarrow> (policy_file \<times> policydb) result" where
  "read_module m stale p fp =
     rbind (read_words 5 fp) (\<lambda>(fp, buf).
       let ty = buf ! 0; vers = buf ! 1 in
       if ty \<noteq> POLICY_MOD \<and> ty \<noteq> POLICY_BASE then Inl STATUS_ERR
       else if vers < MOD_POLICYDB_VERSION_MIN \<or> vers > MOD_POLICYDB_VERSION_MAX then Inl STATUS_ERR
       else
         let p = p\<lparr>policy_type := ty, policyvers := vers, mls := buf ! 2 AND POLICYDB_CONFIG_MLS \<noteq> 0,
                   handle_unknown := buf ! 2 AND POLICYDB_CONFIG_UNKNOWN_MASK\<rparr> in
         case policydb_lookup_compat vers ty (target_platform p) of
           None \<Rightarrow> Inl STATUS_ERR
         | Some (sym_num, ocon_num) \<Rightarrow>
             if buf ! 3 \<noteq> of_nat sym_num \<or> buf ! 4 \<noteq> of_nat ocon_num then Inl STATUS_ERR
             else
               rbind (if ty = POLICY_MOD then read_module_name (at_site 0 m) p fp else Inr (fp, p)) (\<lambda>(fp, p).
               rbind (read_bits (at_site 1 m) (vers \<ge> MOD_POLICYDB_VERSION_POLCAP) (policycaps p) fp) (\<lambda>(fp, caps).
               rbind (read_symtabs (at_site 2 m) sym_num (p\<lparr>policycaps := caps\<rparr>) fp) (\<lambda>(fp, p).
               rbind (avrule_block_read (at_site 3 m) (stale 1) (p\<lparr>p_global := []\<rparr>) sym_num fp) (\<lambda>(fp, p).
               rbind (read_scopes (at_site 4 m) sym_num p fp) (\<lambda>(fp, p).
                 read_contexts (at_site 5 m) ocon_num p fp))))))"

definition policydb_read ::
  "alloc \<Rightarrow> (nat \<Rightarrow> nat \<Rightarrow> u32) \<Rightarrow> policydb \<Rightarrow> policy_file \<Rightarrow> (policy_file \<times> policydb) result"
where
  "policydb_read m stale p fp =
     or_status (rbind (read_words 2 fp) (\<lambda>(fp, buf).
       if buf ! 0 \<noteq> POLICYDB_MAGIC \<and> buf ! 0 \<noteq> POLICYDB_MOD_MAGIC then Inl STATUS_ERR
       else if buf ! 1 > POLICYDB_STRING_MAX_LENGTH then Inl STATUS_ERR
       else rbind (read_name (at_site 0 m) fp (buf ! 1)) (\<lambda>(fp, str).
         if buf ! 0 = POLICYDB_MAGIC
         then case find (\<lambda>i. str = policydb_target_strings ! i) [0..<length policydb_target_strings] of
                None \<Rightarrow> Inl STATUS_ERR
              | Some i \<Rightarrow> read_kernel (at_site 1 m) stale (fst (policydb_set_target_platform p (int i))) fp
         else if str \<noteq> POLICYDB_MOD_STRING then Inl STATUS_ERR
         else read_module (at_site 1 m) stale p fp)))"

definition policydb_reindex_users :: "alloc \<Rightarrow> policydb \<Rightarrow> policydb result" where
  "policydb_reindex_users m p =
     (if \<not> malloc (at_site 0 m) then Inl STATUS_ERR
      else if \<not> malloc (at_site 1 m) then Inl STATUS_ERR
      else rbind (or_status (hashtab_map (table (p_users p)) user_index
          (p\<lparr>user_val_to_struct := new_array (p_users p), p_user_val_to_name := new_array (p_users p)\<rparr>))) (\<lambda>p.
        or_status (hashtab_map (table (p_users p)) (policydb_user_cache (at_site 2 m)) p)))"

end
