(* ===== verification/Server.thy ===== *)
theory Server
  imports Policydb_File
begin

text \<open>
  The state of the security server, \<^verbatim>\<open>src/services.c\<close>: its own policy, the policy and the SID table
  that are active, and the functions that replace them.  The operations of \<open>Services\<close> and
  \<open>Object_Sids\<close> become operations on this state.
\<close>

section \<open>State\<close>

text \<open>
  \<^verbatim>\<open>mypolicydb\<close> may have been destroyed; its members are then dangling pointers.  \<^verbatim>\<open>policydb\<close> points to
  it or to a policy of the caller, and \<open>sidtab\<close> is the table that the pointer of that name refers to.
\<close>

record server =
  mypolicydb :: policydb
  destroyed :: bool
  foreign :: "policydb option"
  sidtab :: sidtab

definition initial_server :: server where
  "initial_server =
     \<lparr>mypolicydb = zero_policydb, destroyed = False, foreign = None,
      sidtab = \<lparr>sidhtable = None, sidnel = 0, next_sid = 0, shutdown = 0\<rparr>\<rparr>"

definition the_policydb :: "server \<Rightarrow> policydb result" where
  "the_policydb s = (case foreign s of Some p \<Rightarrow> Inr p | None \<Rightarrow> if destroyed s then Inl UB else Inr (mypolicydb s))"

definition put_policydb :: "policydb \<Rightarrow> server \<Rightarrow> server" where
  "put_policydb p s = (case foreign s of Some _ \<Rightarrow> s\<lparr>foreign := Some p\<rparr> | None \<Rightarrow> s\<lparr>mypolicydb := p\<rparr>)"

definition sepol_set_sidtab :: "sidtab \<Rightarrow> server \<Rightarrow> server" where
  "sepol_set_sidtab t s = s\<lparr>sidtab := t\<rparr>"

definition sepol_set_policydb :: "policydb \<Rightarrow> server \<Rightarrow> server" where
  "sepol_set_policydb p s = s\<lparr>foreign := Some p\<rparr>"

text \<open>Destroying a policy twice frees its members twice.\<close>

definition destroy_mine :: "server \<Rightarrow> server result" where
  "destroy_mine s = (if destroyed s then Inl UB else Inr (s\<lparr>destroyed := True\<rparr>))"

text \<open>
  The old policy is destroyed only if its type is not zero, and zero is the type of a kernel policy.
  After a failure the type of \<^verbatim>\<open>mypolicydb\<close> is zero as well, unless the file was a module.
  Functions that change the state return it with their result; \<open>Inl UB\<close> leaves no meaningful state.
\<close>

definition sepol_set_policydb_from_file ::
  "alloc \<Rightarrow> (nat \<Rightarrow> nat \<Rightarrow> u32) \<Rightarrow> u8 list \<Rightarrow> server \<Rightarrow> unit result \<times> server"
where
  "sepol_set_policydb_from_file m stale bytes s =
     (let pf = \<lparr>ftype = PF_USE_STDIO, passed = [], data = [], len = 0, fp_in = bytes, fp_out = [], fp_room = 0\<rparr> in
      case (if policy_type (mypolicydb s) \<noteq> 0 then destroy_mine s else Inr s) of
        Inl e \<Rightarrow> (Inl e, s)
      | Inr s \<Rightarrow>
          (case policydb_init (at_site 0 m) of
             Inl UB \<Rightarrow> (Inl UB, s)
           | Inl _ \<Rightarrow> (Inl STATUS_ERR, s\<lparr>mypolicydb := zero_policydb, destroyed := True\<rparr>)
           | Inr p \<Rightarrow>
               (case policydb_read (at_site 1 m) stale p pf of
                  Inl UB \<Rightarrow> (Inl UB, s)
                | Inl _ \<Rightarrow> (Inl STATUS_ERR, s\<lparr>mypolicydb := zero_policydb, destroyed := True\<rparr>)
                | Inr (_, p) \<Rightarrow>
                    let s = s\<lparr>mypolicydb := p, destroyed := False, foreign := None\<rparr> in
                    (case sepol_sidtab_init (at_site 2 m) of
                       Inl e \<Rightarrow> (Inl e, s\<lparr>sidtab := (sidtab s)\<lparr>sidhtable := None\<rparr>\<rparr>)
                     | Inr t \<Rightarrow> (Inr (), s\<lparr>sidtab := t\<rparr>)))))"

section \<open>Initial SIDs\<close>

definition policydb_load_isids :: "alloc \<Rightarrow> policydb \<Rightarrow> sidtab result" where
  "policydb_load_isids m p =
     rbind (or_status (sepol_sidtab_init (at_site 0 m))) (\<lambda>t.
       rbind (idx (ocontexts p) OCON_ISID) (\<lambda>cs.
         for_each (\<lambda>(i, c) t.
             if user (oc_context0 c) = 0 then Inl STATUS_ERR
             else or_status (sepol_sidtab_insert (at_site (Suc i) m) t (oc_sid0 c) (oc_context0 c)))
           (enumerate 0 cs) t))"

section \<open>Loading a policy\<close>

definition validate_perm :: "(string, perm_datum) hashtab \<Rightarrow> string \<Rightarrow> perm_datum \<Rightarrow> unit \<Rightarrow> unit result" where
  "validate_perm h key perdatum _ =
     rbind (hashtab_search h key) (\<lambda>d. case d of
         None \<Rightarrow> Inl STATUS_ERR
       | Some perdatum2 \<Rightarrow> if perm_value perdatum \<noteq> perm_value perdatum2 then Inl STATUS_ERR else Inr ())"

definition validate_class :: "policydb \<Rightarrow> string \<Rightarrow> class_datum \<Rightarrow> unit \<Rightarrow> unit result" where
  "validate_class newp key cladatum _ =
     rbind (hashtab_search (table (p_classes newp)) key) (\<lambda>d. case d of
         None \<Rightarrow> Inl STATUS_ERR
       | Some cladatum2 \<Rightarrow>
           if class_value cladatum \<noteq> class_value cladatum2 then Inl STATUS_ERR
           else if (comdatum cladatum = None) \<noteq> (comdatum cladatum2 = None) then Inl STATUS_ERR
           else rbind (case (comdatum cladatum, comdatum cladatum2) of
                  (Some c, Some c2) \<Rightarrow>
                    or_status (hashtab_map (table (common_permissions c))
                      (validate_perm (table (common_permissions c2))) ())
                | _ \<Rightarrow> Inr ()) (\<lambda>_.
             or_status (hashtab_map (table (class_permissions cladatum))
               (validate_perm (table (class_permissions cladatum2))) ())))"

definition clone_sid :: "alloc \<Rightarrow> sid \<Rightarrow> context_struct \<Rightarrow> sidtab \<Rightarrow> sidtab result" where
  "clone_sid m sd c t = sepol_sidtab_insert (at_site (unat sd) m) t sd c"

definition convert_context_handle_invalid_context :: "alloc \<Rightarrow> policydb \<Rightarrow> context_struct \<Rightarrow> unit result" where
  "convert_context_handle_invalid_context m p c =
     (if selinux_enforcing then Inl EINVAL else text_for_message m p c)"

text \<open>The value that the new policy has for a name of the old one.\<close>

definition convert_value :: "string option list \<Rightarrow> u32 \<Rightarrow> 'd symtab \<Rightarrow> ('d \<Rightarrow> u32) \<Rightarrow> u32 result" where
  "convert_value ns v s val =
     rbind (val_idx ns v) (\<lambda>name. rbind (hashtab_search (table s) name) (\<lambda>d. case d of
         None \<Rightarrow> Inl EINVAL
       | Some d \<Rightarrow> Inr (val d)))"

text \<open>
  When the conversion fails the old context is written out for a message under the active policy,
  which is the old one here; the pointer to the text is used also if this fails.
\<close>

definition converted :: "alloc \<Rightarrow> policydb \<Rightarrow> policydb \<Rightarrow> context_struct \<Rightarrow> context_struct result" where
  "converted m oldp newp c =
     rbind (convert_value (p_user_val_to_name oldp) (user c) (p_users newp) user_value) (\<lambda>u.
       rbind (convert_value (p_role_val_to_name oldp) (role c) (p_roles newp) role_value) (\<lambda>r.
         rbind (convert_value (p_type_val_to_name oldp) (type c) (p_types newp) type_value) (\<lambda>ty.
           rbind (mls_convert_context (at_site 0 m) oldp newp (c\<lparr>user := u, role := r, type := ty\<rparr>)) (\<lambda>c'.
             rbind (policydb_context_isvalid newp c') (\<lambda>ok.
               if ok then Inr c'
               else rbind (convert_context_handle_invalid_context (at_site 1 m) oldp c) (\<lambda>_. Inr c'))))))"

definition convert_context :: "alloc \<Rightarrow> policydb \<Rightarrow> policydb \<Rightarrow> context_struct \<Rightarrow> context_struct result" where
  "convert_context m oldp newp c =
     (case context_cpy (at_site 0 m) context_init c of
        Inl _ \<Rightarrow> Inl ENOMEM
      | Inr _ \<Rightarrow>
          (case converted (at_site 1 m) oldp newp c of
             Inl UB \<Rightarrow> Inl UB
           | Inl e \<Rightarrow> rbind (text_for_message (at_site 2 m) oldp c) (\<lambda>_. Inl e)
           | Inr c' \<Rightarrow> Inr c'))"

text \<open>The callback for the SID table; undefined behaviour is kept in its argument.\<close>

definition convert_entry ::
  "alloc \<Rightarrow> policydb \<Rightarrow> policydb \<Rightarrow> sid \<Rightarrow> context_struct \<Rightarrow> unit result \<Rightarrow> bool \<times> context_struct \<times> unit result"
where
  "convert_entry m oldp newp sd c ub =
     (case convert_context (at_site (unat sd) m) oldp newp c of
        Inl UB \<Rightarrow> (True, c, Inl UB)
      | Inl _ \<Rightarrow> (True, c, ub)
      | Inr c' \<Rightarrow> (False, c', ub))"

text \<open>
  The new SID table: what the active one has, cloned and converted.  That \<^verbatim>\<open>sepol_sidtab_init\<close> may
  have failed is not looked at; its other members are then not initialised.
\<close>

definition clone_sidtab :: "alloc \<Rightarrow> (nat \<Rightarrow> u32) \<Rightarrow> sidtab \<Rightarrow> sidtab result" where
  "clone_sidtab m stale t =
     (let new = (case sepol_sidtab_init (at_site 0 m) of
            Inr n \<Rightarrow> n
          | Inl _ \<Rightarrow> \<lparr>sidhtable = None, sidnel = stale 0, next_sid = stale 1, shutdown = 0\<rparr>) in
      sepol_sidtab_map t (clone_sid (at_site 1 m)) new)"

definition convert_sidtab :: "alloc \<Rightarrow> policydb \<Rightarrow> policydb \<Rightarrow> sidtab \<Rightarrow> sidtab result" where
  "convert_sidtab m oldp newp t =
     rbind (sepol_sidtab_map_remove_on_error t (convert_entry m oldp newp) (Inr ())) (\<lambda>(t, ub).
       rbind ub (\<lambda>_. Inr t))"

text \<open>
  A file that cannot be read destroys the policy of the server, not the new one.  When the SID table
  cannot be cloned it stays shut down.  A new policy that \<^verbatim>\<open>genfs_read\<close> leaves with a freed entry counts as
  undefined here, although this function does not touch it again.
\<close>

definition sepol_load_policy ::
  "alloc \<Rightarrow> (nat \<Rightarrow> nat \<Rightarrow> u32) \<Rightarrow> u8 list \<Rightarrow> nat \<Rightarrow> server \<Rightarrow> unit result \<times> server"
where
  "sepol_load_policy m stale bytes n s =
     (let fp = \<lparr>ftype = PF_USE_MEMORY, passed = [], data = bytes, len = n, fp_in = [], fp_out = [], fp_room = 0\<rparr> in
      case policydb_init (at_site 0 m) of
        Inl UB \<Rightarrow> (Inl UB, s)
      | Inl _ \<Rightarrow> (Inl ENOMEM, s)
      | Inr newp \<Rightarrow>
          (case policydb_read (at_site 1 m) stale newp fp of
             Inl UB \<Rightarrow> (Inl UB, s)
           | Inl _ \<Rightarrow> (case destroy_mine s of Inl e \<Rightarrow> (Inl e, s) | Inr s \<Rightarrow> (Inl EINVAL, s))
           | Inr (_, newp) \<Rightarrow>
               (case the_policydb s of
                  Inl e \<Rightarrow> (Inl e, s)
                | Inr p \<Rightarrow>
                    (case hashtab_map (table (p_classes p)) (validate_class newp) () of
                       Inl UB \<Rightarrow> (Inl UB, s)
                     | Inl _ \<Rightarrow> (Inl EINVAL, s)
                     | Inr _ \<Rightarrow>
                         (case clone_sidtab (at_site 2 m) (stale 2) (sidtab s) of
                            Inl UB \<Rightarrow> (Inl UB, s)
                          | Inl _ \<Rightarrow> (Inl ENOMEM, s\<lparr>sidtab := sepol_sidtab_shutdown (sidtab s)\<rparr>)
                          | Inr t \<Rightarrow>
                              (case convert_sidtab (at_site 3 m) p newp t of
                                 Inl e \<Rightarrow> (Inl e, s)
                               | Inr t \<Rightarrow> (Inr (), put_policydb newp (s\<lparr>sidtab := sepol_sidtab_set (sidtab s) t\<rparr>))))))))"

end
