(* ===== verification/Read_Laws.thy ===== *)
theory Read_Laws
  imports Policydb_File
begin

text \<open>
  What the reader of a policy guarantees: the contexts in its object contexts are valid.
\<close>

section \<open>Valid contexts\<close>

abbreviation ctx_ok :: "policydb \<Rightarrow> context_struct \<Rightarrow> bool" where
  "ctx_ok p c \<equiv> policydb_context_isvalid p c = Inr True"

text \<open>Whether a context is valid depends on the symbols of the policy only.\<close>

definition symbols where
  "symbols p = ((mls p, p_roles p, p_types p, p_users p, p_levels p, p_cats p),
                (role_val_to_struct p, user_val_to_struct p, p_sens_val_to_name p, p_cat_val_to_name p))"

lemma symbols_frame [simp]:
  "symbols (p\<lparr>ocontexts := a\<rparr>) = symbols p"
  "symbols (p\<lparr>p_genfs := b\<rparr>) = symbols p"
  "symbols (p\<lparr>range_tr := d\<rparr>) = symbols p"
  "symbols (p\<lparr>type_attr_map := e\<rparr>) = symbols p"
  "symbols (p\<lparr>attr_type_map := f\<rparr>) = symbols p"
  "symbols (p\<lparr>p_global := g\<rparr>) = symbols p"
  by (simp_all add: symbols_def)

lemma cats_valid_cong: "symbols p = symbols q \<Longrightarrow> cats_valid p d is = cats_valid q d is"
  by (induction "is") (simp_all add: symbols_def split: option.splits)

lemma level_isvalid_cong: "symbols p = symbols q \<Longrightarrow> mls_level_isvalid p l = mls_level_isvalid q l"
proof -
  assume s: "symbols p = symbols q"
  then have "cats_valid p = cats_valid q" by (intro ext cats_valid_cong)
  then show "mls_level_isvalid p l = mls_level_isvalid q l" using s by (simp add: symbols_def mls_level_isvalid_def)
qed

lemma isvalid_cong: "symbols p = symbols q \<Longrightarrow> policydb_context_isvalid p c = policydb_context_isvalid q c"
proof -
  assume s: "symbols p = symbols q"
  then have "mls_level_isvalid p = mls_level_isvalid q" by (intro ext level_isvalid_cong)
  then have "mls_context_isvalid p c = mls_context_isvalid q c" using s by (simp add: symbols_def mls_context_isvalid_def cong: if_cong)
  then show "policydb_context_isvalid p c = policydb_context_isvalid q c"
    using s by (simp add: symbols_def policydb_context_isvalid_def context_is_valid_def cong: if_cong)
qed

lemma isvalid_frame [simp]:
  "policydb_context_isvalid (p\<lparr>ocontexts := a\<rparr>) c = policydb_context_isvalid p c"
  "policydb_context_isvalid (p\<lparr>p_genfs := b\<rparr>) c = policydb_context_isvalid p c"
  "policydb_context_isvalid (p\<lparr>range_tr := d\<rparr>) c = policydb_context_isvalid p c"
  "policydb_context_isvalid (p\<lparr>type_attr_map := e\<rparr>) c = policydb_context_isvalid p c"
  "policydb_context_isvalid (p\<lparr>attr_type_map := f\<rparr>) c = policydb_context_isvalid p c"
  "policydb_context_isvalid (p\<lparr>p_global := g\<rparr>) c = policydb_context_isvalid p c"
  by (rule isvalid_cong, simp)+

section \<open>The labels of a policy\<close>

text \<open>
  The second context of an object context is used in the lists of file systems and network
  interfaces, whose members have names.
\<close>

definition label_ok :: "policydb \<Rightarrow> nat \<Rightarrow> ocontext \<Rightarrow> bool" where
  "label_ok p i c \<longleftrightarrow> ctx_ok p (oc_context0 c) \<and>
     (i \<in> {OCON_FS, OCON_NETIF} \<and> (\<exists>s. oc_u c = U_name s) \<longrightarrow> ctx_ok p (oc_context1 c))"

definition genfs_ok :: "policydb \<Rightarrow> bool" where
  "genfs_ok p \<longleftrightarrow> (\<forall>g \<in> set (p_genfs p). \<forall>c \<in> set (head g). ctx_ok p (oc_context0 c))"

definition lists_ok :: "policydb \<Rightarrow> bool" where
  "lists_ok p \<longleftrightarrow> (\<forall>i < length (ocontexts p). \<forall>c \<in> set (ocontexts p ! i). label_ok p i c)"

definition labels_ok :: "policydb \<Rightarrow> bool" where
  "labels_ok p \<longleftrightarrow> lists_ok p \<and> genfs_ok p"

lemma with_context_ok:
  "with_context m p c fp = Inr (fp', c') \<Longrightarrow>
   ctx_ok p (oc_context0 c') \<and> oc_u c' = oc_u c \<and> oc_context1 c' = oc_context1 c"
  by (auto simp: with_context_def context_read_and_validate_def rbind_eq_Inr_iff Let_def split: if_splits)

lemma with_context1_ok:
  "with_context1 m p c fp = Inr (fp', c') \<Longrightarrow>
   ctx_ok p (oc_context1 c') \<and> oc_u c' = oc_u c \<and> oc_context0 c' = oc_context0 c"
  by (auto simp: with_context1_def context_read_and_validate_def rbind_eq_Inr_iff Let_def split: if_splits)

lemma ocontext_selinux_ok: "ocontext_selinux i m p fp = Inr (fp', c) \<Longrightarrow> label_ok p i c"
  unfolding ocontext_selinux_def label_ok_def
  by (auto simp: rbind_eq_Inr_iff oc_zero_def OCON_ISID_def OCON_FS_def OCON_NETIF_def OCON_PORT_def OCON_NODE_def
      OCON_FSUSE_def OCON_NODE6_def dest!: with_context_ok with_context1_ok split: if_splits)

lemma ocontext_xen_ok: "ocontext_xen i m p fp = Inr (fp', c) \<Longrightarrow> label_ok p i c"
  unfolding ocontext_xen_def label_ok_def
  by (auto simp: rbind_eq_Inr_iff oc_zero_def OCON_FS_def OCON_NETIF_def Let_def
      dest!: with_context_ok with_context1_ok split: if_splits)

lemma read_items_all:
  assumes "read_items m n f fp = Inr (fp', xs)" and "\<And>m fp fp' x. f m fp = Inr (fp', x) \<Longrightarrow> P x"
  shows "\<forall>x \<in> set xs. P x"
proof -
  have "\<forall>x \<in> set (snd (fp', xs)). P x"
    by (rule for_each_keeps [OF assms(1) [unfolded read_items_def], where I = "\<lambda>s. \<forall>x \<in> set (snd s). P x"])
      (force simp: rbind_eq_Inr_iff intro: assms(2) split: if_splits)+
  then show ?thesis by simp
qed

lemma ocontext_lists_ok:
  assumes "ocontext_lists item m n p fp = Inr (fp', p')" and "lists_ok p"
    and item: "\<And>i m p fp fp' c. item i m p fp = Inr (fp', c) \<Longrightarrow> label_ok p i c"
  shows "lists_ok p' \<and> (\<exists>l. p' = p\<lparr>ocontexts := l\<rparr>)"
proof -
  have "lists_ok (snd (fp', p')) \<and> (\<exists>l. snd (fp', p') = p\<lparr>ocontexts := l\<rparr>)"
  proof (rule for_each_keeps [OF assms(1) [unfolded ocontext_lists_def], where I = "\<lambda>s. lists_ok (snd s) \<and> (\<exists>l. snd s = p\<lparr>ocontexts := l\<rparr>)"])
    have "p = p\<lparr>ocontexts := ocontexts p\<rparr>" by simp
    then show "lists_ok (snd (fp, p)) \<and> (\<exists>l. snd (fp, p) = p\<lparr>ocontexts := l\<rparr>)" using assms(2) by (metis snd_conv)
  next
    fix i s s'
    assume inv: "lists_ok (snd s) \<and> (\<exists>l. snd s = p\<lparr>ocontexts := l\<rparr>)"
      and step: "(case s of (fp, p) \<Rightarrow> rbind (read_words 1 fp) (\<lambda>(fp, nel).
         rbind (read_items (at_site i m) (nel ! 0) (\<lambda>m. item i m p) fp) (\<lambda>(fp, cs).
           Inr (fp, p\<lparr>ocontexts := (ocontexts p)[i := new_list (ocontexts p ! i) cs]\<rparr>)))) = Inr s'"
    from step obtain fp1 fp2 n cs where items: "read_items (at_site i m) n (\<lambda>m. item i m (snd s)) fp1 = Inr (fp2, cs)"
      and s': "snd s' = (snd s)\<lparr>ocontexts := (ocontexts (snd s))[i := new_list (ocontexts (snd s) ! i) cs]\<rparr>"
      by (auto simp: rbind_eq_Inr_iff split: prod.splits)
    have cs: "\<forall>c \<in> set cs. label_ok (snd s) i c" using items item by (rule read_items_all)
    have "label_ok (snd s') k c" if "k < length (ocontexts (snd s'))" "c \<in> set (ocontexts (snd s') ! k)" for k c
      using inv cs that by (cases "k = i") (auto simp: s' lists_ok_def label_ok_def new_list_def split: if_splits)
    then show "lists_ok (snd s') \<and> (\<exists>l. snd s' = p\<lparr>ocontexts := l\<rparr>)" using inv by (auto simp: lists_ok_def s')
  qed
  then show ?thesis by simp
qed

lemma ocontext_read_ok:
  "ocontext_read m n p fp = Inr (fp', p') \<Longrightarrow> lists_ok p \<Longrightarrow> lists_ok p' \<and> (\<exists>l. p' = p\<lparr>ocontexts := l\<rparr>)"
  unfolding ocontext_read_def
  by (auto split: if_splits dest!: ocontext_lists_ok intro: ocontext_selinux_ok ocontext_xen_ok)

end
