(* ===== verification/Genfs_Laws.thy ===== *)
theory Genfs_Laws
  imports Read_Laws
begin

text \<open>
  The labels of file systems: the reader of a policy keeps the file systems sorted by name and the
  paths of each by decreasing length, so that the search for a path finds its longest prefix.
\<close>

section \<open>Paths\<close>

definition entry_name :: "ocontext \<Rightarrow> string" where
  "entry_name c = (case oc_u c of U_name s \<Rightarrow> s | _ \<Rightarrow> [])"

definition is_named :: "ocontext \<Rightarrow> bool" where
  "is_named c \<longleftrightarrow> (\<exists>s. oc_u c = U_name s)"

lemma oc_name_named: "is_named c \<Longrightarrow> oc_name c = Inr (entry_name c)"
  by (auto simp: is_named_def oc_name_def entry_name_def)

text \<open>Two entries for the same path and a common class.\<close>

definition conflict :: "ocontext \<Rightarrow> ocontext \<Rightarrow> bool" where
  "conflict a b \<longleftrightarrow> entry_name a = entry_name b \<and> (oc_v a = 0 \<or> oc_v b = 0 \<or> oc_v a = oc_v b)"

definition paths_wf :: "ocontext list \<Rightarrow> bool" where
  "paths_wf cs \<longleftrightarrow> (\<forall>c \<in> set cs. is_named c) \<and>
     sorted_wrt (\<lambda>a b. length (entry_name b) \<le> length (entry_name a) \<and> \<not> conflict a b) cs"

lemma genfs_insert_set: "genfs_insert c cs = Inr cs' \<Longrightarrow> set cs' = insert c (set cs)"
  by (induction cs arbitrary: cs') (auto simp: rbind_eq_Inr_iff split: if_splits)

lemma genfs_insert_wf:
  "genfs_insert c cs = Inr cs' \<Longrightarrow> is_named c \<Longrightarrow> paths_wf cs \<Longrightarrow> paths_wf cs'"
proof (induction cs arbitrary: cs')
  case Nil
  then show ?case by (auto simp: paths_wf_def)
next
  case (Cons d cs)
  then have d: "is_named d" "paths_wf cs" by (auto simp: paths_wf_def)
  have noconf: "\<not> (entry_name c = entry_name d \<and> (oc_v d = 0 \<or> oc_v c = 0 \<or> oc_v c = oc_v d))"
    using Cons.prems(1,2) d by (auto simp: oc_name_named strcmp_eq split: if_splits)
  show ?case
  proof (cases "length (entry_name d) < length (entry_name c)")
    case True
    then have "cs' = c # d # cs" using Cons.prems(1,2) d noconf by (simp add: oc_name_named strcmp_eq split: if_splits)
    then show ?thesis using Cons.prems True by (force simp: paths_wf_def conflict_def)
  next
    case False
    then obtain r where r: "genfs_insert c cs = Inr r" "cs' = d # r"
      using Cons.prems(1,2) d noconf by (auto simp: oc_name_named strcmp_eq rbind_eq_Inr_iff split: if_splits)
    have "paths_wf r" using Cons.IH [OF r(1) Cons.prems(2) d(2)] .
    then show ?thesis using Cons.prems(3) False noconf genfs_insert_set [OF r(1)]
      by (auto simp: r(2) paths_wf_def conflict_def)
  qed
qed

section \<open>File systems\<close>

definition genfs_wf :: "policydb \<Rightarrow> bool" where
  "genfs_wf p \<longleftrightarrow> sorted_wrt (\<lambda>g h. strcmp (fstype g) (fstype h) < 0) (p_genfs p) \<and>
     (\<forall>g \<in> set (p_genfs p). paths_wf (head g))"

lemma strcmp_less_trans: "strcmp a b < 0 \<Longrightarrow> strcmp b c < 0 \<Longrightarrow> strcmp a c < 0"
  using strcmp_trans [of c b a] strcmp_swap [of a b] strcmp_swap [of b c] strcmp_swap [of a c] by linarith

lemma genfs_place_parts: "genfs_place name gs = Inr (xs, ys) \<Longrightarrow> gs = xs @ ys"
  by (induction gs arbitrary: xs ys) (auto simp: rbind_eq_Inr_iff split: if_splits)

lemma genfs_place_sorted:
  "genfs_place name gs = Inr (xs, ys) \<Longrightarrow> sorted_wrt (\<lambda>g h. strcmp (fstype g) (fstype h) < 0) gs \<Longrightarrow>
   gs = xs @ ys \<and> (\<forall>g \<in> set xs. strcmp (fstype g) name < 0) \<and> (\<forall>g \<in> set ys. strcmp name (fstype g) < 0)"
proof (induction gs arbitrary: xs ys)
  case Nil
  then show ?case by simp
next
  case (Cons g gs)
  show ?case
  proof (cases "strcmp name (fstype g) < 0")
    case True
    then have "xs = []" "ys = g # gs" using Cons.prems(1) by (auto split: if_splits)
    then show ?thesis using True Cons.prems(2) by (auto intro: strcmp_less_trans)
  next
    case False
    then obtain xs' where "genfs_place name gs = Inr (xs', ys)" "xs = g # xs'" "strcmp name (fstype g) > 0"
      using Cons.prems(1) by (auto simp: rbind_eq_Inr_iff split: if_splits)
    then show ?thesis using Cons.IH Cons.prems(2) strcmp_swap [of name "fstype g"] by auto
  qed
qed

lemma after_entry_Inr [simp]: "after_entry linked r = Inr x \<longleftrightarrow> r = Inr x"
  by (simp add: after_entry_def split: sum.splits)

lemma genfs_entry_ok:
  assumes "genfs_entry m p (fp, cs) = Inr (fp', cs')" and "paths_wf cs" and "\<forall>c \<in> set cs. ctx_ok p (oc_context0 c)"
  shows "paths_wf cs' \<and> (\<forall>c \<in> set cs'. ctx_ok p (oc_context0 c)) \<and> cs' \<noteq> []"
proof -
  obtain fp1 fp2 n v c where c: "with_context (at_site 2 m) p (oc_zero\<lparr>oc_u := U_name n, oc_v := v\<rparr>) fp1 = Inr (fp2, c)"
    and ins: "genfs_insert c cs = Inr cs'"
    using assms(1) by (auto simp: genfs_entry_def rbind_eq_Inr_iff split: if_splits)
  have "is_named c" "ctx_ok p (oc_context0 c)"
    using c by (auto simp: is_named_def with_context_def context_read_and_validate_def rbind_eq_Inr_iff Let_def split: if_splits)
  then show ?thesis using genfs_insert_wf [OF ins] genfs_insert_set [OF ins] assms(2,3) by auto
qed

definition genfs_inv :: "policydb \<Rightarrow> policydb \<Rightarrow> bool" where
  "genfs_inv p q \<longleftrightarrow> (\<exists>g. q = p\<lparr>p_genfs := g\<rparr>) \<and> genfs_wf q \<and>
     (\<forall>g \<in> set (p_genfs q). \<forall>c \<in> set (head g). ctx_ok p (oc_context0 c))"

lemma genfs_step_ok:
  assumes "genfs_step m (fp, linked, q) = Inr (fp', linked', q')" and "genfs_inv p q"
  shows "genfs_inv p q'"
proof -
  let ?P = "\<lambda>(fp :: policy_file, cs). paths_wf cs \<and> (\<forall>c \<in> set cs. ctx_ok q (oc_context0 c))"
  obtain name xs ys fp1 n cs where place: "genfs_place name (p_genfs q) = Inr (xs, ys)"
    and entries: "for_each (\<lambda>j. genfs_entry (at_site (unat j) (at_site 2 m)) q) (upto32 n) (fp1, []) = Inr (fp', cs)"
    and q': "q' = q\<lparr>p_genfs := xs @ \<lparr>fstype = name, head = cs\<rparr> # ys\<rparr>"
    using assms(1) by (fastforce simp: genfs_step_def rbind_eq_Inr_iff split: if_splits)
  have "?P (fp', cs)"
    by (rule for_each_keeps [OF entries, where I = ?P]) (auto simp: paths_wf_def split: prod.splits dest!: genfs_entry_ok)
  moreover have "p_genfs q = xs @ ys" "\<forall>g \<in> set xs. strcmp (fstype g) name < 0" "\<forall>g \<in> set ys. strcmp name (fstype g) < 0"
    using genfs_place_sorted [OF place] assms(2) by (auto simp: genfs_inv_def genfs_wf_def)
  ultimately show ?thesis using assms(2)
    by (auto simp: q' genfs_inv_def genfs_wf_def sorted_wrt_append)
qed

lemma genfs_read_ok: "genfs_read m p fp = Inr (fp', q) \<Longrightarrow> genfs_inv p p \<Longrightarrow> genfs_inv p q"
proof -
  assume "genfs_read m p fp = Inr (fp', q)" and p: "genfs_inv p p"
  then obtain fp1 n l where loop: "for_each (\<lambda>i. genfs_step (at_site (unat i) m)) (upto32 n) (fp1, False, p) = Inr (fp', l, q)"
    by (auto simp: genfs_read_def rbind_eq_Inr_iff)
  have "(\<lambda>(_, _, q). genfs_inv p q) (fp', l, q)"
    by (rule for_each_keeps [OF loop]) (auto simp: p intro: genfs_step_ok)
  then show ?thesis by simp
qed

section \<open>Search\<close>

definition entry_matches :: "string \<Rightarrow> u16 \<Rightarrow> ocontext \<Rightarrow> bool" where
  "entry_matches path sclass c \<longleftrightarrow> (oc_v c = 0 \<or> oc_v c = ucast sclass) \<and> (\<exists>rest. path = entry_name c @ rest)"

lemma genfs_matches_named: "is_named c \<Longrightarrow> genfs_matches path sclass c = Inr (entry_matches path sclass c)"
proof -
  have "take (length s) path = s \<longleftrightarrow> (\<exists>rest. path = s @ rest)" for s by (metis append_eq_conv_conj append_take_drop_id)
  then show "is_named c \<Longrightarrow> genfs_matches path sclass c = Inr (entry_matches path sclass c)"
    by (auto simp: genfs_matches_def oc_name_named entry_matches_def)
qed

lemma oc_search_spec:
  "\<forall>c \<in> set cs. P c = Inr (Q c) \<Longrightarrow>
   oc_search P cs i = Inr (if \<exists>c \<in> set cs. Q c then Some (i + length (takeWhile (\<lambda>c. \<not> Q c) cs)) else None)"
  by (induction cs arbitrary: i) auto

lemma genfs_search_spec:
  "sorted_wrt (\<lambda>g h. strcmp (fstype g) (fstype h) < 0) gs \<Longrightarrow>
   (case genfs_search ty gs i of
      None \<Rightarrow> \<forall>g \<in> set gs. fstype g \<noteq> ty
    | Some k \<Rightarrow> \<exists>j < length gs. k = i + j \<and> fstype (gs ! j) = ty)"
proof (induction gs arbitrary: i)
  case Nil
  then show ?case by simp
next
  case (Cons g gs)
  consider "strcmp ty (fstype g) = 0" | "strcmp ty (fstype g) < 0" | "strcmp ty (fstype g) > 0" by linarith
  then show ?case
  proof cases
    case 1
    then have "ty = fstype g" by (simp add: strcmp_eq)
    then show ?thesis using 1 by (auto simp: Let_def)
  next
    case 2
    have "fstype h \<noteq> ty" if "h \<in> set (g # gs)" for h
      using 2 that Cons.prems strcmp_less_trans [of ty "fstype g" "fstype h"] strcmp_eq [of ty ty] by auto
    then show ?thesis using 2 by (simp add: Let_def)
  next
    case 3
    then have "genfs_search ty (g # gs) i = genfs_search ty gs (Suc i)" "fstype g \<noteq> ty"
      using strcmp_eq [of ty ty] by (auto simp: Let_def)
    then show ?thesis using Cons.IH [of "Suc i"] Cons.prems by (fastforce split: option.splits)
  qed
qed

lemma sorted_unique:
  assumes "sorted_wrt (\<lambda>g h. strcmp (fstype g) (fstype h) < 0) gs" and "g \<in> set gs" and "k < length gs"
    and "fstype g = fstype (gs ! k)"
  shows "g = gs ! k"
proof -
  obtain j where j: "j < length gs" "g = gs ! j" using assms(2) by (auto simp: in_set_conv_nth)
  have "strcmp (fstype g) (fstype g) = 0" by (simp add: strcmp_eq)
  then have "\<not> j < k" "\<not> k < j" using assms(1,3,4) j by (force simp: sorted_wrt_iff_nth_less)+
  then show ?thesis using j by (metis linorder_neqE_nat)
qed

lemma first_match_longest:
  assumes "paths_wf cs" and "\<exists>c \<in> set cs. entry_matches path sclass c"
    and i: "i = length (takeWhile (\<lambda>c. \<not> entry_matches path sclass c) cs)"
  shows "i < length cs \<and> entry_matches path sclass (cs ! i) \<and>
    (\<forall>d \<in> set cs. entry_matches path sclass d \<longrightarrow> d = cs ! i \<or> length (entry_name d) < length (entry_name (cs ! i)))"
proof -
  have lt: "i < length cs" using assms(2) unfolding i by (metis (mono_tags, lifting) length_takeWhile_le le_neq_implies_less takeWhile_eq_all_conv takeWhile_eq_take take_all order_refl)
  have m: "entry_matches path sclass (cs ! i)" using nth_length_takeWhile lt unfolding i by blast
  have "length (entry_name (cs ! j)) < length (entry_name (cs ! i))"
    if j: "j < length cs" "entry_matches path sclass (cs ! j)" "j \<noteq> i" for j
  proof -
    have "\<not> j < i" using j(2) unfolding i by (metis (no_types, lifting) nth_mem set_takeWhileD takeWhile_nth)
    with j have ij: "i < j" by simp
    then have s: "length (entry_name (cs ! j)) \<le> length (entry_name (cs ! i)) \<and> \<not> conflict (cs ! i) (cs ! j)"
      using assms(1) j(1) by (auto simp: paths_wf_def sorted_wrt_iff_nth_less)
    have "entry_name (cs ! i) = entry_name (cs ! j)" if "length (entry_name (cs ! j)) = length (entry_name (cs ! i))"
      using m j(2) that by (auto simp: entry_matches_def append_eq_append_conv)
    then show ?thesis using s m j(2) by (fastforce simp: conflict_def entry_matches_def)
  qed
  then show ?thesis using lt m by (metis in_set_conv_nth)
qed

text \<open>What \<^verbatim>\<open>sepol_genfs_sid\<close> does with the entry it has found.\<close>

definition labels_with ::
  "alloc \<Rightarrow> ocontext \<Rightarrow> sidtab \<Rightarrow> sid option \<times> unit result \<Rightarrow> sidtab \<Rightarrow> bool"
where
  "labels_with m c t out t' \<longleftrightarrow>
     (if oc_sid0 c \<noteq> 0 then out = (Some (oc_sid0 c), Inr ()) \<and> t' = t
      else case ctx_sid m (oc_context0 c) t of
             (Inl e, u) \<Rightarrow> out = (None, Inl e) \<and> t' = u
           | (Inr sd, u) \<Rightarrow> out = (Some sd, Inr ()) \<and> t' = u)"

text \<open>
  C7: In a policy whose file systems are as the reader leaves them, \<^verbatim>\<open>sepol_genfs_sid\<close> takes the SID from
  the entry with the longest path that is a prefix of the given one and whose class fits; there is
  only one.  If no entry fits, it returns \<^verbatim>\<open>ENOENT\<close> with the SID of unlabeled objects and changes nothing.
\<close>

theorem genfs_sid_longest:
  assumes "genfs_wf p" and "sepol_genfs_sid m ty path sclass p t = (out, p', t')"
  shows "if \<exists>g \<in> set (p_genfs p). fstype g = ty \<and> (\<exists>c \<in> set (head g). entry_matches path sclass c)
    then \<exists>g \<in> set (p_genfs p). \<exists>c \<in> set (head g). fstype g = ty \<and> entry_matches path sclass c \<and>
      (\<forall>d \<in> set (head g). entry_matches path sclass d \<longrightarrow> d = c \<or> length (entry_name d) < length (entry_name c)) \<and>
      labels_with m c t out t'
    else out = (Some SECINITSID_UNLABELED, Inl ENOENT) \<and> p' = p \<and> t' = t"
proof (cases "genfs_search ty (p_genfs p) 0")
  case None
  then have "\<forall>g \<in> set (p_genfs p). fstype g \<noteq> ty"
    using genfs_search_spec [of "p_genfs p" ty 0] assms(1) by (simp add: genfs_wf_def)
  then show ?thesis using assms(2) None by (auto simp: sepol_genfs_sid_def)
next
  case (Some k)
  let ?g = "p_genfs p ! k"
  have k: "k < length (p_genfs p)" "fstype ?g = ty"
    using genfs_search_spec [of "p_genfs p" ty 0] assms(1) Some by (auto simp: genfs_wf_def)
  then have g: "?g \<in> set (p_genfs p)" "paths_wf (head ?g)" using assms(1) by (simp_all add: genfs_wf_def)
  have only: "g = ?g" if "g \<in> set (p_genfs p)" "fstype g = ty" for g
    using sorted_unique [of "p_genfs p" g k] assms(1) k that by (simp add: genfs_wf_def)
  define i where "i = length (takeWhile (\<lambda>c. \<not> entry_matches path sclass c) (head ?g))"
  have search: "oc_search (genfs_matches path sclass) (head ?g) 0 =
      Inr (if \<exists>c \<in> set (head ?g). entry_matches path sclass c then Some i else None)"
    using oc_search_spec [of "head ?g" "genfs_matches path sclass" "entry_matches path sclass" 0] g(2)
    by (simp add: i_def paths_wf_def genfs_matches_named)
  show ?thesis
  proof (cases "\<exists>c \<in> set (head ?g). entry_matches path sclass c")
    case True
    have i: "i < length (head ?g)" "entry_matches path sclass (head ?g ! i)"
      "\<forall>d \<in> set (head ?g). entry_matches path sclass d \<longrightarrow>
         d = head ?g ! i \<or> length (entry_name d) < length (entry_name (head ?g ! i))"
      using first_match_longest [OF g(2) True i_def] by blast+
    have "labels_with m (head ?g ! i) t out t'"
      using assms(2) Some search True
      by (auto simp: sepol_genfs_sid_def labels_with_def label_one_def split: prod.splits sum.splits if_splits)
    then show ?thesis using i g(1) k(2) by (smt (verit, best) nth_mem)
  next
    case False
    then have "\<not> (\<exists>g \<in> set (p_genfs p). fstype g = ty \<and> (\<exists>c \<in> set (head g). entry_matches path sclass c))"
      using only by blast
    then show ?thesis using assms(2) Some search False by (auto simp: sepol_genfs_sid_def)
  qed
qed

definition sample_paths :: "ocontext list" where
  "sample_paths = [oc_zero\<lparr>oc_u := U_name ''/a'', oc_sid0 := 7\<rparr>, oc_zero\<lparr>oc_u := U_name ''/'', oc_sid0 := 8\<rparr>]"

theorem genfs_sid_longest_witness:
  "fst (sepol_genfs_sid no_oom ''proc'' ''/ab'' 0 (zero_policydb\<lparr>p_genfs := [\<lparr>fstype = ''proc'', head = sample_paths\<rparr>]\<rparr>)
     \<lparr>sidhtable = None, sidnel = 0, next_sid = 1, shutdown = 0\<rparr>)
     = (Some 7, Inr ())"
proof -
  let ?p = "zero_policydb\<lparr>p_genfs := [\<lparr>fstype = ''proc'', head = sample_paths\<rparr>]\<rparr>"
    and ?t = "\<lparr>sidhtable = None, sidnel = 0, next_sid = 1, shutdown = 0\<rparr>"
  have wf: "genfs_wf ?p" by (simp add: genfs_wf_def paths_wf_def is_named_def conflict_def entry_name_def sample_paths_def)
  obtain out p' t' where run: "sepol_genfs_sid no_oom ''proc'' ''/ab'' 0 ?p ?t = (out, p', t')" by (metis prod_cases3)
  have ex: "\<exists>g \<in> set (p_genfs ?p). fstype g = ''proc'' \<and> (\<exists>c \<in> set (head g). entry_matches ''/ab'' 0 c)"
    by (simp add: sample_paths_def entry_matches_def entry_name_def oc_zero_def)
  have "\<exists>c \<in> set sample_paths. entry_matches ''/ab'' 0 c \<and>
      (\<forall>d \<in> set sample_paths. entry_matches ''/ab'' 0 d \<longrightarrow> d = c \<or> length (entry_name d) < length (entry_name c)) \<and>
      labels_with no_oom c ?t out t'"
    using genfs_sid_longest [OF wf run] ex by simp
  then have "labels_with no_oom (hd sample_paths) ?t out t'"
    by (auto simp: sample_paths_def entry_matches_def entry_name_def oc_zero_def)
  then have "out = (Some 7, Inr ())" by (simp add: labels_with_def sample_paths_def)
  then show ?thesis by (simp only: run fst_conv)
qed

section \<open>Truncated files\<close>

text \<open>A path has been linked into a list as soon as there is one.\<close>

lemma genfs_step_linked:
  assumes "genfs_step m (fp, linked, q) = Inr (fp', linked', q')"
    and "(\<exists>g \<in> set (p_genfs q). head g \<noteq> []) \<longrightarrow> linked"
  shows "(\<exists>g \<in> set (p_genfs q'). head g \<noteq> []) \<longrightarrow> linked'"
proof -
  obtain name xs ys cs where place: "genfs_place name (p_genfs q) = Inr (xs, ys)"
    and l: "linked' = (linked \<or> cs \<noteq> [])" "q' = q\<lparr>p_genfs := xs @ \<lparr>fstype = name, head = cs\<rparr> # ys\<rparr>"
    using assms(1) by (auto simp: genfs_step_def rbind_eq_Inr_iff split: if_splits)
  have "p_genfs q = xs @ ys" using place by (rule genfs_place_parts)
  then show ?thesis using assms(2) l by auto
qed

definition stdio_file :: "u8 list \<Rightarrow> policy_file" where
  "stdio_file bs = \<lparr>ftype = PF_USE_STDIO, passed = [], data = [], len = 0, fp_in = bs, fp_out = [], fp_room = 0\<rparr>"

lemma read_words_stdio:
  "ws \<noteq> [] \<Longrightarrow> n = length ws \<Longrightarrow>
   read_words n (stdio_file (concat (map cpu_to_le32 ws) @ d)) = Inr (stdio_file d, ws)"
proof -
  assume ws: "ws \<noteq> []" "n = length ws"
  have len: "length (concat (map cpu_to_le32 ws)) = 4 * n" unfolding ws(2) by (induction ws) simp_all
  then have "next_entry (stdio_file (concat (map cpu_to_le32 ws) @ d)) (4 * n)
      = Inr (stdio_file d, concat (map cpu_to_le32 ws))"
    using ws by (simp add: next_entry_def stdio_file_def)
  then show ?thesis using le_words_concat [of ws "[]"] ws by (simp add: read_words_def or_status_def)
qed

lemma read_one [simp]: "read_words (Suc 0) (stdio_file (cpu_to_le32 a @ d)) = Inr (stdio_file d, [a])"
  using read_words_stdio [of "[a]" 1 d] by simp

lemma read_three [simp]:
  "read_words 3 (stdio_file (cpu_to_le32 a @ cpu_to_le32 b @ cpu_to_le32 c @ d)) = Inr (stdio_file d, [a, b, c])"
  using read_words_stdio [of "[a, b, c]" 3 d] by simp

lemma read_end [simp]: "read_words (Suc n) (stdio_file []) = Inl STATUS_ERR"
  by (simp add: read_words_def next_entry_def stdio_file_def or_status_def)

lemma upto32_snoc: "n + 1 \<noteq> 0 \<Longrightarrow> upto32 (n + 1) = upto32 n @ [n]"
proof -
  assume "n + 1 \<noteq> 0"
  then have "unat (n + 1) = Suc (unat n)" by (metis unatSuc add.commute)
  then show "upto32 (n + 1) = upto32 n @ [n]" by (simp add: upto32_def)
qed

text \<open>
  C39: \<^verbatim>\<open>genfs_read\<close> on a file that ends where another file system should follow, after it has read a path:
  the path that is already in the list of its file system is freed, so that the policy is left with a
  freed entry.  Here \<open>body\<close> is read completely as \<open>n\<close> file systems.
\<close>

theorem genfs_read_truncated:
  assumes "p_genfs p = []" and "n + 1 \<noteq> 0"
    and "genfs_read m p (stdio_file (cpu_to_le32 n @ body)) = Inr (stdio_file [], q)"
    and "\<exists>g \<in> set (p_genfs q). head g \<noteq> []"
  shows "genfs_read m p (stdio_file (cpu_to_le32 (n + 1) @ body)) = Inl UB"
proof -
  let ?f = "\<lambda>i. genfs_step (at_site (unat i) m)"
  obtain l where loop: "for_each ?f (upto32 n) (stdio_file body, False, p) = Inr (stdio_file [], l, q)"
    using assms(3) by (auto simp: genfs_read_def rbind_eq_Inr_iff)
  have "(\<lambda>(_, l, q). (\<exists>g \<in> set (p_genfs q). head g \<noteq> []) \<longrightarrow> l) (stdio_file [], l, q)"
    by (rule for_each_keeps [OF loop]) (auto simp: assms(1) dest: genfs_step_linked)
  then have l using assms(4) by simp
  then have "?f n (stdio_file [], l, q) = Inl UB" by (simp add: genfs_step_def after_entry_def)
  then have "for_each ?f (upto32 (n + 1)) (stdio_file body, False, p) = Inl UB"
    using loop assms(2) by (simp add: upto32_snoc for_each_append)
  then show ?thesis by (simp add: genfs_read_def)
qed

definition one_of_each :: policydb where
  "one_of_each = zero_policydb\<lparr>p_roles := zero_symtab\<lparr>nprim := 1\<rparr>, p_users := zero_symtab\<lparr>nprim := 1\<rparr>,
     p_types := zero_symtab\<lparr>nprim := 1\<rparr>\<rparr>"

definition sample_genfs :: "u8 list" where
  "sample_genfs = cpu_to_le32 1 @ [112] @ cpu_to_le32 1 @
     cpu_to_le32 1 @ [47] @ cpu_to_le32 0 @ cpu_to_le32 1 @ cpu_to_le32 1 @ cpu_to_le32 1"

lemma read_letter: "read_name no_oom (stdio_file (b # d)) 1 = Inr (stdio_file d, cstring [b])"
  by (simp add: read_name_def next_entry_def stdio_file_def or_status_def)

lemma sample_genfs_read:
  "genfs_read no_oom one_of_each (stdio_file (cpu_to_le32 1 @ sample_genfs)) =
   Inr (stdio_file [], one_of_each\<lparr>p_genfs := [\<lparr>fstype = ''p'', head = [oc_zero\<lparr>oc_u := U_name ''/'',
     oc_context0 := \<lparr>user = 1, role = 1, type = 1, range = range context_init\<rparr>\<rparr>]\<rparr>]\<rparr>)"
proof -
  let ?c = "\<lparr>user = 1, role = 1, type = 1, range = range context_init\<rparr>"
  have ok: "policydb_context_isvalid one_of_each ?c = Inr True"
    by (simp add: policydb_context_isvalid_def context_is_valid_def mls_context_isvalid_def one_of_each_def
        zero_policydb_def OBJECT_R_VAL_def)
  have old: "\<not> kern_or_base one_of_each POLICYDB_VERSION_MLS MOD_POLICYDB_VERSION_MLS"
    by (simp add: kern_or_base_def one_of_each_def zero_policydb_def POLICYDB_VERSION_MLS_def POLICY_KERN_def POLICY_BASE_def)
  have c: "with_context no_oom one_of_each (oc_zero\<lparr>oc_u := U_name ''/'', oc_v := 0\<rparr>)
      (stdio_file (cpu_to_le32 1 @ cpu_to_le32 1 @ cpu_to_le32 1)) =
      Inr (stdio_file [], oc_zero\<lparr>oc_u := U_name ''/'', oc_context0 := ?c\<rparr>)"
    using read_three [of 1 1 1 "[]"] ok old
    by (simp add: with_context_def context_read_and_validate_def oc_zero_def context_init_def)
  have letters: "cstring [112] = ''p''" "cstring [47] = ''/''" by (simp_all add: cstring_def char_of_def bit_Suc_0_iff)
  have entry: "genfs_entry no_oom one_of_each (stdio_file (cpu_to_le32 1 @ 47 # cpu_to_le32 0 @ cpu_to_le32 1 @ cpu_to_le32 1 @ cpu_to_le32 1), []) =
      Inr (stdio_file [], [oc_zero\<lparr>oc_u := U_name ''/'', oc_context0 := ?c\<rparr>])"
    using c by (simp add: genfs_entry_def read_letter letters)
  have none: "p_genfs one_of_each = []" by (simp add: one_of_each_def zero_policydb_def)
  show ?thesis
    by (simp add: genfs_read_def upto32_1 [simplified] genfs_step_def sample_genfs_def entry read_letter letters after_entry_def none)
qed

theorem genfs_read_truncated_witness:
  "genfs_read no_oom one_of_each (stdio_file (cpu_to_le32 2 @ sample_genfs)) = Inl UB"
  using genfs_read_truncated [OF _ _ sample_genfs_read] by (simp add: one_of_each_def zero_policydb_def)

end
