(* ===== verification/Attribute_Laws.thy ===== *)
theory Attribute_Laws
  imports Read_Laws
begin

text \<open>
  The maps between types and attributes that the reader of a policy builds.
\<close>

section \<open>Bitmaps from a file\<close>

text \<open>
  A bitmap that was read may have a high bit beyond its last node.  Iterating over it then leaves the
  last node, so that a loop that ends shows that the bitmap is canonical.
\<close>

lemma node_offset:
  assumes "k \<le> MAPSIZE" and "unat (startbit n) + MAPSIZE \<le> unat (hb :: u32)"
  shows "unat (startbit n + of_nat k) = unat (startbit n) + k"
proof -
  have "unat (of_nat k :: u32) = k" using assms(1) by (simp add: unat_of_nat MAPSIZE_def)
  then show ?thesis using assms unat_less_2p32 [of hb] by (subst unat_word_ariths(1)) simp
qed

lemma visit_step_UB:
  assumes "k < MAPSIZE" and "unat (startbit n) + MAPSIZE \<le> unat hb"
    and "ebitmap_next (n # ns) (startbit n + of_nat k) = (ns', b')" and "visit_loop hb ns' b' = Inl UB"
  shows "visit_loop hb (n # ns) (startbit n + of_nat k) = Inl UB"
proof -
  have "startbit n + of_nat k < hb" using assms(1,2) node_offset [of k n hb] by (simp add: word_less_nat_alt)
  moreover obtain v where "ebitmap_node_get_bit n (startbit n + of_nat k) = Inr v"
    using assms(1) by (simp add: ebitmap_node_get_bit_def unat_of_nat MAPSIZE_def)
  ultimately show ?thesis using assms(3,4) by (subst visit_loop.simps) simp
qed

lemma visit_block_UB:
  assumes "unat (startbit n) + MAPSIZE \<le> unat hb"
    and "\<exists>ns' b'. ebitmap_next (n # ns) (startbit n + of_nat (MAPSIZE - 1)) = (ns', b') \<and> visit_loop hb ns' b' = Inl UB"
  shows "visit_loop hb (n # ns) (startbit n) = Inl UB"
proof -
  have "visit_loop hb (n # ns) (startbit n + of_nat k) = Inl UB" if "k \<le> MAPSIZE - 1" for k
    using that
  proof (induction k rule: inc_induct)
    case base
    then show ?case using assms visit_step_UB [of "MAPSIZE - 1" n hb ns] by (auto simp: MAPSIZE_def)
  next
    case (step k)
    have "unat (startbit n + of_nat k) = unat (startbit n) + k" using node_offset [of k n hb] step.hyps assms(1) by simp
    then have "ebitmap_next (n # ns) (startbit n + of_nat k) = (n # ns, startbit n + of_nat (Suc k))"
      using step.hyps by (cases ns) (auto simp: add.commute add.left_commute)
    then show ?case using step visit_step_UB [of k n hb ns] assms(1) by simp
  qed
  from this [of 0] show ?thesis by simp
qed

lemma visit_past_end:
  assumes "ns \<noteq> []" and "\<forall>n \<in> set ns. unat (startbit n) + MAPSIZE \<le> unat hb"
    and "unat (startbit (last ns)) + MAPSIZE < unat hb"
  shows "visit_loop hb ns (startbit (hd ns)) = Inl UB"
  using assms
proof (induction ns)
  case Nil
  then show ?case by simp
next
  case (Cons n ns)
  let ?b = "startbit n + of_nat (MAPSIZE - 1)"
  have n: "unat (startbit n) + MAPSIZE \<le> unat hb" using Cons.prems by simp
  have b: "unat ?b = unat (startbit n) + (MAPSIZE - 1)" using node_offset [of "MAPSIZE - 1" n hb] n by simp
  have "\<exists>ns' b'. ebitmap_next (n # ns) ?b = (ns', b') \<and> visit_loop hb ns' b' = Inl UB"
  proof (cases ns)
    case Nil
    have "?b + 1 = startbit n + of_nat MAPSIZE" by (simp add: MAPSIZE_def)
    moreover have "startbit n + of_nat MAPSIZE < hb"
      using node_offset [of MAPSIZE n hb] n Cons.prems(3) Nil by (simp add: word_less_nat_alt)
    moreover have "ebitmap_node_get_bit n (startbit n + of_nat MAPSIZE) = Inl UB"
      by (simp add: ebitmap_node_get_bit_def MAPSIZE_def)
    ultimately have "visit_loop hb [n] (?b + 1) = Inl UB" by (simp only: visit_loop.simps [of hb "[n]"]) simp
    then show ?thesis using Nil by simp
  next
    case (Cons n' ns')
    then show ?thesis using Cons.IH Cons.prems b by (simp add: MAPSIZE_def)
  qed
  then show ?case using visit_block_UB n by simp
qed

lemma visited_wf:
  assumes "ebitmap_ok e" and "ebitmap_for_each_bit e = Inr vs"
  shows "ebitmap_wf e"
proof (cases "nodes e = []")
  case True
  then have "highbit e = 0" using assms(2) by (auto simp: ebitmap_for_each_bit_def ebitmap_startbit_def visit_loop.simps word_gt_0 split: if_splits)
  then show ?thesis using True by (simp add: ebitmap_wf_def)
next
  case False
  then have "last (nodes e) \<in> set (nodes e)" by simp
  then have le: "unat (startbit (last (nodes e))) + MAPSIZE \<le> unat (highbit e)" using assms(1) by (auto simp: ebitmap_ok_def)
  have "visit_loop (highbit e) (nodes e) (startbit (hd (nodes e))) = Inr vs"
    using assms(2) False by (simp add: ebitmap_for_each_bit_def ebitmap_startbit_def hd_def split: list.splits)
  then have "\<not> unat (startbit (last (nodes e))) + MAPSIZE < unat (highbit e)"
    using visit_past_end [OF False, of "highbit e"] assms(1) by (auto simp: ebitmap_ok_def)
  then have "unat (highbit e) = unat (startbit (last (nodes e))) + MAPSIZE" using le by simp
  then show ?thesis using assms(1) False ebitmap_wf_iff [of e] by force
qed

section \<open>The two maps\<close>

text \<open>What the loop over the attributes \<open>vs\<close> of type \<open>i\<close> adds to the entry of attribute \<open>k\<close>.\<close>

definition noted :: "u32 \<Rightarrow> nat \<Rightarrow> (u32 \<times> bool) list \<Rightarrow> nat set" where
  "noted i k vs = (if k \<noteq> unat i \<and> (\<exists>j. (j, True) \<in> set vs \<and> unat j = k) then {unat i} else {})"

lemma noted_skip: "\<not> b \<or> i = j \<Longrightarrow> noted i k (ys @ [(j, b)]) = noted i k ys"
  by (auto simp: noted_def)

lemma noted_other: "k \<noteq> unat j \<Longrightarrow> noted i k (ys @ [(j, b)]) = noted i k ys"
  by (auto simp: noted_def)

lemma noted_new: "i \<noteq> j \<Longrightarrow> S \<union> noted i (unat j) (ys @ [(j, True)]) = insert (unat i) (S \<union> noted i (unat j) ys)"
  by (auto simp: noted_def word_unat_eq_iff)

lemma set_bit_Inr_holds: "holds e S \<Longrightarrow> ebitmap_set_bit m e b True = Inr e' \<Longrightarrow> holds e' (insert (unat b) S)"
  using set_bit_wf set_bit_ebits by (fastforce simp: holds_def ebitmap_wf_def)

lemma note_attribute_bits:
  assumes "for_each (note_attribute m i) vs attrs = Inr attrs'" and S: "\<forall>k < length attrs. holds (attrs ! k) (S k)"
  shows "length attrs' = length attrs \<and> (\<forall>k < length attrs. holds (attrs' ! k) (S k \<union> noted i k vs)) \<and>
    (\<forall>j. (j, True) \<in> set vs \<longrightarrow> j = i \<or> unat j < length attrs)"
    (is "?I vs attrs'")
proof (rule for_each_invar [OF assms(1), where I = ?I])
  show "?I [] attrs" using S by (simp add: noted_def)
next
  fix ys y zs a a'
  assume I: "?I ys a" and step: "note_attribute m i y a = Inr a'"
  obtain j b where y: "y = (j, b)" by fastforce
  show "?I (ys @ [y]) a'"
  proof (cases "\<not> b \<or> i = j")
    case True
    then show ?thesis using I step y by (auto simp: note_attribute_def noted_skip)
  next
    case False
    then obtain e where j: "unat j < length attrs" and e: "ebitmap_set_bit (at_site (unat j) m) (a ! unat j) i True = Inr e"
      and a': "a' = a[unat j := e]"
      using step y I by (auto simp: note_attribute_def rbind_eq_Inr_iff idx_def split: if_splits)
    have "holds e (S (unat j) \<union> noted i (unat j) (ys @ [y]))"
      using I j False set_bit_Inr_holds [OF _ e] noted_new [of i j "S (unat j)" ys] y by simp
    then have "holds (a' ! k) (S k \<union> noted i k (ys @ [y]))" if "k < length attrs" for k
      using I j that noted_other [of k j i ys b] y by (cases "k = unat j") (auto simp: a')
    then show ?thesis using I j y by (auto simp: a')
  qed
qed

text \<open>A primary type that is no attribute.\<close>

definition is_type :: "policydb \<Rightarrow> nat \<Rightarrow> bool" where
  "is_type p i \<longleftrightarrow> (\<exists>d. type_val_to_struct p ! i = Some d \<and> type_flavor d \<noteq> TYPE_ATTRIB)"

text \<open>The set of attributes of one type and what is noted of it in the other map.\<close>

definition entry_of :: "policydb \<Rightarrow> nat \<Rightarrow> nat set \<Rightarrow> nat \<Rightarrow> nat set" where
  "entry_of p i T k = (if k \<noteq> i \<and> k \<in> T \<or> k = i \<and> is_type p i then {i} else {})"

lemma positive_in_ebits:
  assumes "ebitmap_wf e" and "ebitmap_for_each_bit e = Inr vs"
  shows "(\<exists>j. (j, True) \<in> set vs \<and> unat j = k) \<longleftrightarrow> k \<in> ebits e"
proof -
  have "ebitmap_positive_bits e = Inr (map fst (filter snd vs))" using assms(2) by (simp add: ebitmap_positive_bits_def)
  then have "unat ` set (map fst (filter snd vs)) = ebits e"
    using bits_holds [of e "ebits e"] assms(1) by (auto simp: holds_def)
  then have "k \<in> ebits e \<longleftrightarrow> k \<in> unat ` set (map fst (filter snd vs))" by simp
  also have "\<dots> \<longleftrightarrow> (\<exists>j. (j, True) \<in> set vs \<and> unat j = k)" by force
  finally show ?thesis by simp
qed

lemma attributes_noted:
  assumes "(if policyvers p \<ge> POLICYDB_VERSION_AVTAB
            then rbind (or_status (ebitmap_read m fp)) (\<lambda>(fp, e).
              rbind (ebitmap_for_each_bit e) (\<lambda>vs.
                rbind (for_each (note_attribute m' i) vs attrs) (\<lambda>attrs. Inr (fp, e, attrs))))
            else Inr (fp, e0, attrs)) = Inr (fp', e, attrs')"
    and "holds e0 {}" and "\<forall>k < length attrs. holds (attrs ! k) (S k)"
  shows "ebitmap_wf e \<and> length attrs' = length attrs \<and> (\<forall>b \<in> ebits e. b = unat i \<or> b < length attrs) \<and>
    (\<forall>k < length attrs. holds (attrs' ! k) (S k \<union> (if k \<noteq> unat i \<and> k \<in> ebits e then {unat i} else {})))"
proof (cases "policyvers p \<ge> POLICYDB_VERSION_AVTAB")
  case True
  then obtain vs where rd: "ebitmap_read m fp = Inr (fp', e)" and vs: "ebitmap_for_each_bit e = Inr vs"
    and loop: "for_each (note_attribute m' i) vs attrs = Inr attrs'"
    using assms(1) by (auto simp: rbind_eq_Inr_iff)
  have wf: "ebitmap_wf e" using ebitmap_read_ok(1) [OF rd] vs by (rule visited_wf)
  have "noted i k vs = (if k \<noteq> unat i \<and> k \<in> ebits e then {unat i} else {})" for k
    using positive_in_ebits [OF wf vs] by (simp add: noted_def)
  moreover have "b = unat i \<or> b < length attrs" if "b \<in> ebits e" for b
    using that positive_in_ebits [OF wf vs, of b] note_attribute_bits [OF loop assms(3)] by blast
  ultimately show ?thesis using note_attribute_bits [OF loop assms(3)] wf by simp
next
  case False
  then show ?thesis using assms by (auto simp: holds_def)
qed

lemma attribute_step_spec:
  assumes "attribute_step m p i (fp, types, attrs) = Inr (fp', types', attrs')"
    and "holds (types ! unat i) {}" and "unat i < length types" and "length attrs = length types"
    and "\<forall>k < length attrs. holds (attrs ! k) (S k)"
  shows "\<exists>e T. types' = types[unat i := e] \<and> holds e T \<and> unat i \<in> T \<and> T \<subseteq> {..<length attrs} \<and>
    length attrs' = length attrs \<and> (\<forall>k < length attrs. holds (attrs' ! k) (S k \<union> entry_of p (unat i) T k))"
proof -
  obtain fp1 e e' as t where rd: "(if policyvers p \<ge> POLICYDB_VERSION_AVTAB
            then rbind (or_status (ebitmap_read (at_site 0 m) fp)) (\<lambda>(fp, e).
              rbind (ebitmap_for_each_bit e) (\<lambda>vs.
                rbind (for_each (note_attribute (at_site 1 m) i) vs attrs) (\<lambda>attrs. Inr (fp, e, attrs))))
            else Inr (fp, types ! unat i, attrs)) = Inr (fp1, e, as)"
    and e': "ebitmap_set_bit (at_site 2 m) e i True = Inr e'" "types' = types[unat i := e']"
    and t: "idx (type_val_to_struct p) (unat i) = Inr t"
    and last: "(case t of None \<Rightarrow> Inr as
        | Some d \<Rightarrow> if type_flavor d \<noteq> TYPE_ATTRIB
            then rbind (or_status (ebitmap_set_bit (at_site 3 m) (as ! unat i) i True)) (\<lambda>a. Inr (as[unat i := a]))
            else Inr as) = Inr attrs'"
    using assms(1) by (simp add: attribute_step_def) (force simp: rbind_eq_Inr_iff)
  note n = attributes_noted [OF rd assms(2,5)]
  have E: "holds e' (insert (unat i) (ebits e))" using n set_bit_Inr_holds [OF _ e'(1)] by (simp add: holds_def)
  have sub: "insert (unat i) (ebits e) \<subseteq> {..<length attrs}" using n assms(3,4) by auto
  have ty: "is_type p (unat i) \<longleftrightarrow> (\<exists>d. t = Some d \<and> type_flavor d \<noteq> TYPE_ATTRIB)"
    using t by (auto simp: is_type_def idx_def split: if_splits)
  have "length attrs' = length attrs \<and>
      (\<forall>k < length attrs. holds (attrs' ! k) (S k \<union> entry_of p (unat i) (insert (unat i) (ebits e)) k))"
  proof (cases "is_type p (unat i)")
    case True
    then obtain a where a: "ebitmap_set_bit (at_site 3 m) (as ! unat i) i True = Inr a" "attrs' = as[unat i := a]"
      using last ty by (auto simp: rbind_eq_Inr_iff)
    have "holds (as ! unat i) (S (unat i))" using n assms(3,4) by force
    then have "holds a (insert (unat i) (S (unat i)))" using set_bit_Inr_holds a(1) by blast
    then show ?thesis using n True assms(3,4) by (auto simp: a(2) entry_of_def nth_list_update)
  next
    case False
    then have "attrs' = as" using last ty by (auto split: option.splits if_splits)
    then show ?thesis using n False by (auto simp: entry_of_def)
  qed
  then show ?thesis using E sub e'(2) by blast
qed

definition maps_inv ::
  "policydb \<Rightarrow> nat \<Rightarrow> (nat \<Rightarrow> nat set) \<Rightarrow> nat set \<Rightarrow> ebitmap list \<Rightarrow> ebitmap list \<Rightarrow> bool"
where
  "maps_inv p n T D types attrs \<longleftrightarrow> length types = n \<and> length attrs = n \<and>
     (\<forall>i \<in> D. holds (types ! i) (T i) \<and> i \<in> T i \<and> T i \<subseteq> {..<n}) \<and>
     (\<forall>i < n. i \<notin> D \<longrightarrow> types ! i = ebitmap_init) \<and>
     (\<forall>k < n. holds (attrs ! k) (\<Union>i \<in> D. entry_of p i (T i) k))"

lemma maps_inv_step:
  assumes "maps_inv p n T D types attrs" and "unat y < n" and "unat y \<notin> D"
    and "attribute_step m p y (fp, types, attrs) = Inr (fp', types', attrs')"
  shows "\<exists>T. maps_inv p n T (insert (unat y) D) types' attrs'"
proof -
  have "holds (types ! unat y) {}" "unat y < length types" "length attrs = length types"
    "\<forall>k < length attrs. holds (attrs ! k) (\<Union>i \<in> D. entry_of p i (T i) k)"
    using assms(1-3) by (auto simp: maps_inv_def)
  from attribute_step_spec [OF assms(4) this] obtain e U where U: "types' = types[unat y := e]" "holds e U" "unat y \<in> U"
    "U \<subseteq> {..<n}" "length attrs' = n" "\<forall>k < n. holds (attrs' ! k) ((\<Union>i \<in> D. entry_of p i (T i) k) \<union> entry_of p (unat y) U k)"
    using assms(1) by (auto simp: maps_inv_def)
  let ?T = "T(unat y := U)"
  have same: "(\<Union>i \<in> insert (unat y) D. entry_of p i (?T i) k) = (\<Union>i \<in> D. entry_of p i (T i) k) \<union> entry_of p (unat y) U k" for k
    using assms(3) by (auto split: if_splits)
  have "holds (types' ! i) (?T i) \<and> i \<in> ?T i \<and> ?T i \<subseteq> {..<n}" if "i \<in> insert (unat y) D" for i
    using assms(1-3) U(1-4) that by (cases "i = unat y") (auto simp: maps_inv_def)
  moreover have "types' ! i = ebitmap_init" if "i < n" "i \<notin> insert (unat y) D" for i
    using assms(1) U(1) that by (auto simp: maps_inv_def)
  moreover have "length types' = n" using assms(1) U(1) by (simp add: maps_inv_def)
  ultimately have "maps_inv p n ?T (insert (unat y) D) types' attrs'"
    unfolding maps_inv_def same using U(5,6) by blast
  then show ?thesis by blast
qed

lemma unat_image_less: "unat ` {i. i < (v :: u32)} = {..<unat v}"
proof -
  have "k \<in> unat ` {i. i < v}" if "k < unat v" for k
  proof -
    have "unat (of_nat k :: u32) = k" using that unat_less_2p32 [of v] by (simp add: unat_of_nat)
    then show ?thesis using that by (intro image_eqI [of _ _ "of_nat k"]) (simp_all add: word_less_nat_alt)
  qed
  then show ?thesis by (auto simp: word_less_nat_alt)
qed

text \<open>
  C6: The maps that \<^verbatim>\<open>policydb_read\<close> builds have one entry for every type value, hold canonical bitmaps of
  type values, and are converse to each other: a type other than \<open>k\<close> is in the entry of \<open>k\<close> in
  \<^verbatim>\<open>attr_type_map\<close> exactly if \<open>k\<close> is in its entry of \<^verbatim>\<open>type_attr_map\<close>.  Every type is an attribute of
  itself, and \<open>k\<close> is in its own entry of \<^verbatim>\<open>attr_type_map\<close> exactly if it is a type and not an attribute.
\<close>

theorem attribute_maps_converse:
  assumes "attribute_maps m p fp = Inr (fp', q)" and "n = unat (nprim (p_types p))"
  shows "length (type_attr_map q) = n \<and> length (attr_type_map q) = n \<and>
    (\<forall>i < n. ebitmap_wf (type_attr_map q ! i) \<and> i \<in> ebits (type_attr_map q ! i) \<and> ebits (type_attr_map q ! i) \<subseteq> {..<n}) \<and>
    (\<forall>k < n. ebitmap_wf (attr_type_map q ! k) \<and> ebits (attr_type_map q ! k) =
       {i. i < n \<and> (if i = k then is_type p i else k \<in> ebits (type_attr_map q ! i))})"
proof -
  let ?f = "\<lambda>i. attribute_step (at_site (unat i) (at_site 2 m)) p i" and ?e = "replicate n ebitmap_init"
  let ?I = "\<lambda>ys (fp, types, attrs). \<exists>T. maps_inv p n T (unat ` set ys) types attrs"
  obtain types attrs where loop: "for_each ?f (upto32 (nprim (p_types p))) (fp, ?e, ?e) = Inr (fp', types, attrs)"
    and q: "q = p\<lparr>type_attr_map := types, attr_type_map := attrs\<rparr>"
    using assms by (auto simp: attribute_maps_def Let_def rbind_eq_Inr_iff split: if_splits)
  have "?I (upto32 (nprim (p_types p))) (fp', types, attrs)"
  proof (rule for_each_invar [OF loop, where I = ?I])
    show "?I [] (fp, ?e, ?e)" by (simp add: maps_inv_def)
  next
    fix ys y zs s s'
    assume up: "upto32 (nprim (p_types p)) = ys @ y # zs" and I: "?I ys s" and step: "?f y s = Inr s'"
    have "y < nprim (p_types p)" using up set_upto32 [of "nprim (p_types p)"] by auto
    then have "unat y < n" by (simp add: assms(2) word_less_nat_alt)
    moreover have "unat y \<notin> unat ` set ys" using up distinct_upto32 [of "nprim (p_types p)"] by (auto simp: word_unat_eq_iff [symmetric])
    ultimately show "?I (ys @ [y]) s'" using I step maps_inv_step [of p n _ "unat ` set ys"] by (cases s, cases s') fastforce
  qed
  moreover have "unat ` set (upto32 (nprim (p_types p))) = {..<n}"
    unfolding set_upto32 assms(2) by (rule unat_image_less)
  ultimately obtain T where T: "maps_inv p n T {..<n} types attrs" by auto
  then have "ebits (types ! i) = T i" if "i < n" for i using that by (auto simp: maps_inv_def holds_def)
  then have "(\<Union>i \<in> {..<n}. entry_of p i (T i) k) = {i. i < n \<and> (if i = k then is_type p i else k \<in> ebits (types ! i))}" for k
    by (auto simp: entry_of_def split: if_splits)
  then show ?thesis using T by (auto simp: q maps_inv_def holds_def)
qed

definition one_type :: policydb where
  "one_type = zero_policydb\<lparr>policyvers := 20, p_types := zero_symtab\<lparr>nprim := 1\<rparr>, type_val_to_struct := [Some type_zero]\<rparr>"

theorem attribute_maps_converse_witness:
  "\<exists>fp' q. attribute_maps no_oom one_type (mem_file [] (ebitmap_enc ebitmap_init)) = Inr (fp', q) \<and>
     length (type_attr_map q) = 1 \<and> ebits (attr_type_map q ! 0) = {0}"
proof -
  let ?fp = "mem_file [] (ebitmap_enc ebitmap_init)"
  obtain fp' where rd: "ebitmap_read no_oom ?fp = Inr (fp', ebitmap_init)"
    using ebitmap_read_mem [of ebitmap_init "[]" "[]"] by auto
  obtain e where e: "ebitmap_set_bit no_oom ebitmap_init 0 True = Inr e"
    using ebitmap_set_bit_total [of 0 no_oom True ebitmap_init] by (auto simp: MAPSIZE_def)
  have p: "policyvers one_type = 20" "nprim (p_types one_type) = 1" "type_val_to_struct one_type = [Some type_zero]"
    by (simp_all add: one_type_def)
  have "ebitmap_for_each_bit ebitmap_init = Inr []"
    by (simp add: ebitmap_for_each_bit_def ebitmap_init_def visit_loop.simps)
  then have "attribute_step no_oom one_type 0 (?fp, [ebitmap_init], [ebitmap_init]) = Inr (fp', [e], [e])"
    using rd e by (simp add: attribute_step_def p POLICYDB_VERSION_AVTAB_def or_status_def idx_def type_zero_def TYPE_ATTRIB_def)
  then obtain q where q: "attribute_maps no_oom one_type ?fp = Inr (fp', q)"
    by (simp add: attribute_maps_def p upto32_1 [simplified])
  have "ebits (attr_type_map q ! 0) = {i. i < 1 \<and> (if i = 0 then is_type one_type i else 0 \<in> ebits (type_attr_map q ! i))}
      \<and> length (type_attr_map q) = 1"
    using attribute_maps_converse [OF q, of 1] by (simp add: p)
  moreover have "is_type one_type 0" by (simp add: is_type_def p type_zero_def TYPE_ATTRIB_def)
  ultimately show ?thesis using q by auto
qed

end
