(* ===== verification/Index_Laws.thy ===== *)
theory Index_Laws
  imports Policydb_Index Mls_Laws Expand_Laws
begin

text \<open>
  Indexing a policy database: the arrays lead from the value of every symbol back to its name.
\<close>

section \<open>Arrays of names\<close>

text \<open>The symbols that count have values of their own.\<close>

definition own_values :: "('d \<Rightarrow> u32) \<Rightarrow> ('d \<Rightarrow> bool) \<Rightarrow> (string \<times> 'd) list \<Rightarrow> bool" where
  "own_values val counted ns \<longleftrightarrow> (\<forall>n \<in> set ns. \<forall>n' \<in> set ns. counted (snd n) \<longrightarrow> counted (snd n') \<longrightarrow>
     val (snd n) - 1 = val (snd n') - 1 \<longrightarrow> fst n = fst n')"

definition table_ok :: "('d \<Rightarrow> u32) \<Rightarrow> ('d \<Rightarrow> bool) \<Rightarrow> 'd symtab \<Rightarrow> bool" where
  "table_ok val counted s \<longleftrightarrow> symtab_wf s \<and> own_values val counted (entries (the (table s))) \<and>
     (nprim s = 0 \<longrightarrow> entries (the (table s)) = [])"

lemma symtab_wf_table:
  assumes "symtab_wf s"
  obtains h where "table s = Some h" "length (htable h) = unat (hsize h)" "symtab_map s = map_of (entries h)"
  using assms by (auto simp: symtab_wf_def hashtab_wf_def symtab_map_def hmap_def)

text \<open>
  What the functions that index one symbol have in common: a symbol that counts is entered under
  its value into the array of names, others change nothing there.
\<close>

locale index_array =
  fixes val :: "'d \<Rightarrow> u32"
    and counted :: "'d \<Rightarrow> bool"
    and names_of :: "policydb \<Rightarrow> string option list"
    and step :: "string \<Rightarrow> 'd \<Rightarrow> policydb \<Rightarrow> policydb result"
  assumes step_sets: "step k d p = Inr p' \<Longrightarrow>
      (if counted d then unat (val d - 1) < length (names_of p) \<and> names_of p' = (names_of p)[unat (val d - 1) := Some k]
       else names_of p' = names_of p)"
begin

lemma loop_names:
  assumes res: "for_each (\<lambda>n. step (fst n) (snd n)) ns p = Inr p'" and own: "own_values val counted ns"
    and n: "n \<in> set ns" "counted (snd n)"
  shows "val_idx (names_of p') (val (snd n)) = Inr (fst n)"
proof -
  let ?i = "\<lambda>n. unat (val (snd n) - 1)"
  have "length (names_of p') = length (names_of p) \<and>
      (\<forall>n \<in> set ns. counted (snd n) \<longrightarrow> ?i n < length (names_of p) \<and> names_of p' ! ?i n = Some (fst n))"
    using res
  proof (rule for_each_invar)
    fix ys y zs s s'
    assume ns: "ns = ys @ y # zs" and step: "step (fst y) (snd y) s = Inr s'"
      and I: "length (names_of s) = length (names_of p) \<and>
        (\<forall>n \<in> set ys. counted (snd n) \<longrightarrow> ?i n < length (names_of p) \<and> names_of s ! ?i n = Some (fst n))"
    have "fst n = fst y" if "n \<in> set ys" "counted (snd n)" "counted (snd y)" "?i n = ?i y" for n
    proof -
      have "val (snd n) - 1 = val (snd y) - 1" using that(4) by (simp only: word_unat_eq_iff)
      then show ?thesis using own that ns unfolding own_values_def by auto
    qed
    then show "length (names_of s') = length (names_of p) \<and>
        (\<forall>n \<in> set (ys @ [y]). counted (snd n) \<longrightarrow> ?i n < length (names_of p) \<and> names_of s' ! ?i n = Some (fst n))"
      using step_sets [OF step] I by (auto simp: nth_list_update split: if_splits)
  qed simp
  then show ?thesis using n by (auto simp: val_idx_Inr)
qed

lemma index_table_names:
  assumes s: "table_ok val counted s" and res: "index_table m s set_names step p = Inr p'"
    and d: "symtab_map s k = Some d" "counted d"
  shows "val_idx (names_of p') (val d) = Inr k"
proof -
  from s have "symtab_wf s" by (simp add: table_ok_def)
  then obtain h where h: "table s = Some h" "length (htable h) = unat (hsize h)" "symtab_map s = map_of (entries h)"
    by (rule symtab_wf_table)
  have e: "(k, d) \<in> set (entries h)" using d(1) h(3) by (simp add: map_of_SomeD)
  then have "nprim s \<noteq> 0" using s h(1) by (auto simp: table_ok_def)
  then have "hashtab_map (Some h) step (set_names (new_array s) (set_names [] p)) = Inr p'"
    using res h(1) by (auto simp: index_table_def Let_def split: if_splits)
  then show ?thesis
    using loop_names [of "entries h" _ p' "(k, d)"] s h e d(2) by (simp add: hashtab_map_entries table_ok_def)
qed

end

lemmas index_defs = common_index_def class_index_def role_index_def type_index_def user_index_def sens_index_def
  cat_index_def cond_index_bool_def val_set_def

interpretation ix_common: index_array common_value "\<lambda>_. True" p_common_val_to_name common_index
  by unfold_locales (auto simp: index_defs split: if_splits)

interpretation ix_class: index_array class_value "\<lambda>_. True" p_class_val_to_name class_index
  by unfold_locales (auto simp: index_defs split: if_splits)

interpretation ix_role: index_array role_value "\<lambda>_. True" p_role_val_to_name role_index
  by unfold_locales (auto simp: index_defs split: if_splits)

interpretation ix_type: index_array type_value "\<lambda>d. primary d \<noteq> 0" p_type_val_to_name type_index
  by unfold_locales (auto simp: index_defs split: if_splits)

interpretation ix_user: index_array user_value "\<lambda>_. True" p_user_val_to_name user_index
  by unfold_locales (auto simp: index_defs split: if_splits)

interpretation ix_bool: index_array bool_value "\<lambda>_. True" p_bool_val_to_name cond_index_bool
  by unfold_locales (auto simp: index_defs split: if_splits)

interpretation ix_sens: index_array "\<lambda>d. sens (the (level d))" "\<lambda>d. level_isalias d = 0" p_sens_val_to_name sens_index
  by unfold_locales (auto simp: index_defs split: if_splits option.splits)

interpretation ix_cat: index_array cat_value "\<lambda>d. cat_isalias d = 0" p_cat_val_to_name cat_index
  by unfold_locales (auto simp: index_defs split: if_splits)

section \<open>What the steps leave alone\<close>

lemma hashtab_map_frame:
  assumes res: "hashtab_map hp f p = Inr p'" and wf: "\<And>h. hp = Some h \<Longrightarrow> length (htable h) = unat (hsize h)"
    and base: "R p p" and step: "\<And>k d q q'. R p q \<Longrightarrow> f k d q = Inr q' \<Longrightarrow> R p q'"
  shows "R p p'"
proof (cases hp)
  case None
  with res base show ?thesis by (simp add: hashtab_map_def)
next
  case (Some h)
  with res wf have "for_each (\<lambda>n. f (fst n) (snd n)) (entries h) p = Inr p'" by (simp add: hashtab_map_entries)
  then show ?thesis
    by (rule for_each_invar [where I = "\<lambda>_. R p"]) (use base step in auto)
qed

lemma index_table_keeps:
  assumes res: "index_table m s set_names f p = Inr p'" and wf: "symtab_wf s"
    and names: "\<And>a q. g (set_names a q) = g q" and step: "\<And>k d q q'. f k d q = Inr q' \<Longrightarrow> g q' = g q"
  shows "g p' = g p"
proof -
  from wf obtain h where h: "table s = Some h" "length (htable h) = unat (hsize h)" "symtab_map s = map_of (entries h)"
    by (rule symtab_wf_table)
  have "g p' = g q" if "for_each (\<lambda>n. f (fst n) (snd n)) (entries h) q = Inr p'" for q
    using that by (rule for_each_invar [where I = "\<lambda>_ s. g s = g q"]) (use step in auto)
  then show ?thesis
    using res names h by (auto simp: index_table_def Let_def hashtab_map_entries split: if_splits)
qed

text \<open>The database without what the stages of indexing change.\<close>

definition no_roles :: "policydb \<Rightarrow> policydb" where
  "no_roles p = p\<lparr>p_role_val_to_name := [], role_val_to_struct := []\<rparr>"

definition no_types :: "policydb \<Rightarrow> policydb" where
  "no_types p = p\<lparr>p_type_val_to_name := [], type_val_to_struct := []\<rparr>"

definition no_users :: "policydb \<Rightarrow> policydb" where
  "no_users p = p\<lparr>p_user_val_to_name := [], user_val_to_struct := []\<rparr>"

definition no_bools :: "policydb \<Rightarrow> policydb" where
  "no_bools p = p\<lparr>p_bool_val_to_name := [], bool_val_to_struct := []\<rparr>"

definition no_levels :: "policydb \<Rightarrow> policydb" where
  "no_levels p = p\<lparr>p_sens_val_to_name := []\<rparr>"

definition no_cats :: "policydb \<Rightarrow> policydb" where
  "no_cats p = p\<lparr>p_cat_val_to_name := []\<rparr>"

definition no_caches :: "policydb \<Rightarrow> policydb" where
  "no_caches p = p\<lparr>p_roles := zero_symtab, role_val_to_struct := [], p_users := zero_symtab, user_val_to_struct := []\<rparr>"

lemmas stage_defs = no_roles_def no_types_def no_users_def no_bools_def no_levels_def no_cats_def no_caches_def

lemma stage_keeps:
  "index_table m s1 (\<lambda>a p. p\<lparr>p_role_val_to_name := a\<rparr>) role_index p = Inr p' \<Longrightarrow> symtab_wf s1 \<Longrightarrow> no_roles p' = no_roles p"
  "index_table m s2 (\<lambda>a p. p\<lparr>p_type_val_to_name := a\<rparr>) type_index p = Inr p' \<Longrightarrow> symtab_wf s2 \<Longrightarrow> no_types p' = no_types p"
  "index_table m s3 (\<lambda>a p. p\<lparr>p_user_val_to_name := a\<rparr>) user_index p = Inr p' \<Longrightarrow> symtab_wf s3 \<Longrightarrow> no_users p' = no_users p"
  "index_table m s4 (\<lambda>a p. p\<lparr>p_bool_val_to_name := a\<rparr>) cond_index_bool p = Inr p' \<Longrightarrow> symtab_wf s4 \<Longrightarrow> no_bools p' = no_bools p"
  "index_table m s5 (\<lambda>a p. p\<lparr>p_sens_val_to_name := a\<rparr>) sens_index p = Inr p' \<Longrightarrow> symtab_wf s5 \<Longrightarrow> no_levels p' = no_levels p"
  "index_table m s6 (\<lambda>a p. p\<lparr>p_cat_val_to_name := a\<rparr>) cat_index p = Inr p' \<Longrightarrow> symtab_wf s6 \<Longrightarrow> no_cats p' = no_cats p"
proof -
  show "index_table m s1 (\<lambda>a p. p\<lparr>p_role_val_to_name := a\<rparr>) role_index p = Inr p' \<Longrightarrow> symtab_wf s1 \<Longrightarrow> no_roles p' = no_roles p"
    by (erule index_table_keeps) (auto simp: index_defs stage_defs split: if_splits)
  show "index_table m s2 (\<lambda>a p. p\<lparr>p_type_val_to_name := a\<rparr>) type_index p = Inr p' \<Longrightarrow> symtab_wf s2 \<Longrightarrow> no_types p' = no_types p"
    by (erule index_table_keeps) (auto simp: index_defs stage_defs split: if_splits)
  show "index_table m s3 (\<lambda>a p. p\<lparr>p_user_val_to_name := a\<rparr>) user_index p = Inr p' \<Longrightarrow> symtab_wf s3 \<Longrightarrow> no_users p' = no_users p"
    by (erule index_table_keeps) (auto simp: index_defs stage_defs split: if_splits)
  show "index_table m s4 (\<lambda>a p. p\<lparr>p_bool_val_to_name := a\<rparr>) cond_index_bool p = Inr p' \<Longrightarrow> symtab_wf s4 \<Longrightarrow> no_bools p' = no_bools p"
    by (erule index_table_keeps) (auto simp: index_defs stage_defs split: if_splits)
  show "index_table m s5 (\<lambda>a p. p\<lparr>p_sens_val_to_name := a\<rparr>) sens_index p = Inr p' \<Longrightarrow> symtab_wf s5 \<Longrightarrow> no_levels p' = no_levels p"
    by (erule index_table_keeps) (auto simp: index_defs stage_defs split: if_splits option.splits)
  show "index_table m s6 (\<lambda>a p. p\<lparr>p_cat_val_to_name := a\<rparr>) cat_index p = Inr p' \<Longrightarrow> symtab_wf s6 \<Longrightarrow> no_cats p' = no_cats p"
    by (erule index_table_keeps) (auto simp: index_defs stage_defs split: if_splits)
qed

lemma role_set_expand_keeps:
  assumes "role_set_expand m x p base rolemap = Inr (e, p')"
  shows "p' = p\<lparr>p_roles := p_roles p'\<rparr>"
  using assms by (auto simp: role_set_expand_def rbind_eq_Inr_iff split: if_splits prod.splits)

lemma cache_keeps:
  "policydb_role_cache m k d p = Inr p' \<Longrightarrow> no_caches p' = no_caches p"
  "policydb_user_cache m k du p = Inr p' \<Longrightarrow> no_caches p' = no_caches p"
proof -
  show "policydb_role_cache m k d p = Inr p' \<Longrightarrow> no_caches p' = no_caches p"
    by (auto simp: policydb_role_cache_def rbind_eq_Inr_iff stage_defs Let_def)
  show "no_caches p' = no_caches p" if "policydb_user_cache m k du p = Inr p'"
  proof -
    from that obtain e q where q: "role_set_expand (at_site 0 m) (user_roles du) p None None = Inr (e, q)"
      "no_caches p' = no_caches q"
      by (auto simp: policydb_user_cache_def rbind_eq_Inr_iff stage_defs Let_def split: prod.splits)
    have "no_caches (p\<lparr>p_roles := p_roles q\<rparr>) = no_caches p" by (simp add: no_caches_def)
    with role_set_expand_keeps [OF q(1)] q(2) show ?thesis by metis
  qed
qed

lemma caches_keep:
  assumes "hashtab_map (table s) f p = Inr p'" and "symtab_wf s"
    and "\<And>k d q q'. f k d q = Inr q' \<Longrightarrow> g q' = g q"
  shows "g p' = g p"
proof -
  from assms(2) obtain h where h: "table s = Some h" "length (htable h) = unat (hsize h)" "symtab_map s = map_of (entries h)"
    by (rule symtab_wf_table)
  then have "for_each (\<lambda>n. f (fst n) (snd n)) (entries h) p = Inr p'" using assms(1) by (simp add: hashtab_map_entries)
  then show ?thesis by (rule for_each_invar [where I = "\<lambda>_ s. g s = g p"]) (use assms(3) in auto)
qed

section \<open>Properties\<close>

definition symbols_wf :: "policydb \<Rightarrow> bool" where
  "symbols_wf p \<longleftrightarrow> table_ok role_value (\<lambda>_. True) (p_roles p) \<and> table_ok type_value (\<lambda>d. primary d \<noteq> 0) (p_types p) \<and>
     table_ok user_value (\<lambda>_. True) (p_users p) \<and> symtab_wf (p_bools p) \<and>
     table_ok (\<lambda>d. sens (the (level d))) (\<lambda>d. level_isalias d = 0) (p_levels p) \<and>
     table_ok cat_value (\<lambda>d. cat_isalias d = 0) (p_cats p)"

definition names_back :: "('d \<Rightarrow> u32) \<Rightarrow> ('d \<Rightarrow> bool) \<Rightarrow> 'd symtab \<Rightarrow> string option list \<Rightarrow> bool" where
  "names_back val counted s ns \<longleftrightarrow>
     (\<forall>k d. symtab_map s k = Some d \<longrightarrow> counted d \<longrightarrow> val_idx ns (val d) = Inr k)"

text \<open>The symbol tables, which indexing leaves alone.\<close>

definition tabs where
  "tabs p = (p_roles p, p_types p, p_users p, p_bools p, p_levels p, p_cats p)"

lemma tabs_stages [simp]:
  "tabs (no_roles p) = tabs p" "tabs (no_types p) = tabs p" "tabs (no_users p) = tabs p" "tabs (no_bools p) = tabs p"
  "tabs (no_levels p) = tabs p" "tabs (no_cats p) = tabs p" "tabs (p\<lparr>role_val_to_struct := a\<rparr>) = tabs p"
  "tabs (p\<lparr>user_val_to_struct := b\<rparr>) = tabs p" "tabs (p\<lparr>type_val_to_struct := c\<rparr>) = tabs p"
  by (simp_all add: tabs_def stage_defs)

lemma stage_tabs:
  "no_roles q = no_roles p \<Longrightarrow> tabs q = tabs p" "no_types q = no_types p \<Longrightarrow> tabs q = tabs p"
  "no_users q = no_users p \<Longrightarrow> tabs q = tabs p" "no_bools q = no_bools p \<Longrightarrow> tabs q = tabs p"
  "no_levels q = no_levels p \<Longrightarrow> tabs q = tabs p" "no_cats q = no_cats p \<Longrightarrow> tabs q = tabs p"
  by (drule arg_cong [of _ _ tabs], simp)+

text \<open>The arrays of names that a stage does not fill.\<close>

lemma stage_names:
  "no_types q = no_types p \<Longrightarrow> p_role_val_to_name q = p_role_val_to_name p"
  "no_users q = no_users p \<Longrightarrow> (p_role_val_to_name q, p_type_val_to_name q) = (p_role_val_to_name p, p_type_val_to_name p)"
  "no_bools q = no_bools p \<Longrightarrow> (p_role_val_to_name q, p_type_val_to_name q, p_user_val_to_name q) =
     (p_role_val_to_name p, p_type_val_to_name p, p_user_val_to_name p)"
  "no_levels q = no_levels p \<Longrightarrow> (p_role_val_to_name q, p_type_val_to_name q, p_user_val_to_name q) =
     (p_role_val_to_name p, p_type_val_to_name p, p_user_val_to_name p)"
  "no_cats q = no_cats p \<Longrightarrow> (p_role_val_to_name q, p_type_val_to_name q, p_user_val_to_name q, p_sens_val_to_name q) =
     (p_role_val_to_name p, p_type_val_to_name p, p_user_val_to_name p, p_sens_val_to_name p)"
  "no_caches q = no_caches p \<Longrightarrow>
     (p_role_val_to_name q, p_type_val_to_name q, p_user_val_to_name q, p_sens_val_to_name q, p_cat_val_to_name q) =
     (p_role_val_to_name p, p_type_val_to_name p, p_user_val_to_name p, p_sens_val_to_name p, p_cat_val_to_name p)"
  by (auto simp: stage_defs dest: arg_cong [of _ _ p_role_val_to_name] arg_cong [of _ _ p_type_val_to_name]
      arg_cong [of _ _ p_user_val_to_name] arg_cong [of _ _ p_sens_val_to_name] arg_cong [of _ _ p_cat_val_to_name])

text \<open>The stages of \<^verbatim>\<open>policydb_index_others\<close>.\<close>

lemma index_others_stages:
  assumes "policydb_index_others m p = Inr p'"
  obtains p0 p1 p2 p3 p4 p5 p6 p7 where
    "no_bools p0 = no_bools (p\<lparr>role_val_to_struct := new_array (p_roles p), user_val_to_struct := new_array (p_users p),
       type_val_to_struct := new_array (p_types p)\<rparr>)"
    "index_table (at_site 4 m) (p_roles p0) (\<lambda>a p. p\<lparr>p_role_val_to_name := a\<rparr>) role_index p0 = Inr p1"
    "index_table (at_site 5 m) (p_types p1) (\<lambda>a p. p\<lparr>p_type_val_to_name := a\<rparr>) type_index p1 = Inr p2"
    "index_table (at_site 6 m) (p_users p2) (\<lambda>a p. p\<lparr>p_user_val_to_name := a\<rparr>) user_index p2 = Inr p3"
    "index_table (at_site 7 m) (p_bools p3) (\<lambda>a p. p\<lparr>p_bool_val_to_name := a\<rparr>) cond_index_bool p3 = Inr p4"
    "index_table (at_site 8 m) (p_levels p4) (\<lambda>a p. p\<lparr>p_sens_val_to_name := a\<rparr>) sens_index p4 = Inr p5"
    "index_table (at_site 9 m) (p_cats p5) (\<lambda>a p. p\<lparr>p_cat_val_to_name := a\<rparr>) cat_index p5 = Inr p6"
    "hashtab_map (table (p_roles p6)) (policydb_role_cache (at_site 10 m)) p6 = Inr p7"
    "hashtab_map (table (p_users p7)) (policydb_user_cache (at_site 11 m)) p7 = Inr p'"
proof -
  let ?p = "p\<lparr>role_val_to_struct := new_array (p_roles p), user_val_to_struct := new_array (p_users p),
       type_val_to_struct := new_array (p_types p)\<rparr>"
  define p0 where "p0 = fst (cond_init_bool_indexes (at_site 3 m) ?p)"
  have "no_bools p0 = no_bools ?p"
    by (simp add: p0_def no_bools_def cond_init_bool_indexes_def)
  then show thesis
    using assms unfolding policydb_index_others_def Let_def p0_def [symmetric]
    by (auto simp: rbind_eq_Inr_iff split: if_splits intro: that)
qed

text \<open>Every stage fills its array from the table the database came with, and no later stage changes it.\<close>

lemma index_others_arrays:
  assumes wf: "symbols_wf p" and res: "policydb_index_others m p = Inr p'"
  obtains p0 p1 p2 p3 p4 p5 p6 where
    "index_table (at_site 4 m) (p_roles p) (\<lambda>a p. p\<lparr>p_role_val_to_name := a\<rparr>) role_index p0 = Inr p1"
    "index_table (at_site 5 m) (p_types p) (\<lambda>a p. p\<lparr>p_type_val_to_name := a\<rparr>) type_index p1 = Inr p2"
    "index_table (at_site 6 m) (p_users p) (\<lambda>a p. p\<lparr>p_user_val_to_name := a\<rparr>) user_index p2 = Inr p3"
    "index_table (at_site 8 m) (p_levels p) (\<lambda>a p. p\<lparr>p_sens_val_to_name := a\<rparr>) sens_index p4 = Inr p5"
    "index_table (at_site 9 m) (p_cats p) (\<lambda>a p. p\<lparr>p_cat_val_to_name := a\<rparr>) cat_index p5 = Inr p6"
    "p_role_val_to_name p' = p_role_val_to_name p1" "p_type_val_to_name p' = p_type_val_to_name p2"
    "p_user_val_to_name p' = p_user_val_to_name p3" "p_sens_val_to_name p' = p_sens_val_to_name p5"
    "p_cat_val_to_name p' = p_cat_val_to_name p6"
proof -
  from res obtain p0 p1 p2 p3 p4 p5 p6 p7 where
    s0: "no_bools p0 = no_bools (p\<lparr>role_val_to_struct := new_array (p_roles p), user_val_to_struct := new_array (p_users p),
       type_val_to_struct := new_array (p_types p)\<rparr>)" and
    s1: "index_table (at_site 4 m) (p_roles p0) (\<lambda>a p. p\<lparr>p_role_val_to_name := a\<rparr>) role_index p0 = Inr p1" and
    s2: "index_table (at_site 5 m) (p_types p1) (\<lambda>a p. p\<lparr>p_type_val_to_name := a\<rparr>) type_index p1 = Inr p2" and
    s3: "index_table (at_site 6 m) (p_users p2) (\<lambda>a p. p\<lparr>p_user_val_to_name := a\<rparr>) user_index p2 = Inr p3" and
    s4: "index_table (at_site 7 m) (p_bools p3) (\<lambda>a p. p\<lparr>p_bool_val_to_name := a\<rparr>) cond_index_bool p3 = Inr p4" and
    s5: "index_table (at_site 8 m) (p_levels p4) (\<lambda>a p. p\<lparr>p_sens_val_to_name := a\<rparr>) sens_index p4 = Inr p5" and
    s6: "index_table (at_site 9 m) (p_cats p5) (\<lambda>a p. p\<lparr>p_cat_val_to_name := a\<rparr>) cat_index p5 = Inr p6" and
    s7: "hashtab_map (table (p_roles p6)) (policydb_role_cache (at_site 10 m)) p6 = Inr p7" and
    s8: "hashtab_map (table (p_users p7)) (policydb_user_cache (at_site 11 m)) p7 = Inr p'"
    by (rule index_others_stages)
  have w: "symtab_wf (p_roles p)" "symtab_wf (p_types p)" "symtab_wf (p_users p)" "symtab_wf (p_bools p)"
    "symtab_wf (p_levels p)" "symtab_wf (p_cats p)" using wf by (simp_all add: symbols_wf_def table_ok_def)
  have t0: "tabs p0 = tabs p" using arg_cong [OF s0, of tabs] by simp
  have k1: "no_roles p1 = no_roles p0" using s1 by (rule stage_keeps(1)) (use w t0 in \<open>simp add: tabs_def\<close>)
  then have t1: "tabs p1 = tabs p" using t0 stage_tabs(1) by metis
  have k2: "no_types p2 = no_types p1" using s2 by (rule stage_keeps(2)) (use w t1 in \<open>simp add: tabs_def\<close>)
  then have t2: "tabs p2 = tabs p" using t1 stage_tabs(2) by metis
  have k3: "no_users p3 = no_users p2" using s3 by (rule stage_keeps(3)) (use w t2 in \<open>simp add: tabs_def\<close>)
  then have t3: "tabs p3 = tabs p" using t2 stage_tabs(3) by metis
  have k4: "no_bools p4 = no_bools p3" using s4 by (rule stage_keeps(4)) (use w t3 in \<open>simp add: tabs_def\<close>)
  then have t4: "tabs p4 = tabs p" using t3 stage_tabs(4) by metis
  have k5: "no_levels p5 = no_levels p4" using s5 by (rule stage_keeps(5)) (use w t4 in \<open>simp add: tabs_def\<close>)
  then have t5: "tabs p5 = tabs p" using t4 stage_tabs(5) by metis
  have k6: "no_cats p6 = no_cats p5" using s6 by (rule stage_keeps(6)) (use w t5 in \<open>simp add: tabs_def\<close>)
  then have t6: "tabs p6 = tabs p" using t5 stage_tabs(6) by metis
  have "p_users p7 = p_users p6" using s7
    by (rule caches_keep) (use w t6 in \<open>auto simp: tabs_def policydb_role_cache_def rbind_eq_Inr_iff Let_def\<close>)
  then have "no_caches p' = no_caches p7" using w t6
    by (intro caches_keep [OF s8 _ cache_keeps(2)]) (simp_all add: tabs_def)
  also have "\<dots> = no_caches p6" by (rule caches_keep [OF s7 _ cache_keeps(1)]) (use w t6 in \<open>simp_all add: tabs_def\<close>)
  finally have k7: "no_caches p' = no_caches p6" .
  note n = stage_names(1) [OF k2] stage_names(2) [OF k3] stage_names(3) [OF k4] stage_names(4) [OF k5]
    stage_names(5) [OF k6] stage_names(6) [OF k7]
  show thesis
    by (rule that [of p0 p1 p2 p3 p4 p5 p6]) (use s1 s2 s3 s5 s6 t0 t1 t2 t4 t5 n in \<open>simp_all add: tabs_def\<close>)
qed

text \<open>
  C21: When \<^verbatim>\<open>policydb_index_others\<close> succeeds on a database whose symbols have values of their own, the
  arrays of names lead from the value of every user, role, primary type, and of every sensitivity
  and category that is not an alias, back to its name.
\<close>

theorem policydb_index_others_names:
  assumes wf: "symbols_wf p" and res: "policydb_index_others m p = Inr p'"
  shows "names_back role_value (\<lambda>_. True) (p_roles p) (p_role_val_to_name p') \<and>
    names_back type_value (\<lambda>d. primary d \<noteq> 0) (p_types p) (p_type_val_to_name p') \<and>
    names_back user_value (\<lambda>_. True) (p_users p) (p_user_val_to_name p') \<and>
    names_back (\<lambda>d. sens (the (level d))) (\<lambda>d. level_isalias d = 0) (p_levels p) (p_sens_val_to_name p') \<and>
    names_back cat_value (\<lambda>d. cat_isalias d = 0) (p_cats p) (p_cat_val_to_name p')"
proof -
  from wf res obtain p0 p1 p2 p3 p4 p5 p6 where
    s: "index_table (at_site 4 m) (p_roles p) (\<lambda>a p. p\<lparr>p_role_val_to_name := a\<rparr>) role_index p0 = Inr p1"
    "index_table (at_site 5 m) (p_types p) (\<lambda>a p. p\<lparr>p_type_val_to_name := a\<rparr>) type_index p1 = Inr p2"
    "index_table (at_site 6 m) (p_users p) (\<lambda>a p. p\<lparr>p_user_val_to_name := a\<rparr>) user_index p2 = Inr p3"
    "index_table (at_site 8 m) (p_levels p) (\<lambda>a p. p\<lparr>p_sens_val_to_name := a\<rparr>) sens_index p4 = Inr p5"
    "index_table (at_site 9 m) (p_cats p) (\<lambda>a p. p\<lparr>p_cat_val_to_name := a\<rparr>) cat_index p5 = Inr p6"
    and n: "p_role_val_to_name p' = p_role_val_to_name p1" "p_type_val_to_name p' = p_type_val_to_name p2"
    "p_user_val_to_name p' = p_user_val_to_name p3" "p_sens_val_to_name p' = p_sens_val_to_name p5"
    "p_cat_val_to_name p' = p_cat_val_to_name p6"
    by (rule index_others_arrays)
  from wf have ok: "table_ok role_value (\<lambda>_. True) (p_roles p)" "table_ok type_value (\<lambda>d. primary d \<noteq> 0) (p_types p)"
    "table_ok user_value (\<lambda>_. True) (p_users p)"
    "table_ok (\<lambda>d. sens (the (level d))) (\<lambda>d. level_isalias d = 0) (p_levels p)"
    "table_ok cat_value (\<lambda>d. cat_isalias d = 0) (p_cats p)"
    by (simp_all add: symbols_wf_def)
  show ?thesis
    using ix_role.index_table_names [OF ok(1) s(1)] ix_type.index_table_names [OF ok(2) s(2)]
      ix_user.index_table_names [OF ok(3) s(3)] ix_sens.index_table_names [OF ok(4) s(4)]
      ix_cat.index_table_names [OF ok(5) s(5)]
    unfolding names_back_def n by simp
qed

definition sample_symbols :: policydb where
  "sample_symbols = sample_mls\<lparr>p_types := one_slot
       [(''a'', sample_type 2 TYPE_ATTRIB (low_bits 1)), (''t'', sample_type 1 0 ebitmap_init)],
     p_roles := one_slot [], p_users := one_slot [], p_bools := one_slot []\<rparr>"

lemma one_slot_ok:
  "chain_sorted strcmp kvs \<Longrightarrow> own_values val counted kvs \<Longrightarrow> length kvs < 2 ^ 32 \<Longrightarrow> table_ok val counted (one_slot kvs)"
  by (auto simp: table_ok_def one_slot_wf) (simp_all add: one_slot_def entries_def word_unat_eq_iff unat_of_nat)

lemma sample_symbols_wf: "symbols_wf sample_symbols"
proof -
  have "table_ok role_value (\<lambda>_. True) (one_slot [])" "table_ok user_value (\<lambda>_. True) (one_slot [])"
    by (auto intro!: one_slot_ok simp: chain_sorted_def own_values_def)
  moreover have "table_ok type_value (\<lambda>d. primary d \<noteq> 0) (p_types sample_symbols)" 
    by (auto intro!: one_slot_ok simp: sample_symbols_def chain_sorted_def own_values_def sample_type_def)
  moreover have "table_ok (\<lambda>d. sens (the (level d))) (\<lambda>d. level_isalias d = 0) (p_levels sample_symbols)"
    "table_ok cat_value (\<lambda>d. cat_isalias d = 0) (p_cats sample_symbols)"
    by (auto intro!: one_slot_ok simp: sample_symbols_def sample_mls_def chain_sorted_def own_values_def)
  ultimately show ?thesis
    by (simp add: symbols_wf_def sample_symbols_def one_slot_wf chain_sorted_def)
qed

theorem policydb_index_others_names_witness:
  "\<exists>p'. symbols_wf sample_symbols \<and> policydb_index_others no_oom sample_symbols = Inr p' \<and>
     names_back type_value (\<lambda>d. primary d \<noteq> 0) (p_types sample_symbols) (p_type_val_to_name p') \<and>
     names_back cat_value (\<lambda>d. cat_isalias d = 0) (p_cats sample_symbols) (p_cat_val_to_name p')"
proof -
  have "isl (policydb_index_others no_oom sample_symbols) = False"
    by code_simp
  then obtain p' where p': "policydb_index_others no_oom sample_symbols = Inr p'"
    by (cases "policydb_index_others no_oom sample_symbols") auto
  show ?thesis
    using policydb_index_others_names [OF sample_symbols_wf p'] sample_symbols_wf p' by blast
qed

end
