(* ===== verification/Policy_Laws.thy ===== *)
theory Policy_Laws
  imports Genfs_Laws Attribute_Laws Index_Laws
begin

text \<open>
  What \<^verbatim>\<open>policydb_read\<close> establishes for the whole policy: its labels are valid contexts and its file
  systems are sorted.
\<close>

section \<open>What leaves the labels alone\<close>

definition labels :: "policydb \<Rightarrow> ocontext list list \<times> genfs list" where
  "labels p = (ocontexts p, p_genfs p)"

lemma labels_update [simp]:
  "labels (p_common_val_to_name_update a1 p) = labels p" "labels (p_class_val_to_name_update a2 p) = labels p"
  "labels (p_role_val_to_name_update a3 p) = labels p" "labels (p_type_val_to_name_update a4 p) = labels p"
  "labels (p_user_val_to_name_update a5 p) = labels p" "labels (p_bool_val_to_name_update a6 p) = labels p"
  "labels (p_sens_val_to_name_update a7 p) = labels p" "labels (p_cat_val_to_name_update a8 p) = labels p"
  "labels (p_commons_update b1 p) = labels p" "labels (p_classes_update b2 p) = labels p"
  "labels (p_roles_update b3 p) = labels p" "labels (p_types_update b4 p) = labels p"
  "labels (p_users_update b5 p) = labels p" "labels (p_bools_update b6 p) = labels p"
  "labels (p_levels_update b7 p) = labels p" "labels (p_cats_update b8 p) = labels p"
  "labels (te_avtab_update c1 p) = labels p" "labels (te_cond_avtab_update c2 p) = labels p"
  "labels (cond_list_update c3 p) = labels p" "labels (role_tr_update c4 p) = labels p"
  "labels (p_role_allow_update c5 p) = labels p" "labels (p_filename_trans_update c6 p) = labels p"
  "labels (policy_type_update d1 p) = labels p" "labels (policyvers_update d2 p) = labels p"
  "labels (mls_update d3 p) = labels p" "labels (handle_unknown_update d4 p) = labels p"
  "labels (policycaps_update d5 p) = labels p" "labels (permissive_map_update d6 p) = labels p"
  "labels (target_platform_update d7 p) = labels p" "labels (p_name_update d8 p) = labels p"
  "labels (p_version_update d9 p) = labels p" "labels (p_scope_update e1 p) = labels p"
  "labels (p_global_update e2 p) = labels p" "labels (decl_val_to_struct_update e3 p) = labels p"
  by (simp_all add: labels_def)

lemma hashtab_map_keeps:
  assumes "hashtab_map hp f s = Inr s'" and "I s" and "\<And>k d s s'. I s \<Longrightarrow> f k d s = Inr s' \<Longrightarrow> I s'"
  shows "I s'"
proof (cases hp)
  case None
  then show ?thesis using assms(1,2) by (simp add: hashtab_map_def)
next
  case (Some h)
  show ?thesis
    using assms(1) unfolding hashtab_map_def Some option.case
  proof (rule for_each_keeps)
    fix i s s'
    assume "I s" and step: "rbind (idx (htable h) i) (\<lambda>chain. for_each (\<lambda>n. f (fst n) (snd n)) chain s) = Inr s'"
    from step obtain chain where "for_each (\<lambda>n. f (fst n) (snd n)) chain s = Inr s'" by (auto simp: rbind_eq_Inr_iff)
    then show "I s'" using \<open>I s\<close> assms(3) by (rule for_each_keeps) auto
  qed (rule assms(2))
qed

lemma index_labels:
  "common_index k c p = Inr p' \<Longrightarrow> labels p' = labels p"
  "class_index k cl p = Inr p' \<Longrightarrow> labels p' = labels p"
  "role_index k r p = Inr p' \<Longrightarrow> labels p' = labels p"
  "type_index k t p = Inr p' \<Longrightarrow> labels p' = labels p"
  "user_index k u p = Inr p' \<Longrightarrow> labels p' = labels p"
  "cond_index_bool k b p = Inr p' \<Longrightarrow> labels p' = labels p"
  "sens_index k s p = Inr p' \<Longrightarrow> labels p' = labels p"
  "cat_index k ca p = Inr p' \<Longrightarrow> labels p' = labels p"
  by (auto simp: index_defs labels_def rbind_eq_Inr_iff split: if_splits option.splits)

lemma cache_labels:
  "policydb_role_cache m k r p = Inr p' \<Longrightarrow> labels p' = labels p"
  "policydb_user_cache m k u p = Inr p' \<Longrightarrow> labels p' = labels p"
proof -
  have "labels (no_caches q) = labels q" for q by (simp add: no_caches_def labels_def)
  then have "no_caches q = no_caches p \<Longrightarrow> labels q = labels p" for q by metis
  then show "policydb_role_cache m k r p = Inr p' \<Longrightarrow> labels p' = labels p"
    "policydb_user_cache m k u p = Inr p' \<Longrightarrow> labels p' = labels p" using cache_keeps by blast+
qed

lemma index_table_labels:
  assumes "index_table m s set_names f p = Inr p'" and "\<And>a q. labels (set_names a q) = labels q"
    and "\<And>k d q q'. f k d q = Inr q' \<Longrightarrow> labels q' = labels q"
  shows "labels p' = labels p"
proof -
  have "labels p' = labels q" if "hashtab_map (table s) f q = Inr p'" for q
    using that by (rule hashtab_map_keeps [where I = "\<lambda>r. labels r = labels q"]) (simp_all add: assms(3))
  then show ?thesis using assms(1,2) by (auto simp: index_table_def Let_def split: if_splits)
qed

lemma index_classes_labels: "policydb_index_classes m p = Inr p' \<Longrightarrow> labels p' = labels p"
proof -
  assume "policydb_index_classes m p = Inr p'"
  then obtain q where 1: "hashtab_map (table (p_commons p)) common_index (p\<lparr>p_common_val_to_name := new_array (p_commons p)\<rparr>) = Inr q"
    and 2: "hashtab_map (table (p_classes q)) class_index
          (q\<lparr>class_val_to_struct := new_array (p_classes q), p_class_val_to_name := new_array (p_classes q)\<rparr>) = Inr p'"
    by (auto simp: policydb_index_classes_def rbind_eq_Inr_iff split: if_splits)
  have "labels q = labels p"
    by (rule hashtab_map_keeps [OF 1, where I = "\<lambda>r. labels r = labels p"]) (simp add: labels_def, metis index_labels(1))
  moreover have "labels p' = labels q"
    by (rule hashtab_map_keeps [OF 2, where I = "\<lambda>r. labels r = labels q"]) (simp add: labels_def, metis index_labels(2))
  ultimately show ?thesis by simp
qed

lemma index_others_labels: "policydb_index_others m p = Inr p' \<Longrightarrow> labels p' = labels p"
proof -
  assume "policydb_index_others m p = Inr p'"
  define p0 where "p0 = fst (cond_init_bool_indexes (at_site 3 m) (p\<lparr>role_val_to_struct := new_array (p_roles p),
      user_val_to_struct := new_array (p_users p), type_val_to_struct := new_array (p_types p)\<rparr>))"
  have 0: "labels p0 = labels p" by (simp add: p0_def cond_init_bool_indexes_def labels_def)
  from \<open>policydb_index_others m p = Inr p'\<close> obtain p1 p2 p3 p4 p5 p6 p7 where
    stages: "index_table (at_site 4 m) (p_roles p0) (\<lambda>a p. p\<lparr>p_role_val_to_name := a\<rparr>) role_index p0 = Inr p1"
    "index_table (at_site 5 m) (p_types p1) (\<lambda>a p. p\<lparr>p_type_val_to_name := a\<rparr>) type_index p1 = Inr p2"
    "index_table (at_site 6 m) (p_users p2) (\<lambda>a p. p\<lparr>p_user_val_to_name := a\<rparr>) user_index p2 = Inr p3"
    "index_table (at_site 7 m) (p_bools p3) (\<lambda>a p. p\<lparr>p_bool_val_to_name := a\<rparr>) cond_index_bool p3 = Inr p4"
    "index_table (at_site 8 m) (p_levels p4) (\<lambda>a p. p\<lparr>p_sens_val_to_name := a\<rparr>) sens_index p4 = Inr p5"
    "index_table (at_site 9 m) (p_cats p5) (\<lambda>a p. p\<lparr>p_cat_val_to_name := a\<rparr>) cat_index p5 = Inr p6"
    and caches: "hashtab_map (table (p_roles p6)) (policydb_role_cache (at_site 10 m)) p6 = Inr p7"
    "hashtab_map (table (p_users p7)) (policydb_user_cache (at_site 11 m)) p7 = Inr p'"
    unfolding policydb_index_others_def Let_def p0_def [symmetric] by (auto simp: rbind_eq_Inr_iff split: if_splits)
  have "labels p1 = labels p0" "labels p2 = labels p1" "labels p3 = labels p2" "labels p4 = labels p3"
    "labels p5 = labels p4" "labels p6 = labels p5"
    using stages by (auto intro: index_table_labels index_labels)
  moreover have "labels p7 = labels p6"
    by (rule hashtab_map_keeps [OF caches(1), where I = "\<lambda>r. labels r = labels p6"]) (simp, metis cache_labels(1))
  moreover have "labels p' = labels p7"
    by (rule hashtab_map_keeps [OF caches(2), where I = "\<lambda>r. labels r = labels p7"]) (simp, metis cache_labels(2))
  ultimately show ?thesis using 0 by simp
qed

lemma read_symtab_labels:
  assumes "read_symtab m get put f p fp = Inr (fp', p')" and "\<And>h q. labels (put h q) = labels q"
  shows "labels p' = labels p"
  using assms by (auto simp: read_symtab_def rbind_eq_Inr_iff)

lemma read_symtabs_labels: "read_symtabs m n p fp = Inr (fp', p') \<Longrightarrow> labels p' = labels p"
proof -
  assume loop: "read_symtabs m n p fp = Inr (fp', p')"
  have "(\<lambda>(_, q). labels q = labels p) (fp', p')"
    by (rule for_each_keeps [OF loop [unfolded read_symtabs_def]])
      (auto simp: Let_def dest!: read_symtab_labels split: if_splits)
  then show ?thesis by simp
qed

lemma cond_read_list_labels:
  assumes "cond_read_list m stale p l fp = Inr (p', fp', l')"
  shows "labels p' = labels p"
proof -
  have av: "labels q' = labels q" if "cond_read_av_list m st q fp other = Inr (q', fp', l)" for m st q q' fp fp' l other
    using that by (auto simp: cond_read_av_list_def rbind_eq_Inr_iff labels_def split: if_splits)
  have node: "labels q' = labels q" if run: "cond_read_node m st q nd fp = Inr (q', fp', nd')" for m st q q' nd nd' fp fp'
  proof -
    obtain fp1 nd1 q1 fp2 nd2 where
      mid: "(if policy_type q = POLICY_KERN
        then rbind (cond_read_av_list (at_site 1 m) st q fp1 []) (\<lambda>(p, fp, t).
               rbind (cond_read_av_list (at_site 2 m) st p fp t) (\<lambda>(p, fp, f).
                 Inr (p, fp, nd1\<lparr>true_list := t, false_list := f\<rparr>)))
        else rbind (avrule_read_list (at_site 1 m) fp1) (\<lambda>(fp, t).
               rbind (avrule_read_list (at_site 2 m) fp) (\<lambda>(fp, f).
                 Inr (q, fp, nd1\<lparr>avtrue_list := t, avfalse_list := f\<rparr>)))) = Inr (q1, fp2, nd2)"
      and rest: "(if policy_type q1 \<noteq> POLICY_KERN \<and> policyvers q1 \<ge> MOD_POLICYDB_VERSION_TUNABLE_SEP
        then rbind (read_u32 fp2) (\<lambda>(fp, f). Inr (q1, fp, nd2\<lparr>cond_flags := f\<rparr>))
        else Inr (q1, fp2, nd2)) = Inr (q', fp', nd')"
      using run unfolding cond_read_node_def Let_def rbind_eq_Inr_iff [where r = "read_u32 _"] rbind_eq_Inr_iff [where r = "read_exprs _ _ _ _"]
        rbind_eq_Inr_iff [where r = "if _ then _ else _"] split_paired_Ex prod.case by blast
    have "labels q1 = labels q" using mid by (cases "policy_type q = POLICY_KERN") (auto simp: rbind_eq_Inr_iff dest!: av)
    then show ?thesis using rest by (auto simp: rbind_eq_Inr_iff split: if_splits)
  qed
  obtain fp1 n a where loop: "for_each
           (\<lambda>i (p, fp, nodes).
              if \<not> malloc (at_site i (at_site 1 m)) then Inl STATUS_ERR
              else rbind (cond_read_node (at_site i (at_site 2 m)) stale p empty_cond_node fp) (\<lambda>(p, fp, n).
                Inr (p, fp, (if i = 0 then [n] else nodes @ [n]))))
           [0..<n] (p\<lparr>te_cond_avtab := a\<rparr>, fp1, l) = Inr (p', fp', l')"
    using assms by (auto simp: cond_read_list_def rbind_eq_Inr_iff)
  have "(\<lambda>(q, _, _). labels q = labels p) (p', fp', l')"
    by (rule for_each_keeps [OF loop]) (auto simp: rbind_eq_Inr_iff dest!: node split: if_splits)
  then show ?thesis by simp
qed

lemma read_rules_labels:
  assumes "read_rules m stale p fp = Inr (fp', p')"
  shows "labels p' = labels p"
proof -
  obtain a fp1 fp2 p1 tr fp3 ra fp4 where
    c: "(if policyvers (p\<lparr>te_avtab := a\<rparr>) \<ge> POLICYDB_VERSION_BOOL
        then rbind (cond_read_list (at_site 1 m) (stale 1) (p\<lparr>te_avtab := a\<rparr>) (cond_list (p\<lparr>te_avtab := a\<rparr>)) fp1)
          (\<lambda>(p, fp, l). Inr (fp, p\<lparr>cond_list := l\<rparr>))
        else Inr (fp1, p\<lparr>te_avtab := a\<rparr>)) = Inr (fp2, p1)"
    and r: "(let q = p1\<lparr>role_tr := new_list (role_tr p1) tr, p_role_allow := new_list (p_role_allow p1) ra\<rparr> in
        if policyvers q \<ge> POLICYDB_VERSION_FILENAME_TRANS
        then rbind (filename_trans_read (at_site 4 m) fp4) (\<lambda>(fp, ft).
          Inr (fp, q\<lparr>p_filename_trans := new_list (p_filename_trans q) ft\<rparr>))
        else Inr (fp4, q)) = Inr (fp', p')"
    using assms unfolding read_rules_def Let_def [of "_\<lparr>te_avtab := _\<rparr>"] rbind_eq_Inr_iff split_paired_Ex prod.case by blast
  have "labels p1 = labels p"
  proof (cases "policyvers p \<ge> POLICYDB_VERSION_BOOL")
    case True
    then show ?thesis using c by (auto simp: rbind_eq_Inr_iff dest!: cond_read_list_labels)
  next
    case False
    then show ?thesis using c by auto
  qed
  moreover have "labels p' = labels p1" using r by (auto simp: Let_def rbind_eq_Inr_iff split: if_splits)
  ultimately show ?thesis by simp
qed

section \<open>The whole policy\<close>

definition no_labels :: "policydb \<Rightarrow> bool" where
  "no_labels p \<longleftrightarrow> labels p = labels zero_policydb"

lemma range_read_labels:
  assumes "range_read m p fp = Inr (fp', p')"
  shows "\<exists>r g. p' = p\<lparr>range_tr := r, p_global := g\<rparr>"
proof -
  have plain: "\<exists>r' g. p\<lparr>range_tr := r\<rparr> = p\<lparr>range_tr := r', p_global := g\<rparr>" for r
    by (rule exI [of _ r], rule exI [of _ "p_global p"]) simp
  have set_rules: "\<exists>g. q = p\<lparr>p_global := g\<rparr>" if "set_range_rules rs p = Inr q" for rs q
    using that by (auto simp: set_range_rules_def rbind_eq_Inr_iff split: list.splits option.splits)
  obtain fp1 l0 where l: "range_list (at_site 0 m) p fp = Inr (fp1, l0)" using assms by (auto simp: range_read_def rbind_eq_Inr_iff)
  consider "\<exists>r. p' = p\<lparr>range_tr := r\<rparr>" | rs q where "set_range_rules rs p = Inr q" "p' = q\<lparr>range_tr := []\<rparr>"
    using assms unfolding range_read_def l rbind_simps prod.case Let_def
    by (cases "policy_type p = POLICY_KERN"; cases "new_list (range_tr p) l0 = []";
        cases "malloc (at_site 0 (at_site 0 (at_site 1 m)))") (auto simp: rbind_eq_Inr_iff)
  then show ?thesis
  proof cases
    case 1
    then show ?thesis using plain by blast
  next
    case 2
    obtain g where "q = p\<lparr>p_global := g\<rparr>" using set_rules [OF 2(1)] by blast
    then have "p' = p\<lparr>range_tr := [], p_global := g\<rparr>" by (simp add: 2(2))
    then show ?thesis by blast
  qed
qed

lemma read_contexts_ok:
  assumes "read_contexts m n p fp = Inr (fp', q)" and "no_labels p"
  shows "labels_ok q \<and> genfs_wf q"
proof -
  obtain p0 p1 p2 p3 p4 p5 fp1 fp2 fp3 where
    ix: "policydb_index_decls (at_site 0 m) p = Inr p0" "policydb_index_classes (at_site 1 m) p0 = Inr p1"
      "policydb_index_others (at_site 2 m) p1 = Inr p2"
    and oc: "ocontext_read (at_site 3 m) n p2 fp = Inr (fp1, p3)" and gf: "genfs_read (at_site 4 m) p3 fp1 = Inr (fp2, p4)"
    and rg: "(if policy_type p4 = POLICY_KERN \<and> policyvers p4 \<ge> POLICYDB_VERSION_MLS \<or>
        policy_type p4 = POLICY_BASE \<and> policyvers p4 \<ge> MOD_POLICYDB_VERSION_MLS \<and> policyvers p4 < MOD_POLICYDB_VERSION_RANGETRANS
        then range_read (at_site 5 m) p4 fp2 else Inr (fp2, p4)) = Inr (fp3, p5)"
    and am: "(if policy_type p5 = POLICY_KERN then attribute_maps (at_site 6 m) p5 fp3 else Inr (fp3, p5)) = Inr (fp', q)"
    using assms(1) unfolding read_contexts_def rbind_eq_Inr_iff split_paired_Ex prod.case by blast
  have p5: "\<exists>r g. p5 = p4\<lparr>range_tr := r, p_global := g\<rparr>"
  proof (cases "p5 = p4")
    case True
    then have "p5 = p4\<lparr>range_tr := range_tr p4, p_global := p_global p4\<rparr>" by simp
    then show ?thesis by blast
  next
    case False
    then have "range_read (at_site 5 m) p4 fp2 = Inr (fp3, p5)" using rg by (simp split: if_splits)
    then show ?thesis by (rule range_read_labels)
  qed
  have "labels p0 = labels p" using ix(1) by (auto simp: policydb_index_decls_def rbind_eq_Inr_iff labels_def split: if_splits)
  then have "labels p2 = labels zero_policydb"
    using ix(2,3) index_classes_labels index_others_labels assms(2) by (simp add: no_labels_def)
  then have p2: "ocontexts p2 = replicate 7 []" "p_genfs p2 = []" by (simp_all add: labels_def zero_policydb_def)
  then have "lists_ok p2" by (simp add: lists_ok_def)
  from ocontext_read_ok [OF oc this] obtain l where p3: "lists_ok p3" "p3 = p2\<lparr>ocontexts := l\<rparr>" by blast
  have "genfs_inv p3 p3" using p2 p3(2) by (auto simp: genfs_inv_def genfs_wf_def intro: exI [of _ "[]"])
  from genfs_read_ok [OF gf this] obtain g where p4: "p4 = p3\<lparr>p_genfs := g\<rparr>" "genfs_wf p4" "genfs_ok p4"
    by (auto simp: genfs_inv_def genfs_ok_def)
  have "\<exists>a b. q = p5\<lparr>type_attr_map := a, attr_type_map := b\<rparr>"
  proof (cases "policy_type p5 = POLICY_KERN")
    case True
    then show ?thesis using am by (auto simp: attribute_maps_def Let_def rbind_eq_Inr_iff split: if_splits)
  next
    case False
    then have "q = p5\<lparr>type_attr_map := type_attr_map p5, attr_type_map := attr_type_map p5\<rparr>" using am by simp
    then show ?thesis by blast
  qed
  then obtain a b where q: "q = p5\<lparr>type_attr_map := a, attr_type_map := b\<rparr>" by blast
  show ?thesis using p3 p4 p5 by (auto simp: q labels_ok_def lists_ok_def label_ok_def genfs_ok_def genfs_wf_def)
qed

lemma roles_init_frame: "roles_init m p = Inr p' \<Longrightarrow> \<exists>s ss. p' = p\<lparr>p_roles := s, p_scope := ss\<rparr>"
proof -
  assume run: "roles_init m p = Inr p'"
  then have "malloc (at_site 0 m)" "malloc (at_site 1 m)" by (auto simp: roles_init_def split: if_splits)
  then obtain ss where ss: "idx (p_scope p) SYM_ROLES = Inr ss" using run by (auto simp: roles_init_def rbind_eq_Inr_iff)
  obtain r s ss' where "symtab_insert (at_site 2 m) SYM_ROLES (\<lambda>r. role_flavor r = ROLE_ROLE) OBJECT_R (\<lambda>v. role_zero\<lparr>role_value := v\<rparr>)
      (if policy_type p = POLICY_MOD then SCOPE_REQ else SCOPE_DECL) 1 True (p_roles p, ss) = (r, s, ss')"
    by (rule prod_cases3)
  with run ss \<open>malloc (at_site 0 m)\<close> \<open>malloc (at_site 1 m)\<close>
  have "rbind r (\<lambda>rc. if rc \<noteq> 0 then Inl STATUS_ERR else if nprim s \<noteq> OBJECT_R_VAL then Inl EINVAL
      else Inr (p\<lparr>p_roles := s, p_scope := (p_scope p)[SYM_ROLES := ss']\<rparr>)) = Inr p'"
    by (simp add: roles_init_def cong: if_cong)
  then show ?thesis by (auto simp: rbind_eq_Inr_iff split: if_splits)
qed

lemma policydb_init_labels:
  assumes "policydb_init m = Inr p"
  shows "no_labels p"
proof -
  obtain s1 s2 s3 s4 s5 s6 s7 s8 sc b d q where "roles_init (at_site 9 m) (zero_policydb\<lparr>p_commons := s1, p_classes := s2, p_roles := s3,
      p_types := s4, p_users := s5, p_bools := s6, p_levels := s7, p_cats := s8, p_scope := sc, p_global := [b\<lparr>branch_list := [d]\<rparr>],
      te_avtab := avtab_init (te_avtab zero_policydb)\<rparr>) = Inr q" and p: "p = cond_policydb_init q"
    using assms unfolding policydb_init_def Let_def rbind_eq_Inr_iff by blast
  then have "labels q = labels zero_policydb" using roles_init_frame by fastforce
  then show ?thesis by (simp add: p no_labels_def cond_policydb_init_def labels_def)
qed

text \<open>The parts that only modules have.\<close>

lemma decl_read_labels: "avrule_decl_read m stale p d n fp = Inr (fp', p', d') \<Longrightarrow> labels p' = labels p"
  unfolding avrule_decl_read_def rbind_eq_Inr_iff split_paired_Ex prod.case by (auto dest: cond_read_list_labels)

lemma branch_step_labels: "branch_step m stale n (fp, p, b) = Inr (fp', p', b') \<Longrightarrow> labels p' = labels p"
  by (auto simp: branch_step_def rbind_eq_Inr_iff or_status_Inr dest!: decl_read_labels split: if_splits)

lemma block_read_labels:
  assumes "avrule_block_read m stale p n fp = Inr (fp', p')"
  shows "labels p' = labels p"
proof -
  have branches: "labels q' = labels q"
    if "for_each (\<lambda>j. branch_step (st j) stale n) js (fp, q, b) = Inr (fp', q', b')" for st js fp q b fp' q' b'
  proof -
    have "(\<lambda>(_, r, _). labels r = labels q) (fp', q', b')"
      by (rule for_each_keeps [OF that]) (auto dest!: branch_step_labels)
    then show ?thesis by simp
  qed
  obtain fp1 nblocks where loop: "for_each (\<lambda>i (fp, p).
        let m = at_site (unat i) m in
        if \<not> malloc (at_site 0 m) then Inl STATUS_ERR
        else rbind (read_words 1 fp) (\<lambda>(fp, ndecls).
          rbind (for_each (\<lambda>j. branch_step (at_site (unat j) (at_site 1 m)) stale n) (upto32 (ndecls ! 0))
              (fp, p, \<lparr>branch_list = [], block_enabled = None, block_flags = (if i = 0 then 0 else AVRULE_OPTIONAL)\<rparr>)) (\<lambda>(fp, p, block).
            Inr (fp, p\<lparr>p_global := p_global p @ [block]\<rparr>))))
      (upto32 nblocks) (fp1, p) = Inr (fp', p')"
    using assms by (auto simp: avrule_block_read_def rbind_eq_Inr_iff split: if_splits)
  have "(\<lambda>(_, r). labels r = labels p) (fp', p')"
    by (rule for_each_keeps [OF loop]) (auto simp: Let_def rbind_eq_Inr_iff dest!: branches split: if_splits)
  then show ?thesis by simp
qed

lemma scope_read_frame:
  assumes "scope_read m p i fp = Inr (fp', p')"
  shows "p' = p \<or> (\<exists>ss. p' = p\<lparr>p_scope := ss\<rparr>)"
proof -
  obtain key known fp1 where "(if \<not> known \<or> \<not> malloc (at_site 1 m) then Inl STATUS_ERR
       else rbind (read_words 2 fp1) (\<lambda>(fp, buf).
         if buf ! 1 = 0 then Inl UB
         else if \<not> malloc (at_site 2 m) then Inl STATUS_ERR
         else rbind (read_words (unat (buf ! 1)) fp) (\<lambda>(fp, ids).
           if key = OBJECT_R \<and> i = SYM_ROLES then Inr (fp, p)
           else rbind (idx (p_scope p) i) (\<lambda>s.
             rbind (or_status (hashtab_insert (at_site 3 m) (table s) key \<lparr>sc_scope = buf ! 0, decl_ids = ids\<rparr>)) (\<lambda>h.
               Inr (fp, p\<lparr>p_scope := (p_scope p)[i := s\<lparr>table := h\<rparr>]\<rparr>)))))) = Inr (fp', p')"
    using assms unfolding scope_read_def rbind_eq_Inr_iff split_paired_Ex prod.case by blast
  then obtain fp2 buf where "(if buf ! 1 = 0 then Inl UB
         else if \<not> malloc (at_site 2 m) then Inl STATUS_ERR
         else rbind (read_words (unat (buf ! 1)) fp2) (\<lambda>(fp, ids).
           if key = OBJECT_R \<and> i = SYM_ROLES then Inr (fp, p)
           else rbind (idx (p_scope p) i) (\<lambda>s.
             rbind (or_status (hashtab_insert (at_site 3 m) (table s) key \<lparr>sc_scope = buf ! 0, decl_ids = ids\<rparr>)) (\<lambda>h.
               Inr (fp, p\<lparr>p_scope := (p_scope p)[i := s\<lparr>table := h\<rparr>]\<rparr>))))) = Inr (fp', p')"
    by (cases "\<not> known \<or> \<not> malloc (at_site 1 m)") (simp, simp only: if_False rbind_eq_Inr_iff split_paired_Ex prod.case, blast)
  then show ?thesis by (cases "key = OBJECT_R \<and> i = SYM_ROLES") (auto simp: rbind_eq_Inr_iff split: if_split_asm)
qed

lemma scope_read_labels: "scope_read m p i fp = Inr (fp', p') \<Longrightarrow> labels p' = labels p"
  using scope_read_frame by fastforce

lemma read_scopes_labels:
  assumes "read_scopes m n p fp = Inr (fp', p')"
  shows "labels p' = labels p"
proof -
  have inner: "labels q' = labels q"
    if "for_each (\<lambda>j (fp, p). scope_read (st j) p i fp) js (fp, q) = Inr (fp', q')" for st js i fp q fp' q'
  proof -
    have "(\<lambda>(_, r). labels r = labels q) (fp', q')" by (rule for_each_keeps [OF that]) (auto dest!: scope_read_labels)
    then show ?thesis by simp
  qed
  have "(\<lambda>(_, r). labels r = labels p) (fp', p')"
    by (rule for_each_keeps [OF assms [unfolded read_scopes_def]]) (auto simp: rbind_eq_Inr_iff dest!: inner)
  then show ?thesis by simp
qed

lemma read_module_parts:
  assumes "read_module m stale p fp = Inr (fp', q)"
  shows "\<exists>m' k p' fp1. labels p' = labels p \<and> read_contexts m' k p' fp1 = Inr (fp', q)"
proof -
  obtain fp0 buf where buf: "read_words 5 fp = Inr (fp0, buf)" using assms by (auto simp: read_module_def rbind_eq_Inr_iff)
  define p1 where "p1 = p\<lparr>policy_type := buf ! 0, policyvers := buf ! 1, mls := buf ! 2 AND POLICYDB_CONFIG_MLS \<noteq> 0,
    handle_unknown := buf ! 2 AND POLICYDB_CONFIG_UNKNOWN_MASK\<rparr>"
  obtain n k where "rbind (if buf ! 0 = POLICY_MOD then read_module_name (at_site 0 m) p1 fp0 else Inr (fp0, p1)) (\<lambda>(fp, p).
       rbind (read_bits (at_site 1 m) (buf ! 1 \<ge> MOD_POLICYDB_VERSION_POLCAP) (policycaps p) fp) (\<lambda>(fp, caps).
       rbind (read_symtabs (at_site 2 m) n (p\<lparr>policycaps := caps\<rparr>) fp) (\<lambda>(fp, p).
       rbind (avrule_block_read (at_site 3 m) (stale 1) (p\<lparr>p_global := []\<rparr>) n fp) (\<lambda>(fp, p).
       rbind (read_scopes (at_site 4 m) n p fp) (\<lambda>(fp, p). read_contexts (at_site 5 m) k p fp))))) = Inr (fp', q)"
    using assms unfolding read_module_def buf rbind_simps prod.case Let_def p1_def [symmetric]
    by (simp split: if_split_asm option.split_asm prod.split_asm)
  then obtain fp2 p2 caps fp3 fp4 p3 fp5 p4 fp6 p5 where
    name: "(if buf ! 0 = POLICY_MOD then read_module_name (at_site 0 m) p1 fp0 else Inr (fp0, p1)) = Inr (fp2, p2)"
    and parts: "read_symtabs (at_site 2 m) n (p2\<lparr>policycaps := caps\<rparr>) fp3 = Inr (fp4, p3)"
      "avrule_block_read (at_site 3 m) (stale 1) (p3\<lparr>p_global := []\<rparr>) n fp4 = Inr (fp5, p4)"
      "read_scopes (at_site 4 m) n p4 fp5 = Inr (fp6, p5)"
    and last: "read_contexts (at_site 5 m) k p5 fp6 = Inr (fp', q)"
    unfolding rbind_eq_Inr_iff split_paired_Ex prod.case by blast
  have "labels p2 = labels p1" using name by (auto simp: read_module_name_def rbind_eq_Inr_iff split: if_splits)
  then have "labels p5 = labels p"
    using read_symtabs_labels [OF parts(1)] block_read_labels [OF parts(2)] read_scopes_labels [OF parts(3)] by (simp add: p1_def)
  then show ?thesis using last by blast
qed

lemma read_module_ok: "read_module m stale p fp = Inr (fp', q) \<Longrightarrow> no_labels p \<Longrightarrow> labels_ok q \<and> genfs_wf q"
  using read_module_parts read_contexts_ok unfolding no_labels_def by metis

lemma policydb_read_ok:
  assumes "policydb_read m stale p fp = Inr (fp', q)" and "no_labels p"
  shows "labels_ok q \<and> genfs_wf q"
proof -
  have kern: "labels_ok q \<and> genfs_wf q" if rd: "read_kernel m stale p' fp = Inr (fp', q)" and no: "no_labels p'" for m p' fp
  proof -
    have "\<exists>p3 m3 n fp3. labels p3 = labels p' \<and> read_contexts m3 n p3 fp3 = Inr (fp', q)"
      using rd by (fastforce simp: read_kernel_def rbind_eq_Inr_iff Let_def split: if_splits option.splits
          dest!: read_symtabs_labels read_rules_labels)
    then show ?thesis using read_contexts_ok no by (metis no_labels_def)
  qed
  have "no_labels (fst (policydb_set_target_platform p i))" for i
    using assms(2) by (simp add: policydb_set_target_platform_def no_labels_def labels_def)
  then show ?thesis
    using assms read_module_ok by (auto simp: policydb_read_def rbind_eq_Inr_iff split: if_splits option.splits dest!: kern)
qed

end
