(* ===== verification/Modules_Laws.thy ===== *)
theory Modules_Laws
  imports Modules Mls_Laws
begin

text \<open>
  Laws of \<open>Modules\<close>: symbols and their scopes, and what makes an identifier of a module enabled.
\<close>

section \<open>Changing an entry of a table\<close>

lemma map_of_change:
  "map_of (map (\<lambda>n. if fst n = key then (key, d) else n) xs) k =
     (if k = key then map_option (\<lambda>_. d) (map_of xs key) else map_of xs k)"
  by (induction xs) auto

lemma change_wf:
  assumes "hashtab_wf good hash cmp h"
  shows "hashtab_wf good hash cmp (h\<lparr>htable := map (map (\<lambda>n. if fst n = key then (key, d) else n)) (htable h)\<rparr>)"
proof -
  let ?f = "\<lambda>n. if fst n = key then (key, d) else n"
  have fst: "fst (?f n) = fst n" for n by simp
  have "chain_sorted cmp (map ?f c) \<longleftrightarrow> chain_sorted cmp c" for c
    unfolding chain_sorted_def sorted_wrt_map fst ..
  moreover have "(\<forall>n \<in> set (map ?f c). unat (hash (hsize h) (fst n)) = i) \<longleftrightarrow> (\<forall>n \<in> set c. unat (hash (hsize h) (fst n)) = i)" for c i
    unfolding set_map ball_simps fst ..
  ultimately show ?thesis using assms unfolding hashtab_wf_def by simp
qed

lemma set_entry_wf: "symtab_wf s \<Longrightarrow> symtab_wf (set_entry key d s)"
  by (auto simp: symtab_wf_def set_entry_def intro!: change_wf)

lemma set_entry_map:
  "symtab_map (set_entry key d s) k = (if k = key then map_option (\<lambda>_. d) (symtab_map s key) else symtab_map s k)"
proof (cases "table s")
  case (Some h)
  have "concat (map (map f) cs) = map f (concat cs)" for f :: "string \<times> 'a \<Rightarrow> string \<times> 'a" and cs by (simp add: map_concat)
  then show ?thesis using Some by (simp add: symtab_map_def set_entry_def hmap_def entries_def map_of_change)
qed (simp add: symtab_map_def set_entry_def)

lemma symtab_add:
  assumes "symtab_wf s"
  obtains (dup) "symtab_map s key \<noteq> None" "hashtab_insert m (table s) key d = Inl EEXIST"
  | (oom) "symtab_map s key = None" "\<not> malloc m" "hashtab_insert m (table s) key d = Inl ENOMEM"
  | (new) h where "symtab_map s key = None" "malloc m" "hashtab_insert m (table s) key d = Inr h"
      "\<And>v. symtab_wf (s\<lparr>table := h, nprim := v\<rparr>)" "\<And>v. symtab_map (s\<lparr>table := h, nprim := v\<rparr>) = (symtab_map s)(key \<mapsto> d)"
proof -
  obtain h where h: "table s = Some h" "hashtab_wf sym_size symhash symcmp h" using assms by (auto simp: symtab_wf_def)
  show ?thesis
    by (cases rule: sym.insert_cases [OF h(2), of key m d])
      (use h that in \<open>auto simp: symtab_wf_def symtab_map_def\<close>)
qed

section \<open>Scopes\<close>

lemma add_decl_id_spec:
  assumes "add_decl_id m i sc = Inr d"
  shows "sc_scope d = sc_scope sc \<and> i \<in> set (decl_ids d) \<and>
    (length (decl_ids sc) < 2 ^ 32 \<longrightarrow> decl_ids d = (if i \<in> set (decl_ids sc) then decl_ids sc else decl_ids sc @ [i]))"
proof (cases "i \<in> set (decl_ids sc)")
  case False
  then have "decl_ids d = take (unat (of_nat (length (decl_ids sc)) :: u32)) (decl_ids sc) @ [i] \<and> sc_scope d = sc_scope sc"
    using assms by (auto simp: add_decl_id_def add_i_to_a_def Let_def split: if_splits err.splits)
  then show ?thesis using False by (auto simp: unsigned_of_nat take_bit_nat_eq_self)
qed (use assms in \<open>auto simp: add_decl_id_def\<close>)

lemma scope_check_scope: "scope_check n plain base cur sc old = Inr d \<Longrightarrow> sc_scope d = sc \<and> decl_ids d = decl_ids old"
  by (auto simp: scope_check_def split: if_splits option.splits)

text \<open>
  What is promised of the scope of a symbol after a successful insertion: the declaration is put
  behind those that the scope lists, unless it is one of them.
\<close>

definition scope_added :: "u32 \<Rightarrow> u32 \<Rightarrow> scope_datum option \<Rightarrow> scope_datum \<Rightarrow> bool" where
  "scope_added sc i old d \<longleftrightarrow> sc_scope d = sc \<and> i \<in> set (decl_ids d) \<and>
     (case old of
        None \<Rightarrow> decl_ids d = [i]
      | Some old \<Rightarrow> length (decl_ids old) < 2 ^ 32 \<longrightarrow>
          decl_ids d = (if i \<in> set (decl_ids old) then decl_ids old else decl_ids old @ [i]) \<and>
          (distinct (decl_ids old) \<longrightarrow> distinct (decl_ids d)))"

lemma scope_insert_new:
  assumes wf: "symtab_wf ss" and run: "scope_insert m n plain key cur sc i s ss = (r, ss')" and none: "symtab_map ss key = None"
  shows "symtab_wf ss' \<and> (\<forall>k. k \<noteq> key \<longrightarrow> symtab_map ss' k = symtab_map ss k) \<and>
    (r = Inr () \<longrightarrow> (\<exists>d. symtab_map ss' key = Some d \<and> scope_added sc i None d))"
proof (cases "malloc (at_site 0 m) \<and> malloc (at_site 1 m)")
  case True
  let ?d = "\<lparr>sc_scope = sc, decl_ids = []\<rparr>"
  show ?thesis
  proof (cases rule: symtab_add [OF wf, of key "at_site 2 m" ?d])
    case (3 h)
    have "ss\<lparr>table := h, nprim := nprim ss\<rparr> = ss\<lparr>table := h\<rparr>" by simp
    note new = 3(1-3) 3(4,5) [of "nprim ss", unfolded this]
    show ?thesis
    proof (cases "add_decl_id (at_site 3 m) i ?d")
      case (Inl e)
      then show ?thesis using run none True new by (auto simp: scope_insert_def symtab_search [OF wf] Let_def)
    next
      case (Inr d)
      then have "r = Inr ()" "ss' = set_entry key d (ss\<lparr>table := h\<rparr>)"
        using run none True new by (auto simp: scope_insert_def symtab_search [OF wf] Let_def)
      moreover have "decl_ids d = [i]" "sc_scope d = sc"
        using Inr by (auto simp: add_decl_id_def add_i_to_a_def Let_def split: if_splits)
      ultimately show ?thesis using new(4,5) by (auto simp: set_entry_map scope_added_def intro: set_entry_wf)
    qed
  qed (use run none True wf in \<open>auto simp: scope_insert_def symtab_search [OF wf]\<close>)
qed (use run none wf in \<open>auto simp: scope_insert_def symtab_search [OF wf]\<close>)

lemma scope_insert_old:
  assumes wf: "symtab_wf ss" "symtab_wf s" and run: "scope_insert m n plain key cur sc i s ss = (r, ss')"
    and old: "symtab_map ss key = Some old"
  shows "symtab_wf ss' \<and> (\<forall>k. k \<noteq> key \<longrightarrow> symtab_map ss' k = symtab_map ss k) \<and>
    (r = Inr () \<longrightarrow> (\<exists>d. symtab_map ss' key = Some d \<and> scope_added sc i (Some old) d) \<and>
      \<not> (n \<noteq> SYM_ROLES \<and> n \<noteq> SYM_USERS \<and> sc_scope old = SCOPE_DECL \<and> sc = SCOPE_DECL))"
proof (cases "scope_check n plain (symtab_map s key) cur sc old")
  case (Inl e)
  then show ?thesis using run old wf(1) by (auto simp: scope_insert_def symtab_search [OF wf(1)] symtab_search [OF wf(2)])
next
  case (Inr d)
  note sc = scope_check_scope [OF Inr]
  have once: "\<not> (n \<noteq> SYM_ROLES \<and> n \<noteq> SYM_USERS \<and> sc_scope old = SCOPE_DECL \<and> sc = SCOPE_DECL)"
    using Inr by (auto simp: scope_check_def)
  show ?thesis
  proof (cases "add_decl_id (at_site 3 m) i d")
    case (Inl e)
    then have "r \<noteq> Inr ()" "ss' = set_entry key d ss"
      using run old Inr by (auto simp: scope_insert_def symtab_search [OF wf(1)] symtab_search [OF wf(2)] \<open>scope_check _ _ _ _ _ _ = _\<close>)
    then show ?thesis using wf(1) by (auto simp: set_entry_map intro: set_entry_wf)
  next
    case d': (Inr d')
    then have "r = Inr ()" "ss' = set_entry key d' ss"
      using run old Inr by (auto simp: scope_insert_def symtab_search [OF wf(1)] symtab_search [OF wf(2)])
    then show ?thesis
      using wf(1) old sc once add_decl_id_spec [OF d'] by (auto simp: set_entry_map scope_added_def intro: set_entry_wf)
  qed
qed

lemma symtab_insert_facts:
  assumes wf: "symtab_wf s" "symtab_wf ss" and run: "symtab_insert m n plain key mk sc i value (s, ss) = (r, s', ss')"
  shows "symtab_wf s' \<and> symtab_wf ss' \<and>
    (\<forall>k. k \<noteq> key \<longrightarrow> symtab_map s' k = symtab_map s k \<and> symtab_map ss' k = symtab_map ss k) \<and>
    (\<forall>rc. r = Inr rc \<longrightarrow>
      (if symtab_map s key = None
       then rc = 0 \<and> nprim s' = (if value then nprim s + 1 else nprim s) \<and> symtab_map s' key = Some (mk (nprim s'))
       else rc = 1 \<and> s' = s) \<and>
      (\<exists>d. symtab_map ss' key = Some d \<and> scope_added sc i (symtab_map ss key) d) \<and>
      \<not> (n \<noteq> SYM_ROLES \<and> n \<noteq> SYM_USERS \<and> sc = SCOPE_DECL \<and> map_option sc_scope (symtab_map ss key) = Some SCOPE_DECL))"
proof -
  have scopes: "symtab_wf ss2 \<and> (\<forall>k. k \<noteq> key \<longrightarrow> symtab_map ss2 k = symtab_map ss k) \<and>
      (r2 = Inr () \<longrightarrow> (\<exists>d. symtab_map ss2 key = Some d \<and> scope_added sc i (symtab_map ss key) d) \<and>
        \<not> (n \<noteq> SYM_ROLES \<and> n \<noteq> SYM_USERS \<and> sc = SCOPE_DECL \<and> map_option sc_scope (symtab_map ss key) = Some SCOPE_DECL))"
    if "scope_insert m' n plain key cur sc i t ss = (r2, ss2)" "symtab_wf t" for m' cur t r2 ss2
    using scope_insert_new [OF wf(2) that(1)] scope_insert_old [OF wf(2) that(2,1)] by (cases "symtab_map ss key") auto
  let ?v = "if value then nprim s + 1 else nprim s"
  show ?thesis
  proof (cases rule: symtab_add [OF wf(1), of key "at_site 0 m" "mk ?v"])
    case dup: 1
    obtain r2 ss2 where 2: "scope_insert (at_site 1 m) n plain key (mk (nprim s)) sc i s ss = (r2, ss2)" by force
    then have "r = rbind r2 (\<lambda>_. Inr 1)" "s' = s" "ss' = ss2" using run dup(2) by (simp_all add: symtab_insert_def Let_def)
    then show ?thesis using scopes [OF 2 wf(1)] wf(1) dup(1) by (auto simp: rbind_eq_Inr_iff)
  next
    case 2
    then show ?thesis using run wf by (auto simp: symtab_insert_def Let_def)
  next
    case new: (3 h)
    let ?s = "s\<lparr>table := h, nprim := ?v\<rparr>"
    obtain r2 ss2 where 2: "scope_insert (at_site 1 m) n plain key (mk ?v) sc i ?s ss = (r2, ss2)" by force
    then have "r = rbind r2 (\<lambda>_. Inr 0)" "s' = ?s" "ss' = ss2" using run new(3) by (simp_all add: symtab_insert_def Let_def)
    then show ?thesis using scopes [OF 2 new(4)] new(1,4,5) by (auto simp: rbind_eq_Inr_iff)
  qed
qed

text \<open>
  C33: \<^verbatim>\<open>symtab_insert\<close> keeps both tables well-formed and changes no other symbol, whatever fails.  When it
  succeeds, the symbol is in the table, with the next value if it is new and unchanged otherwise; its scope is the
  one asked for, and lists the declaration: it is put behind those listed before unless it is one
  of them, in which case the list stays as it is, so that a list without duplicates stays one (the
  lists have less than \<open>2 ^ 32\<close> entries).  A symbol that is neither a role nor a user is not declared
  twice.
\<close>

theorem symtab_insert_spec:
  assumes wf: "symtab_wf s" "symtab_wf ss" and run: "symtab_insert m n plain key mk sc i value (s, ss) = (r, s', ss')"
  shows "symtab_wf s' \<and> symtab_wf ss' \<and>
    (\<forall>k. k \<noteq> key \<longrightarrow> symtab_map s' k = symtab_map s k \<and> symtab_map ss' k = symtab_map ss k) \<and>
    (\<forall>rc. r = Inr rc \<longrightarrow>
      (if symtab_map s key = None
       then rc = 0 \<and> nprim s' = (if value then nprim s + 1 else nprim s) \<and> symtab_map s' key = Some (mk (nprim s'))
       else rc = 1 \<and> s' = s) \<and>
      (\<exists>d. symtab_map ss' key = Some d \<and> scope_added sc i (symtab_map ss key) d) \<and>
      \<not> (n \<noteq> SYM_ROLES \<and> n \<noteq> SYM_USERS \<and> sc = SCOPE_DECL \<and> map_option sc_scope (symtab_map ss key) = Some SCOPE_DECL))"
  using symtab_insert_facts [OF assms] .

lemma scope_insert_succeeds:
  assumes "symtab_wf ss" and "symtab_map ss key = None"
  shows "\<exists>ss'. scope_insert no_oom n plain key cur sc i s ss = (Inr (), ss')"
  using assms(2)
  by (cases rule: symtab_add [OF assms(1), of key no_oom "\<lparr>sc_scope = sc, decl_ids = []\<rparr>"])
    (auto simp: scope_insert_def symtab_search [OF assms(1)] add_decl_id_def add_i_to_a_def Let_def)

lemma symtab_insert_new:
  assumes wf: "symtab_wf s" "symtab_wf ss" and none: "symtab_map s key = None" "symtab_map ss key = None"
  shows "\<exists>s' ss'. symtab_insert no_oom n plain key mk sc i True (s, ss) = (Inr 0, s', ss')"
proof (cases rule: symtab_add [OF wf(1), of key no_oom "mk (nprim s + 1)"])
  case (3 h)
  then show ?thesis
    using scope_insert_succeeds [OF wf(2) none(2), of n plain "mk (nprim s + 1)" sc i "s\<lparr>table := h, nprim := nprim s + 1\<rparr>"]
    by (auto simp: symtab_insert_def Let_def)
qed (use none in simp_all)

theorem symtab_insert_spec_witness:
  "(\<exists>s ss. symtab_insert no_oom 3 (\<lambda>_. True) ''t'' (\<lambda>v. v) SCOPE_DECL 1 True (one_slot [], one_slot []) = (Inr 0, s, ss) \<and>
     symtab_map s ''t'' = Some 1 \<and> (\<exists>d. symtab_map ss ''t'' = Some d \<and> sc_scope d = SCOPE_DECL \<and> decl_ids d = [1])) \<and>
   (\<exists>s ss. symtab_insert no_oom 3 (\<lambda>_. True) ''t'' (\<lambda>v. v) SCOPE_REQ 7 True
       (one_slot [(''t'', 1)], one_slot [(''t'', \<lparr>sc_scope = SCOPE_REQ, decl_ids = [4, 7]\<rparr>)]) = (Inr 1, s, ss) \<and>
     symtab_map s ''t'' = Some 1 \<and> (\<exists>d. symtab_map ss ''t'' = Some d \<and> decl_ids d = [4, 7]))"
proof (rule conjI)
  have wf: "symtab_wf (one_slot [] :: u32 symtab)" "symtab_wf (one_slot [] :: scope_datum symtab)"
    by (simp_all add: one_slot_wf chain_sorted_def)
  have none: "symtab_map (one_slot [] :: u32 symtab) ''t'' = None" "symtab_map (one_slot [] :: scope_datum symtab) ''t'' = None"
    by (simp_all add: one_slot_map)
  obtain s ss where run: "symtab_insert no_oom 3 (\<lambda>_. True) ''t'' (\<lambda>v :: u32. v) SCOPE_DECL 1 True (one_slot [], one_slot []) = (Inr 0, s, ss)"
    using symtab_insert_new [OF wf none] by blast
  then show "\<exists>s ss. symtab_insert no_oom 3 (\<lambda>_. True) ''t'' (\<lambda>v. v) SCOPE_DECL 1 True (one_slot [], one_slot []) = (Inr 0, s, ss) \<and>
     symtab_map s ''t'' = Some 1 \<and> (\<exists>d. symtab_map ss ''t'' = Some d \<and> sc_scope d = SCOPE_DECL \<and> decl_ids d = [1])"
    using symtab_insert_spec [OF wf run] none by (auto simp: scope_added_def one_slot_def)
next
  let ?s = "one_slot [(''t'', 1 :: u32)]" and ?ss = "one_slot [(''t'', \<lparr>sc_scope = SCOPE_REQ, decl_ids = [4, 7]\<rparr>)]"
  have wf: "symtab_wf ?s" "symtab_wf ?ss" by (simp_all add: one_slot_wf chain_sorted_def)
  have old: "symtab_map ?s ''t'' = Some 1" "symtab_map ?ss ''t'' = Some \<lparr>sc_scope = SCOPE_REQ, decl_ids = [4, 7]\<rparr>"
    by (simp_all add: one_slot_map)
  have "nprim ?s = 1" by (simp add: one_slot_def)
  then have "\<exists>s ss. symtab_insert no_oom 3 (\<lambda>_. True) ''t'' (\<lambda>v. v) SCOPE_REQ 7 True (?s, ?ss) = (Inr 1, s, ss)"
    by (cases rule: symtab_add [OF wf(1), of "''t''" "at_site 0 no_oom" 2])
      (use old symtab_search [OF wf(1)] symtab_search [OF wf(2)] in \<open>auto simp: symtab_insert_def scope_insert_def
        scope_check_def add_decl_id_def SCOPE_REQ_def SCOPE_DECL_def\<close>)
  then obtain s ss where run: "symtab_insert no_oom 3 (\<lambda>_. True) ''t'' (\<lambda>v. v) SCOPE_REQ 7 True (?s, ?ss) = (Inr 1, s, ss)"
    by blast
  then show "\<exists>s ss. symtab_insert no_oom 3 (\<lambda>_. True) ''t'' (\<lambda>v. v) SCOPE_REQ 7 True (?s, ?ss) = (Inr 1, s, ss) \<and>
     symtab_map s ''t'' = Some 1 \<and> (\<exists>d. symtab_map ss ''t'' = Some d \<and> decl_ids d = [4, 7])"
    using symtab_insert_spec [OF wf run] old by (auto simp: scope_added_def)
qed

section \<open>Enabled identifiers\<close>

definition decls_ok :: "policydb \<Rightarrow> bool" where
  "decls_ok p \<longleftrightarrow> distinct (map (decl_id \<circ> snd) (all_decls p)) \<and>
     (\<forall>(r, d) \<in> set (all_decls p). decl_id d \<noteq> 0 \<and> unat (decl_id d) \<le> length (all_decls p))"

lemma all_decls_at: "(r, d) \<in> set (all_decls p) \<Longrightarrow> decl_at p r = Inr d"
  by (auto simp: all_decls_def decl_at_def in_set_enumerate_eq idx_def)

lemma index_loop:
  assumes "\<forall>(r, d) \<in> set ds. decl_id d \<noteq> 0 \<and> unat (decl_id d) \<le> length arr" and "distinct (map (decl_id \<circ> snd) ds)"
  shows "\<exists>arr'. for_each (\<lambda>(r, d) arr. val_set arr (decl_id d) r) ds arr = Inr arr' \<and> length arr' = length arr \<and>
    (\<forall>i. i \<noteq> 0 \<longrightarrow> unat i \<le> length arr \<longrightarrow> arr' ! unat (i - 1) =
       (case find (\<lambda>(r, d). decl_id d = i) ds of Some (r, d) \<Rightarrow> Some r | None \<Rightarrow> arr ! unat (i - 1)))"
  using assms
proof (induction ds arbitrary: arr)
  case (Cons rd ds)
  obtain r d where rd: "rd = (r, d)" by (cases rd)
  have pred: "unat (i - 1) = unat i - 1" if "i \<noteq> 0" for i :: u32 using that by (simp add: unat_minus_one)
  have d: "decl_id d \<noteq> 0" "unat (decl_id d) \<le> length arr" using Cons.prems(1) by (auto simp: rd)
  then have step: "val_set arr (decl_id d) r = Inr (arr[unat (decl_id d - 1) := Some r])"
    by (auto simp: val_set_def pred unat_gt_0 [symmetric] word_neq_0_conv intro!: less_le_trans [of _ "unat (decl_id d)"])
  have notin: "find (\<lambda>(r, d). decl_id d = decl_id d0) ds = None" if "d0 = d" for d0
    using Cons.prems(2) by (force simp: rd that find_None_iff)
  obtain arr' where IH: "for_each (\<lambda>(r, d) arr. val_set arr (decl_id d) r) ds (arr[unat (decl_id d - 1) := Some r]) = Inr arr'"
    "length arr' = length arr" "\<And>i. i \<noteq> 0 \<Longrightarrow> unat i \<le> length arr \<Longrightarrow> arr' ! unat (i - 1) =
       (case find (\<lambda>(r, d). decl_id d = i) ds of Some (r, d) \<Rightarrow> Some r | None \<Rightarrow> arr[unat (decl_id d - 1) := Some r] ! unat (i - 1))"
    using Cons.IH [of "arr[unat (decl_id d - 1) := Some r]"] Cons.prems by (auto simp: rd)
  have "arr' ! unat (i - 1) = (case find (\<lambda>(r, d). decl_id d = i) (rd # ds) of Some (r, d) \<Rightarrow> Some r | None \<Rightarrow> arr ! unat (i - 1))"
    if i: "i \<noteq> 0" "unat i \<le> length arr" for i
  proof (cases "i = decl_id d")
    case True
    have "unat (i - 1) < length arr" using i by (simp add: pred unat_gt_0 [symmetric] word_neq_0_conv less_eq_Suc_le)
    then show ?thesis using True IH(3) [OF i] notin [OF refl] by (simp add: rd)
  next
    case False
    then have "unat (i - 1) \<noteq> unat (decl_id d - 1)" by (metis diff_add_cancel word_unat_eq_iff)
    then show ?thesis using False IH(3) [OF i] by (simp add: rd split: option.splits)
  qed
  then show ?case using step IH(1,2) by (auto simp: rd)
qed simp

lemma index_decls_spec:
  assumes "decls_ok p"
  obtains arr where "policydb_index_decls no_oom p = Inr (p\<lparr>decl_val_to_struct := arr\<rparr>)" and "length arr = length (all_decls p)"
    and "\<And>i. i \<noteq> 0 \<Longrightarrow> unat i \<le> length arr \<Longrightarrow> arr ! unat (i - 1) = map_option fst (find (\<lambda>(r, d). decl_id d = i) (all_decls p))"
proof -
  let ?n = "length (all_decls p)"
  obtain arr where arr: "for_each (\<lambda>(r, d) arr. val_set arr (decl_id d) r) (all_decls p) (replicate ?n None) = Inr arr" "length arr = ?n"
    "\<And>i. i \<noteq> 0 \<Longrightarrow> unat i \<le> ?n \<Longrightarrow> arr ! unat (i - 1) =
       (case find (\<lambda>(r, d). decl_id d = i) (all_decls p) of Some (r, d) \<Rightarrow> Some r | None \<Rightarrow> replicate ?n None ! unat (i - 1))"
    using index_loop [of "all_decls p" "replicate ?n None"] assms by (auto simp: decls_ok_def)
  have "unat (i - 1) < ?n" if "i \<noteq> 0" "unat i \<le> ?n" for i :: u32
    using that by (simp add: unat_minus_one unat_gt_0 [symmetric] word_neq_0_conv less_eq_Suc_le)
  then show ?thesis using arr by (intro that [of arr]) (auto simp: policydb_index_decls_def split: option.splits)
qed

lemma find_member: "find P xs = Some x \<Longrightarrow> x \<in> set xs \<and> P x"
  by (induction xs) (auto split: if_splits)

text \<open>An identifier is declared in an enabled branch.\<close>

definition declared_enabled :: "policydb \<Rightarrow> scope_datum symtab \<Rightarrow> string \<Rightarrow> bool" where
  "declared_enabled p s key \<longleftrightarrow>
     (\<exists>sc. symtab_map s key = Some sc \<and> sc_scope sc = SCOPE_DECL \<and>
        (\<exists>(r, d) \<in> set (all_decls p). decl_id d \<in> set (decl_ids sc) \<and> decl_enabled d \<noteq> 0))"

lemma any_enabled_spec:
  assumes "decls_ok p" and "\<And>i. i \<noteq> 0 \<Longrightarrow> unat i \<le> length arr \<Longrightarrow> arr ! unat (i - 1) = map_option fst (find (\<lambda>(r, d). decl_id d = i) (all_decls p))"
    and "length arr = length (all_decls p)" and "\<forall>i \<in> set is. i \<noteq> 0 \<and> unat i \<le> length (all_decls p)"
  shows "any_enabled (p\<lparr>decl_val_to_struct := arr\<rparr>) is = Inr (\<exists>(r, d) \<in> set (all_decls p). decl_id d \<in> set is \<and> decl_enabled d \<noteq> 0)"
  using assms(4)
proof (induction "is")
  case (Cons i "is")
  have i: "i \<noteq> 0" "unat i \<le> length arr" using Cons.prems assms(3) by simp_all
  then have ix: "idx arr (unat (i - 1)) = Inr (map_option fst (find (\<lambda>(r, d). decl_id d = i) (all_decls p)))"
    using assms(2) [OF i] by (simp add: idx_def unat_minus_one unat_gt_0 [symmetric] word_neq_0_conv less_eq_Suc_le)
  have IH: "any_enabled (p\<lparr>decl_val_to_struct := arr\<rparr>) is = Inr (\<exists>(r, d) \<in> set (all_decls p). decl_id d \<in> set is \<and> decl_enabled d \<noteq> 0)"
    using Cons.IH Cons.prems by simp
  show ?case
  proof (cases "find (\<lambda>(r, d). decl_id d = i) (all_decls p)")
    case None
    then have "\<forall>(r, d) \<in> set (all_decls p). decl_id d \<noteq> i" by (auto simp: find_None_iff)
    then have "(\<exists>(r, d) \<in> set (all_decls p). decl_id d \<in> set (i # is) \<and> decl_enabled d \<noteq> 0) \<longleftrightarrow>
        (\<exists>(r, d) \<in> set (all_decls p). decl_id d \<in> set is \<and> decl_enabled d \<noteq> 0)" by auto
    moreover have "any_enabled (p\<lparr>decl_val_to_struct := arr\<rparr>) (i # is) = any_enabled (p\<lparr>decl_val_to_struct := arr\<rparr>) is"
      using ix None by simp
    ultimately show ?thesis using IH by simp
  next
    case (Some rd)
    obtain r d where rd: "rd = (r, d)" by (cases rd)
    then have d: "(r, d) \<in> set (all_decls p)" "decl_id d = i"
      using find_member [OF Some] by simp_all
    have unique: "d' = d" if "(r', d') \<in> set (all_decls p)" "decl_id d' = i" for r' d'
    proof -
      have "inj_on (decl_id \<circ> snd) (set (all_decls p))" using assms(1) by (simp add: decls_ok_def distinct_map)
      then have "(r', d') = (r, d)" using that d inj_onD [of "decl_id \<circ> snd" _ "(r', d')" "(r, d)"] by simp
      then show ?thesis by simp
    qed
    have at: "decl_at (p\<lparr>decl_val_to_struct := arr\<rparr>) r = Inr d" using all_decls_at [OF d(1)] by (simp add: decl_at_def split: prod.splits)
    have run: "any_enabled (p\<lparr>decl_val_to_struct := arr\<rparr>) (i # is) =
        (if decl_enabled d \<noteq> 0 then Inr True else any_enabled (p\<lparr>decl_val_to_struct := arr\<rparr>) is)"
      using ix Some at by (simp add: rd)
    show ?thesis
    proof (cases "decl_enabled d = 0")
      case True
      then have "(\<exists>(r, d) \<in> set (all_decls p). decl_id d \<in> set (i # is) \<and> decl_enabled d \<noteq> 0) \<longleftrightarrow>
          (\<exists>(r, d) \<in> set (all_decls p). decl_id d \<in> set is \<and> decl_enabled d \<noteq> 0)" using unique by auto
      then show ?thesis unfolding run IH using True by simp
    next
      case False
      then have "\<exists>(r, d) \<in> set (all_decls p). decl_id d \<in> set (i # is) \<and> decl_enabled d \<noteq> 0" using d by auto
      then show ?thesis unfolding run using False by simp
    qed
  qed
qed simp

text \<open>
  C34: After \<^verbatim>\<open>policydb_index_decls\<close> has numbered the declarations of a module, which succeeds if their
  numbers are those from one to their count, \<^verbatim>\<open>is_id_enabled\<close> decides whether the identifier is declared, not only
  required, in some enabled branch of a block.
\<close>

theorem is_id_enabled_decides:
  assumes "decls_ok p" and "n < length (p_scope p)" and "symtab_wf (p_scope p ! n)"
    and "\<forall>sc i. symtab_map (p_scope p ! n) key = Some sc \<longrightarrow> i \<in> set (decl_ids sc) \<longrightarrow> i \<noteq> 0 \<and> unat i \<le> length (all_decls p)"
  shows "\<exists>q. policydb_index_decls no_oom p = Inr q \<and>
    is_id_enabled key q n = Inr (declared_enabled p (p_scope p ! n) key)"
proof -
  obtain arr where arr: "policydb_index_decls no_oom p = Inr (p\<lparr>decl_val_to_struct := arr\<rparr>)" "length arr = length (all_decls p)"
    "\<And>i. i \<noteq> 0 \<Longrightarrow> unat i \<le> length arr \<Longrightarrow> arr ! unat (i - 1) = map_option fst (find (\<lambda>(r, d). decl_id d = i) (all_decls p))"
    using index_decls_spec [OF assms(1)] by blast
  have "any_enabled (p\<lparr>decl_val_to_struct := arr\<rparr>) (decl_ids sc) = Inr (\<exists>(r, d) \<in> set (all_decls p). decl_id d \<in> set (decl_ids sc) \<and> decl_enabled d \<noteq> 0)"
    if "symtab_map (p_scope p ! n) key = Some sc" for sc
    using assms(4) that by (intro any_enabled_spec [OF assms(1) arr(3,2)]) auto
  then have "is_id_enabled key (p\<lparr>decl_val_to_struct := arr\<rparr>) n = Inr (declared_enabled p (p_scope p ! n) key)"
    using assms(2) by (auto simp: is_id_enabled_def idx_def symtab_search [OF assms(3)] declared_enabled_def split: option.splits)
  then show ?thesis using arr(1) by blast
qed

definition empty_decl :: avrule_decl where
  "empty_decl = \<lparr>decl_id = 1, decl_enabled = 1, decl_cond_list = [], decl_avrules = [], role_tr_rules = [],
     role_allow_rules = [], range_tr_rules = [], required = scope_index_zero, declared = scope_index_zero,
     filename_trans_rules = [], d_commons = zero_symtab, d_classes = zero_symtab, d_roles = zero_symtab, d_types = zero_symtab,
     d_users = zero_symtab, d_bools = zero_symtab, d_levels = zero_symtab, d_cats = zero_symtab, decl_module_name = None\<rparr>"

definition sample_module :: policydb where
  "sample_module = zero_policydb\<lparr>p_scope := [one_slot [(''a'', \<lparr>sc_scope = SCOPE_REQ, decl_ids = [1]\<rparr>), (''b'', \<lparr>sc_scope = SCOPE_DECL, decl_ids = [1]\<rparr>)]],
     p_global := [\<lparr>branch_list = [empty_decl], block_enabled = Some 0, block_flags = 0\<rparr>]\<rparr>"

theorem is_id_enabled_decides_witness:
  "\<exists>q. policydb_index_decls no_oom sample_module = Inr q \<and> is_id_enabled ''b'' q 0 = Inr True \<and> is_id_enabled ''a'' q 0 = Inr False"
proof -
  have decls: "all_decls sample_module = [((0, 0), empty_decl)]" by (simp add: all_decls_def sample_module_def)
  then have ok: "decls_ok sample_module" by (simp add: decls_ok_def empty_decl_def)
  have wf: "symtab_wf (p_scope sample_module ! 0)"
    by (simp add: sample_module_def one_slot_wf chain_sorted_def)
  have map: "symtab_map (p_scope sample_module ! 0) k = map_of [(''a'', \<lparr>sc_scope = SCOPE_REQ, decl_ids = [1]\<rparr>), (''b'', \<lparr>sc_scope = SCOPE_DECL, decl_ids = [1]\<rparr>)] k" for k
    by (simp add: sample_module_def one_slot_map)
  have en: "declared_enabled sample_module (p_scope sample_module ! 0) ''b''" "\<not> declared_enabled sample_module (p_scope sample_module ! 0) ''a''"
    unfolding declared_enabled_def decls map by (simp_all add: empty_decl_def SCOPE_REQ_def SCOPE_DECL_def)
  have "\<exists>q. policydb_index_decls no_oom sample_module = Inr q \<and>
      is_id_enabled k q 0 = Inr (declared_enabled sample_module (p_scope sample_module ! 0) k)" if "k = ''a'' \<or> k = ''b''" for k
    using that by (intro is_id_enabled_decides [OF ok _ wf]) (auto simp: map decls, auto simp: sample_module_def)
  from this [of "''a''"] this [of "''b''"] show ?thesis using en by auto
qed

text \<open>A declaration with a number beyond the count of the declarations is written past the end of the array.\<close>

lemma index_decls_overrun:
  assumes "(r, d) \<in> set (all_decls p)" and "unat (decl_id d - 1) \<ge> length (all_decls p)"
  shows "policydb_index_decls no_oom p = Inl UB"
proof -
  have "for_each (\<lambda>(r, d) arr. val_set arr (decl_id d) r) ds arr = Inl UB"
    if "(r, d) \<in> set ds" "length arr \<le> unat (decl_id d - 1)" for ds and arr :: "(nat \<times> nat) option list"
    using that by (induction ds arbitrary: arr) (auto simp: val_set_def)
  then show ?thesis using assms by (simp add: policydb_index_decls_def)
qed

end
