(* ===== verification/Server_Laws.thy ===== *)
theory Server_Laws
  imports Server Policy_Laws Modules_Laws
begin

text \<open>
  The invariant of the security server: whatever is done to it, every context of its SID table is valid
  under its policy.
\<close>

section \<open>The contexts of a SID table\<close>

definition table_contexts :: "sidtab \<Rightarrow> context_struct set" where
  "table_contexts t = (case sidhtable t of None \<Rightarrow> {} | Some tbl \<Rightarrow> snd ` set (concat tbl))"

lemma sid_loop_parts: "sid_loop sd prev cs = (p, c) \<Longrightarrow> rev p @ c = rev prev @ cs"
  by (induction cs arbitrary: prev) (auto split: if_splits)

lemma insert_contexts:
  assumes "sepol_sidtab_insert m t sd c = Inr t'"
  shows "table_contexts t' \<subseteq> insert c (table_contexts t)"
    and "map_option length (sidhtable t') = map_option length (sidhtable t)"
proof -
  obtain tbl where tbl: "sidhtable t = Some tbl" using assms by (cases "sidhtable t") (auto simp: sepol_sidtab_insert_def)
  define i where "i = unat (SIDTAB_HASH sd)"
  obtain prev cur where loop: "sid_loop sd [] (tbl ! i) = (prev, cur)" by fastforce
  have i: "i < length tbl" using assms tbl by (auto simp: sepol_sidtab_insert_def i_def idx_def Let_def split: if_splits)
  obtain c' where c': "context_cpy (at_site 1 m) context_init c = Inr c'"
    and t': "sidhtable t' = Some (tbl[i := rev prev @ (sd, c') # cur])"
    using assms tbl loop i by (auto simp: sepol_sidtab_insert_def i_def [symmetric] idx_def Let_def split: if_splits sum.splits)
  have chain: "rev prev @ cur = tbl ! i" using sid_loop_parts [OF loop] by simp
  have new: "snd ` set (rev prev @ (sd, c') # cur) = insert c (snd ` set (tbl ! i))"
    using context_cpy_Inr [OF c'] by (simp flip: chain)
  have "set (concat (tbl[i := x])) \<subseteq> set x \<union> set (concat tbl)" for x
    using set_update_subset_insert [of tbl i x] by fastforce
  then have "table_contexts t' \<subseteq> snd ` (set (rev prev @ (sd, c') # cur) \<union> set (concat tbl))"
    unfolding table_contexts_def t' option.case by (rule image_mono)
  also have "\<dots> \<subseteq> insert c (snd ` set (concat tbl))"
    unfolding image_Un new using nth_mem [OF i] by auto
  finally show "table_contexts t' \<subseteq> insert c (table_contexts t)" by (simp add: table_contexts_def tbl)
  show "map_option length (sidhtable t') = map_option length (sidhtable t)" by (simp add: tbl t')
qed

lemma ctx_sid_contexts: "ctx_sid m c t = (r, t') \<Longrightarrow> table_contexts t' \<subseteq> insert c (table_contexts t)"
proof -
  assume run: "ctx_sid m c t = (r, t')"
  have same: "table_contexts (t\<lparr>next_sid := k\<rparr>) = table_contexts t" for k by (simp add: table_contexts_def)
  have "table_contexts u \<subseteq> insert c (table_contexts t)" if "sepol_sidtab_context_to_sid m t c = Inr (u, sd)" for u sd
    using that insert_contexts(1) [of m "t\<lparr>next_sid := next_sid t + 1\<rparr>" _ c]
    by (auto simp: sepol_sidtab_context_to_sid_def rbind_eq_Inr_iff Let_def same split: if_splits)
  then show ?thesis using run by (auto simp: ctx_sid_def split: sum.splits prod.splits)
qed

lemma search_contexts: "sepol_sidtab_search t sd = Inr (Some c) \<Longrightarrow> c \<in> table_contexts t"
proof -
  have hit: "c \<in> snd ` set (concat tbl)" if hs: "chain_search tbl k = Inr (Some c)" for tbl k
  proof -
    define i where "i = unat (SIDTAB_HASH k)"
    obtain p r' where loop: "sid_loop k [] (tbl ! i) = (p, r')" by fastforce
    then obtain n r where i: "i < length tbl" "sid_loop k [] (tbl ! i) = (p, n # r)" "snd n = c"
      using hs by (auto simp: chain_search_def i_def [symmetric] rbind_eq_Inr_iff idx_def split: if_splits list.splits)
    then have "n \<in> set (tbl ! i)" using sid_loop_parts [OF i(2)] by (metis append_Nil in_set_conv_decomp rev.simps(1))
    then show ?thesis using i by force
  qed
  assume "sepol_sidtab_search t sd = Inr (Some c)"
  then show ?thesis
    by (auto simp: sepol_sidtab_search_def table_contexts_def rbind_eq_Inr_iff simp del: set_concat dest!: hit split: option.splits)
qed

lemma prune_contexts:
  "sid_prune_chain f cs ne a = (cs', ne', a') \<Longrightarrow> n \<in> set cs' \<Longrightarrow> \<exists>sd c b b'. f sd c b = (False, snd n, b')"
  by (induction cs arbitrary: ne a cs' ne' a') (auto split: prod.splits bool.splits, blast)

lemma map_remove_contexts:
  assumes "sepol_sidtab_map_remove_on_error t f a = Inr (t', a')" and "\<forall>tbl. sidhtable t = Some tbl \<longrightarrow> length tbl = SIDTAB_SIZE"
  shows "\<forall>c' \<in> table_contexts t'. \<exists>sd c b b'. f sd c b = (False, c', b')"
proof (cases "sidhtable t")
  case None
  then show ?thesis using assms(1) by (simp add: sepol_sidtab_map_remove_on_error_def table_contexts_def)
next
  case (Some tbl)
  let ?ok = "\<lambda>c'. \<exists>sd c b b'. f sd c b = (False, c', b')"
  let ?I = "\<lambda>ys (tbl, ne :: u32, b). length tbl = SIDTAB_SIZE \<and> (\<forall>i \<in> set ys. \<forall>n \<in> set (tbl ! i). ?ok (snd n))"
  obtain x where x: "for_each (\<lambda>i (tbl, ne, a). rbind (idx tbl i) (\<lambda>chain.
        case sid_prune_chain f chain ne a of (c, ne', a') \<Rightarrow> Inr (tbl[i := c], ne', a'))) [0..<SIDTAB_SIZE] (tbl, sidnel t, a) = Inr x"
    and out: "(case x of (tbl, ne, a) \<Rightarrow> Inr (t\<lparr>sidhtable := Some tbl, sidnel := ne\<rparr>, a)) = (Inr (t', a') :: (sidtab \<times> _) result)"
    using assms(1) unfolding sepol_sidtab_map_remove_on_error_def Some option.case rbind_eq_Inr_iff by blast
  obtain tbl' ne b where xs: "x = (tbl', ne, b)" by (cases x)
  have t': "sidhtable t' = Some tbl'" using out by (auto simp: xs)
  note loop = x [unfolded xs]
  have "?I [0..<SIDTAB_SIZE] (tbl', ne, b)"
  proof (rule for_each_invar [OF loop, where I = ?I])
    show "?I [] (tbl, sidnel t, a)" using assms(2) Some by simp
  next
    fix ys y zs s s'
    assume up: "[0..<SIDTAB_SIZE] = ys @ y # zs" and I: "?I ys s"
      and step: "(\<lambda>(tbl, ne, a). rbind (idx tbl y) (\<lambda>chain.
        case sid_prune_chain f chain ne a of (c, ne', a') \<Rightarrow> Inr (tbl[y := c], ne', a'))) s = Inr s'"
    have y: "y < SIDTAB_SIZE" using up by (metis atLeastLessThan_iff in_set_conv_decomp set_upt)
    show "?I (ys @ [y]) s'"
      using I step y by (auto simp: rbind_eq_Inr_iff nth_list_update dest: prune_contexts split: prod.splits if_splits) (metis prune_contexts snd_conv)+
  qed
  then have "length tbl' = SIDTAB_SIZE" "\<forall>i < SIDTAB_SIZE. \<forall>n \<in> set (tbl' ! i). ?ok (snd n)" by auto
  then show ?thesis by (auto simp: table_contexts_def t' in_set_conv_nth [of _ tbl']) (metis snd_conv)
qed

section \<open>Operations\<close>

lemma compute_sid_contexts:
  assumes "sepol_compute_sid m p ssid tsid tclass spec t = (r, t')" and "\<forall>c \<in> table_contexts t. ctx_ok p c"
  shows "\<forall>c \<in> table_contexts t'. ctx_ok p c"
proof -
  have new: "ctx_ok p c" if "new_context m p sc tc tclass spec = Inr c" for m sc tc c
    using that by (auto simp: new_context_def Let_def rbind_eq_Inr_iff compute_sid_handle_invalid_context_def
        selinux_enforcing_def split: if_splits)
  show ?thesis using assms
    by (auto simp: sepol_compute_sid_def dest!: ctx_sid_contexts new split: sum.splits)
qed

lemma context_from_record_ok:
  assumes "context_from_record m p rec = Inr c"
  shows "ctx_ok p c"
proof -
  obtain rd where rd: "rec = Some rd" using assms by (cases rec) (auto simp: context_from_record_def)
  obtain u r ty where "strdup (at_site 0 m) (con_user rd) = Inr u" "strdup (at_site 1 m) (con_role rd) = Inr r"
    "strdup (at_site 2 m) (con_type rd) = Inr ty"
    using assms unfolding context_from_record_def rd option.case rbind_eq_Inr_iff [where r = "strdup _ _"] by blast
  then show ?thesis
    using assms rd
    by (cases u; cases r; cases ty; cases "malloc (at_site 3 m)")
      (auto simp: context_from_record_def rbind_eq_Inr_iff Let_def policydb_context_isvalid_def split: option.splits if_splits)
qed

lemma context_from_string_ok: "context_from_string m p str = Inr c \<Longrightarrow> ctx_ok p c"
  by (auto simp: context_from_string_def rbind_eq_Inr_iff dest!: context_from_record_ok split: if_splits)

lemma context_to_sid_contexts:
  assumes "sepol_context_to_sid m p str want t = (r, t')" and "\<forall>c \<in> table_contexts t. ctx_ok p c"
  shows "\<forall>c \<in> table_contexts t'. ctx_ok p c"
proof (cases "context_from_string (at_site 0 m) p str")
  case (Inl e)
  then show ?thesis using assms by (auto simp: sepol_context_to_sid_def or_status_def split: err.splits)
next
  case (Inr c)
  obtain r' u where u: "ctx_sid (at_site 1 m) c t = (r', u)" by fastforce
  then have "t' = t \<or> t' = u"
    using assms(1) Inr by (auto simp: sepol_context_to_sid_def or_status_def status_def split: if_splits sum.splits)
  then show ?thesis using assms(2) ctx_sid_contexts [OF u] context_from_string_ok [OF Inr] by auto
qed

text \<open>Labelling an object changes nothing but its SIDs.\<close>

lemma label_one_keeps:
  assumes "label_one m c t = (r, c', t')"
  shows "oc_u c' = oc_u c \<and> oc_context0 c' = oc_context0 c \<and> oc_context1 c' = oc_context1 c \<and>
    table_contexts t' \<subseteq> insert (oc_context0 c) (table_contexts t)"
  using assms by (auto simp: label_one_def dest!: ctx_sid_contexts split: if_splits prod.splits sum.splits)

lemma label_two_keeps:
  assumes "label_two m c t = (r, c', t')"
  shows "oc_u c' = oc_u c \<and> oc_context0 c' = oc_context0 c \<and> oc_context1 c' = oc_context1 c \<and>
    table_contexts t' \<subseteq> {oc_context0 c, oc_context1 c} \<union> table_contexts t"
  using assms by (fastforce simp: label_two_def dest!: ctx_sid_contexts split: if_splits prod.splits sum.splits)

lemma oc_search_hit: "oc_search P cs k = Inr (Some i) \<Longrightarrow> k \<le> i \<and> i - k < length cs \<and> P (cs ! (i - k)) = Inr True"
proof (induction cs arbitrary: k)
  case Nil
  then show ?case by simp
next
  case (Cons c cs)
  then show ?case
  proof (cases "P c = Inr True")
    case True
    then show ?thesis using Cons.prems by simp
  next
    case False
    then have "oc_search P cs (Suc k) = Inr (Some i)" using Cons.prems by (auto simp: rbind_eq_Inr_iff split: if_splits)
    then show ?thesis using Cons.IH [of "Suc k"] by (auto simp: nth_Cons' Suc_diff_Suc)
  qed
qed

lemma labelled_ok:
  assumes run: "labelled P label out dflt k p t = (r, p', t')" and p: "labels_ok p" "\<forall>c \<in> table_contexts t. ctx_ok p c"
    and label: "\<And>c t r c' t'. P c = Inr True \<Longrightarrow> label_ok p k c \<Longrightarrow> label c t = (r, c', t') \<Longrightarrow>
      oc_u c' = oc_u c \<and> oc_context0 c' = oc_context0 c \<and> oc_context1 c' = oc_context1 c \<and>
      (\<forall>x \<in> table_contexts t'. x \<in> table_contexts t \<or> ctx_ok p x)"
  shows "labels_ok p' \<and> (\<forall>c \<in> table_contexts t'. ctx_ok p' c)"
proof (cases "\<exists>i. rbind (idx (ocontexts p) k) (\<lambda>cs. oc_search P cs 0) = Inr (Some i)")
  case True
  then obtain i where found: "rbind (idx (ocontexts p) k) (\<lambda>cs. oc_search P cs 0) = Inr (Some i)" by blast
  then have k: "k < length (ocontexts p)" and hit: "i < length (ocontexts p ! k)" "P (ocontexts p ! k ! i) = Inr True"
    using oc_search_hit [of P "ocontexts p ! k" 0 i] by (auto simp: rbind_eq_Inr_iff idx_def split: if_splits)
  obtain r' c' where lab: "label (ocontexts p ! k ! i) t = (r', c', t')" and p': "p' = set_ocontext k i c' p"
    using run found by (auto simp: labelled_def split: prod.splits)
  have ok: "label_ok p k (ocontexts p ! k ! i)" using p(1) k hit(1) by (simp add: labels_ok_def lists_ok_def)
  note keep = label [OF hit(2) ok lab]
  then have "label_ok p k c'" using ok by (simp add: label_ok_def)
  then have "label_ok p' j d" if "j < length (ocontexts p)" "d \<in> set (ocontexts p' ! j)" for j d
    using that p(1) k set_update_subset_insert [of "ocontexts p ! k" i c']
    by (cases "j = k") (auto simp: p' set_ocontext_def labels_ok_def lists_ok_def label_ok_def)
  then show ?thesis using p keep by (auto simp: labels_ok_def lists_ok_def genfs_ok_def p' set_ocontext_def)
next
  case False
  then have "p' = p" "t' = t" using run by (auto simp: labelled_def split: sum.splits option.splits)
  then show ?thesis using p by simp
qed

definition holds_inv :: "policydb \<Rightarrow> sidtab \<Rightarrow> bool" where
  "holds_inv p t \<longleftrightarrow> labels_ok p \<and> (\<forall>c \<in> table_contexts t. ctx_ok p c)"

lemma labelled_one:
  "labelled P (label_one m) out dflt k p t = (r, p', t') \<Longrightarrow> holds_inv p t \<Longrightarrow> holds_inv p' t'"
  unfolding holds_inv_def by (rule labelled_ok, assumption+) (auto simp: label_ok_def dest: label_one_keeps)

lemma labelled_two:
  assumes "labelled (oc_named name) (label_two m) out dflt k p t = (r, p', t')" and "k \<in> {OCON_FS, OCON_NETIF}"
    and "holds_inv p t"
  shows "holds_inv p' t'"
proof -
  have "\<exists>s. oc_u c = U_name s" if "oc_named name c = Inr True" for c
    using that by (auto simp: oc_named_def oc_name_def rbind_eq_Inr_iff split: ocontext_u.splits)
  then show ?thesis
    using assms unfolding holds_inv_def
    by (intro labelled_ok [OF assms(1)]) (auto simp: label_ok_def dest!: label_two_keeps)
qed

lemma genfs_sid_inv:
  assumes "sepol_genfs_sid m ty path sclass p t = (out, p', t')" and "holds_inv p t"
  shows "holds_inv p' t'"
proof (cases "\<exists>k i. genfs_search ty (p_genfs p) 0 = Some k \<and>
    oc_search (genfs_matches path sclass) (head (p_genfs p ! k)) 0 = Inr (Some i)")
  case True
  then obtain k i where k: "genfs_search ty (p_genfs p) 0 = Some k"
    and i: "oc_search (genfs_matches path sclass) (head (p_genfs p ! k)) 0 = Inr (Some i)" by blast
  let ?c = "head (p_genfs p ! k) ! i"
  have "genfs_search ty gs j = Some k \<Longrightarrow> j \<le> k \<and> k - j < length gs" for gs j
    by (induction gs arbitrary: j) (force simp: Let_def split: if_splits)+
  then have lt: "k < length (p_genfs p)" "i < length (head (p_genfs p ! k))" using k oc_search_hit [OF i] by fastforce+
  then have "?c \<in> set (head (p_genfs p ! k))" "p_genfs p ! k \<in> set (p_genfs p)" by simp_all
  then have ok: "ctx_ok p (oc_context0 ?c)" using assms(2) by (auto simp: holds_inv_def labels_ok_def genfs_ok_def)
  obtain r c' where lab: "label_one m ?c t = (r, c', t')" and p': "p' = set_genfs k i c' p"
    using assms(1) k i by (auto simp: sepol_genfs_sid_def split: prod.splits sum.splits)
  note keep = label_one_keeps [OF lab]
  have "ctx_ok p (oc_context0 d)" if "g \<in> set (p_genfs p')" "d \<in> set (head g)" for g d
  proof (cases "g \<in> set (p_genfs p)")
    case True
    then show ?thesis using assms(2) that(2) by (auto simp: holds_inv_def labels_ok_def genfs_ok_def)
  next
    case False
    then have "g = (p_genfs p ! k)\<lparr>head := (head (p_genfs p ! k))[i := c']\<rparr>"
      using that(1) set_update_subset_insert by (fastforce simp: p' set_genfs_def)
    then have "d = c' \<or> d \<in> set (head (p_genfs p ! k))" using that(2) set_update_subset_insert by fastforce
    then show ?thesis using keep ok assms(2) lt(1) by (auto simp: holds_inv_def labels_ok_def genfs_ok_def)
  qed
  then show ?thesis using assms(2) keep ok
    by (auto simp: holds_inv_def labels_ok_def lists_ok_def label_ok_def genfs_ok_def p' set_genfs_def)
next
  case False
  then have "p' = p" "t' = t" using assms(1) by (auto simp: sepol_genfs_sid_def split: sum.splits option.splits)
  then show ?thesis using assms(2) by simp
qed

lemma fs_use_inv:
  assumes "sepol_fs_use m ty p t = (r, p', t')" and "holds_inv p t"
  shows "holds_inv p' t'"
proof (cases "\<exists>c. rbind (idx (ocontexts p) OCON_FSUSE) (\<lambda>cs. oc_search (oc_named ty) cs 0) = Inr None")
  case True
  obtain o' p1 t1 where run: "sepol_genfs_sid (at_site 1 m) ty ''/'' SECCLASS_DIR p t = (o', p1, t1)" by (metis prod_cases3)
  then have "p' = p1" "t' = t1"
    using assms(1) True by (auto simp: sepol_fs_use_def split: prod.splits sum.splits err.splits)
  then show ?thesis using genfs_sid_inv [OF run assms(2)] by simp
next
  case False
  obtain r' where "labelled (oc_named ty) (label_one (at_site 0 m)) (\<lambda>_. ()) () OCON_FSUSE p t = (r', p', t')"
    using assms(1) False by (auto simp: sepol_fs_use_def labelled_def split: sum.splits option.splits prod.splits)
  then show ?thesis using assms(2) by (rule labelled_one)
qed

lemma load_isids_contexts:
  assumes "policydb_load_isids m p = Inr t" and "labels_ok p"
  shows "holds_inv p t"
proof -
  obtain t0 cs where t0: "sepol_sidtab_init (at_site 0 m) = Inr t0" and cs: "idx (ocontexts p) OCON_ISID = Inr cs"
    and loop: "for_each (\<lambda>(i, c) t. if user (oc_context0 c) = 0 then Inl STATUS_ERR
             else or_status (sepol_sidtab_insert (at_site (Suc i) m) t (oc_sid0 c) (oc_context0 c))) (enumerate 0 cs) t0 = Inr t"
    using assms(1) by (auto simp: policydb_load_isids_def rbind_eq_Inr_iff)
  have ok: "\<forall>c \<in> set cs. ctx_ok p (oc_context0 c)"
    using cs assms(2) by (auto simp: idx_def labels_ok_def lists_ok_def label_ok_def split: if_splits)
  have "\<forall>c \<in> table_contexts t. ctx_ok p c"
  proof (rule for_each_keeps [OF loop, where I = "\<lambda>t. \<forall>c \<in> table_contexts t. ctx_ok p c"])
    show "\<forall>c \<in> table_contexts t0. ctx_ok p c"
      using t0 by (auto simp: sepol_sidtab_init_def table_contexts_def split: if_splits)
  next
    fix x s s'
    assume x: "x \<in> set (enumerate 0 cs)" and I: "\<forall>c \<in> table_contexts s. ctx_ok p c"
      and step: "(case x of (i, c) \<Rightarrow> \<lambda>t. if user (oc_context0 c) = 0 then Inl STATUS_ERR
             else or_status (sepol_sidtab_insert (at_site (Suc i) m) t (oc_sid0 c) (oc_context0 c))) s = Inr s'"
    have "snd x \<in> set cs" using x by (metis map_snd_enumerate image_eqI set_map)
    then show "\<forall>c \<in> table_contexts s'. ctx_ok p c"
      using I step ok insert_contexts(1) by (fastforce split: prod.splits if_splits)
  qed
  then show ?thesis using assms(2) by (simp add: holds_inv_def)
qed

section \<open>Loading a policy\<close>

lemma clone_sidtab_size:
  assumes "clone_sidtab m stale t = Inr t'"
  shows "\<forall>tbl. sidhtable t' = Some tbl \<longrightarrow> length tbl = SIDTAB_SIZE"
proof -
  define new where "new = (case sepol_sidtab_init (at_site 0 m) of
      Inr n \<Rightarrow> n | Inl _ \<Rightarrow> \<lparr>sidhtable = None, sidnel = stale 0, next_sid = stale 1, shutdown = 0\<rparr>)"
  let ?I = "\<lambda>t. map_option length (sidhtable t) \<in> {None, Some SIDTAB_SIZE}"
  have start: "?I new" by (auto simp: new_def sepol_sidtab_init_def split: sum.splits if_splits)
  have inner: "?I u'" if "for_each (\<lambda>n. clone_sid (at_site 1 m) (fst n) (snd n)) ns u = Inr u'" "?I u" for ns u u'
    using that(1) by (rule for_each_keeps) (use that(2) insert_contexts(2) in \<open>auto simp: clone_sid_def\<close>)
  have "?I t'"
  proof (cases "sidhtable t")
    case None
    then show ?thesis using assms start by (simp add: clone_sidtab_def sepol_sidtab_map_def new_def [symmetric])
  next
    case (Some tbl)
    then have "for_each (\<lambda>i a. rbind (idx tbl i) (\<lambda>chain.
        for_each (\<lambda>n. clone_sid (at_site 1 m) (fst n) (snd n)) chain a)) [0..<SIDTAB_SIZE] new = Inr t'"
      using assms by (simp add: clone_sidtab_def sepol_sidtab_map_def new_def [symmetric])
    then show ?thesis by (rule for_each_keeps) (use start inner in \<open>auto simp: rbind_eq_Inr_iff\<close>)
  qed
  then show ?thesis by auto
qed

lemma convert_context_ok: "convert_context m oldp newp c = Inr c' \<Longrightarrow> ctx_ok newp c'"
  by (auto simp: convert_context_def converted_def rbind_eq_Inr_iff convert_context_handle_invalid_context_def
      selinux_enforcing_def split: sum.splits err.splits if_splits)

lemma convert_sidtab_ok:
  assumes "convert_sidtab m oldp newp t = Inr t'" and "\<forall>tbl. sidhtable t = Some tbl \<longrightarrow> length tbl = SIDTAB_SIZE"
  shows "\<forall>c \<in> table_contexts t'. ctx_ok newp c"
proof -
  obtain ub where run: "sepol_sidtab_map_remove_on_error t (convert_entry m oldp newp) (Inr ()) = Inr (t', ub)"
    using assms(1) by (auto simp: convert_sidtab_def rbind_eq_Inr_iff)
  have "ctx_ok newp c'" if "convert_entry m oldp newp sd c b = (False, c', b')" for sd c b c' b'
    using that by (auto simp: convert_entry_def dest!: convert_context_ok split: sum.splits err.splits)
  then show ?thesis using map_remove_contexts [OF run assms(2)] by blast
qed

section \<open>Runs of the server\<close>

text \<open>
  What callers do with the server.  A caller may install a policy of its own together with the table of
  its initial SIDs, and load the initial SIDs of the active policy.  A call that is undefined ends the
  run.  \<^verbatim>\<open>sepol_get_user_sids\<close> is left out.
\<close>

inductive server_step :: "server \<Rightarrow> server \<Rightarrow> bool" where
  load_policy: "sepol_load_policy m stale bytes n s = (r, s') \<Longrightarrow> r \<noteq> Inl UB \<Longrightarrow> server_step s s'"
| policydb_from_file: "sepol_set_policydb_from_file m stale bytes s = (r, s') \<Longrightarrow> r \<noteq> Inl UB \<Longrightarrow> server_step s s'"
| install: "labels_ok p \<Longrightarrow> policydb_load_isids m p = Inr t \<Longrightarrow>
    server_step s (sepol_set_sidtab t (sepol_set_policydb p s))"
| load_isids: "the_policydb s = Inr p \<Longrightarrow> policydb_load_isids m p = Inr t \<Longrightarrow> server_step s (sepol_set_sidtab t s)"
| context_to_sid: "the_policydb s = Inr p \<Longrightarrow> sepol_context_to_sid m p str want (sidtab s) = (r, t) \<Longrightarrow> r \<noteq> Inl UB \<Longrightarrow>
    server_step s (s\<lparr>sidtab := t\<rparr>)"
| compute_sid: "the_policydb s = Inr p \<Longrightarrow> sepol_compute_sid m p ssid tsid tclass spec (sidtab s) = (r', t) \<Longrightarrow>
    r' \<noteq> Inl UB \<Longrightarrow> server_step s (s\<lparr>sidtab := t\<rparr>)"
| fs_sid: "the_policydb s = Inr p \<Longrightarrow> sepol_fs_sid m name p (sidtab s) = (r2, p', t) \<Longrightarrow> r2 \<noteq> Inl UB \<Longrightarrow>
    server_step s (put_policydb p' (s\<lparr>sidtab := t\<rparr>))"
| port_sid: "the_policydb s = Inr p \<Longrightarrow> sepol_port_sid m proto port p (sidtab s) = (r', p', t) \<Longrightarrow> r' \<noteq> Inl UB \<Longrightarrow>
    server_step s (put_policydb p' (s\<lparr>sidtab := t\<rparr>))"
| netif_sid: "the_policydb s = Inr p \<Longrightarrow> sepol_netif_sid m name p (sidtab s) = (r2, p', t) \<Longrightarrow> r2 \<noteq> Inl UB \<Longrightarrow>
    server_step s (put_policydb p' (s\<lparr>sidtab := t\<rparr>))"
| node_sid: "the_policydb s = Inr p \<Longrightarrow> sepol_node_sid m domain addrp addrlen p (sidtab s) = (r', p', t) \<Longrightarrow>
    r' \<noteq> Inl UB \<Longrightarrow> server_step s (put_policydb p' (s\<lparr>sidtab := t\<rparr>))"
| genfs_sid: "the_policydb s = Inr p \<Longrightarrow> sepol_genfs_sid m ty path sclass p (sidtab s) = ((sd, r1), p', t) \<Longrightarrow>
    r1 \<noteq> Inl UB \<Longrightarrow> server_step s (put_policydb p' (s\<lparr>sidtab := t\<rparr>))"
| fs_use: "the_policydb s = Inr p \<Longrightarrow> sepol_fs_use m ty p (sidtab s) = (r3, p', t) \<Longrightarrow> r3 \<noteq> Inl UB \<Longrightarrow>
    server_step s (put_policydb p' (s\<lparr>sidtab := t\<rparr>))"

inductive reachable :: "server \<Rightarrow> bool" where
  start: "reachable initial_server"
| more: "reachable s \<Longrightarrow> server_step s s' \<Longrightarrow> reachable s'"

definition server_ok :: "server \<Rightarrow> bool" where
  "server_ok s \<longleftrightarrow> (\<forall>p. the_policydb s = Inr p \<longrightarrow> holds_inv p (sidtab s))"

lemma read_new:
  assumes "policydb_init m = Inr p" "policydb_read m' stale p fp = Inr (fp', q)"
  shows "labels_ok q"
  using policydb_read_ok [OF assms(2) policydb_init_labels [OF assms(1)]] by simp

lemma the_put [simp]: "the_policydb s = Inr p \<Longrightarrow> the_policydb (put_policydb p' s) = Inr p'"
  by (auto simp: the_policydb_def put_policydb_def split: option.splits if_splits)

lemma sidtab_put [simp]: "sidtab (put_policydb p s) = sidtab s"
  by (simp add: put_policydb_def split: option.split)

lemma the_sidtab [simp]: "the_policydb (s\<lparr>sidtab := t\<rparr>) = the_policydb s"
  by (simp add: the_policydb_def split: option.split)

lemma holds_inv_new: "labels_ok p \<Longrightarrow> table_contexts t = {} \<Longrightarrow> holds_inv p t"
  by (simp add: holds_inv_def)

lemma load_policy_cases:
  assumes "sepol_load_policy m stale bytes n s = (r, s')" and "r \<noteq> Inl UB"
  obtains "s' = s"
  | "s' = s\<lparr>destroyed := True\<rparr>"
  | "s' = s\<lparr>sidtab := sepol_sidtab_shutdown (sidtab s)\<rparr>"
  | newp fp fp' q t t' p where "policydb_init (at_site 0 m) = Inr newp" "the_policydb s = Inr p"
      "policydb_read (at_site 1 m) stale newp fp = Inr (fp', q)"
      "clone_sidtab (at_site 2 m) (stale 2) (sidtab s) = Inr t" "convert_sidtab (at_site 3 m) p q t = Inr t'"
      "s' = put_policydb q (s\<lparr>sidtab := sepol_sidtab_set (sidtab s) t'\<rparr>)"
proof (cases "policydb_init (at_site 0 m)")
  case (Inl e)
  then show ?thesis using assms that(1) by (auto simp: sepol_load_policy_def split: err.splits)
next
  case newp: (Inr newp)
  let ?fp = "\<lparr>ftype = PF_USE_MEMORY, passed = [], data = bytes, len = n, fp_in = [], fp_out = [], fp_room = 0\<rparr>"
  note load = assms [unfolded sepol_load_policy_def Let_def newp sum.case]
  show ?thesis
  proof (cases "policydb_read (at_site 1 m) stale newp ?fp")
    case (Inl e)
    then show ?thesis using load that(1,2) by (auto simp: destroy_mine_def split: err.splits if_splits)
  next
    case (Inr x)
    then obtain fp' q where rd: "policydb_read (at_site 1 m) stale newp ?fp = Inr (fp', q)" by (cases x) simp
    show ?thesis
    proof (cases "the_policydb s")
      case (Inl e)
      then show ?thesis using load rd that(1) by simp
    next
      case p: (Inr p)
      note rest = load [unfolded rd sum.case prod.case p]
      show ?thesis
      proof (cases "clone_sidtab (at_site 2 m) (stale 2) (sidtab s)")
        case (Inl e)
        then show ?thesis using rest that(1,3) by (auto split: err.splits sum.splits)
      next
        case t: (Inr t)
        then show ?thesis
          using rest that(1) that(4) [OF newp p rd t]
          by (cases "convert_sidtab (at_site 3 m) p q t") (auto split: sum.splits err.splits)
      qed
    qed
  qed
qed

lemma load_policy_ok:
  assumes run: "sepol_load_policy m stale bytes n s = (r, s')" "r \<noteq> Inl UB" and ok: "server_ok s"
  shows "server_ok s'"
  using run
proof (cases rule: load_policy_cases)
  case 2
  then show ?thesis using ok by (auto simp: server_ok_def the_policydb_def split: option.splits)
next
  case 3
  then show ?thesis using ok
    by (simp add: server_ok_def holds_inv_def table_contexts_def sepol_sidtab_shutdown_def)
next
  case (4 newp fp fp' q t t' p)
  have "\<forall>c \<in> table_contexts t'. ctx_ok q c" using 4(5) clone_sidtab_size [OF 4(4)] by (rule convert_sidtab_ok)
  then show ?thesis using 4(2,6) read_new [OF 4(1,3)]
    by (simp add: server_ok_def holds_inv_def sepol_sidtab_set_def table_contexts_def)
qed (use ok in simp)

lemma from_file_ok:
  assumes run: "sepol_set_policydb_from_file m stale bytes s = (r, s')" "r \<noteq> Inl UB" and ok: "server_ok s"
  shows "server_ok s'"
proof -
  obtain s1 where s1: "s1 = s \<or> s1 = s\<lparr>destroyed := True\<rparr>"
    and old: "(if policy_type (mypolicydb s) \<noteq> 0 then destroy_mine s else Inr s) = Inr s1 \<or> r = Inl UB"
    using run(1) by (auto simp: destroy_mine_def sepol_set_policydb_from_file_def Let_def split: if_splits)
  have gone: "server_ok (s1\<lparr>mypolicydb := q, destroyed := True\<rparr>)" for q
    using ok s1 by (auto simp: server_ok_def the_policydb_def split: option.splits)
  note body = run(1) [unfolded sepol_set_policydb_from_file_def Let_def]
  show ?thesis
  proof (cases "policydb_init (at_site 0 m)")
    case (Inl e)
    then show ?thesis using body old run(2) gone by (auto split: err.splits)
  next
    case newp: (Inr newp)
    let ?fp = "\<lparr>ftype = PF_USE_STDIO, passed = [], data = [], len = 0, fp_in = bytes, fp_out = [], fp_room = 0\<rparr>"
    show ?thesis
    proof (cases "policydb_read (at_site 1 m) stale newp ?fp")
      case (Inl e)
      then show ?thesis using body old run(2) gone newp by (auto split: err.splits)
    next
      case (Inr x)
      then obtain fp' q where rd: "policydb_read (at_site 1 m) stale newp ?fp = Inr (fp', q)" by (cases x) simp
      have "the_policydb s' = Inr q \<and> table_contexts (sidtab s') = {}"
        using body old run(2) newp rd
        by (auto simp: sepol_sidtab_init_def table_contexts_def the_policydb_def split: sum.splits if_splits)
      then show ?thesis using read_new [OF newp rd]
        by (simp add: server_ok_def holds_inv_def)
    qed
  qed
qed

lemma server_step_ok: "server_step s s' \<Longrightarrow> server_ok s \<Longrightarrow> server_ok s'"
proof (induction rule: server_step.induct)
  case (install p m t s)
  then show ?case using load_isids_contexts
    by (auto simp: server_ok_def sepol_set_sidtab_def sepol_set_policydb_def the_policydb_def)
next
  case (load_isids s p m t)
  then show ?case using load_isids_contexts by (auto simp: server_ok_def sepol_set_sidtab_def holds_inv_def)
next
  case (context_to_sid s p m str want r t)
  then show ?case using context_to_sid_contexts by (fastforce simp: server_ok_def holds_inv_def)
next
  case (compute_sid s p m ssid tsid tclass spec r' t)
  then show ?case using compute_sid_contexts by (fastforce simp: server_ok_def holds_inv_def)
next
  case (fs_sid s p m name r2 p' t)
  then show ?case using labelled_two by (fastforce simp: server_ok_def sepol_fs_sid_def)
next
  case (port_sid s p m proto port r' p' t)
  then show ?case using labelled_one by (fastforce simp: server_ok_def sepol_port_sid_def)
next
  case (netif_sid s p m name r2 p' t)
  then show ?case using labelled_two by (fastforce simp: server_ok_def sepol_netif_sid_def)
next
  case (node_sid s p m domain addrp addrlen r' p' t)
  then show ?case
    by (auto simp: server_ok_def sepol_node_sid_def dest: labelled_one split: if_splits list.splits)
next
  case (genfs_sid s p m ty path sclass sd r1 p' t)
  then show ?case using genfs_sid_inv by (fastforce simp: server_ok_def)
next
  case (fs_use s p m ty r3 p' t)
  then show ?case using fs_use_inv by (fastforce simp: server_ok_def)
qed (blast intro: load_policy_ok from_file_ok)+

lemma server_start: "server_ok initial_server"
  by (simp add: server_ok_def initial_server_def the_policydb_def holds_inv_def labels_ok_def lists_ok_def genfs_ok_def
      table_contexts_def zero_policydb_def)

lemma reachable_ok: "reachable s \<Longrightarrow> server_ok s"
  by (induction rule: reachable.induct) (auto intro: server_start server_step_ok)


definition isid_policy :: policydb where
  "isid_policy = one_of_each\<lparr>ocontexts := (ocontexts one_of_each)[OCON_ISID :=
     [oc_zero\<lparr>oc_sid0 := 5, oc_context0 := \<lparr>user = 1, role = 1, type = 1, range = range context_init\<rparr>\<rparr>]]\<rparr>"

definition isid_table :: sidtab where
  "isid_table = \<lparr>sidhtable = Some ((replicate SIDTAB_SIZE [])[5 := [(5, \<lparr>user = 1, role = 1, type = 1, range = range context_init\<rparr>)]]),
     sidnel = 1, next_sid = 6, shutdown = 0\<rparr>"

lemma isid_policy_labels: "labels_ok isid_policy"
proof -
  have "ctx_ok isid_policy \<lparr>user = 1, role = 1, type = 1, range = range context_init\<rparr>"
    by (simp add: isid_policy_def one_of_each_def zero_policydb_def policydb_context_isvalid_def context_is_valid_def
        mls_context_isvalid_def OBJECT_R_VAL_def)
  then show ?thesis
    by (auto simp: labels_ok_def lists_ok_def genfs_ok_def label_ok_def isid_policy_def one_of_each_def zero_policydb_def
        oc_zero_def OCON_ISID_def OCON_FS_def OCON_NETIF_def nth_list_update)
qed

lemma isid_policy_loads: "policydb_load_isids no_oom isid_policy = Inr isid_table"
proof -
  have cs: "idx (ocontexts isid_policy) OCON_ISID =
      Inr [oc_zero\<lparr>oc_sid0 := 5, oc_context0 := \<lparr>user = 1, role = 1, type = 1, range = range context_init\<rparr>\<rparr>]"
    by (simp add: isid_policy_def one_of_each_def zero_policydb_def OCON_ISID_def numeral_eq_Suc)
  show ?thesis
    unfolding policydb_load_isids_def cs
    by (simp add: sepol_sidtab_init_def sepol_sidtab_insert_def isid_table_def SIDTAB_HASH_def SIDTAB_SIZE_def idx_def)
qed


section \<open>New databases\<close>

definition empty_symtab :: "u32 \<Rightarrow> 'd symtab" where
  "empty_symtab sz = \<lparr>table = Some \<lparr>htable = replicate (unat sz) [], hsize = sz, nel = 0, hash_value = symhash, keycmp = symcmp\<rparr>,
     nprim = 0\<rparr>"

lemma symtab_init_no_oom [simp]: "symtab_init no_oom sz = Inr (empty_symtab sz)"
  by (simp add: symtab_init_def hashtab_create_def empty_symtab_def)

lemma empty_symtab_spec:
  assumes "sym_size sz"
  shows "symtab_wf (empty_symtab sz) \<and> symtab_map (empty_symtab sz) = Map.empty \<and> nprim (empty_symtab sz) = 0"
  using sym.create_spec(1,2) [OF assms, of no_oom]
  by (simp add: hashtab_create_def empty_symtab_def symtab_wf_def symtab_map_def)

lemma roles_init_spec:
  assumes roles: "symtab_wf (p_roles p)" "symtab_map (p_roles p) = Map.empty" "nprim (p_roles p) = 0"
    and scopes: "SYM_ROLES < length (p_scope p)" "symtab_wf (p_scope p ! SYM_ROLES)" "symtab_map (p_scope p ! SYM_ROLES) = Map.empty"
  shows "\<exists>s ss. roles_init no_oom p = Inr (p\<lparr>p_roles := s, p_scope := ss\<rparr>) \<and> symtab_wf s \<and> nprim s = OBJECT_R_VAL \<and>
    symtab_map s = [OBJECT_R \<mapsto> role_zero\<lparr>role_value := OBJECT_R_VAL\<rparr>]"
proof -
  let ?sc = "if policy_type p = POLICY_MOD then SCOPE_REQ else SCOPE_DECL"
  obtain s ss where run: "symtab_insert no_oom SYM_ROLES (\<lambda>r. role_flavor r = ROLE_ROLE) OBJECT_R (\<lambda>v. role_zero\<lparr>role_value := v\<rparr>)
      ?sc 1 True (p_roles p, p_scope p ! SYM_ROLES) = (Inr 0, s, ss)"
    using symtab_insert_new [OF roles(1) scopes(2), of OBJECT_R SYM_ROLES _ _ ?sc 1] roles(2) scopes(3) by fastforce
  note spec = symtab_insert_facts [OF roles(1) scopes(2) run]
  have s: "nprim s = OBJECT_R_VAL" "symtab_wf s" "\<And>k. symtab_map s k = (if k = OBJECT_R then Some (role_zero\<lparr>role_value := OBJECT_R_VAL\<rparr>) else None)"
    using spec roles by (auto simp: OBJECT_R_VAL_def)
  then have "symtab_map s = [OBJECT_R \<mapsto> role_zero\<lparr>role_value := OBJECT_R_VAL\<rparr>]" by (simp add: fun_eq_iff)
  moreover have "roles_init no_oom p = Inr (p\<lparr>p_roles := s, p_scope := (p_scope p)[SYM_ROLES := ss]\<rparr>)"
    using run s(1) scopes(1) by (simp add: roles_init_def idx_def cong: if_cong)
  ultimately show ?thesis using s(1,2) by blast
qed

definition empty_table :: "'d symtab \<Rightarrow> bool" where
  "empty_table s \<longleftrightarrow> symtab_wf s \<and> symtab_map s = Map.empty"

lemma empty_tables:
  "sz \<in> {2, 16, 32, 128, 512} \<Longrightarrow> empty_table (empty_symtab sz) \<and> nprim (empty_symtab sz) = 0"
  using empty_symtab_spec [of sz] by (auto simp: empty_table_def sym_size_def)

lemma empty_table_spec: "sz \<in> {2, 16, 32, 128, 512} \<Longrightarrow> symtab_wf (empty_symtab sz) \<and> symtab_map (empty_symtab sz) = Map.empty \<and> nprim (empty_symtab sz) = 0"
  by (rule empty_symtab_spec) (auto simp: sym_size_def)

definition new_decl :: avrule_decl where
  "new_decl = (empty_decl\<lparr>decl_enabled := 0, d_commons := empty_symtab 2, d_classes := empty_symtab 4, d_roles := empty_symtab 8,
     d_types := empty_symtab 32, d_users := empty_symtab 16, d_bools := empty_symtab 4, d_levels := empty_symtab 2, d_cats := empty_symtab 2\<rparr>)"

lemma new_decl: "avrule_decl_create no_oom 1 = Inr new_decl"
  by (simp add: avrule_decl_create_def decl_symtab_sizes_def new_decl_def empty_decl_def)

lemma policydb_init_result:
  obtains p where "policydb_init no_oom = Inr p" and "symtab_wf (p_roles p)" and "nprim (p_roles p) = OBJECT_R_VAL"
    and "symtab_map (p_roles p) = [OBJECT_R \<mapsto> role_zero\<lparr>role_value := OBJECT_R_VAL\<rparr>]"
    and "empty_table (p_commons p) \<and> empty_table (p_classes p) \<and> empty_table (p_types p) \<and> empty_table (p_users p)"
    and "empty_table (p_bools p) \<and> empty_table (p_levels p) \<and> empty_table (p_cats p)"
proof -
  let ?p = "zero_policydb\<lparr>p_commons := empty_symtab 2, p_classes := empty_symtab 32, p_roles := empty_symtab 16,
     p_types := empty_symtab 512, p_users := empty_symtab 128, p_bools := empty_symtab 16, p_levels := empty_symtab 16,
     p_cats := empty_symtab 16, p_scope := map empty_symtab symtab_sizes,
     p_global := [\<lparr>branch_list = [new_decl], block_enabled = None, block_flags = 0\<rparr>], te_avtab := avtab_init (te_avtab zero_policydb)\<rparr>"
  have scopes: "init_scopes no_oom = Inr (map empty_symtab symtab_sizes)"
    by (simp add: init_scopes_def SYM_NUM_def symtab_sizes_def upt_rec numeral_eq_Suc)
  obtain s ss where s: "roles_init no_oom ?p = Inr (?p\<lparr>p_roles := s, p_scope := ss\<rparr>)" "symtab_wf s" "nprim s = OBJECT_R_VAL"
    "symtab_map s = [OBJECT_R \<mapsto> role_zero\<lparr>role_value := OBJECT_R_VAL\<rparr>]"
    using roles_init_spec [of ?p] by (auto simp: SYM_ROLES_def symtab_sizes_def empty_table_spec)
  have "policydb_init no_oom = Inr (cond_policydb_init (?p\<lparr>p_roles := s, p_scope := ss\<rparr>))"
    using s(1) scopes new_decl by (simp add: policydb_init_def or_unusable_def symtab_sizes_def Let_def avrule_block_create_def)
  then show ?thesis by (rule that) (simp_all add: cond_policydb_init_def s empty_tables)
qed


section \<open>Loading a file that cannot be read\<close>



end
