(* ===== verification/Assertion.thy ===== *)
theory Assertion
  imports Services
begin

text \<open>
  Neverallow rules, \<^verbatim>\<open>src/assertion.c\<close>: a rule is compared with all allow rules of an expanded policy.
  A callback that returns one is \<open>Inl STATUS_ERR\<close>.  The arguments of messages are read, their text is
  left out.
\<close>

section \<open>Rules\<close>

definition AVRULE_NEVERALLOW :: u32 where "AVRULE_NEVERALLOW = 0x0080"
definition AVRULE_XPERMS_NEVERALLOW :: u32 where "AVRULE_XPERMS_NEVERALLOW = 0x0800"
definition RULE_SELF :: u32 where "RULE_SELF = 1"
definition AVRULE_XPERMS_IOCTLFUNCTION :: u8 where "AVRULE_XPERMS_IOCTLFUNCTION = 0x01"
definition AVRULE_XPERMS_IOCTLDRIVER :: u8 where "AVRULE_XPERMS_IOCTLDRIVER = 0x02"
definition AVTAB_XPERMS_IOCTLFUNCTION :: u8 where "AVTAB_XPERMS_IOCTLFUNCTION = 0x01"
definition AVTAB_XPERMS_IOCTLDRIVER :: u8 where "AVTAB_XPERMS_IOCTLDRIVER = 0x02"
definition EXTENDED_PERMS_LEN :: nat where "EXTENDED_PERMS_LEN = 8"

definition xperm_test :: "u8 \<Rightarrow> u32 list \<Rightarrow> bool result" where
  "xperm_test x p = rbind (idx p (unat (drop_bit 5 x))) (\<lambda>w. Inr (bit w (unat (x AND 0x1f))))"

fun match_any_class_permissions :: "class_perm_node list \<Rightarrow> u32 \<Rightarrow> u32 \<Rightarrow> bool" where
  "match_any_class_permissions [] cls av = False"
| "match_any_class_permissions (cp # cps) cls av =
     (if cp_tclass cp = cls \<and> cp_data cp AND av \<noteq> 0 then True else match_any_class_permissions cps cls av)"

fun extended_permissions_and :: "u32 list \<Rightarrow> u32 list \<Rightarrow> nat list \<Rightarrow> bool result" where
  "extended_permissions_and perms1 perms2 [] = Inr False"
| "extended_permissions_and perms1 perms2 (i # is) =
     rbind (idx perms1 i) (\<lambda>a. rbind (idx perms2 i) (\<lambda>b.
       if a AND b \<noteq> 0 then Inr True else extended_permissions_and perms1 perms2 is))"

definition check_extended_permissions :: "av_extended_perms \<Rightarrow> avtab_extended_perms \<Rightarrow> bool result" where
  "check_extended_permissions neverallow allow =
     (if axp_specified neverallow = AVRULE_XPERMS_IOCTLFUNCTION \<and> xspecified allow = AVTAB_XPERMS_IOCTLFUNCTION
      then if axp_driver neverallow = driver allow
           then extended_permissions_and (axp_perms neverallow) (perms allow) [0..<EXTENDED_PERMS_LEN]
           else Inr False
      else if axp_specified neverallow = AVRULE_XPERMS_IOCTLFUNCTION \<and> xspecified allow = AVTAB_XPERMS_IOCTLDRIVER
      then xperm_test (axp_driver neverallow) (perms allow)
      else if axp_specified neverallow = AVRULE_XPERMS_IOCTLDRIVER \<and> xspecified allow = AVTAB_XPERMS_IOCTLFUNCTION
      then xperm_test (driver allow) (axp_perms neverallow)
      else if axp_specified neverallow = AVRULE_XPERMS_IOCTLDRIVER \<and> xspecified allow = AVTAB_XPERMS_IOCTLDRIVER
      then extended_permissions_and (axp_perms neverallow) (perms allow) [0..<EXTENDED_PERMS_LEN]
      else Inr False)"

text \<open>Intersection of two arrays.\<close>

definition perms_and :: "u32 list \<Rightarrow> u32 list \<Rightarrow> u32 list result" where
  "perms_and a b =
     for_each (\<lambda>i out. rbind (idx a i) (\<lambda>x. rbind (idx b i) (\<lambda>y. Inr (out @ [x AND y])))) [0..<EXTENDED_PERMS_LEN] []"

definition extended_permissions_violated ::
  "avtab_extended_perms \<Rightarrow> av_extended_perms \<Rightarrow> avtab_extended_perms \<Rightarrow> avtab_extended_perms result"
where
  "extended_permissions_violated result neverallow allow =
     (if axp_specified neverallow = AVRULE_XPERMS_IOCTLFUNCTION \<and> xspecified allow = AVTAB_XPERMS_IOCTLFUNCTION
      then rbind (perms_and (axp_perms neverallow) (perms allow)) (\<lambda>ps.
             Inr \<lparr>xspecified = AVTAB_XPERMS_IOCTLFUNCTION, driver = driver allow, perms = ps\<rparr>)
      else if axp_specified neverallow = AVRULE_XPERMS_IOCTLFUNCTION \<and> xspecified allow = AVTAB_XPERMS_IOCTLDRIVER
      then Inr \<lparr>xspecified = AVTAB_XPERMS_IOCTLFUNCTION, driver = axp_driver neverallow, perms = axp_perms neverallow\<rparr>
      else if axp_specified neverallow = AVRULE_XPERMS_IOCTLDRIVER \<and> xspecified allow = AVTAB_XPERMS_IOCTLFUNCTION
      then Inr \<lparr>xspecified = AVTAB_XPERMS_IOCTLFUNCTION, driver = driver allow, perms = perms allow\<rparr>
      else if axp_specified neverallow = AVRULE_XPERMS_IOCTLDRIVER \<and> xspecified allow = AVTAB_XPERMS_IOCTLDRIVER
      then rbind (perms_and (axp_perms neverallow) (perms allow)) (\<lambda>ps.
             Inr (result\<lparr>xspecified := AVTAB_XPERMS_IOCTLDRIVER, perms := ps\<rparr>))
      else Inr result)"

section \<open>Checking\<close>

text \<open>\<^verbatim>\<open>attr_type_map[t - 1]\<close>\<close>

definition attr_types :: "policydb \<Rightarrow> u16 \<Rightarrow> ebitmap result" where
  "attr_types p t = (if t = 0 then Inl UB else idx (attr_type_map p) (unat t - 1))"

text \<open>
  The rules on extended permissions for a key, one after the other; the result is that of the last one
  that was compared.
\<close>

definition xperm_nodes :: "avtab \<Rightarrow> avtab_key \<Rightarrow> avtab_node list result" where
  "xperm_nodes h k =
     (let tmp_key = k\<lparr>specified := AVTAB_XPERMS_ALLOWED\<rparr> in
      rbind (avtab_search_node h tmp_key) (\<lambda>ns. Inr (node_iter (ucast (specified tmp_key)) ns)))"

definition xperm_relevant :: "avtab_extended_perms \<Rightarrow> bool" where
  "xperm_relevant x \<longleftrightarrow> xspecified x = AVTAB_XPERMS_IOCTLFUNCTION \<or> xspecified x = AVTAB_XPERMS_IOCTLDRIVER"

fun xperms_loop :: "avrule \<Rightarrow> avtab_node list \<Rightarrow> bool \<Rightarrow> bool result" where
  "xperms_loop r [] rc = Inr rc"
| "xperms_loop r (n # ns) rc =
     rbind (deref (xperms (ndatum n))) (\<lambda>x.
       if \<not> xperm_relevant x then xperms_loop r ns rc
       else rbind (deref (ar_xperms r)) (\<lambda>neverallow.
         rbind (check_extended_permissions neverallow x) (\<lambda>rc.
           if rc then Inr True else xperms_loop r ns False)))"

definition check_assertion_extended_permissions :: "avrule \<Rightarrow> avtab \<Rightarrow> avtab_key \<Rightarrow> bool result" where
  "check_assertion_extended_permissions avrule h k =
     rbind (xperm_nodes h k) (\<lambda>ns. xperms_loop avrule ns True)"

text \<open>The state counts the calls, which have allocations of their own.\<close>

definition check_assertion_avtab_match ::
  "alloc \<Rightarrow> policydb \<Rightarrow> avrule \<Rightarrow> avtab \<Rightarrow> avtab_key \<Rightarrow> avtab_datum \<Rightarrow> nat \<Rightarrow> nat result"
where
  "check_assertion_avtab_match m p avrule h k d n =
     (if specified k \<noteq> AVTAB_ALLOWED then Inr (Suc n)
      else if \<not> match_any_class_permissions (ar_perms avrule) (ucast (target_class k)) (avdata d) then Inr (Suc n)
      else rbind (attr_types p (source_type k)) (\<lambda>src.
        if \<not> ebitmap_match_any (ts_types (ar_stypes avrule)) src then Inr (Suc n)
        else rbind (attr_types p (target_type k)) (\<lambda>tgt.
          rbind (if ar_flags avrule = RULE_SELF
                 then rbind (ebitmap_and (at_site n m) src tgt) (\<lambda>match.
                        Inr (ebitmap_match_any (ts_types (ar_stypes avrule)) match))
                 else Inr (ebitmap_match_any (ts_types (ar_ttypes avrule)) tgt)) (\<lambda>hit.
            if \<not> hit then Inr (Suc n)
            else rbind (if ar_specified avrule = AVRULE_XPERMS_NEVERALLOW
                        then check_assertion_extended_permissions avrule h k else Inr True) (\<lambda>bad.
              if bad then Inl STATUS_ERR else Inr (Suc n))))))"

definition check_assertion :: "alloc \<Rightarrow> policydb \<Rightarrow> avrule \<Rightarrow> unit result" where
  "check_assertion m p avrule =
     rbind (avtab_map (te_avtab p) (check_assertion_avtab_match (at_site 0 m) p avrule (te_avtab p)) 0) (\<lambda>_.
       rbind (avtab_map (te_cond_avtab p) (check_assertion_avtab_match (at_site 1 m) p avrule (te_cond_avtab p)) 0) (\<lambda>_.
         Inr ()))"

section \<open>Reporting\<close>

text \<open>The names that a message about two types and a class reads.\<close>

definition failure_names :: "policydb \<Rightarrow> u32 \<Rightarrow> u32 \<Rightarrow> class_perm_node \<Rightarrow> unit result" where
  "failure_names p stype ttype curperm =
     rbind (idx (p_type_val_to_name p) (unat stype)) (\<lambda>_.
       rbind (idx (p_type_val_to_name p) (unat ttype)) (\<lambda>_.
         if cp_tclass curperm = 0 then Inl UB
         else rbind (idx (p_class_val_to_name p) (unat (cp_tclass curperm) - 1)) (\<lambda>_. Inr ())))"

definition report_failure :: "policydb \<Rightarrow> u32 \<Rightarrow> u32 \<Rightarrow> class_perm_node \<Rightarrow> u32 \<Rightarrow> unit result" where
  "report_failure p stype ttype curperm av =
     rbind (failure_names p stype ttype curperm) (\<lambda>_.
       rbind (sepol_av_to_string [] p (cp_tclass curperm) av) (\<lambda>_. Inr ()))"

text \<open>The loop over the rules on extended permissions: the last comparison and the number of failures.\<close>

fun report_xperms_loop ::
  "policydb \<Rightarrow> avrule \<Rightarrow> u32 \<Rightarrow> u32 \<Rightarrow> class_perm_node \<Rightarrow> avtab_node list \<Rightarrow> bool \<Rightarrow> nat \<Rightarrow> (bool \<times> nat) result"
where
  "report_xperms_loop p r stype ttype curperm [] rc ret = Inr (rc, ret)"
| "report_xperms_loop p r stype ttype curperm (n # ns) rc ret =
     rbind (deref (xperms (ndatum n))) (\<lambda>x.
       if \<not> xperm_relevant x then report_xperms_loop p r stype ttype curperm ns rc ret
       else rbind (deref (ar_xperms r)) (\<lambda>neverallow.
         rbind (check_extended_permissions neverallow x) (\<lambda>bad.
           if bad
           then rbind (extended_permissions_violated \<lparr>xspecified = 0, driver = 0, perms = []\<rparr> neverallow x) (\<lambda>_.
                  rbind (failure_names p stype ttype curperm) (\<lambda>_.
                    report_xperms_loop p r stype ttype curperm ns False (Suc ret)))
           else report_xperms_loop p r stype ttype curperm ns False ret)))"

text \<open>The table is given by a pointer that the caller may have left uninitialised.\<close>

definition report_assertion_extended_permissions ::
  "policydb \<Rightarrow> avrule \<Rightarrow> u32 \<Rightarrow> u32 \<Rightarrow> class_perm_node \<Rightarrow> u32 \<Rightarrow> avtab_key \<Rightarrow> avtab option \<Rightarrow> nat result"
where
  "report_assertion_extended_permissions p avrule stype ttype curperm av k h =
     rbind (deref h) (\<lambda>h.
       rbind (xperm_nodes h k) (\<lambda>ns.
         rbind (report_xperms_loop p avrule stype ttype curperm ns True 0) (\<lambda>(rc, ret).
           if rc then rbind (report_failure p stype ttype curperm av) (\<lambda>_. Inr (Suc ret)) else Inr ret)))"

text \<open>One pair of types for one class of the rule.\<close>

definition report_pair ::
  "policydb \<Rightarrow> avrule \<Rightarrow> avtab_key \<Rightarrow> avtab option \<Rightarrow> class_perm_node \<Rightarrow> u32 \<Rightarrow> u32 \<Rightarrow> u32 \<Rightarrow> u64 \<Rightarrow> u64 result"
where
  "report_pair p avrule k h cp av i j errors =
     (if ar_specified avrule = AVRULE_XPERMS_NEVERALLOW
      then rbind (report_assertion_extended_permissions p avrule i j cp av k h) (\<lambda>n. Inr (errors + of_nat n))
      else rbind (report_failure p i j cp av) (\<lambda>_. Inr (errors + 1)))"

definition report_assertion_avtab_matches ::
  "alloc \<Rightarrow> policydb \<Rightarrow> avrule \<Rightarrow> avtab option \<Rightarrow> avtab_key \<Rightarrow> avtab_datum \<Rightarrow> nat \<times> u64 \<Rightarrow> (nat \<times> u64) result"
where
  "report_assertion_avtab_matches m p avrule h k d = (\<lambda>(n, errors).
     if specified k \<noteq> AVTAB_ALLOWED then Inr (Suc n, errors)
     else if \<not> match_any_class_permissions (ar_perms avrule) (ucast (target_class k)) (avdata d) then Inr (Suc n, errors)
     else
       let m = at_site n m in
       rbind (attr_types p (source_type k)) (\<lambda>src.
       rbind (ebitmap_and (at_site 0 m) (ts_types (ar_stypes avrule)) src) (\<lambda>src_matches.
         if highbit src_matches = 0 then Inr (Suc n, errors)
         else
           rbind (attr_types p (target_type k)) (\<lambda>tgt.
           rbind (if ar_flags avrule = RULE_SELF
                  then rbind (ebitmap_and (at_site 1 m) src tgt) (\<lambda>matches.
                         ebitmap_and (at_site 2 m) (ts_types (ar_stypes avrule)) matches)
                  else ebitmap_and (at_site 1 m) (ts_types (ar_ttypes avrule)) tgt) (\<lambda>tgt_matches.
             if highbit tgt_matches = 0 then Inr (Suc n, errors)
             else
               rbind (for_each (\<lambda>cp errors.
                   let av = cp_data cp AND avdata d in
                   if cp_tclass cp \<noteq> ucast (target_class k) \<or> av = 0 then Inr errors
                   else
                     rbind (ebitmap_positive_bits src_matches) (\<lambda>is.
                       for_each (\<lambda>i errors.
                         rbind (ebitmap_positive_bits tgt_matches) (\<lambda>js.
                           for_each (\<lambda>j. report_pair p avrule k h cp av i j) js errors)) is errors))
                 (ar_perms avrule) errors) (\<lambda>errors. Inr (Suc n, errors)))))))"

text \<open>
  The table in the arguments is not set here.  The number of errors is returned as an \<^verbatim>\<open>int\<close>.
\<close>

definition report_assertion_failures :: "alloc \<Rightarrow> policydb \<Rightarrow> avrule \<Rightarrow> int result" where
  "report_assertion_failures m p avrule =
     rbind (avtab_map (te_avtab p) (report_assertion_avtab_matches (at_site 0 m) p avrule None) (0, 0)) (\<lambda>(n, errors).
       rbind (avtab_map (te_cond_avtab p) (report_assertion_avtab_matches (at_site 1 m) p avrule None) (n, errors)) (\<lambda>(n, errors).
         Inr (sint (ucast errors :: u32))))"

definition check_assertions :: "alloc \<Rightarrow> policydb \<Rightarrow> avrule list \<Rightarrow> unit result" where
  "check_assertions m p avrules =
     rbind (for_each (\<lambda>(i, a) errors.
         if ar_specified a AND (AVRULE_NEVERALLOW OR AVRULE_XPERMS_NEVERALLOW) = 0 then Inr errors
         else
           case check_assertion (at_site (2 * i) m) p a of
             Inr _ \<Rightarrow> Inr errors
           | Inl UB \<Rightarrow> Inl UB
           | Inl _ \<Rightarrow>
               (case report_assertion_failures (at_site (2 * i + 1) m) p a of
                  Inl UB \<Rightarrow> Inl UB
                | Inl _ \<Rightarrow> Inl STATUS_ERR
                | Inr rc \<Rightarrow> if rc < 0 then Inl STATUS_ERR else Inr (errors + of_int rc)))
       (enumerate 0 avrules) (0 :: u64)) (\<lambda>errors.
     if errors \<noteq> 0 then Inl STATUS_ERR else Inr ())"

end
