(* ===== verification/Hierarchy.thy ===== *)
theory Hierarchy
  imports Assertion Policydb_Index
begin

text \<open>
  Bounds of types, roles and users, \<^verbatim>\<open>src/hierarchy.c\<close>.  A type that is bounded by a parent may have only
  what the parent has; the rules of the parent are collected in tables of their own first.  Messages are left
  out, but what they read is read.  Numbers of errors are naturals.
\<close>

section \<open>Rules of the parent\<close>

definition BOUNDS_AVTAB_SIZE :: u32 where "BOUNDS_AVTAB_SIZE = 1024"

text \<open>\<^verbatim>\<open>dup->data |= data\<close> for the result \<^verbatim>\<open>dup\<close> of a search.\<close>

definition av_or_data :: "avtab \<Rightarrow> avtab_key \<Rightarrow> u32 \<Rightarrow> avtab result" where
  "av_or_data h key w =
     rbind (avtab_search_node h key) (\<lambda>ns. case ns of
         [] \<Rightarrow> Inr h
       | n # _ \<Rightarrow> av_modify (\<lambda>n. n\<lparr>ndatum := (ndatum n)\<lparr>avdata := avdata (ndatum n) OR w\<rparr>\<rparr>) (naddr n) h)"

definition bounds_insert_helper :: "alloc \<Rightarrow> avtab \<Rightarrow> avtab_key \<Rightarrow> avtab_datum \<Rightarrow> avtab result" where
  "bounds_insert_helper m h key datum = avtab_insert m h key datum"

text \<open>A search, and an insertion or an addition to what was found.\<close>

definition insert_or_add :: "alloc \<Rightarrow> avtab \<Rightarrow> avtab_key \<Rightarrow> u32 \<Rightarrow> avtab result" where
  "insert_or_add m h key w =
     rbind (avtab_search h key) (\<lambda>dup.
       if dup = None then bounds_insert_helper m h key \<lparr>avdata = w, xperms = None\<rparr>
       else av_or_data h key w)"

text \<open>
  The table, and for the rules of a false list the global table and the table of the true list.
\<close>

type_synonym bounds_tabs = "avtab \<times> (avtab \<times> avtab) option"

definition bounds_insert_rule :: "alloc \<Rightarrow> avtab_key \<Rightarrow> avtab_datum \<Rightarrow> bounds_tabs \<Rightarrow> bounds_tabs result" where
  "bounds_insert_rule m key datum = (\<lambda>(avtab, rest).
     rbind (insert_or_add (at_site 0 m) avtab key (avdata datum)) (\<lambda>avtab.
       case rest of
         None \<Rightarrow> Inr (avtab, None)
       | Some (global, other) \<Rightarrow>
           rbind (avtab_search other key) (\<lambda>dup.
             case dup of
               None \<Rightarrow> Inr (avtab, rest)
             | Some dup \<Rightarrow>
                 let w = avdata dup AND avdata datum in
                 if w \<noteq> 0
                 then rbind (insert_or_add (at_site 1 m) global key w) (\<lambda>global. Inr (avtab, Some (global, other)))
                 else Inr (avtab, rest))))"

text \<open>The rules for the types that one side of the rule stands for.\<close>

definition expand_side :: "alloc \<Rightarrow> (u32 \<Rightarrow> avtab_key) \<Rightarrow> ebitmap \<Rightarrow> avtab_datum \<Rightarrow> bounds_tabs \<Rightarrow> bounds_tabs result" where
  "expand_side m mk e datum t =
     rbind (ebitmap_positive_bits e) (\<lambda>is.
       for_each (\<lambda>i. bounds_insert_rule (at_site (unat i) m) (mk i) datum) is t)"

definition bounds_expand_rule ::
  "alloc \<Rightarrow> policydb \<Rightarrow> u32 \<Rightarrow> u16 \<Rightarrow> u16 \<Rightarrow> u16 \<Rightarrow> u32 \<Rightarrow> bounds_tabs \<Rightarrow> bounds_tabs result"
where
  "bounds_expand_rule m p parent src tgt cls w t =
     (let datum = \<lparr>avdata = w, xperms = None\<rparr>;
          key = (\<lambda>s t. \<lparr>source_type = s, target_type = t, target_class = cls, specified = AVTAB_ALLOWED\<rparr>) in
      rbind (attr_types p src) (\<lambda>srcs.
        rbind (if ebitmap_get_bit srcs (parent - 1)
               then rbind (attr_types p tgt) (\<lambda>tgts.
                      expand_side (at_site 0 m) (\<lambda>i. key (ucast parent) (ucast (i + 1))) tgts datum t)
               else Inr t) (\<lambda>t.
          rbind (attr_types p tgt) (\<lambda>tgts.
            if ebitmap_get_bit tgts (parent - 1)
            then expand_side (at_site 1 m) (\<lambda>i. key (ucast (i + 1)) (ucast parent)) srcs datum t
            else Inr t))))"

text \<open>The kind of the rules of a conditional is not looked at.\<close>

definition bounds_expand_cond_rules :: "alloc \<Rightarrow> policydb \<Rightarrow> u32 \<Rightarrow> nat list \<Rightarrow> bounds_tabs \<Rightarrow> bounds_tabs result" where
  "bounds_expand_cond_rules m p parent rules t =
     for_each (\<lambda>(i, a) t.
         rbind (av_deref (te_cond_avtab p) a) (\<lambda>n.
           bounds_expand_rule (at_site i m) p parent (source_type (nkey n)) (target_type (nkey n)) (target_class (nkey n))
             (avdata (ndatum n)) t))
       (enumerate 0 rules) t"

definition bounds_expand_rule_callback ::
  "alloc \<Rightarrow> policydb \<Rightarrow> u32 \<Rightarrow> avtab_key \<Rightarrow> avtab_datum \<Rightarrow> nat \<times> avtab \<Rightarrow> (nat \<times> avtab) result"
where
  "bounds_expand_rule_callback m p parent k d = (\<lambda>(n, h).
     if specified k AND AVTAB_ALLOWED = 0 then Inr (Suc n, h)
     else rbind (bounds_expand_rule (at_site n m) p parent (source_type k) (target_type k) (target_class k) (avdata d) (h, None))
       (\<lambda>(h, _). Inr (Suc n, h)))"

record bounds_cond_info =
  true_avtab :: avtab
  false_avtab :: avtab
  ci_node :: cond_node

text \<open>
  The tables of one conditional; the global table may change with the rules of the false list.
\<close>

definition no_avtab :: avtab where
  "no_avtab = \<lparr>avslots = None, avnel = 0, nslot = 0, avmask = 0, anext = 0\<rparr>"

definition expand_cond :: "alloc \<Rightarrow> policydb \<Rightarrow> u32 \<Rightarrow> cond_node \<Rightarrow> avtab \<Rightarrow> (avtab \<times> bounds_cond_info) result" where
  "expand_cond m p parent cur global =
     rbind (if true_list cur = [] then Inr no_avtab
            else rbind (avtab_alloc (at_site 0 m) no_avtab BOUNDS_AVTAB_SIZE) (\<lambda>h.
              rbind (bounds_expand_cond_rules (at_site 1 m) p parent (true_list cur) (h, None)) (\<lambda>(h, _). Inr h))) (\<lambda>th.
       if false_list cur = [] then Inr (global, \<lparr>true_avtab = th, false_avtab = no_avtab, ci_node = cur\<rparr>)
       else rbind (avtab_alloc (at_site 2 m) no_avtab BOUNDS_AVTAB_SIZE) (\<lambda>h.
         rbind (bounds_expand_cond_rules (at_site 3 m) p parent (false_list cur) (h, Some (global, th))) (\<lambda>(h, rest).
           Inr (case rest of None \<Rightarrow> global | Some (g, _) \<Rightarrow> g, \<lparr>true_avtab = th, false_avtab = h, ci_node = cur\<rparr>))))"

text \<open>
  Without memory for the record of a conditional, the result is zero although the tables have been
  destroyed.
\<close>

fun expand_conds :: "alloc \<Rightarrow> policydb \<Rightarrow> u32 \<Rightarrow> nat \<Rightarrow> cond_node list \<Rightarrow> avtab \<times> bounds_cond_info list \<Rightarrow>
    (avtab \<times> bounds_cond_info list) result" where
  "expand_conds m p parent k [] t = Inr t"
| "expand_conds m p parent k (cur # rest) (global, infos) =
     (if \<not> malloc (at_site (2 * k) m) then Inr (avtab_destroy global, [])
      else rbind (expand_cond (at_site (2 * k + 1) m) p parent cur global) (\<lambda>(global, ci).
        expand_conds m p parent (Suc k) rest (global, ci # infos)))"

definition bounds_expand_parent_rules :: "alloc \<Rightarrow> policydb \<Rightarrow> u32 \<Rightarrow> (avtab \<times> bounds_cond_info list) result" where
  "bounds_expand_parent_rules m p parent =
     rbind (avtab_alloc (at_site 0 m) no_avtab BOUNDS_AVTAB_SIZE) (\<lambda>h.
       rbind (avtab_map (te_avtab p) (bounds_expand_rule_callback (at_site 1 m) p parent) (0, h)) (\<lambda>(_, h).
         expand_conds (at_site 2 m) p parent 0 (cond_list p) (h, [])))"

section \<open>Rules of the child\<close>

definition bounds_not_covered :: "avtab option \<Rightarrow> avtab \<Rightarrow> avtab_key \<Rightarrow> u32 \<Rightarrow> u32 result" where
  "bounds_not_covered global cur key w =
     rbind (avtab_search cur key) (\<lambda>d.
       let w = (case d of None \<Rightarrow> w | Some d \<Rightarrow> w AND NOT (avdata d)) in
       case global of
         None \<Rightarrow> Inr w
       | Some g \<Rightarrow>
           if w = 0 then Inr w
           else rbind (avtab_search g key) (\<lambda>d. Inr (case d of None \<Rightarrow> w | Some d \<Rightarrow> w AND NOT (avdata d))))"

text \<open>The rules that exceed the bounds, last one first, with their number.\<close>

record bad_rule =
  bad_source :: u16
  bad_target :: u16
  bad_class :: u16
  bad_data :: u32

type_synonym bad_rules = "bad_rule list \<times> nat"

definition bounds_add_bad :: "alloc \<Rightarrow> bad_rule \<Rightarrow> bad_rules \<Rightarrow> bad_rules result" where
  "bounds_add_bad m r = (\<lambda>(bad, numbad). if \<not> malloc m then Inl ENOMEM else Inr (r # bad, Suc numbad))"

text \<open>
  One type on the other side of the rule.  If the parent has not got the permissions, those that it has to the
  bounds of the other type count as well; they are compared with all permissions of the rule again.
\<close>

definition check_side ::
  "alloc \<Rightarrow> policydb \<Rightarrow> avtab option \<Rightarrow> avtab \<Rightarrow> (u16 \<Rightarrow> avtab_key) \<Rightarrow> (u16 \<Rightarrow> u32 \<Rightarrow> bad_rule) \<Rightarrow> u32 \<Rightarrow> u32 \<Rightarrow>
   bad_rules \<Rightarrow> bad_rules result"
where
  "check_side m p global cur mk rule w i bad =
     rbind (bounds_not_covered global cur (mk (ucast (i + 1))) w) (\<lambda>d.
       if d = 0 then Inr bad
       else rbind (idx (type_val_to_struct p) (unat i)) (\<lambda>td.
         case td of
           None \<Rightarrow> bounds_add_bad m (rule (ucast (i + 1)) d) bad
         | Some td \<Rightarrow>
             if type_bounds td = 0 then bounds_add_bad m (rule (ucast (i + 1)) d) bad
             else rbind (bounds_not_covered global cur (mk (ucast (type_bounds td))) w) (\<lambda>d.
               if d = 0 then Inr bad else bounds_add_bad m (rule (ucast (i + 1)) d) bad)))"

definition bounds_check_rule ::
  "alloc \<Rightarrow> policydb \<Rightarrow> avtab option \<Rightarrow> avtab \<Rightarrow> u32 \<Rightarrow> u32 \<Rightarrow> u16 \<Rightarrow> u16 \<Rightarrow> u16 \<Rightarrow> u32 \<Rightarrow> bad_rules \<Rightarrow> bad_rules result"
where
  "bounds_check_rule m p global cur child parent src tgt cls w bad =
     (let key = (\<lambda>s t. \<lparr>source_type = s, target_type = t, target_class = cls, specified = AVTAB_ALLOWED\<rparr>);
          rule = (\<lambda>s t d. \<lparr>bad_source = s, bad_target = t, bad_class = cls, bad_data = d\<rparr>) in
      rbind (attr_types p src) (\<lambda>srcs.
        rbind (if ebitmap_get_bit srcs (child - 1)
               then rbind (attr_types p tgt) (\<lambda>tgts. rbind (ebitmap_positive_bits tgts) (\<lambda>is.
                      for_each (\<lambda>i. check_side (at_site (2 * unat i) m) p global cur (key (ucast parent)) (rule (ucast child)) w i) is bad))
               else Inr bad) (\<lambda>bad.
          rbind (attr_types p tgt) (\<lambda>tgts.
            if ebitmap_get_bit tgts (child - 1)
            then rbind (ebitmap_positive_bits srcs) (\<lambda>is.
              for_each (\<lambda>i bad.
                  if ucast (ucast (i + 1) :: u16) = child then Inr bad
                  else check_side (at_site (2 * unat i + 1) m) p global cur (\<lambda>s. key s (ucast parent)) (\<lambda>s. rule s (ucast child)) w i bad)
                is bad)
            else Inr bad))))"

definition bounds_check_cond_rules ::
  "alloc \<Rightarrow> policydb \<Rightarrow> avtab \<Rightarrow> avtab \<Rightarrow> nat list \<Rightarrow> u32 \<Rightarrow> u32 \<Rightarrow> bad_rules \<Rightarrow> bad_rules result"
where
  "bounds_check_cond_rules m p global cond rules child parent bad =
     for_each (\<lambda>(i, a) bad.
         rbind (av_deref (te_cond_avtab p) a) (\<lambda>n.
           if specified (nkey n) AND AVTAB_ALLOWED = 0 then Inr bad
           else bounds_check_rule (at_site i m) p (Some global) cond child parent (source_type (nkey n)) (target_type (nkey n))
             (target_class (nkey n)) (avdata (ndatum n)) bad))
       (enumerate 0 rules) bad"

definition bounds_check_rule_callback ::
  "alloc \<Rightarrow> policydb \<Rightarrow> avtab \<Rightarrow> u32 \<Rightarrow> u32 \<Rightarrow> avtab_key \<Rightarrow> avtab_datum \<Rightarrow> nat \<times> bad_rules \<Rightarrow> (nat \<times> bad_rules) result"
where
  "bounds_check_rule_callback m p cur child parent k d = (\<lambda>(n, bad).
     if specified k AND AVTAB_ALLOWED = 0 then Inr (Suc n, bad)
     else rbind (bounds_check_rule (at_site n m) p None cur child parent (source_type k) (target_type k) (target_class k) (avdata d) bad)
       (\<lambda>bad. Inr (Suc n, bad)))"

definition bounds_check_child_rules ::
  "alloc \<Rightarrow> policydb \<Rightarrow> avtab \<Rightarrow> bounds_cond_info list \<Rightarrow> u32 \<Rightarrow> u32 \<Rightarrow> bad_rules result"
where
  "bounds_check_child_rules m p global infos child parent =
     rbind (avtab_map (te_avtab p) (bounds_check_rule_callback (at_site 0 m) p global child parent) (0, [], 0)) (\<lambda>(_, bad).
       for_each (\<lambda>(i, ci) bad.
           rbind (bounds_check_cond_rules (at_site (2 * i + 1) m) p global (true_avtab ci) (true_list (ci_node ci)) child parent bad) (\<lambda>bad.
             bounds_check_cond_rules (at_site (2 * i + 2) m) p global (false_avtab ci) (false_list (ci_node ci)) child parent bad))
         (enumerate 0 infos) bad)"

definition bounds_check_type :: "alloc \<Rightarrow> policydb \<Rightarrow> u32 \<Rightarrow> u32 \<Rightarrow> bad_rules result" where
  "bounds_check_type m p child parent =
     rbind (bounds_expand_parent_rules (at_site 0 m) p parent) (\<lambda>(global, infos).
       bounds_check_child_rules (at_site 1 m) p global infos child parent)"

text \<open>The names for the message.\<close>

definition name_at :: "string option list \<Rightarrow> u16 \<Rightarrow> string option result" where
  "name_at ns v = (if v = 0 then Inl UB else idx ns (unat v - 1))"

definition bounds_report :: "policydb \<Rightarrow> u32 \<Rightarrow> u32 \<Rightarrow> bad_rule list \<Rightarrow> unit result" where
  "bounds_report p child parent bad =
     rbind (idx (p_type_val_to_name p) (unat (child - 1))) (\<lambda>_.
       rbind (idx (p_type_val_to_name p) (unat (parent - 1))) (\<lambda>_.
         for_each (\<lambda>r _.
             rbind (name_at (p_type_val_to_name p) (bad_source r)) (\<lambda>_.
               rbind (name_at (p_type_val_to_name p) (bad_target r)) (\<lambda>_.
                 rbind (name_at (p_class_val_to_name p) (bad_class r)) (\<lambda>_.
                   rbind (sepol_av_to_string [] p (ucast (bad_class r)) (bad_data r)) (\<lambda>_. Inr ())))))
           bad ()))"

definition bounds_check_type_callback :: "alloc \<Rightarrow> policydb \<Rightarrow> string \<Rightarrow> type_datum \<Rightarrow> nat \<times> nat \<Rightarrow> (nat \<times> nat) result" where
  "bounds_check_type_callback m p k t = (\<lambda>(n, numbad).
     if type_bounds t = 0 then Inr (Suc n, numbad)
     else rbind (bounds_check_type (at_site n m) p (type_value t) (type_bounds t)) (\<lambda>(bad, more).
       rbind (if bad \<noteq> [] then bounds_report p (type_value t) (type_bounds t) bad else Inr ()) (\<lambda>_.
         Inr (Suc n, numbad + more))))"

definition bounds_check_types :: "alloc \<Rightarrow> policydb \<Rightarrow> unit result" where
  "bounds_check_types m p =
     rbind (hashtab_map (table (p_types p)) (bounds_check_type_callback m p) (0, 0)) (\<lambda>(_, numbad).
       if numbad > 0 then Inl STATUS_ERR else Inr ())"

section \<open>Roles and users\<close>

definition bounds_check_role_callback :: "policydb \<Rightarrow> string \<Rightarrow> role_datum \<Rightarrow> nat \<Rightarrow> nat result" where
  "bounds_check_role_callback p k r numbad =
     (if role_bounds r = 0 then Inr numbad
      else rbind (idx (role_val_to_struct p) (unat (role_bounds r - 1))) (\<lambda>rp. case rp of
          None \<Rightarrow> Inr numbad
        | Some rp \<Rightarrow>
            if ebitmap_contains (ts_types (role_types rp)) (ts_types (role_types r)) then Inr numbad
            else rbind (idx (p_role_val_to_name p) (unat (role_value rp - 1))) (\<lambda>_. Inr (Suc numbad))))"

definition bounds_check_roles :: "policydb \<Rightarrow> unit result" where
  "bounds_check_roles p =
     rbind (hashtab_map (table (p_roles p)) (bounds_check_role_callback p) 0) (\<lambda>numbad.
       if numbad > 0 then Inl STATUS_ERR else Inr ())"

definition bounds_check_user_callback :: "policydb \<Rightarrow> string \<Rightarrow> user_datum \<Rightarrow> nat \<Rightarrow> nat result" where
  "bounds_check_user_callback p k u numbad =
     (if user_bounds u = 0 then Inr numbad
      else rbind (idx (user_val_to_struct p) (unat (user_bounds u - 1))) (\<lambda>up. case up of
          None \<Rightarrow> Inr numbad
        | Some up \<Rightarrow>
            if ebitmap_contains (rs_roles (user_roles up)) (rs_roles (user_roles u)) then Inr numbad
            else rbind (idx (p_user_val_to_name p) (unat (user_value up - 1))) (\<lambda>_. Inr (Suc numbad))))"

definition bounds_check_users :: "policydb \<Rightarrow> unit result" where
  "bounds_check_users p =
     rbind (hashtab_map (table (p_users p)) (bounds_check_user_callback p) 0) (\<lambda>numbad.
       if numbad > 0 then Inl STATUS_ERR else Inr ())"

section \<open>Hierarchies by name\<close>

text \<open>The name up to its last dot.\<close>

definition parent_name :: "string \<Rightarrow> string option" where
  "parent_name s =
     (if CHR ''.'' \<in> set s then Some (rev (tl (dropWhile (\<lambda>c. c \<noteq> CHR ''.'') (rev s)))) else None)"

text \<open>The bounds that the name of an entry gives it: its value and \<open>None\<close> for an orphan.\<close>

definition named_bounds :: "alloc \<Rightarrow> string option list \<Rightarrow> u32 \<Rightarrow> 'd symtab \<Rightarrow> ('d \<Rightarrow> u32) \<Rightarrow> u32 \<Rightarrow> u32 option result" where
  "named_bounds m ns v s val old =
     (if old \<noteq> 0 then Inr (Some old)
      else rbind (val_idx ns v) (\<lambda>name. case parent_name name of
          None \<Rightarrow> Inr (Some old)
        | Some pn \<Rightarrow>
            if \<not> malloc m then Inl ENOMEM
            else rbind (hashtab_search (table s) pn) (\<lambda>d. Inr (map_option val d))))"

definition hierarchy_add_type_callback :: "alloc \<Rightarrow> string \<Rightarrow> type_datum \<Rightarrow> nat \<times> nat \<times> policydb \<Rightarrow> (nat \<times> nat \<times> policydb) result" where
  "hierarchy_add_type_callback m k d = (\<lambda>(n, numbad, p).
     rbind (named_bounds (at_site n m) (p_type_val_to_name p) (type_value d) (p_types p) type_value (type_bounds d)) (\<lambda>b. case b of
         None \<Rightarrow> Inr (Suc n, Suc numbad, p)
       | Some v \<Rightarrow> let d = d\<lparr>type_bounds := v\<rparr> in
           Inr (Suc n, numbad, p\<lparr>p_types := set_entry k d (p_types p),
             type_val_to_struct := set_named (p_type_val_to_name p) k d (type_val_to_struct p)\<rparr>)))"

definition hierarchy_add_role_callback :: "alloc \<Rightarrow> string \<Rightarrow> role_datum \<Rightarrow> nat \<times> nat \<times> policydb \<Rightarrow> (nat \<times> nat \<times> policydb) result" where
  "hierarchy_add_role_callback m k d = (\<lambda>(n, numbad, p).
     rbind (named_bounds (at_site n m) (p_role_val_to_name p) (role_value d) (p_roles p) role_value (role_bounds d)) (\<lambda>b. case b of
         None \<Rightarrow> Inr (Suc n, Suc numbad, p)
       | Some v \<Rightarrow> let d = d\<lparr>role_bounds := v\<rparr> in
           Inr (Suc n, numbad, p\<lparr>p_roles := set_entry k d (p_roles p),
             role_val_to_struct := set_named (p_role_val_to_name p) k d (role_val_to_struct p)\<rparr>)))"

definition hierarchy_add_user_callback :: "alloc \<Rightarrow> string \<Rightarrow> user_datum \<Rightarrow> nat \<times> nat \<times> policydb \<Rightarrow> (nat \<times> nat \<times> policydb) result" where
  "hierarchy_add_user_callback m k d = (\<lambda>(n, numbad, p).
     rbind (named_bounds (at_site n m) (p_user_val_to_name p) (user_value d) (p_users p) user_value (user_bounds d)) (\<lambda>b. case b of
         None \<Rightarrow> Inr (Suc n, Suc numbad, p)
       | Some v \<Rightarrow> let d = d\<lparr>user_bounds := v\<rparr> in
           Inr (Suc n, numbad, p\<lparr>p_users := set_entry k d (p_users p),
             user_val_to_struct := set_named (p_user_val_to_name p) k d (user_val_to_struct p)\<rparr>)))"

definition hierarchy_add_bounds :: "alloc \<Rightarrow> policydb \<Rightarrow> policydb result" where
  "hierarchy_add_bounds m p =
     rbind (hashtab_map (table (p_users p)) (hierarchy_add_user_callback (at_site 0 m)) (0, 0, p)) (\<lambda>(_, numbad, p).
       rbind (hashtab_map (table (p_roles p)) (hierarchy_add_role_callback (at_site 1 m)) (0, numbad, p)) (\<lambda>(_, numbad, p).
         rbind (hashtab_map (table (p_types p)) (hierarchy_add_type_callback (at_site 2 m)) (0, numbad, p)) (\<lambda>(_, numbad, p).
           if numbad > 0 then Inl STATUS_ERR else Inr p)))"

text \<open>The result is the database with the bounds added.\<close>

definition hierarchy_check_constraints :: "alloc \<Rightarrow> policydb \<Rightarrow> policydb result" where
  "hierarchy_check_constraints m p =
     rbind (hierarchy_add_bounds (at_site 0 m) p) (\<lambda>p.
       case (bounds_check_users p, bounds_check_roles p, bounds_check_types (at_site 1 m) p) of
         (Inr _, Inr _, Inr _) \<Rightarrow> Inr p
       | (u, r, t) \<Rightarrow>
           if Inl UB \<in> {u, r, t} then Inl UB
           else case t of
                  Inl e \<Rightarrow> Inl e
                | Inr _ \<Rightarrow> Inl STATUS_ERR)"

end
