(* ===== verification/Assertion_Laws.thy ===== *)
theory Assertion_Laws
  imports Assertion Services_Laws
begin

text \<open>
  What the check of neverallow rules guarantees for access decisions, and what escapes it.
\<close>

section \<open>Checking all rules of a table\<close>

lemma avtab_map_nodes:
  assumes "avtab_wf h"
  shows "avtab_map h f s = for_each (\<lambda>n. f (nkey n) (ndatum n)) (av_nodes h) s"
proof -
  obtain tbl where tbl: "avslots h = Some tbl" "length tbl = unat (nslot h)" using assms by (auto simp: avtab_wf_def)
  show ?thesis
    using for_each_array [OF tbl(2), of "\<lambda>c. for_each (\<lambda>n. f (nkey n) (ndatum n)) c" s]
    by (simp add: avtab_map_def tbl(1) av_nodes_def for_each_concat)
qed

lemma for_each_each: "for_each f xs s = Inr s' \<Longrightarrow> x \<in> set xs \<Longrightarrow> \<exists>s1 s2. f x s1 = Inr s2"
  by (induction xs arbitrary: s) (auto split: sum.splits)

lemma match_any_class_iff:
  "match_any_class_permissions cps cls av \<longleftrightarrow> (\<exists>cp \<in> set cps. cp_tclass cp = cls \<and> cp_data cp AND av \<noteq> 0)"
  by (induction cps) auto

section \<open>Violations\<close>

text \<open>
  A neverallow rule forbids access of type \<open>s\<close> to type \<open>t\<close>; types are counted from zero.  With
  \<^verbatim>\<open>self\<close> the set of target types has no effect.
\<close>

definition forbids :: "avrule \<Rightarrow> nat \<Rightarrow> nat \<Rightarrow> bool" where
  "forbids r s t \<longleftrightarrow> s \<in> ebits (ts_types (ar_stypes r)) \<and>
     (if ar_flags r = RULE_SELF then s = t else t \<in> ebits (ts_types (ar_ttypes r)))"

definition forbids_perm :: "avrule \<Rightarrow> u16 \<Rightarrow> nat \<Rightarrow> bool" where
  "forbids_perm r cls b \<longleftrightarrow> (\<exists>cp \<in> set (ar_perms r). cp_tclass cp = ucast cls \<and> bit (cp_data cp) b)"

text \<open>The types that a type or attribute of a rule stands for.\<close>

definition stands_for_type :: "policydb \<Rightarrow> u16 \<Rightarrow> nat \<Rightarrow> bool" where
  "stands_for_type p t s \<longleftrightarrow> t \<noteq> 0 \<and> s \<in> ebits (attr_type_map p ! (unat t - 1))"

definition grants :: "policydb \<Rightarrow> avtab_node \<Rightarrow> nat \<Rightarrow> nat \<Rightarrow> bool" where
  "grants p n s t \<longleftrightarrow> stands_for_type p (source_type (nkey n)) s \<and> stands_for_type p (target_type (nkey n)) t"

definition violated_by :: "policydb \<Rightarrow> avrule \<Rightarrow> avtab_node \<Rightarrow> bool" where
  "violated_by p r n \<longleftrightarrow> specified (nkey n) = AVTAB_ALLOWED \<and>
     (\<exists>b. bit (avdata (ndatum n)) b \<and> forbids_perm r (target_class (nkey n)) b) \<and>
     (\<exists>s t. forbids r s t \<and> grants p n s t)"

text \<open>What the check relies on: canonical bitmaps, and an entry for every type of a rule.\<close>

definition types_ok :: "policydb \<Rightarrow> avtab_key \<Rightarrow> bool" where
  "types_ok p k \<longleftrightarrow> (\<forall>t \<in> {source_type k, target_type k}. t \<noteq> 0 \<and> unat t - 1 < length (attr_type_map p))"

definition rule_ok :: "policydb \<Rightarrow> avrule \<Rightarrow> bool" where
  "rule_ok p r \<longleftrightarrow> ar_specified r = AVRULE_NEVERALLOW \<and> ebitmap_wf (ts_types (ar_stypes r)) \<and>
     ebitmap_wf (ts_types (ar_ttypes r)) \<and> (\<forall>e \<in> set (attr_type_map p). ebitmap_wf e)"

lemma class_overlap:
  "match_any_class_permissions (ar_perms r) (ucast cls) av \<longleftrightarrow> (\<exists>b. bit av b \<and> forbids_perm r cls b)"
proof -
  have "x AND av \<noteq> 0 \<longleftrightarrow> (\<exists>b. bit av b \<and> bit x b)" for x
    using bit_imp_le_length [of av] by (fastforce simp: bit_eq_iff bit_and_iff)
  then show ?thesis unfolding match_any_class_iff forbids_perm_def by blast
qed

lemma check_match_violated:
  assumes ok: "rule_ok p r" and types: "types_ok p (nkey n)"
    and run: "check_assertion_avtab_match m p r h (nkey n) (ndatum n) k = res"
  shows "res = Inr (Suc k) \<and> \<not> violated_by p r n \<or> res = Inl STATUS_ERR \<and> violated_by p r n \<or>
    (\<exists>e1 e2 e. ebitmap_and (at_site k m) e1 e2 = Inl e \<and> res = Inl e \<and> ebitmap_wf e1)"
proof (cases "specified (nkey n) = AVTAB_ALLOWED \<and>
    match_any_class_permissions (ar_perms r) (ucast (target_class (nkey n))) (avdata (ndatum n))")
  case False
  then have "res = Inr (Suc k)" using run by (auto simp: check_assertion_avtab_match_def)
  moreover have "\<not> violated_by p r n" using False by (auto simp: violated_by_def class_overlap)
  ultimately show ?thesis by simp
next
  case True
  let ?S = "ts_types (ar_stypes r)" and ?T = "ts_types (ar_ttypes r)"
  define src tgt where "src = attr_type_map p ! (unat (source_type (nkey n)) - 1)"
    and "tgt = attr_type_map p ! (unat (target_type (nkey n)) - 1)"
  have maps: "attr_types p (source_type (nkey n)) = Inr src" "attr_types p (target_type (nkey n)) = Inr tgt"
    "source_type (nkey n) \<noteq> 0" "target_type (nkey n) \<noteq> 0"
    using types by (auto simp: attr_types_def types_ok_def src_def tgt_def)
  have wf: "ebitmap_wf ?S" "ebitmap_wf ?T" "ebitmap_wf src" "ebitmap_wf tgt" and plain: "ar_specified r \<noteq> AVRULE_XPERMS_NEVERALLOW"
    using ok types by (auto simp: rule_ok_def types_ok_def src_def tgt_def AVRULE_NEVERALLOW_def AVRULE_XPERMS_NEVERALLOW_def)
  note match = ebitmap_match_any_iff [OF ebitmap_wf_ok ebitmap_wf_ok]
  have viol: "violated_by p r n \<longleftrightarrow>
      (if ar_flags r = RULE_SELF then ebits ?S \<inter> (ebits src \<inter> ebits tgt) \<noteq> {} else ebits ?S \<inter> ebits src \<noteq> {} \<and> ebits ?T \<inter> ebits tgt \<noteq> {})"
    using True class_overlap [of r "target_class (nkey n)"] maps(3,4)
    by (auto simp: violated_by_def forbids_def grants_def stands_for_type_def src_def tgt_def)
  show ?thesis
  proof (cases "ar_flags r = RULE_SELF \<and> ebitmap_match_any ?S src")
    case False
    have "res = (if ebits ?S \<inter> ebits src = {} \<or> ar_flags r \<noteq> RULE_SELF \<and> ebits ?T \<inter> ebits tgt = {} then Inr (Suc k) else Inl STATUS_ERR)"
      using run True maps(1,2) plain False unfolding check_assertion_avtab_match_def
      by (cases "ar_flags r = RULE_SELF"; cases "ebits ?S \<inter> ebits src = {}") (simp_all add: match wf cong: if_cong)
    moreover have "violated_by p r n \<longleftrightarrow> \<not> (ebits ?S \<inter> ebits src = {} \<or> ar_flags r \<noteq> RULE_SELF \<and> ebits ?T \<inter> ebits tgt = {})"
      using viol False by (auto simp: match wf)
    ultimately show ?thesis by simp
  next
    case self: True
    show ?thesis
    proof (cases "ebitmap_and (at_site k m) src tgt")
      case (Inl e)
      then have "res = Inl e" using run True maps(1,2) self by (simp add: check_assertion_avtab_match_def)
      then show ?thesis using Inl wf(3) by blast
    next
      case (Inr e)
      note both = ebitmap_and_spec [OF Inr ebitmap_wf_ok [OF wf(3)] ebitmap_wf_ok [OF wf(4)]]
      have "res = (if ebits ?S \<inter> ebits e = {} then Inr (Suc k) else Inl STATUS_ERR)"
        using run True maps(1,2) plain self Inr by (simp add: check_assertion_avtab_match_def match wf both(1) cong: if_cong)
      then show ?thesis using viol self by (simp add: both(2))
    qed
  qed
qed

text \<open>A whole table, and both tables.\<close>

lemma check_table:
  assumes ok: "rule_ok p r" and types: "\<forall>n \<in> set ns. types_ok p (nkey n)"
    and run: "for_each (\<lambda>n. check_assertion_avtab_match m p r h (nkey n) (ndatum n)) ns k = Inr k'"
  shows "\<forall>n \<in> set ns. \<not> violated_by p r n"
  using types run
proof (induction ns arbitrary: k)
  case (Cons n ns)
  obtain k1 where "check_assertion_avtab_match m p r h (nkey n) (ndatum n) k = Inr k1"
    and rest: "for_each (\<lambda>n. check_assertion_avtab_match m p r h (nkey n) (ndatum n)) ns k1 = Inr k'"
    using Cons.prems(2) by (auto split: sum.splits)
  then have "\<not> violated_by p r n" using check_match_violated [OF ok, of n m h k "Inr k1"] Cons.prems(1) by auto
  then show ?case using Cons.IH [OF _ rest] Cons.prems(1) by simp
qed simp

lemma check_match_no_oom:
  assumes "rule_ok p r" and "types_ok p (nkey n)"
  shows "check_assertion_avtab_match no_oom p r h (nkey n) (ndatum n) k = (if violated_by p r n then Inl STATUS_ERR else Inr (Suc k))"
proof -
  have "\<nexists>e1 e2 e. ebitmap_and no_oom e1 e2 = Inl e \<and> res = Inl e \<and> ebitmap_wf e1" for res :: "nat result"
    using ebitmap_and_no_oom by (metis Inl_Inr_False)
  then show ?thesis using check_match_violated [OF assms refl, of no_oom h k] unfolding at_site_no_oom
    by (cases "violated_by p r n") (simp_all, blast+)
qed

lemma check_table_total:
  assumes ok: "rule_ok p r" and types: "\<forall>n \<in> set ns. types_ok p (nkey n)"
  shows "if \<exists>n \<in> set ns. violated_by p r n
    then for_each (\<lambda>n. check_assertion_avtab_match no_oom p r h (nkey n) (ndatum n)) ns k = Inl STATUS_ERR
    else \<exists>k'. for_each (\<lambda>n. check_assertion_avtab_match no_oom p r h (nkey n) (ndatum n)) ns k = Inr k'"
  using types
proof (induction ns arbitrary: k)
  case (Cons n ns)
  have "check_assertion_avtab_match no_oom p r h (nkey n) (ndatum n) k = (if violated_by p r n then Inl STATUS_ERR else Inr (Suc k))"
    using Cons.prems by (intro check_match_no_oom ok) simp
  then show ?case using Cons.IH [of "Suc k"] Cons.prems by (cases "violated_by p r n") simp_all
qed simp

definition tables_ok :: "policydb \<Rightarrow> bool" where
  "tables_ok p \<longleftrightarrow> avtab_wf (te_avtab p) \<and> avtab_wf (te_cond_avtab p) \<and>
     (\<forall>n \<in> set (av_nodes (te_avtab p)) \<union> set (av_nodes (te_cond_avtab p)). types_ok p (nkey n))"

lemma check_assertion_sound:
  assumes "check_assertion m p r = Inr ()" and "rule_ok p r" and "tables_ok p"
  shows "\<forall>n \<in> set (av_nodes (te_avtab p)) \<union> set (av_nodes (te_cond_avtab p)). \<not> violated_by p r n"
proof -
  have wf: "avtab_wf (te_avtab p)" "avtab_wf (te_cond_avtab p)"
    and types: "\<forall>n \<in> set (av_nodes (te_avtab p)). types_ok p (nkey n)" "\<forall>n \<in> set (av_nodes (te_cond_avtab p)). types_ok p (nkey n)"
    using assms(3) by (auto simp: tables_ok_def)
  obtain k1 k2 where "for_each (\<lambda>n. check_assertion_avtab_match (at_site 0 m) p r (te_avtab p) (nkey n) (ndatum n)) (av_nodes (te_avtab p)) 0 = Inr k1"
    "for_each (\<lambda>n. check_assertion_avtab_match (at_site 1 m) p r (te_cond_avtab p) (nkey n) (ndatum n)) (av_nodes (te_cond_avtab p)) 0 = Inr k2"
    using assms(1) unfolding check_assertion_def avtab_map_nodes [OF wf(1)] avtab_map_nodes [OF wf(2)] rbind_eq_Inr_iff by blast
  then show ?thesis using check_table [OF assms(2) types(1)] check_table [OF assms(2) types(2)] by blast
qed

text \<open>
  C35: With memory \<^verbatim>\<open>check_assertion\<close> decides whether a rule of the policy violates a neverallow rule,
  that is whether some allow rule, or some conditional allow rule that is switched off, names a
  permission of the neverallow rule for types or attributes that stand for two of the forbidden types.
\<close>

theorem check_assertion_decides:
  assumes "rule_ok p r" and "tables_ok p"
  shows "check_assertion no_oom p r =
    (if \<exists>n \<in> set (av_nodes (te_avtab p)) \<union> set (av_nodes (te_cond_avtab p)). violated_by p r n then Inl STATUS_ERR else Inr ())"
proof -
  have wf: "avtab_wf (te_avtab p)" "avtab_wf (te_cond_avtab p)"
    and types: "\<forall>n \<in> set (av_nodes (te_avtab p)). types_ok p (nkey n)" "\<forall>n \<in> set (av_nodes (te_cond_avtab p)). types_ok p (nkey n)"
    using assms(2) by (auto simp: tables_ok_def)
  show ?thesis
    using check_table_total [OF assms(1) types(1), of "te_avtab p" 0] check_table_total [OF assms(1) types(2), of "te_cond_avtab p" 0]
    unfolding check_assertion_def avtab_map_nodes [OF wf(1)] avtab_map_nodes [OF wf(2)] at_site_no_oom
    by (cases "\<exists>n \<in> set (av_nodes (te_avtab p)). violated_by p r n";
        cases "\<exists>n \<in> set (av_nodes (te_cond_avtab p)). violated_by p r n") auto
qed

section \<open>Access decisions\<close>

text \<open>Evaluating the conditionals changes nothing but which conditional rules are enabled.\<close>

definition switched :: "avtab \<Rightarrow> avtab \<Rightarrow> bool" where
  "switched h h' \<longleftrightarrow> (\<forall>n \<in> set (av_nodes h'). \<exists>n0 \<in> set (av_nodes h). ndatum n = ndatum n0 \<and>
     key_rank (nkey n) = key_rank (nkey n0) \<and> (\<forall>i. i \<noteq> 15 \<longrightarrow> bit (specified (nkey n)) i = bit (specified (nkey n0)) i))"

lemma switched_refl: "switched h h"
  unfolding switched_def by blast

lemma switched_trans: "switched h1 h2 \<Longrightarrow> switched h2 h3 \<Longrightarrow> switched h1 h3"
  unfolding switched_def by metis

lemma av_modify_switched:
  assumes "av_modify (set_enabled v) a h = Inr h'"
  shows "switched h h'"
proof -
  let ?g = "\<lambda>n. if naddr n = a then set_enabled v n else n"
  have h': "h' = av_map ?g h" using assms by (auto simp: av_modify_def av_map_def rbind_eq_Inr_iff)
  have "ndatum (?g n) = ndatum n \<and> key_rank (nkey (?g n)) = key_rank (nkey n) \<and>
      (\<forall>i. i \<noteq> 15 \<longrightarrow> bit (specified (nkey (?g n))) i = bit (specified (nkey n)) i)" for n
    by (auto simp: set_enabled_def bit_or_iff bit_and_iff bit_not_iff bit_AVTAB_ENABLED key_rank_def dest: bit_imp_le_length)
  then show ?thesis unfolding switched_def h' av_map_nodes set_map by blast
qed

lemma modify_all_switched:
  assumes "for_each (av_modify (set_enabled v)) as h = Inr h'"
  shows "switched h h'"
  using assms by (rule for_each_keeps) (auto intro: switched_refl switched_trans av_modify_switched)

lemma evaluate_cond_node_switched:
  assumes "evaluate_cond_node p c = Inr (q, c')"
  shows "\<exists>h. q = p\<lparr>te_cond_avtab := h\<rparr> \<and> switched (te_cond_avtab p) h"
proof (cases "q = p")
  case True
  then show ?thesis by (intro exI [of _ "te_cond_avtab p"]) (simp add: switched_refl)
next
  case False
  then obtain v h1 h2 where "for_each (av_modify (set_enabled (\<not> v \<le> (0 :: int)))) (true_list c) (te_cond_avtab p) = Inr h1"
    "for_each (av_modify (set_enabled (v = 0))) (false_list c) h1 = Inr h2" "q = p\<lparr>te_cond_avtab := h2\<rparr>"
    using assms by (auto simp: evaluate_cond_node_def rbind_eq_Inr_iff split: if_splits)
  then show ?thesis using modify_all_switched switched_trans by blast
qed

lemma evaluate_loop_switched:
  "evaluate_loop p ev cs = Inr (q, cl) \<Longrightarrow> \<exists>h. q = p\<lparr>te_cond_avtab := h\<rparr> \<and> switched (te_cond_avtab p) h"
proof (induction cs arbitrary: p ev)
  case Nil
  then show ?case by (auto intro!: exI [of _ "te_cond_avtab p"] switched_refl)
next
  case (Cons c cs)
  obtain p1 c1 where 1: "evaluate_cond_node p c = Inr (p1, c1)" and 2: "evaluate_loop p1 (ev @ [c1]) cs = Inr (q, cl)"
    using Cons.prems by (auto simp: rbind_eq_Inr_iff)
  obtain h1 where h1: "p1 = p\<lparr>te_cond_avtab := h1\<rparr>" "switched (te_cond_avtab p) h1" using evaluate_cond_node_switched [OF 1] by blast
  then obtain h2 where "q = p\<lparr>te_cond_avtab := h2\<rparr>" "switched h1 h2" using Cons.IH [OF 2] by auto
  then show ?case using switched_trans [OF h1(2)] by blast
qed

lemma evaluate_conds_switched:
  "evaluate_conds p = Inr q \<Longrightarrow> \<exists>h cl. q = p\<lparr>te_cond_avtab := h, cond_list := cl\<rparr> \<and> switched (te_cond_avtab p) h"
  by (auto simp: evaluate_conds_def rbind_eq_Inr_iff dest!: evaluate_loop_switched)

text \<open>A type that is listed in the entry of each of its attributes.\<close>

definition covers :: "policydb \<Rightarrow> nat \<Rightarrow> bool" where
  "covers p s \<longleftrightarrow> (\<forall>k \<in> ebits (type_attr_map p ! s). k < length (attr_type_map p) \<and> s \<in> ebits (attr_type_map p ! k))"

lemma attribute_stands_for:
  assumes "covers p s" and "length (attr_type_map p) < 2 ^ 16" and "unat (i :: u32) \<in> ebits (type_attr_map p ! s)"
  shows "stands_for_type p (ucast (i + 1)) s"
proof -
  have i: "unat i < length (attr_type_map p)" "s \<in> ebits (attr_type_map p ! unat i)" using assms(1,3) by (auto simp: covers_def)
  then have "unat i + 1 < 2 ^ 16" using assms(2) by simp
  then have "unat (i + 1) = unat i + 1" by (simp add: unat_word_ariths)
  then have "unat (ucast (i + 1) :: u16) = unat i + 1"
    using \<open>unat i + 1 < 2 ^ 16\<close> by (simp add: unsigned_ucast_eq take_bit_nat_eq_self)
  then show ?thesis using i(2) unfolding stands_for_type_def by (metis add_diff_cancel_right' add_is_0 one_neq_zero unat_0)
qed

lemma granting_violates:
  assumes n: "specified (nkey n) = AVTAB_ALLOWED" "bit (avdata (ndatum n)) b" "key_rank (nkey n) = key_rank (te_key i j tclass)"
    and "i \<in> attr_bits p ty" "j \<in> attr_bits p ty'" "covers p (unat (ty - 1))" "covers p (unat (ty' - 1))"
    and "length (attr_type_map p) < 2 ^ 16" "forbids r (unat (ty - 1)) (unat (ty' - 1))" "forbids_perm r tclass b"
  shows "violated_by p r n"
proof -
  have key: "source_type (nkey n) = ucast (i + 1)" "target_type (nkey n) = ucast (j + 1)" "target_class (nkey n) = tclass"
    using n(3) by (auto simp: key_rank_eq te_key_def)
  then have "grants p n (unat (ty - 1)) (unat (ty' - 1))"
    using assms(4-8) attribute_stands_for by (simp add: grants_def attr_bits_def)
  then show ?thesis using n(1,2) assms(9,10) key(3) by (auto simp: violated_by_def)
qed

text \<open>
  C2: A neverallow rule that passed \<^verbatim>\<open>check_assertion\<close> while no conditional allow rule was enabled holds
  from then on: whatever values the Booleans get, after \<^verbatim>\<open>evaluate_conds\<close> no access decision allows a
  permission of the rule between two types that the rule forbids.  The maps of types and attributes
  have to be converse for the two types, and there must be fewer types than the 16 bits of a key can
  tell apart.
\<close>

theorem neverallow_enforced:
  assumes check: "check_assertion m p r = Inr ()" and ok: "rule_ok p r" "tables_ok p"
    and off: "\<forall>n \<in> set (av_nodes (te_cond_avtab p)). specified (nkey n) AND AVTAB_ALLOWED \<noteq> 0 \<longrightarrow> specified (nkey n) = AVTAB_ALLOWED"
    and eval: "evaluate_conds (p\<lparr>bool_val_to_struct := bs\<rparr>) = Inr q"
    and dec: "decidable_access q scon tcon tclass cl"
    and maps: "covers p (unat (type scon - 1))" "covers p (unat (type tcon - 1))" "length (attr_type_map p) < 2 ^ 16"
    and bad: "forbids r (unat (type scon - 1)) (unat (type tcon - 1))" "forbids_perm r tclass b"
  shows "\<exists>avd reason. context_struct_compute_av no_oom q scon tcon tclass req = Inr (avd, reason) \<and> \<not> bit (allowed avd) b"
proof -
  obtain h cl' where q: "q = p\<lparr>bool_val_to_struct := bs, te_cond_avtab := h, cond_list := cl'\<rparr>" "switched (te_cond_avtab p) h"
    using evaluate_conds_switched [OF eval] by auto
  obtain avd reason where run: "context_struct_compute_av no_oom q scon tcon tclass req = Inr (avd, reason)"
    and bits: "\<And>b. bit (allowed avd) b \<longleftrightarrow> (\<exists>key \<in> te_keys q scon tcon tclass. rule_names q key AVTAB_ALLOWED b) \<and>
       (\<forall>c \<in> set (constraints cl). bit (permissions c) b \<longrightarrow> constraint_true q scon tcon c) \<and>
       (role_denied q scon tcon tclass \<longrightarrow> b \<noteq> 1 \<and> b \<noteq> 23)"
    by (rule access_decision [OF dec, of req]) blast
  have "False" if "bit (allowed avd) b"
  proof -
    obtain i j n where ij: "i \<in> attr_bits p (type scon)" "j \<in> attr_bits p (type tcon)" and n: "bit (avdata (ndatum n)) b"
      "n \<in> te_rules (te_avtab p) (te_key i j tclass) AVTAB_ALLOWED \<union> deciding h (te_key i j tclass) AVTAB_ALLOWED"
      using \<open>bit (allowed avd) b\<close> bits [of b] by (auto simp: te_keys_def rule_names_def q(1) attr_bits_def)
    note violates = granting_violates [OF _ _ _ ij maps bad]
    have ok': "\<not> violated_by p r n0" if "n0 \<in> set (av_nodes (te_avtab p)) \<union> set (av_nodes (te_cond_avtab p))" for n0
      using check_assertion_sound [OF check ok] that by blast
    show False
    proof (cases "n \<in> te_rules (te_avtab p) (te_key i j tclass) AVTAB_ALLOWED")
      case True
      then show ?thesis using violates [of n] n(1) ok' by (auto simp: te_rules_def)
    next
      case False
      then obtain n0 where n0: "n0 \<in> set (av_nodes (te_cond_avtab p))" "ndatum n = ndatum n0" "key_rank (nkey n) = key_rank (nkey n0)"
        "bit (specified (nkey n)) 0 = bit (specified (nkey n0)) 0"
        and on: "specified (nkey n) AND AVTAB_ALLOWED \<noteq> 0" "key_rank (nkey n) = key_rank (te_key i j tclass)"
        using n(2) q(2) by (fastforce simp: deciding_def switched_def)
      have "x AND AVTAB_ALLOWED \<noteq> 0 \<longleftrightarrow> bit x 0" for x using test_bit_and_power [of x 0] by (simp add: AVTAB_ALLOWED_def)
      then have "specified (nkey n0) = AVTAB_ALLOWED" using off n0(1,4) on(1) by blast
      then show ?thesis using violates [of n0] n(1) n0 on(2) ok' by auto
    qed
  qed
  then show ?thesis using run by blast
qed

definition sample_neverallow :: "u32 \<Rightarrow> avrule" where
  "sample_neverallow av = \<lparr>ar_specified = AVRULE_NEVERALLOW, ar_flags = 0,
     ar_stypes = \<lparr>ts_types = low_bits 1, negset = ebitmap_init, ts_flags = 0\<rparr>,
     ar_ttypes = \<lparr>ts_types = low_bits 1, negset = ebitmap_init, ts_flags = 0\<rparr>,
     ar_perms = [\<lparr>cp_tclass = 1, cp_data = av\<rparr>], ar_xperms = None, ar_line = 0, ar_source_filename = None, ar_source_line = 0\<rparr>"

lemma sample_neverallow_ok: "rule_ok sample_access (sample_neverallow av)" "tables_ok sample_access"
  using sample_cond_wf empty_avtab_wf low_bits_wf [of 1]
  by (auto simp: rule_ok_def sample_neverallow_def sample_access_def tables_ok_def av_nodes_def empty_avtab_def types_ok_def
      sample_cond_def sample_rule_def sample_key_def)

lemma sample_nodes: "av_nodes (te_avtab sample_access) = [sample_rule]" "av_nodes (te_cond_avtab sample_access) = []"
  by (simp_all add: sample_access_def av_nodes_def empty_avtab_def sample_cond_def)

theorem check_assertion_decides_witness:
  "check_assertion no_oom sample_access (sample_neverallow 4) = Inl STATUS_ERR \<and>
   check_assertion no_oom sample_access (sample_neverallow 2) = Inr ()"
proof -
  have "violated_by sample_access (sample_neverallow av) sample_rule \<longleftrightarrow> (\<exists>b. bit (5 :: u32) b \<and> bit av b)" for av
    by (simp add: violated_by_def sample_rule_def sample_key_def forbids_perm_def sample_neverallow_def forbids_def grants_def
        stands_for_type_def sample_access_def low_bits_bits RULE_SELF_def)
  moreover have "bit (5 :: u32) 2" "bit (4 :: u32) 2" by simp_all
  moreover have "\<not> (bit (5 :: u32) b \<and> bit (2 :: u32) b)" for b
  proof -
    have "(5 :: u32) AND 2 = 0" by simp
    then show ?thesis by (metis bit_and_iff bit_0_eq bot_apply bot_bool_def)
  qed
  ultimately have "violated_by sample_access (sample_neverallow 4) sample_rule" "\<not> violated_by sample_access (sample_neverallow 2) sample_rule"
    by blast+
  then show ?thesis
    using check_assertion_decides [OF sample_neverallow_ok, of 4] check_assertion_decides [OF sample_neverallow_ok, of 2]
    by (simp add: sample_nodes)
qed

theorem neverallow_enforced_witness:
  "\<exists>avd reason. context_struct_compute_av no_oom sample_access (typed 1) (typed 2) 1 2 = Inr (avd, reason) \<and> \<not> bit (allowed avd) 1"
proof (rule neverallow_enforced)
  show "check_assertion no_oom sample_access (sample_neverallow 2) = Inr ()"
    by (simp add: check_assertion_def avtab_map_def sample_access_def sample_cond_def empty_avtab_def upto32_1 [simplified] upto32_1
        check_assertion_avtab_match_def sample_rule_def sample_key_def sample_neverallow_def)
  show "rule_ok sample_access (sample_neverallow 2)" "tables_ok sample_access" by (rule sample_neverallow_ok)+
  show "evaluate_conds (sample_access\<lparr>bool_val_to_struct := bool_val_to_struct sample_access\<rparr>) = Inr sample_access"
    by (simp add: evaluate_conds_def sample_access_def sample_classes_def zero_policydb_def)
  show "decidable_access sample_access (typed 1) (typed 2) 1 sample_class" by (rule sample_access_decidable)
  show "\<forall>n \<in> set (av_nodes (te_cond_avtab sample_access)). specified (nkey n) AND AVTAB_ALLOWED \<noteq> 0 \<longrightarrow> specified (nkey n) = AVTAB_ALLOWED"
    by (simp add: sample_nodes)
qed (simp_all add: covers_def typed_def sample_access_def low_bits_bits forbids_def forbids_perm_def
    sample_neverallow_def RULE_SELF_def)

section \<open>What escapes the check\<close>

lemma for_each_step: "(\<And>x k. x \<in> set xs \<Longrightarrow> f x k = Inr (Suc k)) \<Longrightarrow> for_each f xs k = Inr (k + length xs)"
  by (induction xs arbitrary: k) auto

text \<open>
  C36: The check does not see conditional rules that are enabled: if all rules of the conditional table
  are enabled and there are no other allow rules, every policy passes \<^verbatim>\<open>check_assertions\<close>, with whatever
  neverallow rules.  In \<^verbatim>\<open>expand_module\<close> the conditionals have been evaluated before the check.
\<close>

theorem check_assertions_misses_enabled:
  assumes wf: "avtab_wf (te_avtab p)" "avtab_wf (te_cond_avtab p)"
    and none: "\<forall>n \<in> set (av_nodes (te_avtab p)). specified (nkey n) \<noteq> AVTAB_ALLOWED"
    and on: "\<forall>n \<in> set (av_nodes (te_cond_avtab p)). rule_on n"
  shows "check_assertions m p rs = Inr ()"
proof -
  have skip: "check_assertion_avtab_match m p r h (nkey n) (ndatum n) k = Inr (Suc k)" if "specified (nkey n) \<noteq> AVTAB_ALLOWED" for m r h k and n :: avtab_node
    using that by (simp add: check_assertion_avtab_match_def)
  have "specified (nkey n) \<noteq> AVTAB_ALLOWED" if "n \<in> set (av_nodes (te_cond_avtab p))" for n
    using on that by (auto simp: rule_on_def AVTAB_ALLOWED_def AVTAB_ENABLED_def)
  moreover have pass: "for_each (\<lambda>n. check_assertion_avtab_match m p r h (nkey n) (ndatum n)) ns k = Inr (k + length ns)"
    if "\<forall>n \<in> set ns. specified (nkey n) \<noteq> AVTAB_ALLOWED" for m r h k and ns :: "avtab_node list"
    using that skip by (intro for_each_step) blast
  ultimately have check: "check_assertion m p r = Inr ()" for m r
    using none pass unfolding check_assertion_def avtab_map_nodes [OF wf(1)] avtab_map_nodes [OF wf(2)] by simp
  have "for_each (\<lambda>(i, a) errors.
         if ar_specified a AND (AVRULE_NEVERALLOW OR AVRULE_XPERMS_NEVERALLOW) = 0 then Inr errors
         else
           case check_assertion (at_site (2 * i) m) p a of
             Inr _ \<Rightarrow> Inr errors
           | Inl UB \<Rightarrow> Inl UB
           | Inl _ \<Rightarrow>
               (case report_assertion_failures (at_site (2 * i + 1) m) p a of
                  Inl UB \<Rightarrow> Inl UB
                | Inl _ \<Rightarrow> Inl STATUS_ERR
                | Inr rc \<Rightarrow> if rc < 0 then Inl STATUS_ERR else Inr (errors + of_int rc))) ias errors = Inr errors"
    for ias and errors :: u64
    by (induction ias) (auto simp: check)
  then show ?thesis by (simp add: check_assertions_def)
qed

definition sample_enabled :: policydb where
  "sample_enabled = sample_access\<lparr>te_avtab := empty_avtab,
     te_cond_avtab := av_map (set_enabled True) (te_avtab sample_access)\<rparr>"

lemma sample_enabled_nodes:
  "av_nodes (te_avtab sample_enabled) = []" "av_nodes (te_cond_avtab sample_enabled) = [set_enabled True sample_rule]"
  "avtab_wf (te_avtab sample_enabled)" "avtab_wf (te_cond_avtab sample_enabled)"
proof -
  have "in_place (set_enabled True)" by (simp add: in_place_def set_enabled_def key_rank_def)
  then show "avtab_wf (te_cond_avtab sample_enabled)"
    using sample_cond_wf by (simp add: sample_enabled_def sample_access_def av_map_wf)
  show "av_nodes (te_avtab sample_enabled) = []" by (simp add: sample_enabled_def av_nodes_def empty_avtab_def)
qed (simp_all add: sample_enabled_def sample_nodes empty_avtab_wf)

lemma sample_enabled_decidable: "decidable_access sample_enabled (typed 1) (typed 2) 1 sample_class"
proof -
  have "class_known sample_enabled 1" using sample_class_known
    by (simp add: class_known_def sample_access_def sample_enabled_def)
  moreover have "constraint_ok sample_enabled (typed 1) (typed 2) c" if "c \<in> set (constraints sample_class)" for c
    using that sample_constraint_ok(1) [of sample_enabled "typed 1" "typed 2" None] sample_constraint_ok(2) unfolding constraint_ok_def
    by (intro exI [of _ "Bin either (Leaf same_user) (Leaf dom_low)"]) (auto simp: sample_class_def CEXPR_MAXDEPTH_def)
  ultimately show ?thesis
    using sample_enabled_nodes(3,4) low_bits_wf [of 1] unfolding decidable_access_def
    by (auto simp: sample_enabled_def sample_access_def typed_def sample_classes_def val_idx_def zero_symtab_def)
qed

theorem check_assertions_misses_enabled_witness:
  "check_assertions no_oom sample_enabled [sample_neverallow 4] = Inr () \<and> forbids (sample_neverallow 4) 0 0 \<and>
   (\<exists>avd. context_struct_compute_av no_oom sample_enabled (typed 1) (typed 2) 1 4 = Inr (avd, 0) \<and> bit (allowed avd) 2)"
proof -
  let ?n = "set_enabled True sample_rule"
  have n: "rule_on ?n" "specified (nkey ?n) AND AVTAB_ALLOWED \<noteq> 0" "specified (nkey ?n) AND spec_of (te_key 0 0 1) \<noteq> 0"
    "key_rank (nkey ?n) = key_rank (te_key 0 0 1)" "bit (avdata (ndatum ?n)) 2"
    by (simp_all add: rule_on_def set_enabled_def sample_rule_def sample_key_def avtab_consts AVTAB_ENABLED_def spec_of_def te_key_def
        key_rank_def)
  then have rule: "rule_names sample_enabled (te_key 0 0 1) AVTAB_ALLOWED 2"
    unfolding rule_names_def deciding_def by (intro bexI [of _ ?n]) (simp_all add: sample_enabled_nodes)
  have key: "te_key 0 0 1 \<in> te_keys sample_enabled (typed 1) (typed 2) 1"
    unfolding te_keys_def mem_Collect_eq
    by (intro exI [of _ 0]) (simp add: attr_bits_def typed_def sample_enabled_def sample_access_def low_bits_bits)
  obtain avd reason where avd: "context_struct_compute_av no_oom sample_enabled (typed 1) (typed 2) 1 4 = Inr (avd, reason)"
    "\<And>b. bit (allowed avd) b \<longleftrightarrow> (\<exists>key \<in> te_keys sample_enabled (typed 1) (typed 2) 1. rule_names sample_enabled key AVTAB_ALLOWED b) \<and>
       (\<forall>c \<in> set (constraints sample_class). bit (permissions c) b \<longrightarrow> constraint_true sample_enabled (typed 1) (typed 2) c) \<and>
       (role_denied sample_enabled (typed 1) (typed 2) 1 \<longrightarrow> b \<noteq> 1 \<and> b \<noteq> 23)"
    "reason = 0 \<longleftrightarrow> 4 AND NOT (allowed avd) = 0"
    by (rule access_decision [OF sample_enabled_decidable, of 4]) blast
  have two: "bit (allowed avd) 2" using rule key avd(2) [of 2] by (auto simp: sample_class_def)
  moreover have "b = 2" if "bit (4 :: u32) b" for b
  proof -
    have "bit (2 ^ 2 :: u32) b" using that by simp
    then show ?thesis unfolding bit_exp_iff by simp
  qed
  ultimately have "reason = 0" using avd(3) unfolding sub_bits by blast
  moreover have "check_assertions no_oom sample_enabled [sample_neverallow 4] = Inr ()"
    by (rule check_assertions_misses_enabled) (simp_all add: sample_enabled_nodes n(1))
  ultimately show ?thesis using avd(1) two by (auto simp: forbids_def sample_neverallow_def low_bits_bits RULE_SELF_def)
qed

end
