(* ===== verification/Hierarchy_Laws.thy ===== *)
theory Hierarchy_Laws
  imports Hierarchy Assertion_Laws
begin

text \<open>
  A type that passes the check of its bounds has no permission that its parent has not got.
\<close>

section \<open>Tables of granted permissions\<close>

text \<open>Every permission in the table satisfies \<open>P\<close>; a table that is not allocated has none.\<close>

definition within :: "(u16 \<Rightarrow> u16 \<Rightarrow> u16 \<Rightarrow> nat \<Rightarrow> bool) \<Rightarrow> avtab \<Rightarrow> bool" where
  "within P h \<longleftrightarrow> (avslots h = None \<or> avtab_wf h) \<and>
     (\<forall>n \<in> set (av_nodes h). \<forall>b. bit (avdata (ndatum n)) b \<longrightarrow>
        P (source_type (nkey n)) (target_type (nkey n)) (target_class (nkey n)) b)"

abbreviation key_holds :: "(u16 \<Rightarrow> u16 \<Rightarrow> u16 \<Rightarrow> nat \<Rightarrow> bool) \<Rightarrow> avtab_key \<Rightarrow> nat \<Rightarrow> bool" where
  "key_holds P k b \<equiv> P (source_type k) (target_type k) (target_class k) b"

lemma search_within:
  assumes "within P h" and "avtab_search h key = Inr (Some d)" and "bit (avdata d) b"
  shows "key_holds P key b"
proof -
  have wf: "avtab_wf h" using assms(1,2) by (auto simp: within_def avtab_search_def)
  obtain n where "find (node_matches key (spec_of key)) (av_chain h key) = Some n" and d: "d = ndatum n"
    using assms(2) by (auto simp: search_find [OF wf])
  then have "n \<in> set (av_chain h key)" "key_rank (nkey n) = key_rank key"
    by (auto simp: find_Some_iff node_matches_rank)
  then show ?thesis
    using assms(1,3) av_chain_matches [OF wf, of n key] by (auto simp: within_def d key_rank_eq)
qed

lemma insert_within:
  assumes "avtab_insert m h key \<lparr>avdata = w, xperms = None\<rparr> = Inr h'" and "within P h" and "specified key = AVTAB_ALLOWED"
    and "\<And>b. bit w b \<Longrightarrow> key_holds P key b"
  shows "within P h'"
proof -
  have wf: "avtab_wf h" using assms(1,2) by (auto simp: within_def avtab_insert_def)
  have "new_node h key \<lparr>avdata = w, xperms = None\<rparr> \<in> {n. nkey n = key \<and> avdata (ndatum n) = w}"
    using assms(3) by (simp add: new_node_def stored_datum_def avtab_consts)
  then show ?thesis
    using insert_search_spec(1) [OF wf assms(1)] assms(2,4) by (auto simp: within_def)
qed

lemma or_data_within:
  assumes "av_or_data h key w = Inr h'" and "within P h" and "\<And>b. bit w b \<Longrightarrow> key_holds P key b"
  shows "within P h'"
proof (cases "avslots h")
  case None
  then show ?thesis using assms by (simp add: av_or_data_def avtab_search_node_def)
next
  case (Some tbl)
  then have wf: "avtab_wf h" using assms(2) by (simp add: within_def)
  show ?thesis
  proof (cases "scan_loop key (spec_of key) (av_chain h key)")
    case Nil
    then show ?thesis using assms by (simp add: av_or_data_def search_node_chain [OF wf])
  next
    case (Cons n ns)
    let ?g = "\<lambda>x. if naddr x = naddr n then x\<lparr>ndatum := (ndatum x)\<lparr>avdata := avdata (ndatum x) OR w\<rparr>\<rparr> else x"
    have "n \<in> set (av_chain h key)" "node_matches key (spec_of key) n"
      using Cons scan_loop_dropWhile [OF av_chain_sorted [OF wf]] by (metis dropWhile_eq_Cons_conv in_set_conv_decomp)+
    then have n: "n \<in> set (av_nodes h)" "key_rank (nkey n) = key_rank key"
      using av_chain_matches [OF wf, of n key] by (auto simp: node_matches_rank)
    then have h': "h' = av_map ?g h"
      using assms(1) Cons by (simp add: av_or_data_def search_node_chain [OF wf] av_modify_map)
    have "in_place ?g" by (simp add: in_place_def)
    then have wf': "avtab_wf h'" unfolding h' using wf by (rule av_map_wf)
    have "key_holds P (nkey (?g x)) b" if "x \<in> set (av_nodes h)" "bit (avdata (ndatum (?g x))) b" for x b
    proof (cases "naddr x = naddr n")
      case True
      have "distinct (map naddr (av_nodes h))" using wf by (auto simp: avtab_wf_def av_nodes_def)
      then have "x = n" using True that(1) n(1) by (auto simp: distinct_map dest: inj_onD)
      then show ?thesis using that(2) n assms(2,3) by (auto simp: within_def bit_or_iff key_rank_eq)
    next
      case False
      then show ?thesis using that assms(2) by (auto simp: within_def)
    qed
    then show ?thesis using wf' unfolding within_def h' av_map_nodes set_map ball_simps(9) by blast
  qed
qed

lemma insert_or_add_within:
  assumes "insert_or_add m h key w = Inr h'" and "within P h" and "specified key = AVTAB_ALLOWED"
    and "\<And>b. bit w b \<Longrightarrow> key_holds P key b"
  shows "within P h'"
  using assms insert_within or_data_within
  by (fastforce simp: insert_or_add_def bounds_insert_helper_def rbind_eq_Inr_iff split: if_splits)

section \<open>Collecting the rules of the parent\<close>

text \<open>A rule for \<open>src\<close> and \<open>tgt\<close> gives type \<open>s\<close> access to type \<open>t\<close>; these are values, counted from one.\<close>

definition gives :: "policydb \<Rightarrow> u16 \<Rightarrow> u16 \<Rightarrow> u16 \<Rightarrow> u16 \<Rightarrow> bool" where
  "gives p src tgt s t \<longleftrightarrow> s \<noteq> 0 \<and> t \<noteq> 0 \<and> stands_for_type p src (unat s - 1) \<and> stands_for_type p tgt (unat t - 1)"

definition maps_ok :: "policydb \<Rightarrow> bool" where
  "maps_ok p \<longleftrightarrow> (\<forall>e \<in> set (attr_type_map p). ebitmap_wf e \<and> ebits e \<subseteq> {..<2 ^ 16 - 1})"

text \<open>The second table and the third one as the false list of a conditional needs them.\<close>

definition tabs_within :: "(u16 \<Rightarrow> u16 \<Rightarrow> u16 \<Rightarrow> nat \<Rightarrow> bool) \<Rightarrow> (u16 \<Rightarrow> u16 \<Rightarrow> u16 \<Rightarrow> nat \<Rightarrow> bool) \<Rightarrow>
    (u16 \<Rightarrow> u16 \<Rightarrow> u16 \<Rightarrow> nat \<Rightarrow> bool) \<Rightarrow> bounds_tabs \<Rightarrow> bool" where
  "tabs_within P G T = (\<lambda>(h, rest). within P h \<and> (case rest of None \<Rightarrow> True | Some (g, th) \<Rightarrow> within G g \<and> within T th))"

lemma bounds_insert_rule_within:
  assumes "bounds_insert_rule m key d t = Inr t'" and "tabs_within P G T t" and "specified key = AVTAB_ALLOWED"
    and "\<And>b. bit (avdata d) b \<Longrightarrow> key_holds P key b" and "\<And>b. key_holds P key b \<Longrightarrow> key_holds T key b \<Longrightarrow> key_holds G key b"
  shows "tabs_within P G T t'"
proof -
  obtain h rest where t: "t = (h, rest)" by (cases t)
  obtain h1 where h1: "insert_or_add (at_site 0 m) h key (avdata d) = Inr h1"
    using assms(1) by (auto simp: bounds_insert_rule_def t rbind_eq_Inr_iff)
  have P: "within P h1" using insert_or_add_within [OF h1 _ assms(3)] assms(2,4) by (auto simp: tabs_within_def t)
  show ?thesis
  proof (cases rest)
    case None
    then show ?thesis using assms(1) P by (auto simp: bounds_insert_rule_def t h1 tabs_within_def)
  next
    case (Some go)
    obtain g th where go: "go = (g, th)" by (cases go)
    obtain dup where dup: "avtab_search th key = Inr dup"
      using assms(1) by (auto simp: bounds_insert_rule_def t h1 Some go rbind_eq_Inr_iff)
    have both: "within G g" "within T th" using assms(2) by (auto simp: tabs_within_def t Some go)
    have "t' = (h1, rest) \<or> (\<exists>x g'. dup = Some x \<and> insert_or_add (at_site 1 m) g key (avdata x AND avdata d) = Inr g' \<and> t' = (h1, Some (g', th)))"
      using assms(1) by (auto simp: bounds_insert_rule_def t h1 Some go dup Let_def rbind_eq_Inr_iff split: option.splits if_splits)
    then show ?thesis
    proof (elim disjE exE conjE)
      assume "t' = (h1, rest)"
      then show ?thesis using P both by (simp add: tabs_within_def Some go)
    next
      fix x g'
      assume x: "dup = Some x" "insert_or_add (at_site 1 m) g key (avdata x AND avdata d) = Inr g'" "t' = (h1, Some (g', th))"
      have "within G g'"
        using assms(4,5) search_within [OF both(2) dup [unfolded x(1)]]
        by (intro insert_or_add_within [OF x(2) both(1) assms(3)]) (simp add: bit_and_iff)
      then show ?thesis using P both by (simp add: tabs_within_def x(3))
    qed
  qed
qed

lemma expand_side_within:
  assumes "expand_side m mk e d t = Inr t'" and "tabs_within P G T t" and "ebitmap_wf e"
    and "\<And>i b. unat i \<in> ebits e \<Longrightarrow> specified (mk i) = AVTAB_ALLOWED \<and> (bit (avdata d) b \<longrightarrow> key_holds P (mk i) b) \<and>
      (key_holds P (mk i) b \<longrightarrow> key_holds T (mk i) b \<longrightarrow> key_holds G (mk i) b)"
  shows "tabs_within P G T t'"
proof -
  obtain is' where is': "ebitmap_positive_bits e = Inr is'" "unat ` set is' = ebits e"
    by (rule ebitmap_positive_bits_spec [OF assms(3)])
  have "for_each (\<lambda>i. bounds_insert_rule (at_site (unat i) m) (mk i) d) is' t = Inr t'"
    using assms(1) by (simp add: expand_side_def is'(1))
  then show ?thesis
    by (rule for_each_keeps) (use assms(2,4) is'(2) bounds_insert_rule_within in blast)+
qed

lemma bounds_expand_rule_within:
  assumes run: "bounds_expand_rule m p parent src tgt cls w t = Inr t'" and t: "tabs_within P G T t" and maps: "maps_ok p"
    and parent: "parent \<noteq> 0" "unat parent < 2 ^ 16"
    and P: "\<And>s u b. gives p src tgt s u \<Longrightarrow> bit w b \<Longrightarrow> P s u cls b" and G: "\<And>s u b. P s u cls b \<Longrightarrow> T s u cls b \<Longrightarrow> G s u cls b"
  shows "tabs_within P G T t'"
proof -
  let ?d = "\<lparr>avdata = w, xperms = None\<rparr>"
  let ?key = "\<lambda>s t. \<lparr>source_type = s, target_type = t, target_class = cls, specified = AVTAB_ALLOWED\<rparr>"
  obtain srcs tgts where srcs: "attr_types p src = Inr srcs" and tgts: "attr_types p tgt = Inr tgts"
    using run unfolding bounds_expand_rule_def Let_def rbind_eq_Inr_iff by blast
  obtain t1 where 1: "(if ebitmap_get_bit srcs (parent - 1)
      then expand_side (at_site 0 m) (\<lambda>i. ?key (ucast parent) (ucast (i + 1))) tgts ?d t else Inr t) = Inr t1"
    and 2: "(if ebitmap_get_bit tgts (parent - 1)
      then expand_side (at_site 1 m) (\<lambda>i. ?key (ucast (i + 1)) (ucast parent)) srcs ?d t1 else Inr t1) = Inr t'"
    using run unfolding bounds_expand_rule_def Let_def srcs tgts rbind_simps rbind_eq_Inr_iff by blast
  have e: "src \<noteq> 0" "tgt \<noteq> 0" "srcs \<in> set (attr_type_map p)" "tgts \<in> set (attr_type_map p)"
    "srcs = attr_type_map p ! (unat src - 1)" "tgts = attr_type_map p ! (unat tgt - 1)"
    using srcs tgts by (auto simp: attr_types_def idx_def split: if_splits)
  then have wf: "ebitmap_wf srcs" "ebitmap_wf tgts" using maps by (auto simp: maps_ok_def)
  have one: "unat (ucast (i + 1) :: u16) = unat i + 1" if "unat i \<in> ebits e" "e \<in> {srcs, tgts}" for i :: u32 and e
  proof -
    have "unat i < 2 ^ 16 - 1" using that maps e(3,4) by (auto simp: maps_ok_def)
    then have "unat (i + 1) = unat i + 1" "unat i + 1 < 2 ^ 16" by (simp_all add: unat_word_ariths)
    then show ?thesis by (simp add: unsigned_ucast_eq take_bit_nat_eq_self)
  qed
  have par: "unat (ucast parent :: u16) = unat (parent - 1) + 1"
    using parent unat_minus_one [of parent] unat_gt_0 [of parent] by (simp add: unsigned_ucast_eq take_bit_nat_eq_self)
  have nz: "x \<noteq> 0 \<and> unat x - 1 = k" if "unat x = k + 1" for x :: u16 and k using that by auto
  have "tabs_within P G T t1"
  proof (cases "ebitmap_get_bit srcs (parent - 1)")
    case True
    then have "unat (parent - 1) \<in> ebits srcs" using wf by (simp add: ebitmap_get_bit_iff ebitmap_wf_ok)
    then have gives: "gives p src tgt (ucast parent) (ucast (i + 1))" if "unat i \<in> ebits tgts" for i :: u32
      using nz [OF par] nz [OF one [OF that]] e that by (simp add: gives_def stands_for_type_def)
    have "expand_side (at_site 0 m) (\<lambda>i. ?key (ucast parent) (ucast (i + 1))) tgts ?d t = Inr t1"
      using 1 unfolding if_P [OF True] .
    then show ?thesis
      by (rule expand_side_within [OF _ t wf(2)]) (simp add: P [OF gives] G)
  next
    case False
    then show ?thesis using 1 t by simp
  qed
  then show ?thesis
  proof (cases "ebitmap_get_bit tgts (parent - 1)")
    case True
    assume t1: "tabs_within P G T t1"
    have "unat (parent - 1) \<in> ebits tgts" using True wf by (simp add: ebitmap_get_bit_iff ebitmap_wf_ok)
    then have gives: "gives p src tgt (ucast (i + 1)) (ucast parent)" if "unat i \<in> ebits srcs" for i :: u32
      using nz [OF par] nz [OF one [OF that]] e that by (simp add: gives_def stands_for_type_def)
    have "expand_side (at_site 1 m) (\<lambda>i. ?key (ucast (i + 1)) (ucast parent)) srcs ?d t1 = Inr t'"
      using 2 unfolding if_P [OF True] .
    then show ?thesis
      by (rule expand_side_within [OF _ t1 wf(1)]) (simp add: P [OF gives] G)
  next
    case False
    assume "tabs_within P G T t1"
    then show ?thesis using 2 False by simp
  qed
qed

text \<open>
  What is collected for the parent: what an allow rule gives, or what rules in both lists of a conditional give, whatever their
  kind (\<^verbatim>\<open>bounds_expand_cond_rules\<close> does not look at it).
\<close>

definition rule_gives :: "policydb \<Rightarrow> avtab_node \<Rightarrow> u16 \<Rightarrow> u16 \<Rightarrow> u16 \<Rightarrow> nat \<Rightarrow> bool" where
  "rule_gives p n s t cls b \<longleftrightarrow> target_class (nkey n) = cls \<and> bit (avdata (ndatum n)) b \<and>
     gives p (source_type (nkey n)) (target_type (nkey n)) s t"

definition allow_rule :: "avtab_node \<Rightarrow> bool" where
  "allow_rule n \<longleftrightarrow> specified (nkey n) AND AVTAB_ALLOWED \<noteq> 0"

definition granted :: "policydb \<Rightarrow> u16 \<Rightarrow> u16 \<Rightarrow> u16 \<Rightarrow> nat \<Rightarrow> bool" where
  "granted p s t cls b \<longleftrightarrow> (\<exists>n \<in> set (av_nodes (te_avtab p)). allow_rule n \<and> rule_gives p n s t cls b)"

definition cond_rule :: "policydb \<Rightarrow> nat list \<Rightarrow> avtab_node \<Rightarrow> bool" where
  "cond_rule p as n \<longleftrightarrow> (\<exists>a \<in> set as. av_deref (te_cond_avtab p) a = Inr n)"

definition in_list :: "policydb \<Rightarrow> nat list \<Rightarrow> u16 \<Rightarrow> u16 \<Rightarrow> u16 \<Rightarrow> nat \<Rightarrow> bool" where
  "in_list p as s t cls b \<longleftrightarrow> (\<exists>n. cond_rule p as n \<and> rule_gives p n s t cls b)"

definition collected :: "policydb \<Rightarrow> u16 \<Rightarrow> u16 \<Rightarrow> u16 \<Rightarrow> nat \<Rightarrow> bool" where
  "collected p s t cls b \<longleftrightarrow> granted p s t cls b \<or>
     (\<exists>c \<in> set (cond_list p). in_list p (true_list c) s t cls b \<and> in_list p (false_list c) s t cls b)"

lemma enumerate_snd: "(i, a) \<in> set (enumerate k xs) \<Longrightarrow> a \<in> set xs"
  by (metis image_eqI list.set_map map_snd_enumerate snd_conv)

lemma cond_rules_within:
  assumes "bounds_expand_cond_rules m p parent as t = Inr t'" and "tabs_within P G T t" and "maps_ok p"
    and "parent \<noteq> 0" "unat parent < 2 ^ 16" and P: "\<And>s u cls b. in_list p as s u cls b \<Longrightarrow> P s u cls b"
    and G: "\<And>s u cls b. P s u cls b \<Longrightarrow> T s u cls b \<Longrightarrow> G s u cls b"
  shows "tabs_within P G T t'"
  using assms(1) unfolding bounds_expand_cond_rules_def
proof (rule for_each_keeps [where I = "tabs_within P G T"])
  show "tabs_within P G T t" by (rule assms(2))
next
  fix x s s'
  assume x: "x \<in> set (enumerate 0 as)" and s: "tabs_within P G T s"
    and step: "(case x of (i, a) \<Rightarrow> \<lambda>t. rbind (av_deref (te_cond_avtab p) a) (\<lambda>n.
           bounds_expand_rule (at_site i m) p parent (source_type (nkey n)) (target_type (nkey n)) (target_class (nkey n))
             (avdata (ndatum n)) t)) s = Inr s'"
  obtain i a where ia: "x = (i, a)" by (cases x)
  obtain n where n: "av_deref (te_cond_avtab p) a = Inr n"
    and run: "bounds_expand_rule (at_site i m) p parent (source_type (nkey n)) (target_type (nkey n)) (target_class (nkey n)) (avdata (ndatum n)) s = Inr s'"
    using step unfolding ia prod.case rbind_eq_Inr_iff by blast
  have "a \<in> set as" using x ia enumerate_snd by metis
  then have listed: "in_list p as s' u (target_class (nkey n)) b" if "gives p (source_type (nkey n)) (target_type (nkey n)) s' u" "bit (avdata (ndatum n)) b" for s' u b
    using n that by (auto simp: in_list_def cond_rule_def rule_gives_def)
  show "tabs_within P G T s'"
    by (rule bounds_expand_rule_within [OF run s assms(3-5)]) (blast intro: P listed, blast intro: G)
qed

lemma new_table_within: "avtab_alloc m no_avtab BOUNDS_AVTAB_SIZE = Inr h \<Longrightarrow> within P h"
  using avtab_alloc_wf [of BOUNDS_AVTAB_SIZE m no_avtab h] by (simp add: within_def BOUNDS_AVTAB_SIZE_def)

lemma no_avtab_within: "within P no_avtab"
  by (simp add: within_def no_avtab_def av_nodes_def)

lemma expand_cond_within:
  assumes run: "expand_cond m p parent c g = Inr (g', ci)" and c: "c \<in> set (cond_list p)" and g: "within (collected p) g"
    and ok: "maps_ok p" "parent \<noteq> 0" "unat parent < 2 ^ 16"
  shows "within (collected p) g' \<and> within (in_list p (true_list c)) (true_avtab ci) \<and>
    within (in_list p (false_list c)) (false_avtab ci) \<and> ci_node ci = c"
proof -
  let ?T = "in_list p (true_list c)" and ?F = "in_list p (false_list c)"
  have conds: "bounds_expand_cond_rules m' p parent as t = Inr t' \<Longrightarrow> tabs_within (in_list p as) G T t \<Longrightarrow>
      (\<And>s u cls b. in_list p as s u cls b \<Longrightarrow> T s u cls b \<Longrightarrow> G s u cls b) \<Longrightarrow> tabs_within (in_list p as) G T t'" for m' as t t' G T
    by (rule cond_rules_within [OF _ _ ok])
  obtain th where th: "(if true_list c = [] then Inr no_avtab
            else rbind (avtab_alloc (at_site 0 m) no_avtab BOUNDS_AVTAB_SIZE) (\<lambda>h.
              rbind (bounds_expand_cond_rules (at_site 1 m) p parent (true_list c) (h, None)) (\<lambda>(h, _). Inr h))) = Inr th"
    and rest: "(if false_list c = [] then Inr (g, \<lparr>true_avtab = th, false_avtab = no_avtab, ci_node = c\<rparr>)
       else rbind (avtab_alloc (at_site 2 m) no_avtab BOUNDS_AVTAB_SIZE) (\<lambda>h.
         rbind (bounds_expand_cond_rules (at_site 3 m) p parent (false_list c) (h, Some (g, th))) (\<lambda>(h, rest).
           Inr (case rest of None \<Rightarrow> g | Some (g, _) \<Rightarrow> g, \<lparr>true_avtab = th, false_avtab = h, ci_node = c\<rparr>)))) = Inr (g', ci)"
    using run unfolding expand_cond_def rbind_eq_Inr_iff by blast
  have "within ?T th"
  proof (cases "true_list c = []")
    case True
    then show ?thesis using th no_avtab_within by simp
  next
    case False
    then obtain h h' r where h: "avtab_alloc (at_site 0 m) no_avtab BOUNDS_AVTAB_SIZE = Inr h"
      "bounds_expand_cond_rules (at_site 1 m) p parent (true_list c) (h, None) = Inr (h', r)" "th = h'"
      using th by (auto simp: rbind_eq_Inr_iff)
    have "tabs_within ?T ?T ?T (h', r)"
      by (rule conds [OF h(2)]) (simp_all add: tabs_within_def new_table_within [OF h(1)])
    then show ?thesis by (simp add: tabs_within_def h(3))
  qed
  then show ?thesis
  proof (cases "false_list c = []")
    case False
    assume T: "within ?T th"
    obtain h h' r where h: "avtab_alloc (at_site 2 m) no_avtab BOUNDS_AVTAB_SIZE = Inr h"
      "bounds_expand_cond_rules (at_site 3 m) p parent (false_list c) (h, Some (g, th)) = Inr (h', r)"
      "g' = (case r of None \<Rightarrow> g | Some (g, _) \<Rightarrow> g)" "ci = \<lparr>true_avtab = th, false_avtab = h', ci_node = c\<rparr>"
      using rest False by (auto simp: rbind_eq_Inr_iff)
    have "tabs_within ?F (collected p) ?T (h', r)"
      using c by (intro conds [OF h(2)]) (auto simp: tabs_within_def new_table_within [OF h(1)] g T collected_def)
    then show ?thesis using g T by (auto simp: tabs_within_def h(3,4) split: option.splits)
  qed (use rest g no_avtab_within in auto)
qed

lemma expand_conds_within:
  assumes "expand_conds m p parent k cs (g, infos) = Inr (g', infos')" and "set cs \<subseteq> set (cond_list p)" and "within (collected p) g"
    and ok: "maps_ok p" "parent \<noteq> 0" "unat parent < 2 ^ 16"
  shows "within (collected p) g'"
  using assms(1-3)
proof (induction cs arbitrary: k g infos)
  case (Cons c cs)
  show ?case
  proof (cases "malloc (at_site (2 * k) m)")
    case True
    then obtain g1 ci where 1: "expand_cond (at_site (2 * k + 1) m) p parent c g = Inr (g1, ci)"
      and 2: "expand_conds m p parent (Suc k) cs (g1, ci # infos) = Inr (g', infos')"
      using Cons.prems(1) by (auto simp: rbind_eq_Inr_iff)
    have "within (collected p) g1" using Cons.prems(2) expand_cond_within [OF 1 _ Cons.prems(3) ok] by simp
    then show ?thesis using Cons.IH [OF 2] Cons.prems(2) by simp
  next
    case False
    then have "g' = avtab_destroy g" using Cons.prems(1) by simp
    then show ?thesis using Cons.prems(3) by (auto simp: within_def avtab_destroy_def av_nodes_def split: option.splits)
  qed
qed simp

text \<open>With memory, there are tables for every conditional.\<close>

definition info_within :: "policydb \<Rightarrow> bounds_cond_info \<Rightarrow> bool" where
  "info_within p ci \<longleftrightarrow> within (in_list p (true_list (ci_node ci))) (true_avtab ci) \<and>
     within (in_list p (false_list (ci_node ci))) (false_avtab ci)"

lemma expand_conds_infos:
  assumes "expand_conds no_oom p parent k cs (g, infos) = Inr (g', infos')" and "set cs \<subseteq> set (cond_list p)" and "within (collected p) g"
    and ok: "maps_ok p" "parent \<noteq> 0" "unat parent < 2 ^ 16"
  shows "set infos \<subseteq> set infos' \<and> (\<forall>c \<in> set cs. \<exists>ci \<in> set infos'. ci_node ci = c \<and> info_within p ci)"
  using assms(1-3)
proof (induction cs arbitrary: k g infos)
  case (Cons c cs)
  obtain g1 ci where 1: "expand_cond no_oom p parent c g = Inr (g1, ci)"
    and 2: "expand_conds no_oom p parent (Suc k) cs (g1, ci # infos) = Inr (g', infos')"
    using Cons.prems(1) by (auto simp: rbind_eq_Inr_iff)
  have ci: "within (collected p) g1" "ci_node ci = c" "info_within p ci"
    using Cons.prems(2) expand_cond_within [OF 1 _ Cons.prems(3) ok] by (auto simp: info_within_def)
  show ?case using Cons.IH [OF 2 _ ci(1)] Cons.prems(2) ci(2,3) by auto
qed simp

lemma parent_rules_within:
  assumes run: "bounds_expand_parent_rules m p parent = Inr (g, infos)" and wf: "avtab_wf (te_avtab p)"
    and ok: "maps_ok p" "parent \<noteq> 0" "unat parent < 2 ^ 16"
  shows "within (collected p) g \<and> (m = no_oom \<longrightarrow> (\<forall>c \<in> set (cond_list p). \<exists>ci \<in> set infos. ci_node ci = c \<and> info_within p ci))"
proof -
  obtain h k h1 where h: "avtab_alloc (at_site 0 m) no_avtab BOUNDS_AVTAB_SIZE = Inr h"
    and map: "avtab_map (te_avtab p) (bounds_expand_rule_callback (at_site 1 m) p parent) (0, h) = Inr (k, h1)"
    and conds: "expand_conds (at_site 2 m) p parent 0 (cond_list p) (h1, []) = Inr (g, infos)"
    using run unfolding bounds_expand_parent_rules_def rbind_eq_Inr_iff split_paired_Ex prod.case by blast
  have "(\<lambda>(_, h). within (collected p) h) (k, h1)"
    using map unfolding avtab_map_nodes [OF wf]
  proof (rule for_each_keeps [where I = "\<lambda>(_, h). within (collected p) h"])
    show "(\<lambda>(_, h). within (collected p) h) (0 :: nat, h)" using new_table_within [OF h] by simp
  next
    fix n s s'
    assume n: "n \<in> set (av_nodes (te_avtab p))" and s: "(\<lambda>(_, h). within (collected p) h) s"
      and step: "bounds_expand_rule_callback (at_site 1 m) p parent (nkey n) (ndatum n) s = Inr s'"
    obtain j u where su: "s = (j, u)" by (cases s)
    show "(\<lambda>(_, h). within (collected p) h) s'"
    proof (cases "specified (nkey n) AND AVTAB_ALLOWED = 0")
      case True
      then show ?thesis using step s by (auto simp: bounds_expand_rule_callback_def su)
    next
      case False
      then obtain u' r where run: "bounds_expand_rule (at_site j (at_site 1 m)) p parent (source_type (nkey n)) (target_type (nkey n))
          (target_class (nkey n)) (avdata (ndatum n)) (u, None) = Inr (u', r)" and s': "s' = (Suc j, u')"
        using step by (auto simp: bounds_expand_rule_callback_def su rbind_eq_Inr_iff)
      have "collected p s u (target_class (nkey n)) b"
        if "gives p (source_type (nkey n)) (target_type (nkey n)) s u" "bit (avdata (ndatum n)) b" for s u b
        using n False that by (auto simp: collected_def granted_def allow_rule_def rule_gives_def)
      then have "tabs_within (collected p) (collected p) (collected p) (u', r)"
        using s by (intro bounds_expand_rule_within [OF run _ ok]) (simp_all add: tabs_within_def su)
      then show ?thesis by (simp add: s' tabs_within_def)
    qed
  qed
  then have h1: "within (collected p) h1" by simp
  have "\<forall>c \<in> set (cond_list p). \<exists>ci \<in> set infos. ci_node ci = c \<and> info_within p ci" if "m = no_oom"
    using expand_conds_infos [OF _ subset_refl h1 ok, of 0 "[]" g infos] conds that by simp
  then show ?thesis using expand_conds_within [OF conds subset_refl h1 ok] by blast
qed

section \<open>Checking the rules of the child\<close>

lemma for_each_measure:
  assumes "for_each f xs s = Inr s'" and "\<And>x s s'. f x s = Inr s' \<Longrightarrow> \<mu> s \<le> (\<mu> s' :: nat)"
  shows "\<mu> s \<le> \<mu> s' \<and> (\<mu> s' = \<mu> s \<longrightarrow> (\<forall>x \<in> set xs. \<exists>s1 s2. f x s1 = Inr s2 \<and> \<mu> s2 = \<mu> s1))"
  using assms(1)
proof (induction xs arbitrary: s)
  case (Cons x xs)
  obtain s1 where s1: "f x s = Inr s1" "for_each f xs s1 = Inr s'" using Cons.prems by (auto split: sum.splits)
  show ?case using Cons.IH [OF s1(2)] assms(2) [OF s1(1)] s1(1) by fastforce
qed simp

definition both_within :: "(u16 \<Rightarrow> u16 \<Rightarrow> u16 \<Rightarrow> nat \<Rightarrow> bool) \<Rightarrow> avtab option \<Rightarrow> avtab \<Rightarrow> bool" where
  "both_within P global h \<longleftrightarrow> within P h \<and> (\<forall>g. global = Some g \<longrightarrow> within P g)"

lemma search_covers:
  assumes "within P h" and "avtab_search h key = Inr d" and "bit w b"
    and "bit (case d of None \<Rightarrow> w | Some d \<Rightarrow> w AND NOT (avdata d)) b \<Longrightarrow> key_holds P key b"
  shows "key_holds P key b"
proof (cases d)
  case (Some x)
  then show ?thesis
    using assms(3,4) search_within [OF assms(1) assms(2) [unfolded Some], of b] bit_imp_le_length [OF assms(3)]
    by (cases "bit (avdata x) b") (auto simp: bit_and_iff bit_not_iff)
qed (use assms in simp)

lemma not_covered:
  assumes "bounds_not_covered global h key w = Inr 0" and P: "both_within P global h" and "bit w b"
  shows "key_holds P key b"
proof -
  obtain d where d: "avtab_search h key = Inr d" using assms(1) by (auto simp: bounds_not_covered_def rbind_eq_Inr_iff)
  define w' where "w' = (case d of None \<Rightarrow> w | Some d \<Rightarrow> w AND NOT (avdata d))"
  have run: "(case global of None \<Rightarrow> Inr w' | Some g \<Rightarrow> if w' = 0 then Inr w'
      else rbind (avtab_search g key) (\<lambda>d. Inr (case d of None \<Rightarrow> w' | Some d \<Rightarrow> w' AND NOT (avdata d)))) = Inr 0"
    using assms(1) unfolding bounds_not_covered_def d rbind_simps Let_def w'_def .
  show ?thesis
  proof (rule search_covers [OF _ d assms(3)])
    show "within P h" using P by (simp add: both_within_def)
  next
    assume "bit (case d of None \<Rightarrow> w | Some d \<Rightarrow> w AND NOT (avdata d)) b"
    then have b: "bit w' b" by (simp only: w'_def)
    then have "w' \<noteq> 0" by auto
    with run obtain g x where g: "global = Some g" "avtab_search g key = Inr x"
      "(case x of None \<Rightarrow> w' | Some d \<Rightarrow> w' AND NOT (avdata d)) = 0"
      by (cases global) (simp_all add: rbind_eq_Inr_iff, blast)
    have "within P g" using P g(1) by (simp add: both_within_def)
    then show "key_holds P key b" by (rule search_covers [OF _ g(2) b]) (simp add: g(3))
  qed
qed

text \<open>The bounds of a type given by its number, counted from zero.\<close>

definition bounded_by :: "policydb \<Rightarrow> nat \<Rightarrow> u16 \<Rightarrow> bool" where
  "bounded_by p i v \<longleftrightarrow> (\<exists>td. type_val_to_struct p ! i = Some td \<and> type_bounds td \<noteq> 0 \<and> v = ucast (type_bounds td))"

lemma add_bad_measure: "bounds_add_bad m r bad = Inr bad' \<Longrightarrow> snd bad < snd bad'"
  by (auto simp: bounds_add_bad_def split: prod.splits if_splits)

lemma check_side_spec:
  assumes run: "check_side m p g h mk rule w i bad = Inr bad'"
  shows "snd bad \<le> snd bad' \<and> (snd bad' = snd bad \<longrightarrow> both_within P g h \<longrightarrow>
    (\<forall>b. bit w b \<longrightarrow> key_holds P (mk (ucast (i + 1))) b) \<or> (\<exists>v. bounded_by p (unat i) v \<and> (\<forall>b. bit w b \<longrightarrow> key_holds P (mk v) b)))"
proof -
  obtain d where d: "bounds_not_covered g h (mk (ucast (i + 1))) w = Inr d"
    using run by (auto simp: check_side_def rbind_eq_Inr_iff)
  show ?thesis
  proof (cases "d = 0")
    case True
    then show ?thesis using run d not_covered by (auto simp: check_side_def)
  next
    case False
    obtain td where td: "idx (type_val_to_struct p) (unat i) = Inr td" using run d False by (auto simp: check_side_def rbind_eq_Inr_iff)
    show ?thesis
    proof (cases "\<exists>x. td = Some x \<and> type_bounds x \<noteq> 0 \<and> bounds_not_covered g h (mk (ucast (type_bounds x))) w = Inr 0")
      case True
      then obtain x where x: "td = Some x" "type_bounds x \<noteq> 0" "bounds_not_covered g h (mk (ucast (type_bounds x))) w = Inr 0" by blast
      then have "bad' = bad" using run d False td by (simp add: check_side_def)
      moreover have "bounded_by p (unat i) (ucast (type_bounds x))" using td x(1,2) by (auto simp: bounded_by_def idx_def split: if_splits)
      ultimately show ?thesis using not_covered [OF x(3)] by blast
    next
      case no: False
      then have "\<exists>r. bounds_add_bad m r bad = Inr bad'"
        using run d False td by (auto simp: check_side_def rbind_eq_Inr_iff split: option.splits if_splits)
      then show ?thesis using add_bad_measure by fastforce
    qed
  qed
qed

lemma type_number:
  fixes t :: u16
  assumes "maps_ok p" and "attr_types p src = Inr e" and "t \<noteq> 0"
  shows "stands_for_type p src (unat t - 1) \<longleftrightarrow> unat (ucast t - 1 :: u32) \<in> ebits e"
    and "src \<noteq> 0 \<and> ebitmap_wf e \<and> ebits e \<subseteq> {..<2 ^ 16 - 1}"
proof -
  have e: "src \<noteq> 0" "e = attr_type_map p ! (unat src - 1)" "e \<in> set (attr_type_map p)"
    using assms(2) by (auto simp: attr_types_def idx_def split: if_splits)
  then show "src \<noteq> 0 \<and> ebitmap_wf e \<and> ebits e \<subseteq> {..<2 ^ 16 - 1}" using assms(1) by (auto simp: maps_ok_def)
  show "stands_for_type p src (unat t - 1) \<longleftrightarrow> unat (ucast t - 1 :: u32) \<in> ebits e"
    using e assms(3) unat_ucast_pred [of t] by (simp add: stands_for_type_def)
qed

text \<open>What the parent has to have: the access itself, or access to the bounds of the other type.\<close>

definition has_or_bounds :: "policydb \<Rightarrow> (u16 \<Rightarrow> nat \<Rightarrow> bool) \<Rightarrow> u16 \<Rightarrow> u32 \<Rightarrow> bool" where
  "has_or_bounds p H t w \<longleftrightarrow> (\<forall>b. bit w b \<longrightarrow> H t b) \<or> (\<exists>v. bounded_by p (unat t - 1) v \<and> (\<forall>b. bit w b \<longrightarrow> H v b))"

lemma ucast_up_down [simp]: "(ucast (ucast t :: u32) :: u16) = t"
  by transfer simp

lemma check_loop:
  assumes "for_each (\<lambda>i bad. if skip i then Inr bad else check_side (st i) p g h mk (rule i) w i bad) xs bad = Inr bad'"
    and "unat ` set xs = ebits e" and "ebits e \<subseteq> {..<2 ^ 16 - 1}"
  shows "snd bad \<le> snd bad' \<and> (snd bad' = snd bad \<longrightarrow> both_within P g h \<longrightarrow>
    (\<forall>t. t \<noteq> 0 \<and> unat (ucast t - 1 :: u32) \<in> ebits e \<and> \<not> skip (ucast t - 1) \<longrightarrow> has_or_bounds p (\<lambda>v. key_holds P (mk v)) t w))"
proof -
  let ?f = "\<lambda>i bad. if skip i then Inr bad else check_side (st i) p g h mk (rule i) w i bad"
  have mono: "snd s \<le> snd s'" if "?f i s = Inr s'" for i s s'
    using that check_side_spec [of "st i" p g h mk "rule i" w i s s'] by (auto split: if_splits)
  have loop: "snd bad \<le> snd bad' \<and> (snd bad' = snd bad \<longrightarrow> (\<forall>i \<in> set xs. \<exists>s1 s2. ?f i s1 = Inr s2 \<and> snd s2 = snd s1))"
    using assms(1) by (rule for_each_measure) (rule mono)
  have "has_or_bounds p (\<lambda>v. key_holds P (mk v)) t w"
    if eq: "snd bad' = snd bad" and h: "both_within P g h" "t \<noteq> 0" "unat (ucast t - 1 :: u32) \<in> ebits e" "\<not> skip (ucast t - 1)" for t :: u16
  proof -
    let ?i = "ucast t - 1 :: u32"
    have "?i \<in> set xs" using h(3) assms(2) by (metis imageE word_unat_eq_iff)
    then obtain s1 s2 where s: "?f ?i s1 = Inr s2" "snd s2 = snd s1" using loop eq by blast
    have "?i + 1 = ucast t" "(ucast (ucast t :: u32) :: u16) = t" "unat ?i = unat t - 1"
      using h(2) unat_ucast_pred [of t] by simp_all
    then show ?thesis using s h(1,4) check_side_spec [of "st ?i" p g h mk "rule ?i" w ?i s1 s2 P] by (auto simp: has_or_bounds_def)
  qed
  then show ?thesis using loop by blast
qed

lemma check_rule_spec:
  assumes run: "bounds_check_rule m p g h child parent src tgt cls w bad = Inr bad'" and maps: "maps_ok p"
    and child: "child \<noteq> 0" "unat child < 2 ^ 16"
  shows "snd bad \<le> snd bad' \<and> (snd bad' = snd bad \<longrightarrow> both_within P g h \<longrightarrow>
    (\<forall>t. gives p src tgt (ucast child) t \<longrightarrow> has_or_bounds p (\<lambda>v. P (ucast parent) v cls) t w) \<and>
    (\<forall>s. gives p src tgt s (ucast child) \<and> s \<noteq> ucast child \<longrightarrow> has_or_bounds p (\<lambda>v. P v (ucast parent) cls) s w))"
proof -
  let ?key = "\<lambda>s t. \<lparr>source_type = s, target_type = t, target_class = cls, specified = AVTAB_ALLOWED\<rparr>"
  let ?rule = "\<lambda>s t d. \<lparr>bad_source = s, bad_target = t, bad_class = cls, bad_data = d\<rparr>"
  obtain srcs tgts where srcs: "attr_types p src = Inr srcs" and tgts: "attr_types p tgt = Inr tgts"
    using run unfolding bounds_check_rule_def Let_def rbind_eq_Inr_iff by blast
  note src = type_number [OF maps srcs] and tgt = type_number [OF maps tgts]
  have wf: "ebitmap_wf srcs" "ebitmap_wf tgts" "ebits srcs \<subseteq> {..<2 ^ 16 - 1}" "ebits tgts \<subseteq> {..<2 ^ 16 - 1}"
    using src(2) [of 1] tgt(2) [of 1] by simp_all
  obtain ss ts where ss: "ebitmap_positive_bits srcs = Inr ss" "unat ` set ss = ebits srcs"
    and ts: "ebitmap_positive_bits tgts = Inr ts" "unat ` set ts = ebits tgts"
    using ebitmap_positive_bits_spec [OF wf(1)] ebitmap_positive_bits_spec [OF wf(2)] by metis
  define c where "c = (ucast child :: u16)"
  have "unat c = unat child" using child(2) by (simp add: c_def unsigned_ucast_eq take_bit_nat_eq_self)
  then have c: "c \<noteq> 0" "ucast c = child" using child by (auto simp: unsigned_ucast_eq take_bit_nat_eq_self word_unat_eq_iff)
  obtain bad1 where 1: "(if ebitmap_get_bit srcs (child - 1)
      then for_each (\<lambda>i. check_side (at_site (2 * unat i) m) p g h (?key (ucast parent)) (?rule (ucast child)) w i) ts bad
      else Inr bad) = Inr bad1"
    and 2: "(if ebitmap_get_bit tgts (child - 1)
      then for_each (\<lambda>i bad. if ucast (ucast (i + 1) :: u16) = child then Inr bad
          else check_side (at_site (2 * unat i + 1) m) p g h (\<lambda>s. ?key s (ucast parent)) (\<lambda>s. ?rule s (ucast child)) w i bad) ss bad1
      else Inr bad1) = Inr bad'"
    using run unfolding bounds_check_rule_def Let_def srcs tgts ss(1) ts(1) rbind_simps rbind_eq_Inr_iff by blast
  have get: "ebitmap_get_bit e (child - 1) \<longleftrightarrow> unat (ucast c - 1 :: u32) \<in> ebits e" if "ebitmap_wf e" for e
    using that by (simp add: c(2) ebitmap_get_bit_iff ebitmap_wf_ok)
  have gives: "gives p src tgt s t \<longleftrightarrow> s \<noteq> 0 \<and> t \<noteq> 0 \<and> unat (ucast s - 1 :: u32) \<in> ebits srcs \<and> unat (ucast t - 1 :: u32) \<in> ebits tgts" for s t
    using src(1) [of s] tgt(1) [of t] unfolding gives_def by blast
  have A: "snd bad \<le> snd bad1 \<and> (snd bad1 = snd bad \<longrightarrow> both_within P g h \<longrightarrow>
      (\<forall>t. gives p src tgt c t \<longrightarrow> has_or_bounds p (\<lambda>v. P (ucast parent) v cls) t w))"
    using 1 check_loop [where skip = "\<lambda>_. False" and st = "\<lambda>i. at_site (2 * unat i) m" and rule = "\<lambda>_. ?rule (ucast child)" and xs = ts
        and e = tgts and g = g and h = h and mk = "?key (ucast parent)" and P = P and p = p and w = w and bad = bad and bad' = bad1] ts(2) wf
    by (auto simp: gives get c(1) split: if_splits)
  have skip: "ucast s = child \<longleftrightarrow> s = c" for s :: u16
    unfolding c(2) [symmetric] by (metis ucast_up_down)
  have B: "snd bad1 \<le> snd bad' \<and> (snd bad' = snd bad1 \<longrightarrow> both_within P g h \<longrightarrow>
      (\<forall>s. gives p src tgt s c \<and> s \<noteq> c \<longrightarrow> has_or_bounds p (\<lambda>v. P v (ucast parent) cls) s w))"
    using 2 check_loop [where skip = "\<lambda>i. ucast (ucast (i + 1) :: u16) = child" and st = "\<lambda>i. at_site (2 * unat i + 1) m"
        and rule = "\<lambda>_ s. ?rule s (ucast child)" and xs = ss and e = srcs and g = g and h = h and mk = "\<lambda>s. ?key s (ucast parent)" and P = P
        and p = p and w = w and bad = bad1 and bad' = bad'] ss(2) wf
    by (auto simp: gives get c(1) skip split: if_splits)
  show ?thesis using A B unfolding c_def by fastforce
qed

text \<open>The number of bad rules never falls, whichever tables are consulted.\<close>

lemma check_side_mono: "check_side m p global cur mk rule w i bad = Inr bad' \<Longrightarrow> snd bad \<le> snd bad'"
  unfolding check_side_def rbind_eq_Inr_iff
  by (auto simp: rbind_eq_Inr_iff dest!: add_bad_measure split: if_splits option.splits)

lemma check_rule_mono:
  assumes "bounds_check_rule m p global cur child parent src tgt cls w bad = Inr bad'"
  shows "snd bad \<le> snd bad'"
proof -
  have loop: "snd s \<le> snd s'"
    if "for_each (\<lambda>i bad. if skip i then Inr bad else check_side (st i) p global cur mk (rule i) w i bad) xs s = Inr s'"
    for skip st mk rule xs s s'
    using that by (rule for_each_measure [THEN conjunct1]) (auto dest: check_side_mono split: if_splits)
  note plain = loop [where skip = "\<lambda>_. False", unfolded if_False]
  show ?thesis using assms unfolding bounds_check_rule_def Let_def
    by (auto simp: rbind_eq_Inr_iff dest!: plain loop split: if_splits)
qed

lemma check_cond_rules_mono:
  "bounds_check_cond_rules m p global cond rules child parent bad = Inr bad' \<Longrightarrow> snd bad \<le> snd bad'"
  unfolding bounds_check_cond_rules_def
  by (rule for_each_measure [THEN conjunct1], assumption) (fastforce simp: rbind_eq_Inr_iff dest: check_rule_mono split: if_splits)

section \<open>Types within their bounds\<close>

text \<open>
  A rule respects the bounds if the parent has what the rule gives to the child, as a source or as a target; access to the
  bounds of the type on the other side will do as well.
\<close>

definition keeps_bounds :: "policydb \<Rightarrow> (u16 \<Rightarrow> u16 \<Rightarrow> u16 \<Rightarrow> nat \<Rightarrow> bool) \<Rightarrow> u32 \<Rightarrow> u32 \<Rightarrow> avtab_node \<Rightarrow> bool" where
  "keeps_bounds p H child parent n \<longleftrightarrow>
     (\<forall>t. gives p (source_type (nkey n)) (target_type (nkey n)) (ucast child) t \<longrightarrow>
        has_or_bounds p (\<lambda>v. H (ucast parent) v (target_class (nkey n))) t (avdata (ndatum n))) \<and>
     (\<forall>s. gives p (source_type (nkey n)) (target_type (nkey n)) s (ucast child) \<and> s \<noteq> ucast child \<longrightarrow>
        has_or_bounds p (\<lambda>v. H v (ucast parent) (target_class (nkey n))) s (avdata (ndatum n)))"

lemma keeps_bounds_mono:
  assumes "keeps_bounds p H child parent n"
    and H: "\<And>s t cls b. s = ucast parent \<or> t = ucast parent \<Longrightarrow> H s t cls b \<Longrightarrow> H' s t cls b"
  shows "keeps_bounds p H' child parent n"
proof -
  let ?cls = "target_class (nkey n)"
  have weaker: "has_or_bounds p B t w" if "has_or_bounds p A t w" "\<And>v b. A v b \<Longrightarrow> B v b" for A B t w
    using that unfolding has_or_bounds_def by blast
  have "has_or_bounds p (\<lambda>v. H' (ucast parent) v ?cls) t w" if "has_or_bounds p (\<lambda>v. H (ucast parent) v ?cls) t w" for t w
    using that by (rule weaker) (simp add: H)
  moreover have "has_or_bounds p (\<lambda>v. H' v (ucast parent) ?cls) t w" if "has_or_bounds p (\<lambda>v. H v (ucast parent) ?cls) t w" for t w
    using that by (rule weaker) (simp add: H)
  ultimately show ?thesis using assms(1) unfolding keeps_bounds_def by blast
qed

lemma within_mono: "within P h \<Longrightarrow> (\<And>s t cls b. P s t cls b \<Longrightarrow> Q s t cls b) \<Longrightarrow> within Q h"
  unfolding within_def by blast

lemma check_rule_keeps:
  assumes "bounds_check_rule m p global h child parent (source_type (nkey n)) (target_type (nkey n)) (target_class (nkey n))
      (avdata (ndatum n)) b1 = Inr b2" and "snd b2 = snd b1" and "maps_ok p" and "child \<noteq> 0" "unat child < 2 ^ 16"
    and "both_within P global h"
  shows "keeps_bounds p P child parent n"
  using check_rule_spec [OF assms(1,3-5)] assms(2,6) unfolding keeps_bounds_def by blast

lemma cond_rules_keep:
  assumes run: "bounds_check_cond_rules m p g h as child parent b1 = Inr b2" and same: "snd b2 = snd b1" and maps: "maps_ok p"
    and child: "child \<noteq> 0" "unat child < 2 ^ 16" and P: "both_within P (Some g) h" and n: "cond_rule p as n" "allow_rule n"
  shows "keeps_bounds p P child parent n"
proof -
  obtain a where a: "a \<in> set as" "av_deref (te_cond_avtab p) a = Inr n" using n(1) by (auto simp: cond_rule_def)
  then obtain i where i: "(i, a) \<in> set (enumerate 0 as)" by (metis imageE list.set_map map_snd_enumerate prod.collapse)
  let ?f = "\<lambda>(i, a) bad. rbind (av_deref (te_cond_avtab p) a) (\<lambda>n.
      if specified (nkey n) AND AVTAB_ALLOWED = 0 then Inr bad
      else bounds_check_rule (at_site i m) p (Some g) h child parent (source_type (nkey n)) (target_type (nkey n))
        (target_class (nkey n)) (avdata (ndatum n)) bad)"
  have mono: "snd s \<le> snd s'" if "?f x s = Inr s'" for x s s'
    using that by (cases x) (auto simp: rbind_eq_Inr_iff dest: check_rule_mono split: if_splits)
  obtain s1 s2 where s: "?f (i, a) s1 = Inr s2" "snd s2 = snd s1"
    using for_each_measure [OF run [unfolded bounds_check_cond_rules_def], of snd] mono same i by blast
  then show ?thesis using n(2) a(2) by (intro check_rule_keeps [OF _ s(2) maps child P]) (simp add: allow_rule_def)
qed

lemma check_type_rules:
  assumes run: "bounds_check_type m p child parent = Inr (bad, 0)"
  obtains g infos k bad1 where "bounds_expand_parent_rules (at_site 0 m) p parent = Inr (g, infos)"
    and "avtab_map (te_avtab p) (bounds_check_rule_callback (at_site 0 (at_site 1 m)) p g child parent) (0, [], 0) = Inr (k, bad1)"
    and "snd bad1 = 0" and "\<forall>ci \<in> set infos. \<exists>m1 m2 b1 b2 b3.
      bounds_check_cond_rules m1 p g (true_avtab ci) (true_list (ci_node ci)) child parent b1 = Inr b2 \<and>
      bounds_check_cond_rules m2 p g (false_avtab ci) (false_list (ci_node ci)) child parent b2 = Inr b3 \<and>
      snd b2 = snd b1 \<and> snd b3 = snd b2"
proof -
  obtain g infos where g: "bounds_expand_parent_rules (at_site 0 m) p parent = Inr (g, infos)"
    and rules: "bounds_check_child_rules (at_site 1 m) p g infos child parent = Inr (bad, 0)"
    using run unfolding bounds_check_type_def rbind_eq_Inr_iff split_paired_Ex prod.case by blast
  let ?f = "\<lambda>(i, ci) bad.
        rbind (bounds_check_cond_rules (at_site (2 * i + 1) (at_site 1 m)) p g (true_avtab ci) (true_list (ci_node ci)) child parent bad) (\<lambda>bad.
          bounds_check_cond_rules (at_site (2 * i + 2) (at_site 1 m)) p g (false_avtab ci) (false_list (ci_node ci)) child parent bad)"
  obtain k bad1 where 1: "avtab_map (te_avtab p) (bounds_check_rule_callback (at_site 0 (at_site 1 m)) p g child parent) (0, [], 0) = Inr (k, bad1)"
    and 2: "for_each ?f (enumerate 0 infos) bad1 = Inr (bad, 0)"
    using rules unfolding bounds_check_child_rules_def rbind_eq_Inr_iff split_paired_Ex prod.case by blast
  have mono: "snd s \<le> snd s'" if "?f x s = Inr s'" for x s s'
    using that by (cases x) (auto simp: rbind_eq_Inr_iff dest!: check_cond_rules_mono)
  have all: "snd bad1 \<le> snd (bad, 0 :: nat) \<and> (snd (bad, 0 :: nat) = snd bad1 \<longrightarrow>
      (\<forall>x \<in> set (enumerate 0 infos). \<exists>s1 s2. ?f x s1 = Inr s2 \<and> snd s2 = snd s1))"
    using 2 by (rule for_each_measure) (rule mono)
  then have none: "snd bad1 = 0" by simp
  then have "snd (bad, 0 :: nat) = snd bad1" by simp
  note each = all [THEN conjunct2, THEN mp, OF this]
  have "\<exists>m1 m2 b1 b2 b3.
      bounds_check_cond_rules m1 p g (true_avtab ci) (true_list (ci_node ci)) child parent b1 = Inr b2 \<and>
      bounds_check_cond_rules m2 p g (false_avtab ci) (false_list (ci_node ci)) child parent b2 = Inr b3 \<and>
      snd b2 = snd b1 \<and> snd b3 = snd b2" if "ci \<in> set infos" for ci
  proof -
    obtain i where "(i, ci) \<in> set (enumerate 0 infos)" using \<open>ci \<in> set infos\<close> by (metis imageE list.set_map map_snd_enumerate prod.collapse)
    from each [THEN bspec, OF this] obtain b1 b3 where "?f (i, ci) b1 = Inr b3" "snd b3 = snd b1" by (elim exE conjE)
    then obtain b2 where b2: "bounds_check_cond_rules (at_site (2 * i + 1) (at_site 1 m)) p g (true_avtab ci) (true_list (ci_node ci)) child parent b1 = Inr b2"
        "bounds_check_cond_rules (at_site (2 * i + 2) (at_site 1 m)) p g (false_avtab ci) (false_list (ci_node ci)) child parent b2 = Inr b3"
      unfolding prod.case rbind_eq_Inr_iff by blast
    from check_cond_rules_mono [OF b2(1)] check_cond_rules_mono [OF b2(2)]
    have "snd b2 = snd b1" "snd b3 = snd b2" using \<open>snd b3 = snd b1\<close> by simp_all
    with b2 show ?thesis by blast
  qed
  then show ?thesis using that [OF g 1 none] by blast
qed

lemma check_type_respects:
  assumes run: "bounds_check_type m p child parent = Inr (bad, 0)" and wf: "avtab_wf (te_avtab p)" and maps: "maps_ok p"
    and child: "child \<noteq> 0" "unat child < 2 ^ 16" and parent: "parent \<noteq> 0" "unat parent < 2 ^ 16"
  shows "\<lbrakk>n \<in> set (av_nodes (te_avtab p)); allow_rule n\<rbrakk> \<Longrightarrow> keeps_bounds p (collected p) child parent n"
    and "\<lbrakk>m = no_oom; c \<in> set (cond_list p); as \<in> {true_list c, false_list c}; cond_rule p as n; allow_rule n\<rbrakk> \<Longrightarrow>
      keeps_bounds p (\<lambda>s t cls b. collected p s t cls b \<or> in_list p as s t cls b) child parent n"
proof -
  from run obtain g infos k bad1 where g: "bounds_expand_parent_rules (at_site 0 m) p parent = Inr (g, infos)"
    and 1: "avtab_map (te_avtab p) (bounds_check_rule_callback (at_site 0 (at_site 1 m)) p g child parent) (0, [], 0) = Inr (k, bad1)"
    and none: "snd bad1 = 0" and conds: "\<forall>ci \<in> set infos. \<exists>m1 m2 b1 b2 b3.
      bounds_check_cond_rules m1 p g (true_avtab ci) (true_list (ci_node ci)) child parent b1 = Inr b2 \<and>
      bounds_check_cond_rules m2 p g (false_avtab ci) (false_list (ci_node ci)) child parent b2 = Inr b3 \<and>
      snd b2 = snd b1 \<and> snd b3 = snd b2"
    by (rule check_type_rules)
  note P = parent_rules_within [OF g wf maps parent]
  {
    assume n: "n \<in> set (av_nodes (te_avtab p))" "allow_rule n"
    let ?cb = "bounds_check_rule_callback (at_site 0 (at_site 1 m)) p g child parent"
    have mono: "snd (snd s) \<le> snd (snd s')" if "?cb (nkey x) (ndatum x) s = Inr s'" for x :: avtab_node and s s'
      using that by (cases s) (auto simp: bounds_check_rule_callback_def rbind_eq_Inr_iff dest!: check_rule_mono split: if_splits)
    have "(snd \<circ> snd) (k, bad1) = (snd \<circ> snd) (0 :: nat, [] :: bad_rule list, 0)" using none by simp
    then obtain s1 s2 where s: "?cb (nkey n) (ndatum n) s1 = Inr s2" "snd (snd s2) = snd (snd s1)"
      using for_each_measure [OF 1 [unfolded avtab_map_nodes [OF wf]], of "snd \<circ> snd"] mono n(1) by fastforce
    then obtain b1 b2 j where b: "bounds_check_rule (at_site j (at_site 0 (at_site 1 m))) p None g child parent (source_type (nkey n))
        (target_type (nkey n)) (target_class (nkey n)) (avdata (ndatum n)) b1 = Inr b2" "snd b2 = snd b1"
      using n(2) by (cases s1) (auto simp: bounds_check_rule_callback_def allow_rule_def rbind_eq_Inr_iff)
    show "keeps_bounds p (collected p) child parent n"
      using P by (intro check_rule_keeps [OF b maps child]) (simp add: both_within_def)
  next
    assume c: "m = no_oom" "c \<in> set (cond_list p)" "as \<in> {true_list c, false_list c}" and n: "cond_rule p as n" "allow_rule n"
    let ?P = "\<lambda>s t cls b. collected p s t cls b \<or> in_list p as s t cls b"
    from P c(1,2) obtain ci where ci: "ci \<in> set infos" "ci_node ci = c" "info_within p ci" by auto
    have tabs: "within ?P g" "within ?P (true_avtab ci) \<or> as \<noteq> true_list c" "within ?P (false_avtab ci) \<or> as \<noteq> false_list c"
      using P ci(2,3) by (auto simp: info_within_def intro: within_mono)
    obtain m1 m2 b1 b2 b3 where b: "bounds_check_cond_rules m1 p g (true_avtab ci) (true_list c) child parent b1 = Inr b2"
      "bounds_check_cond_rules m2 p g (false_avtab ci) (false_list c) child parent b2 = Inr b3" "snd b2 = snd b1" "snd b3 = snd b2"
      using conds ci(1,2) by blast
    show "keeps_bounds p ?P child parent n"
      using cond_rules_keep [OF b(1,3) maps child, of ?P n] cond_rules_keep [OF b(2,4) maps child, of ?P n] c(3) n tabs
      by (auto simp: both_within_def)
  }
qed

text \<open>
  What the policy grants: what an allow rule gives, outside of conditionals or in both lists of one.  The rules of other kinds
  in conditionals must not stand for the parent, since they are collected like allow rules.
\<close>

definition allow_in_list :: "policydb \<Rightarrow> nat list \<Rightarrow> u16 \<Rightarrow> u16 \<Rightarrow> u16 \<Rightarrow> nat \<Rightarrow> bool" where
  "allow_in_list p as s t cls b \<longleftrightarrow> (\<exists>n. cond_rule p as n \<and> allow_rule n \<and> rule_gives p n s t cls b)"

definition granted_or_both :: "policydb \<Rightarrow> u16 \<Rightarrow> u16 \<Rightarrow> u16 \<Rightarrow> nat \<Rightarrow> bool" where
  "granted_or_both p s t cls b \<longleftrightarrow> granted p s t cls b \<or>
     (\<exists>c \<in> set (cond_list p). allow_in_list p (true_list c) s t cls b \<and> allow_in_list p (false_list c) s t cls b)"

definition only_allow_rules_for :: "policydb \<Rightarrow> u32 \<Rightarrow> bool" where
  "only_allow_rules_for p parent \<longleftrightarrow>
     (\<forall>c \<in> set (cond_list p). \<forall>n. cond_rule p (true_list c @ false_list c) n \<and> \<not> allow_rule n \<longrightarrow>
        (\<forall>s t. gives p (source_type (nkey n)) (target_type (nkey n)) s t \<longrightarrow> s \<noteq> ucast parent \<and> t \<noteq> ucast parent))"

lemma in_list_allows:
  assumes "only_allow_rules_for p parent" and "c \<in> set (cond_list p)" and "as \<in> {true_list c, false_list c}"
    and "s = ucast parent \<or> t = ucast parent" and "in_list p as s t cls b"
  shows "allow_in_list p as s t cls b"
proof -
  obtain n where n: "cond_rule p as n" "rule_gives p n s t cls b" using assms(5) by (auto simp: in_list_def)
  then have "cond_rule p (true_list c @ false_list c) n" using assms(3) by (auto simp: cond_rule_def)
  then have "allow_rule n" using assms(1,2,4) n(2) unfolding only_allow_rules_for_def rule_gives_def by metis
  then show ?thesis using n by (auto simp: allow_in_list_def)
qed

lemma collected_allows:
  assumes "only_allow_rules_for p parent" and "s = ucast parent \<or> t = ucast parent" and "collected p s t cls b"
  shows "granted_or_both p s t cls b"
proof (cases "granted p s t cls b")
  case False
  then obtain c where c: "c \<in> set (cond_list p)" "in_list p (true_list c) s t cls b" "in_list p (false_list c) s t cls b"
    using assms(3) by (auto simp: collected_def)
  have "allow_in_list p as s t cls b" if "as \<in> {true_list c, false_list c}" "in_list p as s t cls b" for as
    using in_list_allows [OF assms(1) c(1) that(1) assms(2) that(2)] .
  then show ?thesis using c by (auto simp: granted_or_both_def)
qed (simp add: granted_or_both_def)

text \<open>The rules of a policy that a bounded type is measured by, and what the parent has while each of them is in force.\<close>

definition rule_bounded :: "policydb \<Rightarrow> u32 \<Rightarrow> u32 \<Rightarrow> bool" where
  "rule_bounded p child parent \<longleftrightarrow>
     (\<forall>n \<in> set (av_nodes (te_avtab p)). allow_rule n \<longrightarrow> keeps_bounds p (granted_or_both p) child parent n)"

definition cond_rule_bounded :: "policydb \<Rightarrow> u32 \<Rightarrow> u32 \<Rightarrow> bool" where
  "cond_rule_bounded p child parent \<longleftrightarrow>
     (\<forall>c \<in> set (cond_list p). \<forall>as \<in> {true_list c, false_list c}. \<forall>n. cond_rule p as n \<and> allow_rule n \<longrightarrow>
        keeps_bounds p (\<lambda>s t cls b. granted_or_both p s t cls b \<or> allow_in_list p as s t cls b) child parent n)"

lemma check_type_bounded:
  assumes run: "bounds_check_type m p child parent = Inr (bad, 0)" and wf: "avtab_wf (te_avtab p)" and maps: "maps_ok p"
    and child: "child \<noteq> 0" "unat child < 2 ^ 16" and parent: "parent \<noteq> 0" "unat parent < 2 ^ 16"
    and only: "only_allow_rules_for p parent"
  shows "rule_bounded p child parent \<and> (m = no_oom \<longrightarrow> cond_rule_bounded p child parent)"
proof -
  note respects = check_type_respects [OF run wf maps child parent]
  have "rule_bounded p child parent" unfolding rule_bounded_def
    by (blast intro: keeps_bounds_mono respects(1) collected_allows [OF only])
  moreover have "keeps_bounds p (\<lambda>s t cls b. granted_or_both p s t cls b \<or> allow_in_list p as s t cls b) child parent n"
    if "m = no_oom" and c: "c \<in> set (cond_list p)" "as \<in> {true_list c, false_list c}" "cond_rule p as n" "allow_rule n" for c as n
    by (rule keeps_bounds_mono [OF respects(2) [OF that]])
      (use collected_allows [OF only] in_list_allows [OF only c(1,2)] in blast)
  ultimately show ?thesis unfolding cond_rule_bounded_def by blast
qed

text \<open>
  C3: When \<^verbatim>\<open>bounds_check_types\<close> accepts a policy, no allow rule gives a bounded type more than its parent
  has.  For every type with bounds, every allow rule outside of the conditionals that stands for an
  access of the type, and every permission of the rule, the policy grants the parent the same
  access (to the other type or to the bounds of that type), by an allow rule or by allow rules in
  both lists of a conditional.  The same holds of the allow rules in the lists of conditionals, where the parent
  may also be given the access by an allow rule in the same list; these rules are checked only if no
  allocation fails (otherwise the check goes on without them, see \<^verbatim>\<open>expand_conds\<close>).  Rules of other kinds in
  conditionals (\<^verbatim>\<open>auditallow\<close>, \<^verbatim>\<open>dontaudit\<close>, type rules) must not stand for the parent: the code takes
  them for permissions of the parent.  Values of types fit into 16 bits, and the tables are well formed.
\<close>

theorem type_bounds_respected:
  assumes run: "bounds_check_types m p = Inr ()" and wf: "avtab_wf (te_avtab p)" and maps: "maps_ok p"
    and h: "table (p_types p) = Some h" "length (htable h) = unat (hsize h)"
    and td: "(name, td) \<in> set (entries h)" "type_value td \<noteq> 0" "unat (type_value td) < 2 ^ 16"
    and bound: "type_bounds td \<noteq> 0" "unat (type_bounds td) < 2 ^ 16"
    and only: "only_allow_rules_for p (type_bounds td)"
  shows "rule_bounded p (type_value td) (type_bounds td) \<and>
    (m = no_oom \<longrightarrow> cond_rule_bounded p (type_value td) (type_bounds td))"
proof -
  let ?cb = "bounds_check_type_callback m p"
  obtain k where k: "for_each (\<lambda>e. ?cb (fst e) (snd e)) (entries h) (0, 0) = Inr (k, 0)"
    using run h by (auto simp: bounds_check_types_def rbind_eq_Inr_iff hashtab_map_entries split: if_splits)
  have mono: "snd s \<le> snd s'" if "?cb (fst e) (snd e) s = Inr s'" for e s s'
    using that by (cases s) (auto simp: bounds_check_type_callback_def rbind_eq_Inr_iff split: if_splits)
  obtain s1 s2 where s: "?cb name td s1 = Inr s2" "snd s2 = snd s1"
    using for_each_measure [OF k, of snd] mono td(1) by fastforce
  then obtain j bad where j: "bounds_check_type (at_site j m) p (type_value td) (type_bounds td) = Inr (bad, 0)"
    using bound(1) by (cases s1; cases s2) (auto simp: bounds_check_type_callback_def rbind_eq_Inr_iff)
  show ?thesis using check_type_bounded [OF j wf maps td(2,3) bound only] by auto
qed

text \<open>
  The types 1 and 2 belong to the attribute that is the source of a rule, which is there outside of
  conditionals and, with another permission, in the true list of a conditional; type 1 bounds type 2.
\<close>

definition bounds_rule :: avtab_node where
  "bounds_rule = sample_rule\<lparr>nkey := \<lparr>source_type = 1, target_type = 2, target_class = 1, specified = AVTAB_ALLOWED\<rparr>\<rparr>"

definition bounds_cond_rule :: avtab_node where
  "bounds_cond_rule = bounds_rule\<lparr>ndatum := \<lparr>avdata = 8, xperms = None\<rparr>\<rparr>"

definition one_rule :: "avtab_node \<Rightarrow> avtab" where
  "one_rule n = empty_avtab\<lparr>avslots := Some [[n]], avnel := 1, anext := 1\<rparr>"

definition bounds_policy :: policydb where
  "bounds_policy = zero_policydb\<lparr>te_avtab := one_rule bounds_rule, te_cond_avtab := one_rule bounds_cond_rule,
     cond_list := [empty_cond_node\<lparr>true_list := [0]\<rparr>],
     attr_type_map := [low_bits 3, low_bits 4],
     p_types := one_slot [(''t'', (sample_type 2 0 ebitmap_init)\<lparr>type_bounds := 1\<rparr>)]\<rparr>"

lemma bounds_policy_accepted: "bounds_check_types no_oom bounds_policy = Inr ()"
  by code_simp

lemma bounds_policy_cond_rule: "cond_rule bounds_policy as n \<longleftrightarrow> 0 \<in> set as \<and> n = bounds_cond_rule"
  by (auto simp: cond_rule_def av_deref_def bounds_policy_def one_rule_def av_nodes_def bounds_cond_rule_def bounds_rule_def sample_rule_def
      split: if_splits option.splits)

theorem type_bounds_respected_witness:
  "rule_bounded bounds_policy 2 1 \<and> cond_rule_bounded bounds_policy 2 1 \<and>
   bounds_rule \<in> set (av_nodes (te_avtab bounds_policy)) \<and> gives bounds_policy 1 2 2 3 \<and>
   (\<exists>c \<in> set (cond_list bounds_policy). cond_rule bounds_policy (true_list c) bounds_cond_rule)"
proof -
  let ?td = "(sample_type 2 0 ebitmap_init)\<lparr>type_bounds := 1\<rparr>"
  have only: "only_allow_rules_for bounds_policy (type_bounds ?td)"
    by (auto simp: only_allow_rules_for_def bounds_policy_cond_rule allow_rule_def bounds_cond_rule_def bounds_rule_def AVTAB_ALLOWED_def)
  have "rule_bounded bounds_policy (type_value ?td) (type_bounds ?td) \<and>
      (no_oom = no_oom \<longrightarrow> cond_rule_bounded bounds_policy (type_value ?td) (type_bounds ?td))"
    by (rule type_bounds_respected [OF bounds_policy_accepted _ _ _ _ _ _ _ _ _ only,
          where name = "''t''" and h = "the (table (p_types bounds_policy))"])
      (use low_bits_wf [of 3] low_bits_wf [of 4] av_home_less [of "te_avtab bounds_policy" "nkey bounds_rule"] in
       \<open>simp_all add: bounds_policy_def one_rule_def bounds_rule_def avtab_wf_def empty_avtab_def maps_ok_def low_bits_bits one_slot_def
          entries_def sample_type_def av_nodes_def sample_rule_def AVTAB_ALLOWED_def\<close>)
  moreover have "gives bounds_policy 1 2 2 3" by (simp add: gives_def stands_for_type_def bounds_policy_def low_bits_bits)
  ultimately show ?thesis
    by (simp add: sample_type_def bounds_policy_cond_rule) (simp add: bounds_policy_def one_rule_def av_nodes_def)
qed

end
