(* ===== verification/Expand_Avtab.thy ===== *)
theory Expand_Avtab
  imports Expand_Sets Conditional
begin

text \<open>
  The expansion of attributes in the rule tables of a kernel policy, \<^verbatim>\<open>src/expand.c\<close>: every rule for
  attributes becomes rules for the types they stand for.  The writer needs it for the formats before
  attributes could be written.
\<close>

definition MAX_AVTAB_SIZE :: u32 where "MAX_AVTAB_SIZE = push_bit 1 MAX_AVTAB_HASH_BUCKETS"

section \<open>Inserting a rule\<close>

lemma search_next_shorter: "length (avtab_search_node_next (n # ns) sp) < Suc (length ns)"
  using scan_loop_length by (auto simp: avtab_search_node_next_def le_imp_less_Suc)

text \<open>The search for the node with the extended permissions of the same kind and driver.\<close>

function xperms_node :: "avtab_datum \<Rightarrow> u16 \<Rightarrow> avtab_node list \<Rightarrow> avtab_node list result" where
  "xperms_node d sp ns =
     (case ns of
        [] \<Rightarrow> Inr []
      | n # _ \<Rightarrow>
          (case (xperms (ndatum n), xperms d) of
             (Some x, Some y) \<Rightarrow>
               if xspecified x = xspecified y \<and> driver x = driver y then Inr ns
               else xperms_node d sp (avtab_search_node_next ns (ucast sp))
           | _ \<Rightarrow> Inl UB))"
  by pat_completeness auto
termination
  by (relation "measure (\<lambda>(d, sp, ns). length ns)") (simp_all add: search_next_shorter)

declare xperms_node.simps [simp del]

text \<open>What a second rule adds to the datum of a rule: for the access vectors, and for the extended permissions.\<close>

definition add_av :: "u16 \<Rightarrow> avtab_datum \<Rightarrow> avtab_datum \<Rightarrow> avtab_datum result" where
  "add_av sp d avd =
     (if sp = AVTAB_ALLOWED \<or> sp = AVTAB_AUDITALLOW then Inr (avd\<lparr>avdata := avdata avd OR avdata d\<rparr>)
      else if sp = AVTAB_AUDITDENY then Inr (avd\<lparr>avdata := avdata avd AND avdata d\<rparr>)
      else Inl STATUS_ERR)"

definition add_xperms :: "avtab_datum \<Rightarrow> avtab_datum \<Rightarrow> avtab_datum result" where
  "add_xperms d avd =
     (case (xperms avd, xperms d) of
        (Some x, Some y) \<Rightarrow> Inr (avd\<lparr>xperms := Some (x\<lparr>perms := map2 (OR) (perms x) (perms y)\<rparr>)\<rparr>)
      | _ \<Rightarrow> Inl UB)"

definition set_datum :: "avtab_node \<Rightarrow> avtab_datum result \<Rightarrow> avtab \<Rightarrow> avtab result" where
  "set_datum n r a = rbind r (\<lambda>d. av_modify (\<lambda>n. n\<lparr>ndatum := d\<rparr>) (naddr n) a)"

text \<open>The node that has the kind of the rule, and is enabled or not as the rule is.\<close>

definition same_rule :: "avtab_key \<Rightarrow> avtab_node list \<Rightarrow> avtab_node option" where
  "same_rule k ns =
     (case ns of
        [] \<Rightarrow> None
      | n # _ \<Rightarrow> if specified k AND AVTAB_ENABLED \<noteq> specified (nkey n) AND AVTAB_ENABLED then None else Some n)"

definition expand_avtab_insert :: "alloc \<Rightarrow> avtab_key \<Rightarrow> avtab_datum \<Rightarrow> avtab \<Rightarrow> avtab result" where
  "expand_avtab_insert m k d a =
     rbind (avtab_search_node a k) (\<lambda>ns.
     rbind (if specified k AND AVTAB_XPERMS \<noteq> 0 then xperms_node d (specified k) ns else Inr ns) (\<lambda>ns.
       case same_rule k ns of
         None \<Rightarrow>
           rbind (avtab_insert_nonunique (at_site (anext a) m) a k d) (\<lambda>r.
             case r of None \<Rightarrow> Inl STATUS_ERR | Some (a, _) \<Rightarrow> Inr a)
       | Some n \<Rightarrow>
           let sp = spec_of k in
           set_datum n
             (if sp = AVTAB_XPERMS_ALLOWED \<or> sp = AVTAB_XPERMS_AUDITALLOW \<or> sp = AVTAB_XPERMS_DONTAUDIT
              then add_xperms d (ndatum n) else add_av sp d (ndatum n)) a))"

section \<open>Expanding a rule\<close>

definition is_single :: "type_datum option \<Rightarrow> bool" where
  "is_single t = (case t of None \<Rightarrow> False | Some t \<Rightarrow> type_flavor t \<noteq> TYPE_ATTRIB)"

definition type_entry :: "'a list \<Rightarrow> u16 \<Rightarrow> 'a result" where
  "type_entry xs v = idx xs (unat (ucast v - 1 :: u32))"

text \<open>The values of the types that an attribute stands for.\<close>

definition attr_values :: "policydb \<Rightarrow> u16 \<Rightarrow> u16 list result" where
  "attr_values p v =
     rbind (type_entry (attr_type_map p) v) (\<lambda>e.
       rbind (ebitmap_positive_bits e) (\<lambda>is. Inr (map (\<lambda>i. ucast (i + 1)) is)))"

definition expand_rule :: "policydb \<Rightarrow> avtab_key \<Rightarrow> (avtab_key \<Rightarrow> 's \<Rightarrow> 's result) \<Rightarrow> 's \<Rightarrow> 's result" where
  "expand_rule p k ins s =
     rbind (type_entry (type_val_to_struct p) (source_type k)) (\<lambda>stype.
     rbind (type_entry (type_val_to_struct p) (target_type k)) (\<lambda>ttype.
       if is_single stype \<and> is_single ttype then ins k s
       else if is_single stype
       then rbind (attr_values p (target_type k)) (\<lambda>js. for_each (\<lambda>j. ins (k\<lparr>target_type := j\<rparr>)) js s)
       else if is_single ttype
       then rbind (attr_values p (source_type k)) (\<lambda>is. for_each (\<lambda>i. ins (k\<lparr>source_type := i\<rparr>)) is s)
       else rbind (attr_values p (source_type k)) (\<lambda>is.
         for_each (\<lambda>i s. rbind (attr_values p (target_type k)) (\<lambda>js.
             for_each (\<lambda>j. ins (k\<lparr>source_type := i, target_type := j\<rparr>)) js s)) is s)))"

definition expand_avtab_node :: "alloc \<Rightarrow> policydb \<Rightarrow> avtab_key \<Rightarrow> avtab_datum \<Rightarrow> avtab \<Rightarrow> avtab result" where
  "expand_avtab_node m p k d = expand_rule p k (\<lambda>k. expand_avtab_insert m k d)"

definition expand_avtab :: "alloc \<Rightarrow> policydb \<Rightarrow> avtab \<Rightarrow> avtab \<Rightarrow> avtab result" where
  "expand_avtab m p a expa =
     rbind (avtab_alloc (at_site 0 m) expa MAX_AVTAB_SIZE) (avtab_map a (expand_avtab_node (at_site 1 m) p))"

section \<open>Conditional rules\<close>

text \<open>The list is built from its end.\<close>

definition expand_cond_insert :: "alloc \<Rightarrow> avtab_key \<Rightarrow> avtab_datum \<Rightarrow> nat list \<times> avtab \<Rightarrow> (nat list \<times> avtab) result" where
  "expand_cond_insert m k d = (\<lambda>(l, expa).
     rbind (avtab_search_node expa k) (\<lambda>ns.
       case same_rule k ns of
         None \<Rightarrow>
           rbind (avtab_insert_nonunique (at_site (anext expa) (at_site 0 m)) expa k d) (\<lambda>r.
             case r of
               None \<Rightarrow> Inl STATUS_ERR
             | Some (a, ad) \<Rightarrow>
                 rbind (av_modify (\<lambda>n. n\<lparr>parse_context := 1\<rparr>) ad a) (\<lambda>a.
                   if \<not> malloc (at_site (anext expa) (at_site 1 m)) then Inl STATUS_ERR else Inr (ad # l, a)))
       | Some n \<Rightarrow> rbind (set_datum n (add_av (spec_of k) d (ndatum n)) expa) (\<lambda>a. Inr (l, a))))"

definition expand_cond_av_node :: "alloc \<Rightarrow> policydb \<Rightarrow> avtab_node \<Rightarrow> nat list \<times> avtab \<Rightarrow> (nat list \<times> avtab) result" where
  "expand_cond_av_node m p node = expand_rule p (nkey node) (\<lambda>k. expand_cond_insert m k (ndatum node))"

text \<open>The rules of the list \<open>l\<close> are nodes of the table \<open>a\<close>.\<close>

definition expand_cond_av_list :: "alloc \<Rightarrow> policydb \<Rightarrow> avtab \<Rightarrow> nat list \<Rightarrow> avtab \<Rightarrow> (nat list \<times> avtab) result" where
  "expand_cond_av_list m p a l expa =
     rbind (avtab_alloc (at_site 0 m) expa MAX_AVTAB_SIZE) (\<lambda>expa.
       for_each (\<lambda>ad s. rbind (av_deref a ad) (\<lambda>n. expand_cond_av_node (at_site 1 m) p n s)) l ([], expa))"

end
