(* ===== verification/Policydb_Write.thy ===== *)
theory Policydb_Write
  imports Policydb_File Expand_Avtab
begin

text \<open>
  Writing a policy, \<^verbatim>\<open>src/write.c\<close>.  A writer takes the file and returns it with what was written; after
  an error what has been written is lost.  Warnings are left out.  A C string is its characters, which
  are written as bytes.
\<close>

definition string_bytes :: "string \<Rightarrow> u8 list" where
  "string_bytes s = map of_char s"

definition put_words :: "u32 list \<Rightarrow> policy_file \<Rightarrow> policy_file result" where
  "put_words ws = put_items (concat (map cpu_to_le32 ws)) 4 (length ws)"

definition put_name :: "string \<Rightarrow> policy_file \<Rightarrow> policy_file result" where
  "put_name s = put_items (string_bytes s) 1 (length s)"

text \<open>A name whose length was stored in 32 bits.\<close>

definition put_name32 :: "string \<Rightarrow> policy_file \<Rightarrow> policy_file result" where
  "put_name32 s = put_items (string_bytes s) 1 (unat (of_nat (length s) :: u32))"

abbreviation strlen32 :: "string \<Rightarrow> u32" where
  "strlen32 s \<equiv> of_nat (length s)"

abbreviation count32 :: "'a list \<Rightarrow> u32" where
  "count32 xs \<equiv> of_nat (length xs)"

text \<open>One writer after the other, a writer that is called under a condition, and one of an object that may be absent.\<close>

definition in_order :: "(policy_file \<Rightarrow> policy_file result) list \<Rightarrow> policy_file \<Rightarrow> policy_file result" where
  "in_order ws = for_each (\<lambda>w. w) ws"

definition put_if :: "bool \<Rightarrow> (policy_file \<Rightarrow> policy_file result) \<Rightarrow> policy_file \<Rightarrow> policy_file result" where
  "put_if c w = (if c then w else Inr)"

definition put_object :: "('a \<Rightarrow> policy_file \<Rightarrow> policy_file result) \<Rightarrow> 'a option \<Rightarrow> policy_file \<Rightarrow> policy_file result" where
  "put_object w x = (case x of None \<Rightarrow> (\<lambda>_. Inl UB) | Some x \<Rightarrow> w x)"

section \<open>Rule tables\<close>

text \<open>The array of \<^verbatim>\<open>write.c\<close>, without extended permissions.\<close>

definition write_spec_order :: "u16 list" where
  "write_spec_order = [AVTAB_ALLOWED, AVTAB_AUDITDENY, AVTAB_AUDITALLOW, AVTAB_TRANSITION, AVTAB_CHANGE, AVTAB_MEMBER]"

definition old_avtab :: "policydb \<Rightarrow> bool" where
  "old_avtab p \<longleftrightarrow> policy_type p = POLICY_KERN \<and> policyvers p < POLICYDB_VERSION_AVTAB"

definition old_spec :: "avtab_node \<Rightarrow> u32" where
  "old_spec n =
     ucast (specified (nkey n) AND NOT AVTAB_ENABLED) OR
     (if specified (nkey n) AND AVTAB_ENABLED \<noteq> 0 then AVTAB_ENABLED_OLD else 0)"

text \<open>The kinds of the rules with the same key, and their number.\<close>

function similar_specs :: "u32 \<Rightarrow> avtab_node list \<Rightarrow> u32 \<times> u32 \<Rightarrow> u32 \<times> u32" where
  "similar_specs lookup ns (val, cnt) =
     (case ns of
        [] \<Rightarrow> (val, cnt)
      | n # _ \<Rightarrow> similar_specs lookup (avtab_search_node_next ns lookup) (val OR old_spec n, cnt + 1))"
  by pat_completeness auto
termination
  by (relation "measure (\<lambda>(lookup, ns, s). length ns)") (simp_all add: search_next_shorter)

declare similar_specs.simps [simp del]

text \<open>The state while the words of an item are collected: the words, how many are missing, the count of items, and the table.\<close>

type_synonym item_state = "u32 list \<times> u32 \<times> u32 option \<times> avtab"

definition mark_merged :: "avtab_node \<Rightarrow> avtab \<Rightarrow> avtab result" where
  "mark_merged n = av_modify (\<lambda>n. n\<lparr>merged := 1\<rparr>) (naddr n)"

definition similar_datum :: "avtab_node list \<Rightarrow> u32 \<Rightarrow> u16 \<Rightarrow> item_state \<Rightarrow> item_state result" where
  "similar_datum cur val sp = (\<lambda>(ws, cnt, ne, a).
     if val AND ucast sp = 0 then Inr (ws, cnt, ne, a)
     else
       let own = (case cur of [] \<Rightarrow> False | n # _ \<Rightarrow> specified (nkey n) AND sp \<noteq> 0);
           node = (if own then cur else avtab_search_node_next cur (ucast sp));
           ne = (if own then ne else map_option (\<lambda>x. x - 1) ne) in
       case node of
         [] \<Rightarrow> Inl STATUS_ERR
       | n # _ \<Rightarrow> rbind (mark_merged n a) (\<lambda>a. Inr (ws @ [avdata (ndatum n)], cnt - 1, ne, a)))"

text \<open>
  An item of the old format.  \<open>cur\<close> is the list from the node on.  The first word is the number of those
  that follow.
\<close>

definition old_format_item ::
  "avtab_node list \<Rightarrow> bool \<Rightarrow> bool \<Rightarrow> policy_file \<times> u32 option \<times> avtab \<Rightarrow> (policy_file \<times> u32 option \<times> avtab) result"
where
  "old_format_item cur merge commit = (\<lambda>(fp, ne, a).
     case cur of
       [] \<Rightarrow> Inl UB
     | n # _ \<Rightarrow>
         if merge \<and> merged n \<noteq> 0 then Inr (fp, ne, a)
         else
           let val = old_spec n in
           rbind (if \<not> merge then Inr (val, 1)
                  else if val AND ucast AVTAB_AV \<noteq> 0
                  then Inr (similar_specs (ucast AVTAB_AV) (avtab_search_node_next cur (ucast AVTAB_AV)) (val, 1))
                  else if val AND ucast AVTAB_TYPE \<noteq> 0
                  then Inr (similar_specs (ucast AVTAB_TYPE) (avtab_search_node_next cur (ucast AVTAB_TYPE)) (val, 1))
                  else Inl STATUS_ERR) (\<lambda>(val, cnt).
           if val AND ucast (AVTAB_AV OR AVTAB_TYPE) = 0 then Inl STATUS_ERR
           else if val AND ucast AVTAB_AV \<noteq> 0 \<and> val AND ucast AVTAB_TYPE \<noteq> 0 then Inl STATUS_ERR
           else
             let ws = [ucast (source_type (nkey n)), ucast (target_type (nkey n)), ucast (target_class (nkey n)), val] in
             rbind (if merge then for_each (similar_datum cur val) write_spec_order (ws, cnt, ne, a)
                    else rbind (mark_merged n a) (\<lambda>a. Inr (ws @ [avdata (ndatum n)], cnt - 1, ne, a))) (\<lambda>(ws, cnt, ne, a).
               if cnt \<noteq> 0 then Inl STATUS_ERR
               else rbind (put_if commit (put_words (count32 ws # ws)) fp) (\<lambda>fp. Inr (fp, ne, a)))))"

definition new_format_item :: "policydb \<Rightarrow> avtab_node \<Rightarrow> policy_file \<Rightarrow> policy_file result" where
  "new_format_item p n =
     (let k = nkey n in
      in_order
       [put_items (concat (map (cpu_to_le 2) [source_type k, target_type k, target_class k, specified k])) 2 4,
        (if specified k AND AVTAB_XPERMS \<noteq> 0
         then if policyvers p < POLICYDB_VERSION_XPERMS_IOCTL \<or> target_platform p \<noteq> SEPOL_TARGET_SELINUX then (\<lambda>_. Inl STATUS_ERR)
              else put_object (\<lambda>x. in_order
                [put_items [xspecified x] 1 1, put_items [driver x] 1 1, put_items (concat (map cpu_to_le32 (perms x))) 4 8])
                (xperms (ndatum n))
         else put_words [avdata (ndatum n)])])"

definition avtab_write_item ::
  "policydb \<Rightarrow> avtab_node list \<Rightarrow> bool \<Rightarrow> bool \<Rightarrow> policy_file \<times> u32 option \<times> avtab \<Rightarrow> (policy_file \<times> u32 option \<times> avtab) result"
where
  "avtab_write_item p cur merge commit s =
     (if old_avtab p then old_format_item cur merge commit s
      else case (cur, s) of
          ([], _) \<Rightarrow> Inl UB
        | (n # _, (fp, ne, a)) \<Rightarrow> rbind (new_format_item p n fp) (\<lambda>fp. Inr (fp, ne, a)))"

definition avtab_reset_merged :: "avtab \<Rightarrow> avtab" where
  "avtab_reset_merged a = a\<lparr>avslots := map_option (map (map (\<lambda>n. n\<lparr>merged := 0\<rparr>))) (avslots a)\<rparr>"

text \<open>The list from a node on, as it is in the table now.\<close>

definition chain_from :: "avtab \<Rightarrow> nat \<Rightarrow> avtab_node \<Rightarrow> avtab_node list" where
  "chain_from a i n = dropWhile (\<lambda>k. naddr k \<noteq> naddr n) (case avslots a of None \<Rightarrow> [] | Some tbl \<Rightarrow> tbl ! i)"

definition write_items ::
  "policydb \<Rightarrow> bool \<Rightarrow> policy_file \<times> u32 option \<times> avtab \<Rightarrow> (policy_file \<times> u32 option \<times> avtab) result"
where
  "write_items p commit = (\<lambda>(fp, ne, a).
     for_each (\<lambda>i (fp, ne, a). case avslots a of
           None \<Rightarrow> Inl UB
         | Some tbl \<Rightarrow> rbind (idx tbl (unat i)) (\<lambda>chain.
             for_each (\<lambda>n (fp, ne, a). avtab_write_item p (chain_from a (unat i) n) True commit (fp, ne, a)) chain (fp, ne, a)))
       (upto32 (nslot a)) (fp, ne, a))"

text \<open>The old format is written from a table without attributes, in two passes: the first one counts the items.\<close>

definition avtab_write :: "alloc \<Rightarrow> policydb \<Rightarrow> avtab \<Rightarrow> policy_file \<Rightarrow> policy_file result" where
  "avtab_write m p a fp =
     (if old_avtab p
      then rbind (expand_avtab m p a (avtab_init zero_avtab)) (\<lambda>expa.
        rbind (write_items p False (fp, Some (avnel expa), avtab_reset_merged expa)) (\<lambda>(fp, ne, expa).
        rbind (put_words [case ne of None \<Rightarrow> 0 | Some x \<Rightarrow> x] fp) (\<lambda>fp.
        rbind (write_items p True (fp, None, avtab_reset_merged expa)) (\<lambda>(fp, _, _). Inr fp))))
      else rbind (put_words [avnel a] fp) (\<lambda>fp.
        rbind (write_items p True (fp, Some (avnel a), a)) (\<lambda>(fp, _, _). Inr fp)))"

section \<open>MLS\<close>

definition mls_write_semantic_level_helper :: "mls_semantic_level \<Rightarrow> policy_file \<Rightarrow> policy_file result" where
  "mls_write_semantic_level_helper l =
     in_order [put_words [ssens l, count32 (scat l)], for_each (\<lambda>c. put_words [slow c, shigh c]) (scat l)]"

definition mls_write_semantic_range_helper :: "mls_semantic_range \<Rightarrow> policy_file \<Rightarrow> policy_file result" where
  "mls_write_semantic_range_helper r =
     in_order [mls_write_semantic_level_helper (srlow r), mls_write_semantic_level_helper (srhigh r)]"

definition mls_write_level :: "mls_level \<Rightarrow> policy_file \<Rightarrow> policy_file result" where
  "mls_write_level l = in_order [put_words [sens l], ebitmap_write (cat l)]"

definition mls_write_range_helper :: "mls_range \<Rightarrow> policy_file \<Rightarrow> policy_file result" where
  "mls_write_range_helper r =
     (let eq = mls_level_eq (high r) (low r);
          ws = sens (low r) # (if eq then [] else [sens (high r)]) in
      in_order [put_words (count32 ws # ws), ebitmap_write (cat (low r)), put_if (\<not> eq) (ebitmap_write (cat (high r)))])"

definition sens_write :: "string \<Rightarrow> level_datum \<Rightarrow> policy_file \<Rightarrow> policy_file result" where
  "sens_write key d =
     in_order [put_words [strlen32 key, ucast (level_isalias d)], put_name key, put_object mls_write_level (level d)]"

definition cat_write :: "string \<Rightarrow> cat_datum \<Rightarrow> policy_file \<Rightarrow> policy_file result" where
  "cat_write key d = in_order [put_words [strlen32 key, cat_value d, ucast (cat_isalias d)], put_name key]"

section \<open>Roles and names of files\<close>

definition role_trans_write :: "policydb \<Rightarrow> policy_file \<Rightarrow> policy_file result" where
  "role_trans_write p =
     (let new_roletr = (policy_type p = POLICY_KERN \<and> policyvers p \<ge> POLICYDB_VERSION_ROLETRANS);
          l = filter (\<lambda>tr. new_roletr \<or> rt_tclass tr = ucast SECCLASS_PROCESS) (role_tr p) in
      in_order [put_words [count32 l],
        for_each (\<lambda>tr. in_order [put_words [rt_role tr, rt_type tr, rt_new_role tr], put_if new_roletr (put_words [rt_tclass tr])]) l])"

definition role_allow_write :: "role_allow list \<Rightarrow> policy_file \<Rightarrow> policy_file result" where
  "role_allow_write l = in_order [put_words [count32 l], for_each (\<lambda>ra. put_words [ra_role ra, ra_new_role ra]) l]"

definition filename_trans_write :: "filename_trans list \<Rightarrow> policy_file \<Rightarrow> policy_file result" where
  "filename_trans_write l =
     in_order [put_words [count32 l],
       for_each (\<lambda>ft. in_order [put_words [strlen32 (ft_name ft)], put_name (ft_name ft),
         put_words [ft_stype ft, ft_ttype ft, ft_tclass ft, ft_otype ft]]) l]"

definition role_set_write :: "role_set \<Rightarrow> policy_file \<Rightarrow> policy_file result" where
  "role_set_write x = in_order [ebitmap_write (rs_roles x), put_words [rs_flags x]]"

definition type_set_write :: "type_set \<Rightarrow> policy_file \<Rightarrow> policy_file result" where
  "type_set_write x = in_order [ebitmap_write (ts_types x), ebitmap_write (negset x), put_words [ts_flags x]]"

section \<open>Rules of modules\<close>

definition AVRULE_XPERMS :: u32 where "AVRULE_XPERMS = 0x0100 OR 0x0200 OR 0x0400 OR 0x0800"

definition avrule_write :: "avrule \<Rightarrow> policy_file \<Rightarrow> policy_file result" where
  "avrule_write r =
     (if ar_specified r AND AVRULE_XPERMS \<noteq> 0 then (\<lambda>_. Inl STATUS_ERR)
      else in_order [put_words [ar_specified r, ar_flags r], type_set_write (ar_stypes r), type_set_write (ar_ttypes r),
        put_words [count32 (ar_perms r)], for_each (\<lambda>c. put_words [cp_tclass c, cp_data c]) (ar_perms r)])"

definition avrule_write_list :: "avrule list \<Rightarrow> policy_file \<Rightarrow> policy_file result" where
  "avrule_write_list l = in_order [put_words [count32 l], for_each avrule_write l]"

text \<open>The loop of the source ends at the first other class; here the whole bitmap is visited.\<close>

definition only_process :: "ebitmap \<Rightarrow> bool result" where
  "only_process e = rbind (ebitmap_positive_bits e) (\<lambda>is. Inr (list_all (\<lambda>i. i = ucast SECCLASS_PROCESS - 1) is))"

text \<open>The rules that are written: in old versions only those for processes.\<close>

fun written_rules :: "bool \<Rightarrow> role_trans_rule list \<Rightarrow> role_trans_rule list result" where
  "written_rules newer [] = Inr []"
| "written_rules newer (tr # l) =
     rbind (if newer then Inr True else only_process (rtr_classes tr)) (\<lambda>b.
       rbind (written_rules newer l) (\<lambda>l. Inr (if b then tr # l else l)))"

definition role_trans_rule_write :: "policydb \<Rightarrow> role_trans_rule list \<Rightarrow> policy_file \<Rightarrow> policy_file result" where
  "role_trans_rule_write p t fp =
     (let newer = (policyvers p \<ge> MOD_POLICYDB_VERSION_ROLETRANS) in
      rbind (written_rules newer t) (\<lambda>l.
        in_order [put_words [count32 l],
          for_each (\<lambda>tr. in_order [role_set_write (rtr_roles tr), type_set_write (rtr_types tr),
            put_if newer (ebitmap_write (rtr_classes tr)), put_words [rtr_new_role tr]]) l] fp))"

definition role_allow_rule_write :: "role_allow_rule list \<Rightarrow> policy_file \<Rightarrow> policy_file result" where
  "role_allow_rule_write l =
     in_order [put_words [count32 l], for_each (\<lambda>ra. in_order [role_set_write (rar_roles ra), role_set_write (rar_new_roles ra)]) l]"

definition filename_trans_rule_write :: "filename_trans_rule list \<Rightarrow> policy_file \<Rightarrow> policy_file result" where
  "filename_trans_rule_write l =
     in_order [put_words [count32 l],
       for_each (\<lambda>ftr. in_order [put_words [strlen32 (ftr_name ftr)], put_name32 (ftr_name ftr),
         type_set_write (ftr_stypes ftr), type_set_write (ftr_ttypes ftr), put_words [ftr_tclass ftr, ftr_otype ftr]]) l]"

definition range_trans_rule_write :: "range_trans_rule list \<Rightarrow> policy_file \<Rightarrow> policy_file result" where
  "range_trans_rule_write l =
     in_order [put_words [count32 l],
       for_each (\<lambda>rt. in_order [type_set_write (rgr_stypes rt), type_set_write (rgr_ttypes rt),
         ebitmap_write (rgr_tclasses rt), mls_write_semantic_range_helper (rgr_trange rt)]) l]"

section \<open>Conditionals\<close>

definition cond_write_bool :: "policydb \<Rightarrow> string \<Rightarrow> cond_bool_datum \<Rightarrow> policy_file \<Rightarrow> policy_file result" where
  "cond_write_bool p key d =
     in_order [put_words [bool_value d, word_of_int (state d), strlen32 key], put_name32 key,
       put_if (policy_type p \<noteq> POLICY_KERN \<and> policyvers p \<ge> MOD_POLICYDB_VERSION_TUNABLE_SEP) (put_words [bool_flags d])]"

text \<open>The rules with a parse context; the table is that of the conditional rules, or its expansion.\<close>

definition cond_write_av_list :: "alloc \<Rightarrow> policydb \<Rightarrow> nat list \<Rightarrow> policy_file \<Rightarrow> policy_file result" where
  "cond_write_av_list m p l fp =
     rbind (if old_avtab p then expand_cond_av_list m p (te_cond_avtab p) l (avtab_init zero_avtab) else Inr (l, te_cond_avtab p)) (\<lambda>(l, a).
     rbind (for_each (\<lambda>ad ns. rbind (av_deref a ad) (\<lambda>n. Inr (if parse_context n \<noteq> 0 then ns @ [n] else ns))) l []) (\<lambda>ns.
     rbind (put_words [count32 ns] fp) (\<lambda>fp.
     rbind (for_each (\<lambda>n. avtab_write_item p [n] False True) ns (fp, None, a)) (\<lambda>(fp, _, _). Inr fp))))"

definition cond_write_node :: "alloc \<Rightarrow> policydb \<Rightarrow> cond_node \<Rightarrow> policy_file \<Rightarrow> policy_file result" where
  "cond_write_node m p node =
     in_order
      ([put_words [word_of_int (cur_state node)], put_words [count32 (cond_exprs node)],
        for_each (\<lambda>e. put_words [cond_type e, cond_bool e]) (cond_exprs node)] @
       (if policy_type p = POLICY_KERN
        then [cond_write_av_list (at_site 0 m) p (true_list node), cond_write_av_list (at_site 1 m) p (false_list node)]
        else [avrule_write_list (avtrue_list node), avrule_write_list (avfalse_list node)]) @
       [put_if (policy_type p \<noteq> POLICY_KERN \<and> policyvers p \<ge> MOD_POLICYDB_VERSION_TUNABLE_SEP) (put_words [cond_flags node])])"

definition cond_write_list :: "alloc \<Rightarrow> policydb \<Rightarrow> cond_node list \<Rightarrow> policy_file \<Rightarrow> policy_file result" where
  "cond_write_list m p l =
     in_order [put_words [count32 l], for_each (\<lambda>(i, n). cond_write_node (at_site i m) p n) (enumerate 0 l)]"

section \<open>Contexts and symbols\<close>

definition context_write :: "policydb \<Rightarrow> context_struct \<Rightarrow> policy_file \<Rightarrow> policy_file result" where
  "context_write p c =
     in_order [put_words [user c, role c, type c],
       put_if (kern_or_base p POLICYDB_VERSION_MLS MOD_POLICYDB_VERSION_MLS) (mls_write_range_helper (range c))]"

definition perm_write :: "string \<Rightarrow> perm_datum \<Rightarrow> policy_file \<Rightarrow> policy_file result" where
  "perm_write key d = in_order [put_words [strlen32 key, perm_value d], put_name key]"

definition common_write :: "string \<Rightarrow> common_datum \<Rightarrow> policy_file \<Rightarrow> policy_file result" where
  "common_write key d =
     put_object (\<lambda>h. in_order
       [put_words [strlen32 key, common_value d, nprim (common_permissions d), nel h], put_name key, hashtab_map (Some h) perm_write])
       (table (common_permissions d))"

definition write_cexpr :: "policydb \<Rightarrow> bool \<Rightarrow> constraint_expr \<Rightarrow> policy_file \<Rightarrow> policy_file result" where
  "write_cexpr p allowxtarget e =
     in_order
      (put_words [expr_type e, attr e, cop e] #
       (if expr_type e = CEXPR_NAMES
        then [if \<not> allowxtarget \<and> attr e AND CEXPR_XTARGET \<noteq> 0 then (\<lambda>_. Inl STATUS_ERR) else ebitmap_write (names e),
              put_if (policy_type p \<noteq> POLICY_KERN \<or> policyvers p \<ge> POLICYDB_VERSION_CONSTRAINT_NAMES)
                (put_object type_set_write (type_names e))]
        else []))"

definition write_cons_helper :: "policydb \<Rightarrow> constraint_node list \<Rightarrow> bool \<Rightarrow> policy_file \<Rightarrow> policy_file result" where
  "write_cons_helper p cs allowxtarget =
     for_each (\<lambda>c. in_order [put_words [permissions c, count32 (cn_expr c)], for_each (write_cexpr p allowxtarget) (cn_expr c)]) cs"

text \<open>The defaults are signed characters.\<close>

definition class_write :: "policydb \<Rightarrow> string \<Rightarrow> class_datum \<Rightarrow> policy_file \<Rightarrow> policy_file result" where
  "class_write p key d =
     in_order
      [put_words [strlen32 key, (case comkey d of None \<Rightarrow> 0 | Some k \<Rightarrow> strlen32 k), class_value d, nprim (class_permissions d),
         (case table (class_permissions d) of None \<Rightarrow> 0 | Some h \<Rightarrow> nel h), count32 (constraints d)],
       put_name key,
       (case comkey d of None \<Rightarrow> Inr | Some k \<Rightarrow> put_name k),
       hashtab_map (table (class_permissions d)) perm_write,
       write_cons_helper p (constraints d) False,
       put_if (kern_or_base p POLICYDB_VERSION_VALIDATETRANS MOD_POLICYDB_VERSION_VALIDATETRANS)
         (in_order [put_words [count32 (validatetrans d)], write_cons_helper p (validatetrans d) True]),
       put_if (kern_or_base p POLICYDB_VERSION_NEW_OBJECT_DEFAULTS MOD_POLICYDB_VERSION_NEW_OBJECT_DEFAULTS)
         (put_words [scast (default_user d), scast (default_role d), scast (default_range d)]),
       put_if (kern_or_base p POLICYDB_VERSION_DEFAULT_TYPE MOD_POLICYDB_VERSION_DEFAULT_TYPE)
         (put_words [scast (default_type d)])]"

definition skips_role_attributes :: "policydb \<Rightarrow> bool" where
  "skips_role_attributes p \<longleftrightarrow> policy_type p = POLICY_KERN \<or> policyvers p < MOD_POLICYDB_VERSION_ROLEATTRIB"

definition role_write :: "policydb \<Rightarrow> string \<Rightarrow> role_datum \<Rightarrow> policy_file \<Rightarrow> policy_file result" where
  "role_write p key d =
     (if role_flavor d = ROLE_ATTRIB \<and> skips_role_attributes p then Inr
      else in_order
       [put_words ([strlen32 key, role_value d] @ (if policydb_has_boundary_feature p then [role_bounds d] else [])),
        put_name key, ebitmap_write (dominates d),
        (if policy_type p = POLICY_KERN then ebitmap_write (ts_types (role_types d)) else type_set_write (role_types d)),
        put_if (policy_type p \<noteq> POLICY_KERN \<and> policyvers p \<ge> MOD_POLICYDB_VERSION_ROLEATTRIB)
          (in_order [put_words [role_flavor d], ebitmap_write (role_roles d)])])"

definition type_properties :: "policydb \<Rightarrow> type_datum \<Rightarrow> u32" where
  "type_properties p d =
     (if primary d \<noteq> 0 then TYPEDATUM_PROPERTY_PRIMARY else 0) OR
     (if type_flavor d = TYPE_ATTRIB then TYPEDATUM_PROPERTY_ATTRIBUTE
      else if type_flavor d = TYPE_ALIAS \<and> policy_type p \<noteq> POLICY_KERN then TYPEDATUM_PROPERTY_ALIAS else 0) OR
     (if type_flags d AND TYPE_FLAGS_PERMISSIVE \<noteq> 0 \<and> policy_type p \<noteq> POLICY_KERN then TYPEDATUM_PROPERTY_PERMISSIVE else 0)"

definition type_words :: "policydb \<Rightarrow> type_datum \<Rightarrow> u32 list" where
  "type_words p d =
     (if policydb_has_boundary_feature p
      then (if boundary_alias p then [primary d] else []) @ [type_properties p d, type_bounds d]
      else [primary d] @
        (if policy_type p \<noteq> POLICY_KERN
         then [type_flavor d] @ (if policyvers p \<ge> MOD_POLICYDB_VERSION_PERMISSIVE then [type_flags d] else []) else []))"

definition skips_type_attributes :: "policydb \<Rightarrow> bool" where
  "skips_type_attributes p \<longleftrightarrow> policy_type p = POLICY_KERN \<and> policyvers p < POLICYDB_VERSION_BOUNDARY"

definition type_write :: "policydb \<Rightarrow> string \<Rightarrow> type_datum \<Rightarrow> policy_file \<Rightarrow> policy_file result" where
  "type_write p key d =
     (if skips_type_attributes p \<and> type_flavor d = TYPE_ATTRIB then Inr
      else in_order [put_words ([strlen32 key, type_value d] @ type_words p d),
        put_if (policy_type p \<noteq> POLICY_KERN) (ebitmap_write (type_types d)), put_name key])"

definition user_write :: "policydb \<Rightarrow> string \<Rightarrow> user_datum \<Rightarrow> policy_file \<Rightarrow> policy_file result" where
  "user_write p key d =
     in_order
      ([put_words ([strlen32 key, user_value d] @ (if policydb_has_boundary_feature p then [user_bounds d] else [])),
        put_name key,
        (if policy_type p = POLICY_KERN then ebitmap_write (rs_roles (user_roles d)) else role_set_write (user_roles d))] @
       (if policy_type p = POLICY_KERN \<and> policyvers p \<ge> POLICYDB_VERSION_MLS \<or>
           (policy_type p = POLICY_MOD \<or> policy_type p = POLICY_BASE) \<and> policyvers p \<ge> MOD_POLICYDB_VERSION_MLS \<and>
           policyvers p < MOD_POLICYDB_VERSION_MLS_USERS
        then [mls_write_range_helper (exp_range d), mls_write_level (exp_dfltlevel d)]
        else if (policy_type p = POLICY_MOD \<or> policy_type p = POLICY_BASE) \<and> policyvers p \<ge> MOD_POLICYDB_VERSION_MLS_USERS
        then [mls_write_semantic_range_helper (user_range d), mls_write_semantic_level_helper (user_dfltlevel d)]
        else []))"

section \<open>Object contexts\<close>

text \<open>One object context of the list \<open>i\<close>.  Addresses are in network order, their bytes are copied.\<close>

definition write_selinux :: "policydb \<Rightarrow> nat \<Rightarrow> ocontext \<Rightarrow> policy_file \<Rightarrow> policy_file result" where
  "write_selinux p i c =
     (let ctx = context_write p (oc_context0 c) in
      if i = OCON_ISID then in_order [put_words [oc_sid0 c], ctx]
      else if i = OCON_FS \<or> i = OCON_NETIF
      then (case oc_u c of
          U_name s \<Rightarrow> in_order [put_words [strlen32 s], put_name s, ctx, context_write p (oc_context1 c)]
        | _ \<Rightarrow> (\<lambda>_. Inl UB))
      else if i = OCON_PORT
      then (case oc_u c of
          U_port prot lo hi \<Rightarrow> in_order [put_words [ucast prot, ucast lo, ucast hi], ctx]
        | _ \<Rightarrow> (\<lambda>_. Inl UB))
      else if i = OCON_NODE
      then (case oc_u c of U_node ad msk \<Rightarrow> in_order [put_words [ad, msk], ctx] | _ \<Rightarrow> (\<lambda>_. Inl UB))
      else if i = OCON_FSUSE
      then (case oc_u c of U_name s \<Rightarrow> in_order [put_words [oc_v c, strlen32 s], put_name s, ctx] | _ \<Rightarrow> (\<lambda>_. Inl UB))
      else if i = OCON_NODE6
      then (case oc_u c of U_node6 ad msk \<Rightarrow> in_order [put_words (ad @ msk), ctx] | _ \<Rightarrow> (\<lambda>_. Inl UB))
      else Inr)"

definition write_xen :: "policydb \<Rightarrow> nat \<Rightarrow> ocontext \<Rightarrow> policy_file \<Rightarrow> policy_file result" where
  "write_xen p i c =
     (let ctx = context_write p (oc_context0 c) in
      if i = 0 then in_order [put_words [oc_sid0 c], ctx]
      else if i = 1 then (case oc_u c of U_pirq n \<Rightarrow> in_order [put_words [ucast n], ctx] | _ \<Rightarrow> (\<lambda>_. Inl UB))
      else if i = 2 then (case oc_u c of U_ioport lo hi \<Rightarrow> in_order [put_words [lo, hi], ctx] | _ \<Rightarrow> (\<lambda>_. Inl UB))
      else if i = 3
      then (case oc_u c of
          U_iomem lo hi \<Rightarrow>
            if policyvers p \<ge> POLICYDB_VERSION_XEN_DEVICETREE
            then in_order [put_items (cpu_to_le64 lo @ cpu_to_le64 hi) 8 2, ctx]
            else if hi > 0xFFFFFFFF then (\<lambda>_. Inl STATUS_ERR)
            else in_order [put_words [ucast lo, ucast hi], ctx]
        | _ \<Rightarrow> (\<lambda>_. Inl UB))
      else if i = 4 then (case oc_u c of U_device n \<Rightarrow> in_order [put_words [n], ctx] | _ \<Rightarrow> (\<lambda>_. Inl UB))
      else if i = 5
      then (case oc_u c of U_name s \<Rightarrow> in_order [put_words [strlen32 s], put_name s, ctx] | _ \<Rightarrow> (\<lambda>_. Inl UB))
      else Inr)"

definition write_ocontexts :: "(nat \<Rightarrow> ocontext \<Rightarrow> policy_file \<Rightarrow> policy_file result) \<Rightarrow> nat \<Rightarrow> policydb \<Rightarrow> policy_file \<Rightarrow> policy_file result" where
  "write_ocontexts item ocon_num p =
     for_each (\<lambda>i fp. rbind (idx (ocontexts p) i) (\<lambda>cs. in_order [put_words [count32 cs], for_each (item i) cs] fp)) [0..<ocon_num]"

definition ocontext_write_selinux :: "nat \<Rightarrow> policydb \<Rightarrow> policy_file \<Rightarrow> policy_file result" where
  "ocontext_write_selinux ocon_num p = write_ocontexts (write_selinux p) ocon_num p"

definition ocontext_write_xen :: "nat \<Rightarrow> policydb \<Rightarrow> policy_file \<Rightarrow> policy_file result" where
  "ocontext_write_xen ocon_num p = write_ocontexts (write_xen p) ocon_num p"

definition ocontext_write :: "nat \<Rightarrow> policydb \<Rightarrow> policy_file \<Rightarrow> policy_file result" where
  "ocontext_write ocon_num p =
     (if target_platform p = SEPOL_TARGET_SELINUX then ocontext_write_selinux ocon_num p
      else if target_platform p = SEPOL_TARGET_XEN then ocontext_write_xen ocon_num p
      else (\<lambda>_. Inl STATUS_ERR))"

definition genfs_write :: "policydb \<Rightarrow> policy_file \<Rightarrow> policy_file result" where
  "genfs_write p =
     in_order [put_words [count32 (p_genfs p)],
       for_each (\<lambda>g. in_order [put_words [strlen32 (fstype g)], put_name (fstype g), put_words [count32 (head g)],
         for_each (\<lambda>c. case oc_u c of
             U_name s \<Rightarrow> in_order [put_words [strlen32 s], put_name s, put_words [oc_v c], context_write p (oc_context0 c)]
           | _ \<Rightarrow> (\<lambda>_. Inl UB)) (head g)]) (p_genfs p)]"

definition range_write :: "policydb \<Rightarrow> policy_file \<Rightarrow> policy_file result" where
  "range_write p =
     (let new_rangetr = (policy_type p = POLICY_KERN \<and> policyvers p \<ge> POLICYDB_VERSION_RANGETRANS);
          l = filter (\<lambda>rt. new_rangetr \<or> rg_target_class rt = ucast SECCLASS_PROCESS) (range_tr p) in
      in_order [put_words [count32 l],
        for_each (\<lambda>rt. in_order [put_words [rg_source_type rt, rg_target_type rt],
          put_if new_rangetr (put_words [rg_target_class rt]), mls_write_range_helper (rg_target_range rt)]) l])"

section \<open>Blocks of modules\<close>

definition put_bitmap_at :: "ebitmap list \<Rightarrow> nat \<Rightarrow> policy_file \<Rightarrow> policy_file result" where
  "put_bitmap_at es i fp = rbind (idx es i) (\<lambda>e. ebitmap_write e fp)"

definition scope_index_write :: "scope_index \<Rightarrow> nat \<Rightarrow> policy_file \<Rightarrow> policy_file result" where
  "scope_index_write s n =
     in_order [for_each (put_bitmap_at (scope_sets s)) [0..<n], put_words [class_perms_len s],
       for_each (put_bitmap_at (class_perms_map s)) [0..<unat (class_perms_len s)]]"

text \<open>A symbol table: the number of values, the number of symbols, which \<open>cnt\<close> corrects, and the symbols.\<close>

definition write_symtab :: "((string, 'd) hashtab \<Rightarrow> u32 \<Rightarrow> u32 result) \<Rightarrow> (string \<Rightarrow> 'd \<Rightarrow> policy_file \<Rightarrow> policy_file result) \<Rightarrow> 'd symtab \<Rightarrow> policy_file \<Rightarrow> policy_file result" where
  "write_symtab cnt write_f s fp =
     (case table s of
        None \<Rightarrow> Inl UB
      | Some h \<Rightarrow> rbind (cnt (Some h) (nel h)) (\<lambda>n. in_order [put_words [nprim s, n], hashtab_map (Some h) write_f] fp))"

abbreviation all_symbols :: "(string, 'd) hashtab \<Rightarrow> u32 \<Rightarrow> u32 result" where
  "all_symbols \<equiv> (\<lambda>_. Inr)"

definition avrule_decl_write :: "alloc \<Rightarrow> avrule_decl \<Rightarrow> nat \<Rightarrow> policydb \<Rightarrow> policy_file \<Rightarrow> policy_file result" where
  "avrule_decl_write m d n p =
     in_order
      ([put_words [decl_id d, decl_enabled d], cond_write_list m p (decl_cond_list d), avrule_write_list (decl_avrules d),
        role_trans_rule_write p (role_tr_rules d), role_allow_rule_write (role_allow_rules d),
        put_if (policyvers p \<ge> MOD_POLICYDB_VERSION_FILENAME_TRANS) (filename_trans_rule_write (filename_trans_rules d)),
        put_if (policyvers p \<ge> MOD_POLICYDB_VERSION_RANGETRANS) (range_trans_rule_write (range_tr_rules d)),
        scope_index_write (required d) n, scope_index_write (declared d) n] @
       take n [write_symtab all_symbols common_write (d_commons d), write_symtab all_symbols (class_write p) (d_classes d),
        write_symtab all_symbols (role_write p) (d_roles d), write_symtab all_symbols (type_write p) (d_types d),
        write_symtab all_symbols (user_write p) (d_users d), write_symtab all_symbols (cond_write_bool p) (d_bools d),
        write_symtab all_symbols sens_write (d_levels d), write_symtab all_symbols cat_write (d_cats d)])"

definition avrule_block_write :: "alloc \<Rightarrow> avrule_block list \<Rightarrow> nat \<Rightarrow> policydb \<Rightarrow> policy_file \<Rightarrow> policy_file result" where
  "avrule_block_write m bs n p =
     in_order [put_words [count32 bs],
       for_each (\<lambda>(i, b). in_order [put_words [count32 (branch_list b)],
         for_each (\<lambda>(j, d). avrule_decl_write (at_site j (at_site i m)) d n p) (enumerate 0 (branch_list b))]) (enumerate 0 bs)]"

text \<open>The place of an allocation while the symbols of a table are visited.\<close>

definition at_name :: "string \<Rightarrow> alloc \<Rightarrow> alloc" where
  "at_name key m = fold (\<lambda>c. at_site (of_char c)) key m"

text \<open>The words of a scope go through a buffer of 32 words, or an allocated one if there are more.\<close>

definition scope_write :: "alloc \<Rightarrow> string \<Rightarrow> scope_datum \<Rightarrow> policy_file \<Rightarrow> policy_file result" where
  "scope_write m key s =
     (let items = 2 + length (decl_ids s) in
      if items \<ge> 2 ^ 32 then (\<lambda>_. Inl UB)
      else if items \<ge> 32 \<and> \<not> malloc m then (\<lambda>_. Inl STATUS_ERR)
      else in_order [put_words [strlen32 key], put_name key, put_words (sc_scope s # count32 (decl_ids s) # decl_ids s)])"

section \<open>The policy\<close>

definition type_attr_uncount :: "string \<Rightarrow> type_datum \<Rightarrow> u32 \<Rightarrow> u32 result" where
  "type_attr_uncount key d n = Inr (if type_flavor d = TYPE_ATTRIB then n - 1 else n)"

definition role_attr_uncount :: "string \<Rightarrow> role_datum \<Rightarrow> u32 \<Rightarrow> u32 result" where
  "role_attr_uncount key d n = Inr (if role_flavor d = ROLE_ATTRIB then n - 1 else n)"

definition write_symtabs :: "policydb \<Rightarrow> nat \<Rightarrow> policy_file \<Rightarrow> policy_file result" where
  "write_symtabs p num_syms =
     in_order (take num_syms
       [write_symtab all_symbols common_write (p_commons p), write_symtab all_symbols (class_write p) (p_classes p),
        write_symtab (if skips_role_attributes p then (\<lambda>h. hashtab_map h role_attr_uncount) else all_symbols) (role_write p) (p_roles p),
        write_symtab (if skips_type_attributes p then (\<lambda>h. hashtab_map h type_attr_uncount) else all_symbols) (type_write p) (p_types p),
        write_symtab all_symbols (user_write p) (p_users p), write_symtab all_symbols (cond_write_bool p) (p_bools p),
        write_symtab all_symbols sens_write (p_levels p), write_symtab all_symbols cat_write (p_cats p)])"

definition write_scope :: "alloc \<Rightarrow> policydb \<Rightarrow> nat \<Rightarrow> policy_file \<Rightarrow> policy_file result" where
  "write_scope m p i fp =
     rbind (idx (p_scope p) i) (\<lambda>s.
       put_object (\<lambda>h. in_order [put_words [nel h], hashtab_map (Some h) (\<lambda>key. scope_write (at_name key m) key)]) (table s) fp)"

text \<open>The rules of a kernel policy, or the blocks and scopes of a module.\<close>

definition write_rules :: "alloc \<Rightarrow> policydb \<Rightarrow> nat \<Rightarrow> policy_file \<Rightarrow> policy_file result" where
  "write_rules m p num_syms =
     (if policy_type p = POLICY_KERN
      then in_order
       [avtab_write (at_site 0 m) p (te_avtab p),
        put_if (policyvers p \<ge> POLICYDB_VERSION_BOOL) (cond_write_list (at_site 1 m) p (cond_list p)),
        role_trans_write p, role_allow_write (p_role_allow p),
        put_if (policyvers p \<ge> POLICYDB_VERSION_FILENAME_TRANS) (filename_trans_write (p_filename_trans p))]
      else in_order
       [avrule_block_write (at_site 0 m) (p_global p) num_syms p, for_each (\<lambda>i. write_scope (at_site i (at_site 1 m)) p i) [0..<num_syms]])"

text \<open>The loop that looks for a permissive type in a version without them only warns; it visits bits until it finds one.\<close>

definition visit_permissive :: "policydb \<Rightarrow> policy_file \<Rightarrow> policy_file result" where
  "visit_permissive p fp =
     (if list_ex (\<lambda>n. nmap n \<noteq> 0) (nodes (permissive_map p)) then Inr fp
      else rbind (ebitmap_for_each_bit (permissive_map p)) (\<lambda>_. Inr fp))"

definition mls_unsupported :: "policydb \<Rightarrow> bool" where
  "mls_unsupported p \<longleftrightarrow>
     policy_type p = POLICY_KERN \<and> policyvers p < POLICYDB_VERSION_MLS \<or>
     (policy_type p = POLICY_BASE \<or> policy_type p = POLICY_MOD) \<and> policyvers p < MOD_POLICYDB_VERSION_MLS"

definition write_config :: "policydb \<Rightarrow> u32" where
  "write_config p = (if mls p then POLICYDB_CONFIG_MLS else 0) OR (POLICYDB_CONFIG_UNKNOWN_MASK AND handle_unknown p)"

definition write_magic :: "policydb \<Rightarrow> policy_file \<Rightarrow> policy_file result" where
  "write_magic p =
     (if policy_type p = POLICY_KERN
      then if 0 \<le> target_platform p \<and> nat (target_platform p) < length policydb_target_strings
           then let s = policydb_target_strings ! nat (target_platform p) in in_order [put_words [POLICYDB_MAGIC, strlen32 s], put_name s]
           else (\<lambda>_. Inl UB)
      else in_order [put_words [POLICYDB_MOD_MAGIC, strlen32 POLICYDB_MOD_STRING], put_name POLICYDB_MOD_STRING])"

definition write_string :: "string \<Rightarrow> policy_file \<Rightarrow> policy_file result" where
  "write_string s = in_order [put_words [strlen32 s], put_name s]"

definition write_body :: "alloc \<Rightarrow> policydb \<Rightarrow> nat \<Rightarrow> nat \<Rightarrow> policy_file \<Rightarrow> policy_file result" where
  "write_body m p sym_num ocon_num =
     in_order
      [put_words ((if policy_type p \<noteq> POLICY_KERN then [policy_type p] else []) @
         [policyvers p, write_config p, of_nat sym_num, of_nat ocon_num]),
       put_if (policy_type p = POLICY_MOD) (in_order [put_object write_string (p_name p), put_object write_string (p_version p)]),
       put_if (policy_type p = POLICY_KERN \<and> policyvers p \<ge> POLICYDB_VERSION_POLCAP \<or>
           (policy_type p = POLICY_BASE \<or> policy_type p = POLICY_MOD) \<and> policyvers p \<ge> MOD_POLICYDB_VERSION_POLCAP)
         (ebitmap_write (policycaps p)),
       put_if (policy_type p = POLICY_KERN)
         (if policyvers p < POLICYDB_VERSION_PERMISSIVE then visit_permissive p else ebitmap_write (permissive_map p)),
       write_symtabs p sym_num, write_rules m p sym_num, ocontext_write ocon_num p, genfs_write p,
       put_if (policy_type p = POLICY_KERN \<and> policyvers p \<ge> POLICYDB_VERSION_MLS \<or>
           policy_type p = POLICY_BASE \<and> policyvers p \<ge> MOD_POLICYDB_VERSION_MLS \<and> policyvers p < MOD_POLICYDB_VERSION_RANGETRANS)
         (range_write p),
       put_if (policy_type p = POLICY_KERN \<and> policyvers p \<ge> POLICYDB_VERSION_AVTAB)
         (for_each (put_bitmap_at (type_attr_map p)) [0..<unat (nprim (p_types p))])]"

text \<open>\<^verbatim>\<open>POLICYDB_UNSUPPORTED\<close> is \<^verbatim>\<open>-2\<close>, the value of \<^verbatim>\<open>-ENOENT\<close>.\<close>

definition policydb_write :: "alloc \<Rightarrow> policydb \<Rightarrow> policy_file \<Rightarrow> policy_file result" where
  "policydb_write m p fp =
     (if unsupported_format p \<noteq> 0 then Inl ENOENT
      else if mls p \<and> mls_unsupported p then Inl STATUS_ERR
      else rbind (write_magic p fp) (\<lambda>fp.
        case policydb_lookup_compat (policyvers p) (policy_type p) (target_platform p) of
          None \<Rightarrow> Inl STATUS_ERR
        | Some (sym_num, ocon_num) \<Rightarrow> write_body m p sym_num ocon_num fp))"

end
