(* ===== verification/Write_Laws.thy ===== *)
theory Write_Laws
  imports Policydb_Write Avtab_Laws Mls_Laws
begin

text \<open>
  Writers and readers on memory files.  \<open>writes w bs\<close> says that the writer \<open>w\<close> writes the bytes \<open>bs\<close>, and
  fails exactly if they do not fit; \<open>reads r bs x\<close> says that the reader \<open>r\<close> takes the bytes \<open>bs\<close> and
  returns \<open>x\<close>.  The encodings of sets, levels, ranges and lists of rules are instances of the interface of
  encodings.
\<close>

named_theorems write_intros and read_simps

section \<open>Writers\<close>

definition writes :: "(policy_file \<Rightarrow> policy_file result) \<Rightarrow> u8 list \<Rightarrow> bool" where
  "writes w bs \<longleftrightarrow> (\<forall>p d. w (mem_file p d) =
     (if length bs \<le> length d then Inr (mem_file (p @ bs) (drop (length bs) d)) else Inl STATUS_ERR))"

definition reads :: "(policy_file \<Rightarrow> (policy_file \<times> 'a) result) \<Rightarrow> u8 list \<Rightarrow> 'a \<Rightarrow> bool" where
  "reads r bs x \<longleftrightarrow> (\<forall>p d. r (mem_file p (bs @ d)) = Inr (mem_file (p @ bs) d, x))"

lemma file_codecI:
  assumes "\<And>x. valid x \<Longrightarrow> writes (wr x) (enc x)" and "\<And>x. valid x \<Longrightarrow> reads rd (enc x) x"
  shows "file_codec valid enc wr rd"
  using assms by unfold_locales (auto simp: writes_def reads_def)

definition words_bytes :: "u32 list \<Rightarrow> u8 list" where
  "words_bytes ws = concat (map cpu_to_le32 ws)"

lemma length_words_bytes [simp]: "length (words_bytes ws) = 4 * length ws"
  by (induction ws) (simp_all add: words_bytes_def)

lemma length_string_bytes [simp]: "length (string_bytes s) = length s"
  by (simp add: string_bytes_def)

lemma writes_items [write_intros]:
  assumes "length ptr = sz * n" and "sz * n < 2 ^ 64"
  shows "writes (put_items ptr sz n) ptr"
  using assms by (cases "n = 0") (simp_all add: writes_def put_items_mem, simp add: put_items_def put_entry_def mem_file_def Let_def)

lemma writes_words [write_intros]: "length ws < 2 ^ 60 \<Longrightarrow> writes (put_words ws) (words_bytes ws)"
  using writes_items [of "words_bytes ws" 4 "length ws"] by (simp add: put_words_def words_bytes_def [symmetric])

lemma writes_name [write_intros]: "length s < 2 ^ 64 \<Longrightarrow> writes (put_name s) (string_bytes s)"
  using writes_items [of "string_bytes s" 1 "length s"] by (simp add: put_name_def)

lemma writes_name32 [write_intros]: "length s < 2 ^ 32 \<Longrightarrow> writes (put_name32 s) (string_bytes s)"
  using writes_items [of "string_bytes s" 1 "length s"] by (simp add: put_name32_def unat_of_nat)

lemma writes_ebitmap [write_intros]: "writes (ebitmap_write e) (ebitmap_enc e)"
  by (simp add: writes_def ebitmap_write_mem)

lemma writes_Inr [write_intros]: "writes Inr []"
  by (simp add: writes_def)

lemma writes_then [write_intros]: "writes w a \<Longrightarrow> writes v b \<Longrightarrow> writes (\<lambda>fp. rbind (w fp) v) (a @ b)"
  by (auto simp: writes_def add.commute)

lemma writes_for_each [write_intros]:
  "(\<And>x. x \<in> set xs \<Longrightarrow> writes (f x) (e x)) \<Longrightarrow> writes (for_each f xs) (concat (map e xs))"
proof (induction xs)
  case Nil
  then show ?case by (simp add: writes_def)
next
  case (Cons x xs)
  then have "writes (\<lambda>fp. rbind (f x fp) (for_each f xs)) (e x @ concat (map e xs))"
    by (intro writes_then) auto
  moreover have "for_each f (x # xs) = (\<lambda>fp. rbind (f x fp) (for_each f xs))"
    by (simp add: fun_eq_iff rbind_def)
  ultimately show ?case by simp
qed

lemma writes_in_order [write_intros]: "list_all2 writes ws bs \<Longrightarrow> writes (in_order ws) (concat bs)"
proof (induction rule: list_all2_induct)
  case Nil
  then show ?case by (simp add: writes_def in_order_def)
next
  case (Cons w ws b bs)
  then have "writes (\<lambda>fp. rbind (w fp) (in_order ws)) (b @ concat bs)" by (intro writes_then)
  moreover have "in_order (w # ws) = (\<lambda>fp. rbind (w fp) (in_order ws))"
    by (simp add: in_order_def fun_eq_iff rbind_def)
  ultimately show ?case by simp
qed

lemma put_if_simps [simp]: "put_if True w = w" "put_if False w = Inr"
  by (simp_all add: put_if_def)

lemma writes_put_if [write_intros]: "(c \<Longrightarrow> writes w b) \<Longrightarrow> writes (put_if c w) (if c then b else [])"
  by (auto simp: put_if_def intro: writes_Inr)

lemma writes_put_object [write_intros]: "writes (w x) b \<Longrightarrow> writes (put_object w (Some x)) b"
  by (simp add: put_object_def)

lemma writes_If [write_intros]:
  "(c \<Longrightarrow> writes w b) \<Longrightarrow> (\<not> c \<Longrightarrow> writes w' b') \<Longrightarrow> writes (if c then w else w') (if c then b else b')"
  by simp

section \<open>Readers\<close>

lemma next_words [read_simps]:
  "4 * length ws = n \<Longrightarrow> next_entry (mem_file p (words_bytes ws @ d)) n = Inr (mem_file (p @ words_bytes ws) d, words_bytes ws)"
  by (simp add: next_entry_mem)

lemma le_words_bytes [read_simps]: "length ws = n \<Longrightarrow> le_words 4 n (words_bytes ws) = ws"
  using le_words_concat [of ws "[]"] by (auto simp: words_bytes_def)

lemma read_words_mem [read_simps]:
  "length ws = n \<Longrightarrow> read_words n (mem_file p (words_bytes ws @ d)) = Inr (mem_file (p @ words_bytes ws) d, ws)"
  by (simp add: read_words_def next_words le_words_bytes)

lemma read_u32_bytes [read_simps]:
  "read_u32 (mem_file p (words_bytes [w] @ d)) = Inr (mem_file (p @ words_bytes [w]) d, w)"
  by (simp add: read_u32_def next_words) (simp add: words_bytes_def)

text \<open>A C string has no zero bytes.\<close>

definition c_string :: "string \<Rightarrow> bool" where
  "c_string s \<longleftrightarrow> CHR 0x00 \<notin> set s \<and> length s < 2 ^ 32 - 1"

lemma of_char_byte: "unat (of_char c :: u8) = of_char c"
proof -
  have "(of_char c :: u8) = of_nat (of_char c)" by (simp only: of_nat_of_char)
  then show ?thesis using nat_of_char_less_256 [of c] by (simp add: unat_of_nat del: of_nat_of_char)
qed

lemma cstring_bytes: "CHR 0x00 \<notin> set s \<Longrightarrow> cstring (string_bytes s) = s"
proof -
  have nz: "(of_char c :: u8) = 0 \<longleftrightarrow> c = CHR 0x00" for c
  proof -
    have "(of_char c :: u8) = 0 \<longleftrightarrow> (of_char c :: nat) = of_char (CHR 0x00)"
      by (simp add: unat_eq_0 [symmetric] of_char_byte)
    then show ?thesis by (simp only: of_char_eq_iff)
  qed
  assume "CHR 0x00 \<notin> set s"
  then have "takeWhile (\<lambda>b. b \<noteq> 0) (string_bytes s) = string_bytes s"
    by (auto simp: string_bytes_def nz intro!: takeWhile_eq_all_conv [THEN iffD2])
  then have "cstring (string_bytes s) = map (\<lambda>b. char_of (unat b)) (string_bytes s)" by (simp only: cstring_def)
  then show ?thesis by (simp add: string_bytes_def of_char_byte comp_def)
qed

lemma read_name_mem [read_simps]:
  assumes "c_string s" and "n = of_nat (length s)"
  shows "read_name no_oom (mem_file p (string_bytes s @ d)) n = Inr (mem_file (p @ string_bytes s) d, s)"
  using assms by (simp add: read_name_def c_string_def next_entry_mem unat_of_nat cstring_bytes)

lemma read_key_mem [read_simps]:
  assumes "c_string s" and "n = of_nat (length s)"
  shows "read_key no_oom (mem_file p (string_bytes s @ d)) n = Inr (mem_file (p @ string_bytes s) d, s)"
proof -
  have "unat (n + 1) = length s + 1" using assms by (simp add: c_string_def unat_word_ariths unat_of_nat)
  then have "n + 1 \<noteq> 0" by (metis Suc_eq_plus1 nat.simps(3) unat_0)
  then show ?thesis using assms by (simp add: read_key_def c_string_def next_entry_mem unat_of_nat cstring_bytes)
qed

text \<open>The loops over a number of items, and over the symbols of a table.\<close>

lemma read_loop:
  assumes "\<And>i x acc p d. x \<in> set xs \<Longrightarrow> f i (mem_file p (enc x @ d), acc) = Inr (mem_file (p @ enc x) d, g acc x)"
    and "length is = length xs"
  shows "for_each f is (mem_file p (concat (map enc xs) @ d), acc) = Inr (mem_file (p @ concat (map enc xs)) d, foldl g acc xs)"
  using assms(2,1) by (induction "is" xs arbitrary: p acc rule: list_induct2) simp_all

lemma foldl_snoc: "foldl (\<lambda>acc x. acc @ [x]) acc xs = acc @ xs"
  by (induction xs arbitrary: acc) simp_all

lemma read_list:
  assumes "\<And>i x acc p d. x \<in> set xs \<Longrightarrow> f i (mem_file p (enc x @ d), acc) = Inr (mem_file (p @ enc x) d, acc @ [h x])"
    and "length xs < 2 ^ 32" and "n = of_nat (length xs)"
  shows "for_each f (upto32 n) (mem_file p (concat (map enc xs) @ d), []) = Inr (mem_file (p @ concat (map enc xs)) d, map h xs)"
proof -
  have "foldl (\<lambda>acc x. acc @ [h x]) acc xs = acc @ map h xs" for acc by (induction xs arbitrary: acc) simp_all
  then show ?thesis using read_loop [of xs f enc "\<lambda>acc x. acc @ [h x]" "upto32 n" p d "[]"] assms by (simp add: unat_of_nat)
qed

lemma read_items_mem:
  assumes "\<And>x. x \<in> set xs \<Longrightarrow> reads (rd no_oom) (enc x) (h x)" and "length xs < 2 ^ 32" and "n = of_nat (length xs)"
  shows "read_items no_oom n rd (mem_file p (concat (map enc xs) @ d)) = Inr (mem_file (p @ concat (map enc xs)) d, map h xs)"
  using assms unfolding read_items_def by (intro read_list) (simp_all add: reads_def)

section \<open>Sets, levels and ranges\<close>

definition role_set_enc :: "role_set \<Rightarrow> u8 list" where
  "role_set_enc x = concat [ebitmap_enc (rs_roles x), words_bytes [rs_flags x]]"

definition type_set_enc :: "type_set \<Rightarrow> u8 list" where
  "type_set_enc x = concat [ebitmap_enc (ts_types x), ebitmap_enc (negset x), words_bytes [ts_flags x]]"

definition role_set_ok :: "role_set \<Rightarrow> bool" where
  "role_set_ok x \<longleftrightarrow> ebitmap_wf (rs_roles x)"

definition type_set_ok :: "type_set \<Rightarrow> bool" where
  "type_set_ok x \<longleftrightarrow> ebitmap_wf (ts_types x) \<and> ebitmap_wf (negset x)"

lemma writes_role_set [write_intros]: "writes (role_set_write x) (role_set_enc x)"
  unfolding role_set_write_def role_set_enc_def by (intro write_intros) (simp add: write_intros)

lemma writes_type_set [write_intros]: "writes (type_set_write x) (type_set_enc x)"
  unfolding type_set_write_def type_set_enc_def by (intro write_intros) (simp add: write_intros)

lemma role_set_read_mem [read_simps]:
  "role_set_ok x \<Longrightarrow> role_set_read no_oom (mem_file p (role_set_enc x @ d)) = Inr (mem_file (p @ role_set_enc x) d, x)"
  by (simp add: role_set_read_def role_set_enc_def role_set_ok_def ebitmap_read_mem read_simps)

lemma type_set_read_mem [read_simps]:
  "type_set_ok x \<Longrightarrow> type_set_read no_oom (mem_file p (type_set_enc x @ d)) = Inr (mem_file (p @ type_set_enc x) d, x)"
  by (simp add: type_set_read_def type_set_enc_def type_set_ok_def ebitmap_read_mem read_simps)

interpretation role_set: file_codec role_set_ok role_set_enc role_set_write "role_set_read no_oom"
  by (intro file_codecI) (auto simp: reads_def read_simps intro: write_intros)

interpretation type_set: file_codec type_set_ok type_set_enc type_set_write "type_set_read no_oom"
  by (intro file_codecI) (auto simp: reads_def read_simps intro: write_intros)

definition level_enc :: "mls_level \<Rightarrow> u8 list" where
  "level_enc l = concat [words_bytes [sens l], ebitmap_enc (cat l)]"

definition level_ok :: "mls_level \<Rightarrow> bool" where
  "level_ok l \<longleftrightarrow> ebitmap_wf (cat l)"

lemma writes_level [write_intros]: "writes (mls_write_level l) (level_enc l)"
  unfolding mls_write_level_def level_enc_def by (intro write_intros) (simp add: write_intros)

lemma mls_read_level_mem [read_simps]:
  "level_ok l \<Longrightarrow> mls_read_level no_oom (mem_file p (level_enc l @ d)) = Inr (mem_file (p @ level_enc l) d, l)"
  by (simp add: mls_read_level_def level_enc_def level_ok_def ebitmap_read_mem read_simps)

interpretation mls_level: file_codec level_ok level_enc mls_write_level "mls_read_level no_oom"
  by (intro file_codecI) (auto simp: reads_def read_simps intro: write_intros)

definition range_enc :: "mls_range \<Rightarrow> u8 list" where
  "range_enc r =
     (if high r = low r then concat [words_bytes [1, sens (low r)], ebitmap_enc (cat (low r))]
      else concat [words_bytes [2, sens (low r), sens (high r)], ebitmap_enc (cat (low r)), ebitmap_enc (cat (high r))])"

definition range_ok :: "mls_range \<Rightarrow> bool" where
  "range_ok r \<longleftrightarrow> level_ok (low r) \<and> level_ok (high r)"

lemma writes_range [write_intros]: "writes (mls_write_range_helper r) (range_enc r)"
proof -
  define eq where "eq = (high r = low r)"
  have "range_enc r = concat [words_bytes (if eq then [1, sens (low r)] else [2, sens (low r), sens (high r)]), ebitmap_enc (cat (low r)),
      if \<not> eq then ebitmap_enc (cat (high r)) else []]"
    by (simp add: range_enc_def eq_def)
  then show ?thesis
    unfolding mls_write_range_helper_def mls_level_eq_iff Let_def eq_def [symmetric]
    by (simp only:) (rule writes_in_order, auto intro!: write_intros)
qed

lemma words_bytes_Cons: "words_bytes (w # ws) = words_bytes [w] @ words_bytes ws"
  by (simp add: words_bytes_def)

lemma mls_read_range_mem [read_simps]:
  assumes "range_ok r"
  shows "mls_read_range_helper no_oom (mem_file p (range_enc r @ d)) = Inr (mem_file (p @ range_enc r) d, r)"
proof (cases "high r = low r")
  case True
  then have "range_enc r = words_bytes [1] @ words_bytes [sens (low r)] @ ebitmap_enc (cat (low r))"
    using words_bytes_Cons [of 1 "[sens (low r)]"] by (simp add: range_enc_def)
  then show ?thesis
    using True assms
    by (auto simp: mls_read_range_helper_def range_ok_def level_ok_def ebitmap_read_mem read_simps Let_def
        intro!: mls_range.equality mls_level.equality)
next
  case False
  then have "range_enc r = words_bytes [2] @ words_bytes [sens (low r), sens (high r)] @ ebitmap_enc (cat (low r)) @ ebitmap_enc (cat (high r))"
    using words_bytes_Cons [of 2 "[sens (low r), sens (high r)]"] by (simp add: range_enc_def)
  then show ?thesis
    using False assms
    by (auto simp: mls_read_range_helper_def range_ok_def level_ok_def ebitmap_read_mem read_simps Let_def
        intro!: mls_range.equality mls_level.equality)
qed

interpretation mls_range: file_codec range_ok range_enc mls_write_range_helper "mls_read_range_helper no_oom"
  by (intro file_codecI) (auto simp: reads_def read_simps intro: write_intros)

end
