(* ===== verification/Roundtrip.thy ===== *)
theory Roundtrip
  imports Write_Laws
begin

text \<open>
  Hash tables that are written entry by entry are read back: a table is determined by its size and its
  entries.  Permissions and commons are the first symbols for which the reader undoes the writer.
\<close>

section \<open>Tables\<close>

lemma sorted_wrt_unique:
  assumes "\<And>x y. P x y \<Longrightarrow> \<not> P y x" and "sorted_wrt P xs" and "sorted_wrt P ys" and "set xs = set ys"
  shows "xs = ys"
  using assms(2-4)
proof (induction xs arbitrary: ys)
  case (Cons x xs)
  then obtain y ys' where ys: "ys = y # ys'" by (cases ys) auto
  have irrefl: "\<not> P z z" for z using assms(1) by blast
  have "x = y"
  proof (rule ccontr)
    assume "x \<noteq> y"
    then have "P y x" "P x y" using Cons.prems by (auto simp: ys)
    then show False using assms(1) by blast
  qed
  moreover have "x \<notin> set xs" "x \<notin> set ys'" using Cons.prems irrefl \<open>x = y\<close> by (auto simp: ys)
  then have "set xs = set ys'"
    using Cons.prems(3) \<open>x = y\<close> by (simp add: ys insert_eq_iff)
  ultimately show ?case using Cons by (simp add: ys)
qed simp

context hash_keys
begin

text \<open>The entries of a table and its size determine it.\<close>

lemma chain_set:
  assumes "hashtab_wf good hash cmp h" and "i < length (htable h)"
  shows "set (htable h ! i) = {(k, d). hmap h k = Some d \<and> home h k = i}"
proof -
  have "(k, d) \<in> set (htable h ! i) \<longleftrightarrow> hmap h k = Some d \<and> home h k = i" for k d
  proof
    assume "(k, d) \<in> set (htable h ! i)"
    then show "hmap h k = Some d \<and> home h k = i"
      using assms wfD(6) [OF assms] wfD(1) [OF assms(1)] hmap_Some_iff [OF assms(1)]
      by (force simp: home_def entries_def)
  next
    assume *: "hmap h k = Some d \<and> home h k = i"
    then obtain j where "j < length (htable h)" "(k, d) \<in> set (htable h ! j)"
      using hmap_Some_iff [OF assms(1)] by (auto simp: entries_def in_set_conv_nth [of _ "htable h"])
    with * show "(k, d) \<in> set (htable h ! i)"
      using wfD(6) [OF assms(1)] wfD(1) [OF assms(1)] by (fastforce simp: home_def)
  qed
  then show ?thesis by auto
qed

lemma table_unique:
  assumes wf: "hashtab_wf good hash cmp h" "hashtab_wf good hash cmp h'" and size: "hsize h = hsize h'" and eq: "hmap h = hmap h'"
    and count: "nel_ok h" "nel_ok h'"
  shows "h = h'"
proof -
  have home: "home h = home h'" using wf size by (simp add: home_def fun_eq_iff wfD(1))
  have len: "length (htable h) = length (htable h')" using wf size by (simp add: wfD(4))
  have "htable h = htable h'"
  proof (rule nth_equalityI [OF len])
    fix i assume i: "i < length (htable h)"
    show "htable h ! i = htable h' ! i"
    proof (rule sorted_wrt_unique)
      show "\<not> cmp (fst a) (fst b) > 0" if "cmp (fst b) (fst a) > 0" for a b :: "'k \<times> 'a"
        using that cmp_swap [of "fst b" "fst a"] by simp
      show "sorted_wrt (\<lambda>a b. cmp (fst b) (fst a) > 0) (htable h ! i)"
        "sorted_wrt (\<lambda>a b. cmp (fst b) (fst a) > 0) (htable h' ! i)"
        using wfD(5) [OF wf(1) i] wfD(5) [OF wf(2), of i] i len by (simp_all add: chain_sorted_def)
      show "set (htable h ! i) = set (htable h' ! i)"
        using chain_set [OF wf(1) i] chain_set [OF wf(2), of i] i len eq home by simp
    qed
  qed
  moreover have "nel h = nel h'" using calculation count by (simp add: nel_ok_def entries_def)
  ultimately show ?thesis
    using wf size by (intro hashtab_val.equality) (simp_all add: wfD(1,2))
qed

lemma entries_distinct: "hashtab_wf good hash cmp h \<Longrightarrow> distinct (map fst (entries h))"
proof -
  assume wf: "hashtab_wf good hash cmp h"
  have "distinct (map fst (concat cs))" if "\<forall>i < length cs. chain_sorted cmp (cs ! i) \<and> (\<forall>n \<in> set (cs ! i). f (fst n) = i + j)"
    for cs :: "('k \<times> 'a) list list" and f :: "'k \<Rightarrow> nat" and j
    using that
  proof (induction cs arbitrary: j)
    case (Cons c cs)
    have "\<forall>i < length cs. chain_sorted cmp (cs ! i) \<and> (\<forall>n \<in> set (cs ! i). f (fst n) = i + Suc j)"
      using Cons.prems by fastforce
    note rest = Cons.IH [OF this]
    have c: "chain_sorted cmp c" "\<forall>n \<in> set c. f (fst n) = j" using Cons.prems by fastforce+
    have "f (fst n) > j" if n: "n \<in> set (concat cs)" for n
    proof -
      obtain i where "i < length cs" "n \<in> set (cs ! i)" using n by (auto simp: in_set_conv_nth [of _ cs])
      then show ?thesis using \<open>\<forall>i < length cs. _\<close> by auto
    qed
    then have "fst ` set c \<inter> fst ` set (concat cs) = {}" using c(2) by fastforce
    then show ?case using chain_sorted_distinct [OF c(1)] rest by simp
  qed simp
  from this [of "htable h" "home h" 0] show ?thesis
    using wfD(5,6) [OF wf] wfD(1) [OF wf] by (simp add: entries_def home_def)
qed

end

lemma insert_size: "hashtab_insert m (Some h) k d = Inr (Some h') \<Longrightarrow> hsize h' = hsize h"
  by (cases "slot h k"; cases "chain_loop (keycmp h) k [] (htable h ! the (Some (projr (slot h k))))")
    (auto simp: hashtab_insert_def split: if_splits)

abbreviation sym_wf :: "(string, 'd) hashtab_val \<Rightarrow> bool" where
  "sym_wf \<equiv> hashtab_wf sym_size symhash symcmp"

text \<open>The end of the readers of symbols: the symbol is inserted.\<close>

definition added :: "policy_file \<Rightarrow> string \<Rightarrow> 'd \<Rightarrow> (string, 'd) hashtab \<Rightarrow> (policy_file \<times> (string, 'd) hashtab) result" where
  "added fp k d h = rbind (or_status (hashtab_insert no_oom h k d)) (\<lambda>h. Inr (fp, h))"

lemma or_status_idem [simp]: "or_status (or_status r) = or_status r"
  by (auto simp: or_status_def split: sum.splits err.splits)

lemma or_status_added [simp]: "or_status (added fp k d h) = added fp k d h"
  by (auto simp: added_def or_status_def rbind_def split: sum.splits err.splits)

lemma added_new:
  assumes "sym_wf h" and "hmap h k = None"
  obtains h' where "added fp k d (Some h) = Inr (fp, Some h')" "sym_wf h'" "hmap h' = (hmap h)(k \<mapsto> d)" "hsize h' = hsize h"
    "nel_ok h \<Longrightarrow> nel_ok h'"
proof (rule sym.insert_cases [OF assms(1), of k no_oom d])
  fix h' assume "hashtab_insert no_oom (Some h) k d = Inr (Some h')" "sym_wf h'" "hmap h' = (hmap h)(k \<mapsto> d)"
    "length (entries h') = Suc (length (entries h))" "nel h' = nel h + 1"
  then show thesis using that [of h'] insert_size [of no_oom h k d h'] by (simp add: added_def nel_ok_def)
qed (use assms in auto)

definition pairs_enc :: "(string \<Rightarrow> 'd \<Rightarrow> u8 list) \<Rightarrow> (string \<times> 'd) list \<Rightarrow> u8 list" where
  "pairs_enc enc es = concat (map (\<lambda>(k, d). enc k d) es)"

lemma read_table:
  assumes "\<And>i k d h p r. (k, d) \<in> set es \<Longrightarrow>
      f i (mem_file p (enc k d @ r), h) = (if keep k then added (mem_file (p @ enc k d) r) k (st d) h else Inr (mem_file (p @ enc k d) r, h))"
    and "length is = length es" and "distinct (map fst es)" and "sym_wf h" and "\<forall>k \<in> fst ` set es. keep k \<longrightarrow> hmap h k = None"
  shows "\<exists>h'. for_each f is (mem_file p (pairs_enc enc es @ r), Some h) = Inr (mem_file (p @ pairs_enc enc es) r, Some h') \<and>
    sym_wf h' \<and> hmap h' = hmap h ++ map_of (map (\<lambda>(k, d). (k, st d)) (filter (\<lambda>(k, d). keep k) es)) \<and> hsize h' = hsize h \<and>
    (nel_ok h \<longrightarrow> nel_ok h')"
  using assms(2,1,3-)
proof (induction "is" es arbitrary: p h rule: list_induct2)
  case Nil
  then show ?case by (simp add: pairs_enc_def)
next
  case (Cons i "is" e es)
  obtain k d where e: "e = (k, d)" by force
  let ?es = "map (\<lambda>(k, d). (k, st d)) (filter (\<lambda>(k, d). keep k) es)"
  note step = Cons.prems(1) [of k d i p "pairs_enc enc es @ r"]
  show ?case
  proof (cases "keep k")
    case True
    obtain h1 where h1: "added (mem_file (p @ enc k d) (pairs_enc enc es @ r)) k (st d) (Some h) = Inr (mem_file (p @ enc k d) (pairs_enc enc es @ r), Some h1)"
      "sym_wf h1" "hmap h1 = (hmap h)(k \<mapsto> st d)" "hsize h1 = hsize h" "nel_ok h \<Longrightarrow> nel_ok h1"
      using added_new [OF Cons.prems(3), of k] True Cons.prems(4) by (auto simp: e)
    have "\<forall>k' \<in> fst ` set es. keep k' \<longrightarrow> hmap h1 k' = None" using Cons.prems(2,4) h1(3) by (auto simp: e image_iff)
    then obtain h' where h': "for_each f is (mem_file (p @ enc k d) (pairs_enc enc es @ r), Some h1)
          = Inr (mem_file ((p @ enc k d) @ pairs_enc enc es) r, Some h')"
      "sym_wf h'" "hmap h' = hmap h1 ++ map_of ?es" "hsize h' = hsize h1" "nel_ok h1 \<longrightarrow> nel_ok h'"
      using Cons.IH [of h1 "p @ enc k d"] Cons.prems(1,2) h1(2) by (auto simp: e)
    have "k \<notin> fst ` set es" using Cons.prems(2) by (simp add: e)
    then have "k \<notin> dom (map_of ?es)" by (auto simp: dom_map_of_conv_image_fst image_iff)
    then have "hmap h1 ++ map_of ?es = hmap h ++ map_of ((k, st d) # ?es)"
      by (auto simp: h1(3) fun_eq_iff map_add_def domIff split: option.split)
    then have "hmap h' = hmap h ++ map_of ((k, st d) # ?es)" using h'(3) by (rule trans [rotated])
    moreover have "for_each f (i # is) (mem_file p (pairs_enc enc (e # es) @ r), Some h) = Inr (mem_file (p @ pairs_enc enc (e # es)) r, Some h')"
      using h'(1) h1(1) True step by (simp add: e pairs_enc_def)
    ultimately show ?thesis using h'(2,4,5) h1(4,5) True by (simp only: e filter.simps case_prod_conv list.map if_True) blast
  next
    case False
    then show ?thesis
      using Cons.IH [of h "p @ enc k d"] Cons.prems step by (auto simp: e pairs_enc_def)
  qed
qed

section \<open>Permissions and commons\<close>

definition table_ok :: "(string, 'd) hashtab_val \<Rightarrow> bool" where
  "table_ok h \<longleftrightarrow> sym_wf h \<and> nel_ok h \<and> (\<forall>k \<in> fst ` set (entries h). c_string k) \<and> length (entries h) < 2 ^ 32"

lemma table_ok_count: "table_ok h \<Longrightarrow> unat (nel h) = length (entries h)"
  by (simp add: table_ok_def nel_ok_def unat_of_nat)

lemma read_whole_table:
  assumes ok: "table_ok h" and h0: "sym_wf h0" "hmap h0 = Map.empty" "nel_ok h0" "hsize h0 = hsize h"
    and step: "\<And>i k d t p r. (k, d) \<in> set (entries h) \<Longrightarrow> f i (mem_file p (enc k d @ r), t) = added (mem_file (p @ enc k d) r) k d t"
  shows "for_each f (upto32 (nel h)) (mem_file p (pairs_enc enc (entries h) @ r), Some h0)
    = Inr (mem_file (p @ pairs_enc enc (entries h)) r, Some h)"
proof -
  have wf: "sym_wf h" using ok by (simp add: table_ok_def)
  obtain h' where h': "for_each f (upto32 (nel h)) (mem_file p (pairs_enc enc (entries h) @ r), Some h0)
        = Inr (mem_file (p @ pairs_enc enc (entries h)) r, Some h')"
    "sym_wf h'" "hmap h' = hmap h" "hsize h' = hsize h0" "nel_ok h'"
    using read_table [of "entries h" f enc "\<lambda>_. True" "\<lambda>d. d" "upto32 (nel h)" h0 p r] step h0
      table_ok_count [OF ok] sym.entries_distinct [OF wf] by (auto simp: case_prod_unfold hmap_def [of h])
  have "h' = h" using h' h0 ok wf by (intro sym.table_unique) (simp_all add: table_ok_def)
  then show ?thesis using h'(1) by simp
qed

lemma writes_table [write_intros]:
  assumes "sym_wf h" and "\<And>k d. (k, d) \<in> set (entries h) \<Longrightarrow> writes (wr k d) (enc k d)"
  shows "writes (hashtab_map (Some h) wr) (pairs_enc enc (entries h))"
proof -
  have "writes (for_each (\<lambda>n. wr (fst n) (snd n)) (entries h)) (concat (map (\<lambda>n. enc (fst n) (snd n)) (entries h)))"
    using assms(2) by (intro writes_for_each) auto
  then show ?thesis
    using hashtab_map_entries [OF sym.wfD(4) [OF assms(1)], of wr]
    by (simp add: writes_def pairs_enc_def case_prod_unfold)
qed

definition perm_enc :: "string \<Rightarrow> perm_datum \<Rightarrow> u8 list" where
  "perm_enc key d = concat [words_bytes [strlen32 key, perm_value d], string_bytes key]"

lemma writes_perm [write_intros]: "c_string key \<Longrightarrow> writes (perm_write key d) (perm_enc key d)"
  unfolding perm_write_def perm_enc_def by (intro write_intros) (simp add: write_intros c_string_def)

lemma datum_eta [read_simps]:
  "\<lparr>perm_value = perm_value d\<rparr> = d"
  "\<lparr>common_value = common_value c, common_permissions = common_permissions c\<rparr> = c"
  "\<lparr>permissions = permissions n, cn_expr = cn_expr n\<rparr> = n"
  "\<lparr>cat_value = cat_value ca, cat_isalias = cat_isalias ca\<rparr> = ca"
  by (simp_all add: perm_datum.equality common_datum.equality constraint_node.equality cat_datum.equality)

lemma perm_read_mem:
  "c_string key \<Longrightarrow> perm_read no_oom h (mem_file p (perm_enc key d @ r)) = added (mem_file (p @ perm_enc key d) r) key d h"
  by (simp add: perm_read_def perm_enc_def read_simps added_def)

text \<open>The tables of permissions have the size that the reader gives them.\<close>

definition perms_ok :: "perm_datum symtab \<Rightarrow> bool" where
  "perms_ok s \<longleftrightarrow> (\<exists>h. table s = Some h \<and> table_ok h \<and> hsize h = PERM_SYMTAB_SIZE)"

lemma empty_table:
  assumes "sym_size sz"
  obtains h where "symtab_init no_oom sz = Inr \<lparr>table = Some h, nprim = 0\<rparr>" "sym_wf h" "hmap h = Map.empty" "nel_ok h" "hsize h = sz"
proof -
  obtain h :: "(string, 'a) hashtab_val" where h: "hashtab_create no_oom symhash symcmp sz = Some h" "hsize h = sz"
    by (auto simp: hashtab_create_def)
  then show thesis using that [of h] sym.create_spec [OF assms h(1)] by (simp add: symtab_init_def)
qed

lemma perms_read_mem:
  assumes ok: "perms_ok s" and h: "table s = Some h"
  obtains s0 where "symtab_init no_oom PERM_SYMTAB_SIZE = Inr s0"
    "\<And>p r. perms_read no_oom (nel h) (s0\<lparr>nprim := nprim s\<rparr>) (mem_file p (pairs_enc perm_enc (entries h) @ r))
       = Inr (mem_file (p @ pairs_enc perm_enc (entries h)) r, s)"
proof -
  obtain h0 :: "(string, perm_datum) hashtab_val" where h0: "symtab_init no_oom PERM_SYMTAB_SIZE = Inr \<lparr>table = Some h0, nprim = 0\<rparr>"
    "sym_wf h0" "hmap h0 = Map.empty" "nel_ok h0" "hsize h0 = PERM_SYMTAB_SIZE"
    using empty_table [of PERM_SYMTAB_SIZE] by (auto simp: sym_size_def PERM_SYMTAB_SIZE_def)
  have t: "table_ok h" "hsize h = PERM_SYMTAB_SIZE" using ok h by (auto simp: perms_ok_def)
  have "perms_read no_oom (nel h) \<lparr>table = Some h0, nprim = nprim s\<rparr> (mem_file p (pairs_enc perm_enc (entries h) @ r))
      = Inr (mem_file (p @ pairs_enc perm_enc (entries h)) r, s)" for p r
  proof -
    have "for_each (\<lambda>i (fp, h). perm_read (at_site (unat i) no_oom) h fp) (upto32 (nel h))
          (mem_file p (pairs_enc perm_enc (entries h) @ r), Some h0) = Inr (mem_file (p @ pairs_enc perm_enc (entries h)) r, Some h)"
      using t h0 by (intro read_whole_table) (auto simp: perm_read_mem table_ok_def)
    then show ?thesis using h by (simp add: perms_read_def)
  qed
  then show thesis using that [OF h0(1)] by simp
qed

definition common_enc :: "string \<Rightarrow> common_datum \<Rightarrow> u8 list" where
  "common_enc key d =
     (case table (common_permissions d) of None \<Rightarrow> [] | Some h \<Rightarrow>
       concat [words_bytes [strlen32 key, common_value d, nprim (common_permissions d), nel h], string_bytes key, pairs_enc perm_enc (entries h)])"

definition common_ok :: "common_datum \<Rightarrow> bool" where
  "common_ok d \<longleftrightarrow> perms_ok (common_permissions d)"

lemma writes_perms [write_intros]: "table_ok h \<Longrightarrow> writes (hashtab_map (Some h) perm_write) (pairs_enc perm_enc (entries h))"
  by (intro write_intros) (force simp: table_ok_def)+

lemma writes_common [write_intros]:
  assumes "c_string key" and "common_ok d"
  shows "writes (common_write key d) (common_enc key d)"
proof -
  obtain h where h: "table (common_permissions d) = Some h" "table_ok h" using assms(2) by (auto simp: common_ok_def perms_ok_def)
  then show ?thesis
    unfolding common_write_def common_enc_def using assms(1)
    by (simp del: concat.simps) (intro write_intros, simp add: write_intros c_string_def)
qed

lemma common_read_mem:
  assumes "c_string key" and "common_ok d"
  shows "common_read no_oom h (mem_file p (common_enc key d @ r)) = added (mem_file (p @ common_enc key d) r) key d h"
proof -
  have ok: "perms_ok (common_permissions d)" using assms(2) by (simp add: common_ok_def)
  then obtain t where t: "table (common_permissions d) = Some t" by (auto simp: perms_ok_def)
  obtain s0 where "symtab_init no_oom PERM_SYMTAB_SIZE = Inr s0"
    "\<And>p r. perms_read no_oom (nel t) (s0\<lparr>nprim := nprim (common_permissions d)\<rparr>) (mem_file p (pairs_enc perm_enc (entries t) @ r))
       = Inr (mem_file (p @ pairs_enc perm_enc (entries t)) r, common_permissions d)"
    using perms_read_mem [OF ok t] by blast
  then show ?thesis
    using assms(1) by (simp add: common_read_def common_enc_def t read_simps added_def)
qed

end
