(* ===== verification/Symbol_Roundtrip.thy ===== *)
theory Symbol_Roundtrip
  imports Roundtrip
begin

text \<open>
  Classes with their constraints, roles, types, users, Booleans, sensitivities and categories: the reader of
  a symbol gets from the bytes of the writer the datum that was written, up to the fields that the format
  does not have.
\<close>

section \<open>Formats\<close>

text \<open>The kind and the version of a policy decide which fields are written.\<close>

definition same_format :: "policydb \<Rightarrow> policydb \<Rightarrow> bool" where
  "same_format p q \<longleftrightarrow> policy_type q = policy_type p \<and> policyvers q = policyvers p"

lemma same_formatD:
  assumes "same_format p q"
  shows "policy_type q = policy_type p" "policyvers q = policyvers p" "kern_or_base q = kern_or_base p"
    "policydb_has_boundary_feature q = policydb_has_boundary_feature p" "boundary_alias q = boundary_alias p"
    "type_to_read q = type_to_read p" "set_properties q = set_properties p" "type_fields q = type_fields p"
proof -
  have eq: "policy_type q = policy_type p" "policyvers q = policyvers p" using assms by (simp_all add: same_format_def)
  then show "policy_type q = policy_type p" "policyvers q = policyvers p" "kern_or_base q = kern_or_base p"
    "policydb_has_boundary_feature q = policydb_has_boundary_feature p" "boundary_alias q = boundary_alias p"
    by (simp_all add: kern_or_base_def fun_eq_iff policydb_has_boundary_feature_def boundary_alias_def)
  then show "type_to_read q = type_to_read p" and props: "set_properties q = set_properties p"
    by (simp_all add: type_to_read_def set_properties_def fun_eq_iff)
  then show "type_fields q = type_fields p"
    using eq \<open>policydb_has_boundary_feature q = _\<close> \<open>boundary_alias q = _\<close> by (simp add: type_fields_def fun_eq_iff Let_def cong: if_cong)
qed

section \<open>Constraints\<close>

definition has_type_names :: "policydb \<Rightarrow> bool" where
  "has_type_names p \<longleftrightarrow> policy_type p \<noteq> POLICY_KERN \<or> policyvers p \<ge> POLICYDB_VERSION_CONSTRAINT_NAMES"

definition cexpr_enc :: "policydb \<Rightarrow> constraint_expr \<Rightarrow> u8 list" where
  "cexpr_enc p e =
     concat (words_bytes [expr_type e, attr e, cop e] #
       (if expr_type e = CEXPR_NAMES
        then [ebitmap_enc (names e), if has_type_names p then type_set_enc (the (type_names e)) else []] else []))"

text \<open>An expression that a reader can return, and the depth of the stack after it.\<close>

definition cexpr_ok :: "policydb \<Rightarrow> bool \<Rightarrow> constraint_expr \<Rightarrow> bool" where
  "cexpr_ok p allowx e \<longleftrightarrow>
     (\<exists>t. type_names e = Some t \<and> type_set_ok t \<and>
       (if expr_type e = CEXPR_NAMES
        then (allowx \<or> attr e AND CEXPR_XTARGET = 0) \<and> ebitmap_wf (names e) \<and> (has_type_names p \<or> t = type_set_init)
        else names e = ebitmap_init \<and> t = type_set_init))"

definition cexpr_depth :: "constraint_expr \<Rightarrow> int \<Rightarrow> int option" where
  "cexpr_depth e depth =
     (if expr_type e = CEXPR_NOT then if depth < 0 then None else Some depth
      else if expr_type e = CEXPR_AND \<or> expr_type e = CEXPR_OR then if depth < 1 then None else Some (depth - 1)
      else if expr_type e = CEXPR_ATTR \<or> expr_type e = CEXPR_NAMES then if depth = int CEXPR_MAXDEPTH - 1 then None else Some (depth + 1)
      else None)"

fun exprs_depth :: "constraint_expr list \<Rightarrow> int \<Rightarrow> int option" where
  "exprs_depth [] depth = Some depth"
| "exprs_depth (e # es) depth = (case cexpr_depth e depth of None \<Rightarrow> None | Some d \<Rightarrow> exprs_depth es d)"

lemma writes_cexpr:
  assumes "cexpr_ok p allowx e"
  shows "writes (write_cexpr p allowx e) (cexpr_enc p e)"
proof -
  obtain t where t: "type_names e = Some t" using assms by (auto simp: cexpr_ok_def)
  show ?thesis
    using assms unfolding write_cexpr_def cexpr_enc_def has_type_names_def [symmetric] t option.sel
    by (intro writes_in_order) (auto simp: cexpr_ok_def intro!: write_intros)
qed

lemma read_cexpr_mem:
  assumes ok: "cexpr_ok p allowx e" and depth: "cexpr_depth e n = Some n'" and fmt: "same_format p q"
  shows "read_cexpr no_oom q allowx (mem_file f (cexpr_enc p e @ r)) n = Inr (mem_file (f @ cexpr_enc p e) r, n', e)"
proof -
  obtain t where t: "type_names e = Some t" "type_set_ok t" using ok by (auto simp: cexpr_ok_def)
  have names: "(policy_type q \<noteq> POLICY_KERN \<or> policyvers q \<ge> POLICYDB_VERSION_CONSTRAINT_NAMES) = has_type_names p"
    by (simp add: has_type_names_def same_formatD [OF fmt])
  have eta: "\<lparr>expr_type = expr_type e, attr = attr e, cop = cop e, names = names e, type_names = Some t\<rparr> = e"
    by (rule constraint_expr.equality) (simp_all add: t)
  show ?thesis
  proof (cases "expr_type e = CEXPR_NAMES")
    case True
    then have kinds: "expr_type e \<noteq> CEXPR_NOT" "expr_type e \<noteq> CEXPR_AND" "expr_type e \<noteq> CEXPR_OR" "expr_type e \<noteq> CEXPR_ATTR"
      by (simp_all add: CEXPR_NAMES_def CEXPR_NOT_def CEXPR_AND_def CEXPR_OR_def CEXPR_ATTR_def)
    have "n \<noteq> int CEXPR_MAXDEPTH - 1" "n' = n + 1" using depth kinds True by (auto simp: cexpr_depth_def split: if_splits)
    with True kinds ok t eta show ?thesis
      unfolding read_cexpr_def names
      by (cases "has_type_names p")
        (simp_all add: cexpr_enc_def cexpr_ok_def constraint_expr_init_def ebitmap_read_mem read_simps Let_def)
  next
    case False
    then show ?thesis
      using ok depth t eta
      by (auto simp: read_cexpr_def cexpr_enc_def cexpr_ok_def cexpr_depth_def constraint_expr_init_def read_simps Let_def split: if_splits)
  qed
qed

definition cons_enc :: "policydb \<Rightarrow> constraint_node \<Rightarrow> u8 list" where
  "cons_enc p c = concat [words_bytes [permissions c, count32 (cn_expr c)], concat (map (cexpr_enc p) (cn_expr c))]"

definition cons_ok :: "policydb \<Rightarrow> bool \<Rightarrow> constraint_node \<Rightarrow> bool" where
  "cons_ok p allowx c \<longleftrightarrow>
     (\<forall>e \<in> set (cn_expr c). cexpr_ok p allowx e) \<and> exprs_depth (cn_expr c) (- 1) = Some 0 \<and> length (cn_expr c) < 2 ^ 32"

lemma writes_cons:
  assumes "\<forall>c \<in> set cs. cons_ok p allowx c"
  shows "writes (write_cons_helper p cs allowx) (concat (map (cons_enc p) cs))"
  unfolding write_cons_helper_def cons_enc_def using assms
  by (intro writes_for_each writes_in_order) (auto simp: cons_ok_def intro!: write_intros writes_cexpr)

lemma exprs_read_mem:
  assumes "\<forall>e \<in> set es. cexpr_ok p allowx e" and "exprs_depth es n = Some n'" and "same_format p q" and "length is = length es"
  shows "for_each (\<lambda>j (fp, depth, es). rbind (read_cexpr no_oom q allowx fp depth) (\<lambda>(fp, depth, e). Inr (fp, depth, es @ [e]))) is
      (mem_file f (concat (map (cexpr_enc p) es) @ r), n, acc)
    = Inr (mem_file (f @ concat (map (cexpr_enc p) es)) r, n', acc @ es)"
  using assms(4,1,2)
proof (induction "is" es arbitrary: f n acc rule: list_induct2)
  case (Cons i "is" e es)
  then obtain n1 where n1: "cexpr_depth e n = Some n1" "exprs_depth es n1 = Some n'" by (auto split: option.splits)
  then show ?case using Cons read_cexpr_mem [OF _ n1(1) assms(3)] by simp
qed simp

lemma read_cons_mem:
  assumes "cons_ok p allowx c" and "same_format p q"
  shows "read_cons no_oom q allowx (mem_file f (cons_enc p c @ r)) = Inr (mem_file (f @ cons_enc p c) r, c)"
  using assms exprs_read_mem [of "cn_expr c" p allowx "- 1" 0 q "upto32 (count32 (cn_expr c))"]
  by (simp add: read_cons_def cons_enc_def cons_ok_def read_simps unat_of_nat)

lemma read_cons_helper_mem [read_simps]:
  assumes "\<forall>c \<in> set cs. cons_ok p allowx c" and "same_format p q" and "length cs < 2 ^ 32" and "n = count32 cs"
  shows "read_cons_helper no_oom q n allowx (mem_file f (concat (map (cons_enc p) cs) @ r))
    = Inr (mem_file (f @ concat (map (cons_enc p) cs)) r, cs)"
  unfolding read_cons_helper_def
  using assms read_list [of cs _ "cons_enc p" "\<lambda>c. c" n f r] by (simp add: read_cons_mem)

section \<open>Classes\<close>

definition vtrans_enc :: "policydb \<Rightarrow> class_datum \<Rightarrow> u8 list" where
  "vtrans_enc p d =
     (if kern_or_base p POLICYDB_VERSION_VALIDATETRANS MOD_POLICYDB_VERSION_VALIDATETRANS
      then concat [words_bytes [count32 (validatetrans d)], concat (map (cons_enc p) (validatetrans d))] else [])"

definition defaults_enc :: "policydb \<Rightarrow> class_datum \<Rightarrow> u8 list" where
  "defaults_enc p d =
     (if kern_or_base p POLICYDB_VERSION_NEW_OBJECT_DEFAULTS MOD_POLICYDB_VERSION_NEW_OBJECT_DEFAULTS
      then words_bytes [scast (default_user d), scast (default_role d), scast (default_range d)] else [])"

definition default_type_enc :: "policydb \<Rightarrow> class_datum \<Rightarrow> u8 list" where
  "default_type_enc p d =
     (if kern_or_base p POLICYDB_VERSION_DEFAULT_TYPE MOD_POLICYDB_VERSION_DEFAULT_TYPE
      then words_bytes [scast (default_type d)] else [])"

definition class_enc :: "policydb \<Rightarrow> string \<Rightarrow> class_datum \<Rightarrow> u8 list" where
  "class_enc p key d =
     (case table (class_permissions d) of None \<Rightarrow> [] | Some h \<Rightarrow>
      concat
       [words_bytes [strlen32 key, (case comkey d of None \<Rightarrow> 0 | Some k \<Rightarrow> strlen32 k), class_value d, nprim (class_permissions d), nel h,
          count32 (constraints d)],
        string_bytes key, (case comkey d of None \<Rightarrow> [] | Some k \<Rightarrow> string_bytes k), pairs_enc perm_enc (entries h),
        concat (map (cons_enc p) (constraints d)),
        vtrans_enc p d, defaults_enc p d, default_type_enc p d])"

text \<open>A class that refers to a common of the policy, with the fields that the version of the policy has.\<close>

definition class_ok :: "policydb \<Rightarrow> class_datum \<Rightarrow> bool" where
  "class_ok p d \<longleftrightarrow>
     perms_ok (class_permissions d) \<and>
     (case comkey d of None \<Rightarrow> comdatum d = None
      | Some k \<Rightarrow> c_string k \<and> k \<noteq> [] \<and> comdatum d \<noteq> None \<and> symtab_map (p_commons p) k = comdatum d) \<and>
     (\<forall>c \<in> set (constraints d). cons_ok p False c) \<and> length (constraints d) < 2 ^ 32 \<and>
     (if kern_or_base p POLICYDB_VERSION_VALIDATETRANS MOD_POLICYDB_VERSION_VALIDATETRANS
      then (\<forall>c \<in> set (validatetrans d). cons_ok p True c) \<and> length (validatetrans d) < 2 ^ 32 else validatetrans d = []) \<and>
     (kern_or_base p POLICYDB_VERSION_NEW_OBJECT_DEFAULTS MOD_POLICYDB_VERSION_NEW_OBJECT_DEFAULTS \<or>
      default_user d = 0 \<and> default_role d = 0 \<and> default_range d = 0) \<and>
     (kern_or_base p POLICYDB_VERSION_DEFAULT_TYPE MOD_POLICYDB_VERSION_DEFAULT_TYPE \<or> default_type d = 0)"

lemma writes_class:
  assumes "c_string key" and "class_ok p d"
  shows "writes (class_write p key d) (class_enc p key d)"
proof -
  obtain h where h: "table (class_permissions d) = Some h" "table_ok h" using assms(2) by (auto simp: class_ok_def perms_ok_def)
  have com: "writes (case comkey d of None \<Rightarrow> Inr | Some k \<Rightarrow> put_name k) (case comkey d of None \<Rightarrow> [] | Some k \<Rightarrow> string_bytes k)"
    using assms(2) by (auto simp: class_ok_def c_string_def split: option.splits intro!: write_intros)
  have vt: "writes (put_if (kern_or_base p POLICYDB_VERSION_VALIDATETRANS MOD_POLICYDB_VERSION_VALIDATETRANS)
      (in_order [put_words [count32 (validatetrans d)], write_cons_helper p (validatetrans d) True])) (vtrans_enc p d)"
    unfolding vtrans_enc_def using assms(2)
    by (intro writes_put_if writes_in_order) (simp add: class_ok_def write_intros writes_cons)
  show ?thesis
    using assms h(2) com vt unfolding class_write_def class_enc_def h(1) option.case
    by (intro writes_in_order)
      (simp add: c_string_def class_ok_def write_intros writes_cons writes_put_if defaults_enc_def default_type_enc_def)
qed

lemma byte_of_signed [read_simps]: "ucast (scast x :: u32) = x" for x :: u8
  by (rule bit_word_eqI) (auto simp: bit_ucast_iff bit_signed_iff)

lemma byte_of_word [read_simps]: "ucast (ucast x :: u32) = x" for x :: u8
  by (rule bit_word_eqI) (auto simp: bit_ucast_iff)

lemma read_comkey_mem:
  assumes "class_ok p d" and "\<And>k. hashtab_search (table (p_commons q)) k = Inr (symtab_map (p_commons p) k)"
  shows "read_comkey no_oom q (case comkey d of None \<Rightarrow> 0 | Some k \<Rightarrow> strlen32 k)
      (mem_file f ((case comkey d of None \<Rightarrow> [] | Some k \<Rightarrow> string_bytes k) @ r))
    = Inr (mem_file (f @ (case comkey d of None \<Rightarrow> [] | Some k \<Rightarrow> string_bytes k)) r, comkey d, comdatum d)"
proof (cases "comkey d")
  case None
  then show ?thesis using assms(1) by (simp add: read_comkey_def class_ok_def)
next
  case (Some k)
  then have k: "c_string k" "k \<noteq> []" "comdatum d \<noteq> None" "symtab_map (p_commons p) k = comdatum d"
    using assms(1) by (auto simp: class_ok_def)
  have "unat (strlen32 k) = length k" using k(1) by (simp add: c_string_def unat_of_nat)
  then have "strlen32 k \<noteq> 0" using k(2) by (metis length_0_conv unat_0)
  with Some k assms(2) show ?thesis by (auto simp: read_comkey_def read_simps)
qed

lemma class_eta:
  "validatetrans d = v \<Longrightarrow> default_user d = du \<Longrightarrow> default_role d = dr \<Longrightarrow> default_type d = dt \<Longrightarrow> default_range d = dg \<Longrightarrow>
   \<lparr>class_value = class_value d, comkey = comkey d, comdatum = comdatum d, class_permissions = class_permissions d,
      constraints = constraints d, validatetrans = v, default_user = du, default_role = dr, default_type = dt, default_range = dg\<rparr> = d"
  by (simp add: class_datum.equality)

lemma class_read_mem:
  assumes "c_string key" and ok: "class_ok p d" and fmt: "same_format p q"
    and com: "\<And>k. hashtab_search (table (p_commons q)) k = Inr (symtab_map (p_commons p) k)"
  shows "class_read no_oom q h (mem_file f (class_enc p key d @ r)) = added (mem_file (f @ class_enc p key d) r) key d h"
proof -
  have pok: "perms_ok (class_permissions d)" using ok by (simp add: class_ok_def)
  then obtain t where t: "table (class_permissions d) = Some t" by (auto simp: perms_ok_def)
  obtain s0 where s0: "symtab_init no_oom PERM_SYMTAB_SIZE = Inr s0"
    "\<And>f r. perms_read no_oom (nel t) (s0\<lparr>nprim := nprim (class_permissions d)\<rparr>) (mem_file f (pairs_enc perm_enc (entries t) @ r))
       = Inr (mem_file (f @ pairs_enc perm_enc (entries t)) r, class_permissions d)"
    using perms_read_mem [OF pok t] by blast
  define k where "k = kern_or_base p"
  have ok': "\<forall>c \<in> set (constraints d). cons_ok p False c" "length (constraints d) < 2 ^ 32"
    "if k POLICYDB_VERSION_VALIDATETRANS MOD_POLICYDB_VERSION_VALIDATETRANS
     then (\<forall>c \<in> set (validatetrans d). cons_ok p True c) \<and> length (validatetrans d) < 2 ^ 32 else validatetrans d = []"
    "k POLICYDB_VERSION_NEW_OBJECT_DEFAULTS MOD_POLICYDB_VERSION_NEW_OBJECT_DEFAULTS \<or> default_user d = 0 \<and> default_role d = 0 \<and> default_range d = 0"
    "k POLICYDB_VERSION_DEFAULT_TYPE MOD_POLICYDB_VERSION_DEFAULT_TYPE \<or> default_type d = 0"
    using ok unfolding class_ok_def k_def by blast+
  then show ?thesis
    using assms(1)
    unfolding class_read_def class_enc_def vtrans_enc_def defaults_enc_def default_type_enc_def same_formatD [OF fmt] t option.case added_def
      k_def [symmetric]
    by (cases "k POLICYDB_VERSION_VALIDATETRANS MOD_POLICYDB_VERSION_VALIDATETRANS";
        cases "k POLICYDB_VERSION_NEW_OBJECT_DEFAULTS MOD_POLICYDB_VERSION_NEW_OBJECT_DEFAULTS";
        cases "k POLICYDB_VERSION_DEFAULT_TYPE MOD_POLICYDB_VERSION_DEFAULT_TYPE")
      (simp_all add: read_simps s0 read_comkey_mem [OF ok com] read_cons_helper_mem [OF _ fmt] class_eta)
qed

section \<open>Roles\<close>

definition role_attrs :: "policydb \<Rightarrow> bool" where
  "role_attrs p \<longleftrightarrow> policy_type p \<noteq> POLICY_KERN \<and> policyvers p \<ge> MOD_POLICYDB_VERSION_ROLEATTRIB"

definition role_enc :: "policydb \<Rightarrow> string \<Rightarrow> role_datum \<Rightarrow> u8 list" where
  "role_enc p key d =
     concat [words_bytes ([strlen32 key, role_value d] @ (if policydb_has_boundary_feature p then [role_bounds d] else [])),
       string_bytes key, ebitmap_enc (dominates d),
       (if policy_type p = POLICY_KERN then ebitmap_enc (ts_types (role_types d)) else type_set_enc (role_types d)),
       (if role_attrs p then concat [words_bytes [role_flavor d], ebitmap_enc (role_roles d)] else [])]"

definition role_ok :: "policydb \<Rightarrow> role_datum \<Rightarrow> bool" where
  "role_ok p d \<longleftrightarrow>
     ebitmap_wf (dominates d) \<and> type_set_ok (role_types d) \<and>
     (policy_type p = POLICY_KERN \<longrightarrow> negset (role_types d) = ebitmap_init \<and> ts_flags (role_types d) = 0) \<and>
     (policydb_has_boundary_feature p \<or> role_bounds d = 0) \<and>
     (if role_attrs p then ebitmap_wf (role_roles d) else role_flavor d = 0 \<and> role_roles d = ebitmap_init)"

text \<open>The caches are not written.\<close>

definition stored_role :: "role_datum \<Rightarrow> role_datum" where
  "stored_role d = d\<lparr>role_cache := ebitmap_init\<rparr>"

lemma writes_role:
  assumes "c_string key" and "role_ok p d"
  shows "writes (role_write p key d) (role_enc p key d)"
proof -
  have skip: "(role_flavor d = ROLE_ATTRIB \<and> skips_role_attributes p) = False"
    using assms(2) by (auto simp: role_ok_def skips_role_attributes_def role_attrs_def ROLE_ATTRIB_def not_le split: if_splits)
  moreover have "writes (put_if (role_attrs p) (in_order [put_words [role_flavor d], ebitmap_write (role_roles d)]))
      (if role_attrs p then concat [words_bytes [role_flavor d], ebitmap_enc (role_roles d)] else [])"
    by (intro writes_put_if writes_in_order) (simp add: write_intros)
  ultimately show ?thesis
    using assms(1) unfolding role_write_def role_enc_def role_attrs_def [symmetric] skip if_False
    by (intro writes_in_order) (auto simp: c_string_def intro!: write_intros)
qed

lemma role_read_mem:
  assumes "c_string key" and ok: "role_ok p d" and fmt: "same_format p q"
  shows "role_read no_oom q h (mem_file f (role_enc p key d @ r)) =
    (if key = OBJECT_R then if role_value d = OBJECT_R_VAL then Inr (mem_file (f @ role_enc p key d) r, h) else Inl STATUS_ERR
     else added (mem_file (f @ role_enc p key d) r) key (stored_role d) h)"
proof -
  have attrs: "(policy_type q \<noteq> POLICY_KERN \<and> policyvers q \<ge> MOD_POLICYDB_VERSION_ROLEATTRIB) = role_attrs p"
    by (simp add: role_attrs_def same_formatD [OF fmt])
  have types: "type_set_init\<lparr>ts_types := ts_types (role_types d)\<rparr> = role_types d" if "policy_type p = POLICY_KERN"
    using ok that by (intro type_set.equality) (simp_all add: role_ok_def type_set_init_def)
  have st: "role_zero\<lparr>role_value := role_value d, dominates := dominates d, role_types := role_types d,
      role_bounds := role_bounds d, role_flavor := role_flavor d, role_roles := role_roles d\<rparr> = stored_role d"
    by (simp add: stored_role_def role_zero_def role_datum.equality)
  show ?thesis
    using assms(1) ok types st unfolding role_read_def role_enc_def attrs same_formatD [OF fmt]
    by (cases "policy_type p = POLICY_KERN"; cases "role_attrs p"; cases "policydb_has_boundary_feature p")
      (simp_all add: read_simps role_ok_def type_set_ok_def ebitmap_read_mem added_def strcmp_eq Let_def role_attrs_def)
qed

section \<open>Types\<close>

definition type_enc :: "policydb \<Rightarrow> string \<Rightarrow> type_datum \<Rightarrow> u8 list" where
  "type_enc p key d =
     concat [words_bytes ([strlen32 key, type_value d] @ type_words p d),
       (if policy_type p \<noteq> POLICY_KERN then ebitmap_enc (type_types d) else []), string_bytes key]"

text \<open>The flavors, flags and bounds that the version of the policy can hold.\<close>

definition type_ok :: "policydb \<Rightarrow> type_datum \<Rightarrow> bool" where
  "type_ok p d \<longleftrightarrow>
     (if policy_type p = POLICY_KERN then type_types d = ebitmap_init else ebitmap_wf (type_types d)) \<and>
     (if policydb_has_boundary_feature p
      then (type_flavor d = 0 \<or> type_flavor d = TYPE_ATTRIB \<or> policy_type p \<noteq> POLICY_KERN \<and> type_flavor d = TYPE_ALIAS) \<and>
        (type_flags d = 0 \<or> policy_type p \<noteq> POLICY_KERN \<and> type_flags d = TYPE_FLAGS_PERMISSIVE) \<and>
        (boundary_alias p \<or> primary d = 0 \<or> primary d = 1)
      else type_bounds d = 0 \<and>
        (policy_type p = POLICY_KERN \<longrightarrow> type_flavor d = 0) \<and>
        (policy_type p \<noteq> POLICY_KERN \<and> policyvers p \<ge> MOD_POLICYDB_VERSION_PERMISSIVE \<or> type_flags d = 0))"

lemma writes_type:
  assumes "c_string key" and "type_ok p d"
  shows "writes (type_write p key d) (type_enc p key d)"
proof -
  have skip: "(skips_type_attributes p \<and> type_flavor d = TYPE_ATTRIB) = False"
    using assms(2) by (auto simp: type_ok_def skips_type_attributes_def policydb_has_boundary_feature_def TYPE_ATTRIB_def not_le)
  have "length (type_words p d) \<le> 3" by (simp add: type_words_def)
  then show ?thesis
    using assms(1) unfolding type_write_def type_enc_def skip if_False
    by (intro writes_in_order) (auto simp: c_string_def intro!: write_intros)
qed

lemma length_type_words: "length (type_words p d) + 2 = type_to_read p"
  by (auto simp: type_words_def type_to_read_def boundary_alias_def)

lemma property_bits:
  "TYPEDATUM_PROPERTY_PRIMARY = 1" "TYPEDATUM_PROPERTY_ATTRIBUTE = 2" "TYPEDATUM_PROPERTY_ALIAS = 4" "TYPEDATUM_PROPERTY_PERMISSIVE = 8"
  "TYPE_ATTRIB = 1" "TYPE_ALIAS = 2" "TYPE_FLAGS_PERMISSIVE = 1"
  by (simp_all add: TYPEDATUM_PROPERTY_PRIMARY_def TYPEDATUM_PROPERTY_ATTRIBUTE_def TYPEDATUM_PROPERTY_ALIAS_def
      TYPEDATUM_PROPERTY_PERMISSIVE_def TYPE_ATTRIB_def TYPE_ALIAS_def TYPE_FLAGS_PERMISSIVE_def)

lemma type_properties_bits:
  "(type_properties p d AND TYPEDATUM_PROPERTY_PRIMARY \<noteq> 0) = (primary d \<noteq> 0)"
  "(type_properties p d AND TYPEDATUM_PROPERTY_ATTRIBUTE \<noteq> 0) = (type_flavor d = TYPE_ATTRIB)"
  "(type_properties p d AND TYPEDATUM_PROPERTY_ALIAS \<noteq> 0) = (type_flavor d = TYPE_ALIAS \<and> policy_type p \<noteq> POLICY_KERN)"
  "(type_properties p d AND TYPEDATUM_PROPERTY_PERMISSIVE \<noteq> 0) = (type_flags d AND TYPE_FLAGS_PERMISSIVE \<noteq> 0 \<and> policy_type p \<noteq> POLICY_KERN)"
  by (simp_all add: type_properties_def property_bits)

lemma set_properties_back:
  assumes "type_ok p d" and "policydb_has_boundary_feature p" and "type_flavor e = 0" and "type_flags e = 0"
  shows "set_properties p (type_properties p d) e = e\<lparr>type_flavor := type_flavor d, type_flags := type_flags d\<rparr>"
proof -
  have fl: "type_flavor d = 0 \<or> type_flavor d = TYPE_ATTRIB \<or> policy_type p \<noteq> POLICY_KERN \<and> type_flavor d = TYPE_ALIAS"
    "type_flags d = 0 \<or> policy_type p \<noteq> POLICY_KERN \<and> type_flags d = TYPE_FLAGS_PERMISSIVE"
    using assms(1,2) by (simp_all add: type_ok_def)
  have "type_flavor (set_properties p (type_properties p d) e) = type_flavor d"
    using fl(1) assms(3) unfolding set_properties_def type_properties_bits Let_def by (auto simp: property_bits)
  moreover have "type_flags (set_properties p (type_properties p d) e) = type_flags d"
    using fl(2) assms(4) unfolding set_properties_def type_properties_bits Let_def by (auto simp: property_bits)
  ultimately show ?thesis
    by (intro type_datum.equality) (simp_all add: set_properties_def Let_def)
qed

lemma type_fields_back:
  assumes "type_ok p d"
  shows "(type_fields p ([n, type_value d] @ type_words p d))\<lparr>type_types := type_types d\<rparr> = d"
proof (cases "policydb_has_boundary_feature p")
  case True
  note props = set_properties_back [OF assms True]
  have bit: "primary d = 1" if "\<not> boundary_alias p" "primary d \<noteq> 0" using assms True that by (simp add: type_ok_def)
  have "type_fields p ([n, type_value d] @ type_words p d) =
      \<lparr>type_value = type_value d, primary = primary d, type_flavor = type_flavor d, type_types = ebitmap_init, type_flags = type_flags d,
       type_bounds = type_bounds d\<rparr>"
    using True props bit type_properties_bits(1) [of p d]
    by (cases "boundary_alias p"; cases "primary d = 0") (simp_all add: type_fields_def type_words_def type_zero_def Let_def)
  then show ?thesis by (simp add: type_datum.equality)
next
  case False
  then show ?thesis
    using assms
    by (cases "policy_type p = POLICY_KERN"; cases "policyvers p \<ge> MOD_POLICYDB_VERSION_PERMISSIVE")
      (simp_all add: type_fields_def type_words_def type_zero_def type_ok_def Let_def type_datum.equality)
qed

lemma type_read_mem:
  assumes "c_string key" and ok: "type_ok p d" and fmt: "same_format p q"
  shows "type_read no_oom q h (mem_file f (type_enc p key d @ r)) = added (mem_file (f @ type_enc p key d) r) key d h"
proof -
  have len: "length ([strlen32 key, type_value d] @ type_words p d) = type_to_read p" using length_type_words [of p d] by simp
  have types: "type_types d = ebitmap_init" if "policy_type p = POLICY_KERN" using ok that by (simp add: type_ok_def)
  have wf: "ebitmap_wf (type_types d)" if "policy_type p \<noteq> POLICY_KERN" using ok that by (simp add: type_ok_def)
  show ?thesis
    using assms(1) types wf type_fields_back [OF ok, of "strlen32 key"] read_words_mem [OF len]
    unfolding type_read_def type_enc_def same_formatD [OF fmt]
    by (cases "policy_type p = POLICY_KERN") (simp_all add: read_simps ebitmap_read_mem added_def)
qed

section \<open>Semantic levels and users\<close>

definition sem_level_enc :: "mls_semantic_level \<Rightarrow> u8 list" where
  "sem_level_enc l = concat [words_bytes [ssens l, count32 (scat l)], concat (map (\<lambda>c. words_bytes [slow c, shigh c]) (scat l))]"

text \<open>The reader puts every category in front of those it has: the list comes back in the reverse order.\<close>

definition rev_level :: "mls_semantic_level \<Rightarrow> mls_semantic_level" where
  "rev_level l = l\<lparr>scat := rev (scat l)\<rparr>"

definition rev_range :: "mls_semantic_range \<Rightarrow> mls_semantic_range" where
  "rev_range r = \<lparr>srlow = rev_level (srlow r), srhigh = rev_level (srhigh r)\<rparr>"

lemma writes_sem_level [write_intros]:
  "writes (mls_write_semantic_level_helper l) (sem_level_enc l)"
  unfolding mls_write_semantic_level_helper_def sem_level_enc_def
  by (intro writes_in_order) (auto intro!: write_intros)

lemma sem_level_read_mem [read_simps]:
  assumes "length (scat l) < 2 ^ 32"
  shows "mls_read_semantic_level_helper no_oom (mem_file f (sem_level_enc l @ r)) = Inr (mem_file (f @ sem_level_enc l) r, rev_level l)"
proof -
  define body where "body = (\<lambda>(i :: u32) (fp, cs). if \<not> malloc (at_site (unat i) no_oom) then Inl EINVAL
    else rbind (read_words 2 fp) (\<lambda>(fp, b). Inr (fp, \<lparr>slow = b ! 0, shigh = b ! 1\<rparr> # cs)))"
  have "foldl (\<lambda>acc x. x # acc) acc xs = rev xs @ acc" for acc and xs :: "mls_semantic_cat list"
    by (induction xs arbitrary: acc) simp_all
  moreover have "for_each body (upto32 (count32 (scat l))) (mem_file f (concat (map (\<lambda>c. words_bytes [slow c, shigh c]) (scat l)) @ r), [])
      = Inr (mem_file (f @ concat (map (\<lambda>c. words_bytes [slow c, shigh c]) (scat l))) r, foldl (\<lambda>acc x. x # acc) [] (scat l))" for f
    using assms by (intro read_loop) (simp_all add: body_def read_simps unat_of_nat)
  ultimately show ?thesis
    unfolding mls_read_semantic_level_helper_def body_def [symmetric]
    by (simp add: sem_level_enc_def read_simps rev_level_def)
qed

definition sem_range_enc :: "mls_semantic_range \<Rightarrow> u8 list" where
  "sem_range_enc r = concat [sem_level_enc (srlow r), sem_level_enc (srhigh r)]"

definition sem_range_ok :: "mls_semantic_range \<Rightarrow> bool" where
  "sem_range_ok r \<longleftrightarrow> length (scat (srlow r)) < 2 ^ 32 \<and> length (scat (srhigh r)) < 2 ^ 32"

lemma writes_sem_range [write_intros]: "writes (mls_write_semantic_range_helper r) (sem_range_enc r)"
  unfolding mls_write_semantic_range_helper_def sem_range_enc_def by (intro writes_in_order) (simp add: write_intros)

lemma sem_range_read_mem [read_simps]:
  "sem_range_ok x \<Longrightarrow> mls_read_semantic_range_helper no_oom (mem_file f (sem_range_enc x @ r)) = Inr (mem_file (f @ sem_range_enc x) r, rev_range x)"
  by (simp add: mls_read_semantic_range_helper_def sem_range_enc_def sem_range_ok_def rev_range_def read_simps)

text \<open>Kernel policies have expanded ranges, modules semantic ones; in between were modules that had both.\<close>

definition expanded_users :: "policydb \<Rightarrow> bool" where
  "expanded_users p \<longleftrightarrow> policy_type p = POLICY_KERN \<and> policyvers p \<ge> POLICYDB_VERSION_MLS"

definition semantic_users :: "policydb \<Rightarrow> bool" where
  "semantic_users p \<longleftrightarrow> (policy_type p = POLICY_MOD \<or> policy_type p = POLICY_BASE) \<and> policyvers p \<ge> MOD_POLICYDB_VERSION_MLS_USERS"

definition user_enc :: "policydb \<Rightarrow> string \<Rightarrow> user_datum \<Rightarrow> u8 list" where
  "user_enc p key d =
     concat [words_bytes ([strlen32 key, user_value d] @ (if policydb_has_boundary_feature p then [user_bounds d] else [])),
       string_bytes key,
       (if policy_type p = POLICY_KERN then ebitmap_enc (rs_roles (user_roles d)) else role_set_enc (user_roles d)),
       (if expanded_users p then concat [range_enc (exp_range d), level_enc (exp_dfltlevel d)]
        else concat [sem_range_enc (user_range d), sem_level_enc (user_dfltlevel d)])]"

definition user_ok :: "policydb \<Rightarrow> user_datum \<Rightarrow> bool" where
  "user_ok p d \<longleftrightarrow>
     role_set_ok (user_roles d) \<and> (policy_type p = POLICY_KERN \<longrightarrow> rs_flags (user_roles d) = 0) \<and>
     (policydb_has_boundary_feature p \<or> user_bounds d = 0) \<and>
     (if expanded_users p then range_ok (exp_range d) \<and> level_ok (exp_dfltlevel d)
      else sem_range_ok (user_range d) \<and> length (scat (user_dfltlevel d)) < 2 ^ 32)"

definition stored_user :: "policydb \<Rightarrow> user_datum \<Rightarrow> user_datum" where
  "stored_user p d =
     (let u = user_zero\<lparr>user_value := user_value d, user_roles := user_roles d, user_bounds := user_bounds d\<rparr> in
      if expanded_users p then u\<lparr>exp_range := exp_range d, exp_dfltlevel := exp_dfltlevel d\<rparr>
      else u\<lparr>user_range := rev_range (user_range d), user_dfltlevel := rev_level (user_dfltlevel d)\<rparr>)"

lemma user_formats:
  assumes "expanded_users p \<or> semantic_users p"
  shows "(policy_type p = POLICY_KERN \<and> policyvers p \<ge> POLICYDB_VERSION_MLS \<or>
      (policy_type p = POLICY_MOD \<or> policy_type p = POLICY_BASE) \<and> policyvers p \<ge> MOD_POLICYDB_VERSION_MLS \<and>
      policyvers p < MOD_POLICYDB_VERSION_MLS_USERS) = expanded_users p"
    and "((policy_type p = POLICY_MOD \<or> policy_type p = POLICY_BASE) \<and> policyvers p \<ge> MOD_POLICYDB_VERSION_MLS_USERS) = semantic_users p"
    and "expanded_users p \<longleftrightarrow> \<not> semantic_users p" "expanded_users p \<longleftrightarrow> policy_type p = POLICY_KERN"
  using assms by (auto simp: expanded_users_def semantic_users_def POLICY_KERN_def POLICY_MOD_def POLICY_BASE_def)

lemma writes_user:
  assumes "c_string key" and "expanded_users p \<or> semantic_users p"
  shows "writes (user_write p key d) (user_enc p key d)"
proof -
  note fmt = user_formats [OF assms(2)]
  show ?thesis
  proof (cases "expanded_users p")
    case True
    then have "user_enc p key d = concat [words_bytes ([strlen32 key, user_value d] @ (if policydb_has_boundary_feature p then [user_bounds d] else [])),
        string_bytes key, ebitmap_enc (rs_roles (user_roles d)), range_enc (exp_range d), level_enc (exp_dfltlevel d)]"
      using fmt by (simp add: user_enc_def)
    then show ?thesis
      using True assms(1) fmt(4) unfolding user_write_def fmt(1,2)
      by (simp only: if_True append.simps) (rule writes_in_order, auto simp: c_string_def intro!: write_intros)
  next
    case False
    then have "user_enc p key d = concat [words_bytes ([strlen32 key, user_value d] @ (if policydb_has_boundary_feature p then [user_bounds d] else [])),
        string_bytes key, role_set_enc (user_roles d), sem_range_enc (user_range d), sem_level_enc (user_dfltlevel d)]"
      using fmt by (simp add: user_enc_def)
    then show ?thesis
      using False assms(1) fmt(3,4) unfolding user_write_def fmt(1,2)
      by (simp only: if_True if_False append.simps not_False_eq_True simp_thms) (rule writes_in_order, auto simp: c_string_def intro!: write_intros)
  qed
qed

lemma user_mls_read_mem:
  assumes ok: "user_ok p d" and fmt: "same_format p q" and users: "expanded_users p \<or> semantic_users p"
  shows "user_mls_read no_oom q (user_zero\<lparr>user_value := user_value d, user_roles := user_roles d, user_bounds := user_bounds d\<rparr>)
      (mem_file f ((if expanded_users p then concat [range_enc (exp_range d), level_enc (exp_dfltlevel d)]
        else concat [sem_range_enc (user_range d), sem_level_enc (user_dfltlevel d)]) @ r))
    = Inr (mem_file (f @ (if expanded_users p then concat [range_enc (exp_range d), level_enc (exp_dfltlevel d)]
        else concat [sem_range_enc (user_range d), sem_level_enc (user_dfltlevel d)])) r, stored_user p d)"
  using ok user_formats [OF users]
  unfolding user_mls_read_def same_formatD [OF fmt] user_formats(1,2) [OF users]
  by (cases "expanded_users p") (simp_all add: user_ok_def read_simps stored_user_def Let_def)

lemma user_read_mem:
  assumes "c_string key" and ok: "user_ok p d" and fmt: "same_format p q" and users: "expanded_users p \<or> semantic_users p"
  shows "user_read no_oom q h (mem_file f (user_enc p key d @ r)) = added (mem_file (f @ user_enc p key d) r) key (stored_user p d) h"
proof -
  have roles: "role_set_init\<lparr>rs_roles := rs_roles (user_roles d)\<rparr> = user_roles d" if "policy_type p = POLICY_KERN"
    using ok that by (intro role_set.equality) (simp_all add: user_ok_def role_set_init_def)
  have bounds: "\<not> policydb_has_boundary_feature p \<Longrightarrow> user_bounds d = 0" using ok by (simp add: user_ok_def)
  define tail where "tail = (if expanded_users p then concat [range_enc (exp_range d), level_enc (exp_dfltlevel d)]
    else concat [sem_range_enc (user_range d), sem_level_enc (user_dfltlevel d)])"
  note mls = user_mls_read_mem [OF ok fmt users, folded tail_def]
  have "role_set_ok (user_roles d)" using ok by (simp add: user_ok_def)
  then show ?thesis
    using assms(1) roles bounds mls unfolding user_read_def user_enc_def same_formatD [OF fmt] tail_def [symmetric]
    by (cases "policy_type p = POLICY_KERN"; cases "policydb_has_boundary_feature p")
      (simp_all add: read_simps role_set_ok_def ebitmap_read_mem added_def Let_def)
qed

section \<open>Booleans, sensitivities and categories\<close>

definition tunables :: "policydb \<Rightarrow> bool" where
  "tunables p \<longleftrightarrow> policy_type p \<noteq> POLICY_KERN \<and> policyvers p \<ge> MOD_POLICYDB_VERSION_TUNABLE_SEP"

definition bool_enc :: "policydb \<Rightarrow> string \<Rightarrow> cond_bool_datum \<Rightarrow> u8 list" where
  "bool_enc p key d =
     concat [words_bytes [bool_value d, word_of_int (state d), strlen32 key], string_bytes key, if tunables p then words_bytes [bool_flags d] else []]"

definition bool_ok :: "policydb \<Rightarrow> cond_bool_datum \<Rightarrow> bool" where
  "bool_ok p d \<longleftrightarrow> bool_isvalid d \<and> (tunables p \<or> bool_flags d = 0)"

lemma writes_bool: "c_string key \<Longrightarrow> writes (cond_write_bool p key d) (bool_enc p key d)"
  unfolding cond_write_bool_def bool_enc_def tunables_def [symmetric]
  by (intro writes_in_order) (auto simp: c_string_def intro!: write_intros)

lemma bool_read_mem:
  assumes "c_string key" and ok: "bool_ok p d" and fmt: "same_format p q"
  shows "cond_read_bool no_oom q h (mem_file f (bool_enc p key d @ r)) = added (mem_file (f @ bool_enc p key d) r) key d h"
proof -
  have tun: "(policy_type q \<noteq> POLICY_KERN \<and> policyvers q \<ge> MOD_POLICYDB_VERSION_TUNABLE_SEP) = tunables p"
    by (simp add: tunables_def same_formatD [OF fmt])
  have st: "sint (word_of_int (state d) :: u32) = state d" using ok by (auto simp: bool_ok_def bool_isvalid_def)
  have eta: "\<lparr>bool_value = bool_value d, state = state d, bool_flags = b\<rparr> = d" if "bool_flags d = b" for b
    using that by (simp add: cond_bool_datum.equality)
  have flags: "\<not> tunables p \<Longrightarrow> bool_flags d = 0" using ok by (simp add: bool_ok_def)
  have valid: "state d = 0 \<or> state d = 1" using ok by (simp add: bool_ok_def bool_isvalid_def)
  show ?thesis
    using assms(1) st valid flags unfolding cond_read_bool_def bool_enc_def tun
    by (cases "tunables p") (auto simp add: read_simps added_def Let_def bool_isvalid_def eta)
qed

definition sens_enc :: "string \<Rightarrow> level_datum \<Rightarrow> u8 list" where
  "sens_enc key d = concat [words_bytes [strlen32 key, ucast (level_isalias d)], string_bytes key, level_enc (the (level d))]"

definition sens_ok :: "level_datum \<Rightarrow> bool" where
  "sens_ok d \<longleftrightarrow> (\<exists>l. level d = Some l \<and> level_ok l)"

definition stored_sens :: "level_datum \<Rightarrow> level_datum" where
  "stored_sens d = d\<lparr>level_defined := 0\<rparr>"

lemma writes_sens: "c_string key \<Longrightarrow> sens_ok d \<Longrightarrow> writes (sens_write key d) (sens_enc key d)"
  unfolding sens_write_def sens_enc_def sens_ok_def
  by (elim exE, intro writes_in_order) (auto simp: c_string_def intro!: write_intros)

lemma sens_read_mem:
  assumes "c_string key" and "sens_ok d"
  shows "sens_read no_oom h (mem_file f (sens_enc key d @ r)) = added (mem_file (f @ sens_enc key d) r) key (stored_sens d) h"
proof -
  have "\<lparr>level = level d, level_isalias = level_isalias d, level_defined = 0\<rparr> = stored_sens d"
    by (simp add: stored_sens_def level_datum.equality)
  then show ?thesis using assms by (auto simp: sens_read_def sens_enc_def sens_ok_def read_simps added_def)
qed

definition cat_enc :: "string \<Rightarrow> cat_datum \<Rightarrow> u8 list" where
  "cat_enc key d = concat [words_bytes [strlen32 key, cat_value d, ucast (cat_isalias d)], string_bytes key]"

lemma writes_cat: "c_string key \<Longrightarrow> writes (cat_write key d) (cat_enc key d)"
  unfolding cat_write_def cat_enc_def by (intro writes_in_order) (auto simp: c_string_def intro!: write_intros)

lemma cat_read_mem:
  "c_string key \<Longrightarrow> cat_read no_oom h (mem_file f (cat_enc key d @ r)) = added (mem_file (f @ cat_enc key d) r) key d h"
  by (simp add: cat_read_def cat_enc_def read_simps added_def)

end
