(* ===== verification/Table_Roundtrip.thy ===== *)
theory Table_Roundtrip
  imports Server_Laws Symbol_Roundtrip
begin

text \<open>
  The eight symbol tables of a policy, written by \<^verbatim>\<open>policydb_write\<close> and read back by
  \<^verbatim>\<open>policydb_read\<close> into a new database.
\<close>

section \<open>One table\<close>

text \<open>
  The writer leaves out the symbols that the version of the policy does not have, and counts only the others;
  the reader leaves alone those that are already there.
\<close>

definition written_symbols :: "('d \<Rightarrow> bool) \<Rightarrow> (string, 'd) hashtab_val \<Rightarrow> (string \<times> 'd) list" where
  "written_symbols w h = filter (\<lambda>(k, d). w d) (entries h)"

definition symtab_enc :: "(string \<Rightarrow> 'd \<Rightarrow> u8 list) \<Rightarrow> ('d \<Rightarrow> bool) \<Rightarrow> 'd symtab \<Rightarrow> u8 list" where
  "symtab_enc enc w s =
     (case table s of None \<Rightarrow> [] | Some h \<Rightarrow>
       concat [words_bytes [nprim s, count32 (written_symbols w h)], pairs_enc enc (written_symbols w h)])"

definition symtab_ok :: "(string \<Rightarrow> 'd \<Rightarrow> bool) \<Rightarrow> ('d \<Rightarrow> bool) \<Rightarrow> 'd symtab \<Rightarrow> bool" where
  "symtab_ok ok w s \<longleftrightarrow> (\<exists>h. table s = Some h \<and> table_ok h \<and> (\<forall>(k, d) \<in> set (entries h). w d \<longrightarrow> ok k d))"

definition kept :: "(string \<Rightarrow> bool) \<Rightarrow> ('d \<Rightarrow> bool) \<Rightarrow> ('d \<Rightarrow> 'd) \<Rightarrow> 'd symtab \<Rightarrow> string \<rightharpoonup> 'd" where
  "kept keep w st s = (\<lambda>k. Option.bind (symtab_map s k) (\<lambda>d. if keep k \<and> w d then Some (st d) else None))"

definition restored :: "(string \<Rightarrow> bool) \<Rightarrow> ('d \<Rightarrow> bool) \<Rightarrow> ('d \<Rightarrow> 'd) \<Rightarrow> 'd symtab \<Rightarrow> 'd symtab \<Rightarrow> 'd symtab \<Rightarrow> bool" where
  "restored keep w st s s0 s' \<longleftrightarrow> symtab_wf s' \<and> nprim s' = nprim s \<and> symtab_map s' = symtab_map s0 ++ kept keep w st s"

lemma uncount:
  assumes "\<And>k d n. f k d n = Inr (if w d then n else n - 1)"
  shows "for_each (\<lambda>n. f (fst n) (snd n)) es c = Inr (c - count32 es + count32 (filter (\<lambda>(k, d). w d) es) :: u32)"
proof (induction es arbitrary: c)
  case (Cons e es)
  have "for_each (\<lambda>n. f (fst n) (snd n)) (e # es) c = for_each (\<lambda>n. f (fst n) (snd n)) es (if w (snd e) then c else c - 1)"
    using assms by simp
  then show ?case unfolding Cons.IH by (simp add: case_prod_unfold)
qed simp

lemma pairs_enc_written:
  "pairs_enc enc (written_symbols w h) = pairs_enc (\<lambda>k d. if w d then enc k d else []) (entries h)"
proof -
  have "pairs_enc enc (filter (\<lambda>(k, d). w d) es) = pairs_enc (\<lambda>k d. if w d then enc k d else []) es" for es :: "(string \<times> 'd) list"
    and enc :: "string \<Rightarrow> 'd \<Rightarrow> u8 list" and w
    by (induction es) (auto simp: pairs_enc_def)
  then show ?thesis by (simp add: written_symbols_def)
qed

lemma writes_symtab:
  assumes ok: "symtab_ok ok w s"
    and wr: "\<And>k d. c_string k \<Longrightarrow> (w d \<Longrightarrow> ok k d) \<Longrightarrow> writes (wr k d) (if w d then enc k d else [])"
    and cnt: "\<And>h. sym_wf h \<Longrightarrow> nel h = count32 (entries h) \<Longrightarrow> cnt (Some h) (nel h) = Inr (count32 (written_symbols w h))"
  shows "writes (write_symtab cnt wr s) (symtab_enc enc w s)"
proof -
  obtain h where h: "table s = Some h" "table_ok h" "\<forall>(k, d) \<in> set (entries h). w d \<longrightarrow> ok k d"
    using ok by (auto simp: symtab_ok_def)
  have body: "writes (hashtab_map (Some h) wr) (pairs_enc enc (written_symbols w h))"
    using h(2,3) unfolding pairs_enc_written by (intro writes_table wr) (force simp: table_ok_def)+
  have "writes (in_order [put_words [nprim s, count32 (written_symbols w h)], hashtab_map (Some h) wr])
      (concat [words_bytes [nprim s, count32 (written_symbols w h)], pairs_enc enc (written_symbols w h)])"
    using body by (intro writes_in_order) (simp add: write_intros)
  moreover have "cnt (Some h) (nel h) = Inr (count32 (written_symbols w h))"
    using h(2) by (intro cnt) (simp_all add: table_ok_def nel_ok_def)
  ultimately show ?thesis by (simp add: writes_def write_symtab_def symtab_enc_def h(1))
qed

lemma kept_written:
  assumes "table s = Some h" and "sym_wf h"
  shows "map_of (map (\<lambda>(k, d). (k, st d)) (filter (\<lambda>(k, d). keep k) (written_symbols w h))) = kept keep w st s"
proof -
  have "map_of (map (\<lambda>(k, d). (k, st d)) (filter (\<lambda>(k, d). keep k) (filter (\<lambda>(k, d). w d) es))) k =
      Option.bind (map_of es k) (\<lambda>d. if keep k \<and> w d then Some (st d) else None)" if "distinct (map fst es)" for es :: "(string \<times> 'a) list" and k
    using that by (induction es) (auto simp: map_of_eq_None_iff image_iff split: Option.bind_split)
  then show ?thesis
    using assms sym.entries_distinct [OF assms(2)] by (simp add: fun_eq_iff kept_def symtab_map_def hmap_def written_symbols_def)
qed

lemma symtab_back:
  assumes ok: "symtab_ok ok w s" and fresh: "symtab_wf (get q)" "\<forall>k. keep k \<longrightarrow> symtab_map (get q) k = None"
    and step: "\<And>k d t f r. c_string k \<Longrightarrow> ok k d \<Longrightarrow>
      or_status (rf no_oom (put (table_update (\<lambda>_. t)) q) t (mem_file f (enc k d @ r))) =
        (if keep k then added (mem_file (f @ enc k d) r) k (st d) t else Inr (mem_file (f @ enc k d) r, t))"
  shows "\<exists>s'. read_symtab no_oom get put rf q (mem_file f (symtab_enc enc w s @ r)) =
    Inr (mem_file (f @ symtab_enc enc w s) r, put (\<lambda>_. s') q) \<and> restored keep w st s (get q) s'"
proof -
  obtain h where h: "table s = Some h" "table_ok h" "\<forall>(k, d) \<in> set (entries h). w d \<longrightarrow> ok k d"
    using ok by (auto simp: symtab_ok_def)
  let ?es = "written_symbols w h"
  obtain h0 where h0: "table (get q) = Some h0" "sym_wf h0" using fresh(1) by (auto simp: symtab_wf_def)
  have wf: "sym_wf h" and names: "\<forall>k \<in> fst ` set (entries h). c_string k" using h(2) by (simp_all add: table_ok_def)
  have "length ?es \<le> length (entries h)" by (simp add: written_symbols_def)
  then have len: "length (upto32 (count32 ?es)) = length ?es" using h(2) by (simp add: table_ok_def unat_of_nat)
  have dist: "distinct (map fst ?es)"
    using sym.entries_distinct [OF wf] by (simp add: written_symbols_def distinct_map_filter)
  define body where "body = (\<lambda>(j :: u32) (fp, t). or_status (rf (at_site (unat j) no_oom) (put (table_update (\<lambda>_. t)) q) t fp))"
  have run: "body i (mem_file f (enc k d @ r), t) = (if keep k then added (mem_file (f @ enc k d) r) k (st d) t else Inr (mem_file (f @ enc k d) r, t))"
    if "(k, d) \<in> set ?es" for i k d t f r
  proof -
    have "c_string k" "ok k d" using that h(3) names by (force simp: written_symbols_def)+
    then show ?thesis by (simp add: body_def step)
  qed
  define f' where "f' = f @ words_bytes [nprim s, count32 ?es]"
  obtain h' where h': "for_each body (upto32 (count32 ?es)) (mem_file f' (pairs_enc enc ?es @ r), Some h0) =
      Inr (mem_file (f' @ pairs_enc enc ?es) r, Some h')" "sym_wf h'"
    "hmap h' = hmap h0 ++ map_of (map (\<lambda>(k, d). (k, st d)) (filter (\<lambda>(k, d). keep k) ?es))"
    using read_table [of ?es body enc keep st "upto32 (count32 ?es)" h0 f' r] run len dist h0 fresh(2) by (auto simp: symtab_map_def)
  have "restored keep w st s (get q) \<lparr>table = Some h', nprim = nprim s\<rparr>"
    using h'(2,3) h0(1) kept_written [OF h(1) wf, of st keep w] by (simp add: restored_def symtab_wf_def symtab_map_def)
  moreover have "read_symtab no_oom get put rf q (mem_file f (symtab_enc enc w s @ r)) =
    Inr (mem_file (f @ symtab_enc enc w s) r, put (\<lambda>_. \<lparr>table = Some h', nprim = nprim s\<rparr>) q)"
    using h'(1) by (simp add: read_symtab_def symtab_enc_def h(1) h0(1) read_simps body_def f'_def)
  ultimately show ?thesis by blast
qed

section \<open>The tables of a policy\<close>

definition written_role :: "policydb \<Rightarrow> role_datum \<Rightarrow> bool" where
  "written_role p d \<longleftrightarrow> \<not> (skips_role_attributes p \<and> role_flavor d = ROLE_ATTRIB)"

definition written_type :: "policydb \<Rightarrow> type_datum \<Rightarrow> bool" where
  "written_type p d \<longleftrightarrow> \<not> (skips_type_attributes p \<and> type_flavor d = TYPE_ATTRIB)"

abbreviation every :: "'a \<Rightarrow> bool" where
  "every \<equiv> (\<lambda>_. True)"

abbreviation plain_role :: "string \<Rightarrow> bool" where
  "plain_role k \<equiv> k \<noteq> OBJECT_R"

text \<open>Policies whose symbols the format can hold.\<close>

definition symbols_ok :: "policydb \<Rightarrow> bool" where
  "symbols_ok p \<longleftrightarrow>
     (expanded_users p \<or> semantic_users p) \<and>
     symtab_ok (\<lambda>_. common_ok) every (p_commons p) \<and>
     symtab_ok (\<lambda>_. class_ok p) every (p_classes p) \<and>
     symtab_ok (\<lambda>k d. role_ok p d \<and> (k = OBJECT_R \<longrightarrow> role_value d = OBJECT_R_VAL)) (written_role p) (p_roles p) \<and>
     symtab_ok (\<lambda>_. type_ok p) (written_type p) (p_types p) \<and>
     symtab_ok (\<lambda>_. user_ok p) every (p_users p) \<and>
     symtab_ok (\<lambda>_. bool_ok p) every (p_bools p) \<and>
     symtab_ok (\<lambda>_. sens_ok) every (p_levels p) \<and>
     symtab_ok (\<lambda>_ _. True) every (p_cats p)"

definition symtabs_enc :: "policydb \<Rightarrow> u8 list" where
  "symtabs_enc p =
     concat [symtab_enc common_enc every (p_commons p), symtab_enc (class_enc p) every (p_classes p),
       symtab_enc (role_enc p) (written_role p) (p_roles p), symtab_enc (type_enc p) (written_type p) (p_types p),
       symtab_enc (user_enc p) every (p_users p), symtab_enc (bool_enc p) every (p_bools p),
       symtab_enc sens_enc every (p_levels p), symtab_enc cat_enc every (p_cats p)]"

lemma count_all: "sym_wf h \<Longrightarrow> nel h = count32 (entries h) \<Longrightarrow> all_symbols (Some h) (nel h) = Inr (count32 (written_symbols every h))"
  by (simp add: written_symbols_def case_prod_unfold)

lemma count_some:
  assumes "\<And>k d n. f k d n = Inr (if w d then n else n - 1)" and "sym_wf h" and "nel h = count32 (entries h)"
  shows "hashtab_map (Some h) f (nel h) = Inr (count32 (written_symbols w h))"
  using hashtab_map_entries [OF sym.wfD(4) [OF assms(2)], of f "nel h"] uncount [of f w "entries h" "nel h", OF assms(1)] assms(3)
  by (simp add: written_symbols_def)

lemma count_roles:
  assumes "sym_wf h" and "nel h = count32 (entries h)"
  shows "(if skips_role_attributes p then (\<lambda>h. hashtab_map h role_attr_uncount) else all_symbols) (Some h) (nel h)
    = Inr (count32 (written_symbols (written_role p) h))"
proof (cases "skips_role_attributes p")
  case True
  then show ?thesis using count_some [of role_attr_uncount "written_role p", OF _ assms] by (simp add: role_attr_uncount_def written_role_def)
next
  case False
  then have "written_role p = every" by (simp add: fun_eq_iff written_role_def)
  with False count_all [OF assms] show ?thesis by simp
qed

lemma count_types:
  assumes "sym_wf h" and "nel h = count32 (entries h)"
  shows "(if skips_type_attributes p then (\<lambda>h. hashtab_map h type_attr_uncount) else all_symbols) (Some h) (nel h)
    = Inr (count32 (written_symbols (written_type p) h))"
proof (cases "skips_type_attributes p")
  case True
  then show ?thesis using count_some [of type_attr_uncount "written_type p", OF _ assms] by (simp add: type_attr_uncount_def written_type_def)
next
  case False
  then have "written_type p = every" by (simp add: fun_eq_iff written_type_def)
  with False count_all [OF assms] show ?thesis by simp
qed

lemma writes_all_symbols:
  assumes "symtab_ok ok every s" and "\<And>k d. c_string k \<Longrightarrow> ok k d \<Longrightarrow> writes (wr k d) (enc k d)"
  shows "writes (write_symtab all_symbols wr s) (symtab_enc enc every s)"
  by (rule writes_symtab [OF assms(1) _ count_all]) (simp_all add: assms(2))

lemma writes_nothing: "writes Inr []"
  by (simp add: writes_def)

lemma writes_symtabs:
  assumes "symbols_ok p"
  shows "writes (write_symtabs p 8) (symtabs_enc p)"
proof -
  have ok: "expanded_users p \<or> semantic_users p" using assms by (simp add: symbols_ok_def)
  have role: "writes (role_write p k d) (if written_role p d then role_enc p k d else [])"
    if "c_string k" "written_role p d \<Longrightarrow> role_ok p d \<and> (k = OBJECT_R \<longrightarrow> role_value d = OBJECT_R_VAL)" for k d
    using that writes_role [of k p d] writes_nothing by (cases "written_role p d") (auto simp: written_role_def role_write_def)
  have type: "writes (type_write p k d) (if written_type p d then type_enc p k d else [])"
    if "c_string k" "written_type p d \<Longrightarrow> type_ok p d" for k d
    using that writes_type [of k p d] writes_nothing by (cases "written_type p d") (auto simp: written_type_def type_write_def)
  have oks: "symtab_ok (\<lambda>_. common_ok) every (p_commons p)" "symtab_ok (\<lambda>_. class_ok p) every (p_classes p)"
    "symtab_ok (\<lambda>_. user_ok p) every (p_users p)" "symtab_ok (\<lambda>_. bool_ok p) every (p_bools p)"
    "symtab_ok (\<lambda>_. sens_ok) every (p_levels p)" "symtab_ok (\<lambda>_ _. True) every (p_cats p)"
    using assms by (simp_all add: symbols_ok_def)
  note writes_all_symbols [OF oks(1) writes_common] writes_all_symbols [OF oks(2) writes_class]
    writes_all_symbols [OF oks(3) writes_user [OF _ ok]] writes_all_symbols [OF oks(4) writes_bool]
    writes_all_symbols [OF oks(5) writes_sens] writes_all_symbols [OF oks(6) writes_cat]
  moreover have "writes (write_symtab (if skips_role_attributes p then (\<lambda>h. hashtab_map h role_attr_uncount) else all_symbols) (role_write p) (p_roles p))
      (symtab_enc (role_enc p) (written_role p) (p_roles p))"
    by (rule writes_symtab [OF _ role count_roles]) (use assms in \<open>auto simp: symbols_ok_def\<close>)
  moreover have "writes (write_symtab (if skips_type_attributes p then (\<lambda>h. hashtab_map h type_attr_uncount) else all_symbols) (type_write p) (p_types p))
      (symtab_enc (type_enc p) (written_type p) (p_types p))"
    by (rule writes_symtab [OF _ type count_types]) (use assms in \<open>auto simp: symbols_ok_def\<close>)
  ultimately show ?thesis
    unfolding write_symtabs_def symtabs_enc_def by (intro writes_in_order) simp
qed

text \<open>A database that has no symbols but the role \<^verbatim>\<open>object_r\<close>, as \<^verbatim>\<open>policydb_init\<close> leaves it.\<close>

definition fresh_symbols :: "policydb \<Rightarrow> bool" where
  "fresh_symbols q \<longleftrightarrow>
     empty_table (p_commons q) \<and> empty_table (p_classes q) \<and> empty_table (p_types q) \<and> empty_table (p_users q) \<and>
     empty_table (p_bools q) \<and> empty_table (p_levels q) \<and> empty_table (p_cats q) \<and>
     symtab_wf (p_roles q) \<and> (\<forall>k. k \<noteq> OBJECT_R \<longrightarrow> symtab_map (p_roles q) k = None)"

definition same_symbols :: "policydb \<Rightarrow> policydb \<Rightarrow> policydb \<Rightarrow> bool" where
  "same_symbols p q q' \<longleftrightarrow>
     restored every every id (p_commons p) (p_commons q) (p_commons q') \<and>
     restored every every id (p_classes p) (p_classes q) (p_classes q') \<and>
     restored plain_role (written_role p) stored_role (p_roles p) (p_roles q) (p_roles q') \<and>
     restored every (written_type p) id (p_types p) (p_types q) (p_types q') \<and>
     restored every every (stored_user p) (p_users p) (p_users q) (p_users q') \<and>
     restored every every id (p_bools p) (p_bools q) (p_bools q') \<and>
     restored every every stored_sens (p_levels p) (p_levels q) (p_levels q') \<and>
     restored every every id (p_cats p) (p_cats q) (p_cats q')"

lemma fresh_back:
  assumes "symtab_ok ok w s" and "empty_table (get q)"
    and "\<And>k d t f r. c_string k \<Longrightarrow> ok k d \<Longrightarrow>
      or_status (rf no_oom (put (table_update (\<lambda>_. t)) q) t (mem_file f (enc k d @ r))) = added (mem_file (f @ enc k d) r) k (st d) t"
  shows "\<exists>s'. read_symtab no_oom get put rf q (mem_file f (symtab_enc enc w s @ r)) =
    Inr (mem_file (f @ symtab_enc enc w s) r, put (\<lambda>_. s') q) \<and> restored every w st s (get q) s'"
  using symtab_back [of ok w s get q every rf put enc st f r] assms by (simp add: empty_table_def)

lemma restored_search:
  assumes "restored every every id s s0 s'" and "empty_table s0"
  shows "hashtab_search (table s') k = Inr (symtab_map s k)"
proof -
  have "symtab_map s' k = symtab_map s k"
    using assms by (auto simp: restored_def empty_table_def kept_def map_add_def split: option.split)
  then show ?thesis using assms(1) symtab_search [of s' k] by (simp add: restored_def)
qed

lemma read_symtabs_8:
  "read_symtabs no_oom 8 = (\<lambda>q fp.
     rbind (read_symtab no_oom p_commons p_commons_update (\<lambda>m _. common_read m) q fp) (\<lambda>(fp, q).
     rbind (read_symtab no_oom p_classes p_classes_update class_read q fp) (\<lambda>(fp, q).
     rbind (read_symtab no_oom p_roles p_roles_update role_read q fp) (\<lambda>(fp, q).
     rbind (read_symtab no_oom p_types p_types_update type_read q fp) (\<lambda>(fp, q).
     rbind (read_symtab no_oom p_users p_users_update user_read q fp) (\<lambda>(fp, q).
     rbind (read_symtab no_oom p_bools p_bools_update cond_read_bool q fp) (\<lambda>(fp, q).
     rbind (read_symtab no_oom p_levels p_levels_update (\<lambda>m _. sens_read m) q fp) (\<lambda>(fp, q).
       read_symtab no_oom p_cats p_cats_update (\<lambda>m _. cat_read m) q fp))))))))"
proof -
  have "[0..<8] = [0, 1, 2, 3, 4, 5, 6, 7]" by (simp add: upt_rec)
  then show ?thesis by (simp add: fun_eq_iff read_symtabs_def Let_def rbind_def split: sum.split prod.split)
qed

text \<open>A reader that changes the database, with what then holds of it.\<close>

definition reads_as ::
  "('p \<Rightarrow> policy_file \<Rightarrow> (policy_file \<times> 'p) result) \<Rightarrow> u8 list \<Rightarrow> 'p \<Rightarrow> ('p \<Rightarrow> bool) \<Rightarrow> bool"
where
  "reads_as rd e q Q \<longleftrightarrow> (\<forall>f r. \<exists>q'. rd q (mem_file f (e @ r)) = Inr (mem_file (f @ e) r, q') \<and> Q q')"

lemma reads_as_table:
  "(\<And>f r. \<exists>s. rd q (mem_file f (e @ r)) = Inr (mem_file (f @ e) r, up s) \<and> R s) \<Longrightarrow>
   reads_as rd e q (\<lambda>q'. \<exists>s. q' = up s \<and> R s)"
  by (fastforce simp: reads_as_def)

lemma reads_as_last:
  "reads_as rd e q (\<lambda>q'. \<exists>s. q' = up s \<and> R s) \<Longrightarrow> (\<And>s. R s \<Longrightarrow> Q (up s)) \<Longrightarrow> reads_as rd e q Q"
  by (fastforce simp: reads_as_def)

lemma reads_as_step:
  assumes "reads_as rd1 e1 q (\<lambda>q'. \<exists>s. q' = up s \<and> R s)" and "\<And>s. R s \<Longrightarrow> reads_as rd2 e2 (up s) Q"
  shows "reads_as (\<lambda>q fp. rbind (rd1 q fp) (\<lambda>(fp, q). rd2 q fp)) (e1 @ e2) q Q"
  unfolding reads_as_def
proof (intro allI)
  fix f r
  obtain s where s: "rd1 q (mem_file f (e1 @ e2 @ r)) = Inr (mem_file (f @ e1) (e2 @ r), up s)" "R s"
    using assms(1) by (fastforce simp: reads_as_def)
  obtain q' where "rd2 (up s) (mem_file (f @ e1) (e2 @ r)) = Inr (mem_file ((f @ e1) @ e2) r, q')" "Q q'"
    using assms(2) [OF s(2)] unfolding reads_as_def by blast
  with s(1) show "\<exists>q'. rbind (rd1 q (mem_file f ((e1 @ e2) @ r))) (\<lambda>(fp, q). rd2 q fp) = Inr (mem_file (f @ e1 @ e2) r, q') \<and> Q q'"
    by simp
qed

text \<open>The eight tables, each read into a database of the format that was written.\<close>

lemma commons_back:
  assumes "symbols_ok p" and "empty_table (p_commons q)"
  shows "reads_as (read_symtab no_oom p_commons p_commons_update (\<lambda>m _. common_read m))
      (symtab_enc common_enc every (p_commons p)) q (\<lambda>q'. \<exists>s. q' = q\<lparr>p_commons := s\<rparr> \<and> restored every every id (p_commons p) (p_commons q) s)"
  by (rule reads_as_table, rule fresh_back [where ok = "\<lambda>_. common_ok"]) (use assms in \<open>simp_all add: symbols_ok_def common_read_mem\<close>)

lemma classes_back:
  assumes "symbols_ok p" and "empty_table (p_classes q)" and "same_format p q"
    and "\<And>k. hashtab_search (table (p_commons q)) k = Inr (symtab_map (p_commons p) k)"
  shows "reads_as (read_symtab no_oom p_classes p_classes_update class_read)
      (symtab_enc (class_enc p) every (p_classes p)) q (\<lambda>q'. \<exists>s. q' = q\<lparr>p_classes := s\<rparr> \<and> restored every every id (p_classes p) (p_classes q) s)"
  by (rule reads_as_table, rule fresh_back [where ok = "\<lambda>_. class_ok p"])
    (use assms in \<open>simp_all add: symbols_ok_def class_read_mem same_format_def\<close>)

lemma roles_back:
  assumes "symbols_ok p" and "symtab_wf (p_roles q)" "\<forall>k. plain_role k \<longrightarrow> symtab_map (p_roles q) k = None" and "same_format p q"
  shows "reads_as (read_symtab no_oom p_roles p_roles_update role_read)
      (symtab_enc (role_enc p) (written_role p) (p_roles p)) q (\<lambda>q'. \<exists>s. q' = q\<lparr>p_roles := s\<rparr> \<and> restored plain_role (written_role p) stored_role (p_roles p) (p_roles q) s)"
  by (rule reads_as_table, rule symtab_back [where ok = "\<lambda>k d. role_ok p d \<and> (k = OBJECT_R \<longrightarrow> role_value d = OBJECT_R_VAL)"])
    (use assms in \<open>auto simp: symbols_ok_def role_read_mem same_format_def\<close>)

lemma types_back:
  assumes "symbols_ok p" and "empty_table (p_types q)" and "same_format p q"
  shows "reads_as (read_symtab no_oom p_types p_types_update type_read)
      (symtab_enc (type_enc p) (written_type p) (p_types p)) q (\<lambda>q'. \<exists>s. q' = q\<lparr>p_types := s\<rparr> \<and> restored every (written_type p) id (p_types p) (p_types q) s)"
  by (rule reads_as_table, rule fresh_back [where ok = "\<lambda>_. type_ok p"]) (use assms in \<open>simp_all add: symbols_ok_def type_read_mem same_format_def\<close>)

lemma users_back:
  assumes "symbols_ok p" and "empty_table (p_users q)" and "same_format p q"
  shows "reads_as (read_symtab no_oom p_users p_users_update user_read)
      (symtab_enc (user_enc p) every (p_users p)) q (\<lambda>q'. \<exists>s. q' = q\<lparr>p_users := s\<rparr> \<and> restored every every (stored_user p) (p_users p) (p_users q) s)"
  by (rule reads_as_table, rule fresh_back [where ok = "\<lambda>_. user_ok p"]) (use assms in \<open>simp_all add: symbols_ok_def user_read_mem same_format_def\<close>)

lemma bools_back:
  assumes "symbols_ok p" and "empty_table (p_bools q)" and "same_format p q"
  shows "reads_as (read_symtab no_oom p_bools p_bools_update cond_read_bool)
      (symtab_enc (bool_enc p) every (p_bools p)) q (\<lambda>q'. \<exists>s. q' = q\<lparr>p_bools := s\<rparr> \<and> restored every every id (p_bools p) (p_bools q) s)"
  by (rule reads_as_table, rule fresh_back [where ok = "\<lambda>_. bool_ok p"]) (use assms in \<open>simp_all add: symbols_ok_def bool_read_mem same_format_def\<close>)

lemma levels_back:
  assumes "symbols_ok p" and "empty_table (p_levels q)"
  shows "reads_as (read_symtab no_oom p_levels p_levels_update (\<lambda>m _. sens_read m))
      (symtab_enc sens_enc every (p_levels p)) q (\<lambda>q'. \<exists>s. q' = q\<lparr>p_levels := s\<rparr> \<and> restored every every stored_sens (p_levels p) (p_levels q) s)"
  by (rule reads_as_table, rule fresh_back [where ok = "\<lambda>_. sens_ok"]) (use assms in \<open>simp_all add: symbols_ok_def sens_read_mem\<close>)

lemma cats_back:
  assumes "symbols_ok p" and "empty_table (p_cats q)"
  shows "reads_as (read_symtab no_oom p_cats p_cats_update (\<lambda>m _. cat_read m))
      (symtab_enc cat_enc every (p_cats p)) q (\<lambda>q'. \<exists>s. q' = q\<lparr>p_cats := s\<rparr> \<and> restored every every id (p_cats p) (p_cats q) s)"
  by (rule reads_as_table, rule fresh_back [where ok = "\<lambda>_ _. True"]) (use assms in \<open>simp_all add: symbols_ok_def cat_read_mem\<close>)

lemma symtabs_back:
  assumes ok: "symbols_ok p" and fresh: "fresh_symbols q" and fmt: "same_format p q"
  shows "reads_as (read_symtabs no_oom 8) (symtabs_enc p) q (same_symbols p q)"
proof -
  have new: "empty_table (p_commons q)" "empty_table (p_classes q)" "empty_table (p_types q)" "empty_table (p_users q)"
    "empty_table (p_bools q)" "empty_table (p_levels q)" "empty_table (p_cats q)" "symtab_wf (p_roles q)"
    "\<forall>k. plain_role k \<longrightarrow> symtab_map (p_roles q) k = None"
    using fresh by (simp_all add: fresh_symbols_def)
  show ?thesis
    unfolding read_symtabs_8 symtabs_enc_def concat.simps append_Nil2
    by (intro reads_as_step [OF commons_back] reads_as_step [OF classes_back] reads_as_step [OF roles_back] reads_as_step [OF types_back]
          reads_as_step [OF users_back] reads_as_step [OF bools_back] reads_as_step [OF levels_back] reads_as_last [OF cats_back] ok)
      (use fmt new in \<open>simp_all add: same_format_def same_symbols_def restored_search [OF _ new(1)]\<close>)
qed

text \<open>
  C5: The symbol tables of a policy are read back as they were written.  If the format of the policy can hold
  its symbols and \<^verbatim>\<open>policydb_write\<close> can write its eight symbol tables, then \<^verbatim>\<open>policydb_read\<close> reads
  them into any new database of that format, stops where the writer stopped, and has the same numbers
  of values and under every name the datum that was written.  Left out are the attributes that the version does not have,
  the caches of the roles and the marks of defined sensitivities; the role \<^verbatim>\<open>object_r\<close> stays the one of the new database,
  and a user has the ranges of the policy's kind.
\<close>

theorem symtabs_roundtrip:
  assumes "symbols_ok p" and "fresh_symbols q" and "same_format p q" and "write_symtabs p 8 (mem_file f d) = Inr fp"
  shows "\<exists>q'. read_symtabs no_oom 8 q (mem_file f (drop (length f) (passed fp @ data fp))) = Inr (fp, q') \<and> same_symbols p q q'"
proof -
  have "length (symtabs_enc p) \<le> length d" "fp = mem_file (f @ symtabs_enc p) (drop (length (symtabs_enc p)) d)"
    using writes_symtabs [OF assms(1)] assms(4) by (auto simp: writes_def split: if_splits)
  then show ?thesis
    using symtabs_back [OF assms(1-3), unfolded reads_as_def, rule_format, of f "drop (length (symtabs_enc p)) d"] by (simp add: mem_file_def)
qed

lemma one_slot_symtab_ok:
  assumes "chain_sorted strcmp kvs" and "length kvs < 2 ^ 32" and "\<forall>(k, d) \<in> set kvs. c_string k \<and> (w d \<longrightarrow> ok k d)"
  shows "symtab_ok ok w (one_slot kvs)"
  using assms one_slot_wf [OF assms(1,2)]
  by (auto simp: symtab_ok_def table_ok_def symtab_wf_def one_slot_def nel_ok_def entries_def)

definition sample_perms :: "perm_datum symtab" where
  "sample_perms = \<lparr>table = Some \<lparr>htable = replicate 20 [] @ [[(''read'', \<lparr>perm_value = 1\<rparr>)]] @ replicate 11 [], hsize = PERM_SYMTAB_SIZE, nel = 1,
     hash_value = symhash, keycmp = symcmp\<rparr>, nprim = 1\<rparr>"

definition sample_common :: common_datum where
  "sample_common = \<lparr>common_value = 1, common_permissions = sample_perms\<rparr>"

definition sample_class :: class_datum where
  "sample_class = \<lparr>class_value = 1, comkey = Some ''file'', comdatum = Some sample_common, class_permissions = sample_perms,
     constraints = [\<lparr>permissions = 1, cn_expr = [\<lparr>expr_type = CEXPR_ATTR, attr = 1, cop = 1, names = ebitmap_init, type_names = Some type_set_init\<rparr>]\<rparr>],
     validatetrans = [], default_user = 0, default_role = 0, default_type = 0, default_range = 0\<rparr>"

text \<open>A kernel policy that is too old for attributes.\<close>

definition sample_written :: policydb where
  "sample_written = sample_mls\<lparr>policy_type := POLICY_KERN, policyvers := 23,
     p_commons := one_slot [(''file'', sample_common)], p_classes := one_slot [(''file'', sample_class)],
     p_roles := one_slot [(''object_r'', role_zero\<lparr>role_value := OBJECT_R_VAL\<rparr>),
       (''r'', role_zero\<lparr>role_value := 2, dominates := low_bits 2, role_types := \<lparr>ts_types = low_bits 1, negset = ebitmap_init, ts_flags = 0\<rparr>\<rparr>)],
     p_types := one_slot [(''a'', sample_type 2 TYPE_ATTRIB (low_bits 1)), (''t'', sample_type 1 0 ebitmap_init)],
     p_users := one_slot [(''u'', user_zero\<lparr>user_value := 1, user_roles := \<lparr>rs_roles = low_bits 2, rs_flags = 0\<rparr>\<rparr>)],
     p_bools := one_slot [(''b'', \<lparr>bool_value = 1, state = 1, bool_flags = 0\<rparr>)]\<rparr>"

lemma sample_perms_ok: "perms_ok sample_perms"
proof -
  have hash: "symhash 32 ''read'' = 20" by code_simp
  have "sym_wf (the (table sample_perms))"
    by (auto simp: sample_perms_def hashtab_wf_def sym_size_def PERM_SYMTAB_SIZE_def nth_append nth_Cons' chain_sorted_def hash split: if_splits)
  then show ?thesis
    by (simp add: perms_ok_def table_ok_def sample_perms_def nel_ok_def entries_def c_string_def)
qed

lemma sample_written_simps:
  "policy_type sample_written = POLICY_KERN" "policyvers sample_written = 23" "\<not> policydb_has_boundary_feature sample_written"
  "p_commons sample_written = one_slot [(''file'', sample_common)]" "p_classes sample_written = one_slot [(''file'', sample_class)]"
  "p_roles sample_written = one_slot [(''object_r'', role_zero\<lparr>role_value := OBJECT_R_VAL\<rparr>),
     (''r'', role_zero\<lparr>role_value := 2, dominates := low_bits 2, role_types := \<lparr>ts_types = low_bits 1, negset = ebitmap_init, ts_flags = 0\<rparr>\<rparr>)]"
  "p_types sample_written = one_slot [(''a'', sample_type 2 TYPE_ATTRIB (low_bits 1)), (''t'', sample_type 1 0 ebitmap_init)]"
  "p_users sample_written = one_slot [(''u'', user_zero\<lparr>user_value := 1, user_roles := \<lparr>rs_roles = low_bits 2, rs_flags = 0\<rparr>\<rparr>)]"
  "p_bools sample_written = one_slot [(''b'', \<lparr>bool_value = 1, state = 1, bool_flags = 0\<rparr>)]"
  "expanded_users sample_written" "skips_type_attributes sample_written" "\<not> role_attrs sample_written" "\<not> tunables sample_written"
  by (simp_all add: sample_written_def policydb_has_boundary_feature_def expanded_users_def skips_type_attributes_def role_attrs_def tunables_def
      POLICYDB_VERSION_BOUNDARY_def POLICYDB_VERSION_MLS_def POLICY_KERN_def)

lemma sample_class_ok: "class_ok sample_written sample_class"
proof -
  have k: "kern_or_base sample_written POLICYDB_VERSION_VALIDATETRANS MOD_POLICYDB_VERSION_VALIDATETRANS"
    by (simp add: kern_or_base_def sample_written_simps POLICYDB_VERSION_VALIDATETRANS_def)
  have "CEXPR_ATTR \<noteq> CEXPR_NAMES" "CEXPR_ATTR \<noteq> CEXPR_NOT" "CEXPR_ATTR \<noteq> CEXPR_AND" "CEXPR_ATTR \<noteq> CEXPR_OR"
    by (simp_all add: CEXPR_NAMES_def CEXPR_NOT_def CEXPR_AND_def CEXPR_OR_def CEXPR_ATTR_def)
  then have "cons_ok sample_written False c" if "c \<in> set (constraints sample_class)" for c
    using that by (auto simp: sample_class_def cons_ok_def cexpr_ok_def cexpr_depth_def CEXPR_MAXDEPTH_def type_set_ok_def type_set_init_def)
  then show ?thesis
    using k sample_perms_ok by (simp add: class_ok_def sample_class_def sample_written_simps one_slot_map c_string_def)
qed

lemma sample_written_ok: "symbols_ok sample_written"
proof -
  have "symtab_ok (\<lambda>_. common_ok) every (p_commons sample_written)" "symtab_ok (\<lambda>_. class_ok sample_written) every (p_classes sample_written)"
    unfolding sample_written_simps
    by (rule one_slot_symtab_ok; simp add: chain_sorted_def c_string_def common_ok_def sample_common_def sample_perms_ok sample_class_ok)+
  moreover have "symtab_ok (\<lambda>k d. role_ok sample_written d \<and> (k = OBJECT_R \<longrightarrow> role_value d = OBJECT_R_VAL)) (written_role sample_written) (p_roles sample_written)"
    unfolding role_ok_def sample_written_simps
    by (rule one_slot_symtab_ok)
      (simp_all add: chain_sorted_def c_string_def role_zero_def type_set_ok_def type_set_init_def low_bits_wf OBJECT_R_def sample_written_simps)
  moreover have "symtab_ok (\<lambda>_. type_ok sample_written) (written_type sample_written) (p_types sample_written)"
    unfolding type_ok_def written_type_def sample_written_simps
    by (rule one_slot_symtab_ok) (simp_all add: chain_sorted_def c_string_def sample_type_def sample_written_simps)
  moreover have "symtab_ok (\<lambda>_. user_ok sample_written) every (p_users sample_written)"
    unfolding user_ok_def sample_written_simps
    by (rule one_slot_symtab_ok)
      (simp_all add: chain_sorted_def c_string_def user_zero_def role_set_ok_def low_bits_wf range_ok_def level_ok_def mls_range_init_def mls_level_init_def sample_written_simps)
  moreover have "symtab_ok (\<lambda>_. bool_ok sample_written) every (p_bools sample_written)"
    unfolding bool_ok_def sample_written_simps
    by (rule one_slot_symtab_ok) (simp_all add: chain_sorted_def c_string_def bool_isvalid_def)
  moreover have "symtab_ok (\<lambda>_. sens_ok) every (p_levels sample_written)" "symtab_ok (\<lambda>_ _. True) every (p_cats sample_written)"
    by (simp add: sample_written_def sample_mls_def, rule one_slot_symtab_ok;
        simp add: chain_sorted_def c_string_def sens_ok_def level_ok_def low_bits_wf)+
  ultimately show ?thesis by (simp add: symbols_ok_def sample_written_simps)
qed

lemma sample_length: "length (symtabs_enc sample_written) \<le> 1000"
  by code_simp

theorem symtabs_roundtrip_witness:
  "\<exists>q fp q'. policydb_init no_oom = Inr q \<and> write_symtabs sample_written 8 (mem_file [] (replicate 1000 0)) = Inr fp \<and>
     read_symtabs no_oom 8 (q\<lparr>policy_type := POLICY_KERN, policyvers := 23\<rparr>) (mem_file [] (passed fp @ data fp)) = Inr (fp, q') \<and>
     map_option type_value (symtab_map (p_types q') ''t'') = Some 1 \<and> symtab_map (p_types q') ''a'' = None \<and> nprim (p_types q') = 2"
proof -
  obtain q where q: "policydb_init no_oom = Inr q" "fresh_symbols q"
    by (rule policydb_init_result) (simp add: fresh_symbols_def)
  let ?q = "q\<lparr>policy_type := POLICY_KERN, policyvers := 23\<rparr>"
  obtain fp where fp: "write_symtabs sample_written 8 (mem_file [] (replicate 1000 0)) = Inr fp"
    using writes_symtabs [OF sample_written_ok] sample_length by (simp add: writes_def)
  have fmt: "fresh_symbols ?q" "same_format sample_written ?q"
    using q(2) by (simp_all add: fresh_symbols_def same_format_def sample_written_simps)
  obtain q' where q': "read_symtabs no_oom 8 ?q (mem_file [] (passed fp @ data fp)) = Inr (fp, q')" "same_symbols sample_written ?q q'"
    using symtabs_roundtrip [OF sample_written_ok fmt fp] by auto
  then have "restored every (written_type sample_written) id (p_types sample_written) (p_types q) (p_types q')"
    by (simp add: same_symbols_def)
  then have "nprim (p_types q') = 2" "map_option type_value (symtab_map (p_types q') ''t'') = Some 1" "symtab_map (p_types q') ''a'' = None"
    using q(2) unfolding restored_def sample_written_simps kept_def
    by (simp_all add: fresh_symbols_def empty_table_def one_slot_map written_type_def sample_written_simps sample_type_def TYPE_ATTRIB_def,
        simp add: one_slot_def)
  then show ?thesis using q(1) fp q'(1) by blast
qed

end
