(* ===== verification/Spec2Isabelle.thy ===== *)
theory Spec2Isabelle
  imports Cond_Normalize Cond_Read Services_Laws Server_Laws Hierarchy_Laws Table_Roundtrip
begin

text \<open>
  A verification library for the core of the SELinux userspace: \<^verbatim>\<open>libsepol\<close>, the library that holds,
  reads, writes, checks and interprets a binary policy.  Paths below are relative to \<^verbatim>\<open>src/libsepol/src\<close>.

  \<^bold>\<open>The program.\<close>  A policy database (\<^verbatim>\<open>policydb.c\<close>) has a symbol table (\<^verbatim>\<open>symtab.c\<close>, \<^verbatim>\<open>hashtab.c\<close>) for
  every kind of name, access vector tables (\<^verbatim>\<open>avtab.c\<close>) with rules, conditional rules
  (\<^verbatim>\<open>conditional.c\<close>), and lists with the contexts of objects.  Sets of types, roles and categories are
  sparse bitmaps (\<^verbatim>\<open>ebitmap.c\<close>).  The security server (\<^verbatim>\<open>services.c\<close>) answers access queries and
  labelling requests from a policy and a table of security identifiers (\<^verbatim>\<open>sidtab.c\<close>); contexts carry
  levels of multilevel security (\<^verbatim>\<open>mls.c\<close>) and have a text form (\<^verbatim>\<open>context.c\<close>, \<^verbatim>\<open>context_record.c\<close>).

  \<^bold>\<open>Conventions.\<close>  (\<open>Prelude\<close>.)  A function that can fail returns \<open>err + 'a\<close>; the error \<open>UB\<close> stands
  for undefined behaviour, that is an access outside an array, to a null pointer, or to memory that was
  freed or never initialised, and for a failed assertion.  Memory is an oracle \<open>alloc\<close>: every allocation
  site asks \<open>malloc\<close> at its own position (\<open>at_site\<close>), so that a theorem for all oracles covers every
  pattern of failures, and \<open>no_oom\<close> is the oracle without any.  Loops are \<open>for_each\<close> over the list of the
  values of their counter; there is no fuel, every loop of the model ends by its data.
  Integers keep their width (\<open>u32\<close>, \<open>u16\<close>, \<open>u8\<close>, \<open>u64\<close>).  Linked lists are lists; a hash
  table is an array of lists; nodes of access vector tables, to which conditional lists point, have
  addresses.  A function that changes shared state returns the state also with an error.  Messages
  are left out.

  \<^bold>\<open>Data structures.\<close>
  \<^item> \<open>Ebitmap\<close>, \<open>Ebitmap_Algebra\<close>: \<^verbatim>\<open>ebitmap.c\<close> and \<^verbatim>\<open>ebitmap.h\<close>.  Canonical bitmaps represent sets of
    naturals; the operations compute set operations, comparisons decide equality and inclusion.
  \<^item> \<open>Hashtab\<close>, \<open>Symtab\<close>: \<^verbatim>\<open>hashtab.c\<close>, \<^verbatim>\<open>symtab.c\<close>.  The locale \<open>hash_keys\<close> states what a hash function
    and an order of keys have to provide; it is interpreted for symbol tables and, in \<open>Sidtab\<close>, for SIDs.
    Tables refine finite maps.
  \<^item> \<open>Avtab\<close>, \<open>Avtab_Laws\<close>: \<^verbatim>\<open>avtab.c\<close>, with the readers of all formats of rules.
  \<^item> \<open>Mls\<close>: \<^verbatim>\<open>mls_types.h\<close>, \<^verbatim>\<open>context.h\<close>.  Dominance is a partial order.
  \<^item> \<open>Sidtab\<close>: \<^verbatim>\<open>sidtab.c\<close>, as a map from SIDs to contexts.
  \<^item> \<open>Policyfile\<close>: \<^verbatim>\<open>next_entry\<close>, \<^verbatim>\<open>put_entry\<close>, \<^verbatim>\<open>ebitmap_read\<close>, \<^verbatim>\<open>ebitmap_write\<close>, and their round trip.
  \<^item> \<open>Policydb\<close>, \<open>Policydb_Sets\<close>: the records of \<^verbatim>\<open>policydb.h\<close> and the operations on sets of types and roles.
  \<^item> \<open>Util\<close>: \<^verbatim>\<open>util.c\<close>, \<^verbatim>\<open>polcaps.c\<close>, \<^verbatim>\<open>constraint.c\<close>, \<^verbatim>\<open>roles.c\<close>.

  \<^bold>\<open>Interpretation of a policy.\<close>
  \<^item> \<open>Rpn\<close>: expressions in postfix notation and the depth of stack they need, shared by the two
    stack machines.
  \<^item> \<open>Conditional\<close>, \<open>Conditional_Laws\<close>, \<open>Cond_Normalize\<close>, \<open>Cond_Read\<close>: \<^verbatim>\<open>conditional.c\<close>.  Evaluation
    computes truth values; \<^verbatim>\<open>evaluate_conds\<close> keeps the enabled rules in step with the Booleans;
    normalisation computes truth tables.
  \<^item> \<open>Mls_Policy\<close>, \<open>Mls_Laws\<close>, \<open>Mls_Roundtrip\<close>: \<^verbatim>\<open>mls.c\<close>.
  \<^item> \<open>Context\<close>, \<open>Context_Laws\<close>: \<^verbatim>\<open>context.c\<close>, \<^verbatim>\<open>context_record.c\<close>.
  \<^item> \<open>Expand_Sets\<close>, \<open>Expand_Laws\<close>: the part of \<^verbatim>\<open>expand.c\<close> on sets of types and roles and on levels.
  \<^item> \<open>Policydb_Index\<close>, \<open>Index_Laws\<close>: the arrays of names and the caches of \<^verbatim>\<open>policydb.c\<close>.
  \<^item> \<open>Constraint\<close>, \<open>Constraint_Laws\<close>: \<^verbatim>\<open>constraint_expr_eval_reason\<close> of \<^verbatim>\<open>services.c\<close>.
  \<^item> \<open>Services\<close>, \<open>Services_Laws\<close>: access decisions and SIDs of new objects.  A decision is what
    the rules, the constraints and the role transitions say.
  \<^item> \<open>Object_Sids\<close>: the SIDs of file systems, ports, interfaces, nodes and of users.

  \<^bold>\<open>Reading a policy and replacing it.\<close>
  \<^item> \<open>Modules\<close>, \<open>Modules_Laws\<close>: the blocks, declarations and scopes that a module has beside a kernel
    policy, their readers, \<^verbatim>\<open>symtab_insert\<close> and \<^verbatim>\<open>is_id_enabled\<close> (\<^verbatim>\<open>avrule_block.c\<close>, \<^verbatim>\<open>policydb.c\<close>).
  \<^item> \<open>Policydb_Read\<close>, \<open>Policydb_File\<close>: \<^verbatim>\<open>policydb_read\<close> for kernel policies and modules, with the readers of
    symbols, rules, contexts, generic file systems and attribute maps, and \<^verbatim>\<open>policydb_init\<close>.
  \<^item> \<open>Read_Laws\<close>, \<open>Genfs_Laws\<close>, \<open>Attribute_Laws\<close>, \<open>Policy_Laws\<close>: every context of a policy that was read
    is valid in it, generic file systems are sorted and their lookup takes the longest path, and the
    maps of types and attributes are converse.
  \<^item> \<open>Server\<close>, \<open>Server_Laws\<close>: the state of the security server.  \<open>server_step\<close> is one call of a client
    and \<open>reachable\<close> the states that calls lead to; in all of them SIDs stand for valid contexts.

  \<^bold>\<open>Checking a policy.\<close>
  \<^item> \<open>Assertion\<close>, \<open>Assertion_Laws\<close>: \<^verbatim>\<open>assertion.c\<close>.  The check of neverallow rules decides whether a rule of
    the policy violates one.
  \<^item> \<open>Hierarchy\<close>, \<open>Hierarchy_Laws\<close>: \<^verbatim>\<open>hierarchy.c\<close>.  If the check of bounds finds nothing, a type has no
    permission that its parent does not have.

  \<^bold>\<open>Writing a policy.\<close>
  \<^item> \<open>Expand_Avtab\<close>: the part of \<^verbatim>\<open>expand.c\<close> that expands tables of rules with attributes, which the
    writer needs for old versions.
  \<^item> \<open>Policydb_Write\<close>: \<^verbatim>\<open>write.c\<close>, up to \<^verbatim>\<open>policydb_write\<close>.  A writer is a function from files to files;
    \<open>in_order\<close> composes them.
  \<^item> \<open>Write_Laws\<close>, \<open>Roundtrip\<close>, \<open>Symbol_Roundtrip\<close>, \<open>Table_Roundtrip\<close>: what the writers write, what the readers make
    of it, and that the symbol tables come back.  A hash table is determined by its size and its
    entries (\<open>table_unique\<close>), so that permissions and commons come back as equal tables, the
    tables of a policy as equal maps.  The locale \<open>file_codec\<close> of \<open>Policyfile\<close> is interpreted for bitmaps, sets of types and
    roles, levels and ranges.

  \<^bold>\<open>Not modelled.\<close>  The text that explains a denied access is not modelled; its allocations are.  There are
  round trips for symbols, not for rules, object contexts and the blocks of modules.  The linker, the rest of the
  expander, the packages of modules, the translation to CIL, the CIL compiler, the
  compiler \<^verbatim>\<open>checkpolicy\<close> with its generated parser, and the libraries and programs that talk to the kernel or to the
  file system are not modelled.
\<close>

end
